(* ===== verification/Prelude.thy ===== *)
theory Prelude
  imports Main "HOL-Library.Word"
begin

text \<open>
  Shared ground of the development: C characters and the \<open>ctype\<close> and string functions the
  sources call, arrays as total functions with their C-string reading, byte order, and the
  wrap-around of narrow integers.

  Conventions. A plain \<open>char\<close> is an \<open>int\<close> in the range of a signed 8-bit value, which is what
  gcc gives it on x86; \<open>EOF\<close> is \<open>-1\<close>, so the byte 0xFF read through a plain \<open>char\<close> is
  indistinguishable from \<open>EOF\<close>, as in the code. A C string is the list of the characters before its
  terminating NUL. A local array of fixed size is a total function on indices; the sizes are
  written out where the code tests them. The host is little-endian.
\<close>

named_theorems ctype_simps \<open>definitions of the character classes\<close>

section \<open>Characters\<close>

abbreviation EOF :: int where
  "EOF \<equiv> -1"

abbreviation EOL :: int where
  "EOL \<equiv> 10"

definition isascii :: "int \<Rightarrow> bool" where
  [ctype_simps]: "isascii c \<longleftrightarrow> 0 \<le> c \<and> c < 128"

definition isdigit :: "int \<Rightarrow> bool" where
  [ctype_simps]: "isdigit c \<longleftrightarrow> 48 \<le> c \<and> c \<le> 57"

definition isalpha :: "int \<Rightarrow> bool" where
  [ctype_simps]: "isalpha c \<longleftrightarrow> (65 \<le> c \<and> c \<le> 90) \<or> (97 \<le> c \<and> c \<le> 122)"

definition isalnum :: "int \<Rightarrow> bool" where
  [ctype_simps]: "isalnum c \<longleftrightarrow> isalpha c \<or> isdigit c"

definition isxdigit :: "int \<Rightarrow> bool" where
  [ctype_simps]: "isxdigit c \<longleftrightarrow> isdigit c \<or> (65 \<le> c \<and> c \<le> 70) \<or> (97 \<le> c \<and> c \<le> 102)"

definition isspace :: "int \<Rightarrow> bool" where
  [ctype_simps]: "isspace c \<longleftrightarrow> c = 32 \<or> (9 \<le> c \<and> c \<le> 13)"

definition tolower_c :: "int \<Rightarrow> int" where
  [ctype_simps]: "tolower_c c = (if 65 \<le> c \<and> c \<le> 90 then c + 32 else c)"

definition codes :: "string \<Rightarrow> int list" where
  "codes s = map of_char s"

lemma codes_simps [simp]:
  "codes [] = []"
  "codes (c # s) = of_char c # codes s"
  "codes (s @ t) = codes s @ codes t"
  by (simp_all add: codes_def)

lemma length_codes [simp]: "length (codes s) = length s"
  by (simp add: codes_def)

lemma not_isascii_EOF [simp]: "\<not> isascii EOF"
  by (simp add: ctype_simps)

lemma tolower_c_idem [simp]: "tolower_c (tolower_c c) = tolower_c c"
  by (simp add: ctype_simps)

lemma isascii_tolower_c [simp]: "isascii (tolower_c c) \<longleftrightarrow> isascii c"
  by (auto simp: ctype_simps)

lemma tolower_c_zero [simp]: "tolower_c c = 0 \<longleftrightarrow> c = 0"
  by (auto simp: ctype_simps)

lemma isalnum_isascii: "isalnum c \<Longrightarrow> isascii c"
  by (auto simp: ctype_simps)

section \<open>C strings\<close>

text \<open>Reading a string at an index: the terminating NUL is at its length.\<close>

definition c_at :: "int list \<Rightarrow> nat \<Rightarrow> int" where
  "c_at s k = (if k < length s then s ! k else 0)"

text \<open>The two comparisons are used through \<open>!strcasecmp\<close> and \<open>!strncasecmp\<close> only.\<close>

fun strcaseeq :: "int list \<Rightarrow> string \<Rightarrow> bool" where
  "strcaseeq [] [] = True"
| "strcaseeq (x # xs) (c # cs) =
     (if tolower_c x = tolower_c (of_char c) then strcaseeq xs cs else False)"
| "strcaseeq _ _ = False"

definition strncaseeq :: "int list \<Rightarrow> string \<Rightarrow> nat \<Rightarrow> bool" where
  "strncaseeq s t n = strcaseeq (take n s) (take n t)"

lemma strcaseeq_iff: "strcaseeq s t \<longleftrightarrow> map tolower_c s = map tolower_c (codes t)"
  by (induction s t rule: strcaseeq.induct) auto

lemma strncaseeq_nth:
  assumes "strncaseeq s t n" "k < n" "k < length t"
  shows "k < length s \<and> tolower_c (s ! k) = tolower_c (of_char (t ! k))"
proof -
  have eq: "map tolower_c (take n s) = map tolower_c (codes (take n t))"
    using assms(1) by (simp add: strncaseeq_def strcaseeq_iff)
  then have len: "length (take n s) = length (take n t)"
    by (metis length_map length_codes)
  with assms have k: "k < length (take n s)" by simp
  then have "map tolower_c (take n s) ! k = map tolower_c (codes (take n t)) ! k"
    using eq by simp
  with k len assms(2) show ?thesis by (simp add: codes_def)
qed

text \<open>\<open>strncpy(dst, src, n)\<close> as the \<open>n\<close> bytes it writes: the source, padded with NULs.\<close>

definition strncpy_bytes :: "nat \<Rightarrow> 'a::zero list \<Rightarrow> 'a list" where
  "strncpy_bytes n s = take n s @ replicate (n - length s) 0"

lemma length_strncpy_bytes [simp]: "length (strncpy_bytes n s) = n"
  by (simp add: strncpy_bytes_def)

section \<open>Arrays as functions\<close>

type_synonym carray = "nat \<Rightarrow> int"

text \<open>The C string that starts at index \<open>i\<close> of an array of \<open>n\<close> cells.\<close>

function cstr_from :: "carray \<Rightarrow> nat \<Rightarrow> nat \<Rightarrow> int list" where
  "cstr_from a i n = (if i < n \<and> a i \<noteq> 0 then a i # cstr_from a (Suc i) n else [])"
  by pat_completeness auto
termination
  by (relation "measure (\<lambda>(a, i, n). n - i)") auto

declare cstr_from.simps [simp del]

text \<open>An array holds a text from an index on, followed by a NUL.\<close>

definition holds :: "carray \<Rightarrow> nat \<Rightarrow> int list \<Rightarrow> bool" where
  "holds a i xs \<longleftrightarrow> (\<forall>k < length xs. a (i + k) = xs ! k) \<and> a (i + length xs) = 0"

lemma holds_Nil [simp]: "holds a i [] \<longleftrightarrow> a i = 0"
  by (simp add: holds_def)

lemma holds_Cons [simp]: "holds a i (x # xs) \<longleftrightarrow> a i = x \<and> holds a (Suc i) xs"
  unfolding holds_def by (auto simp: nth_Cons less_Suc_eq_0_disj split: nat.splits)

lemma cstr_from_holds:
  assumes "holds a i xs" "0 \<notin> set xs" "i + length xs < n"
  shows "cstr_from a i n = xs"
  using assms
proof (induction xs arbitrary: i)
  case Nil
  then show ?case by (simp add: cstr_from.simps)
next
  case (Cons x xs)
  then show ?case by (subst cstr_from.simps) auto
qed

section \<open>Narrow integers\<close>

text \<open>Storing an \<open>int\<close> into a plain \<open>char\<close>, and into a signed 32-bit \<open>int\<close>.\<close>

definition to_char :: "int \<Rightarrow> int" where
  "to_char v = (v + 128) mod 256 - 128"

definition to_s32 :: "int \<Rightarrow> int" where
  "to_s32 v = (v + 2 ^ 31) mod 2 ^ 32 - 2 ^ 31"

lemma to_char_id [simp]: "-128 \<le> v \<Longrightarrow> v < 128 \<Longrightarrow> to_char v = v"
  by (simp add: to_char_def)

lemma to_char_range: "-128 \<le> to_char v \<and> to_char v < 128"
proof -
  have "0 \<le> (v + 128) mod 256" "(v + 128) mod 256 < 256" by simp_all
  then show ?thesis unfolding to_char_def by linarith
qed

lemma to_s32_id: "- (2 ^ 31) \<le> v \<Longrightarrow> v < 2 ^ 31 \<Longrightarrow> to_s32 v = v"
  by (simp add: to_s32_def)

section \<open>Decimal texts\<close>

text \<open>What \<open>printf("%d")\<close> writes for a number that is not negative.\<close>

function dec :: "nat \<Rightarrow> int list" where
  "dec n = (if n < 10 then [48 + int n] else dec (n div 10) @ [48 + int (n mod 10)])"
  by pat_completeness auto
termination
  by (relation "measure id") auto

declare dec.simps [simp del]

lemma isdigit_of_nat: "k < 10 \<Longrightarrow> isdigit (48 + int k)"
  by (simp add: isdigit_def)

lemma dec_digits: "list_all isdigit (dec n)"
proof (induction n rule: dec.induct)
  case (1 n)
  then show ?case by (subst dec.simps) (simp add: isdigit_of_nat)
qed

lemma dec_not_Nil [simp]: "dec n \<noteq> []"
  by (subst dec.simps) simp

lemma dec_Cons:
  obtains d ds where "dec n = d # ds" "isdigit d" "list_all isdigit ds"
  using dec_digits [of n] by (cases "dec n") auto

lemma dec_length: "n < 10 ^ k \<Longrightarrow> 0 < k \<Longrightarrow> length (dec n) \<le> k"
proof (induction k arbitrary: n)
  case (Suc k)
  show ?case
  proof (cases "n < 10")
    case False
    with Suc.prems have k: "0 < k" by (cases k) auto
    have "n div 10 < 10 ^ k" using Suc.prems(1) by simp
    with Suc.IH [OF _ k] have "length (dec (n div 10)) \<le> k" by blast
    with False show ?thesis by (simp add: dec.simps [of n])
  qed (simp add: dec.simps [of n])
qed simp

text \<open>\<^verbatim>\<open>atoi\<close> of glibc: \<^verbatim>\<open>strtol\<close> with its clamping to 64 bits, converted to \<open>int\<close>.\<close>

fun dec_val :: "int \<Rightarrow> int list \<Rightarrow> int" where
  "dec_val v [] = v"
| "dec_val v (c # cs) = (if isdigit c then dec_val (10 * v + (c - 48)) cs else v)"

definition atoi :: "int list \<Rightarrow> int" where
  "atoi str =
     (let s = dropWhile isspace str;
          v = (if c_at s 0 = 45 then - dec_val 0 (drop 1 s)
               else if c_at s 0 = 43 then dec_val 0 (drop 1 s) else dec_val 0 s)
      in to_s32 (max (- (2 ^ 63)) (min (2 ^ 63 - 1) v)))"

lemma dec_val_append:
  "list_all isdigit xs \<Longrightarrow> dec_val v (xs @ ys) = dec_val (dec_val v xs) ys"
  by (induction xs arbitrary: v) auto

lemma dec_val_dec [simp]: "dec_val 0 (dec n) = int n"
proof (induction n rule: dec.induct)
  case (1 n)
  show ?case
  proof (cases "n < 10")
    case True
    then show ?thesis by (simp add: dec.simps [of n] ctype_simps)
  next
    case False
    have "isdigit (48 + int (n mod 10))" by (simp add: isdigit_of_nat)
    with False 1 show ?thesis
      by (simp add: dec.simps [of n] dec_val_append dec_digits) (simp add: zdiv_int zmod_int)
  qed
qed

lemma atoi_dec:
  assumes "n < 2 ^ 31"
  shows "atoi (dec n) = int n"
proof -
  obtain d ds where d: "dec n = d # ds" "isdigit d" using dec_Cons by metis
  then have "dropWhile isspace (dec n) = dec n" "c_at (dec n) 0 \<noteq> 45" "c_at (dec n) 0 \<noteq> 43"
    by (auto simp: ctype_simps c_at_def)
  moreover have "to_s32 (int n) = int n" using assms by (simp add: to_s32_id)
  moreover have "max (- (2 ^ 63)) (min (2 ^ 63 - 1) (int n)) = int n" using assms by simp
  ultimately show ?thesis by (simp add: atoi_def Let_def)
qed

section \<open>Bytes of machine words\<close>

type_synonym byte = "8 word"

text \<open>
  The bytes of a value as they lie in memory on the little-endian host, the byte swaps
  \<open>htons\<close> and \<open>htonl\<close>, and the reads that invert them.
\<close>

definition mem16 :: "16 word \<Rightarrow> byte list" where
  "mem16 w = [ucast w, ucast (drop_bit 8 w)]"

definition mem32 :: "32 word \<Rightarrow> byte list" where
  "mem32 w = [ucast w, ucast (drop_bit 8 w), ucast (drop_bit 16 w), ucast (drop_bit 24 w)]"

definition rd16 :: "byte \<Rightarrow> byte \<Rightarrow> 16 word" where
  "rd16 a b = word_cat b a"

definition rd32 :: "byte \<Rightarrow> byte \<Rightarrow> byte \<Rightarrow> byte \<Rightarrow> 32 word" where
  "rd32 a b c d = word_cat (word_cat d c :: 16 word) (word_cat b a :: 16 word)"

definition htons :: "16 word \<Rightarrow> 16 word" where
  "htons w = word_cat (ucast w :: byte) (ucast (drop_bit 8 w) :: byte)"

definition htonl :: "32 word \<Rightarrow> 32 word" where
  "htonl w = word_cat (word_cat (ucast w :: byte) (ucast (drop_bit 8 w) :: byte) :: 16 word)
                      (word_cat (ucast (drop_bit 16 w) :: byte) (ucast (drop_bit 24 w) :: byte) :: 16 word)"

lemma length_mem [simp]: "length (mem16 w) = 2" "length (mem32 v) = 4"
  by (simp_all add: mem16_def mem32_def)

lemma rd16_mem16 [simp]: "mem16 w = [a, b] \<Longrightarrow> rd16 a b = w"
  by (rule bit_word_eqI) (auto simp: mem16_def rd16_def bit_simps)

lemma rd32_mem32 [simp]: "mem32 w = [a, b, c, d] \<Longrightarrow> rd32 a b c d = w"
  by (rule bit_word_eqI) (auto simp: mem32_def rd32_def bit_simps)

lemma htons_htons [simp]: "htons (htons w) = w"
  by (rule bit_word_eqI) (auto simp: htons_def bit_simps)

lemma htonl_htonl [simp]: "htonl (htonl w) = w"
  by (rule bit_word_eqI) (auto simp: htonl_def bit_simps)

text \<open>In network order the most significant byte comes first.\<close>

lemma mem16_htons: "mem16 (htons w) = rev (mem16 w)"
  by (auto simp: mem16_def htons_def bit_simps intro!: bit_word_eqI)

lemma mem32_htonl: "mem32 (htonl w) = rev (mem32 w)"
  by (auto simp: mem32_def htonl_def bit_simps intro!: bit_word_eqI)

end
