(* ===== verification/Lease_Tokens.thy ===== *)
theory Lease_Tokens
  imports Prelude
begin

text \<open>
  The tokens of the lease-file language, \<^verbatim>\<open>enum dhcp_token\<close> of base/cl_parse.h, and the keyword
  recogniser \<^verbatim>\<open>intern\<close> of base/cl_parse.c.

  A token is an \<open>int\<close>, as an enumeration constant is in C: the lexer returns bare characters as
  tokens, two constants share the value 601, and the constants between 256 and 615 have gaps.
  \<open>ALL\<close> is written \<open>ALL_TOKEN\<close>; every other name is the source's. \<open>intern\<close> is one definition per
  letter of its switch; a \<^verbatim>\<open>break\<close> out of the switch is \<open>dfv\<close>, which the function then returns, and
  a block that can be left at its closing brace is an option whose \<open>None\<close> goes on behind it. The switch is shown equal to a
  table of the keywords.
\<close>

section \<open>The token codes\<close>

abbreviation SEMI :: int where "SEMI \<equiv> 59"

abbreviation DOT :: int where "DOT \<equiv> 46"

abbreviation COLON :: int where "COLON \<equiv> 58"

abbreviation COMMA :: int where "COMMA \<equiv> 44"

abbreviation SLASH :: int where "SLASH \<equiv> 47"

abbreviation LBRACE :: int where "LBRACE \<equiv> 123"

abbreviation RBRACE :: int where "RBRACE \<equiv> 125"

abbreviation LPAREN :: int where "LPAREN \<equiv> 40"

abbreviation RPAREN :: int where "RPAREN \<equiv> 41"

abbreviation EQUAL :: int where "EQUAL \<equiv> 61"

abbreviation BANG :: int where "BANG \<equiv> 33"

abbreviation PERCENT :: int where "PERCENT \<equiv> 37"

abbreviation PLUS :: int where "PLUS \<equiv> 43"

abbreviation MINUS :: int where "MINUS \<equiv> 45"

abbreviation ASTERISK :: int where "ASTERISK \<equiv> 42"

abbreviation AMPERSAND :: int where "AMPERSAND \<equiv> 38"

abbreviation PIPE :: int where "PIPE \<equiv> 124"

abbreviation CARET :: int where "CARET \<equiv> 94"

abbreviation HOST :: int where "HOST \<equiv> 256"

abbreviation FIRST_TOKEN :: int where "FIRST_TOKEN \<equiv> 256"

abbreviation HARDWARE :: int where "HARDWARE \<equiv> 257"

abbreviation FILENAME :: int where "FILENAME \<equiv> 258"

abbreviation FIXED_ADDR :: int where "FIXED_ADDR \<equiv> 259"

abbreviation OPTION :: int where "OPTION \<equiv> 260"

abbreviation ETHERNET :: int where "ETHERNET \<equiv> 261"

abbreviation STRING :: int where "STRING \<equiv> 262"

abbreviation NUMBER :: int where "NUMBER \<equiv> 263"

abbreviation NUMBER_OR_NAME :: int where "NUMBER_OR_NAME \<equiv> 264"

abbreviation NAME :: int where "NAME \<equiv> 265"

abbreviation TIMESTAMP :: int where "TIMESTAMP \<equiv> 266"

abbreviation STARTS :: int where "STARTS \<equiv> 267"

abbreviation ENDS :: int where "ENDS \<equiv> 268"

abbreviation UID :: int where "UID \<equiv> 269"

abbreviation CLASS :: int where "CLASS \<equiv> 270"

abbreviation LEASE :: int where "LEASE \<equiv> 271"

abbreviation RANGE :: int where "RANGE \<equiv> 272"

abbreviation PACKET :: int where "PACKET \<equiv> 273"

abbreviation CIADDR :: int where "CIADDR \<equiv> 274"

abbreviation YIADDR :: int where "YIADDR \<equiv> 275"

abbreviation SIADDR :: int where "SIADDR \<equiv> 276"

abbreviation GIADDR :: int where "GIADDR \<equiv> 277"

abbreviation SUBNET :: int where "SUBNET \<equiv> 278"

abbreviation NETMASK :: int where "NETMASK \<equiv> 279"

abbreviation DEFAULT_LEASE_TIME :: int where "DEFAULT_LEASE_TIME \<equiv> 280"

abbreviation MAX_LEASE_TIME :: int where "MAX_LEASE_TIME \<equiv> 281"

abbreviation VENDOR_CLASS :: int where "VENDOR_CLASS \<equiv> 282"

abbreviation USER_CLASS :: int where "USER_CLASS \<equiv> 283"

abbreviation SHARED_NETWORK :: int where "SHARED_NETWORK \<equiv> 284"

abbreviation SERVER_NAME :: int where "SERVER_NAME \<equiv> 285"

abbreviation DYNAMIC_BOOTP :: int where "DYNAMIC_BOOTP \<equiv> 286"

abbreviation SERVER_IDENTIFIER :: int where "SERVER_IDENTIFIER \<equiv> 287"

abbreviation DYNAMIC_BOOTP_LEASE_CUTOFF :: int where "DYNAMIC_BOOTP_LEASE_CUTOFF \<equiv> 288"

abbreviation DYNAMIC_BOOTP_LEASE_LENGTH :: int where "DYNAMIC_BOOTP_LEASE_LENGTH \<equiv> 289"

abbreviation BOOT_UNKNOWN_CLIENTS :: int where "BOOT_UNKNOWN_CLIENTS \<equiv> 290"

abbreviation NEXT_SERVER :: int where "NEXT_SERVER \<equiv> 291"

abbreviation TOKEN_RING :: int where "TOKEN_RING \<equiv> 292"

abbreviation GROUP :: int where "GROUP \<equiv> 293"

abbreviation ONE_LEASE_PER_CLIENT :: int where "ONE_LEASE_PER_CLIENT \<equiv> 294"

abbreviation GET_LEASE_HOSTNAMES :: int where "GET_LEASE_HOSTNAMES \<equiv> 295"

abbreviation USE_HOST_DECL_NAMES :: int where "USE_HOST_DECL_NAMES \<equiv> 296"

abbreviation SEND :: int where "SEND \<equiv> 297"

abbreviation CLIENT_IDENTIFIER :: int where "CLIENT_IDENTIFIER \<equiv> 298"

abbreviation REQUEST :: int where "REQUEST \<equiv> 299"

abbreviation REQUIRE :: int where "REQUIRE \<equiv> 300"

abbreviation TIMEOUT :: int where "TIMEOUT \<equiv> 301"

abbreviation RETRY :: int where "RETRY \<equiv> 302"

abbreviation SELECT_TIMEOUT :: int where "SELECT_TIMEOUT \<equiv> 303"

abbreviation SCRIPT :: int where "SCRIPT \<equiv> 304"

abbreviation INTERFACE :: int where "INTERFACE \<equiv> 305"

abbreviation RENEW :: int where "RENEW \<equiv> 306"

abbreviation REBIND :: int where "REBIND \<equiv> 307"

abbreviation EXPIRE :: int where "EXPIRE \<equiv> 308"

abbreviation UNKNOWN_CLIENTS :: int where "UNKNOWN_CLIENTS \<equiv> 309"

abbreviation ALLOW :: int where "ALLOW \<equiv> 310"

abbreviation DENY :: int where "DENY \<equiv> 312"

abbreviation BOOTING :: int where "BOOTING \<equiv> 313"

abbreviation DEFAULT :: int where "DEFAULT \<equiv> 314"

abbreviation MEDIA :: int where "MEDIA \<equiv> 315"

abbreviation MEDIUM :: int where "MEDIUM \<equiv> 316"

abbreviation ALIAS :: int where "ALIAS \<equiv> 317"

abbreviation REBOOT :: int where "REBOOT \<equiv> 318"

abbreviation TOKEN_ABANDONED :: int where "TOKEN_ABANDONED \<equiv> 319"

abbreviation BACKOFF_CUTOFF :: int where "BACKOFF_CUTOFF \<equiv> 320"

abbreviation INITIAL_INTERVAL :: int where "INITIAL_INTERVAL \<equiv> 321"

abbreviation NAMESERVER :: int where "NAMESERVER \<equiv> 322"

abbreviation DOMAIN :: int where "DOMAIN \<equiv> 323"

abbreviation SEARCH :: int where "SEARCH \<equiv> 324"

abbreviation SUPERSEDE :: int where "SUPERSEDE \<equiv> 325"

abbreviation APPEND :: int where "APPEND \<equiv> 326"

abbreviation PREPEND :: int where "PREPEND \<equiv> 327"

abbreviation HOSTNAME :: int where "HOSTNAME \<equiv> 328"

abbreviation CLIENT_HOSTNAME :: int where "CLIENT_HOSTNAME \<equiv> 329"

abbreviation REJECT :: int where "REJECT \<equiv> 330"

abbreviation USE_LEASE_ADDR_FOR_DEFAULT_ROUTE :: int where "USE_LEASE_ADDR_FOR_DEFAULT_ROUTE \<equiv> 331"

abbreviation MIN_LEASE_TIME :: int where "MIN_LEASE_TIME \<equiv> 332"

abbreviation MIN_SECS :: int where "MIN_SECS \<equiv> 333"

abbreviation AND :: int where "AND \<equiv> 334"

abbreviation OR :: int where "OR \<equiv> 335"

abbreviation SUBSTRING :: int where "SUBSTRING \<equiv> 337"

abbreviation SUFFIX :: int where "SUFFIX \<equiv> 338"

abbreviation CHECK :: int where "CHECK \<equiv> 339"

abbreviation EXTRACT_INT :: int where "EXTRACT_INT \<equiv> 340"

abbreviation IF :: int where "IF \<equiv> 341"

abbreviation TOKEN_ADD :: int where "TOKEN_ADD \<equiv> 342"

abbreviation BREAK :: int where "BREAK \<equiv> 343"

abbreviation ELSE :: int where "ELSE \<equiv> 344"

abbreviation ELSIF :: int where "ELSIF \<equiv> 345"

abbreviation SUBCLASS :: int where "SUBCLASS \<equiv> 346"

abbreviation MATCH :: int where "MATCH \<equiv> 347"

abbreviation SPAWN :: int where "SPAWN \<equiv> 348"

abbreviation WITH :: int where "WITH \<equiv> 349"

abbreviation EXISTS :: int where "EXISTS \<equiv> 350"

abbreviation POOL :: int where "POOL \<equiv> 351"

abbreviation UNKNOWN :: int where "UNKNOWN \<equiv> 352"

abbreviation CLIENTS :: int where "CLIENTS \<equiv> 353"

abbreviation KNOWN :: int where "KNOWN \<equiv> 354"

abbreviation AUTHENTICATED :: int where "AUTHENTICATED \<equiv> 355"

abbreviation UNAUTHENTICATED :: int where "UNAUTHENTICATED \<equiv> 356"

abbreviation ALL_TOKEN :: int where "ALL_TOKEN \<equiv> 357"

abbreviation DYNAMIC :: int where "DYNAMIC \<equiv> 358"

abbreviation MEMBERS :: int where "MEMBERS \<equiv> 359"

abbreviation OF :: int where "OF \<equiv> 360"

abbreviation PSEUDO :: int where "PSEUDO \<equiv> 361"

abbreviation LIMIT :: int where "LIMIT \<equiv> 362"

abbreviation BILLING :: int where "BILLING \<equiv> 363"

abbreviation PEER :: int where "PEER \<equiv> 364"

abbreviation FAILOVER :: int where "FAILOVER \<equiv> 365"

abbreviation MY :: int where "MY \<equiv> 366"

abbreviation PARTNER :: int where "PARTNER \<equiv> 367"

abbreviation PRIMARY :: int where "PRIMARY \<equiv> 368"

abbreviation SECONDARY :: int where "SECONDARY \<equiv> 369"

abbreviation IDENTIFIER :: int where "IDENTIFIER \<equiv> 370"

abbreviation PORT :: int where "PORT \<equiv> 371"

abbreviation MAX_TRANSMIT_IDLE :: int where "MAX_TRANSMIT_IDLE \<equiv> 372"

abbreviation MAX_RESPONSE_DELAY :: int where "MAX_RESPONSE_DELAY \<equiv> 373"

abbreviation PARTNER_DOWN :: int where "PARTNER_DOWN \<equiv> 374"

abbreviation NORMAL :: int where "NORMAL \<equiv> 375"

abbreviation COMMUNICATIONS_INTERRUPTED :: int where "COMMUNICATIONS_INTERRUPTED \<equiv> 376"

abbreviation POTENTIAL_CONFLICT :: int where "POTENTIAL_CONFLICT \<equiv> 377"

abbreviation RECOVER :: int where "RECOVER \<equiv> 378"

abbreviation FDDI :: int where "FDDI \<equiv> 379"

abbreviation AUTHORITATIVE :: int where "AUTHORITATIVE \<equiv> 380"

abbreviation TOKEN_NOT :: int where "TOKEN_NOT \<equiv> 381"

abbreviation AUTHENTICATION :: int where "AUTHENTICATION \<equiv> 383"

abbreviation IGNORE :: int where "IGNORE \<equiv> 384"

abbreviation ACCEPT :: int where "ACCEPT \<equiv> 385"

abbreviation PREFER :: int where "PREFER \<equiv> 386"

abbreviation DONT :: int where "DONT \<equiv> 387"

abbreviation CODE :: int where "CODE \<equiv> 388"

abbreviation ARRAY :: int where "ARRAY \<equiv> 389"

abbreviation BOOLEAN :: int where "BOOLEAN \<equiv> 390"

abbreviation INTEGER :: int where "INTEGER \<equiv> 391"

abbreviation SIGNED :: int where "SIGNED \<equiv> 392"

abbreviation UNSIGNED :: int where "UNSIGNED \<equiv> 393"

abbreviation IP_ADDRESS :: int where "IP_ADDRESS \<equiv> 394"

abbreviation TEXT :: int where "TEXT \<equiv> 395"

abbreviation STRING_TOKEN :: int where "STRING_TOKEN \<equiv> 396"

abbreviation SPACE :: int where "SPACE \<equiv> 397"

abbreviation CONCAT :: int where "CONCAT \<equiv> 398"

abbreviation ENCODE_INT :: int where "ENCODE_INT \<equiv> 399"

abbreviation REVERSE :: int where "REVERSE \<equiv> 402"

abbreviation LEASED_ADDRESS :: int where "LEASED_ADDRESS \<equiv> 403"

abbreviation BINARY_TO_ASCII :: int where "BINARY_TO_ASCII \<equiv> 404"

abbreviation PICK :: int where "PICK \<equiv> 405"

abbreviation CONFIG_OPTION :: int where "CONFIG_OPTION \<equiv> 406"

abbreviation HOST_DECL_NAME :: int where "HOST_DECL_NAME \<equiv> 407"

abbreviation ON :: int where "ON \<equiv> 408"

abbreviation EXPIRY :: int where "EXPIRY \<equiv> 409"

abbreviation RELEASE :: int where "RELEASE \<equiv> 410"

abbreviation COMMIT :: int where "COMMIT \<equiv> 411"

abbreviation DNS_UPDATE :: int where "DNS_UPDATE \<equiv> 412"

abbreviation LEASE_TIME :: int where "LEASE_TIME \<equiv> 413"

abbreviation STATIC :: int where "STATIC \<equiv> 414"

abbreviation NEVER :: int where "NEVER \<equiv> 415"

abbreviation INFINITE :: int where "INFINITE \<equiv> 416"

abbreviation TOKEN_DELETED :: int where "TOKEN_DELETED \<equiv> 417"

abbreviation UPDATED_DNS_RR :: int where "UPDATED_DNS_RR \<equiv> 418"

abbreviation DNS_DELETE :: int where "DNS_DELETE \<equiv> 419"

abbreviation DUPLICATES :: int where "DUPLICATES \<equiv> 420"

abbreviation DECLINES :: int where "DECLINES \<equiv> 421"

abbreviation TSTP :: int where "TSTP \<equiv> 422"

abbreviation TSFP :: int where "TSFP \<equiv> 423"

abbreviation OWNER :: int where "OWNER \<equiv> 424"

abbreviation IS :: int where "IS \<equiv> 425"

abbreviation HBA :: int where "HBA \<equiv> 426"

abbreviation MAX_UNACKED_UPDATES :: int where "MAX_UNACKED_UPDATES \<equiv> 427"

abbreviation MCLT :: int where "MCLT \<equiv> 428"

abbreviation SPLIT :: int where "SPLIT \<equiv> 429"

abbreviation AT :: int where "AT \<equiv> 430"

abbreviation NO :: int where "NO \<equiv> 431"

abbreviation TOKEN_DELETE :: int where "TOKEN_DELETE \<equiv> 432"

abbreviation NS_UPDATE :: int where "NS_UPDATE \<equiv> 433"

abbreviation UPDATE :: int where "UPDATE \<equiv> 434"

abbreviation SWITCH :: int where "SWITCH \<equiv> 435"

abbreviation CASE :: int where "CASE \<equiv> 436"

abbreviation NS_FORMERR :: int where "NS_FORMERR \<equiv> 437"

abbreviation NS_NOERROR :: int where "NS_NOERROR \<equiv> 438"

abbreviation NS_NOTAUTH :: int where "NS_NOTAUTH \<equiv> 439"

abbreviation NS_NOTIMP :: int where "NS_NOTIMP \<equiv> 440"

abbreviation NS_NOTZONE :: int where "NS_NOTZONE \<equiv> 441"

abbreviation NS_NXDOMAIN :: int where "NS_NXDOMAIN \<equiv> 442"

abbreviation NS_NXRRSET :: int where "NS_NXRRSET \<equiv> 443"

abbreviation NS_REFUSED :: int where "NS_REFUSED \<equiv> 444"

abbreviation NS_SERVFAIL :: int where "NS_SERVFAIL \<equiv> 445"

abbreviation NS_YXDOMAIN :: int where "NS_YXDOMAIN \<equiv> 446"

abbreviation NS_YXRRSET :: int where "NS_YXRRSET \<equiv> 447"

abbreviation TOKEN_NULL :: int where "TOKEN_NULL \<equiv> 448"

abbreviation TOKEN_SET :: int where "TOKEN_SET \<equiv> 449"

abbreviation DEFINED :: int where "DEFINED \<equiv> 450"

abbreviation UNSET :: int where "UNSET \<equiv> 451"

abbreviation EVAL :: int where "EVAL \<equiv> 452"

abbreviation LET :: int where "LET \<equiv> 453"

abbreviation FUNCTION :: int where "FUNCTION \<equiv> 454"

abbreviation DEFINE :: int where "DEFINE \<equiv> 455"

abbreviation ZONE :: int where "ZONE \<equiv> 456"

abbreviation KEY :: int where "KEY \<equiv> 457"

abbreviation SECRET :: int where "SECRET \<equiv> 458"

abbreviation ALGORITHM :: int where "ALGORITHM \<equiv> 459"

abbreviation LOAD :: int where "LOAD \<equiv> 460"

abbreviation BALANCE :: int where "BALANCE \<equiv> 461"

abbreviation TOKEN_MAX :: int where "TOKEN_MAX \<equiv> 462"

abbreviation SECONDS :: int where "SECONDS \<equiv> 463"

abbreviation ADDRESS :: int where "ADDRESS \<equiv> 464"

abbreviation RESOLUTION_INTERRUPTED :: int where "RESOLUTION_INTERRUPTED \<equiv> 465"

abbreviation STATE :: int where "STATE \<equiv> 466"

abbreviation UNKNOWN_STATE :: int where "UNKNOWN_STATE \<equiv> 567"

abbreviation CLTT :: int where "CLTT \<equiv> 568"

abbreviation INCLUDE :: int where "INCLUDE \<equiv> 569"

abbreviation BINDING :: int where "BINDING \<equiv> 570"

abbreviation TOKEN_FREE :: int where "TOKEN_FREE \<equiv> 571"

abbreviation TOKEN_ACTIVE :: int where "TOKEN_ACTIVE \<equiv> 572"

abbreviation TOKEN_EXPIRED :: int where "TOKEN_EXPIRED \<equiv> 573"

abbreviation TOKEN_RELEASED :: int where "TOKEN_RELEASED \<equiv> 574"

abbreviation TOKEN_RESET :: int where "TOKEN_RESET \<equiv> 575"

abbreviation TOKEN_BACKUP :: int where "TOKEN_BACKUP \<equiv> 576"

abbreviation TOKEN_RESERVED :: int where "TOKEN_RESERVED \<equiv> 577"

abbreviation TOKEN_BOOTP :: int where "TOKEN_BOOTP \<equiv> 578"

abbreviation TOKEN_NEXT :: int where "TOKEN_NEXT \<equiv> 579"

abbreviation OMAPI :: int where "OMAPI \<equiv> 580"

abbreviation LOG :: int where "LOG \<equiv> 581"

abbreviation FATAL :: int where "FATAL \<equiv> 582"

abbreviation ERROR :: int where "ERROR \<equiv> 583"

abbreviation TOKEN_DEBUG :: int where "TOKEN_DEBUG \<equiv> 584"

abbreviation INFO :: int where "INFO \<equiv> 585"

abbreviation RETURN :: int where "RETURN \<equiv> 586"

abbreviation PAUSED :: int where "PAUSED \<equiv> 587"

abbreviation RECOVER_DONE :: int where "RECOVER_DONE \<equiv> 588"

abbreviation SHUTDOWN :: int where "SHUTDOWN \<equiv> 589"

abbreviation STARTUP :: int where "STARTUP \<equiv> 590"

abbreviation ENCAPSULATE :: int where "ENCAPSULATE \<equiv> 591"

abbreviation VENDOR :: int where "VENDOR \<equiv> 592"

abbreviation CLIENT_STATE :: int where "CLIENT_STATE \<equiv> 593"

abbreviation INIT_REBOOT :: int where "INIT_REBOOT \<equiv> 594"

abbreviation TOKEN_INIT :: int where "TOKEN_INIT \<equiv> 595"

abbreviation SELECT :: int where "SELECT \<equiv> 596"

abbreviation BOUND :: int where "BOUND \<equiv> 597"

abbreviation RENEWING :: int where "RENEWING \<equiv> 598"

abbreviation REBINDING :: int where "REBINDING \<equiv> 599"

abbreviation RECONTACT_INTERVAL :: int where "RECONTACT_INTERVAL \<equiv> 600"

abbreviation CLIENT_UPDATES :: int where "CLIENT_UPDATES \<equiv> 601"

abbreviation TOKEN_NEW :: int where "TOKEN_NEW \<equiv> 601"

abbreviation TRANSMISSION :: int where "TRANSMISSION \<equiv> 602"

abbreviation TOKEN_CLOSE :: int where "TOKEN_CLOSE \<equiv> 603"

abbreviation TOKEN_CREATE :: int where "TOKEN_CREATE \<equiv> 604"

abbreviation TOKEN_OPEN :: int where "TOKEN_OPEN \<equiv> 605"

abbreviation TOKEN_HELP :: int where "TOKEN_HELP \<equiv> 606"

abbreviation END_OF_FILE :: int where "END_OF_FILE \<equiv> 607"

abbreviation RECOVER_WAIT :: int where "RECOVER_WAIT \<equiv> 608"

abbreviation SERVER :: int where "SERVER \<equiv> 609"

abbreviation CONNECT :: int where "CONNECT \<equiv> 610"

abbreviation REMOVE :: int where "REMOVE \<equiv> 611"

abbreviation REFRESH :: int where "REFRESH \<equiv> 612"

abbreviation DOMAIN_NAME :: int where "DOMAIN_NAME \<equiv> 613"

abbreviation DO_FORWARD_UPDATE :: int where "DO_FORWARD_UPDATE \<equiv> 614"

abbreviation KNOWN_CLIENTS :: int where "KNOWN_CLIENTS \<equiv> 615"

definition is_identifier :: "int \<Rightarrow> bool" where
  "is_identifier x \<longleftrightarrow> FIRST_TOKEN \<le> x \<and> x \<noteq> STRING \<and> x \<noteq> NUMBER \<and> x \<noteq> END_OF_FILE"

section \<open>The keyword switch\<close>

definition intern_minus :: "int list \<Rightarrow> int \<Rightarrow> int" where
  "intern_minus atom dfv = (
    if c_at atom 1 = 0 then MINUS else
    dfv)"

definition intern_a :: "int list \<Rightarrow> int \<Rightarrow> int" where
  "intern_a atom dfv = (
    if strncaseeq (drop 1 atom) ''uth'' 3 then (
      if strncaseeq (drop 3 atom) ''uthenticat'' 10 then (
        if strcaseeq (drop 13 atom) ''ed'' then AUTHENTICATED else
        if strcaseeq (drop 13 atom) ''ion'' then AUTHENTICATION else
        dfv)
      else
      if strcaseeq (drop 1 atom) ''uthoritative'' then AUTHORITATIVE else
      dfv)
    else
    if strcaseeq (drop 1 atom) ''nd'' then AND else
    if strcaseeq (drop 1 atom) ''ppend'' then APPEND else
    if strcaseeq (drop 1 atom) ''llow'' then ALLOW else
    if strcaseeq (drop 1 atom) ''lias'' then ALIAS else
    if strcaseeq (drop 1 atom) ''lgorithm'' then ALGORITHM else
    if strcaseeq (drop 1 atom) ''bandoned'' then TOKEN_ABANDONED else
    if strcaseeq (drop 1 atom) ''dd'' then TOKEN_ADD else
    if strcaseeq (drop 1 atom) ''ll'' then ALL_TOKEN else
    if strcaseeq (drop 1 atom) ''t'' then AT else
    if strcaseeq (drop 1 atom) ''rray'' then ARRAY else
    if strcaseeq (drop 1 atom) ''ddress'' then ADDRESS else
    if strcaseeq (drop 1 atom) ''ctive'' then TOKEN_ACTIVE else
    dfv)"

definition intern_b :: "int list \<Rightarrow> int \<Rightarrow> int" where
  "intern_b atom dfv = (
    if strcaseeq (drop 1 atom) ''ackup'' then TOKEN_BACKUP else
    if strcaseeq (drop 1 atom) ''ootp'' then TOKEN_BOOTP else
    if strcaseeq (drop 1 atom) ''inding'' then BINDING else
    if strcaseeq (drop 1 atom) ''inary-to-ascii'' then BINARY_TO_ASCII else
    if strcaseeq (drop 1 atom) ''ackoff-cutoff'' then BACKOFF_CUTOFF else
    if strcaseeq (drop 1 atom) ''ooting'' then BOOTING else
    if strcaseeq (drop 1 atom) ''oot-unknown-clients'' then BOOT_UNKNOWN_CLIENTS else
    if strcaseeq (drop 1 atom) ''reak'' then BREAK else
    if strcaseeq (drop 1 atom) ''illing'' then BILLING else
    if strcaseeq (drop 1 atom) ''oolean'' then BOOLEAN else
    if strcaseeq (drop 1 atom) ''alance'' then BALANCE else
    if strcaseeq (drop 1 atom) ''ound'' then BOUND else
    dfv)"

definition intern_c :: "int list \<Rightarrow> int \<Rightarrow> int" where
  "intern_c atom dfv = (
    if strcaseeq (drop 1 atom) ''ase'' then CASE else
    if strcaseeq (drop 1 atom) ''ommit'' then COMMIT else
    if strcaseeq (drop 1 atom) ''ode'' then CODE else
    if strcaseeq (drop 1 atom) ''onfig-option'' then CONFIG_OPTION else
    if strcaseeq (drop 1 atom) ''heck'' then CHECK else
    if strcaseeq (drop 1 atom) ''lass'' then CLASS else
    if strcaseeq (drop 1 atom) ''lose'' then TOKEN_CLOSE else
    if strcaseeq (drop 1 atom) ''reate'' then TOKEN_CREATE else
    if strcaseeq (drop 1 atom) ''iaddr'' then CIADDR else
    case (if strncaseeq (drop 1 atom) ''lient'' 5 then (
        if strcaseeq (drop 6 atom) ''-identifier'' then Some CLIENT_IDENTIFIER else
        if strcaseeq (drop 6 atom) ''-hostname'' then Some CLIENT_HOSTNAME else
        if strcaseeq (drop 6 atom) ''-state'' then Some CLIENT_STATE else
        if strcaseeq (drop 6 atom) ''-updates'' then Some CLIENT_UPDATES else
        if strcaseeq (drop 6 atom) ''s'' then Some CLIENTS else
        None)
      else None) of
      Some t \<Rightarrow> t
    | None \<Rightarrow> (
      if strcaseeq (drop 1 atom) ''oncat'' then CONCAT else
      if strcaseeq (drop 1 atom) ''onnect'' then CONNECT else
      if strcaseeq (drop 1 atom) ''ommunications-interrupted'' then COMMUNICATIONS_INTERRUPTED else
      if strcaseeq (drop 1 atom) ''ltt'' then CLTT else
      dfv))"

definition intern_d :: "int list \<Rightarrow> int \<Rightarrow> int" where
  "intern_d atom dfv = (
    if strcaseeq (drop 1 atom) ''ns-update'' then DNS_UPDATE else
    if strcaseeq (drop 1 atom) ''ns-delete'' then DNS_DELETE else
    if strcaseeq (drop 1 atom) ''omain'' then DOMAIN else
    if strcaseeq (drop 1 atom) ''omain-name'' then DOMAIN_NAME else
    if strcaseeq (drop 1 atom) ''o-forward-update'' then DO_FORWARD_UPDATE else
    if strcaseeq (drop 1 atom) ''ebug'' then TOKEN_DEBUG else
    if strcaseeq (drop 1 atom) ''eny'' then DENY else
    if strcaseeq (drop 1 atom) ''eleted'' then TOKEN_DELETED else
    if strcaseeq (drop 1 atom) ''elete'' then TOKEN_DELETE else
    if strncaseeq (drop 1 atom) ''efault'' 6 then (
      if c_at atom 7 = 0 then DEFAULT else
      if strcaseeq (drop 7 atom) ''-lease-time'' then DEFAULT_LEASE_TIME else
      dfv)
    else
    case (if strncaseeq (drop 1 atom) ''ynamic'' 6 then (
        if c_at atom 7 = 0 then Some DYNAMIC else
        if strncaseeq (drop 7 atom) ''-bootp'' 6 then (
          if c_at atom 13 = 0 then Some DYNAMIC_BOOTP else
          if strcaseeq (drop 13 atom) ''-lease-cutoff'' then Some DYNAMIC_BOOTP_LEASE_CUTOFF else
          if strcaseeq (drop 13 atom) ''-lease-length'' then Some DYNAMIC_BOOTP_LEASE_LENGTH else
          Some dfv)
        else
        None)
      else None) of
      Some t \<Rightarrow> t
    | None \<Rightarrow> (
      if strcaseeq (drop 1 atom) ''uplicates'' then DUPLICATES else
      if strcaseeq (drop 1 atom) ''eclines'' then DECLINES else
      case (if strncaseeq (drop 1 atom) ''efine'' 5 then (
          if strcaseeq (drop 6 atom) ''d'' then Some DEFINED else
          if c_at atom 6 = 0 then Some DEFINE else
          None)
        else None) of
        Some t \<Rightarrow> t
      | None \<Rightarrow> (
        dfv)))"

definition intern_e :: "int list \<Rightarrow> int \<Rightarrow> int" where
  "intern_e atom dfv = (
    case (if isascii (c_at atom 1) \<and> tolower_c (c_at atom 1) = 120 then (
        if strcaseeq (drop 2 atom) ''tract-int'' then Some EXTRACT_INT else
        if strcaseeq (drop 2 atom) ''ists'' then Some EXISTS else
        if strcaseeq (drop 2 atom) ''piry'' then Some EXPIRY else
        if strcaseeq (drop 2 atom) ''pire'' then Some EXPIRE else
        if strcaseeq (drop 2 atom) ''pired'' then Some TOKEN_EXPIRED else
        None)
      else None) of
      Some t \<Rightarrow> t
    | None \<Rightarrow> (
      if strcaseeq (drop 1 atom) ''ncode-int'' then ENCODE_INT else
      if strcaseeq (drop 1 atom) ''thernet'' then ETHERNET else
      if strcaseeq (drop 1 atom) ''nds'' then ENDS else
      if strncaseeq (drop 1 atom) ''ls'' 2 then (
        if strcaseeq (drop 3 atom) ''e'' then ELSE else
        if strcaseeq (drop 3 atom) ''if'' then ELSIF else
        dfv)
      else
      if strcaseeq (drop 1 atom) ''rror'' then ERROR else
      if strcaseeq (drop 1 atom) ''val'' then EVAL else
      if strcaseeq (drop 1 atom) ''ncapsulate'' then ENCAPSULATE else
      dfv))"

definition intern_f :: "int list \<Rightarrow> int \<Rightarrow> int" where
  "intern_f atom dfv = (
    if strcaseeq (drop 1 atom) ''atal'' then FATAL else
    if strcaseeq (drop 1 atom) ''ilename'' then FILENAME else
    if strcaseeq (drop 1 atom) ''ixed-address'' then FIXED_ADDR else
    if strcaseeq (drop 1 atom) ''ddi'' then FDDI else
    if strcaseeq (drop 1 atom) ''ormerr'' then NS_FORMERR else
    if strcaseeq (drop 1 atom) ''unction'' then FUNCTION else
    if strcaseeq (drop 1 atom) ''ailover'' then FAILOVER else
    if strcaseeq (drop 1 atom) ''ree'' then TOKEN_FREE else
    dfv)"

definition intern_g :: "int list \<Rightarrow> int \<Rightarrow> int" where
  "intern_g atom dfv = (
    if strcaseeq (drop 1 atom) ''iaddr'' then GIADDR else
    if strcaseeq (drop 1 atom) ''roup'' then GROUP else
    if strcaseeq (drop 1 atom) ''et-lease-hostnames'' then GET_LEASE_HOSTNAMES else
    dfv)"

definition intern_h :: "int list \<Rightarrow> int \<Rightarrow> int" where
  "intern_h atom dfv = (
    if strcaseeq (drop 1 atom) ''ba'' then HBA else
    if strcaseeq (drop 1 atom) ''ost'' then HOST else
    if strcaseeq (drop 1 atom) ''ost-decl-name'' then HOST_DECL_NAME else
    if strcaseeq (drop 1 atom) ''ardware'' then HARDWARE else
    if strcaseeq (drop 1 atom) ''ostname'' then HOSTNAME else
    if strcaseeq (drop 1 atom) ''elp'' then TOKEN_HELP else
    dfv)"

definition intern_i :: "int list \<Rightarrow> int \<Rightarrow> int" where
  "intern_i atom dfv = (
    if strcaseeq (drop 1 atom) ''nclude'' then INCLUDE else
    if strcaseeq (drop 1 atom) ''nteger'' then INTEGER else
    if strcaseeq (drop 1 atom) ''nfinite'' then INFINITE else
    if strcaseeq (drop 1 atom) ''nfo'' then INFO else
    if strcaseeq (drop 1 atom) ''p-address'' then IP_ADDRESS else
    if strcaseeq (drop 1 atom) ''nitial-interval'' then INITIAL_INTERVAL else
    if strcaseeq (drop 1 atom) ''nterface'' then INTERFACE else
    if strcaseeq (drop 1 atom) ''dentifier'' then IDENTIFIER else
    if strcaseeq (drop 1 atom) ''f'' then IF else
    if strcaseeq (drop 1 atom) ''s'' then IS else
    if strcaseeq (drop 1 atom) ''gnore'' then IGNORE else
    dfv)"

definition intern_k :: "int list \<Rightarrow> int \<Rightarrow> int" where
  "intern_k atom dfv = (
    if strncaseeq (drop 1 atom) ''nown'' 4 then (
      if strcaseeq (drop 5 atom) ''-clients'' then KNOWN_CLIENTS else
      if c_at atom 5 = 0 then KNOWN else
      dfv)
    else
    if strcaseeq (drop 1 atom) ''ey'' then KEY else
    dfv)"

definition intern_l :: "int list \<Rightarrow> int \<Rightarrow> int" where
  "intern_l atom dfv = (
    if strcaseeq (drop 1 atom) ''ease'' then LEASE else
    if strcaseeq (drop 1 atom) ''eased-address'' then LEASED_ADDRESS else
    if strcaseeq (drop 1 atom) ''ease-time'' then LEASE_TIME else
    if strcaseeq (drop 1 atom) ''imit'' then LIMIT else
    if strcaseeq (drop 1 atom) ''et'' then LET else
    if strcaseeq (drop 1 atom) ''oad'' then LOAD else
    if strcaseeq (drop 1 atom) ''og'' then LOG else
    dfv)"

definition intern_m :: "int list \<Rightarrow> int \<Rightarrow> int" where
  "intern_m atom dfv = (
    case (if strncaseeq (drop 1 atom) ''ax'' 2 then (
        if c_at atom 3 = 0 then Some TOKEN_MAX else
        if strcaseeq (drop 3 atom) ''-lease-time'' then Some MAX_LEASE_TIME else
        if strcaseeq (drop 3 atom) ''-transmit-idle'' then Some MAX_TRANSMIT_IDLE else
        if strcaseeq (drop 3 atom) ''-response-delay'' then Some MAX_RESPONSE_DELAY else
        if strcaseeq (drop 3 atom) ''-unacked-updates'' then Some MAX_UNACKED_UPDATES else
        None)
      else None) of
      Some t \<Rightarrow> t
    | None \<Rightarrow> (
      if strncaseeq (drop 1 atom) ''in-'' 3 then (
        if strcaseeq (drop 4 atom) ''lease-time'' then MIN_LEASE_TIME else
        if strcaseeq (drop 4 atom) ''secs'' then MIN_SECS else
        dfv)
      else
      if strncaseeq (drop 1 atom) ''edi'' 3 then (
        if strcaseeq (drop 4 atom) ''a'' then MEDIA else
        if strcaseeq (drop 4 atom) ''um'' then MEDIUM else
        dfv)
      else
      if strcaseeq (drop 1 atom) ''atch'' then MATCH else
      if strcaseeq (drop 1 atom) ''embers'' then MEMBERS else
      if strcaseeq (drop 1 atom) ''y'' then MY else
      if strcaseeq (drop 1 atom) ''clt'' then MCLT else
      dfv))"

definition intern_n :: "int list \<Rightarrow> int \<Rightarrow> int" where
  "intern_n atom dfv = (
    if strcaseeq (drop 1 atom) ''ormal'' then NORMAL else
    if strcaseeq (drop 1 atom) ''ameserver'' then NAMESERVER else
    if strcaseeq (drop 1 atom) ''etmask'' then NETMASK else
    if strcaseeq (drop 1 atom) ''ever'' then NEVER else
    if strcaseeq (drop 1 atom) ''ext-server'' then NEXT_SERVER else
    if strcaseeq (drop 1 atom) ''ot'' then TOKEN_NOT else
    if strcaseeq (drop 1 atom) ''o'' then NO else
    if strcaseeq (drop 1 atom) ''s-update'' then NS_UPDATE else
    if strcaseeq (drop 1 atom) ''oerror'' then NS_NOERROR else
    if strcaseeq (drop 1 atom) ''otauth'' then NS_NOTAUTH else
    if strcaseeq (drop 1 atom) ''otimp'' then NS_NOTIMP else
    if strcaseeq (drop 1 atom) ''otzone'' then NS_NOTZONE else
    if strcaseeq (drop 1 atom) ''xdomain'' then NS_NXDOMAIN else
    if strcaseeq (drop 1 atom) ''xrrset'' then NS_NXRRSET else
    if strcaseeq (drop 1 atom) ''ull'' then TOKEN_NULL else
    if strcaseeq (drop 1 atom) ''ext'' then TOKEN_NEXT else
    if strcaseeq (drop 1 atom) ''ew'' then TOKEN_NEW else
    dfv)"

definition intern_o :: "int list \<Rightarrow> int \<Rightarrow> int" where
  "intern_o atom dfv = (
    if strcaseeq (drop 1 atom) ''mapi'' then OMAPI else
    if strcaseeq (drop 1 atom) ''r'' then OR else
    if strcaseeq (drop 1 atom) ''n'' then ON else
    if strcaseeq (drop 1 atom) ''pen'' then TOKEN_OPEN else
    if strcaseeq (drop 1 atom) ''ption'' then OPTION else
    if strcaseeq (drop 1 atom) ''ne-lease-per-client'' then ONE_LEASE_PER_CLIENT else
    if strcaseeq (drop 1 atom) ''f'' then OF else
    if strcaseeq (drop 1 atom) ''wner'' then OWNER else
    dfv)"

definition intern_p :: "int list \<Rightarrow> int \<Rightarrow> int" where
  "intern_p atom dfv = (
    if strcaseeq (drop 1 atom) ''repend'' then PREPEND else
    if strcaseeq (drop 1 atom) ''acket'' then PACKET else
    if strcaseeq (drop 1 atom) ''ool'' then POOL else
    if strcaseeq (drop 1 atom) ''seudo'' then PSEUDO else
    if strcaseeq (drop 1 atom) ''eer'' then PEER else
    if strcaseeq (drop 1 atom) ''rimary'' then PRIMARY else
    case (if strncaseeq (drop 1 atom) ''artner'' 6 then (
        if c_at atom 7 = 0 then Some PARTNER else
        if strcaseeq (drop 7 atom) ''-down'' then Some PARTNER_DOWN else
        None)
      else None) of
      Some t \<Rightarrow> t
    | None \<Rightarrow> (
      if strcaseeq (drop 1 atom) ''ort'' then PORT else
      if strcaseeq (drop 1 atom) ''otential-conflict'' then POTENTIAL_CONFLICT else
      if strcaseeq (drop 1 atom) ''ick-first-value'' \<or> strcaseeq (drop 1 atom) ''ick'' then PICK else
      if strcaseeq (drop 1 atom) ''aused'' then PAUSED else
      dfv))"

definition intern_r :: "int list \<Rightarrow> int \<Rightarrow> int" where
  "intern_r atom dfv = (
    if strcaseeq (drop 1 atom) ''esolution-interrupted'' then RESOLUTION_INTERRUPTED else
    if strcaseeq (drop 1 atom) ''ange'' then RANGE else
    if strcaseeq (drop 1 atom) ''ecover'' then RECOVER else
    if strcaseeq (drop 1 atom) ''ecover-done'' then RECOVER_DONE else
    if strcaseeq (drop 1 atom) ''ecover-wait'' then RECOVER_WAIT else
    if strcaseeq (drop 1 atom) ''econtact-interval'' then RECONTACT_INTERVAL else
    if strcaseeq (drop 1 atom) ''equest'' then REQUEST else
    if strcaseeq (drop 1 atom) ''equire'' then REQUIRE else
    if strcaseeq (drop 1 atom) ''equire'' then REQUIRE else
    if strcaseeq (drop 1 atom) ''etry'' then RETRY else
    if strcaseeq (drop 1 atom) ''eturn'' then RETURN else
    if strcaseeq (drop 1 atom) ''enew'' then RENEW else
    if strcaseeq (drop 1 atom) ''ebind'' then REBIND else
    if strcaseeq (drop 1 atom) ''eboot'' then REBOOT else
    if strcaseeq (drop 1 atom) ''eject'' then REJECT else
    if strcaseeq (drop 1 atom) ''everse'' then REVERSE else
    if strcaseeq (drop 1 atom) ''elease'' then RELEASE else
    if strcaseeq (drop 1 atom) ''efused'' then NS_REFUSED else
    if strcaseeq (drop 1 atom) ''eleased'' then TOKEN_RELEASED else
    if strcaseeq (drop 1 atom) ''eset'' then TOKEN_RESET else
    if strcaseeq (drop 1 atom) ''eserved'' then TOKEN_RESERVED else
    if strcaseeq (drop 1 atom) ''emove'' then REMOVE else
    if strcaseeq (drop 1 atom) ''efresh'' then REFRESH else
    dfv)"

definition intern_s :: "int list \<Rightarrow> int \<Rightarrow> int" where
  "intern_s atom dfv = (
    if strcaseeq (drop 1 atom) ''tate'' then STATE else
    if strcaseeq (drop 1 atom) ''ecret'' then SECRET else
    if strcaseeq (drop 1 atom) ''ervfail'' then NS_SERVFAIL else
    if strcaseeq (drop 1 atom) ''witch'' then SWITCH else
    if strcaseeq (drop 1 atom) ''igned'' then SIGNED else
    if strcaseeq (drop 1 atom) ''tring'' then STRING_TOKEN else
    if strcaseeq (drop 1 atom) ''uffix'' then SUFFIX else
    if strcaseeq (drop 1 atom) ''earch'' then SEARCH else
    if strcaseeq (drop 1 atom) ''tarts'' then STARTS else
    if strcaseeq (drop 1 atom) ''iaddr'' then SIADDR else
    if strcaseeq (drop 1 atom) ''hared-network'' then SHARED_NETWORK else
    if strcaseeq (drop 1 atom) ''econdary'' then SECONDARY else
    if strcaseeq (drop 1 atom) ''erver-name'' then SERVER_NAME else
    if strcaseeq (drop 1 atom) ''erver-identifier'' then SERVER_IDENTIFIER else
    if strcaseeq (drop 1 atom) ''erver'' then SERVER else
    if strcaseeq (drop 1 atom) ''elect-timeout'' then SELECT_TIMEOUT else
    if strcaseeq (drop 1 atom) ''elect'' then SELECT else
    if strcaseeq (drop 1 atom) ''end'' then SEND else
    if strcaseeq (drop 1 atom) ''cript'' then SCRIPT else
    if strcaseeq (drop 1 atom) ''upersede'' then SUPERSEDE else
    if strncaseeq (drop 1 atom) ''ub'' 2 then (
      if strcaseeq (drop 3 atom) ''string'' then SUBSTRING else
      if strcaseeq (drop 3 atom) ''net'' then SUBNET else
      if strcaseeq (drop 3 atom) ''class'' then SUBCLASS else
      dfv)
    else
    if strcaseeq (drop 1 atom) ''pawn'' then SPAWN else
    if strcaseeq (drop 1 atom) ''pace'' then SPACE else
    if strcaseeq (drop 1 atom) ''tatic'' then STATIC else
    if strcaseeq (drop 1 atom) ''plit'' then SPLIT else
    if strcaseeq (drop 1 atom) ''et'' then TOKEN_SET else
    if strcaseeq (drop 1 atom) ''econds'' then SECONDS else
    if strcaseeq (drop 1 atom) ''hutdown'' then SHUTDOWN else
    if strcaseeq (drop 1 atom) ''tartup'' then STARTUP else
    dfv)"

definition intern_t :: "int list \<Rightarrow> int \<Rightarrow> int" where
  "intern_t atom dfv = (
    if strcaseeq (drop 1 atom) ''imestamp'' then TIMESTAMP else
    if strcaseeq (drop 1 atom) ''imeout'' then TIMEOUT else
    if strcaseeq (drop 1 atom) ''oken-ring'' then TOKEN_RING else
    if strcaseeq (drop 1 atom) ''ext'' then TEXT else
    if strcaseeq (drop 1 atom) ''stp'' then TSTP else
    if strcaseeq (drop 1 atom) ''sfp'' then TSFP else
    if strcaseeq (drop 1 atom) ''ransmission'' then TRANSMISSION else
    dfv)"

definition intern_u :: "int list \<Rightarrow> int \<Rightarrow> int" where
  "intern_u atom dfv = (
    if strcaseeq (drop 1 atom) ''nset'' then UNSET else
    if strcaseeq (drop 1 atom) ''nsigned'' then UNSIGNED else
    if strcaseeq (drop 1 atom) ''id'' then UID else
    if strncaseeq (drop 1 atom) ''se'' 2 then (
      if strcaseeq (drop 3 atom) ''r-class'' then USER_CLASS else
      if strcaseeq (drop 3 atom) ''-host-decl-names'' then USE_HOST_DECL_NAMES else
      if strcaseeq (drop 3 atom) ''-lease-addr-for-default-route'' then USE_LEASE_ADDR_FOR_DEFAULT_ROUTE else
      dfv)
    else
    if strncaseeq (drop 1 atom) ''nknown'' 6 then (
      if strcaseeq (drop 7 atom) ''-clients'' then UNKNOWN_CLIENTS else
      if strcaseeq (drop 7 atom) ''-state'' then UNKNOWN_STATE else
      if c_at atom 7 = 0 then UNKNOWN else
      dfv)
    else
    if strcaseeq (drop 1 atom) ''nauthenticated'' then AUTHENTICATED else
    if strcaseeq (drop 1 atom) ''pdated-dns-rr'' then UPDATED_DNS_RR else
    if strcaseeq (drop 1 atom) ''pdate'' then UPDATE else
    dfv)"

definition intern_v :: "int list \<Rightarrow> int \<Rightarrow> int" where
  "intern_v atom dfv = (
    if strcaseeq (drop 1 atom) ''endor-class'' then VENDOR_CLASS else
    if strcaseeq (drop 1 atom) ''endor'' then VENDOR else
    dfv)"

definition intern_w :: "int list \<Rightarrow> int \<Rightarrow> int" where
  "intern_w atom dfv = (
    if strcaseeq (drop 1 atom) ''ith'' then WITH else
    dfv)"

definition intern_y :: "int list \<Rightarrow> int \<Rightarrow> int" where
  "intern_y atom dfv = (
    if strcaseeq (drop 1 atom) ''iaddr'' then YIADDR else
    if strcaseeq (drop 1 atom) ''xdomain'' then NS_YXDOMAIN else
    if strcaseeq (drop 1 atom) ''xrrset'' then NS_YXRRSET else
    dfv)"

definition intern_z :: "int list \<Rightarrow> int \<Rightarrow> int" where
  "intern_z atom dfv = (
    if strcaseeq (drop 1 atom) ''one'' then ZONE else
    dfv)"

definition intern :: "int list \<Rightarrow> int \<Rightarrow> int" where
  "intern atom dfv =
     (if \<not> isascii (c_at atom 0) then dfv
      else let c = tolower_c (c_at atom 0) in
      if c = 45 then intern_minus atom dfv else
      if c = 97 then intern_a atom dfv else
      if c = 98 then intern_b atom dfv else
      if c = 99 then intern_c atom dfv else
      if c = 100 then intern_d atom dfv else
      if c = 101 then intern_e atom dfv else
      if c = 102 then intern_f atom dfv else
      if c = 103 then intern_g atom dfv else
      if c = 104 then intern_h atom dfv else
      if c = 105 then intern_i atom dfv else
      if c = 107 then intern_k atom dfv else
      if c = 108 then intern_l atom dfv else
      if c = 109 then intern_m atom dfv else
      if c = 110 then intern_n atom dfv else
      if c = 111 then intern_o atom dfv else
      if c = 112 then intern_p atom dfv else
      if c = 114 then intern_r atom dfv else
      if c = 115 then intern_s atom dfv else
      if c = 116 then intern_t atom dfv else
      if c = 117 then intern_u atom dfv else
      if c = 118 then intern_v atom dfv else
      if c = 119 then intern_w atom dfv else
      if c = 121 then intern_y atom dfv else
      if c = 122 then intern_z atom dfv else
      dfv)"

lemmas intern_defs =
  intern_minus_def intern_a_def intern_b_def intern_c_def intern_d_def intern_e_def
  intern_f_def intern_g_def intern_h_def intern_i_def intern_k_def intern_l_def
  intern_m_def intern_n_def intern_o_def intern_p_def intern_r_def intern_s_def
  intern_t_def intern_u_def intern_v_def intern_w_def intern_y_def intern_z_def

text \<open>Unfolding a closed application: the switch, the comparisons and the character classes.\<close>

lemmas intern_eval =
  intern_def intern_defs strncaseeq_def c_at_def ctype_simps

section \<open>Keywords are recognised whatever their case\<close>

text \<open>Every test of the switch looks at the lower-case image of the atom only.\<close>

lemma lower_eq_strcaseeq:
  "map tolower_c a = map tolower_c b \<Longrightarrow> strcaseeq (drop k a) t = strcaseeq (drop k b) t"
  by (simp add: strcaseeq_iff flip: drop_map)

lemma lower_eq_strncaseeq:
  "map tolower_c a = map tolower_c b \<Longrightarrow> strncaseeq (drop k a) t n = strncaseeq (drop k b) t n"
  by (simp add: strncaseeq_def strcaseeq_iff flip: drop_map take_map)

lemma lower_eq_tolower_c_at:
  assumes "map tolower_c a = map tolower_c b"
  shows "tolower_c (c_at a k) = tolower_c (c_at b k)"
proof -
  have "length a = length b" using assms by (metis length_map)
  then show ?thesis
    using assms by (simp add: c_at_def list_eq_iff_nth_eq)
qed

lemma lower_eq_isascii_c_at:
  "map tolower_c a = map tolower_c b \<Longrightarrow> isascii (c_at a k) = isascii (c_at b k)"
  by (metis lower_eq_tolower_c_at isascii_tolower_c)

lemma lower_eq_c_at_zero:
  "map tolower_c a = map tolower_c b \<Longrightarrow> (c_at a k = 0) = (c_at b k = 0)"
  by (metis lower_eq_tolower_c_at tolower_c_zero)

lemmas lower_eq_tests =
  lower_eq_strcaseeq lower_eq_strncaseeq lower_eq_tolower_c_at lower_eq_isascii_c_at
  lower_eq_c_at_zero

text \<open>
  keywords are case-insensitive. Two atoms that differ only in the case of their letters are
  interned to the same token.
\<close>

theorem intern_case_insensitive:
  assumes "map tolower_c a = map tolower_c b"
  shows "intern a dfv = intern b dfv"
  unfolding intern_def intern_defs by (simp only: lower_eq_tests [OF assms])

theorem intern_case_insensitive_witness:
  "intern (codes ''LeAsE'') NAME = intern (codes ''lease'') NAME"
  using intern_case_insensitive [of "codes ''LeAsE''" "codes ''lease''" NAME]
  by (simp add: ctype_simps)

section \<open>The keywords\<close>

text \<open>
  The keywords the parser knows, with their tokens, as a table for each first letter. \<open>authenticated\<close> and \<open>authentication\<close> are not in it, as the switch does
  not reach them, and \<open>unauthenticated\<close> has the token the code gives it.
\<close>

definition keywords_minus :: "(string \<times> int) list" where
  "keywords_minus = [(''-'', MINUS)]"

definition keywords_a :: "(string \<times> int) list" where
  "keywords_a = [(''authoritative'', AUTHORITATIVE), (''and'', AND), (''append'', APPEND), (''allow'', ALLOW), (''alias'', ALIAS),
     (''algorithm'', ALGORITHM), (''abandoned'', TOKEN_ABANDONED), (''add'', TOKEN_ADD), (''all'', ALL_TOKEN), (''at'', AT),
     (''array'', ARRAY), (''address'', ADDRESS), (''active'', TOKEN_ACTIVE)]"

definition keywords_b :: "(string \<times> int) list" where
  "keywords_b = [(''backup'', TOKEN_BACKUP), (''bootp'', TOKEN_BOOTP), (''binding'', BINDING), (''binary-to-ascii'', BINARY_TO_ASCII),
     (''backoff-cutoff'', BACKOFF_CUTOFF), (''booting'', BOOTING), (''boot-unknown-clients'', BOOT_UNKNOWN_CLIENTS), (''break'', BREAK),
     (''billing'', BILLING), (''boolean'', BOOLEAN), (''balance'', BALANCE), (''bound'', BOUND)]"

definition keywords_c :: "(string \<times> int) list" where
  "keywords_c = [(''case'', CASE), (''commit'', COMMIT), (''code'', CODE), (''config-option'', CONFIG_OPTION), (''check'', CHECK),
     (''class'', CLASS), (''close'', TOKEN_CLOSE), (''create'', TOKEN_CREATE), (''ciaddr'', CIADDR),
     (''client-identifier'', CLIENT_IDENTIFIER), (''client-hostname'', CLIENT_HOSTNAME), (''client-state'', CLIENT_STATE),
     (''client-updates'', CLIENT_UPDATES), (''clients'', CLIENTS), (''concat'', CONCAT), (''connect'', CONNECT),
     (''communications-interrupted'', COMMUNICATIONS_INTERRUPTED), (''cltt'', CLTT)]"

definition keywords_d :: "(string \<times> int) list" where
  "keywords_d = [(''dns-update'', DNS_UPDATE), (''dns-delete'', DNS_DELETE), (''domain'', DOMAIN), (''domain-name'', DOMAIN_NAME),
     (''do-forward-update'', DO_FORWARD_UPDATE), (''debug'', TOKEN_DEBUG), (''deny'', DENY), (''deleted'', TOKEN_DELETED),
     (''delete'', TOKEN_DELETE), (''default'', DEFAULT), (''default-lease-time'', DEFAULT_LEASE_TIME), (''dynamic'', DYNAMIC),
     (''dynamic-bootp'', DYNAMIC_BOOTP), (''dynamic-bootp-lease-cutoff'', DYNAMIC_BOOTP_LEASE_CUTOFF),
     (''dynamic-bootp-lease-length'', DYNAMIC_BOOTP_LEASE_LENGTH), (''duplicates'', DUPLICATES), (''declines'', DECLINES),
     (''defined'', DEFINED), (''define'', DEFINE)]"

definition keywords_e :: "(string \<times> int) list" where
  "keywords_e = [(''extract-int'', EXTRACT_INT), (''exists'', EXISTS), (''expiry'', EXPIRY), (''expire'', EXPIRE),
     (''expired'', TOKEN_EXPIRED), (''encode-int'', ENCODE_INT), (''ethernet'', ETHERNET), (''ends'', ENDS), (''else'', ELSE),
     (''elsif'', ELSIF), (''error'', ERROR), (''eval'', EVAL), (''encapsulate'', ENCAPSULATE)]"

definition keywords_f :: "(string \<times> int) list" where
  "keywords_f = [(''fatal'', FATAL), (''filename'', FILENAME), (''fixed-address'', FIXED_ADDR), (''fddi'', FDDI), (''formerr'', NS_FORMERR),
     (''function'', FUNCTION), (''failover'', FAILOVER), (''free'', TOKEN_FREE)]"

definition keywords_g :: "(string \<times> int) list" where
  "keywords_g = [(''giaddr'', GIADDR), (''group'', GROUP), (''get-lease-hostnames'', GET_LEASE_HOSTNAMES)]"

definition keywords_h :: "(string \<times> int) list" where
  "keywords_h = [(''hba'', HBA), (''host'', HOST), (''host-decl-name'', HOST_DECL_NAME), (''hardware'', HARDWARE), (''hostname'', HOSTNAME),
     (''help'', TOKEN_HELP)]"

definition keywords_i :: "(string \<times> int) list" where
  "keywords_i = [(''include'', INCLUDE), (''integer'', INTEGER), (''infinite'', INFINITE), (''info'', INFO), (''ip-address'', IP_ADDRESS),
     (''initial-interval'', INITIAL_INTERVAL), (''interface'', INTERFACE), (''identifier'', IDENTIFIER), (''if'', IF), (''is'', IS),
     (''ignore'', IGNORE)]"

definition keywords_k :: "(string \<times> int) list" where
  "keywords_k = [(''known-clients'', KNOWN_CLIENTS), (''known'', KNOWN), (''key'', KEY)]"

definition keywords_l :: "(string \<times> int) list" where
  "keywords_l = [(''lease'', LEASE), (''leased-address'', LEASED_ADDRESS), (''lease-time'', LEASE_TIME), (''limit'', LIMIT), (''let'', LET),
     (''load'', LOAD), (''log'', LOG)]"

definition keywords_m :: "(string \<times> int) list" where
  "keywords_m = [(''max'', TOKEN_MAX), (''max-lease-time'', MAX_LEASE_TIME), (''max-transmit-idle'', MAX_TRANSMIT_IDLE),
     (''max-response-delay'', MAX_RESPONSE_DELAY), (''max-unacked-updates'', MAX_UNACKED_UPDATES), (''min-lease-time'', MIN_LEASE_TIME),
     (''min-secs'', MIN_SECS), (''media'', MEDIA), (''medium'', MEDIUM), (''match'', MATCH), (''members'', MEMBERS), (''my'', MY),
     (''mclt'', MCLT)]"

definition keywords_n :: "(string \<times> int) list" where
  "keywords_n = [(''normal'', NORMAL), (''nameserver'', NAMESERVER), (''netmask'', NETMASK), (''never'', NEVER),
     (''next-server'', NEXT_SERVER), (''not'', TOKEN_NOT), (''no'', NO), (''ns-update'', NS_UPDATE), (''noerror'', NS_NOERROR),
     (''notauth'', NS_NOTAUTH), (''notimp'', NS_NOTIMP), (''notzone'', NS_NOTZONE), (''nxdomain'', NS_NXDOMAIN), (''nxrrset'', NS_NXRRSET),
     (''null'', TOKEN_NULL), (''next'', TOKEN_NEXT), (''new'', TOKEN_NEW)]"

definition keywords_o :: "(string \<times> int) list" where
  "keywords_o = [(''omapi'', OMAPI), (''or'', OR), (''on'', ON), (''open'', TOKEN_OPEN), (''option'', OPTION),
     (''one-lease-per-client'', ONE_LEASE_PER_CLIENT), (''of'', OF), (''owner'', OWNER)]"

definition keywords_p :: "(string \<times> int) list" where
  "keywords_p = [(''prepend'', PREPEND), (''packet'', PACKET), (''pool'', POOL), (''pseudo'', PSEUDO), (''peer'', PEER),
     (''primary'', PRIMARY), (''partner'', PARTNER), (''partner-down'', PARTNER_DOWN), (''port'', PORT),
     (''potential-conflict'', POTENTIAL_CONFLICT), (''pick-first-value'', PICK), (''pick'', PICK), (''paused'', PAUSED)]"

definition keywords_r :: "(string \<times> int) list" where
  "keywords_r = [(''resolution-interrupted'', RESOLUTION_INTERRUPTED), (''range'', RANGE), (''recover'', RECOVER),
     (''recover-done'', RECOVER_DONE), (''recover-wait'', RECOVER_WAIT), (''recontact-interval'', RECONTACT_INTERVAL),
     (''request'', REQUEST), (''require'', REQUIRE), (''retry'', RETRY), (''return'', RETURN), (''renew'', RENEW), (''rebind'', REBIND),
     (''reboot'', REBOOT), (''reject'', REJECT), (''reverse'', REVERSE), (''release'', RELEASE), (''refused'', NS_REFUSED),
     (''released'', TOKEN_RELEASED), (''reset'', TOKEN_RESET), (''reserved'', TOKEN_RESERVED), (''remove'', REMOVE), (''refresh'', REFRESH)]"

definition keywords_s :: "(string \<times> int) list" where
  "keywords_s = [(''state'', STATE), (''secret'', SECRET), (''servfail'', NS_SERVFAIL), (''switch'', SWITCH), (''signed'', SIGNED),
     (''string'', STRING_TOKEN), (''suffix'', SUFFIX), (''search'', SEARCH), (''starts'', STARTS), (''siaddr'', SIADDR),
     (''shared-network'', SHARED_NETWORK), (''secondary'', SECONDARY), (''server-name'', SERVER_NAME),
     (''server-identifier'', SERVER_IDENTIFIER), (''server'', SERVER), (''select-timeout'', SELECT_TIMEOUT), (''select'', SELECT),
     (''send'', SEND), (''script'', SCRIPT), (''supersede'', SUPERSEDE), (''substring'', SUBSTRING), (''subnet'', SUBNET),
     (''subclass'', SUBCLASS), (''spawn'', SPAWN), (''space'', SPACE), (''static'', STATIC), (''split'', SPLIT), (''set'', TOKEN_SET),
     (''seconds'', SECONDS), (''shutdown'', SHUTDOWN), (''startup'', STARTUP)]"

definition keywords_t :: "(string \<times> int) list" where
  "keywords_t = [(''timestamp'', TIMESTAMP), (''timeout'', TIMEOUT), (''token-ring'', TOKEN_RING), (''text'', TEXT), (''tstp'', TSTP),
     (''tsfp'', TSFP), (''transmission'', TRANSMISSION)]"

definition keywords_u :: "(string \<times> int) list" where
  "keywords_u = [(''unset'', UNSET), (''unsigned'', UNSIGNED), (''uid'', UID), (''user-class'', USER_CLASS),
     (''use-host-decl-names'', USE_HOST_DECL_NAMES), (''use-lease-addr-for-default-route'', USE_LEASE_ADDR_FOR_DEFAULT_ROUTE),
     (''unknown-clients'', UNKNOWN_CLIENTS), (''unknown-state'', UNKNOWN_STATE), (''unknown'', UNKNOWN),
     (''unauthenticated'', AUTHENTICATED), (''updated-dns-rr'', UPDATED_DNS_RR), (''update'', UPDATE)]"

definition keywords_v :: "(string \<times> int) list" where
  "keywords_v = [(''vendor-class'', VENDOR_CLASS), (''vendor'', VENDOR)]"

definition keywords_w :: "(string \<times> int) list" where
  "keywords_w = [(''with'', WITH)]"

definition keywords_y :: "(string \<times> int) list" where
  "keywords_y = [(''yiaddr'', YIADDR), (''yxdomain'', NS_YXDOMAIN), (''yxrrset'', NS_YXRRSET)]"

definition keywords_z :: "(string \<times> int) list" where
  "keywords_z = [(''zone'', ZONE)]"

definition keyword_table :: "(string \<times> int) list" where
  "keyword_table = concat [keywords_minus, keywords_a, keywords_b, keywords_c, keywords_d, keywords_e, keywords_f, keywords_g, keywords_h, keywords_i, keywords_k, keywords_l, keywords_m, keywords_n, keywords_o, keywords_p, keywords_r, keywords_s, keywords_t, keywords_u, keywords_v, keywords_w, keywords_y, keywords_z]"

text \<open>The token of the keyword that is equal to a text up to the case of its letters.\<close>

fun keyword_lookup :: "(string \<times> int) list \<Rightarrow> int list \<Rightarrow> int option" where
  "keyword_lookup [] atom = None"
| "keyword_lookup ((k, t) # tab) atom = (if strcaseeq atom k then Some t else keyword_lookup tab atom)"

lemma keyword_lookup_append: "keyword_lookup (as @ bs) atom = (case keyword_lookup as atom of Some t \<Rightarrow> Some t | None \<Rightarrow> keyword_lookup bs atom)"
  by (induction as) auto

lemma keyword_lookup_other: "list_all (\<lambda>(k, t). k \<noteq> [] \<and> tolower_c (of_char (hd k)) \<noteq> tolower_c x) tab \<Longrightarrow> keyword_lookup tab (x # xs) = None"
proof (induction tab)
  case (Cons e tab)
  obtain k t where e: "e = (k, t)" by (cases e)
  with Cons have "k \<noteq> []" "tolower_c (of_char (hd k)) \<noteq> tolower_c x" by simp_all
  then have "\<not> strcaseeq (x # xs) k" by (cases k) auto
  with Cons e show ?case by simp
qed simp

lemma keyword_lookup_empty: "list_all (\<lambda>(k, t). k \<noteq> []) tab \<Longrightarrow> keyword_lookup tab [] = None"
proof (induction tab)
  case (Cons e tab)
  obtain k t where e: "e = (k, t)" by (cases e)
  with Cons show ?case by (cases k) auto
qed simp

text \<open>Comparisons behind a common beginning.\<close>

lemma strncaseeq_split:
  assumes "strncaseeq xs p n" "length p = n"
  obtains us ys where "xs = us @ ys" "map tolower_c us = map tolower_c (codes p)"
  using assms that [of "take n xs" "drop n xs"] by (simp add: strncaseeq_def strcaseeq_iff)

lemma not_strncaseeq: "\<not> strncaseeq xs p n \<Longrightarrow> length p = n \<Longrightarrow> \<not> strcaseeq xs (p @ q)"
proof
  assume "\<not> strncaseeq xs p n" "length p = n" "strcaseeq xs (p @ q)"
  moreover from this(3) have "take n (map tolower_c xs) = take n (map tolower_c (codes (p @ q)))" by (simp add: strcaseeq_iff)
  ultimately show False by (simp add: strncaseeq_def strcaseeq_iff flip: take_map)
qed

lemma c_at_drop: "c_at s (numeral k) = c_at (drop (numeral k) s) 0"
  by (simp add: c_at_def)

lemma c_at_end: "0 \<notin> set s \<Longrightarrow> c_at s 0 = 0 \<longleftrightarrow> s = []"
  by (cases s) (auto simp: c_at_def)

lemma strcaseeq_end [simp]: "strcaseeq s [] \<longleftrightarrow> s = []"
  by (cases s) simp_all

lemma tolower_c_fixed: "97 \<le> c \<Longrightarrow> tolower_c c = c" "c < 65 \<Longrightarrow> tolower_c c = c"
  by (simp_all add: tolower_c_def)

lemmas keyword_eval = c_at_drop c_at_end tolower_c_fixed

lemma intern_minus_table: "0 \<notin> set xs \<Longrightarrow> tolower_c x = 45 \<Longrightarrow>
   intern_minus (x # xs) dfv = (case keyword_lookup keywords_minus (x # xs) of Some t \<Rightarrow> t | None \<Rightarrow> dfv)"
  by (cases xs) (auto simp: intern_minus_def keywords_minus_def tolower_c_fixed c_at_def)

lemma intern_b_table: "0 \<notin> set xs \<Longrightarrow> tolower_c x = 98 \<Longrightarrow>
   intern_b (x # xs) dfv = (case keyword_lookup keywords_b (x # xs) of Some t \<Rightarrow> t | None \<Rightarrow> dfv)"
  by (simp add: intern_b_def keywords_b_def tolower_c_fixed)

lemma intern_f_table: "0 \<notin> set xs \<Longrightarrow> tolower_c x = 102 \<Longrightarrow>
   intern_f (x # xs) dfv = (case keyword_lookup keywords_f (x # xs) of Some t \<Rightarrow> t | None \<Rightarrow> dfv)"
  by (simp add: intern_f_def keywords_f_def tolower_c_fixed)

lemma intern_g_table: "0 \<notin> set xs \<Longrightarrow> tolower_c x = 103 \<Longrightarrow>
   intern_g (x # xs) dfv = (case keyword_lookup keywords_g (x # xs) of Some t \<Rightarrow> t | None \<Rightarrow> dfv)"
  by (simp add: intern_g_def keywords_g_def tolower_c_fixed)

lemma intern_h_table: "0 \<notin> set xs \<Longrightarrow> tolower_c x = 104 \<Longrightarrow>
   intern_h (x # xs) dfv = (case keyword_lookup keywords_h (x # xs) of Some t \<Rightarrow> t | None \<Rightarrow> dfv)"
  by (simp add: intern_h_def keywords_h_def tolower_c_fixed)

lemma intern_i_table: "0 \<notin> set xs \<Longrightarrow> tolower_c x = 105 \<Longrightarrow>
   intern_i (x # xs) dfv = (case keyword_lookup keywords_i (x # xs) of Some t \<Rightarrow> t | None \<Rightarrow> dfv)"
  by (simp add: intern_i_def keywords_i_def tolower_c_fixed)

lemma intern_l_table: "0 \<notin> set xs \<Longrightarrow> tolower_c x = 108 \<Longrightarrow>
   intern_l (x # xs) dfv = (case keyword_lookup keywords_l (x # xs) of Some t \<Rightarrow> t | None \<Rightarrow> dfv)"
  by (simp add: intern_l_def keywords_l_def tolower_c_fixed)

lemma intern_n_table: "0 \<notin> set xs \<Longrightarrow> tolower_c x = 110 \<Longrightarrow>
   intern_n (x # xs) dfv = (case keyword_lookup keywords_n (x # xs) of Some t \<Rightarrow> t | None \<Rightarrow> dfv)"
  by (simp add: intern_n_def keywords_n_def tolower_c_fixed)

lemma intern_o_table: "0 \<notin> set xs \<Longrightarrow> tolower_c x = 111 \<Longrightarrow>
   intern_o (x # xs) dfv = (case keyword_lookup keywords_o (x # xs) of Some t \<Rightarrow> t | None \<Rightarrow> dfv)"
  by (simp add: intern_o_def keywords_o_def tolower_c_fixed)

lemma intern_r_table: "0 \<notin> set xs \<Longrightarrow> tolower_c x = 114 \<Longrightarrow>
   intern_r (x # xs) dfv = (case keyword_lookup keywords_r (x # xs) of Some t \<Rightarrow> t | None \<Rightarrow> dfv)"
  by (simp add: intern_r_def keywords_r_def tolower_c_fixed)

lemma intern_t_table: "0 \<notin> set xs \<Longrightarrow> tolower_c x = 116 \<Longrightarrow>
   intern_t (x # xs) dfv = (case keyword_lookup keywords_t (x # xs) of Some t \<Rightarrow> t | None \<Rightarrow> dfv)"
  by (simp add: intern_t_def keywords_t_def tolower_c_fixed)

lemma intern_v_table: "0 \<notin> set xs \<Longrightarrow> tolower_c x = 118 \<Longrightarrow>
   intern_v (x # xs) dfv = (case keyword_lookup keywords_v (x # xs) of Some t \<Rightarrow> t | None \<Rightarrow> dfv)"
  by (simp add: intern_v_def keywords_v_def tolower_c_fixed)

lemma intern_w_table: "0 \<notin> set xs \<Longrightarrow> tolower_c x = 119 \<Longrightarrow>
   intern_w (x # xs) dfv = (case keyword_lookup keywords_w (x # xs) of Some t \<Rightarrow> t | None \<Rightarrow> dfv)"
  by (simp add: intern_w_def keywords_w_def tolower_c_fixed)

lemma intern_y_table: "0 \<notin> set xs \<Longrightarrow> tolower_c x = 121 \<Longrightarrow>
   intern_y (x # xs) dfv = (case keyword_lookup keywords_y (x # xs) of Some t \<Rightarrow> t | None \<Rightarrow> dfv)"
  by (simp add: intern_y_def keywords_y_def tolower_c_fixed)

lemma intern_z_table: "0 \<notin> set xs \<Longrightarrow> tolower_c x = 122 \<Longrightarrow>
   intern_z (x # xs) dfv = (case keyword_lookup keywords_z (x # xs) of Some t \<Rightarrow> t | None \<Rightarrow> dfv)"
  by (simp add: intern_z_def keywords_z_def tolower_c_fixed)

lemma intern_a_table:
  assumes "0 \<notin> set xs" "tolower_c x = 97"
  shows "intern_a (x # xs) dfv = (case keyword_lookup keywords_a (x # xs) of Some t \<Rightarrow> t | None \<Rightarrow> dfv)"
proof -
  consider "strncaseeq xs ''uth'' 3" | "\<not> strncaseeq xs ''uth'' 3" by blast
  then show ?thesis
  proof cases
    case 1
    then obtain a b c ys where xs: "xs = a # b # c # ys" "tolower_c a = 117" "tolower_c b = 116" "tolower_c c = 104"
      by (elim strncaseeq_split) (auto simp: map_eq_Cons_conv tolower_c_fixed)
    have "0 \<notin> set ys" using assms(1) xs(1) by simp
    with assms(2) show ?thesis by (simp add: intern_a_def keywords_a_def strncaseeq_def keyword_eval xs)
  next
    case 2
    then show ?thesis using assms not_strncaseeq [OF 2, of "''oritative''"]
      by (simp add: intern_a_def keywords_a_def keyword_eval)
  qed
qed

lemma intern_c_table:
  assumes "0 \<notin> set xs" "tolower_c x = 99"
  shows "intern_c (x # xs) dfv = (case keyword_lookup keywords_c (x # xs) of Some t \<Rightarrow> t | None \<Rightarrow> dfv)"
proof -
  consider "strncaseeq xs ''lient'' 5" | "\<not> strncaseeq xs ''lient'' 5" by blast
  then show ?thesis
  proof cases
    case 1
    then obtain a b c d e ys where xs: "xs = a # b # c # d # e # ys" "tolower_c a = 108" "tolower_c b = 105" "tolower_c c = 101" "tolower_c d = 110" "tolower_c e = 116"
      by (elim strncaseeq_split) (auto simp: map_eq_Cons_conv tolower_c_fixed)
    have "0 \<notin> set ys" using assms(1) xs(1) by simp
    with assms(2) show ?thesis by (simp add: intern_c_def keywords_c_def strncaseeq_def keyword_eval xs)
  next
    case 2
    then show ?thesis using assms not_strncaseeq [OF 2, of "''-identifier''"] not_strncaseeq [OF 2, of "''-hostname''"] not_strncaseeq [OF 2, of "''-state''"] not_strncaseeq [OF 2, of "''-updates''"] not_strncaseeq [OF 2, of "''s''"]
      by (simp add: intern_c_def keywords_c_def keyword_eval)
  qed
qed

lemma intern_d_table:
  assumes "0 \<notin> set xs" "tolower_c x = 100"
  shows "intern_d (x # xs) dfv = (case keyword_lookup keywords_d (x # xs) of Some t \<Rightarrow> t | None \<Rightarrow> dfv)"
proof -
  consider "strncaseeq xs ''efault'' 6" | "strncaseeq xs ''ynamic'' 6" | "strncaseeq xs ''efine'' 5" | "\<not> strncaseeq xs ''efault'' 6" "\<not> strncaseeq xs ''ynamic'' 6" "\<not> strncaseeq xs ''efine'' 5" by blast
  then show ?thesis
  proof cases
    case 1
    then obtain a b c d e f ys where xs: "xs = a # b # c # d # e # f # ys" "tolower_c a = 101" "tolower_c b = 102" "tolower_c c = 97" "tolower_c d = 117" "tolower_c e = 108" "tolower_c f = 116"
      by (elim strncaseeq_split) (auto simp: map_eq_Cons_conv tolower_c_fixed)
    have "0 \<notin> set ys" using assms(1) xs(1) by simp
    with assms(2) show ?thesis by (simp add: intern_d_def keywords_d_def strncaseeq_def keyword_eval xs)
  next
    case 2
    then obtain a b c d e f ys where xs: "xs = a # b # c # d # e # f # ys" "tolower_c a = 121" "tolower_c b = 110" "tolower_c c = 97" "tolower_c d = 109" "tolower_c e = 105" "tolower_c f = 99"
      by (elim strncaseeq_split) (auto simp: map_eq_Cons_conv tolower_c_fixed)
    have "0 \<notin> set ys" using assms(1) xs(1) by simp
    consider "strncaseeq ys ''-bootp'' 6" | "\<not> strncaseeq ys ''-bootp'' 6" by blast
    then show ?thesis
    proof cases
      case 1
      then obtain h i j k l m zs where ys: "ys = h # i # j # k # l # m # zs" "tolower_c h = 45" "tolower_c i = 98" "tolower_c j = 111" "tolower_c k = 111" "tolower_c l = 116" "tolower_c m = 112"
        by (elim strncaseeq_split) (auto simp: map_eq_Cons_conv tolower_c_fixed)
      have "0 \<notin> set (h # i # j # k # l # m # zs)" using \<open>0 \<notin> set ys\<close> ys(1) by simp
      with assms(2) show ?thesis by (simp add: intern_d_def keywords_d_def strncaseeq_def keyword_eval xs ys)
    next
      case 2
      note b = not_strncaseeq [OF 2, of "[]"] not_strncaseeq [OF 2, of "''-lease-cutoff''"] not_strncaseeq [OF 2, of "''-lease-length''"]
      have "\<not> strcaseeq (take 6 ys) ''-bootp''" using 2 by (simp add: strncaseeq_def)
      with b assms(2) \<open>0 \<notin> set ys\<close> show ?thesis by (simp add: intern_d_def keywords_d_def strncaseeq_def keyword_eval xs)
    qed
  next
    case 3
    then obtain a b c d e ys where xs: "xs = a # b # c # d # e # ys" "tolower_c a = 101" "tolower_c b = 102" "tolower_c c = 105" "tolower_c d = 110" "tolower_c e = 101"
      by (elim strncaseeq_split) (auto simp: map_eq_Cons_conv tolower_c_fixed)
    have "0 \<notin> set ys" using assms(1) xs(1) by simp
    with assms(2) show ?thesis by (simp add: intern_d_def keywords_d_def strncaseeq_def keyword_eval xs)
  next
    case 4
    then show ?thesis using assms not_strncaseeq [OF 4(1), of "''''"] not_strncaseeq [OF 4(1), of "''-lease-time''"] not_strncaseeq [OF 4(2), of "''''"] not_strncaseeq [OF 4(2), of "''-bootp''"] not_strncaseeq [OF 4(2), of "''-bootp-lease-cutoff''"] not_strncaseeq [OF 4(2), of "''-bootp-lease-length''"] not_strncaseeq [OF 4(3), of "''d''"] not_strncaseeq [OF 4(3), of "''''"]
      by (simp add: intern_d_def keywords_d_def keyword_eval)
  qed
qed

lemma intern_e_table:
  assumes "0 \<notin> set xs" "tolower_c x = 101"
  shows "intern_e (x # xs) dfv = (case keyword_lookup keywords_e (x # xs) of Some t \<Rightarrow> t | None \<Rightarrow> dfv)"
proof (cases xs)
  case Nil
  with assms show ?thesis by (simp add: intern_e_def keywords_e_def strncaseeq_def c_at_def tolower_c_fixed)
next
  case (Cons y ys)
  have c: "c_at (x # y # ys) 1 = y" by (simp add: c_at_def)
  consider "tolower_c y = 120" | "strncaseeq xs ''ls'' 2" | "tolower_c y \<noteq> 120" "\<not> strncaseeq xs ''ls'' 2" by blast
  then show ?thesis
  proof cases
    case 1
    then have "isascii y" using isascii_tolower_c [of y] by (simp add: isascii_def)
    with 1 assms(2) show ?thesis unfolding intern_e_def Cons c by (simp add: keywords_e_def strncaseeq_def tolower_c_fixed)
  next
    case 2
    then obtain b zs where ys: "ys = b # zs" "tolower_c y = 108" "tolower_c b = 115"
      using Cons by (elim strncaseeq_split) (auto simp: map_eq_Cons_conv tolower_c_fixed)
    with assms(2) show ?thesis unfolding intern_e_def Cons c by (simp add: keywords_e_def strncaseeq_def tolower_c_fixed)
  next
    case 3
    note n = not_strncaseeq [OF 3(2), of "''e''"] not_strncaseeq [OF 3(2), of "''if''"]
    show ?thesis using 3 n assms(2) unfolding intern_e_def Cons c by (simp add: keywords_e_def tolower_c_fixed)
  qed
qed

lemma intern_k_table:
  assumes "0 \<notin> set xs" "tolower_c x = 107"
  shows "intern_k (x # xs) dfv = (case keyword_lookup keywords_k (x # xs) of Some t \<Rightarrow> t | None \<Rightarrow> dfv)"
proof -
  consider "strncaseeq xs ''nown'' 4" | "\<not> strncaseeq xs ''nown'' 4" by blast
  then show ?thesis
  proof cases
    case 1
    then obtain a b c d ys where xs: "xs = a # b # c # d # ys" "tolower_c a = 110" "tolower_c b = 111" "tolower_c c = 119" "tolower_c d = 110"
      by (elim strncaseeq_split) (auto simp: map_eq_Cons_conv tolower_c_fixed)
    have "0 \<notin> set ys" using assms(1) xs(1) by simp
    with assms(2) show ?thesis by (simp add: intern_k_def keywords_k_def strncaseeq_def keyword_eval xs)
  next
    case 2
    then show ?thesis using assms not_strncaseeq [OF 2, of "''-clients''"] not_strncaseeq [OF 2, of "''''"]
      by (simp add: intern_k_def keywords_k_def keyword_eval)
  qed
qed

lemma intern_m_table:
  assumes "0 \<notin> set xs" "tolower_c x = 109"
  shows "intern_m (x # xs) dfv = (case keyword_lookup keywords_m (x # xs) of Some t \<Rightarrow> t | None \<Rightarrow> dfv)"
proof -
  consider "strncaseeq xs ''ax'' 2" | "strncaseeq xs ''in-'' 3" | "strncaseeq xs ''edi'' 3" | "\<not> strncaseeq xs ''ax'' 2" "\<not> strncaseeq xs ''in-'' 3" "\<not> strncaseeq xs ''edi'' 3" by blast
  then show ?thesis
  proof cases
    case 1
    then obtain a b ys where xs: "xs = a # b # ys" "tolower_c a = 97" "tolower_c b = 120"
      by (elim strncaseeq_split) (auto simp: map_eq_Cons_conv tolower_c_fixed)
    have "0 \<notin> set ys" using assms(1) xs(1) by simp
    with assms(2) show ?thesis by (simp add: intern_m_def keywords_m_def strncaseeq_def keyword_eval xs)
  next
    case 2
    then obtain a b c ys where xs: "xs = a # b # c # ys" "tolower_c a = 105" "tolower_c b = 110" "tolower_c c = 45"
      by (elim strncaseeq_split) (auto simp: map_eq_Cons_conv tolower_c_fixed)
    have "0 \<notin> set ys" using assms(1) xs(1) by simp
    with assms(2) show ?thesis by (simp add: intern_m_def keywords_m_def strncaseeq_def keyword_eval xs)
  next
    case 3
    then obtain a b c ys where xs: "xs = a # b # c # ys" "tolower_c a = 101" "tolower_c b = 100" "tolower_c c = 105"
      by (elim strncaseeq_split) (auto simp: map_eq_Cons_conv tolower_c_fixed)
    have "0 \<notin> set ys" using assms(1) xs(1) by simp
    with assms(2) show ?thesis by (simp add: intern_m_def keywords_m_def strncaseeq_def keyword_eval xs)
  next
    case 4
    then show ?thesis using assms not_strncaseeq [OF 4(1), of "''''"] not_strncaseeq [OF 4(1), of "''-lease-time''"] not_strncaseeq [OF 4(1), of "''-transmit-idle''"] not_strncaseeq [OF 4(1), of "''-response-delay''"] not_strncaseeq [OF 4(1), of "''-unacked-updates''"] not_strncaseeq [OF 4(2), of "''lease-time''"] not_strncaseeq [OF 4(2), of "''secs''"] not_strncaseeq [OF 4(3), of "''a''"] not_strncaseeq [OF 4(3), of "''um''"]
      by (simp add: intern_m_def keywords_m_def keyword_eval)
  qed
qed

lemma intern_p_table:
  assumes "0 \<notin> set xs" "tolower_c x = 112"
  shows "intern_p (x # xs) dfv = (case keyword_lookup keywords_p (x # xs) of Some t \<Rightarrow> t | None \<Rightarrow> dfv)"
proof -
  consider "strncaseeq xs ''artner'' 6" | "\<not> strncaseeq xs ''artner'' 6" by blast
  then show ?thesis
  proof cases
    case 1
    then obtain a b c d e f ys where xs: "xs = a # b # c # d # e # f # ys" "tolower_c a = 97" "tolower_c b = 114" "tolower_c c = 116" "tolower_c d = 110" "tolower_c e = 101" "tolower_c f = 114"
      by (elim strncaseeq_split) (auto simp: map_eq_Cons_conv tolower_c_fixed)
    have "0 \<notin> set ys" using assms(1) xs(1) by simp
    with assms(2) show ?thesis by (simp add: intern_p_def keywords_p_def strncaseeq_def keyword_eval xs)
  next
    case 2
    then show ?thesis using assms not_strncaseeq [OF 2, of "''''"] not_strncaseeq [OF 2, of "''-down''"]
      by (simp add: intern_p_def keywords_p_def keyword_eval)
  qed
qed

lemma intern_s_table:
  assumes "0 \<notin> set xs" "tolower_c x = 115"
  shows "intern_s (x # xs) dfv = (case keyword_lookup keywords_s (x # xs) of Some t \<Rightarrow> t | None \<Rightarrow> dfv)"
proof -
  consider "strncaseeq xs ''ub'' 2" | "\<not> strncaseeq xs ''ub'' 2" by blast
  then show ?thesis
  proof cases
    case 1
    then obtain a b ys where xs: "xs = a # b # ys" "tolower_c a = 117" "tolower_c b = 98"
      by (elim strncaseeq_split) (auto simp: map_eq_Cons_conv tolower_c_fixed)
    have "0 \<notin> set ys" using assms(1) xs(1) by simp
    with assms(2) show ?thesis by (simp add: intern_s_def keywords_s_def strncaseeq_def keyword_eval xs)
  next
    case 2
    then show ?thesis using assms not_strncaseeq [OF 2, of "''string''"] not_strncaseeq [OF 2, of "''net''"] not_strncaseeq [OF 2, of "''class''"]
      by (simp add: intern_s_def keywords_s_def keyword_eval)
  qed
qed

lemma intern_u_table:
  assumes "0 \<notin> set xs" "tolower_c x = 117"
  shows "intern_u (x # xs) dfv = (case keyword_lookup keywords_u (x # xs) of Some t \<Rightarrow> t | None \<Rightarrow> dfv)"
proof -
  consider "strncaseeq xs ''se'' 2" | "strncaseeq xs ''nknown'' 6" | "\<not> strncaseeq xs ''se'' 2" "\<not> strncaseeq xs ''nknown'' 6" by blast
  then show ?thesis
  proof cases
    case 1
    then obtain a b ys where xs: "xs = a # b # ys" "tolower_c a = 115" "tolower_c b = 101"
      by (elim strncaseeq_split) (auto simp: map_eq_Cons_conv tolower_c_fixed)
    have "0 \<notin> set ys" using assms(1) xs(1) by simp
    with assms(2) show ?thesis by (simp add: intern_u_def keywords_u_def strncaseeq_def keyword_eval xs)
  next
    case 2
    then obtain a b c d e f ys where xs: "xs = a # b # c # d # e # f # ys" "tolower_c a = 110" "tolower_c b = 107" "tolower_c c = 110" "tolower_c d = 111" "tolower_c e = 119" "tolower_c f = 110"
      by (elim strncaseeq_split) (auto simp: map_eq_Cons_conv tolower_c_fixed)
    have "0 \<notin> set ys" using assms(1) xs(1) by simp
    with assms(2) show ?thesis by (simp add: intern_u_def keywords_u_def strncaseeq_def keyword_eval xs)
  next
    case 3
    then show ?thesis using assms not_strncaseeq [OF 3(1), of "''r-class''"] not_strncaseeq [OF 3(1), of "''-host-decl-names''"] not_strncaseeq [OF 3(1), of "''-lease-addr-for-default-route''"] not_strncaseeq [OF 3(2), of "''-clients''"] not_strncaseeq [OF 3(2), of "''-state''"] not_strncaseeq [OF 3(2), of "''''"]
      by (simp add: intern_u_def keywords_u_def keyword_eval)
  qed
qed

lemma keyword_lookup_letters:
  "tolower_c x \<noteq> 45 \<Longrightarrow> keyword_lookup keywords_minus (x # xs) = None"
  "tolower_c x \<noteq> 97 \<Longrightarrow> keyword_lookup keywords_a (x # xs) = None"
  "tolower_c x \<noteq> 98 \<Longrightarrow> keyword_lookup keywords_b (x # xs) = None"
  "tolower_c x \<noteq> 99 \<Longrightarrow> keyword_lookup keywords_c (x # xs) = None"
  "tolower_c x \<noteq> 100 \<Longrightarrow> keyword_lookup keywords_d (x # xs) = None"
  "tolower_c x \<noteq> 101 \<Longrightarrow> keyword_lookup keywords_e (x # xs) = None"
  "tolower_c x \<noteq> 102 \<Longrightarrow> keyword_lookup keywords_f (x # xs) = None"
  "tolower_c x \<noteq> 103 \<Longrightarrow> keyword_lookup keywords_g (x # xs) = None"
  "tolower_c x \<noteq> 104 \<Longrightarrow> keyword_lookup keywords_h (x # xs) = None"
  "tolower_c x \<noteq> 105 \<Longrightarrow> keyword_lookup keywords_i (x # xs) = None"
  "tolower_c x \<noteq> 107 \<Longrightarrow> keyword_lookup keywords_k (x # xs) = None"
  "tolower_c x \<noteq> 108 \<Longrightarrow> keyword_lookup keywords_l (x # xs) = None"
  "tolower_c x \<noteq> 109 \<Longrightarrow> keyword_lookup keywords_m (x # xs) = None"
  "tolower_c x \<noteq> 110 \<Longrightarrow> keyword_lookup keywords_n (x # xs) = None"
  "tolower_c x \<noteq> 111 \<Longrightarrow> keyword_lookup keywords_o (x # xs) = None"
  "tolower_c x \<noteq> 112 \<Longrightarrow> keyword_lookup keywords_p (x # xs) = None"
  "tolower_c x \<noteq> 114 \<Longrightarrow> keyword_lookup keywords_r (x # xs) = None"
  "tolower_c x \<noteq> 115 \<Longrightarrow> keyword_lookup keywords_s (x # xs) = None"
  "tolower_c x \<noteq> 116 \<Longrightarrow> keyword_lookup keywords_t (x # xs) = None"
  "tolower_c x \<noteq> 117 \<Longrightarrow> keyword_lookup keywords_u (x # xs) = None"
  "tolower_c x \<noteq> 118 \<Longrightarrow> keyword_lookup keywords_v (x # xs) = None"
  "tolower_c x \<noteq> 119 \<Longrightarrow> keyword_lookup keywords_w (x # xs) = None"
  "tolower_c x \<noteq> 121 \<Longrightarrow> keyword_lookup keywords_y (x # xs) = None"
  "tolower_c x \<noteq> 122 \<Longrightarrow> keyword_lookup keywords_z (x # xs) = None"
  unfolding keywords_minus_def keywords_a_def keywords_b_def keywords_c_def keywords_d_def keywords_e_def keywords_f_def keywords_g_def keywords_h_def keywords_i_def keywords_k_def keywords_l_def keywords_m_def keywords_n_def keywords_o_def keywords_p_def keywords_r_def keywords_s_def keywords_t_def keywords_u_def keywords_v_def keywords_w_def keywords_y_def keywords_z_def
  by (rule keyword_lookup_other, auto simp: tolower_c_fixed)+

lemmas intern_tables =
  intern_minus_table intern_a_table intern_b_table intern_c_table intern_d_table intern_e_table intern_f_table intern_g_table intern_h_table intern_i_table intern_k_table intern_l_table intern_m_table intern_n_table intern_o_table intern_p_table intern_r_table intern_s_table intern_t_table intern_u_table intern_v_table intern_w_table intern_y_table intern_z_table

lemmas keywords_defs =
  keywords_minus_def keywords_a_def keywords_b_def keywords_c_def keywords_d_def keywords_e_def keywords_f_def keywords_g_def
  keywords_h_def keywords_i_def keywords_k_def keywords_l_def keywords_m_def keywords_n_def keywords_o_def keywords_p_def
  keywords_r_def keywords_s_def keywords_t_def keywords_u_def keywords_v_def keywords_w_def keywords_y_def keywords_z_def

text \<open>
  C38: \<^verbatim>\<open>intern\<close> is the table. For every text without a NUL, the nested comparisons of the switch give the token of the keyword the text is equal to up to the case of its letters,
  and the default of the caller if it is no keyword: none of the 244 keywords is missed, and nothing else is taken for one. (The table leaves out \<open>authenticated\<close> and \<open>authentication\<close>, which the code misses.)
\<close>

theorem intern_is_table:
  assumes "0 \<notin> set atom"
  shows "intern atom dfv = (case keyword_lookup keyword_table atom of Some t \<Rightarrow> t | None \<Rightarrow> dfv)"
proof (cases atom)
  case Nil
  have "keyword_lookup keyword_table [] = None" by (rule keyword_lookup_empty) (simp add: keyword_table_def keywords_defs)
  then show ?thesis using Nil by (simp add: intern_def c_at_def tolower_c_fixed isascii_def)
next
  case (Cons x xs)
  have c: "c_at (x # xs) 0 = x" by (simp add: c_at_def)
  have z: "0 \<notin> set xs" using assms Cons by simp
  note table = keyword_table_def keyword_lookup_append keyword_lookup_letters
  show ?thesis
  proof (cases "isascii x")
    case False
    have "tolower_c x \<noteq> k" if "0 \<le> k" "k < 128" for k using that False isascii_tolower_c [of x] by (auto simp: isascii_def)
    with False show ?thesis unfolding Cons intern_def c by (simp add: table)
  next
    case True
    consider "tolower_c x = 45" | "tolower_c x = 97" | "tolower_c x = 98" | "tolower_c x = 99" | "tolower_c x = 100" | "tolower_c x = 101" | "tolower_c x = 102" | "tolower_c x = 103" | "tolower_c x = 104" | "tolower_c x = 105" | "tolower_c x = 107" | "tolower_c x = 108" | "tolower_c x = 109" | "tolower_c x = 110" | "tolower_c x = 111" | "tolower_c x = 112" | "tolower_c x = 114" | "tolower_c x = 115" | "tolower_c x = 116" | "tolower_c x = 117" | "tolower_c x = 118" | "tolower_c x = 119" | "tolower_c x = 121" | "tolower_c x = 122"
      | "tolower_c x \<noteq> 45" "tolower_c x \<noteq> 97" "tolower_c x \<noteq> 98" "tolower_c x \<noteq> 99" "tolower_c x \<noteq> 100" "tolower_c x \<noteq> 101" "tolower_c x \<noteq> 102" "tolower_c x \<noteq> 103" "tolower_c x \<noteq> 104" "tolower_c x \<noteq> 105" "tolower_c x \<noteq> 107" "tolower_c x \<noteq> 108" "tolower_c x \<noteq> 109" "tolower_c x \<noteq> 110" "tolower_c x \<noteq> 111" "tolower_c x \<noteq> 112" "tolower_c x \<noteq> 114" "tolower_c x \<noteq> 115" "tolower_c x \<noteq> 116" "tolower_c x \<noteq> 117" "tolower_c x \<noteq> 118" "tolower_c x \<noteq> 119" "tolower_c x \<noteq> 121" "tolower_c x \<noteq> 122" by blast
    then show ?thesis unfolding Cons intern_def c Let_def
    proof cases
    qed (use True z in \<open>simp_all add: table intern_tables split: option.split\<close>)
  qed
qed

theorem intern_is_table_witness:
  "intern (codes ''Fixed-Address'') NAME = FIXED_ADDR \<and> intern (codes ''dynamic-bootp'') NAME = DYNAMIC_BOOTP \<and> intern (codes ''leases'') NAME = NAME"
proof -
  have "keyword_lookup keyword_table (codes ''Fixed-Address'') = Some FIXED_ADDR" "keyword_lookup keyword_table (codes ''dynamic-bootp'') = Some DYNAMIC_BOOTP"
      "keyword_lookup keyword_table (codes ''leases'') = None"
    by (simp_all add: keyword_table_def keywords_defs tolower_c_def)
  then show ?thesis
    using intern_is_table [of "codes ''Fixed-Address''" NAME] intern_is_table [of "codes ''dynamic-bootp''" NAME] intern_is_table [of "codes ''leases''" NAME] by simp
qed

text \<open>
  \<^verbatim>\<open>AUTHENTICATED\<close> and \<^verbatim>\<open>AUTHENTICATION\<close> cannot be reached from an atom that starts with \<open>a\<close>: the
  second comparison of the letter's case starts one character too early, at \<^verbatim>\<open>atom + 3\<close>, where the
  first has just matched an \<open>h\<close>.
\<close>

theorem intern_a_never_authenticated:
  "dfv \<notin> {AUTHENTICATED, AUTHENTICATION} \<Longrightarrow>
   intern_a atom dfv \<notin> {AUTHENTICATED, AUTHENTICATION}"
proof -
  have no: "\<not> strncaseeq (drop 3 atom) ''uthenticat'' 10" if "strncaseeq (drop 1 atom) ''uth'' 3"
  proof -
    have "2 < length (drop 1 atom)" "tolower_c (drop 1 atom ! 2) = tolower_c 104"
      using strncaseeq_nth [OF that, of 2] by simp_all
    then have "tolower_c (atom ! 3) = tolower_c 104" "3 < length atom"
      by (simp_all add: numeral_3_eq_3)
    then have h: "tolower_c (drop 3 atom ! 0) = tolower_c 104" by simp
    show ?thesis
    proof
      assume "strncaseeq (drop 3 atom) ''uthenticat'' 10"
      then have "tolower_c (drop 3 atom ! 0) = tolower_c 117"
        using strncaseeq_nth [of "drop 3 atom" _ _ 0] by fastforce
      with h have "tolower_c 104 = tolower_c 117" by metis
      then show False by (simp add: ctype_simps)
    qed
  qed
  assume "dfv \<notin> {AUTHENTICATED, AUTHENTICATION}"
  then show ?thesis
    using no unfolding intern_a_def by simp
qed

theorem intern_a_never_authenticated_witness:
  "intern_a (codes ''authenticated'') NAME \<notin> {AUTHENTICATED, AUTHENTICATION}"
  using intern_a_never_authenticated [of NAME "codes ''authenticated''"] by simp

end
