(* ===== verification/Lease_Lexer.thy ===== *)
theory Lease_Lexer
  imports Lease_Tokens
begin

text \<open>
  The lexer of base/cl_parse.c: \<^verbatim>\<open>struct parse\<close>, the buffered reader \<^verbatim>\<open>get_char\<close>, the scanners
  \<^verbatim>\<open>read_number\<close>, \<^verbatim>\<open>read_string\<close> and \<^verbatim>\<open>read_num_or_name\<close>, \<^verbatim>\<open>get_token\<close>, and the one-token
  lookahead \<^verbatim>\<open>next_token\<close> / \<^verbatim>\<open>peek_token\<close>.

  The record has the fields of the structure (\<^verbatim>\<open>file\<close> is \<open>fd\<close>). The three line pointers are names of the two line
  buffers, \<open>tval\<close> names what it points to (\<^verbatim>\<open>tokbuf\<close> or the static \<^verbatim>\<open>tb\<close>). Three fields stand for
  the world outside: \<open>rd\<close> is what successive calls of \<open>read(2)\<close> deliver (\<open>None\<close> a failure, an
  exhausted list the end of the file), \<open>mallocs\<close> says which allocations succeed (all of them once it
  is exhausted), and \<open>ub\<close> records that the code has left what the C standard defines. \<open>inbuf\<close> is the
  initialised prefix of the input buffer. Output (\<open>printf\<close>) is not part of the state.
\<close>

section \<open>State\<close>

datatype linebuf = Line1 | Line2

datatype tvalptr = TvNull | TvTokbuf | TvTb

record parse =
  lexline :: int
  lexchar :: int
  token_line :: linebuf
  prev_line :: linebuf
  cur_line :: linebuf
  tlname :: string
  eol_token :: int
  line1 :: carray
  line2 :: carray
  lpos :: int
  line :: int
  tlpos :: int
  tline :: int
  token :: int
  ugflag :: int
  tval :: tvalptr
  tlen :: int
  tokbuf :: carray
  tb :: int
  warnings_occurred :: int
  fd :: int
  inbuf :: "int list"
  bufix :: nat
  buflen :: nat
  bufsiz :: nat
  rd :: "int list option list"
  mallocs :: "bool list"
  ub :: bool

abbreviation TOKBUF_SIZE :: nat where
  "TOKBUF_SIZE \<equiv> 1500"

text \<open>\<open>buflen\<close> is unsigned: a failed \<open>read\<close> stores \<open>-1\<close> in it.\<close>

abbreviation UINT_MAX :: nat where
  "UINT_MAX \<equiv> 4294967295"

section \<open>Reading characters\<close>

text \<open>
  The refill of \<^verbatim>\<open>get_char\<close>. After a failed read the test \<^verbatim>\<open>buflen < 0\<close> is false for an unsigned
  \<open>buflen\<close>, so the code takes its last branch.
\<close>

definition fill :: "parse \<Rightarrow> int \<times> parse" where
  "fill cf =
     (case rd cf of
        [] \<Rightarrow> (EOF, cf\<lparr>buflen := 0, bufix := 0\<rparr>)
      | None # rs \<Rightarrow>
          (if inbuf cf = [] then (EOF, cf\<lparr>rd := rs, buflen := UINT_MAX, bufix := 1, ub := True\<rparr>)
           else (hd (inbuf cf), cf\<lparr>rd := rs, buflen := UINT_MAX, bufix := 1\<rparr>))
      | Some ch # rs \<Rightarrow>
          (let ch' = take (bufsiz cf) ch in
           if ch' = [] then (EOF, cf\<lparr>rd := rs, buflen := 0, bufix := 0\<rparr>)
           else (hd ch', cf\<lparr>rd := rs, inbuf := ch' @ drop (length ch') (inbuf cf),
                            buflen := length ch', bufix := 1\<rparr>)))"

text \<open>The bookkeeping of \<^verbatim>\<open>get_char\<close> after it has the character: line buffers and positions.\<close>

definition note_char :: "int \<Rightarrow> parse \<Rightarrow> parse" where
  "note_char c cf =
     (if ugflag cf = 0 then
        if c = EOL then
          (if cur_line cf = Line1
           then cf\<lparr>cur_line := Line2, prev_line := Line1, line := line cf + 1, lpos := 1,
                    line2 := (line2 cf)(0 := 0)\<rparr>
           else cf\<lparr>cur_line := Line1, prev_line := Line2, line := line cf + 1, lpos := 1,
                    line1 := (line1 cf)(0 := 0)\<rparr>)
        else if c \<noteq> EOF then
          (let put = (\<lambda>a. a(nat (lpos cf - 1) := c, nat (lpos cf) := 0));
               cf1 = (if lpos cf \<le> 80
                      then (case cur_line cf of Line1 \<Rightarrow> cf\<lparr>line1 := put (line1 cf)\<rparr>
                                              | Line2 \<Rightarrow> cf\<lparr>line2 := put (line2 cf)\<rparr>)
                      else cf)
           in cf1\<lparr>lpos := lpos cf + 1\<rparr>)
        else cf
      else cf\<lparr>ugflag := 0\<rparr>)"

definition get_char :: "parse \<Rightarrow> int \<times> parse" where
  "get_char cf =
     (let (c, cf1) =
        (if bufix cf = buflen cf
         then (if fd cf \<noteq> -1 then fill cf else (EOF, cf))
         else if bufix cf < length (inbuf cf)
         then (inbuf cf ! bufix cf, cf\<lparr>bufix := Suc (bufix cf)\<rparr>)
         else (EOF, cf\<lparr>ub := True\<rparr>))
      in (c, note_char c cf1))"

text \<open>Giving the last character back, as the scanners do when it starts the next token.\<close>

definition unget :: "parse \<Rightarrow> parse" where
  "unget cf = cf\<lparr>bufix := bufix cf - 1, ugflag := 1\<rparr>"

subsection \<open>Progress\<close>

text \<open>
  An upper bound on the characters still to come: it falls with every character delivered, and
  giving that character back does not raise it above where it was.
\<close>

definition avail :: "parse \<Rightarrow> nat" where
  "avail cf = (if bufix cf = buflen cf then 0 else length (inbuf cf) - bufix cf)
     + Suc (max (length (inbuf cf)) (bufsiz cf)) * length (rd cf)"

lemma avail_cong:
  "inbuf cf' = inbuf cf \<Longrightarrow> bufix cf' = bufix cf \<Longrightarrow> buflen cf' = buflen cf \<Longrightarrow>
   bufsiz cf' = bufsiz cf \<Longrightarrow> rd cf' = rd cf \<Longrightarrow> avail cf' = avail cf"
  by (simp add: avail_def)

lemma note_char_frame [simp]:
  "inbuf (note_char c cf) = inbuf cf" "bufix (note_char c cf) = bufix cf"
  "buflen (note_char c cf) = buflen cf" "bufsiz (note_char c cf) = bufsiz cf"
  "rd (note_char c cf) = rd cf" "fd (note_char c cf) = fd cf"
  "mallocs (note_char c cf) = mallocs cf" "ub (note_char c cf) = ub cf"
  "token (note_char c cf) = token cf" "tokbuf (note_char c cf) = tokbuf cf"
  "tval (note_char c cf) = tval cf" "tlen (note_char c cf) = tlen cf"
  "eol_token (note_char c cf) = eol_token cf" "tb (note_char c cf) = tb cf"
  by (auto simp: note_char_def Let_def split: linebuf.split)

lemma avail_note_char [simp]: "avail (note_char c cf) = avail cf"
  by (rule avail_cong) simp_all

lemma avail_unget_note_char [simp]: "avail (unget (note_char c cf)) = avail (unget cf)"
  by (rule avail_cong) (simp_all add: unget_def)

lemma avail_refill:
  assumes "rd cf = r # rs" "bufix cf = buflen cf" "rd cf' = rs" "bufsiz cf' = bufsiz cf"
    "bufix cf' \<le> 1" "length (inbuf cf') \<le> max (length (inbuf cf)) (bufsiz cf)"
  shows "avail cf' < avail cf"
proof -
  let ?m = "max (length (inbuf cf)) (bufsiz cf)"
  have m: "max (length (inbuf cf')) (bufsiz cf') \<le> ?m" using assms(4,6) by simp
  have "avail cf' \<le> length (inbuf cf') + Suc ?m * length rs"
    unfolding avail_def using m assms(3) by (intro add_mono mult_mono) auto
  also have "\<dots> < Suc ?m + Suc ?m * length rs" using assms(6) by simp
  also have "\<dots> = avail cf" using assms(1,2) by (simp add: avail_def)
  finally show ?thesis .
qed

lemma fill_progress:
  assumes "fill cf = (c, cf')" "bufix cf = buflen cf"
  shows "avail cf' \<le> avail cf \<and>
         (c \<noteq> EOF \<longrightarrow> avail cf' < avail cf \<and> avail (unget cf') \<le> avail cf \<and> 0 < bufix cf')"
proof (cases "rd cf")
  case Nil
  then show ?thesis using assms by (auto simp: fill_def avail_def)
next
  case (Cons r rs)
  have step: "rd cf' = rs" "bufsiz cf' = bufsiz cf" "bufix cf' \<le> 1"
      "length (inbuf cf') \<le> max (length (inbuf cf)) (bufsiz cf)"
    using assms(1) Cons by (auto simp: fill_def Let_def split: option.splits if_splits)
  then have "avail cf' < avail cf" "avail (unget cf') < avail cf"
    using assms(2) Cons by (auto intro!: avail_refill simp: unget_def)
  moreover have "c \<noteq> EOF \<longrightarrow> 0 < bufix cf'"
    using assms(1) Cons by (auto simp: fill_def Let_def split: option.splits if_splits)
  ultimately show ?thesis by auto
qed

lemma get_char_progress:
  assumes "get_char cf = (c, cf')"
  shows "avail cf' \<le> avail cf"
    and "c \<noteq> EOF \<Longrightarrow> avail cf' < avail cf"
    and "c \<noteq> EOF \<Longrightarrow> avail (unget cf') \<le> avail cf"
proof -
  have "avail cf' \<le> avail cf \<and> (c \<noteq> EOF \<longrightarrow> avail cf' < avail cf \<and> avail (unget cf') \<le> avail cf)"
  proof (cases "bufix cf = buflen cf \<and> fd cf \<noteq> -1")
    case True
    then obtain cf1 where "fill cf = (c, cf1)" "cf' = note_char c cf1"
      using assms by (auto simp: get_char_def split: prod.splits)
    with True fill_progress [of cf c cf1] show ?thesis by auto
  next
    case False
    let ?cf1 = "cf\<lparr>bufix := Suc (bufix cf)\<rparr>"
    have inner: "avail ?cf1 < avail cf" "avail (unget ?cf1) = avail cf"
      if "bufix cf \<noteq> buflen cf" "bufix cf < length (inbuf cf)"
    proof -
      show "avail ?cf1 < avail cf" unfolding avail_def
        by (rule add_less_le_mono) (use that in auto)
      show "avail (unget ?cf1) = avail cf" by (simp add: avail_def unget_def)
    qed
    have "avail (cf\<lparr>ub := True\<rparr>) = avail cf" by (simp add: avail_def)
    with False assms inner show ?thesis
      by (cases "bufix cf = buflen cf"; cases "bufix cf < length (inbuf cf)")
         (auto simp: get_char_def)
  qed
  then show "avail cf' \<le> avail cf" and "c \<noteq> EOF \<Longrightarrow> avail cf' < avail cf"
    and "c \<noteq> EOF \<Longrightarrow> avail (unget cf') \<le> avail cf" by auto
qed

section \<open>Scanners\<close>

definition put_tok :: "nat \<Rightarrow> int \<Rightarrow> parse \<Rightarrow> parse" where
  "put_tok i c cf = cf\<lparr>tokbuf := (tokbuf cf)(i := to_char c)\<rparr>"

text \<open>The common end of the scanners: terminate the text and point \<open>tval\<close> at it.\<close>

definition end_tok :: "nat \<Rightarrow> parse \<Rightarrow> parse" where
  "end_tok i cf = (put_tok i 0 cf)\<lparr>tlen := int i, tval := TvTokbuf\<rparr>"

subsection \<open>Numbers\<close>

text \<open>
  The switch of \<^verbatim>\<open>read_number\<close> with its fall-throughs: \<open>Some\<close> of the token class when the character
  belongs to the number, \<open>None\<close> when it ends it.
\<close>

definition number_name :: "nat \<Rightarrow> carray \<Rightarrow> int \<Rightarrow> int option" where
  "number_name i buf c =
     (if i = 2 \<and> isxdigit c \<and> buf 0 = 48 \<and> (buf 1 = 120 \<or> buf 1 = 88) then Some NUMBER_OR_NAME
      else if c = 45 \<or> c = 95 \<or> isalnum c then Some NAME
      else None)"

definition number_class :: "int \<Rightarrow> nat \<Rightarrow> carray \<Rightarrow> int \<Rightarrow> int option" where
  "number_class tok i buf c =
     (if \<not> isascii c then None
      else if tok = NUMBER \<and> isdigit c then Some NUMBER
      else if (tok = NUMBER \<or> tok = NUMBER_OR_NAME) \<and> isxdigit c then Some NUMBER_OR_NAME
      else number_name i buf c)"

function read_number_loop :: "nat \<Rightarrow> int \<Rightarrow> parse \<Rightarrow> nat \<times> int \<times> parse" where
  "read_number_loop i tok cf =
     (if i < TOKBUF_SIZE then
        (let (c, cf1) = get_char cf in
         case number_class tok i (tokbuf cf1) c of
           Some tok' \<Rightarrow> read_number_loop (Suc i) tok' (put_tok i c cf1)
         | None \<Rightarrow> (i, tok, if c \<noteq> EOF then unget cf1 else cf1))
      else (i - 1, tok, cf))"
  by pat_completeness auto
termination
  by (relation "measure (\<lambda>(i, tok, cf). TOKBUF_SIZE - i)") auto

definition read_number :: "int \<Rightarrow> parse \<Rightarrow> int \<times> parse" where
  "read_number c cf =
     (let (i, tok, cf1) = read_number_loop 1 NUMBER (put_tok 0 c cf)
      in (tok, end_tok i cf1))"

subsection \<open>Names\<close>

function read_name_loop :: "nat \<Rightarrow> int \<Rightarrow> parse \<Rightarrow> nat \<times> int \<times> parse" where
  "read_name_loop i rv cf =
     (if i < TOKBUF_SIZE then
        (let (c, cf1) = get_char cf in
         if \<not> isascii c \<or> (c \<noteq> 45 \<and> c \<noteq> 95 \<and> \<not> isalnum c)
         then (i, rv, if c \<noteq> EOF then unget cf1 else cf1)
         else read_name_loop (Suc i) (if isxdigit c then rv else NAME) (put_tok i c cf1))
      else (i - 1, rv, cf))"
  by pat_completeness auto
termination
  by (relation "measure (\<lambda>(i, rv, cf). TOKBUF_SIZE - i)") auto

text \<open>The text \<open>tval\<close> points to, as a C string.\<close>

definition tval_text :: "parse \<Rightarrow> int list" where
  "tval_text cf =
     (case tval cf of
        TvNull \<Rightarrow> []
      | TvTokbuf \<Rightarrow> cstr_from (tokbuf cf) 0 TOKBUF_SIZE
      | TvTb \<Rightarrow> (if tb cf = 0 then [] else [tb cf]))"

definition read_num_or_name :: "int \<Rightarrow> parse \<Rightarrow> int \<times> parse" where
  "read_num_or_name c cf =
     (let (i, rv, cf1) = read_name_loop 1 NUMBER_OR_NAME (put_tok 0 c cf);
          cf2 = end_tok i cf1
      in (intern (tval_text cf2) rv, cf2))"

declare read_number_loop.simps [simp del] read_name_loop.simps [simp del]

subsection \<open>Strings\<close>

text \<open>
  One character inside a string constant, with the escape state \<open>bs\<close> (0 outside an escape, 1 after a
  backslash, 2 and 3 inside a numeric escape), the value so far and whether it is hexadecimal. The
  outcome says how the code goes on: \<open>Again\<close> is \<^verbatim>\<open>goto again\<close> (same index), \<open>Next\<close> the end of the loop
  body or \<^verbatim>\<open>continue\<close> (index advanced), \<open>Stop\<close> is \<^verbatim>\<open>break\<close>. The second component is the character
  stored at the current index, if any.
\<close>

datatype esc = Esc (esc_bs: int) (esc_value: int) (esc_hex: bool)

datatype str_step = Again esc | Next esc | Stop

definition hex_digit :: "int \<Rightarrow> int option" where
  "hex_digit c =
     (if 48 \<le> c \<and> c \<le> 57 then Some (c - 48)
      else if 97 \<le> c \<and> c \<le> 102 then Some (c - 97 + 10)
      else if 65 \<le> c \<and> c \<le> 70 then Some (c - 65 + 10)
      else None)"

definition after_backslash :: "int \<Rightarrow> esc \<Rightarrow> int option \<times> str_step" where
  "after_backslash c e =
     (if c = 116 then (Some 9, Next (Esc 0 (esc_value e) (esc_hex e)))
      else if c = 114 then (Some 13, Next (Esc 0 (esc_value e) (esc_hex e)))
      else if c = 110 then (Some 10, Next (Esc 0 (esc_value e) (esc_hex e)))
      else if c = 98 then (Some 8, Next (Esc 0 (esc_value e) (esc_hex e)))
      else if 48 \<le> c \<and> c \<le> 51 then (None, Again (Esc 2 (c - 48) False))
      else if c = 120 then (None, Again (Esc 2 0 True))
      else (Some c, Next (Esc 0 (esc_value e) (esc_hex e))))"

definition hex_escape :: "int \<Rightarrow> esc \<Rightarrow> int option \<times> str_step" where
  "hex_escape c e =
     (case hex_digit c of
        None \<Rightarrow> (None, Next (Esc 0 (esc_value e) True))
      | Some d \<Rightarrow>
          (let v = esc_value e * 16 + d; b = esc_bs e + 1 in
           if b = 4 then (Some v, Next (Esc 0 v True)) else (None, Again (Esc b v True))))"

definition octal_escape :: "int \<Rightarrow> esc \<Rightarrow> int option \<times> str_step" where
  "octal_escape c e =
     (if 48 \<le> c \<and> c \<le> 57 then
        (let v = esc_value e * 8 + (c - 48); b = esc_bs e + 1 in
         if b = 4 then (Some v, Next (Esc 0 v False)) else (None, Again (Esc b v False)))
      else if esc_value e \<noteq> 0 then (None, Next e)
      else (Some 0, Again (Esc 1 (esc_value e) False)))"

definition string_step :: "int \<Rightarrow> esc \<Rightarrow> int option \<times> str_step" where
  "string_step c e =
     (if esc_bs e = 1 then after_backslash c e
      else if 1 < esc_bs e then (if esc_hex e then hex_escape c e else octal_escape c e)
      else if c = 92 then (None, Again (Esc 1 (esc_value e) (esc_hex e)))
      else if c = 34 then (None, Stop)
      else (Some c, Next e))"

definition put_opt :: "nat \<Rightarrow> int option \<Rightarrow> parse \<Rightarrow> parse" where
  "put_opt i oc cf = (case oc of None \<Rightarrow> cf | Some c \<Rightarrow> put_tok i c cf)"

lemma put_tok_frame [simp]:
  "avail (put_tok i c cf) = avail cf" "token (put_tok i c cf) = token cf"
  "ub (put_tok i c cf) = ub cf" "mallocs (put_tok i c cf) = mallocs cf"
  by (auto simp: put_tok_def avail_def)

lemma put_opt_frame [simp]:
  "avail (put_opt i oc cf) = avail cf" "token (put_opt i oc cf) = token cf"
  "ub (put_opt i oc cf) = ub cf" "mallocs (put_opt i oc cf) = mallocs cf"
  by (auto simp: put_opt_def split: option.split)

lemma end_tok_frame [simp]:
  "avail (end_tok i cf) = avail cf" "token (end_tok i cf) = token cf"
  "ub (end_tok i cf) = ub cf" "mallocs (end_tok i cf) = mallocs cf"
  by (auto simp: end_tok_def put_tok_def avail_def)

text \<open>
  The loop of \<^verbatim>\<open>read_string\<close>; the bound on the index is tested where the \<^verbatim>\<open>for\<close> statement tests it,
  that is not after a \<^verbatim>\<open>goto again\<close>. The result is the index behind the text.
\<close>

function read_string_loop :: "nat \<Rightarrow> esc \<Rightarrow> parse \<Rightarrow> nat \<times> parse" where
  "read_string_loop i e cf =
     (let (c, cf1) = get_char cf in
      if c = EOF then (i, cf1)
      else (let (oc, st) = string_step c e; cf2 = put_opt i oc cf1 in
            case st of
              Again e' \<Rightarrow> read_string_loop i e' cf2
            | Next e' \<Rightarrow> (if Suc i < TOKBUF_SIZE then read_string_loop (Suc i) e' cf2 else (i, cf2))
            | Stop \<Rightarrow> (i, cf2)))"
  by pat_completeness auto
termination
  by (relation "measure (\<lambda>(i, e, cf). avail cf)") (auto dest!: get_char_progress(2) [OF sym])

declare read_string_loop.simps [simp del]

definition read_string :: "parse \<Rightarrow> int \<times> parse" where
  "read_string cf =
     (let (i, cf1) = read_string_loop 0 (Esc 0 0 False) cf in (STRING, end_tok i cf1))"

subsection \<open>What every scanner keeps\<close>

function skip_to_eol :: "parse \<Rightarrow> parse" where
  "skip_to_eol cf =
     (let (c, cf1) = get_char cf in
      if c = EOF then cf1 else if c = EOL then cf1 else skip_to_eol cf1)"
  by pat_completeness auto
termination
  by (relation "measure avail") (auto dest!: get_char_progress(2) [OF sym])

declare skip_to_eol.simps [simp del]

text \<open>
  The scanners reach the input through \<open>get_char\<close>, give at most the character just read back, and
  otherwise write only the token fields. A relation between states that is kept by these steps is
  kept by every scanner: this is the interface between the reader and the scanners, and the
  inductions over the loops are done here once.
\<close>

locale scan_relation =
  fixes R :: "parse \<Rightarrow> parse \<Rightarrow> bool"
  assumes R_refl: "R cf cf"
    and R_trans: "R x y \<Longrightarrow> R y z \<Longrightarrow> R x z"
    and R_get: "get_char cf = (c, cf') \<Longrightarrow> R cf cf'"
    and R_back: "get_char cf = (c, cf') \<Longrightarrow> c \<noteq> EOF \<Longrightarrow> R cf (unget cf')"
    and R_tokbuf: "R cf (cf\<lparr>tokbuf := arr\<rparr>)"
    and R_tlen: "R cf (cf\<lparr>tlen := n\<rparr>)"
    and R_tval: "R cf (cf\<lparr>tval := v\<rparr>)"
    and R_tb: "R cf (cf\<lparr>tb := k\<rparr>)"
    and R_lex: "R cf (cf\<lparr>lexline := l, lexchar := p\<rparr>)"
begin

lemma R_put_tok: "R a cf \<Longrightarrow> R a (put_tok i c cf)"
  unfolding put_tok_def by (rule R_trans [OF _ R_tokbuf])

lemma R_put_opt: "R a cf \<Longrightarrow> R a (put_opt i oc cf)"
  by (cases oc) (simp_all add: put_opt_def R_put_tok)

lemma R_end_tok: "R a cf \<Longrightarrow> R a (end_tok i cf)"
  unfolding end_tok_def by (rule R_trans [OF R_trans [OF R_put_tok R_tlen] R_tval])

lemma R_stop: "get_char cf = (c, cf') \<Longrightarrow> R cf (if c \<noteq> EOF then unget cf' else cf')"
  by (simp add: R_get R_back)

lemma R_number_loop: "read_number_loop i tok cf = (j, tok', cf') \<Longrightarrow> R cf cf'"
proof (induction i tok cf arbitrary: j tok' cf' rule: read_number_loop.induct)
  case (1 i tok cf)
  obtain c cf1 where g: "get_char cf = (c, cf1)" by (cases "get_char cf")
  note unf = "1.prems" [unfolded read_number_loop.simps [of i tok cf] g Let_def prod.case]
  show ?case
  proof (cases "i < TOKBUF_SIZE")
    case True
    show ?thesis
    proof (cases "number_class tok i (tokbuf cf1) c")
      case None
      with unf True R_stop [OF g] show ?thesis by simp
    next
      case (Some t)
      with unf True have "read_number_loop (Suc i) t (put_tok i c cf1) = (j, tok', cf')" by simp
      from "1.IH" [OF True g [symmetric] refl Some this]
      show ?thesis using R_put_tok [OF R_get [OF g]] by (rule R_trans [rotated])
    qed
  next
    case False
    with unf show ?thesis by (simp add: R_refl)
  qed
qed

lemma R_name_loop: "read_name_loop i rv cf = (j, rv', cf') \<Longrightarrow> R cf cf'"
proof (induction i rv cf arbitrary: j rv' cf' rule: read_name_loop.induct)
  case (1 i rv cf)
  obtain c cf1 where g: "get_char cf = (c, cf1)" by (cases "get_char cf")
  note unf = "1.prems" [unfolded read_name_loop.simps [of i rv cf] g Let_def prod.case]
  show ?case
  proof (cases "i < TOKBUF_SIZE")
    case True
    show ?thesis
    proof (cases "\<not> isascii c \<or> (c \<noteq> 45 \<and> c \<noteq> 95 \<and> \<not> isalnum c)")
      case stop: True
      with unf True R_stop [OF g] show ?thesis by simp
    next
      case False
      with unf True have "read_name_loop (Suc i) (if isxdigit c then rv else NAME)
          (put_tok i c cf1) = (j, rv', cf')"
        by (simp only: if_True if_False)
      from "1.IH" [OF True g [symmetric] refl False this]
      show ?thesis using R_put_tok [OF R_get [OF g]] by (rule R_trans [rotated])
    qed
  next
    case False
    with unf show ?thesis by (simp add: R_refl)
  qed
qed

lemma R_string_loop: "read_string_loop i e cf = (j, cf') \<Longrightarrow> R cf cf'"
proof (induction i e cf arbitrary: j cf' rule: read_string_loop.induct)
  case (1 i e cf)
  obtain c cf1 where g: "get_char cf = (c, cf1)" by (cases "get_char cf")
  obtain oc st where s: "string_step c e = (oc, st)" by (cases "string_step c e")
  let ?cf2 = "put_opt i oc cf1"
  note unf = "1.prems" [unfolded read_string_loop.simps [of i e cf] g s Let_def prod.case]
  note r = R_put_opt [OF R_get [OF g], of i oc]
  show ?case
  proof (cases "c = EOF")
    case True
    with unf R_get [OF g] show ?thesis by simp
  next
    case False
    note IH = "1.IH" [OF g [symmetric] refl False s [symmetric] refl refl]
    show ?thesis
    proof (cases st)
      case (Again e')
      with unf False have "read_string_loop i e' ?cf2 = (j, cf')" by simp
      from IH(1) [OF Again this] show ?thesis by (rule R_trans [OF r])
    next
      case (Next e')
      show ?thesis
      proof (cases "Suc i < TOKBUF_SIZE")
        case True
        with unf False Next have "read_string_loop (Suc i) e' ?cf2 = (j, cf')" by simp
        from IH(2) [OF Next True this] show ?thesis by (rule R_trans [OF r])
      next
        case full: False
        with unf False Next r show ?thesis by auto
      qed
    next
      case Stop
      with unf False r show ?thesis by auto
    qed
  qed
qed

lemma R_scanners:
  "read_number c cf = (t, cf') \<Longrightarrow> R cf cf'"
  "read_num_or_name c cf = (t, cf') \<Longrightarrow> R cf cf'"
  "read_string cf = (t, cf') \<Longrightarrow> R cf cf'"
  by (auto simp: read_number_def read_num_or_name_def read_string_def Let_def split: prod.splits
      dest!: R_number_loop R_name_loop R_string_loop
      intro!: R_end_tok intro: R_trans [OF R_put_tok [OF R_refl]])

lemma R_skip_to_eol: "R cf (skip_to_eol cf)"
proof (induction cf rule: skip_to_eol.induct)
  case (1 cf)
  obtain c cf1 where g: "get_char cf = (c, cf1)" by (cases "get_char cf")
  from "1.IH" [OF g [symmetric] refl] R_get [OF g] show ?case
    by (auto simp: skip_to_eol.simps [of cf] g intro: R_trans)
qed

end

text \<open>The scanners never gain input.\<close>

interpretation progress: scan_relation "\<lambda>cf cf'. avail cf' \<le> avail cf"
  by unfold_locales
    (auto dest: get_char_progress(1) get_char_progress(3) simp: avail_def)

text \<open>
  The scanners leave alone what belongs to the parser above: the lookahead token, the allocation
  script and the line mode.
\<close>

definition same_ctl :: "parse \<Rightarrow> parse \<Rightarrow> bool" where
  "same_ctl cf cf' \<longleftrightarrow> token cf' = token cf \<and> mallocs cf' = mallocs cf \<and>
     eol_token cf' = eol_token cf \<and> fd cf' = fd cf \<and> bufsiz cf' = bufsiz cf"

lemma same_ctl_get_char: "get_char cf = (c, cf') \<Longrightarrow> same_ctl cf cf'"
  by (auto simp: get_char_def fill_def Let_def same_ctl_def split: if_splits list.splits option.splits)

interpretation ctl: scan_relation same_ctl
  by unfold_locales (auto simp: same_ctl_def unget_def dest!: same_ctl_get_char)

section \<open>Tokens\<close>

text \<open>
  \<^verbatim>\<open>get_token\<close>: skip white space and comments, then dispatch on the first character. A character that
  starts none of the scanned classes is returned as its own token.
\<close>

function get_token :: "parse \<Rightarrow> int \<times> parse" where
  "get_token cf =
     (let l = line cf; p = lpos cf; (c, cf1) = get_char cf in
      if \<not> (c = 10 \<and> eol_token cf1 \<noteq> 0) \<and> isascii c \<and> isspace c then get_token cf1
      else if c = 35 then get_token (skip_to_eol cf1)
      else if c = 34 then read_string (cf1\<lparr>lexline := l, lexchar := p\<rparr>)
      else if (isascii c \<and> isdigit c) \<or> c = 45
      then read_number c (cf1\<lparr>lexline := l, lexchar := p\<rparr>)
      else if isascii c \<and> isalpha c
      then read_num_or_name c (cf1\<lparr>lexline := l, lexchar := p\<rparr>)
      else if c = EOF then (END_OF_FILE, cf1\<lparr>tlen := 0\<rparr>)
      else (c, cf1\<lparr>lexline := l, lexchar := p, tb := c, tval := TvTb, tlen := 1\<rparr>))"
  by pat_completeness auto
termination
proof (relation "measure avail", goal_cases)
  case (2 cf l p z c cf1)
  then have "get_char cf = (c, cf1)" "c \<noteq> EOF" by auto
  then show ?case using get_char_progress(2) by auto
next
  case (3 cf l p z c cf1)
  then have "get_char cf = (c, cf1)" "c \<noteq> EOF" by auto
  then show ?case using get_char_progress(2) progress.R_skip_to_eol [of cf1]
    by (auto intro: le_less_trans)
qed simp

declare get_token.simps [simp del]

text \<open>The lookahead: \<open>token\<close> is 0 when nothing has been peeked.\<close>

definition next_token :: "parse \<Rightarrow> int \<times> parse" where
  "next_token cf =
     (if token cf \<noteq> 0 then
        (let cf1 = (if lexline cf \<noteq> tline cf then cf\<lparr>token_line := cur_line cf\<rparr> else cf)
         in (token cf1, cf1\<lparr>lexchar := tlpos cf1, lexline := tline cf1, token := 0\<rparr>))
      else (let (rv, cf1) = get_token cf in (rv, cf1\<lparr>token_line := cur_line cf1\<rparr>)))"

definition peek_token :: "parse \<Rightarrow> int \<times> parse" where
  "peek_token cf =
     (if token cf = 0 then
        (let cf0 = cf\<lparr>tlpos := lexchar cf, tline := lexline cf\<rparr>;
             (t, cf1) = get_token cf0;
             cf2 = cf1\<lparr>token := t\<rparr>;
             cf3 = (if lexline cf2 \<noteq> tline cf2 then cf2\<lparr>token_line := prev_line cf2\<rparr> else cf2);
             cf4 = cf3\<lparr>lexchar := tlpos cf3, tlpos := lexchar cf3,
                       lexline := tline cf3, tline := lexline cf3\<rparr>
         in (token cf4, cf4))
      else (token cf, cf))"

context scan_relation
begin

text \<open>
  A token is read by a first character that starts it, at \<open>cf1\<close>, and a scanner from there on.
\<close>

lemma R_get_token:
  "get_token cf = (t, cf') \<Longrightarrow>
   \<exists>cf0 c cf1. R cf cf0 \<and> get_char cf0 = (c, cf1) \<and> R cf1 cf' \<and> (t \<noteq> END_OF_FILE \<longrightarrow> c \<noteq> EOF)"
proof (induction cf arbitrary: t cf' rule: get_token.induct)
  case (1 cf)
  obtain c cf1 where g: "get_char cf = (c, cf1)" by (cases "get_char cf")
  let ?sp = "\<not> (c = 10 \<and> eol_token cf1 \<noteq> 0) \<and> isascii c \<and> isspace c"
  let ?cf2 = "cf1\<lparr>lexline := line cf, lexchar := lpos cf\<rparr>"
  note unf = "1.prems" [unfolded get_token.simps [of cf] g Let_def prod.case]
  note IH = "1.IH" [OF refl refl g [symmetric] refl]
  note r = R_get [OF g]
  have lex: "R ?cf2 x \<Longrightarrow> R cf1 x" for x by (rule R_trans [OF R_lex])
  consider (space) "?sp" | (hash) "\<not> ?sp" "c = 35" | (tok) "\<not> ?sp" "c \<noteq> 35" by blast
  then show ?case
  proof cases
    case space
    with unf have "get_token cf1 = (t, cf')" by simp
    from IH(1) [OF space this] show ?thesis using R_trans [OF r] by blast
  next
    case hash
    with unf have "get_token (skip_to_eol cf1) = (t, cf')" by (simp only: if_True if_False refl)
    from IH(2) [OF hash this] show ?thesis using R_trans [OF R_trans [OF r R_skip_to_eol]] by blast
  next
    case tok
    have "R cf1 cf' \<and> (t \<noteq> END_OF_FILE \<longrightarrow> c \<noteq> EOF)"
    proof (cases "c = EOF")
      case True
      with unf show ?thesis using R_tlen [of cf1 0]
        by (auto simp: ctype_simps)
    next
      case False
      have last: "R cf1 (cf1\<lparr>lexline := line cf, lexchar := lpos cf, tb := k, tval := TvTb, tlen := 1\<rparr>)" for k
        using R_trans [OF R_trans [OF R_trans [OF R_lex R_tb [where k = k]] R_tval [where v = TvTb]]
            R_tlen [where n = 1], of cf1 "lpos cf" "line cf"] by simp
      from unf tok False show ?thesis
        by (auto intro: lex R_scanners last simp del: parse.simps split: if_splits)
    qed
    with g show ?thesis using R_refl by blast
  qed
qed

end

lemma get_token_ctl: "get_token cf = (t, cf') \<Longrightarrow> same_ctl cf cf'"
  using ctl.R_get_token same_ctl_get_char ctl.R_trans by metis

lemma get_token_progress:
  assumes "get_token cf = (t, cf')"
  shows "avail cf' \<le> avail cf" and "t \<noteq> END_OF_FILE \<Longrightarrow> avail cf' < avail cf"
proof -
  obtain cf0 c cf1 where *: "avail cf0 \<le> avail cf" "get_char cf0 = (c, cf1)" "avail cf' \<le> avail cf1"
      "t \<noteq> END_OF_FILE \<longrightarrow> c \<noteq> EOF"
    using progress.R_get_token [OF assms] by blast
  from get_char_progress(1) [OF *(2)] * show "avail cf' \<le> avail cf" by linarith
  from get_char_progress(2) [OF *(2)] * show "avail cf' < avail cf" if "t \<noteq> END_OF_FILE"
    using that by fastforce
qed

section \<open>The token reader as the parser sees it\<close>

text \<open>
  What the parser relies on: a measure that no read raises, that every token but the end of the file
  lowers, and that falls strictly when a token other than the end of the file is first peeked at and
  then read; and that what is read after a peek is what was peeked.
\<close>

locale token_reader =
  fixes nxt :: "'s \<Rightarrow> int \<times> 's" and pk :: "'s \<Rightarrow> int \<times> 's" and meas :: "'s \<Rightarrow> nat" and eof :: int
  assumes nxt_le: "nxt s = (t, s') \<Longrightarrow> meas s' \<le> meas s"
    and nxt_less: "nxt s = (t, s') \<Longrightarrow> t \<noteq> eof \<Longrightarrow> meas s' < meas s"
    and pk_le: "pk s = (t, s') \<Longrightarrow> meas s' \<le> meas s"
    and pk_nxt: "pk s = (t, s') \<Longrightarrow> t \<noteq> 0 \<Longrightarrow> fst (nxt s') = t"
    and pk_zero: "pk s = (0, s') \<Longrightarrow> meas s' < meas s"
begin

lemma pk_nxt_less:
  assumes "pk s = (t, s1)" "t \<noteq> eof" "nxt s1 = (t', s2)"
  shows "meas s2 < meas s"
proof (cases "t = 0")
  case True
  then have "meas s1 < meas s" using assms(1) pk_zero by simp
  with nxt_le [OF assms(3)] show ?thesis by linarith
next
  case False
  then have "t' = t" using pk_nxt [OF assms(1)] assms(3) by simp
  with nxt_less [OF assms(3)] pk_le [OF assms(1)] assms(2) show ?thesis by linarith
qed

lemma nxt_snd_le: "meas (snd (nxt s)) \<le> meas s"
  using nxt_le by (cases "nxt s") auto

lemma pk_snd_le: "meas (snd (pk s)) \<le> meas s"
  using pk_le by (cases "pk s") auto

end

definition tok_meas :: "parse \<Rightarrow> nat" where
  "tok_meas cf = 2 * avail cf + (if token cf \<noteq> 0 \<and> token cf \<noteq> END_OF_FILE then 1 else 0)"

lemma next_token_cases:
  assumes "next_token cf = (t, cf')"
  obtains (peeked) "token cf \<noteq> 0" "t = token cf" "token cf' = 0" "avail cf' = avail cf"
  | (fresh) cf1 where "token cf = 0" "get_token cf = (t, cf1)" "cf' = cf1\<lparr>token_line := cur_line cf1\<rparr>"
      "token cf' = 0" "avail cf' = avail cf1"
proof (cases "token cf = 0")
  case True
  obtain t1 cf1 where g: "get_token cf = (t1, cf1)" by (cases "get_token cf")
  then show ?thesis
    using assms True get_token_ctl [OF g]
    by (intro fresh [of cf1]) (auto simp: next_token_def same_ctl_def avail_def)
next
  case False
  then show ?thesis using assms by (intro peeked) (auto simp: next_token_def Let_def avail_def)
qed

lemma peek_token_cases:
  assumes "peek_token cf = (t, cf')"
  obtains (peeked) "token cf \<noteq> 0" "t = token cf" "cf' = cf"
  | (fresh) cf1 where "token cf = 0"
      "get_token (cf\<lparr>tlpos := lexchar cf, tline := lexline cf\<rparr>) = (t, cf1)"
      "token cf' = t" "avail cf' = avail cf1"
proof (cases "token cf = 0")
  case True
  obtain t1 cf1 where "get_token (cf\<lparr>tlpos := lexchar cf, tline := lexline cf\<rparr>) = (t1, cf1)"
    by (cases "get_token (cf\<lparr>tlpos := lexchar cf, tline := lexline cf\<rparr>)")
  then show ?thesis
    using assms True by (intro fresh [of cf1]) (auto simp: peek_token_def Let_def avail_def split: if_splits)
next
  case False
  then show ?thesis using assms by (intro peeked) (auto simp: peek_token_def)
qed

lemma get_token_peek_progress:
  assumes "get_token (cf\<lparr>tlpos := a, tline := b\<rparr>) = (t, cf1)"
  shows "avail cf1 \<le> avail cf" and "t \<noteq> END_OF_FILE \<Longrightarrow> avail cf1 < avail cf"
proof -
  have "avail (cf\<lparr>tlpos := a, tline := b\<rparr>) = avail cf" by (simp add: avail_def)
  with get_token_progress [OF assms] show "avail cf1 \<le> avail cf"
    and "t \<noteq> END_OF_FILE \<Longrightarrow> avail cf1 < avail cf" by simp_all
qed

interpretation lex: token_reader next_token peek_token tok_meas END_OF_FILE
proof
  fix s t s'
  assume n: "next_token s = (t, s')"
  then have "tok_meas s' \<le> tok_meas s \<and> (t \<noteq> END_OF_FILE \<longrightarrow> tok_meas s' < tok_meas s)"
    by (cases rule: next_token_cases)
       (auto simp: tok_meas_def dest: get_token_progress(1), (drule get_token_progress(2); simp))
  then show "tok_meas s' \<le> tok_meas s" and "t \<noteq> END_OF_FILE \<Longrightarrow> tok_meas s' < tok_meas s" by auto
next
  fix s t s'
  assume p: "peek_token s = (t, s')"
  show "tok_meas s' \<le> tok_meas s"
  proof (cases "t = END_OF_FILE")
    case True
    with p show ?thesis
      by (cases rule: peek_token_cases) (auto simp: tok_meas_def dest: get_token_peek_progress(1))
  next
    case False
    with p show ?thesis
      by (cases rule: peek_token_cases) (auto simp: tok_meas_def dest!: get_token_peek_progress(2))
  qed
  show "fst (next_token s') = t" if "t \<noteq> 0"
  proof -
    have "token s' = t" using p by (cases rule: peek_token_cases) auto
    with that show ?thesis by (simp add: next_token_def Let_def)
  qed
next
  fix s s'
  assume "peek_token s = (0, s')"
  then show "tok_meas s' < tok_meas s"
    by (cases rule: peek_token_cases) (auto simp: tok_meas_def dest!: get_token_peek_progress(2))
qed

section \<open>Opening and closing\<close>

text \<open>
  \<^verbatim>\<open>malloc\<close> as the parser uses it: the next entry of the script says whether it succeeds.
\<close>

definition malloc :: "bool list \<Rightarrow> bool \<times> bool list" where
  "malloc ms = (case ms of [] \<Rightarrow> (True, []) | b # bs \<Rightarrow> (b, bs))"

text \<open>
  \<^verbatim>\<open>new_parse\<close>: \<open>None\<close> is the return value -1. \<open>reads\<close> is what the file descriptor will deliver. A
  buffer the parser allocates has no initialised cell yet.
\<close>

definition new_parse ::
  "int \<Rightarrow> int list option \<Rightarrow> nat \<Rightarrow> string \<Rightarrow> int \<Rightarrow> int list option list \<Rightarrow> bool list \<Rightarrow> parse option" where
  "new_parse file buf len name eolp reads ms =
     (let (ok, ms1) = malloc ms in
      if \<not> ok then None
      else
        let tmp = \<lparr>lexline = 0, lexchar = 0, token_line = Line1, prev_line = Line2, cur_line = Line1,
                   tlname = name, eol_token = eolp, line1 = (\<lambda>_. 0), line2 = (\<lambda>_. 0),
                   lpos = 1, line = 1, tlpos = 0, tline = 0, token = 0, ugflag = 0,
                   tval = TvNull, tlen = 0, tokbuf = (\<lambda>_. 0), tb = 0, warnings_occurred = 0,
                   fd = file, inbuf = [], bufix = 0, buflen = len, bufsiz = 0,
                   rd = reads, mallocs = ms1, ub = False\<rparr>
        in case buf of
             Some b \<Rightarrow> Some (tmp\<lparr>inbuf := b\<rparr>)
           | None \<Rightarrow>
               (let (ok2, ms2) = malloc ms1 in
                if \<not> ok2 then None else Some (tmp\<lparr>bufsiz := 8192, mallocs := ms2\<rparr>)))"

text \<open>\<^verbatim>\<open>end_parse\<close>: how many blocks it frees.\<close>

definition end_parse :: "parse \<Rightarrow> nat" where
  "end_parse cf = (if bufsiz cf \<noteq> 0 then 2 else 1)"

end
