(* ===== verification/Lease_Stream.thy ===== *)
theory Lease_Stream
  imports Lease_Lexer
begin

text \<open>
  What the lexer of base/cl_parse.c does, read as a function of the characters of the file. A healthy
  state has a stream of characters ahead; \<open>get_char\<close> and the push-back are a source of that stream
  (locale \<open>char_source\<close>). On top of it: the scanners take the longest match, quoted strings are read
  back, the result does not depend on the blocks \<open>read\<close> delivers, and a vocabulary of texts and the
  tokens they start with (\<open>lexes\<close>), which the round trips of the parser use.
\<close>

section \<open>The input as a list of characters\<close>

text \<open>
  A healthy input: the indices lie in the buffer, and every pending read delivers at least one and
  at most \<open>bufsiz\<close> characters, as \<open>read\<close> on a regular file does before the end of the file.
\<close>

definition inp_ok :: "parse \<Rightarrow> bool" where
  "inp_ok cf \<longleftrightarrow> bufix cf \<le> buflen cf \<and> buflen cf \<le> length (inbuf cf) \<and>
     (fd cf = -1 \<longrightarrow> rd cf = []) \<and>
     (\<forall>r \<in> set (rd cf). r \<noteq> None \<and> the r \<noteq> [] \<and> length (the r) \<le> bufsiz cf)"

definition stream :: "parse \<Rightarrow> int list" where
  "stream cf = drop (bufix cf) (take (buflen cf) (inbuf cf)) @ concat (map the (rd cf))"

text \<open>The interface of a character source with one character of push-back.\<close>

locale char_source =
  fixes get :: "'s \<Rightarrow> int \<times> 's" and unread :: "'s \<Rightarrow> 's" and ok :: "'s \<Rightarrow> bool"
    and strm :: "'s \<Rightarrow> int list"
  assumes get_nil: "ok s \<Longrightarrow> strm s = [] \<Longrightarrow> get s = (c, s') \<Longrightarrow> c = EOF \<and> ok s' \<and> strm s' = []"
    and get_cons: "ok s \<Longrightarrow> strm s = x # xs \<Longrightarrow> get s = (c, s') \<Longrightarrow> c = x \<and> ok s' \<and> strm s' = xs"
    and unread: "ok s \<Longrightarrow> strm s = x # xs \<Longrightarrow> get s = (c, s') \<Longrightarrow>
                ok (unread s') \<and> strm (unread s') = x # xs"
begin

text \<open>Two sources with the same characters ahead cannot be told apart by reading.\<close>

lemma same_stream:
  assumes "ok s" "ok u" "strm s = strm u" "get s = (c, s')" "get u = (d, u')"
  shows "c = d \<and> ok s' \<and> ok u' \<and> strm s' = strm u'"
proof (cases "strm s")
  case Nil
  then show ?thesis using get_nil [OF assms(1) _ assms(4)] get_nil [OF assms(2) _ assms(5)] assms(3)
    by simp
next
  case (Cons x xs)
  then show ?thesis
    using get_cons [OF assms(1) _ assms(4)] get_cons [OF assms(2) _ assms(5)] assms(3) by simp
qed

end

lemma drop_take_Cons:
  "i < n \<Longrightarrow> n \<le> length xs \<Longrightarrow> drop i (take n xs) = xs ! i # drop (Suc i) (take n xs)"
  by (simp add: Cons_nth_drop_Suc [symmetric])

lemma get_char_empty:
  assumes "inp_ok cf" "stream cf = []" "get_char cf = (c, cf')"
  shows "c = EOF \<and> inp_ok cf' \<and> stream cf' = [] \<and> ub cf' = ub cf"
proof -
  have rd: "rd cf = []"
    using assms(1,2) by (cases "rd cf") (auto simp: inp_ok_def stream_def)
  have ix: "bufix cf = buflen cf" using assms(1,2) by (auto simp: inp_ok_def stream_def)
  show ?thesis
    using assms rd ix by (auto simp: get_char_def fill_def inp_ok_def stream_def split: if_splits)
qed

lemma get_char_inner:
  assumes "inp_ok cf" "stream cf = x # xs" "get_char cf = (c, cf')" "bufix cf \<noteq> buflen cf"
  shows "c = x \<and> inp_ok cf' \<and> stream cf' = xs \<and> inp_ok (unget cf') \<and> stream (unget cf') = x # xs \<and>
         ub cf' = ub cf"
proof -
  from assms have b: "bufix cf < buflen cf" "buflen cf \<le> length (inbuf cf)" by (auto simp: inp_ok_def)
  with assms(2) have "inbuf cf ! bufix cf = x"
      "drop (Suc (bufix cf)) (take (buflen cf) (inbuf cf)) @ concat (map the (rd cf)) = xs"
    by (simp_all add: stream_def drop_take_Cons)
  with assms b show ?thesis
    by (auto simp: get_char_def inp_ok_def stream_def unget_def)
qed

lemma get_char_refill:
  assumes "inp_ok cf" "stream cf = x # xs" "get_char cf = (c, cf')" "bufix cf = buflen cf"
  shows "c = x \<and> inp_ok cf' \<and> stream cf' = xs \<and> inp_ok (unget cf') \<and> stream (unget cf') = x # xs \<and>
         ub cf' = ub cf"
proof -
  obtain ch rs where r: "rd cf = Some ch # rs" "ch \<noteq> []" "length ch \<le> bufsiz cf" "fd cf \<noteq> -1"
      "\<forall>r \<in> set rs. r \<noteq> None \<and> the r \<noteq> [] \<and> length (the r) \<le> bufsiz cf"
    using assms by (cases "rd cf") (auto simp: inp_ok_def stream_def)
  with assms have ch: "ch @ concat (map the rs) = x # xs"
    by (simp add: stream_def)
  with r(2) obtain ys where "ch = x # ys" by (cases ch) auto
  with assms r ch show ?thesis
    by (auto simp: get_char_def fill_def inp_ok_def stream_def unget_def)
qed

lemmas get_char_cons = get_char_inner get_char_refill

interpretation src: char_source get_char unget inp_ok stream
proof
  fix s c s' x xs
  assume *: "inp_ok s" "get_char s = (c, s')"
  show "stream s = [] \<Longrightarrow> c = EOF \<and> inp_ok s' \<and> stream s' = []"
    using get_char_empty * by blast
  show "stream s = x # xs \<Longrightarrow> c = x \<and> inp_ok s' \<and> stream s' = xs"
    and "stream s = x # xs \<Longrightarrow> inp_ok (unget s') \<and> stream (unget s') = x # xs"
    using get_char_cons [OF *(1) _ *(2)] by (cases "bufix s = buflen s"; blast)+
qed

text \<open>
  \<open>reads cf xs cf'\<close>: from \<open>cf\<close> the lexer got to \<open>cf'\<close>, a healthy state with \<open>xs\<close> ahead, and
  without undefined behaviour.
\<close>

definition reads :: "parse \<Rightarrow> int list \<Rightarrow> parse \<Rightarrow> bool" where
  "reads cf xs cf' \<longleftrightarrow> inp_ok cf' \<and> stream cf' = xs \<and> ub cf' = ub cf \<and> same_ctl cf cf'"

lemma reads_trans: "reads a xs b \<Longrightarrow> reads b ys c \<Longrightarrow> reads a ys c"
  by (auto simp: reads_def same_ctl_def)

lemma reads_refl: "inp_ok cf \<Longrightarrow> reads cf (stream cf) cf"
  by (simp add: reads_def same_ctl_def)

lemma reads_updates [simp]:
  "reads cf xs (put_tok i c cf') = reads cf xs cf'" "reads cf xs (end_tok i cf') = reads cf xs cf'"
  "reads (put_tok i c cf) xs cf' = reads cf xs cf'"
  "reads (cf\<lparr>lexline := l, lexchar := p\<rparr>) xs cf' = reads cf xs cf'"
  "reads cf xs (cf'\<lparr>lexline := l, lexchar := p\<rparr>) = reads cf xs cf'"
  "reads cf xs (cf'\<lparr>lexline := l, lexchar := p, tb := k, tval := v, tlen := n\<rparr>) = reads cf xs cf'"
  by (auto simp: reads_def inp_ok_def stream_def same_ctl_def put_tok_def end_tok_def)

lemma get_char_frame:
  assumes "get_char cf = (c, cf')"
  shows "tokbuf cf' = tokbuf cf \<and> eol_token cf' = eol_token cf"
  using assms by (auto simp: get_char_def fill_def Let_def split: if_splits list.splits option.splits)

lemma get_char_reads:
  assumes "inp_ok cf" "stream cf = x # xs"
  obtains cf' where "get_char cf = (x, cf')" "reads cf xs cf'" "reads cf (x # xs) (unget cf')"
    "tokbuf cf' = tokbuf cf"
proof -
  obtain c cf' where g: "get_char cf = (c, cf')" by (cases "get_char cf")
  with assms have "c = x \<and> inp_ok cf' \<and> stream cf' = xs \<and> inp_ok (unget cf') \<and>
      stream (unget cf') = x # xs \<and> ub cf' = ub cf"
    using get_char_cons by blast
  moreover have "same_ctl cf cf'" "same_ctl cf (unget cf')" "ub (unget cf') = ub cf'"
    using same_ctl_get_char [OF g] by (simp_all add: same_ctl_def unget_def)
  ultimately show ?thesis
    using g get_char_frame [OF g] by (intro that [of cf']) (simp_all add: reads_def)
qed

lemma get_char_reads_eof:
  assumes "inp_ok cf" "stream cf = []"
  obtains cf' where "get_char cf = (EOF, cf')" "reads cf [] cf'" "tokbuf cf' = tokbuf cf"
proof -
  obtain c cf' where g: "get_char cf = (c, cf')" by (cases "get_char cf")
  with assms show ?thesis
    using same_ctl_get_char [OF g] get_char_frame [OF g] get_char_empty [OF assms g]
    by (intro that [of cf']) (simp_all add: reads_def)
qed

section \<open>Maximal munch\<close>

definition name_char :: "int \<Rightarrow> bool" where
  "name_char c \<longleftrightarrow> isascii c \<and> (c = 45 \<or> c = 95 \<or> isalnum c)"

lemma name_char_to_char [simp]: "name_char c \<Longrightarrow> to_char c = c"
  by (auto simp: name_char_def isascii_def)

lemma not_name_char_EOF [simp]: "\<not> name_char EOF"
  by (simp add: name_char_def)

text \<open>A scanner that meets the first character outside its class leaves the input where it was.\<close>

lemma stop_reads:
  assumes "inp_ok cf" "EOF \<notin> set (stream cf)" "takeWhile P (stream cf) = []" "\<not> P EOF"
  obtains c cf1 where "get_char cf = (c, cf1)" "\<not> P c"
    "reads cf (stream cf) (if c \<noteq> EOF then unget cf1 else cf1)"
    "tokbuf (if c \<noteq> EOF then unget cf1 else cf1) = tokbuf cf" "tokbuf cf1 = tokbuf cf"
proof (cases "stream cf")
  case Nil
  obtain cf' where "get_char cf = (EOF, cf')" "reads cf [] cf'" "tokbuf cf' = tokbuf cf"
    using get_char_reads_eof [OF assms(1) Nil] by blast
  with assms(4) Nil show ?thesis using that by simp
next
  case (Cons x xs)
  obtain cf' where "get_char cf = (x, cf')" "reads cf (x # xs) (unget cf')" "tokbuf cf' = tokbuf cf"
    using get_char_reads [OF assms(1) Cons] by blast
  moreover have "\<not> P x" "x \<noteq> EOF" using assms Cons by (auto split: if_splits)
  ultimately show ?thesis using that Cons by (simp add: unget_def)
qed

lemma takeWhile_ConsE:
  assumes "takeWhile P ys = x # xs"
  obtains zs where "ys = x # zs" "P x" "xs = takeWhile P zs" "dropWhile P ys = dropWhile P zs"
  using assms by (cases ys) (auto split: if_splits)

text \<open>The token buffer after characters \<open>xs\<close> have been stored from index \<open>i\<close> on.\<close>

definition stored :: "nat \<Rightarrow> int list \<Rightarrow> carray \<Rightarrow> carray" where
  "stored i xs a = (\<lambda>k. if i \<le> k \<and> k < i + length xs then xs ! (k - i) else a k)"

lemma stored_Nil [simp]: "stored i [] a = a"
  by (auto simp: stored_def)

lemma stored_Cons: "stored (Suc i) xs (a(i := x)) = stored i (x # xs) a"
  by (auto simp: stored_def fun_eq_iff nth_Cons' Suc_diff_le)

lemma not_name_char_iff:
  "\<not> isascii c \<or> (c \<noteq> 45 \<and> c \<noteq> 95 \<and> \<not> isalnum c) \<longleftrightarrow> \<not> name_char c"
  by (auto simp: name_char_def)

lemmas name_loop_step = read_name_loop.simps [unfolded not_name_char_iff]

lemma name_loop_munch:
  assumes "inp_ok cf" "EOF \<notin> set (stream cf)" "xs = takeWhile name_char (stream cf)"
    "i + length xs < TOKBUF_SIZE"
  shows "\<exists>cf'. read_name_loop i rv cf = (i + length xs, if list_all isxdigit xs then rv else NAME, cf') \<and>
    reads cf (dropWhile name_char (stream cf)) cf' \<and> tokbuf cf' = stored i xs (tokbuf cf)"
  using assms
proof (induction xs arbitrary: i rv cf)
  case Nil
  then obtain c cf1 where *: "get_char cf = (c, cf1)" "\<not> name_char c"
      "reads cf (stream cf) (if c \<noteq> EOF then unget cf1 else cf1)"
      "tokbuf (if c \<noteq> EOF then unget cf1 else cf1) = tokbuf cf"
    using stop_reads [OF Nil.prems(1,2) Nil.prems(3) [symmetric] not_name_char_EOF] by blast
  have "dropWhile name_char (stream cf) = stream cf"
    using Nil by (metis append_Nil takeWhile_dropWhile_id)
  with Nil * show ?case by (simp add: name_loop_step [of i rv cf])
next
  case (Cons x xs)
  then obtain zs where z: "stream cf = x # zs" "name_char x" "xs = takeWhile name_char zs"
      "dropWhile name_char (stream cf) = dropWhile name_char zs"
    using takeWhile_ConsE by metis
  then obtain cf1 where g: "get_char cf = (x, cf1)" "reads cf zs cf1" "tokbuf cf1 = tokbuf cf"
    using get_char_reads [OF Cons.prems(1)] by metis
  let ?cf2 = "put_tok i x cf1"
  have r: "reads cf zs ?cf2" using g by simp
  then have "inp_ok ?cf2" "stream ?cf2 = zs" by (simp_all only: reads_def)
  moreover have "EOF \<notin> set zs" "Suc i + length xs < TOKBUF_SIZE" using Cons.prems z by simp_all
  ultimately obtain cf' where IH:
      "read_name_loop (Suc i) (if isxdigit x then rv else NAME) ?cf2 =
         (Suc i + length xs, if list_all isxdigit xs then if isxdigit x then rv else NAME else NAME, cf')"
      "reads ?cf2 (dropWhile name_char zs) cf'" "tokbuf cf' = stored (Suc i) xs (tokbuf ?cf2)"
    using Cons.IH [of ?cf2 "Suc i" "if isxdigit x then rv else NAME"] z(3) by metis
  have "reads cf (dropWhile name_char (stream cf)) cf'" using reads_trans [OF r IH(2)] z(4) by simp
  moreover have "tokbuf cf' = stored i (x # xs) (tokbuf cf)"
    using IH(3) g(3) z(2) by (simp add: put_tok_def stored_Cons)
  moreover have "read_name_loop i rv cf =
      read_name_loop (Suc i) (if isxdigit x then rv else NAME) ?cf2"
    using g(1) z(2) Cons.prems(4) by (simp add: name_loop_step [of i rv cf])
  ultimately show ?case using IH(1) by auto
qed

lemma number_class_None_iff: "number_class tok i buf c = None \<longleftrightarrow> \<not> name_char c"
proof -
  have "isdigit c \<Longrightarrow> isalnum c" "isxdigit c \<Longrightarrow> isalnum c" by (auto simp: ctype_simps)
  then show ?thesis by (simp add: number_class_def number_name_def name_char_def)
qed

lemma number_class_NUMBER:
  "number_class tok i buf c = Some t \<Longrightarrow> t = NUMBER \<longleftrightarrow> tok = NUMBER \<and> isdigit c"
  by (auto simp: number_class_def number_name_def split: if_splits)

lemma number_loop_munch:
  assumes "inp_ok cf" "EOF \<notin> set (stream cf)" "xs = takeWhile name_char (stream cf)"
    "i + length xs < TOKBUF_SIZE"
  shows "\<exists>t cf'. read_number_loop i tok cf = (i + length xs, t, cf') \<and>
    (t = NUMBER \<longleftrightarrow> tok = NUMBER \<and> list_all isdigit xs) \<and>
    reads cf (dropWhile name_char (stream cf)) cf' \<and> tokbuf cf' = stored i xs (tokbuf cf)"
  using assms
proof (induction xs arbitrary: i tok cf)
  case Nil
  then obtain c cf1 where *: "get_char cf = (c, cf1)" "\<not> name_char c"
      "reads cf (stream cf) (if c \<noteq> EOF then unget cf1 else cf1)"
      "tokbuf (if c \<noteq> EOF then unget cf1 else cf1) = tokbuf cf"
    using stop_reads [OF Nil.prems(1,2) Nil.prems(3) [symmetric] not_name_char_EOF] by blast
  have "dropWhile name_char (stream cf) = stream cf"
    using Nil by (metis append_Nil takeWhile_dropWhile_id)
  moreover from * have "number_class tok i (tokbuf cf1) c = None" by (simp add: number_class_None_iff)
  ultimately show ?case using Nil * by (simp add: read_number_loop.simps [of i tok cf])
next
  case (Cons x xs)
  then obtain zs where z: "stream cf = x # zs" "name_char x" "xs = takeWhile name_char zs"
      "dropWhile name_char (stream cf) = dropWhile name_char zs"
    using takeWhile_ConsE by metis
  then obtain cf1 where g: "get_char cf = (x, cf1)" "reads cf zs cf1" "tokbuf cf1 = tokbuf cf"
    using get_char_reads [OF Cons.prems(1)] by metis
  let ?cf2 = "put_tok i x cf1"
  obtain u where u: "number_class tok i (tokbuf cf1) x = Some u"
    using z(2) number_class_None_iff by (metis option.exhaust)
  have r: "reads cf zs ?cf2" using g by simp
  then have "inp_ok ?cf2" "stream ?cf2 = zs" by (simp_all only: reads_def)
  moreover have "EOF \<notin> set zs" "Suc i + length xs < TOKBUF_SIZE" using Cons.prems z by simp_all
  ultimately obtain t cf' where IH:
      "read_number_loop (Suc i) u ?cf2 = (Suc i + length xs, t, cf')"
      "t = NUMBER \<longleftrightarrow> u = NUMBER \<and> list_all isdigit xs"
      "reads ?cf2 (dropWhile name_char zs) cf'" "tokbuf cf' = stored (Suc i) xs (tokbuf ?cf2)"
    using Cons.IH [of ?cf2 "Suc i" u] z(3) by metis
  have "reads cf (dropWhile name_char (stream cf)) cf'" using reads_trans [OF r IH(3)] z(4) by simp
  moreover have "tokbuf cf' = stored i (x # xs) (tokbuf cf)"
    using IH(4) g(3) z(2) by (simp add: put_tok_def stored_Cons)
  moreover have "read_number_loop i tok cf = read_number_loop (Suc i) u ?cf2"
    using g(1) u Cons.prems(4) by (simp add: read_number_loop.simps [of i tok cf])
  ultimately show ?case using IH(1,2) number_class_NUMBER [OF u] by auto
qed

text \<open>The text a scanner leaves: the first character, and what it stored behind it.\<close>

lemma tval_text_end_tok:
  assumes "tokbuf cf = stored (Suc 0) xs ((tokbuf cf0)(0 := c))" "length xs < TOKBUF_SIZE - 1"
    "0 \<notin> set (c # xs)"
  shows "tval_text (end_tok (Suc (length xs)) cf) = c # xs"
proof -
  have "holds ((tokbuf cf)(Suc (length xs) := 0)) 0 (c # xs)"
    unfolding holds_def using assms by (auto simp: stored_def nth_Cons split: nat.split)
  then have "cstr_from ((tokbuf cf)(Suc (length xs) := 0)) 0 TOKBUF_SIZE = c # xs"
    by (rule cstr_from_holds) (use assms in auto)
  then show ?thesis by (simp add: tval_text_def end_tok_def put_tok_def)
qed

lemma takeWhile_name_char_nonzero: "0 \<notin> set (takeWhile name_char ys)"
  by (auto dest!: set_takeWhileD simp: name_char_def ctype_simps)

text \<open>The value the reader hands to the parser: \<open>tval\<close> and \<open>tlen\<close>.\<close>

definition says :: "parse \<Rightarrow> int list \<Rightarrow> bool" where
  "says cf txt \<longleftrightarrow> tval cf \<noteq> TvNull \<and> tval_text cf = txt \<and> tlen cf = int (length txt)"

lemma says_cong:
  "tval a = tval b \<Longrightarrow> tb a = tb b \<Longrightarrow> tokbuf a = tokbuf b \<Longrightarrow> tlen a = tlen b \<Longrightarrow> says a x \<longleftrightarrow> says b x"
  by (simp add: says_def tval_text_def split: tvalptr.split)

lemma read_num_or_name_munch:
  assumes "inp_ok cf" "EOF \<notin> set (stream cf)" "xs = takeWhile name_char (stream cf)"
    "length xs < TOKBUF_SIZE - 1" "name_char c"
  obtains cf' where
    "read_num_or_name c cf = (intern (c # xs) (if list_all isxdigit xs then NUMBER_OR_NAME else NAME), cf')"
    "reads cf (dropWhile name_char (stream cf)) cf'" "says cf' (c # xs)"
proof -
  let ?cf0 = "put_tok 0 c cf"
  have "reads cf (stream cf) ?cf0" using reads_refl [OF assms(1)] by simp
  then have "inp_ok ?cf0" "stream ?cf0 = stream cf" by (simp_all only: reads_def)
  with assms obtain cf1 where l: "read_name_loop 1 NUMBER_OR_NAME ?cf0 =
        (1 + length xs, if list_all isxdigit xs then NUMBER_OR_NAME else NAME, cf1)"
      "reads ?cf0 (dropWhile name_char (stream cf)) cf1" "tokbuf cf1 = stored 1 xs (tokbuf ?cf0)"
    using name_loop_munch [of ?cf0 xs 1 NUMBER_OR_NAME] by auto
  have "0 \<notin> set (c # xs)"
    using assms(3,5) takeWhile_name_char_nonzero by (auto simp: name_char_def ctype_simps)
  then have "tval_text (end_tok (Suc (length xs)) cf1) = c # xs"
    using l(3) assms(4,5) by (intro tval_text_end_tok [of _ _ cf]) (simp_all add: put_tok_def)
  moreover from this have "says (end_tok (Suc (length xs)) cf1) (c # xs)"
    by (simp add: says_def end_tok_def)
  ultimately show ?thesis
    using l by (intro that [of "end_tok (Suc (length xs)) cf1"]) (simp_all add: read_num_or_name_def)
qed

lemma read_number_munch:
  assumes "inp_ok cf" "EOF \<notin> set (stream cf)" "xs = takeWhile name_char (stream cf)"
    "length xs < TOKBUF_SIZE - 1" "name_char c"
  obtains t cf' where "read_number c cf = (t, cf')" "t = NUMBER \<longleftrightarrow> list_all isdigit xs"
    "reads cf (dropWhile name_char (stream cf)) cf'" "says cf' (c # xs)"
proof -
  let ?cf0 = "put_tok 0 c cf"
  have "reads cf (stream cf) ?cf0" using reads_refl [OF assms(1)] by simp
  then have "inp_ok ?cf0" "stream ?cf0 = stream cf" by (simp_all only: reads_def)
  with assms obtain t cf1 where l: "read_number_loop 1 NUMBER ?cf0 = (1 + length xs, t, cf1)"
      "t = NUMBER \<longleftrightarrow> list_all isdigit xs"
      "reads ?cf0 (dropWhile name_char (stream cf)) cf1" "tokbuf cf1 = stored 1 xs (tokbuf ?cf0)"
    using number_loop_munch [of ?cf0 xs 1 NUMBER] by auto
  have "0 \<notin> set (c # xs)"
    using assms(3,5) takeWhile_name_char_nonzero by (auto simp: name_char_def ctype_simps)
  then have "tval_text (end_tok (Suc (length xs)) cf1) = c # xs"
    using l(4) assms(4,5) by (intro tval_text_end_tok [of _ _ cf]) (simp_all add: put_tok_def)
  moreover from this have "says (end_tok (Suc (length xs)) cf1) (c # xs)"
    by (simp add: says_def end_tok_def)
  ultimately show ?thesis
    using l by (intro that [of t "end_tok (Suc (length xs)) cf1"]) (simp_all add: read_number_def)
qed

section \<open>String constants\<close>

text \<open>The source text of a string constant: quotes and backslashes escaped.\<close>

definition quote_char :: "int \<Rightarrow> int list" where
  "quote_char c = (if c = 34 \<or> c = 92 then [92, c] else [c])"

definition quoted :: "int list \<Rightarrow> int list" where
  "quoted xs = concat (map quote_char xs) @ [34]"

lemma reads_put_opt [simp]: "reads cf xs (put_opt i oc cf') = reads cf xs cf'"
  by (cases oc) (simp_all add: put_opt_def)

lemma tokbuf_put_opt [simp]:
  "tokbuf (put_opt i None cf) = tokbuf cf"
  "tokbuf (put_opt i (Some c) cf) = (tokbuf cf)(i := to_char c)"
  by (simp_all add: put_opt_def put_tok_def)

text \<open>One character of the loop, when the input is healthy.\<close>

lemma string_loop_char:
  assumes "inp_ok cf" "stream cf = x # zs" "x \<noteq> EOF" "string_step x e = (oc, st)"
  obtains cf2 where "reads cf zs cf2" "tokbuf cf2 = tokbuf (put_opt i oc cf)"
    "read_string_loop i e cf =
       (case st of Again e' \<Rightarrow> read_string_loop i e' cf2
        | Next e' \<Rightarrow> (if Suc i < TOKBUF_SIZE then read_string_loop (Suc i) e' cf2 else (i, cf2))
        | Stop \<Rightarrow> (i, cf2))"
proof -
  obtain cf1 where g: "get_char cf = (x, cf1)" "reads cf zs cf1" "tokbuf cf1 = tokbuf cf"
    using get_char_reads [OF assms(1,2)] by metis
  have "tokbuf (put_opt i oc cf1) = tokbuf (put_opt i oc cf)"
    using g(3) by (cases oc) simp_all
  with g assms(3,4) show ?thesis
    by (intro that [of "put_opt i oc cf1"]) (simp_all add: read_string_loop.simps [of i e cf] Let_def split: str_step.split)
qed

lemma string_loop_quoted:
  assumes "inp_ok cf" "stream cf = quoted xs @ rest" "EOF \<notin> set xs"
    "\<forall>x \<in> set xs. -128 \<le> x \<and> x < 128" "i + length xs < TOKBUF_SIZE"
  shows "\<exists>cf'. read_string_loop i (Esc 0 v h) cf = (i + length xs, cf') \<and> reads cf rest cf' \<and>
           tokbuf cf' = stored i xs (tokbuf cf)"
  using assms
proof (induction xs arbitrary: i cf)
  case Nil
  then have "stream cf = 34 # rest" "(34::int) \<noteq> EOF" by (simp_all add: quoted_def)
  moreover have "string_step 34 (Esc 0 v h) = (None, Stop)" by (simp add: string_step_def)
  ultimately obtain cf2 where "reads cf rest cf2" "tokbuf cf2 = tokbuf cf"
      "read_string_loop i (Esc 0 v h) cf = (i, cf2)"
    using string_loop_char [OF Nil.prems(1), of 34 rest "Esc 0 v h" None Stop i] by auto
  then show ?case by auto
next
  case (Cons x xs)
  let ?zs = "quoted xs @ rest"
  have x: "x \<noteq> EOF" "to_char x = x" using Cons.prems(3,4) by auto
  obtain cf2 where c2: "reads cf ?zs cf2" "tokbuf cf2 = (tokbuf cf)(i := x)"
      "read_string_loop i (Esc 0 v h) cf = read_string_loop (Suc i) (Esc 0 v h) cf2"
  proof (cases "x = 34 \<or> x = 92")
    case True
    then have s: "stream cf = 92 # x # ?zs" using Cons.prems(2) by (simp add: quoted_def quote_char_def)
    have st1: "string_step 92 (Esc 0 v h) = (None, Again (Esc 1 v h))" by (simp add: string_step_def)
    have st2: "string_step x (Esc 1 v h) = (Some x, Next (Esc 0 v h))"
      using True by (auto simp: string_step_def after_backslash_def)
    obtain cf1 where 1: "reads cf (x # ?zs) cf1" "tokbuf cf1 = tokbuf cf"
        "read_string_loop i (Esc 0 v h) cf = read_string_loop i (Esc 1 v h) cf1"
      using string_loop_char [OF Cons.prems(1) s _ st1, of i] by auto
    then have "inp_ok cf1" "stream cf1 = x # ?zs" by (simp_all only: reads_def)
    from string_loop_char [OF this x(1) st2, of i] obtain cf2 where
        "reads cf1 ?zs cf2" "tokbuf cf2 = (tokbuf cf1)(i := x)"
        "read_string_loop i (Esc 1 v h) cf1 = read_string_loop (Suc i) (Esc 0 v h) cf2"
      using x(2) Cons.prems(5) by auto
    with 1 show ?thesis by (intro that [of cf2]) (auto intro: reads_trans)
  next
    case False
    then have s: "stream cf = x # ?zs" using Cons.prems(2) by (simp add: quoted_def quote_char_def)
    have "string_step x (Esc 0 v h) = (Some x, Next (Esc 0 v h))"
      using False by (simp add: string_step_def)
    from string_loop_char [OF Cons.prems(1) s x(1) this, of i] show ?thesis
      using that x(2) Cons.prems(5) by auto
  qed
  from c2(1) have "inp_ok cf2" "stream cf2 = ?zs" by (simp_all only: reads_def)
  with Cons.prems obtain cf' where
      "read_string_loop (Suc i) (Esc 0 v h) cf2 = (Suc i + length xs, cf')"
      "reads cf2 rest cf'" "tokbuf cf' = stored (Suc i) xs (tokbuf cf2)"
    using Cons.IH [of cf2 "Suc i"] by auto
  with c2 show ?case by (auto simp: stored_Cons intro: reads_trans)
qed

lemma stored_zero_holds:
  "0 \<notin> set xs \<Longrightarrow> length xs < n \<Longrightarrow> cstr_from ((stored 0 xs a)(length xs := 0)) 0 n = xs"
  by (rule cstr_from_holds) (auto simp: holds_def stored_def)

lemma read_string_quoted:
  assumes "inp_ok cf" "stream cf = quoted xs @ rest" "EOF \<notin> set xs"
    "\<forall>x \<in> set xs. -128 \<le> x \<and> x < 128" "length xs < TOKBUF_SIZE"
  obtains cf' where "read_string cf = (STRING, cf')" "reads cf rest cf'" "tlen cf' = int (length xs)"
    "tval cf' = TvTokbuf" "0 \<notin> set xs \<Longrightarrow> tval_text cf' = xs"
proof -
  obtain cf1 where l: "read_string_loop 0 (Esc 0 0 False) cf = (length xs, cf1)" "reads cf rest cf1"
      "tokbuf cf1 = stored 0 xs (tokbuf cf)"
    using string_loop_quoted [OF assms(1-4), of 0] assms(5) by auto
  have "tval_text (end_tok (length xs) cf1) = xs" if "0 \<notin> set xs"
    using that l(3) assms(5) by (simp add: tval_text_def end_tok_def put_tok_def stored_zero_holds)
  moreover have "tlen (end_tok (length xs) cf1) = int (length xs)" "tval (end_tok (length xs) cf1) = TvTokbuf"
    by (simp_all add: end_tok_def)
  ultimately show ?thesis
    using l by (intro that [of "end_tok (length xs) cf1"]) (simp_all add: read_string_def)
qed

section \<open>Tokens of a text\<close>

lemma isspace_plain: "isspace x \<Longrightarrow> isascii x \<and> x \<noteq> EOF"
  by (auto simp: ctype_simps)

text \<open>Leading white space does not matter when line ends are not tokens.\<close>

lemma get_token_spaces:
  assumes "inp_ok cf" "stream cf = ws @ zs" "list_all isspace ws" "eol_token cf = 0"
  obtains cf1 where "get_token cf = get_token cf1" "reads cf zs cf1"
proof -
  have "\<exists>cf1. get_token cf = get_token cf1 \<and> reads cf zs cf1"
    using assms
  proof (induction ws arbitrary: cf)
    case Nil
    then show ?case using reads_refl by auto
  next
    case (Cons w ws)
    then have s: "stream cf = w # (ws @ zs)" and w: "isascii w" "isspace w" using isspace_plain by auto
    obtain cf1 where g: "get_char cf = (w, cf1)" "reads cf (ws @ zs) cf1"
      using get_char_reads [OF Cons.prems(1) s] by blast
    then have c1: "inp_ok cf1" "stream cf1 = ws @ zs" "eol_token cf1 = 0"
      using Cons.prems(4) by (simp_all add: reads_def same_ctl_def)
    with w g have "get_token cf = get_token cf1" by (simp add: get_token.simps [of cf])
    moreover obtain cf2 where "get_token cf1 = get_token cf2" "reads cf1 zs cf2"
      using Cons.IH [OF c1(1,2) _ c1(3)] Cons.prems(3) by auto
    ultimately show ?case using g(2) by (auto intro: reads_trans)
  qed
  with that show ?thesis by blast
qed

text \<open>The first character of a token behind white space, and the state in which its scanner starts.\<close>

lemma get_token_first:
  assumes "inp_ok cf" "stream cf = ws @ c # zs" "list_all isspace ws" "eol_token cf = 0"
  obtains cf1 cf2 l p where "get_token cf = get_token cf1" "get_char cf1 = (c, cf2)" "line cf1 = l"
    "lpos cf1 = p" "reads cf zs (cf2\<lparr>lexline := l, lexchar := p\<rparr>)"
    "inp_ok (cf2\<lparr>lexline := l, lexchar := p\<rparr>)" "stream (cf2\<lparr>lexline := l, lexchar := p\<rparr>) = zs"
proof -
  obtain cf1 where s: "get_token cf = get_token cf1" "reads cf (c # zs) cf1"
    using get_token_spaces [OF assms] by blast
  then have "inp_ok cf1" "stream cf1 = c # zs" by (simp_all only: reads_def)
  then obtain cf2 where g: "get_char cf1 = (c, cf2)" "reads cf1 zs cf2"
    using get_char_reads by metis
  have "reads cf zs (cf2\<lparr>lexline := line cf1, lexchar := lpos cf1\<rparr>)"
    using reads_trans [OF s(2) g(2)] by simp
  with s(1) g(1) show ?thesis by (intro that [of cf1 cf2]) (auto simp only: reads_def)
qed

lemma alpha_plain: "isalpha c \<Longrightarrow> isascii c \<and> \<not> isspace c \<and> \<not> isdigit c \<and> c \<notin> {35, 34, 45} \<and> name_char c"
  by (auto simp: ctype_simps name_char_def)

lemma digit_plain: "isdigit c \<Longrightarrow> isascii c \<and> \<not> isspace c \<and> c \<notin> {35, 34, 45} \<and> name_char c"
  by (auto simp: ctype_simps name_char_def)

lemma get_token_name:
  assumes "inp_ok cf" "EOF \<notin> set (stream cf)" "stream cf = ws @ c # zs" "list_all isspace ws"
    "eol_token cf = 0" "isalpha c" "length (takeWhile name_char zs) < TOKBUF_SIZE - 1"
  obtains cf' where "get_token cf = (intern (c # takeWhile name_char zs)
      (if list_all isxdigit (takeWhile name_char zs) then NUMBER_OR_NAME else NAME), cf')"
    "reads cf (dropWhile name_char zs) cf'" "says cf' (c # takeWhile name_char zs)"
proof -
  obtain cf1 cf2 l p where g: "get_token cf = get_token cf1" "get_char cf1 = (c, cf2)" "line cf1 = l"
      "lpos cf1 = p" "reads cf zs (cf2\<lparr>lexline := l, lexchar := p\<rparr>)"
      "inp_ok (cf2\<lparr>lexline := l, lexchar := p\<rparr>)" "stream (cf2\<lparr>lexline := l, lexchar := p\<rparr>) = zs"
    using get_token_first [OF assms(1,3-5)] by blast
  let ?cf3 = "cf2\<lparr>lexline := l, lexchar := p\<rparr>"
  note c = alpha_plain [OF assms(6)]
  have "get_token cf1 = read_num_or_name c ?cf3"
    using g(2,3,4) c assms(6) by (auto simp: get_token.simps [of cf1])
  moreover obtain cf' where "read_num_or_name c ?cf3 = (intern (c # takeWhile name_char zs)
      (if list_all isxdigit (takeWhile name_char zs) then NUMBER_OR_NAME else NAME), cf')"
      "reads ?cf3 (dropWhile name_char zs) cf'" "says cf' (c # takeWhile name_char zs)"
    using read_num_or_name_munch [OF g(6), of "takeWhile name_char zs" c] g(7) assms(2,3,7) c by auto
  ultimately show ?thesis
    using g(1,5) by (intro that [of cf']) (auto intro: reads_trans)
qed

lemma get_token_number:
  assumes "inp_ok cf" "EOF \<notin> set (stream cf)" "stream cf = ws @ c # zs" "list_all isspace ws"
    "eol_token cf = 0" "isdigit c" "length (takeWhile name_char zs) < TOKBUF_SIZE - 1"
  obtains t cf' where "get_token cf = (t, cf')"
    "t = NUMBER \<longleftrightarrow> list_all isdigit (takeWhile name_char zs)"
    "reads cf (dropWhile name_char zs) cf'" "says cf' (c # takeWhile name_char zs)"
proof -
  obtain cf1 cf2 l p where g: "get_token cf = get_token cf1" "get_char cf1 = (c, cf2)" "line cf1 = l"
      "lpos cf1 = p" "reads cf zs (cf2\<lparr>lexline := l, lexchar := p\<rparr>)"
      "inp_ok (cf2\<lparr>lexline := l, lexchar := p\<rparr>)" "stream (cf2\<lparr>lexline := l, lexchar := p\<rparr>) = zs"
    using get_token_first [OF assms(1,3-5)] by blast
  let ?cf3 = "cf2\<lparr>lexline := l, lexchar := p\<rparr>"
  note c = digit_plain [OF assms(6)]
  have "get_token cf1 = read_number c ?cf3"
    using g(2,3,4) c assms(6) by (auto simp: get_token.simps [of cf1])
  moreover obtain t cf' where "read_number c ?cf3 = (t, cf')"
      "t = NUMBER \<longleftrightarrow> list_all isdigit (takeWhile name_char zs)"
      "reads ?cf3 (dropWhile name_char zs) cf'" "says cf' (c # takeWhile name_char zs)"
    using read_number_munch [OF g(6), of "takeWhile name_char zs" c] g(7) assms(2,3,7) c by auto
  ultimately show ?thesis
    using g(1,5) by (intro that [of t cf']) (auto intro: reads_trans)
qed

lemma get_token_string:
  assumes "inp_ok cf" "stream cf = ws @ 34 # quoted xs @ rest" "list_all isspace ws"
    "eol_token cf = 0" "EOF \<notin> set xs" "\<forall>x \<in> set xs. -128 \<le> x \<and> x < 128" "length xs < TOKBUF_SIZE"
  obtains cf' where "get_token cf = (STRING, cf')" "reads cf rest cf'" "tlen cf' = int (length xs)"
    "tval cf' = TvTokbuf" "0 \<notin> set xs \<Longrightarrow> tval_text cf' = xs"
proof -
  obtain cf1 cf2 l p where g: "get_token cf = get_token cf1" "get_char cf1 = (34, cf2)" "line cf1 = l"
      "lpos cf1 = p" "reads cf (quoted xs @ rest) (cf2\<lparr>lexline := l, lexchar := p\<rparr>)"
      "inp_ok (cf2\<lparr>lexline := l, lexchar := p\<rparr>)" "stream (cf2\<lparr>lexline := l, lexchar := p\<rparr>) = quoted xs @ rest"
    using get_token_first [OF assms(1-4)] by blast
  let ?cf3 = "cf2\<lparr>lexline := l, lexchar := p\<rparr>"
  have "get_token cf1 = read_string ?cf3"
    using g(2,3,4) by (auto simp: get_token.simps [of cf1] ctype_simps)
  moreover obtain cf' where "read_string ?cf3 = (STRING, cf')" "reads ?cf3 rest cf'"
      "tlen cf' = int (length xs)" "tval cf' = TvTokbuf" "0 \<notin> set xs \<Longrightarrow> tval_text cf' = xs"
    using read_string_quoted [OF g(6,7) assms(5-7)] by blast
  ultimately show ?thesis
    using g(1,5) by (intro that [of cf']) (auto intro: reads_trans)
qed

text \<open>Punctuation: a character that starts nothing else is its own token.\<close>

definition punct_char :: "int \<Rightarrow> bool" where
  "punct_char c \<longleftrightarrow> c \<noteq> EOF \<and> \<not> (isascii c \<and> isspace c) \<and> c \<notin> {35, 34, 45} \<and>
     \<not> (isascii c \<and> (isdigit c \<or> isalpha c))"

lemma get_token_punct:
  assumes "inp_ok cf" "stream cf = ws @ c # zs" "list_all isspace ws" "eol_token cf = 0" "punct_char c"
  obtains cf' where "get_token cf = (c, cf')" "reads cf zs cf'" "c \<noteq> 0 \<Longrightarrow> says cf' [c]"
proof -
  obtain cf1 cf2 l p where g: "get_token cf = get_token cf1" "get_char cf1 = (c, cf2)" "line cf1 = l"
      "lpos cf1 = p" "reads cf zs (cf2\<lparr>lexline := l, lexchar := p\<rparr>)"
      "inp_ok (cf2\<lparr>lexline := l, lexchar := p\<rparr>)" "stream (cf2\<lparr>lexline := l, lexchar := p\<rparr>) = zs"
    using get_token_first [OF assms(1-4)] by blast
  let ?cf3 = "cf2\<lparr>lexline := l, lexchar := p\<rparr>"
  let ?cf4 = "cf2\<lparr>lexline := l, lexchar := p, tb := c, tval := TvTb, tlen := 1\<rparr>"
  have "get_token cf1 = (c, ?cf4)"
    using g(2,3,4) assms(5) by (auto simp: get_token.simps [of cf1] punct_char_def)
  with g show ?thesis by (intro that [of ?cf4]) (simp_all add: says_def tval_text_def)
qed

section \<open>Independence of the buffering\<close>

text \<open>
  Two states are twins when they have the same characters ahead and agree on everything but the
  input buffer: they may differ in how \<open>read\<close> split the file and in the size of the buffer.
\<close>

definition unbuffered :: "parse \<Rightarrow> parse" where
  "unbuffered cf = cf\<lparr>fd := 0, inbuf := [], bufix := 0, buflen := 0, bufsiz := 0, rd := []\<rparr>"

definition twin :: "parse \<Rightarrow> parse \<Rightarrow> bool" where
  "twin cf cg \<longleftrightarrow> inp_ok cf \<and> inp_ok cg \<and> stream cf = stream cg \<and> unbuffered cf = unbuffered cg"

lemma unbuffered_eq_iff:
  "unbuffered cf = unbuffered cg \<longleftrightarrow>
     lexline cf = lexline cg \<and> lexchar cf = lexchar cg \<and> token_line cf = token_line cg \<and>
     prev_line cf = prev_line cg \<and> cur_line cf = cur_line cg \<and> tlname cf = tlname cg \<and>
     eol_token cf = eol_token cg \<and> line1 cf = line1 cg \<and> line2 cf = line2 cg \<and>
     lpos cf = lpos cg \<and> line cf = line cg \<and> tlpos cf = tlpos cg \<and> tline cf = tline cg \<and>
     token cf = token cg \<and> ugflag cf = ugflag cg \<and> tval cf = tval cg \<and> tlen cf = tlen cg \<and>
     tokbuf cf = tokbuf cg \<and> tb cf = tb cg \<and> warnings_occurred cf = warnings_occurred cg \<and>
     mallocs cf = mallocs cg \<and> ub cf = ub cg"
  by (cases cf; cases cg) (auto simp: unbuffered_def)

lemma unbuffered_note_char: "unbuffered (note_char c cf) = note_char c (unbuffered cf)"
  by (cases cf) (auto simp: unbuffered_def note_char_def Let_def split: linebuf.split)

lemma get_char_unbuffered:
  assumes "inp_ok cf" "get_char cf = (c, cf')"
  shows "unbuffered cf' = note_char c (unbuffered cf)"
proof -
  have "\<exists>cf1. cf' = note_char c cf1 \<and> unbuffered cf1 = unbuffered cf"
    using assms
    by (cases cf) (auto simp: get_char_def fill_def inp_ok_def unbuffered_def Let_def
        split: if_splits list.splits option.splits)
  then show ?thesis using unbuffered_note_char by metis
qed

lemma twin_updates:
  assumes "twin cf cg"
  shows "twin (put_tok i c cf) (put_tok i c cg)" "twin (put_opt i oc cf) (put_opt i oc cg)"
    "twin (end_tok i cf) (end_tok i cg)" "twin (cf\<lparr>tlen := n\<rparr>) (cg\<lparr>tlen := n\<rparr>)"
    "twin (cf\<lparr>lexline := l, lexchar := p\<rparr>) (cg\<lparr>lexline := l, lexchar := p\<rparr>)"
    "twin (cf\<lparr>lexline := l, lexchar := p, tb := k, tval := v, tlen := n\<rparr>)
          (cg\<lparr>lexline := l, lexchar := p, tb := k, tval := v, tlen := n\<rparr>)"
  using assms
  by (auto simp: twin_def inp_ok_def stream_def unbuffered_eq_iff put_tok_def put_opt_def end_tok_def
      split: option.split)

lemma twin_get_char:
  assumes "twin cf cg" "get_char cf = (c, cf')"
  obtains cg' where "get_char cg = (c, cg')" "twin cf' cg'" "c \<noteq> EOF \<Longrightarrow> twin (unget cf') (unget cg')"
proof -
  obtain d cg' where g: "get_char cg = (d, cg')" by (cases "get_char cg")
  from assms have ok: "inp_ok cf" "inp_ok cg" "stream cf = stream cg" and u: "unbuffered cf = unbuffered cg"
    by (simp_all add: twin_def)
  have d: "c = d" "inp_ok cf'" "inp_ok cg'" "stream cf' = stream cg'"
    using src.same_stream [OF ok assms(2) g] by simp_all
  have u': "unbuffered cf' = unbuffered cg'"
    using get_char_unbuffered [OF ok(1) assms(2)] get_char_unbuffered [OF ok(2) g] u d(1) by simp
  have "twin (unget cf') (unget cg')" if "c \<noteq> EOF"
  proof (cases "stream cf")
    case Nil
    then show ?thesis using src.get_nil [OF ok(1) _ assms(2)] that by simp
  next
    case (Cons x xs)
    then have "inp_ok (unget cf') \<and> stream (unget cf') = x # xs"
        "inp_ok (unget cg') \<and> stream (unget cg') = x # xs"
      using src.unread ok assms(2) g by metis+
    moreover have "unbuffered (unget cf') = unbuffered (unget cg')"
      using u' by (simp add: unbuffered_eq_iff unget_def)
    ultimately show ?thesis by (simp add: twin_def)
  qed
  moreover have "twin cf' cg'" using d u' by (simp add: twin_def)
  ultimately show ?thesis using g d(1) by (intro that) auto
qed

abbreviation twins where
  "twins \<equiv> rel_prod (=) twin"

lemma twin_name_loop:
  "twin cf cg \<Longrightarrow> rel_prod (=) twins (read_name_loop i rv cf) (read_name_loop i rv cg)"
proof (induction i rv cf arbitrary: cg rule: read_name_loop.induct)
  case (1 i rv cf)
  obtain c cf1 where g: "get_char cf = (c, cf1)" by (cases "get_char cf")
  with "1.prems" obtain cg1 where g': "get_char cg = (c, cg1)" "twin cf1 cg1"
      "c \<noteq> EOF \<Longrightarrow> twin (unget cf1) (unget cg1)"
    using twin_get_char by metis
  note IH = "1.IH" [OF _ g [symmetric] refl _ twin_updates(1) [OF g'(2)]]
  show ?case
    unfolding read_name_loop.simps [of i rv cf] read_name_loop.simps [of i rv cg] g g'(1) Let_def prod.case
    using IH g'(2,3) "1.prems" by (simp del: de_Morgan_disj)
qed

lemma twin_number_loop:
  "twin cf cg \<Longrightarrow> rel_prod (=) twins (read_number_loop i tok cf) (read_number_loop i tok cg)"
proof (induction i tok cf arbitrary: cg rule: read_number_loop.induct)
  case (1 i tok cf)
  obtain c cf1 where g: "get_char cf = (c, cf1)" by (cases "get_char cf")
  with "1.prems" obtain cg1 where g': "get_char cg = (c, cg1)" "twin cf1 cg1"
      "c \<noteq> EOF \<Longrightarrow> twin (unget cf1) (unget cg1)"
    using twin_get_char by metis
  have "tokbuf cg1 = tokbuf cf1" using g'(2) by (simp add: twin_def unbuffered_eq_iff)
  moreover note IH = "1.IH" [OF _ g [symmetric] refl _ twin_updates(1) [OF g'(2)]]
  ultimately show ?case
    unfolding read_number_loop.simps [of i tok cf] read_number_loop.simps [of i tok cg] g g'(1) Let_def prod.case
    using g'(2,3) "1.prems" by (auto split: option.split)
qed

lemma twin_string_loop:
  "twin cf cg \<Longrightarrow> twins (read_string_loop i e cf) (read_string_loop i e cg)"
proof (induction i e cf arbitrary: cg rule: read_string_loop.induct)
  case (1 i e cf)
  obtain c cf1 where g: "get_char cf = (c, cf1)" by (cases "get_char cf")
  with "1.prems" obtain cg1 where g': "get_char cg = (c, cg1)" "twin cf1 cg1"
    using twin_get_char by metis
  obtain oc st where s: "string_step c e = (oc, st)" by (cases "string_step c e")
  note u = twin_updates(2) [OF g'(2), of i oc]
  note IH = "1.IH" [OF g [symmetric] refl _ s [symmetric] refl refl _]
  show ?case
    unfolding read_string_loop.simps [of i e cf] read_string_loop.simps [of i e cg] g g'(1) s Let_def prod.case
    using IH(1) [OF _ _ u] IH(2) [OF _ _ _ u] u g'(2) by (auto split: str_step.split)
qed

lemma twin_skip_to_eol: "twin cf cg \<Longrightarrow> twin (skip_to_eol cf) (skip_to_eol cg)"
proof (induction cf arbitrary: cg rule: skip_to_eol.induct)
  case (1 cf)
  obtain c cf1 where g: "get_char cf = (c, cf1)" by (cases "get_char cf")
  with "1.prems" obtain cg1 where "get_char cg = (c, cg1)" "twin cf1 cg1"
    using twin_get_char by metis
  with "1.IH" [OF g [symmetric] refl] g show ?case
    by (simp add: skip_to_eol.simps [of cf] skip_to_eol.simps [of cg])
qed

lemma rel_prodE:
  assumes "rel_prod (=) B p q" "p = (a, x)"
  obtains y where "q = (a, y)" "B x y"
  using assms by (cases q) auto

lemma twin_scanners:
  assumes "twin cf cg"
  shows "twins (read_number c cf) (read_number c cg)" "twins (read_string cf) (read_string cg)"
    "twins (read_num_or_name c cf) (read_num_or_name c cg)"
proof -
  note u = twin_updates(1) [OF assms, of 0 c]
  show "twins (read_number c cf) (read_number c cg)"
    using twin_number_loop [OF u, of 1 NUMBER]
    by (auto simp: read_number_def Let_def rel_prod_conv split: prod.splits intro: twin_updates)
  show "twins (read_string cf) (read_string cg)"
    using twin_string_loop [OF assms, of 0 "Esc 0 0 False"]
    by (auto simp: read_string_def Let_def rel_prod_conv split: prod.splits intro: twin_updates)
  have "tval_text a = tval_text b" if "twin a b" for a b
    using that by (simp add: tval_text_def twin_def unbuffered_eq_iff split: tvalptr.split)
  then have "twins (intern (tval_text a) rv, a) (intern (tval_text b) rv, b)" if "twin a b" for a b rv
    using that by simp
  then have "twins (let cf2 = end_tok i a in (intern (tval_text cf2) rv, cf2))
      (let cf2 = end_tok i b in (intern (tval_text cf2) rv, cf2))" if "twin a b" for a b rv i
    unfolding Let_def using twin_updates(3) [OF that] by blast
  with twin_name_loop [OF u, of 1 NUMBER_OR_NAME]
  show "twins (read_num_or_name c cf) (read_num_or_name c cg)"
    unfolding read_num_or_name_def
    by (cases "read_name_loop 1 NUMBER_OR_NAME (put_tok 0 c cf)";
        cases "read_name_loop 1 NUMBER_OR_NAME (put_tok 0 c cg)") simp
qed

lemma if_twins:
  "(b \<Longrightarrow> twins x u) \<Longrightarrow> (\<not> b \<Longrightarrow> twins y v) \<Longrightarrow> twins (if b then x else y) (if b then u else v)"
  by simp

lemma twin_get_token: "twin cf cg \<Longrightarrow> twins (get_token cf) (get_token cg)"
proof (induction cf arbitrary: cg rule: get_token.induct)
  case (1 cf)
  obtain c cf1 where g: "get_char cf = (c, cf1)" by (cases "get_char cf")
  with "1.prems" obtain cg1 where g': "get_char cg = (c, cg1)" "twin cf1 cg1"
    using twin_get_char by metis
  have eq: "line cg = line cf" "lpos cg = lpos cf" "eol_token cg1 = eol_token cf1"
    using g'(2) "1.prems" by (simp_all add: twin_def unbuffered_eq_iff)
  note IH = "1.IH" [OF refl refl g [symmetric] refl]
  note t = twin_updates(4-) [OF g'(2)] twin_skip_to_eol [OF g'(2)] twin_scanners [OF twin_updates(5) [OF g'(2)]]
  show ?case
    unfolding get_token.simps [of cf] get_token.simps [of cg] g g'(1) Let_def prod.case eq
    by (intro if_twins IH(1) [OF _ g'(2)] IH(2) [OF _ _ t(4)] t(5-7); (assumption | simp only: rel_prod_inject t)?)
qed

lemma twin_lookahead:
  assumes "twin cf cg"
  shows "twin (cf\<lparr>token_line := cur_line cf\<rparr>) (cg\<lparr>token_line := cur_line cg\<rparr>)"
    "twin (cf\<lparr>tlpos := lexchar cf, tline := lexline cf\<rparr>) (cg\<lparr>tlpos := lexchar cg, tline := lexline cg\<rparr>)"
  using assms by (auto simp: twin_def inp_ok_def stream_def unbuffered_eq_iff)

lemma twin_next_token: 
  assumes "twin cf cg" 
  shows "twins (next_token cf) (next_token cg)"
proof (cases "token cf = 0")
  case True
  then have "token cg = 0" using assms by (simp add: twin_def unbuffered_eq_iff)
  with True twin_get_token [OF assms] show ?thesis
    by (cases "get_token cf"; cases "get_token cg") (simp add: next_token_def twin_lookahead)
next
  case False
  with assms show ?thesis
    by (auto simp: next_token_def Let_def twin_def inp_ok_def stream_def unbuffered_eq_iff)
qed

lemma twin_peek_token:
  assumes "twin cf cg"
  shows "twins (peek_token cf) (peek_token cg)"
proof (cases "token cf = 0")
  case True
  then have "token cg = 0" using assms by (simp add: twin_def unbuffered_eq_iff)
  with True twin_get_token [OF twin_lookahead(2) [OF assms]] show ?thesis
    by (cases "get_token (cf\<lparr>tlpos := lexchar cf, tline := lexline cf\<rparr>)";
        cases "get_token (cg\<lparr>tlpos := lexchar cg, tline := lexline cg\<rparr>)")
       (auto simp: peek_token_def Let_def twin_def inp_ok_def stream_def unbuffered_eq_iff)
next
  case False
  then have "token cg = token cf" using assms by (simp add: twin_def unbuffered_eq_iff)
  with False assms show ?thesis by (simp add: peek_token_def)
qed

text \<open>A run of the reader: the tokens with their texts, until the end of the file.\<close>

function all_tokens :: "parse \<Rightarrow> (int \<times> int list) list" where
  "all_tokens cf =
     (let (t, cf1) = next_token cf in
      if t = END_OF_FILE then [] else (t, tval_text cf1) # all_tokens cf1)"
  by pat_completeness auto
termination
  by (relation "measure tok_meas") (auto dest!: lex.nxt_less [OF sym])

declare all_tokens.simps [simp del]

lemma twin_all_tokens: "twin cf cg \<Longrightarrow> all_tokens cf = all_tokens cg"
proof (induction cf arbitrary: cg rule: all_tokens.induct)
  case (1 cf)
  obtain t cf1 where n: "next_token cf = (t, cf1)" by (cases "next_token cf")
  with twin_next_token [OF "1.prems"] obtain cg1 where n': "next_token cg = (t, cg1)" "twin cf1 cg1"
    by (cases "next_token cg") auto
  moreover have "tval_text cf1 = tval_text cg1"
    using n'(2) by (simp add: tval_text_def twin_def unbuffered_eq_iff split: tvalptr.split)
  ultimately show ?case
    using "1.IH" [OF n [symmetric] refl] n by (simp add: all_tokens.simps [of cf] all_tokens.simps [of cg])
qed

section \<open>Texts and their tokens\<close>

text \<open>
  \<open>ready cf xs\<close>: the reader stands in front of the text \<open>xs\<close> with no token peeked.
  \<open>lexes xs t txt zs\<close>: a reader in front of \<open>xs\<close> delivers the token \<open>t\<close> with the text \<open>txt\<close> and
  stands in front of \<open>zs\<close> then.
\<close>

definition ready :: "parse \<Rightarrow> int list \<Rightarrow> bool" where
  "ready cf xs \<longleftrightarrow> inp_ok cf \<and> stream cf = xs \<and> token cf = 0 \<and> eol_token cf = 0 \<and> EOF \<notin> set xs"

definition lexes :: "int list \<Rightarrow> int \<Rightarrow> int list \<Rightarrow> int list \<Rightarrow> bool" where
  "lexes xs t txt zs \<longleftrightarrow> set zs \<subseteq> set xs \<and>
     (\<forall>cf. ready cf xs \<longrightarrow> (\<exists>cf1. get_token cf = (t, cf1) \<and> reads cf zs cf1 \<and> says cf1 txt))"

lemma lexes_number:
  assumes "list_all isspace ws" "list_all isdigit (d # ds)" "zs = [] \<or> \<not> name_char (hd zs)"
    "length ds < TOKBUF_SIZE - 1"
  shows "lexes (ws @ d # ds @ zs) NUMBER (d # ds) zs"
proof -
  have "list_all name_char ds" using assms(2) digit_plain by (auto simp: list_all_iff)
  then have tw: "takeWhile name_char (ds @ zs) = ds" "dropWhile name_char (ds @ zs) = zs"
    using assms(3) by (cases zs; simp add: list_all_iff takeWhile_append2 dropWhile_append2)+
  show ?thesis
    unfolding lexes_def
  proof (intro conjI allI impI)
    fix cf assume "ready cf (ws @ d # ds @ zs)"
    then obtain t cf' where "get_token cf = (t, cf')" "t = NUMBER \<longleftrightarrow> list_all isdigit ds"
        "reads cf zs cf'" "says cf' (d # ds)"
      using get_token_number [of cf ws d "ds @ zs"] tw assms by (auto simp: ready_def)
    with assms(2) show "\<exists>cf1. get_token cf = (NUMBER, cf1) \<and> reads cf zs cf1 \<and> says cf1 (d # ds)" by auto
  qed auto
qed

lemma lexes_name:
  assumes "list_all isspace ws" "isalpha c" "list_all name_char cs" "zs = [] \<or> \<not> name_char (hd zs)"
    "length cs < TOKBUF_SIZE - 1"
  shows "lexes (ws @ c # cs @ zs)
           (intern (c # cs) (if list_all isxdigit cs then NUMBER_OR_NAME else NAME)) (c # cs) zs"
proof -
  have tw: "takeWhile name_char (cs @ zs) = cs" "dropWhile name_char (cs @ zs) = zs"
    using assms(3,4) by (cases zs; simp add: list_all_iff takeWhile_append2 dropWhile_append2)+
  show ?thesis
    unfolding lexes_def
  proof (intro conjI allI impI)
    fix cf assume "ready cf (ws @ c # cs @ zs)"
    then have r: "inp_ok cf" "EOF \<notin> set (stream cf)" "stream cf = ws @ c # (cs @ zs)" "eol_token cf = 0"
      by (simp_all add: ready_def)
    show "\<exists>cf1. get_token cf =
          (intern (c # cs) (if list_all isxdigit cs then NUMBER_OR_NAME else NAME), cf1) \<and>
        reads cf zs cf1 \<and> says cf1 (c # cs)"
      using get_token_name [OF r(1-3) assms(1) r(4) assms(2)] tw assms(5) by metis
  qed auto
qed

lemma lexes_string:
  assumes "list_all isspace ws" "0 \<notin> set xs" "EOF \<notin> set xs" "\<forall>x \<in> set xs. -128 \<le> x \<and> x < 128"
    "length xs < TOKBUF_SIZE"
  shows "lexes (ws @ 34 # quoted xs @ zs) STRING xs zs"
  unfolding lexes_def
proof (intro conjI allI impI)
  fix cf assume "ready cf (ws @ 34 # quoted xs @ zs)"
  then have r: "inp_ok cf" "stream cf = ws @ 34 # quoted xs @ zs" "eol_token cf = 0" by (simp_all add: ready_def)
  obtain cf' where "get_token cf = (STRING, cf')" "reads cf zs cf'" "tlen cf' = int (length xs)"
      "tval cf' = TvTokbuf" "tval_text cf' = xs"
    using get_token_string [OF r(1,2) assms(1) r(3) assms(3-5)] assms(2) by metis
  then show "\<exists>cf1. get_token cf = (STRING, cf1) \<and> reads cf zs cf1 \<and> says cf1 xs"
    by (auto simp: says_def)
qed auto

lemma lexes_punct:
  assumes "list_all isspace ws" "punct_char c" "c \<noteq> 0"
  shows "lexes (ws @ c # zs) c [c] zs"
  unfolding lexes_def
proof (intro conjI allI impI)
  fix cf assume "ready cf (ws @ c # zs)"
  then show "\<exists>cf1. get_token cf = (c, cf1) \<and> reads cf zs cf1 \<and> says cf1 [c]"
    using get_token_punct [of cf ws c zs] assms by (auto simp: ready_def)
qed auto

text \<open>What the lookahead makes of a token.\<close>

lemma next_lexes:
  assumes "ready cf xs" "lexes xs t txt zs"
  obtains cf' where "next_token cf = (t, cf')" "ready cf' zs" "says cf' txt" "ub cf' = ub cf" "mallocs cf' = mallocs cf"
proof -
  obtain cf1 where g: "get_token cf = (t, cf1)" "reads cf zs cf1" "says cf1 txt" and sub: "set zs \<subseteq> set xs"
    using assms unfolding lexes_def by blast
  let ?cf' = "cf1\<lparr>token_line := cur_line cf1\<rparr>"
  have "next_token cf = (t, ?cf')" using g(1) assms(1) by (simp add: next_token_def ready_def)
  moreover have "ready ?cf' zs" "ub ?cf' = ub cf" "mallocs ?cf' = mallocs cf"
    using g(2) sub assms(1) by (auto simp: ready_def reads_def inp_ok_def stream_def same_ctl_def)
  moreover have "says ?cf' txt"
    using g(3) says_cong [of "?cf'" cf1] by simp_all
  ultimately show ?thesis using that by blast
qed

definition peeked :: "parse \<Rightarrow> int \<Rightarrow> int list \<Rightarrow> int list \<Rightarrow> bool" where
  "peeked cf t txt zs \<longleftrightarrow> ready (cf\<lparr>token := 0\<rparr>) zs \<and> token cf = t \<and> t \<noteq> 0 \<and> says cf txt"

lemma peek_fresh:
  assumes "token cf = 0" "get_token (cf\<lparr>tlpos := lexchar cf, tline := lexline cf\<rparr>) = (t, cf1)"
  obtains a b c d e where "peek_token cf =
    (t, cf1\<lparr>token := t, token_line := a, lexchar := b, tlpos := c, lexline := d, tline := e\<rparr>)"
proof -
  have "peek_token cf = (t, cf1\<lparr>token := t,
      token_line := (if lexline cf1 \<noteq> tline cf1 then prev_line cf1 else token_line cf1),
      lexchar := tlpos cf1, tlpos := lexchar cf1, lexline := tline cf1, tline := lexline cf1\<rparr>)"
    using assms by (simp add: peek_token_def Let_def)
  then show ?thesis by (rule that)
qed

lemma peek_lexes:
  assumes "ready cf xs" "lexes xs t txt zs" "t \<noteq> 0"
  obtains cf' where "peek_token cf = (t, cf')" "peeked cf' t txt zs" "ub cf' = ub cf"
    "mallocs cf' = mallocs cf"
proof -
  let ?cf0 = "cf\<lparr>tlpos := lexchar cf, tline := lexline cf\<rparr>"
  have "ready ?cf0 xs" using assms(1) by (auto simp: ready_def inp_ok_def stream_def)
  then obtain cf1 where g: "get_token ?cf0 = (t, cf1)" "reads ?cf0 zs cf1" "says cf1 txt"
      and sub: "set zs \<subseteq> set xs"
    using assms(2) unfolding lexes_def by blast
  from assms(1) have "token cf = 0" by (simp add: ready_def)
  then obtain a b c d e where p: "peek_token cf =
    (t, cf1\<lparr>token := t, token_line := a, lexchar := b, tlpos := c, lexline := d, tline := e\<rparr>)"
    by (rule peek_fresh [OF _ g(1)])
  let ?cf' = "cf1\<lparr>token := t, token_line := a, lexchar := b, tlpos := c, lexline := d, tline := e\<rparr>"
  have "says ?cf' txt" using g(3) says_cong [of "?cf'" cf1] by simp
  moreover have "ready (?cf'\<lparr>token := 0\<rparr>) zs"
    using g(2) sub assms(1) by (auto simp: ready_def reads_def same_ctl_def inp_ok_def stream_def)
  ultimately have "peeked ?cf' t txt zs" using assms(3) by (simp add: peeked_def)
  with p g(2) show ?thesis by (intro that [of ?cf']) (simp_all add: reads_def same_ctl_def)
qed

lemma next_peeked:
  assumes "peeked cf t txt zs"
  obtains cf' where "next_token cf = (t, cf')" "ready cf' zs" "says cf' txt" "ub cf' = ub cf"
    "mallocs cf' = mallocs cf"
proof -
  define cf1 where "cf1 = (if lexline cf \<noteq> tline cf then cf\<lparr>token_line := cur_line cf\<rparr> else cf)"
  let ?cf' = "cf1\<lparr>lexchar := tlpos cf1, lexline := tline cf1, token := 0\<rparr>"
  from assms have t: "token cf = t" "t \<noteq> 0" "says cf txt" "ready (cf\<lparr>token := 0\<rparr>) zs"
    by (simp_all add: peeked_def)
  have "next_token cf = (t, ?cf')" using t(1,2) by (simp add: next_token_def cf1_def)
  moreover have "ready ?cf' zs"
    using t(4) by (auto simp: ready_def inp_ok_def stream_def cf1_def)
  moreover have "says ?cf' txt"
    using t(3) says_cong [of "?cf'" cf] by (simp add: cf1_def)
  moreover have "ub ?cf' = ub cf" "mallocs ?cf' = mallocs cf" by (simp_all add: cf1_def)
  ultimately show ?thesis by (rule that)
qed

section \<open>Reading a file\<close>

lemma new_parse_inp_ok:
  assumes "new_parse f None 0 nm e (map Some cs) ms = Some cf" "f \<noteq> -1"
    "\<forall>c \<in> set cs. c \<noteq> [] \<and> length c \<le> 8192"
  shows "inp_ok cf \<and> stream cf = concat cs \<and> token cf = 0 \<and> eol_token cf = e \<and> \<not> ub cf"
proof -
  have "rd cf = map Some cs" "bufix cf = 0" "buflen cf = 0" "inbuf cf = []" "bufsiz cf = 8192" "fd cf = f"
      "token cf = 0" "eol_token cf = e" "\<not> ub cf"
    using assms(1) by (auto simp: new_parse_def Let_def split: prod.splits if_splits)
  moreover have "map the (map Some cs) = cs" by (induction cs) auto
  ultimately show ?thesis using assms(2,3) by (auto simp: inp_ok_def stream_def)
qed

lemma new_parse_ready:
  "new_parse f None 0 nm 0 (map Some cs) ms = Some cf \<Longrightarrow> f \<noteq> -1 \<Longrightarrow>
   \<forall>c \<in> set cs. c \<noteq> [] \<and> length c \<le> 8192 \<Longrightarrow> EOF \<notin> set (concat cs) \<Longrightarrow>
   ready cf (concat cs) \<and> \<not> ub cf"
  using new_parse_inp_ok [of f nm 0 cs ms cf] by (simp add: ready_def)

text \<open>C23: The tokens of a file and their texts depend only on its characters, not on how \<open>read\<close> delivers
  them: two opened files with the same contents, cut into blocks of any sizes up to that of the
  buffer, give the same sequence of tokens.\<close>

theorem tokens_chunk_independent:
  assumes "new_parse f None 0 nm e (map Some cs) ms = Some cf"
    and "new_parse g None 0 nm e (map Some ds) ms = Some cg"
    and "f \<noteq> -1" and "g \<noteq> -1"
    and "\<forall>c \<in> set cs \<union> set ds. c \<noteq> [] \<and> length c \<le> 8192"
    and "concat cs = concat ds"
  shows "all_tokens cf = all_tokens cg"
proof (rule twin_all_tokens)
  have "unbuffered cf = unbuffered cg"
    using assms(1,2) by (auto simp: new_parse_def Let_def unbuffered_eq_iff split: prod.splits if_splits)
  with new_parse_inp_ok [OF assms(1,3)] new_parse_inp_ok [OF assms(2,4)] assms(5,6)
  show "twin cf cg" by (simp add: twin_def)
qed

theorem tokens_chunk_independent_witness:
  "all_tokens (the (new_parse 3 None 0 [] 0 (map Some [[108, 101, 97], [115, 101, 59]]) [])) =
   all_tokens (the (new_parse 4 None 0 [] 0 (map Some [[108], [101, 97, 115, 101], [59]]) []))"
  by (rule tokens_chunk_independent [of 3 "[]" 0 "[[108, 101, 97], [115, 101, 59]]" "[]" _
        4 "[[108], [101, 97, 115, 101], [59]]"])
     (simp_all add: new_parse_def malloc_def)

text \<open>Maximal munch. In front of a word (a letter, then letters, digits, hyphens and underscores),
  possibly behind white space, the reader delivers one token for the whole word: its keyword token
  if it is one, otherwise the class its characters give it; the value is the word, and the reader
  then stands behind it, with no undefined behaviour on the way.\<close>

theorem word_token:
  assumes "ready cf (ws @ c # cs @ zs)" and "list_all isspace ws" and "isalpha c"
    and "list_all name_char cs" and "zs = [] \<or> \<not> name_char (hd zs)" and "length cs < TOKBUF_SIZE - 1"
  shows "\<exists>cf'. next_token cf =
           (intern (c # cs) (if list_all isxdigit cs then NUMBER_OR_NAME else NAME), cf') \<and>
         ready cf' zs \<and> tval_text cf' = c # cs \<and> ub cf' = ub cf"
  by (rule next_lexes [OF assms(1) lexes_name [OF assms(2-6)]]) (auto simp: says_def)

theorem word_token_witness:
  "\<exists>cf'. next_token (the (new_parse 3 None 0 [] 0 (map Some [[32, 108, 101, 97], [115, 101, 59]]) [])) =
       (LEASE, cf') \<and> ready cf' [59] \<and> tval_text cf' = [108, 101, 97, 115, 101]"
proof -
  have "ready (the (new_parse 3 None 0 [] 0 (map Some [[32, 108, 101, 97], [115, 101, 59]]) []))
          ([32] @ 108 # [101, 97, 115, 101] @ [59])"
    using new_parse_ready [of 3 "[]" "[[32, 108, 101, 97], [115, 101, 59]]" "[]"]
    by (simp add: new_parse_def malloc_def)
  from word_token [OF this] show ?thesis
    by (fastforce simp: ctype_simps name_char_def intern_def intern_l_def tolower_c_def c_at_def)
qed

text \<open>A string constant read back. Written with quotes and backslashes escaped, any string of
  non-NUL characters that fits the token buffer is delivered as one \<^verbatim>\<open>STRING\<close> token whose value and
  length are those of the string.\<close>

theorem string_constant_roundtrip:
  assumes "ready cf (ws @ 34 # quoted xs @ zs)" and "list_all isspace ws" and "0 \<notin> set xs"
    and "EOF \<notin> set xs" and "\<forall>x \<in> set xs. -128 \<le> x \<and> x < 128" and "length xs < TOKBUF_SIZE"
  shows "\<exists>cf'. next_token cf = (STRING, cf') \<and> ready cf' zs \<and> tval_text cf' = xs \<and>
           tlen cf' = int (length xs) \<and> ub cf' = ub cf"
  by (rule next_lexes [OF assms(1) lexes_string [OF assms(2-6)]]) (auto simp: says_def)

theorem string_constant_roundtrip_witness:
  "\<exists>cf'. next_token (the (new_parse 3 None 0 [] 0 (map Some [[34, 97, 92], [34, 98, 34, 59]]) [])) =
       (STRING, cf') \<and> ready cf' [59] \<and> tval_text cf' = [97, 34, 98]"
proof -
  have "ready (the (new_parse 3 None 0 [] 0 (map Some [[34, 97, 92], [34, 98, 34, 59]]) []))
          ([] @ 34 # quoted [97, 34, 98] @ [59])"
    using new_parse_ready [of 3 "[]" "[[34, 97, 92], [34, 98, 34, 59]]" "[]"]
    by (simp add: new_parse_def malloc_def quoted_def quote_char_def)
  from string_constant_roundtrip [OF this] show ?thesis by fastforce
qed

text \<open>Peeking is reading ahead: whatever \<^verbatim>\<open>peek_token\<close> returns (the NUL character apart) is what the next
  \<^verbatim>\<open>next_token\<close> returns, and a second peek changes nothing.\<close>

theorem peek_then_next:
  assumes "peek_token cf = (t, cf1)" and "t \<noteq> 0"
  shows "fst (next_token cf1) = t \<and> peek_token cf1 = (t, cf1)"
proof -
  have "token cf1 = t" using assms(1) by (cases rule: peek_token_cases) auto
  with lex.pk_nxt [OF assms] assms(2) show ?thesis by (simp add: peek_token_def)
qed

theorem peek_then_next_witness:
  "\<exists>cf1. fst (next_token cf1) = 59 \<and> peek_token cf1 = (59, cf1)"
proof -
  have "ready (the (new_parse 3 None 0 [] 0 (map Some [[59]]) [])) ([] @ 59 # [])"
    using new_parse_ready [of 3 "[]" "[[59]]" "[]"] by (simp add: new_parse_def malloc_def)
  from peek_lexes [OF this lexes_punct] obtain cf1 where
    "peek_token (the (new_parse 3 None 0 [] 0 (map Some [[59]]) [])) = (59, cf1)"
    by (auto simp: punct_char_def ctype_simps)
  from peek_then_next [OF this] show ?thesis by auto
qed

end
