(* ===== verification/Lease_Values.thy ===== *)
theory Lease_Values
  imports Lease_Stream
begin

text \<open>
  The value parsers of base/cl_parse.c: error recovery (\<^verbatim>\<open>skip_to_rbrace\<close>, \<^verbatim>\<open>skip_to_semi\<close>,
  \<^verbatim>\<open>parse_semi\<close>), numbers (\<^verbatim>\<open>convert_num\<close>, \<^verbatim>\<open>parse_numeric_aggregate\<close>), IP addresses
  (\<^verbatim>\<open>parse_ip_addr\<close>) and dates (\<^verbatim>\<open>parse_date\<close>), with round trips from the texts they accept.

  The brace count is an unbounded integer: the code's \<open>int\<close> would overflow only after 2^31 nested
  braces. Memory the code allocates is a list of cells; storing outside it sets \<open>ub\<close>.
\<close>

section \<open>Skipping\<close>

text \<open>
  The loop of \<^verbatim>\<open>skip_to_rbrace\<close>. After a right brace that does not bring the count to zero the code
  falls through to the \<^verbatim>\<open>next_token\<close> at the end of the loop body. The count, an \<open>int\<close>, is not bounded here.
\<close>

function skip_to_rbrace :: "parse \<Rightarrow> int \<Rightarrow> parse" where
  "skip_to_rbrace cf brace_count =
     (let (tok, cf1) = peek_token cf in
      if tok = RBRACE then
        (let (_, cf2) = next_token cf1 in
         if brace_count \<noteq> 0 then
           (if brace_count - 1 = 0 then cf2
            else (let (tok3, cf3) = next_token cf2 in
                  if tok3 \<noteq> END_OF_FILE then skip_to_rbrace cf3 (brace_count - 1) else cf3))
         else cf2)
      else if tok = SEMI \<and> brace_count = 0 then snd (next_token cf1)
      else if tok = EOL then snd (next_token cf1)
      else (let (tok2, cf2) = next_token cf1 in
            if tok2 \<noteq> END_OF_FILE
            then skip_to_rbrace cf2 (if tok = LBRACE then brace_count + 1 else brace_count)
            else cf2))"
  by pat_completeness auto
termination
proof (relation "measure (\<lambda>(cf, n). tok_meas cf)", goal_cases)
  case (2 cf n p tok cf1 q a cf2 r tok3 cf3)
  then have "peek_token cf = (tok, cf1)" "next_token cf1 = (a, cf2)" "next_token cf2 = (tok3, cf3)"
      "tok3 \<noteq> END_OF_FILE" by auto
  then show ?case using lex.pk_le lex.nxt_le lex.nxt_less by fastforce
next
  case (3 cf n p tok cf1 q tok2 cf2)
  then have "peek_token cf = (tok, cf1)" "next_token cf1 = (tok2, cf2)" "tok2 \<noteq> END_OF_FILE" by auto
  then show ?case using lex.pk_le lex.nxt_less by fastforce
qed simp

declare skip_to_rbrace.simps [simp del]

definition skip_to_semi :: "parse \<Rightarrow> parse" where
  "skip_to_semi cf = skip_to_rbrace cf 0"

definition parse_semi :: "parse \<Rightarrow> int \<times> parse" where
  "parse_semi cf =
     (let (tok, cf1) = next_token cf in
      if tok \<noteq> SEMI then (0, skip_to_semi cf1) else (1, cf1))"

section \<open>Numbers\<close>

definition putShort :: "32 word \<Rightarrow> byte list" where
  "putShort val = mem16 (htons (ucast val))"

definition putUShort :: "32 word \<Rightarrow> byte list" where
  "putUShort val = mem16 (htons (ucast val))"

definition putLong :: "32 word \<Rightarrow> byte list" where
  "putLong val = mem32 (htonl val)"

definition putULong :: "32 word \<Rightarrow> byte list" where
  "putULong val = mem32 (htonl val)"

text \<open>One character of a number as the code reads it, before it is compared with the base.\<close>

definition digit_value :: "int \<Rightarrow> int option" where
  "digit_value c =
     (if 97 \<le> c then Some (c - 97 + 10)
      else if 65 \<le> c then Some (c - 65 + 10)
      else if 48 \<le> c then Some (c - 48)
      else None)"

text \<open>
  The \<^verbatim>\<open>do ... while (*ptr)\<close> loop: it looks at a first character even when the text is empty, and
  stops at the first character that is no digit of the base.
\<close>

fun num_loop :: "int \<Rightarrow> int list \<Rightarrow> 32 word \<Rightarrow> 32 word" where
  "num_loop base [] val = val"
| "num_loop base (c # cs) val =
     (case digit_value c of
        None \<Rightarrow> val
      | Some d \<Rightarrow> if base \<le> d then val else num_loop base cs (val * of_int base + of_int d))"

definition num_base :: "int \<Rightarrow> int list \<Rightarrow> int \<times> int list" where
  "num_base base ptr =
     (if base \<noteq> 0 then (base, ptr)
      else if c_at ptr 0 = 48 then
        (if c_at ptr 1 = 120 then (16, drop 2 ptr)
         else if isascii (c_at ptr 1) \<and> isdigit (c_at ptr 1) then (8, drop 1 ptr)
         else (10, ptr))
      else (10, ptr))"

text \<open>
  The bytes \<^verbatim>\<open>convert_num\<close> stores, none for a size it does not know. The comparison with \<^verbatim>\<open>max\<close>, whose
  shift by 31 bits for a size of 32 is undefined in C, decides about a message only and is left out. An empty text is handled as its terminating NUL is: no digit.
\<close>

definition convert_num :: "int list \<Rightarrow> int \<Rightarrow> nat \<Rightarrow> byte list" where
  "convert_num str base sz =
     (let negative = (c_at str 0 = 45);
          ptr = (if negative then drop 1 str else str);
          (base1, ptr1) = num_base base ptr;
          val = num_loop base1 ptr1 0
      in if negative then
           (if sz = 8 then [ucast (- val)] else if sz = 16 then putShort (- val)
            else if sz = 32 then putLong (- val) else [])
         else
           (if sz = 8 then [ucast val] else if sz = 16 then putUShort (ucast (ucast val :: 16 word))
            else if sz = 32 then putULong val else []))"

section \<open>Aggregates of numbers\<close>

text \<open>
  A block of memory is a list of cells, \<open>None\<close> where nothing has been stored since it was allocated.
  A store outside the block is undefined behaviour; the block is left as it is then.
\<close>

type_synonym block = "byte option list"

definition store :: "block \<Rightarrow> int \<Rightarrow> byte list \<Rightarrow> parse \<Rightarrow> block \<times> parse" where
  "store b off bs cf =
     (if 0 \<le> off \<and> nat off + length bs \<le> length b
      then (take (nat off) b @ map Some bs @ drop (nat off + length bs) b, cf)
      else (b, cf\<lparr>ub := True\<rparr>))"

text \<open>
  The state of \<^verbatim>\<open>parse_numeric_aggregate\<close>: \<open>agg_s\<close> is \<^verbatim>\<open>s\<close> as an offset into the caller's buffer (\<open>None\<close> for
  NULL), \<open>agg_buf\<close> that buffer, \<open>agg_c\<close> the list of number texts (last first), \<open>agg_count\<close> the count.
\<close>

record agg =
  agg_s :: "int option"
  agg_buf :: block
  agg_c :: "int list list"
  agg_count :: nat

text \<open>The loop ends normally or by a break (\<open>True\<close>), or the function returns NULL (\<open>False\<close>).\<close>

definition agg_number :: "int \<Rightarrow> nat \<Rightarrow> agg \<Rightarrow> parse \<Rightarrow> bool \<times> agg \<times> parse" where
  "agg_number base sz a cf =
     (case agg_s a of
        Some s \<Rightarrow>
          (let (b, cf1) = store (agg_buf a) s (convert_num (tval_text cf) base sz) cf in
           (True, a\<lparr>agg_buf := b, agg_s := Some (s + int (sz div 8))\<rparr>, cf1))
      | None \<Rightarrow>
          (let (ok, ms) = malloc (mallocs cf) in
           if \<not> ok then (False, a, cf\<lparr>mallocs := ms\<rparr>)
           else (let (ok2, ms2) = malloc ms in
                 (True, a\<lparr>agg_c := (if ok2 then tval_text cf # agg_c a else [])\<rparr>, cf\<lparr>mallocs := ms2\<rparr>))))"

lemma agg_number_meas:
  assumes "agg_number base sz a cf = (ok, a', cf')"
  shows "tok_meas cf' = tok_meas cf"
proof -
  have "inbuf cf' = inbuf cf \<and> bufix cf' = bufix cf \<and> buflen cf' = buflen cf \<and> bufsiz cf' = bufsiz cf \<and>
      rd cf' = rd cf \<and> token cf' = token cf"
    using assms by (auto simp: agg_number_def store_def split: option.splits prod.splits if_splits)
  then show ?thesis by (simp add: tok_meas_def avail_def)
qed

text \<open>The separator between two numbers; \<open>None\<close>: go on with the loop body.\<close>

definition agg_separator :: "int \<Rightarrow> nat \<Rightarrow> agg \<Rightarrow> parse \<Rightarrow> bool option \<times> parse" where
  "agg_separator sep mx a cf =
     (if agg_count a = 0 then (None, cf)
      else
        (let (tok, cf1) = peek_token cf in
         if tok \<noteq> sep then
           (if mx = 0 then (Some True, cf1)
            else
              (let (tok2, cf2) = (if tok \<noteq> RBRACE \<and> tok \<noteq> LBRACE then next_token cf1 else (tok, cf1))
               in (Some False, if tok2 \<noteq> SEMI then skip_to_semi cf2 else cf2)))
         else (None, snd (next_token cf1))))"

lemma agg_separator_meas:
  "agg_separator sep mx a cf = (None, cf1) \<Longrightarrow> tok_meas cf1 \<le> tok_meas cf"
  using lex.pk_le lex.nxt_snd_le
  by (auto simp: agg_separator_def split: prod.splits if_splits) (meson le_trans)

function agg_loop :: "int \<Rightarrow> int \<Rightarrow> nat \<Rightarrow> nat \<Rightarrow> agg \<Rightarrow> parse \<Rightarrow> bool \<times> agg \<times> parse" where
  "agg_loop sep base sz mx a cf =
     (let (sp, cf1) = agg_separator sep mx a cf in
      case sp of
        Some r \<Rightarrow> (r, a, cf1)
      | None \<Rightarrow>
          (let (tok, cf2) = next_token cf1 in
           if tok = END_OF_FILE then (True, a, cf2)
           else if tok \<noteq> NUMBER \<and> (base \<noteq> 16 \<or> tok \<noteq> NUMBER_OR_NAME) then (False, a, skip_to_semi cf2)
           else
             (let (ok, a1, cf3) = agg_number base sz a cf2 in
              if \<not> ok then (False, a1, cf3)
              else (let a2 = a1\<lparr>agg_count := Suc (agg_count a1)\<rparr> in
                    if agg_count a2 \<noteq> mx then agg_loop sep base sz mx a2 cf3
                    else (True, a2, cf3)))))"
  by pat_completeness auto
termination
proof (relation "measure (\<lambda>(sep, base, sz, mx, a, cf). tok_meas cf)", goal_cases)
  case (2 sep base sz mx a cf x sp cf1 y tok cf2 z ok w a1 cf3 a2)
  then have "agg_separator sep mx a cf = (None, cf1)" "next_token cf1 = (tok, cf2)" "tok \<noteq> END_OF_FILE"
      "agg_number base sz a cf2 = (ok, a1, cf3)" by auto
  then show ?case using agg_separator_meas lex.nxt_less agg_number_meas by fastforce
qed simp

declare agg_loop.simps [simp del]

text \<open>The list of texts converted from the back of a fresh block.\<close>

fun agg_convert :: "int \<Rightarrow> nat \<Rightarrow> int list list \<Rightarrow> int \<Rightarrow> block \<Rightarrow> parse \<Rightarrow> block \<times> parse" where
  "agg_convert base sz [] s b cf = (b, cf)"
| "agg_convert base sz (c # cs) s b cf =
     (let (b1, cf1) = store b s (convert_num c base sz) cf
      in agg_convert base sz cs (s - int (sz div 8)) b1 cf1)"

text \<open>
  \<^verbatim>\<open>parse_numeric_aggregate\<close>: the returned block (\<open>None\<close> for NULL), the caller's buffer after the call if
  there is one, the new \<open>*max\<close>, and the state.
\<close>

definition parse_numeric_aggregate ::
  "parse \<Rightarrow> block option \<Rightarrow> nat \<Rightarrow> int \<Rightarrow> int \<Rightarrow> nat \<Rightarrow> block option \<times> block option \<times> nat \<times> parse" where
  "parse_numeric_aggregate cf buf mx sep base sz =
     (let (bufp, cf0) =
        (if buf = None \<and> mx \<noteq> 0
         then (let (ok, ms) = malloc (mallocs cf) in
               (if ok then Some (replicate (mx * sz div 8) None) else None, cf\<lparr>mallocs := ms\<rparr>))
         else (buf, cf));
          a0 = \<lparr>agg_s = (if buf = None then None else Some 0), agg_buf = (case buf of None \<Rightarrow> [] | Some b \<Rightarrow> b),
                agg_c = [], agg_count = 0\<rparr>;
          (ok, a, cf1) = agg_loop sep base sz mx a0 cf0;
          out = (case buf of None \<Rightarrow> None | Some _ \<Rightarrow> Some (agg_buf a))
      in if \<not> ok then (None, out, mx, cf1)
         else if agg_c a \<noteq> [] then
           (let (ok2, ms) = malloc (mallocs cf1); cf2 = cf1\<lparr>mallocs := ms\<rparr> in
            if \<not> ok2 then (None, out, mx, cf2)
            else
              (let (b, cf3) = agg_convert base sz (agg_c a) (int (agg_count a) - int (sz div 8))
                                (replicate (agg_count a * sz div 8) None) cf2
               in (Some b, out, agg_count a, cf3)))
         else (if buf = None then bufp else out, out, mx, cf1))"

text \<open>\<^verbatim>\<open>struct iaddr\<close>, and \<^verbatim>\<open>parse_ip_addr\<close>: the numbers go into the 16 bytes of \<^verbatim>\<open>iabuf\<close>.\<close>

record iaddr =
  len :: nat
  iabuf :: "byte list"

definition parse_ip_addr :: "parse \<Rightarrow> iaddr \<Rightarrow> int \<times> iaddr \<times> parse" where
  "parse_ip_addr cf addr =
     (let (r, out, mx, cf1) = parse_numeric_aggregate cf (Some (map Some (iabuf addr))) 4 DOT 10 8;
          addr1 = \<lparr>len = mx, iabuf = map the (the out)\<rparr>
      in (if r \<noteq> None then 1 else 0, addr1, cf1))"

section \<open>Dates\<close>

text \<open>C division of signed integers rounds towards zero.\<close>

definition c_div :: "int \<Rightarrow> int \<Rightarrow> int" where
  "c_div a b = sgn a * sgn b * (\<bar>a\<bar> div \<bar>b\<bar>)"

abbreviation MAX_TIME :: int where
  "MAX_TIME \<equiv> 2147483647"

definition months :: "int list" where
  "months = [31, 59, 90, 120, 151, 181, 212, 243, 273, 304, 334]"

definition in_s32 :: "int \<Rightarrow> bool" where
  "in_s32 v \<longleftrightarrow> - (2 ^ 31) \<le> v \<and> v < 2 ^ 31"

text \<open>What the code adds for the months of the year before month \<open>mon\<close> (counted from 0; a month outside
  the table is flagged below), and for the leap day of the year.\<close>

definition month_term :: "int \<Rightarrow> int" where
  "month_term mon = (if mon = 0 then 0 else if 1 \<le> mon \<and> mon \<le> 11 then months ! nat (mon - 1) else 0)"

definition leap_term :: "int \<Rightarrow> int \<Rightarrow> int" where
  "leap_term mon year = (if 1 < mon \<and> (year - 72) mod 4 = 0 then 1 else 0)"

text \<open>
  The arithmetic of \<^verbatim>\<open>guess\<close>. The flag says that the expression left the standard: the month index is
  outside the table, or an intermediate result does not fit an \<open>int\<close>.
\<close>

definition date_guess :: "int \<Rightarrow> int \<Rightarrow> int \<Rightarrow> int \<Rightarrow> int \<Rightarrow> int \<Rightarrow> int \<Rightarrow> int \<times> bool" where
  "date_guess year mon mday hour minute sec tzoff =
     (let y = 365 * (year - 70);
          yl = y + c_div (year - 69) 4;
          ym = yl + month_term mon;
          yd = ym + leap_term mon year;
          d = yd + mday - 1;
          h = d * 24 + hour;
          mi = h * 60 + minute;
          s = mi * 60 + sec
      in (to_s32 (s + tzoff),
          \<not> (0 \<le> mon \<and> mon \<le> 11 \<and>
              list_all in_s32 [year - 72, y, yl, ym, yd, yd + mday, d, d * 24, h, h * 60, mi, mi * 60, s, s + tzoff])))"

text \<open>
  The fields of a date in order. Every field is read by the same statement: a token other than the
  expected one ends the date, skipping to the semicolon unless the token was one. The result lists
  the texts of the fields.
\<close>

fun read_fields :: "int list \<Rightarrow> parse \<Rightarrow> int list list option \<times> parse" where
  "read_fields [] cf = (Some [], cf)"
| "read_fields (t # ts) cf =
     (let (tok, cf1) = next_token cf in
      if tok \<noteq> t then (None, if tok \<noteq> SEMI then skip_to_semi cf1 else cf1)
      else (case read_fields ts cf1 of
              (None, cf2) \<Rightarrow> (None, cf2)
            | (Some vs, cf2) \<Rightarrow> (Some (tval_text cf1 # vs), cf2)))"

definition date_fields :: "int list" where
  "date_fields = [NUMBER, SLASH, NUMBER, SLASH, NUMBER, NUMBER, COLON, NUMBER, COLON, NUMBER]"

text \<open>The value of the fields: year, month, day, hour, minute and second.\<close>

definition date_value :: "int list list \<Rightarrow> int \<Rightarrow> int \<times> bool" where
  "date_value vs tzoff =
     (let y = atoi (vs ! 0);
          year = (if 1900 < y then y - 1900 else y);
          mon = atoi (vs ! 2) - 1
      in date_guess year mon (atoi (vs ! 4)) (atoi (vs ! 5)) (atoi (vs ! 7)) (atoi (vs ! 9)) tzoff)"

definition parse_date :: "parse \<Rightarrow> int \<times> parse" where
  "parse_date cf =
     (let (tok, cf1) = next_token cf in
      if tok = NEVER then
        (let (ok, cf2) = parse_semi cf1 in (if ok = 0 then 0 else MAX_TIME, cf2))
      else if tok \<noteq> NUMBER then (0, if tok \<noteq> SEMI then skip_to_semi cf1 else cf1)
      else
        (case read_fields date_fields cf1 of
           (None, cf2) \<Rightarrow> (0, cf2)
         | (Some vs, cf2) \<Rightarrow>
             (let (tok3, cf3) = peek_token cf2;
                  (tzoff, cf4) = (if tok3 = NUMBER
                                  then (let (_, c) = next_token cf3 in (atoi (tval_text c), c))
                                  else (0, cf3));
                  (ok, cf5) = parse_semi cf4
              in if ok = 0 then (0, cf5)
                 else (let (guess, bad) = date_value vs tzoff in
                       (guess, if bad then cf5\<lparr>ub := True\<rparr> else cf5)))))"

section \<open>Reading decimal texts\<close>

lemma num_loop_dec:
  "list_all isdigit ds \<Longrightarrow> num_loop 10 ds (of_int v) = of_int (dec_val v ds)"
proof (induction ds arbitrary: v)
  case (Cons c cs)
  then have "digit_value c = Some (c - 48)" "\<not> 10 \<le> c - 48" by (auto simp: digit_value_def ctype_simps)
  then have "num_loop 10 (c # cs) (of_int v) = num_loop 10 cs (of_int (10 * v + (c - 48)))"
    by (simp add: mult.commute)
  also have "\<dots> = of_int (dec_val (10 * v + (c - 48)) cs)" by (rule Cons.IH) (use Cons.prems in simp)
  finally show ?case using Cons.prems by simp
qed simp

lemma convert_num_dec: "convert_num (dec n) 10 8 = [of_nat n]" if "n < 2 ^ 32"
proof -
  obtain d ds where d: "dec n = d # ds" "isdigit d" using dec_Cons by metis
  then have "c_at (dec n) 0 \<noteq> 45" by (auto simp: ctype_simps c_at_def)
  moreover have "num_loop 10 (dec n) 0 = of_nat n"
    using num_loop_dec [OF dec_digits, of n 0] by simp
  moreover have "ucast (of_nat n :: 32 word) = (of_nat n :: byte)"
    using that by (simp add: unsigned_of_nat take_bit_nat_eq_self)
  ultimately show ?thesis by (simp add: convert_num_def num_base_def Let_def)
qed

section \<open>Dotted quads\<close>

text \<open>One round of the aggregate loop in front of a number, with its separator unless it is the first.\<close>

definition sep_before :: "int \<Rightarrow> nat \<Rightarrow> int list" where
  "sep_before sep k = (if k = 0 then [] else [sep])"

lemma lexes_dec:
  assumes "n < 10 ^ 9" "zs = [] \<or> \<not> name_char (hd zs)" "list_all isspace ws"
  shows "lexes (ws @ dec n @ zs) NUMBER (dec n) zs"
proof -
  obtain d ds where d: "dec n = d # ds" "isdigit d" "list_all isdigit ds" by (rule dec_Cons)
  have "length (dec n) \<le> 9" using dec_length [OF assms(1)] by simp
  with d lexes_number [OF assms(3), of d ds zs] assms(2) show ?thesis by simp
qed

lemma agg_separator_ready:
  assumes "ready cf (sep_before sep (agg_count a) @ zs)" "punct_char sep" "sep \<noteq> 0"
  obtains cf1 where "agg_separator sep mx a cf = (None, cf1)" "ready cf1 zs" "ub cf1 = ub cf"
    "mallocs cf1 = mallocs cf"
proof (cases "agg_count a = 0")
  case True
  then show ?thesis using assms(1) that [of cf] by (simp add: agg_separator_def sep_before_def)
next
  case False
  then have "ready cf ([] @ sep # zs)" using assms(1) by (simp add: sep_before_def)
  moreover have "lexes ([] @ sep # zs) sep [sep] zs" using lexes_punct [of "[]" sep zs] assms(2,3) by simp
  ultimately obtain cf1 where p: "peek_token cf = (sep, cf1)" "peeked cf1 sep [sep] zs" "ub cf1 = ub cf"
      "mallocs cf1 = mallocs cf"
    using peek_lexes assms(3) by metis
  then obtain cf2 where "next_token cf1 = (sep, cf2)" "ready cf2 zs" "ub cf2 = ub cf" "mallocs cf2 = mallocs cf"
    using next_peeked by metis
  with p False show ?thesis using that [of cf2] by (simp add: agg_separator_def)
qed

lemma agg_loop_number:
  assumes "ready cf (sep_before sep (agg_count a) @ ws @ dec n @ zs)" "punct_char sep" "sep \<noteq> 0"
    "n < 10 ^ 9" "zs = [] \<or> \<not> name_char (hd zs)" "list_all isspace ws"
    "agg_s a = Some (int k)" "k < length (agg_buf a)"
  obtains cf' where "ready cf' zs" "ub cf' = ub cf" "mallocs cf' = mallocs cf"
    "agg_loop sep 10 8 mx a cf =
       (let a' = a\<lparr>agg_buf := (agg_buf a)[k := Some (of_nat n)], agg_s := Some (int (Suc k)),
                   agg_count := Suc (agg_count a)\<rparr>
        in if Suc (agg_count a) \<noteq> mx then agg_loop sep 10 8 mx a' cf' else (True, a', cf'))"
proof -
  obtain cf1 where s: "agg_separator sep mx a cf = (None, cf1)" "ready cf1 (ws @ dec n @ zs)" "ub cf1 = ub cf"
      "mallocs cf1 = mallocs cf"
    using agg_separator_ready [OF assms(1-3)] by auto
  then obtain cf2 where t: "next_token cf1 = (NUMBER, cf2)" "ready cf2 zs" "says cf2 (dec n)"
      "ub cf2 = ub cf" "mallocs cf2 = mallocs cf"
    using next_lexes [OF s(2) lexes_dec [OF assms(4-6)]] by metis
  have "store (agg_buf a) (int k) (convert_num (tval_text cf2) 10 8) cf2 =
      ((agg_buf a)[k := Some (of_nat n)], cf2)"
    using t(3) assms(4,8) convert_num_dec [of n]
    by (simp add: store_def says_def upd_conv_take_nth_drop)
  then have "agg_number 10 8 a cf2 =
      (True, a\<lparr>agg_buf := (agg_buf a)[k := Some (of_nat n)], agg_s := Some (int (Suc k))\<rparr>, cf2)"
    using assms(7) by (simp add: agg_number_def)
  with s t show ?thesis
    by (intro that [of cf2]) (simp_all add: agg_loop.simps [of sep 10 8 mx a cf] Let_def)
qed

text \<open>The text of an aggregate from its \<open>k\<close>-th number on, with white space before the first number.\<close>

fun agg_text :: "int list \<Rightarrow> int \<Rightarrow> nat \<Rightarrow> nat list \<Rightarrow> int list" where
  "agg_text ws sep k [] = []"
| "agg_text ws sep k (n # ns) = sep_before sep k @ (if k = 0 then ws else []) @ dec n @ agg_text ws sep (Suc k) ns"

lemma agg_text_Suc: "agg_text ws sep (Suc k) ns = agg_text [] sep (Suc k) ns"
  by (induction ns arbitrary: k) auto

lemma agg_text_space: "ns \<noteq> [] \<Longrightarrow> agg_text ws sep 0 ns = ws @ agg_text [] sep 0 ns"
  using agg_text_Suc [of ws] by (cases ns) (auto simp: sep_before_def)

lemma agg_loop_numbers:
  assumes "ready cf (agg_text ws sep (agg_count a) ns @ zs)" "punct_char sep" "sep \<noteq> 0" "\<not> name_char sep"
    "\<forall>n \<in> set ns. n < 10 ^ 9" "zs = [] \<or> \<not> name_char (hd zs)" "ns \<noteq> []"
    "agg_s a = Some (int (agg_count a))" "agg_count a + length ns \<le> length (agg_buf a)"
    "mx = agg_count a + length ns" "agg_c a = []" "list_all isspace ws"
  shows "\<exists>a' cf'. agg_loop sep 10 8 mx a cf = (True, a', cf') \<and> ready cf' zs \<and> ub cf' = ub cf \<and>
     mallocs cf' = mallocs cf \<and> agg_c a' = [] \<and>
     agg_buf a' = take (agg_count a) (agg_buf a) @ map (Some \<circ> of_nat) ns @ drop mx (agg_buf a)"
  using assms
proof (induction ns arbitrary: a cf)
  case (Cons n ns)
  let ?k = "agg_count a"
  let ?zs = "agg_text ws sep (Suc ?k) ns @ zs"
  let ?a = "a\<lparr>agg_buf := (agg_buf a)[?k := Some (of_nat n)], agg_s := Some (int (Suc ?k)), agg_count := Suc ?k\<rparr>"
  have zs: "?zs = [] \<or> \<not> name_char (hd ?zs)"
    using Cons.prems(4,6) by (cases ns) (auto simp: sep_before_def)
  let ?ws = "if ?k = 0 then ws else []"
  have p: "ready cf (sep_before sep ?k @ ?ws @ dec n @ ?zs)" "n < 10 ^ 9" "?k < length (agg_buf a)"
      "list_all isspace ?ws"
    using Cons.prems(1,5,9,12) by simp_all
  obtain cf1 where c: "ready cf1 ?zs" "ub cf1 = ub cf" "mallocs cf1 = mallocs cf"
      "agg_loop sep 10 8 mx a cf = (if Suc ?k \<noteq> mx then agg_loop sep 10 8 mx ?a cf1 else (True, ?a, cf1))"
    by (rule agg_loop_number [OF p(1) Cons.prems(2,3) p(2) zs p(4) Cons.prems(8) p(3), where mx = mx])
       (auto simp only: Let_def)
  have buf: "take (Suc ?k) ((agg_buf a)[?k := x]) = take ?k (agg_buf a) @ [x]"
      "drop mx ((agg_buf a)[?k := x]) = drop mx (agg_buf a)" for x
    using Cons.prems(9,10) by (simp_all add: take_Suc_conv_app_nth)
  show ?case
  proof (cases ns)
    case Nil
    with c Cons.prems(10,11) p(3) show ?thesis by (simp add: upd_conv_take_nth_drop)
  next
    case (Cons m ms)
    then have "ns \<noteq> []" "Suc ?k \<noteq> mx" using Cons.prems(10) by auto
    with Cons.IH [of cf1 ?a] c Cons.prems buf [of "Some (of_nat n)"] show ?thesis by simp
  qed
qed simp

definition dotted_quad :: "nat list \<Rightarrow> int list" where
  "dotted_quad ns = agg_text [] DOT 0 ns"

lemma parse_ip_addr_quad:
  assumes "ready cf (ws @ dotted_quad ns @ zs)" "list_all isspace ws" "length ns = 4"
    "\<forall>n \<in> set ns. n < 10 ^ 9" "zs = [] \<or> \<not> name_char (hd zs)" "length (iabuf addr) = 16"
  obtains cf' where "parse_ip_addr cf addr =
      (1, \<lparr>len = 4, iabuf = map of_nat ns @ drop 4 (iabuf addr)\<rparr>, cf')"
    "ready cf' zs" "ub cf' = ub cf" "mallocs cf' = mallocs cf"
proof -
  let ?a = "\<lparr>agg_s = Some 0, agg_buf = map Some (iabuf addr), agg_c = [], agg_count = 0\<rparr>"
  have dot: "punct_char DOT" "\<not> name_char DOT" by (auto simp: punct_char_def name_char_def ctype_simps)
  have ns: "ns \<noteq> []" using assms(3) by auto
  have r: "ready cf (agg_text ws DOT (agg_count ?a) ns @ zs)"
    using assms(1) agg_text_space [OF ns, of ws DOT] by (simp add: dotted_quad_def)
  have "\<exists>a' cf'. agg_loop DOT 10 8 4 ?a cf = (True, a', cf') \<and> ready cf' zs \<and> ub cf' = ub cf \<and>
      mallocs cf' = mallocs cf \<and> agg_c a' = [] \<and> agg_buf a' =
        take (agg_count ?a) (agg_buf ?a) @ map (Some \<circ> of_nat) ns @ drop 4 (agg_buf ?a)"
    by (rule agg_loop_numbers [OF r dot(1) _ dot(2) assms(4,5) ns]) (use assms in simp_all)
  then obtain a' cf' where c: "agg_loop DOT 10 8 4 ?a cf = (True, a', cf')" "ready cf' zs" "ub cf' = ub cf"
      "mallocs cf' = mallocs cf" "agg_c a' = []"
      "agg_buf a' = map (Some \<circ> of_nat) ns @ drop 4 (map Some (iabuf addr))"
    by auto
  moreover from this have "map the (agg_buf a') = map of_nat ns @ drop 4 (iabuf addr)"
    by (simp add: drop_map [symmetric])
  ultimately show ?thesis
    by (intro that [of cf']) (simp_all add: parse_ip_addr_def parse_numeric_aggregate_def Let_def)
qed

text \<open>An IP address read back: on the text of a dotted quad, possibly behind white space and followed by
  something that does not continue the last number, \<^verbatim>\<open>parse_ip_addr\<close> succeeds, the first four bytes of the
  address are the four numbers (modulo 256), the other bytes of \<^verbatim>\<open>iabuf\<close> are untouched, and the reader
  stands behind the quad.\<close>

theorem parse_ip_addr_dotted_quad:
  assumes "ready cf (ws @ dotted_quad ns @ zs)" and "list_all isspace ws" and "length ns = 4"
    and "\<forall>n \<in> set ns. n < 10 ^ 9" and "zs = [] \<or> \<not> name_char (hd zs)" and "length (iabuf addr) = 16"
  shows "\<exists>cf'. parse_ip_addr cf addr =
           (1, \<lparr>len = 4, iabuf = map of_nat ns @ drop 4 (iabuf addr)\<rparr>, cf') \<and> ready cf' zs \<and> ub cf' = ub cf"
  by (rule parse_ip_addr_quad [OF assms]) blast

theorem parse_ip_addr_dotted_quad_witness:
  "\<exists>cf'. parse_ip_addr (the (new_parse 3 None 0 [] 0 (map Some [dotted_quad [10, 0, 2, 15] @ [59]]) []))
       \<lparr>len = 0, iabuf = replicate 16 0\<rparr> =
     (1, \<lparr>len = 4, iabuf = [10, 0, 2, 15] @ replicate 12 0\<rparr>, cf') \<and> ready cf' [59]"
proof -
  have t: "dotted_quad [10, 0, 2, 15] = [49, 48, 46, 48, 46, 50, 46, 49, 53]"
    by (simp add: dotted_quad_def sep_before_def dec.simps)
  have "ready (the (new_parse 3 None 0 [] 0 (map Some [dotted_quad [10, 0, 2, 15] @ [59]]) []))
          ([] @ dotted_quad [10, 0, 2, 15] @ [59])"
    using new_parse_ready [of 3 "[]" "[dotted_quad [10, 0, 2, 15] @ [59]]" "[]"]
    by (simp add: new_parse_def malloc_def t)
  from parse_ip_addr_dotted_quad [OF this, of "\<lparr>len = 0, iabuf = replicate 16 0\<rparr>"] show ?thesis
    by (auto simp: name_char_def ctype_simps)
qed

section \<open>Calendar dates\<close>

text \<open>The reference: the number of days from the first of January 1970 to a date of the Gregorian calendar.\<close>

definition leap :: "nat \<Rightarrow> bool" where
  "leap y \<longleftrightarrow> y mod 4 = 0 \<and> (y mod 100 \<noteq> 0 \<or> y mod 400 = 0)"

definition month_lengths :: "nat \<Rightarrow> nat list" where
  "month_lengths y = [31, if leap y then 29 else 28, 31, 30, 31, 30, 31, 31, 30, 31, 30, 31]"

fun days_of_years :: "nat \<Rightarrow> nat" where
  "days_of_years 0 = 0"
| "days_of_years (Suc n) = days_of_years n + sum_list (month_lengths (1970 + n))"

definition epoch_days :: "nat \<Rightarrow> nat \<Rightarrow> nat \<Rightarrow> nat" where
  "epoch_days y m d = days_of_years (y - 1970) + sum_list (take (m - 1) (month_lengths y)) + (d - 1)"

lemma leap_until_2099: "1970 \<le> y \<Longrightarrow> y \<le> 2099 \<Longrightarrow> leap y \<longleftrightarrow> y mod 4 = 0"
proof -
  assume "1970 \<le> y" "y \<le> 2099"
  then have "y mod 100 = 0 \<longrightarrow> y = 2000" by presburger
  then show ?thesis by (auto simp: leap_def)
qed

lemma days_of_years_closed:
  "n \<le> 130 \<Longrightarrow> days_of_years n = 365 * n + (n + 1) div 4"
proof (induction n)
  case (Suc n)
  have "sum_list (month_lengths (1970 + n)) = (if (1970 + n) mod 4 = 0 then 366 else 365)"
    using Suc.prems leap_until_2099 [of "1970 + n"] by (simp add: month_lengths_def)
  moreover have "(if (1970 + n) mod 4 = 0 then 366 else 365) + (n + 1) div 4 = (365::nat) + (n + 2) div 4"
    by presburger
  ultimately show ?case using Suc by simp
qed simp

lemma month_cases: "1 \<le> m \<Longrightarrow> m \<le> (12::nat) \<Longrightarrow> m \<in> {1, 2, 3, 4, 5, 6, 7, 8, 9, 10, 11, 12}"
  by simp presburger

lemma month_terms:
  assumes "1 \<le> m" "m \<le> 12" "1970 \<le> y" "y \<le> 2099"
  shows "int (sum_list (take (m - 1) (month_lengths y))) =
      month_term (int m - 1) + leap_term (int m - 1) (int y - 1900)"
    and "0 \<le> month_term (int m - 1)" and "month_term (int m - 1) \<le> 334"
proof -
  have "(int y - 1900 - 72) mod 4 = 0 \<longleftrightarrow> y mod 4 = 0" by presburger
  with month_cases [OF assms(1,2)] show "int (sum_list (take (m - 1) (month_lengths y))) =
      month_term (int m - 1) + leap_term (int m - 1) (int y - 1900)"
    using leap_until_2099 [OF assms(3,4)]
    by (elim insertE) (simp_all add: month_lengths_def month_term_def leap_term_def months_def)
  from month_cases [OF assms(1,2)] show "0 \<le> month_term (int m - 1)" "month_term (int m - 1) \<le> 334"
    by (elim insertE; simp add: month_term_def months_def)+
qed

lemma date_guess_days:
  assumes "1970 \<le> y" "y \<le> 2037" "1 \<le> m" "m \<le> 12" "1 \<le> d" "d \<le> 31"
    "h < 24" "mi < 60" "s < 60" "\<bar>tz\<bar> \<le> 86400"
  shows "date_guess (int y - 1900) (int m - 1) (int d) (int h) (int mi) (int s) tz =
    (86400 * int (epoch_days y m d) + 3600 * int h + 60 * int mi + int s + tz, False)"
proof -
  define n where "n = y - 1970"
  define Q where "Q = (int n + 1) div 4"
  define L where "L = month_term (int m - 1)"
  define B where "B = leap_term (int m - 1) (int y - 1900)"
  have y: "int y - 1900 = int n + 70" "n \<le> 67" using assms(1,2) by (auto simp: n_def)
  have Q: "c_div (int n + 70 - 69) 4 = Q" "0 \<le> Q" "Q \<le> 17"
    using y(2) by (auto simp: c_div_def Q_def)
  have "int (days_of_years n) = 365 * int n + Q"
    using days_of_years_closed [of n] y(2) by (simp add: zdiv_int Q_def)
  then have E: "int (epoch_days y m d) = 365 * int n + Q + L + B + int d - 1"
    using month_terms(1) [OF assms(3,4,1)] assms(2,5) by (simp add: epoch_days_def n_def L_def B_def)
  have L: "0 \<le> L" "L \<le> 334" using month_terms(2,3) [OF assms(3,4,1)] assms(2) by (simp_all add: L_def)
  have B: "0 \<le> B" "B \<le> 1" by (simp_all add: B_def leap_term_def)
  have dg: "date_guess (int n + 70) (int m - 1) (int d) (int h) (int mi) (int s) tz =
     (let yd = 365 * int n + Q + L + B; dd = yd + int d - 1; hh = dd * 24 + int h; mm = hh * 60 + int mi;
          ss = mm * 60 + int s
      in (to_s32 (ss + tz), \<not> list_all in_s32
           [int n - 2, 365 * int n, 365 * int n + Q, 365 * int n + Q + L, yd, yd + int d, dd, dd * 24, hh,
            hh * 60, mm, mm * 60, ss, ss + tz]))"
    using assms(3,4) by (simp add: date_guess_def Let_def Q(1) [simplified] B_def L_def y(1))
  show ?thesis
    unfolding y(1) dg Let_def E
    using Q(2,3) L B y(2) assms(5-) by (simp add: in_s32_def to_s32_id)
qed

text \<open>A text that starts with given tokens in a row.\<close>

fun lexes_all :: "int list \<Rightarrow> int list \<Rightarrow> int list list \<Rightarrow> int list \<Rightarrow> bool" where
  "lexes_all xs (t # ts) (v # vs) zs \<longleftrightarrow> (\<exists>ys. lexes xs t v ys \<and> lexes_all ys ts vs zs)"
| "lexes_all xs [] [] zs \<longleftrightarrow> xs = zs"
| "lexes_all _ _ _ _ \<longleftrightarrow> False"

lemma lexes_all_append:
  "lexes_all xs ts vs ys \<Longrightarrow> lexes_all ys us ws zs \<Longrightarrow> lexes_all xs (ts @ us) (vs @ ws) zs"
  by (induction xs ts vs ys rule: lexes_all.induct) auto

lemma read_fields_lexes:
  assumes "ready cf xs" "lexes_all xs ts vs zs"
  shows "\<exists>cf'. read_fields ts cf = (Some vs, cf') \<and> ready cf' zs \<and> ub cf' = ub cf \<and> mallocs cf' = mallocs cf"
  using assms
proof (induction ts arbitrary: cf xs vs)
  case Nil
  then show ?case by (cases vs) auto
next
  case (Cons t ts)
  then obtain v vs' ys where v: "vs = v # vs'" "lexes xs t v ys" "lexes_all ys ts vs' zs"
    by (cases vs) auto
  then obtain cf1 where n: "next_token cf = (t, cf1)" "ready cf1 ys" "says cf1 v" "ub cf1 = ub cf"
      "mallocs cf1 = mallocs cf"
    using next_lexes [OF Cons.prems(1)] by metis
  with Cons.IH [OF n(2) v(3)] v(1) show ?case by (auto simp: says_def)
qed

lemma lexes_sep_dec:
  assumes "punct_char c" "c \<noteq> 0" "n < 10 ^ 9" "zs = [] \<or> \<not> name_char (hd zs)"
  shows "lexes_all (c # dec n @ zs) [c, NUMBER] [[c], dec n] zs"
  using lexes_punct [of "[]" c "dec n @ zs"] lexes_dec [OF assms(3,4), of "[]"] assms(1,2) by auto

text \<open>The text of a date in the lease file: day of the week, date, time of the day.\<close>

definition date_text :: "nat \<Rightarrow> nat \<Rightarrow> nat \<Rightarrow> nat \<Rightarrow> nat \<Rightarrow> nat \<Rightarrow> nat \<Rightarrow> int list" where
  "date_text w y m d h mi s = dec w @ 32 # dec y @ 47 # dec m @ 47 # dec d @ 32 # dec h @
     58 # dec mi @ 58 # dec s @ [59]"

lemma punct_chars:
  "punct_char 47" "punct_char 58" "punct_char 59" "punct_char 44" "punct_char 46" "punct_char 123" "punct_char 125"
  "\<not> name_char 32" "\<not> name_char 47" "\<not> name_char 58" "\<not> name_char 59"
  by (simp_all add: punct_char_def name_char_def ctype_simps)

lemma date_fields_lexes:
  assumes "y < 10 ^ 9" "m < 10 ^ 9" "d < 10 ^ 9" "h < 10 ^ 9" "mi < 10 ^ 9" "s < 10 ^ 9"
  shows "lexes_all (32 # dec y @ 47 # dec m @ 47 # dec d @ 32 # dec h @ 58 # dec mi @ 58 # dec s @ 59 # zs)
    date_fields [dec y, [47], dec m, [47], dec d, dec h, [58], dec mi, [58], dec s] (59 # zs)"
proof -
  let ?H = "32 # dec h @ 58 # dec mi @ 58 # dec s @ 59 # zs"
  have sp: "lexes_all (32 # dec n @ us) [NUMBER] [dec n] us"
    if "n < 10 ^ 9" "us = [] \<or> \<not> name_char (hd us)" for n us
    using lexes_dec [OF that, of "[32]"] by (auto simp: ctype_simps)
  note pc = lexes_sep_dec [OF punct_chars(1)] lexes_sep_dec [OF punct_chars(2)]
  have "lexes_all ?H ([NUMBER] @ [58, NUMBER] @ [58, NUMBER]) ([dec h] @ [[58], dec mi] @ [[58], dec s]) (59 # zs)"
    using assms by (intro lexes_all_append [OF sp] lexes_all_append [OF pc(2)] pc(2)) (simp_all add: punct_chars)
  moreover have "lexes_all (32 # dec y @ 47 # dec m @ 47 # dec d @ ?H)
      ([NUMBER] @ [47, NUMBER] @ [47, NUMBER]) ([dec y] @ [[47], dec m] @ [[47], dec d]) ?H"
    using assms by (intro lexes_all_append [OF sp] lexes_all_append [OF pc(1)] pc(1)) (simp_all add: punct_chars)
  ultimately show ?thesis
    using lexes_all_append unfolding date_fields_def by fastforce
qed

lemma parse_semi_peeked:
  assumes "peeked cf SEMI v zs"
  obtains cf' where "parse_semi cf = (1, cf')" "ready cf' zs" "ub cf' = ub cf" "mallocs cf' = mallocs cf"
  by (rule next_peeked [OF assms]) (use that in \<open>simp add: parse_semi_def\<close>)

lemma parse_date_text:
  assumes "ready cf (ws @ date_text w y m d h mi s @ zs)"
    "w < 10 ^ 9" "y < 10 ^ 9" "m < 10 ^ 9" "d < 10 ^ 9" "h < 10 ^ 9" "mi < 10 ^ 9" "s < 10 ^ 9" "list_all isspace ws"
  obtains cf' where "ready cf' zs" "ub cf' = ub cf" "mallocs cf' = mallocs cf"
    "parse_date cf =
       (let (g, bad) = date_value [dec y, [47], dec m, [47], dec d, dec h, [58], dec mi, [58], dec s] 0
        in (g, if bad then cf'\<lparr>ub := True\<rparr> else cf'))"
proof -
  let ?F = "32 # dec y @ 47 # dec m @ 47 # dec d @ 32 # dec h @ 58 # dec mi @ 58 # dec s @ 59 # zs"
  have "lexes (ws @ dec w @ ?F) NUMBER (dec w) ?F"
    by (rule lexes_dec) (use assms(2,9) in \<open>simp_all add: punct_chars\<close>)
  moreover have "ready cf (ws @ dec w @ ?F)" using assms(1) by (simp add: date_text_def)
  ultimately obtain cf1 where 1: "next_token cf = (NUMBER, cf1)" "ready cf1 ?F" "ub cf1 = ub cf"
      "mallocs cf1 = mallocs cf"
    using next_lexes by metis
  obtain cf2 where 2: "read_fields date_fields cf1 =
        (Some [dec y, [47], dec m, [47], dec d, dec h, [58], dec mi, [58], dec s], cf2)"
      "ready cf2 ([] @ 59 # zs)" "ub cf2 = ub cf" "mallocs cf2 = mallocs cf"
    using read_fields_lexes [OF 1(2) date_fields_lexes [OF assms(3-8)]] 1 by auto
  have "lexes ([] @ 59 # zs) 59 [59] zs" by (rule lexes_punct) (simp_all add: punct_chars)
  with 2 obtain cf3 where 3: "peek_token cf2 = (SEMI, cf3)" "peeked cf3 SEMI [59] zs" "ub cf3 = ub cf"
      "mallocs cf3 = mallocs cf"
    using peek_lexes [OF 2(2), of 59 "[59]" zs] by auto
  obtain cf4 where "parse_semi cf3 = (1, cf4)" "ready cf4 zs" "ub cf4 = ub cf" "mallocs cf4 = mallocs cf"
    using parse_semi_peeked [OF 3(2)] 3(3,4) by metis
  with 1(1) 2(1) 3(1) show ?thesis
    by (intro that [of cf4]) (simp_all add: parse_date_def Let_def)
qed

lemma parse_date_seconds:
  assumes "ready cf (ws @ date_text w y m d h mi s @ zs)" "list_all isspace ws" "w < 10 ^ 9"
    "1970 \<le> y" "y \<le> 2037" "1 \<le> m" "m \<le> 12" "1 \<le> d" "d \<le> 31" "h < 24" "mi < 60" "s < 60"
  obtains cf' where "parse_date cf = (86400 * int (epoch_days y m d) + 3600 * int h + 60 * int mi + int s, cf')"
    "ready cf' zs" "ub cf' = ub cf" "mallocs cf' = mallocs cf"
proof -
  obtain cf' where cf': "ready cf' zs" "ub cf' = ub cf" "mallocs cf' = mallocs cf" "parse_date cf =
       (let (g, bad) = date_value [dec y, [47], dec m, [47], dec d, dec h, [58], dec mi, [58], dec s] 0
        in (g, if bad then cf'\<lparr>ub := True\<rparr> else cf'))"
    by (rule parse_date_text [OF assms(1)]) (use assms in simp_all)
  have "date_value [dec y, [47], dec m, [47], dec d, dec h, [58], dec mi, [58], dec s] 0 =
      date_guess (int y - 1900) (int m - 1) (int d) (int h) (int mi) (int s) 0"
    using assms by (simp add: date_value_def atoi_dec)
  also have "\<dots> = (86400 * int (epoch_days y m d) + 3600 * int h + 60 * int mi + int s, False)"
    using date_guess_days [of y m d h mi s 0] assms by simp
  finally show ?thesis using cf' by (intro that [of cf']) simp_all
qed

text \<open>C22: Lease times are right. A date of the lease file between 1970 and 2037 is read as the number of
  seconds from the start of 1970 to that date of the Gregorian calendar, without overflow or any
  other undefined behaviour, and the reader then stands behind the semicolon.\<close>

theorem parse_date_calendar:
  assumes "ready cf (ws @ date_text w y m d h mi s @ zs)" and "list_all isspace ws" and "w < 10 ^ 9"
    and "1970 \<le> y" and "y \<le> 2037" and "1 \<le> m" and "m \<le> 12" and "1 \<le> d" and "d \<le> 31"
    and "h < 24" and "mi < 60" and "s < 60"
  shows "\<exists>cf'. parse_date cf =
           (86400 * int (epoch_days y m d) + 3600 * int h + 60 * int mi + int s, cf') \<and>
         ready cf' zs \<and> ub cf' = ub cf"
  by (rule parse_date_seconds [OF assms]) blast

theorem parse_date_calendar_witness:
  "\<exists>cf'. parse_date (the (new_parse 3 None 0 [] 0 (map Some [date_text 4 2008 2 29 12 0 1]) [])) =
       (1204286401, cf') \<and> ready cf' []"
proof -
  have t: "length (date_text 4 2008 2 29 12 0 1) \<le> 8192" "EOF \<notin> set (date_text 4 2008 2 29 12 0 1)"
      "date_text 4 2008 2 29 12 0 1 \<noteq> []"
    by (simp_all add: date_text_def dec.simps)
  have "ready (the (new_parse 3 None 0 [] 0 (map Some [date_text 4 2008 2 29 12 0 1]) []))
          ([] @ date_text 4 2008 2 29 12 0 1 @ [])"
    using new_parse_ready [of 3 "[]" "[date_text 4 2008 2 29 12 0 1]" "[]"] t
    by (simp add: new_parse_def malloc_def)
  from parse_date_calendar [OF this] show ?thesis
    by (auto simp: epoch_days_def days_of_years_closed month_lengths_def leap_def)
qed

section \<open>Recovery from errors\<close>

text \<open>The tokens that the recovery passes over when no brace is open.\<close>

definition passed_over :: "int \<Rightarrow> bool" where
  "passed_over t \<longleftrightarrow> t \<notin> {SEMI, LBRACE, RBRACE, EOL, END_OF_FILE, 0}"

lemma skip_one:
  assumes "ready cf xs" "lexes xs t v zs" "passed_over t"
  obtains cf' where "skip_to_rbrace cf 0 = skip_to_rbrace cf' 0" "ready cf' zs" "ub cf' = ub cf"
    "mallocs cf' = mallocs cf"
proof -
  obtain cf1 where 1: "peek_token cf = (t, cf1)" "peeked cf1 t v zs" "ub cf1 = ub cf" "mallocs cf1 = mallocs cf"
    using peek_lexes [OF assms(1,2)] assms(3) by (auto simp: passed_over_def)
  then obtain cf2 where "next_token cf1 = (t, cf2)" "ready cf2 zs" "ub cf2 = ub cf" "mallocs cf2 = mallocs cf"
    using next_peeked by metis
  with 1(1) assms(3) show ?thesis
    by (intro that [of cf2]) (simp_all add: skip_to_rbrace.simps [of cf] passed_over_def)
qed

lemma skip_to_semi_lexes:
  assumes "ready cf xs" and "lexes_all xs (ts @ [SEMI]) vs zs" and "list_all passed_over ts"
  shows "ready (skip_to_semi cf) zs \<and> ub (skip_to_semi cf) = ub cf"
  using assms
proof (induction ts arbitrary: cf xs vs)
  case Nil
  then obtain v where v: "lexes xs SEMI v zs" by (cases vs) (auto elim: lexes_all.elims)
  obtain cf1 where 1: "peek_token cf = (SEMI, cf1)" "peeked cf1 SEMI v zs" "ub cf1 = ub cf"
    by (rule peek_lexes [OF Nil.prems(1) v]) auto
  then obtain cf2 where "next_token cf1 = (SEMI, cf2)" "ready cf2 zs" "ub cf2 = ub cf"
    using next_peeked by metis
  with 1(1) show ?case by (simp add: skip_to_semi_def skip_to_rbrace.simps [of cf])
next
  case (Cons t ts)
  then obtain v vs' ys where v: "vs = v # vs'" "lexes xs t v ys" "lexes_all ys (ts @ [SEMI]) vs' zs"
    by (cases vs) auto
  have t: "passed_over t" "list_all passed_over ts" using Cons.prems(3) by simp_all
  obtain cf1 where "skip_to_semi cf = skip_to_semi cf1" "ready cf1 ys" "ub cf1 = ub cf"
    using skip_one [OF Cons.prems(1) v(2) t(1)] unfolding skip_to_semi_def by metis
  with Cons.IH [OF _ v(3) t(2)] show ?case by metis
qed

text \<open>Error recovery resynchronises. Whatever tokens other than braces stand before the next
  semicolon, \<^verbatim>\<open>skip_to_semi\<close> consumes them and that semicolon and nothing else.\<close>

theorem skip_to_semi_resync:
  assumes "ready cf xs" and "lexes_all xs (ts @ [SEMI]) vs zs" and "list_all passed_over ts"
  shows "ready (skip_to_semi cf) zs \<and> ub (skip_to_semi cf) = ub cf"
  using assms by (rule skip_to_semi_lexes)

theorem skip_to_semi_resync_witness:
  "ready (skip_to_semi (the (new_parse 3 None 0 [] 0 (map Some [dec 7 @ [44, 59, 125]]) []))) [125]"
proof -
  have t: "dec 7 = [55]" by (simp add: dec.simps)
  have "ready (the (new_parse 3 None 0 [] 0 (map Some [dec 7 @ [44, 59, 125]]) [])) (dec 7 @ [44, 59, 125])"
    using new_parse_ready [of 3 "[]" "[dec 7 @ [44, 59, 125]]" "[]"]
    by (simp add: new_parse_def malloc_def t)
  moreover have "lexes_all (dec 7 @ [44, 59, 125]) ([NUMBER, COMMA] @ [SEMI]) [dec 7, [44], [59]] [125]"
    using lexes_dec [of 7 "[44, 59, 125]" "[]"] lexes_punct [of "[]" 44 "[59, 125]"]
      lexes_punct [of "[]" 59 "[125]"]
    by (auto simp: punct_chars name_char_def ctype_simps)
  moreover have "list_all passed_over [NUMBER, COMMA]" by (simp add: passed_over_def)
  ultimately show ?thesis by (rule skip_to_semi_resync [THEN conjunct1])
qed

text \<open>Nested blocks are skipped wrongly. With two blocks open and the characters \<open>}}\<close> ahead, both right
  braces are consumed, but only one is counted: the code goes on as if one block were still open.\<close>

theorem skip_to_rbrace_loses_brace:
  assumes "ready cf (125 # 125 # zs)"
  shows "\<exists>cf'. skip_to_rbrace cf 2 = skip_to_rbrace cf' 1 \<and> ready cf' zs"
proof -
  have l: "lexes (125 # ys) RBRACE [125] ys" for ys using lexes_punct [of "[]" 125 ys] by (simp add: punct_chars)
  obtain cf1 where 1: "peek_token cf = (RBRACE, cf1)" "peeked cf1 RBRACE [125] (125 # zs)"
    by (rule peek_lexes [OF assms l]) auto
  obtain cf2 where 2: "next_token cf1 = (RBRACE, cf2)" "ready cf2 (125 # zs)"
    using next_peeked [OF 1(2)] by metis
  obtain cf3 where 3: "next_token cf2 = (RBRACE, cf3)" "ready cf3 zs"
    using next_lexes [OF 2(2) l] by metis
  from 1 2 3 show ?thesis by (auto simp: skip_to_rbrace.simps [of cf 2])
qed

theorem skip_to_rbrace_loses_brace_witness:
  "\<exists>cf'. skip_to_rbrace (the (new_parse 3 None 0 [] 0 (map Some [[125, 125, 59]]) [])) 2 =
     skip_to_rbrace cf' 1 \<and> ready cf' [59]"
  using new_parse_ready [of 3 "[]" "[[125, 125, 59]]" "[]"]
  by (intro skip_to_rbrace_loses_brace) (simp add: new_parse_def malloc_def)

end
