(* ===== verification/Lease_Client.thy ===== *)
theory Lease_Client
  imports Lease_Values "HOL-Library.Multiset"
begin

text \<open>
  The lease parser of base/cl_parse.c: the lease and client structures, \<^verbatim>\<open>parse_string\<close> and
  \<^verbatim>\<open>parse_string_list\<close>, the declarations of a lease, the lease statement with the installation of the
  lease in the client's lists, and \<^verbatim>\<open>read_client_lease\<close>.

  Pointers to structures the code owns are values: a list of leases is a list, the optional strings are
  options, the client pointer is an index into the interface's chain of client states. Fields that
  no code of the file touches are left out. \<^verbatim>\<open>parse_relation\<close> is the interface to the token reader: what
  it keeps, every parser keeps.
\<close>

section \<open>Leases\<close>

record option_state =
  refcnt :: int
  universe_count :: int
  site_universe :: int
  site_code_min :: int

record client_lease =
  expiry :: int
  renewal :: int
  rebind :: int
  address :: iaddr
  server_name :: "int list option"
  filename :: "int list option"
  medium :: "int list list"
  is_static :: int
  is_bootp :: int
  options :: "option_state option"

record client_state =
  cname :: "int list option"
  active :: "client_lease option"
  leases :: "client_lease list"
  alias_lease :: "client_lease option"

record interface_info =
  clients :: "client_state list"

text \<open>
  \<^verbatim>\<open>option_state_dereference\<close>: the return value, and the object after the call (\<open>None\<close> when the pointer was
  NULL). The pointer itself is NULL afterwards. The block that would free the object is disabled.
\<close>

definition option_state_dereference :: "option_state option \<Rightarrow> int \<times> option_state option" where
  "option_state_dereference ptr =
     (case ptr of
        None \<Rightarrow> (0, None)
      | Some st \<Rightarrow>
          (let st1 = st\<lparr>refcnt := refcnt st - 1\<rparr> in
           if 0 < refcnt st1 then (1, Some st1)
           else if refcnt st1 < 0 then (0, Some st1)
           else (1, Some st1)))"

text \<open>\<^verbatim>\<open>option_state_allocate\<close>: the return value, the new pointer, the allocation script.\<close>

definition option_state_allocate :: "bool list \<Rightarrow> int \<times> option_state option \<times> bool list" where
  "option_state_allocate ms =
     (let (ok, ms1) = malloc ms in
      if ok then (1, Some \<lparr>refcnt = 1, universe_count = 10, site_universe = 0, site_code_min = 0\<rparr>, ms1)
      else (0, None, ms1))"

definition free_client_lease :: "client_lease option \<Rightarrow> nat" where
  "free_client_lease lease = (if lease \<noteq> None then 1 else 0)"

text \<open>\<^verbatim>\<open>destroy_client_lease\<close>: how many blocks it frees, and the option state it leaves behind.\<close>

definition destroy_client_lease :: "client_lease \<Rightarrow> nat \<times> option_state option" where
  "destroy_client_lease lease =
     ((if server_name lease \<noteq> None then 1 else 0) + (if filename lease \<noteq> None then 1 else 0) +
        free_client_lease (Some lease),
      snd (option_state_dereference (options lease)))"

text \<open>The first \<open>n\<close> characters at \<open>tval\<close>; the static \<^verbatim>\<open>tb\<close> has a NUL behind its character.\<close>

definition tval_block :: "parse \<Rightarrow> nat \<Rightarrow> int list" where
  "tval_block cf n =
     (case tval cf of
        TvNull \<Rightarrow> []
      | TvTokbuf \<Rightarrow> map (tokbuf cf) [0..<n]
      | TvTb \<Rightarrow> take n [tb cf, 0])"

text \<open>
  \<^verbatim>\<open>parse_string\<close> with both result pointers given: the return value and, when it is 1, the copied
  block and the length. The block is the string with its NUL.
\<close>

definition parse_string :: "parse \<Rightarrow> int \<times> (int list \<times> int) option \<times> parse" where
  "parse_string cf =
     (let (tok, cf1) = next_token cf in
      if tok \<noteq> STRING then (0, None, skip_to_semi cf1)
      else
        (let (ok, ms) = malloc (mallocs cf1); cf2 = cf1\<lparr>mallocs := ms\<rparr> in
         if \<not> ok then (0, None, cf2)
         else
           (let s = tval_block cf2 (nat (tlen cf2) + 1); (r, cf3) = parse_semi cf2 in
            if r = 0 then (0, None, cf3) else (1, Some (s, tlen cf2), cf3))))"

definition make_client_state :: "bool list \<Rightarrow> client_state option \<times> bool list" where
  "make_client_state ms =
     (let (ok, ms1) = malloc ms in
      (if ok then Some \<lparr>cname = None, active = None, leases = [], alias_lease = None\<rparr> else None, ms1))"

text \<open>\<^verbatim>\<open>parse_string_list\<close>: new entries go to the end of the list.\<close>

function parse_string_list :: "parse \<Rightarrow> int list list \<Rightarrow> bool \<Rightarrow> int list list \<times> parse" where
  "parse_string_list cf lp multiple =
     (let (tok, cf1) = next_token cf in
      if tok \<noteq> STRING then (lp, skip_to_semi cf1)
      else
        (let (ok, ms) = malloc (mallocs cf1); cf2 = cf1\<lparr>mallocs := ms\<rparr> in
         if \<not> ok then (lp, cf2)
         else
           (let lp1 = lp @ [tval_text cf2]; (tok3, cf3) = next_token cf2 in
            if multiple \<and> tok3 = COMMA then parse_string_list cf3 lp1 multiple
            else (lp1, if tok3 \<noteq> SEMI then skip_to_semi cf3 else cf3))))"
  by pat_completeness auto
termination
proof (relation "measure (\<lambda>(cf, lp, b). tok_meas cf)", goal_cases)
  case (2 cf lp multiple x tok cf1 y ok ms cf2 lp1 z tok3 cf3)
  then have "next_token cf = (tok, cf1)" "next_token cf2 = (tok3, cf3)" "tok \<noteq> END_OF_FILE"
      "cf2 = cf1\<lparr>mallocs := ms\<rparr>" by auto
  moreover have "tok_meas (cf1\<lparr>mallocs := ms\<rparr>) = tok_meas cf1" by (simp add: tok_meas_def avail_def)
  ultimately show ?case using lex.nxt_less lex.nxt_le by fastforce
qed simp

declare parse_string_list.simps [simp del]

section \<open>Declarations\<close>

text \<open>Does a client state have this name?\<close>

definition has_name :: "int list \<Rightarrow> client_state \<Rightarrow> bool" where
  "has_name val c \<longleftrightarrow> cname c = Some val"

fun find_client :: "int list \<Rightarrow> client_state list \<Rightarrow> nat \<Rightarrow> nat option" where
  "find_client val [] i = None"
| "find_client val (c # cs) i = (if has_name val c then Some i else find_client val cs (Suc i))"

text \<open>The end of a declaration that is left by \<^verbatim>\<open>break\<close>.\<close>

definition end_declaration :: "parse \<Rightarrow> parse" where
  "end_declaration cf =
     (let (tok, cf1) = next_token cf in if tok \<noteq> SEMI then skip_to_semi cf1 else cf1)"

text \<open>
  \<^verbatim>\<open>parse_client_lease_declaration\<close>. The call that would set the interface is commented out in the
  code, so \<open>ipp\<close> is returned as it came; the client pointer is an index into the chain of the
  interface's client states.
\<close>

definition parse_client_lease_declaration ::
  "parse \<Rightarrow> client_lease \<Rightarrow> interface_info option \<Rightarrow> nat option \<Rightarrow> parse \<times> client_lease \<times> nat option" where
  "parse_client_lease_declaration cf lease ipp clientp =
     (let (tok, cf1) = next_token cf in
      if tok = KEY then
        (let (tok2, cf2) = next_token cf1 in
         if tok2 \<noteq> STRING \<and> \<not> is_identifier tok2
         then (end_declaration (skip_to_semi cf2), lease, clientp)
         else (end_declaration (snd (parse_semi cf2)), lease, clientp))
      else if tok = TOKEN_BOOTP then (end_declaration cf1, lease\<lparr>is_bootp := 1\<rparr>, clientp)
      else if tok = INTERFACE then
        (let (tok2, cf2) = next_token cf1 in
         if tok2 \<noteq> STRING then (end_declaration (skip_to_semi cf2), lease, clientp)
         else (end_declaration cf2, lease, clientp))
      else if tok = NAME then
        (let (tok2, cf2) = next_token cf1 in
         case ipp of
           None \<Rightarrow> (end_declaration cf2, lease, clientp)
         | Some ip \<Rightarrow> (end_declaration cf2, lease, find_client (tval_text cf2) (clients ip) 0))
      else if tok = FIXED_ADDR then
        (let (r, addr, cf2) = parse_ip_addr cf1 (address lease); lease1 = lease\<lparr>address := addr\<rparr> in
         if r = 0 then (cf2, lease1, clientp) else (end_declaration cf2, lease1, clientp))
      else if tok = MEDIUM then
        (let (l, cf2) = parse_string_list cf1 (medium lease) False in (cf2, lease\<lparr>medium := l\<rparr>, clientp))
      else if tok = FILENAME then
        (case parse_string cf1 of
           (_, None, cf2) \<Rightarrow> (cf2, lease, clientp)
         | (_, Some (s, _), cf2) \<Rightarrow> (cf2, lease\<lparr>filename := Some s\<rparr>, clientp))
      else if tok = SERVER_NAME then
        (case parse_string cf1 of
           (_, None, cf2) \<Rightarrow> (cf2, lease, clientp)
         | (_, Some (s, _), cf2) \<Rightarrow> (cf2, lease\<lparr>server_name := Some s\<rparr>, clientp))
      else if tok = RENEW then (let (t, cf2) = parse_date cf1 in (cf2, lease\<lparr>renewal := t\<rparr>, clientp))
      else if tok = REBIND then (let (t, cf2) = parse_date cf1 in (cf2, lease\<lparr>rebind := t\<rparr>, clientp))
      else if tok = EXPIRE then (let (t, cf2) = parse_date cf1 in (cf2, lease\<lparr>expiry := t\<rparr>, clientp))
      else if tok = OPTION then (cf1, lease, clientp)
      else (end_declaration (skip_to_semi cf1), lease, clientp))"

section \<open>What the parsers keep\<close>

text \<open>
  The parsers reach the input through \<open>next_token\<close> and \<open>peek_token\<close>, consume the allocation script
  and may set the \<open>ub\<close> flag; nothing else. A relation kept by these steps is kept by all of them.
\<close>

locale parse_relation =
  fixes R :: "parse \<Rightarrow> parse \<Rightarrow> bool"
  assumes R_refl: "R cf cf"
    and R_trans: "R x y \<Longrightarrow> R y z \<Longrightarrow> R x z"
    and R_next: "next_token cf = (t, cf') \<Longrightarrow> R cf cf'"
    and R_peek: "peek_token cf = (t, cf') \<Longrightarrow> R cf cf'"
    and R_mallocs: "R cf (cf\<lparr>mallocs := ms\<rparr>)"
    and R_ub: "R cf (cf\<lparr>ub := b\<rparr>)"
begin

lemma R_after_next: "next_token cf = (t, cf') \<Longrightarrow> R cf' x \<Longrightarrow> R cf x"
  by (rule R_trans [OF R_next])

lemma R_after_peek: "peek_token cf = (t, cf') \<Longrightarrow> R cf' x \<Longrightarrow> R cf x"
  by (rule R_trans [OF R_peek])

lemma R_snd_next: "R cf (snd (next_token cf))"
  by (cases "next_token cf") (simp add: R_next)

lemma R_skip_to_rbrace: "R cf (skip_to_rbrace cf n)"
proof (induction cf n rule: skip_to_rbrace.induct)
  case (1 cf n)
  obtain tok cf1 where p: "peek_token cf = (tok, cf1)" by (cases "peek_token cf")
  obtain t2 cf2 where n2: "next_token cf1 = (t2, cf2)" by (cases "next_token cf1")
  obtain t3 cf3 where n3: "next_token cf2 = (t3, cf3)" by (cases "next_token cf2")
  note r = R_after_peek [OF p] R_after_next [OF n2] R_after_next [OF n3]
  note IH = "1.IH" [OF p [symmetric] refl]
  have "R cf cf2" "R cf cf3" by (intro r R_refl)+
  moreover have "R cf (skip_to_rbrace cf3 (n - 1))"
    if "tok = RBRACE" "n \<noteq> 0" "n - 1 \<noteq> 0" "t3 \<noteq> END_OF_FILE"
    by (intro r IH(1) [OF that(1) n2 [symmetric] refl that(2,3) n3 [symmetric] refl that(4)])
  moreover have "R cf (skip_to_rbrace cf2 (if tok = LBRACE then n + 1 else n))"
    if "tok \<noteq> RBRACE" "\<not> (tok = SEMI \<and> n = 0)" "tok \<noteq> EOL" "t2 \<noteq> END_OF_FILE"
    by (intro r IH(2) [OF that(1-3) n2 [symmetric] refl that(4)])
  ultimately show ?case by (simp add: skip_to_rbrace.simps [of cf n] p n2 n3)
qed

lemma R_skip_to_semi: "R cf (skip_to_semi cf)"
  by (simp add: skip_to_semi_def R_skip_to_rbrace)

lemma R_skip_if: "R cf (if b then skip_to_semi cf else cf)"
  by (simp add: R_skip_to_semi R_refl)

lemma R_parse_semi: "parse_semi cf = (r, cf') \<Longrightarrow> R cf cf'"
  by (auto simp: parse_semi_def split: prod.splits if_splits
      intro: R_after_next R_skip_to_semi R_refl)

lemma R_end_declaration: "R cf (end_declaration cf)"
  by (auto simp: end_declaration_def split: prod.splits intro: R_after_next R_skip_to_semi R_next)

lemma R_agg_number: "agg_number base sz a cf = (ok, a', cf') \<Longrightarrow> R cf cf'"
  by (auto simp: agg_number_def store_def split: option.splits prod.splits if_splits
      intro: R_refl R_ub R_mallocs)

lemma R_agg_separator: "agg_separator sep mx a cf = (r, cf') \<Longrightarrow> R cf cf'"
  by (auto simp: agg_separator_def split: prod.splits if_splits
      intro: R_refl R_peek R_after_peek R_trans [OF R_peek R_next] R_trans [OF R_trans [OF R_peek R_next] R_skip_to_semi]
        R_skip_to_semi R_snd_next)

lemma R_agg_loop: "agg_loop sep base sz mx a cf = (ok, a', cf') \<Longrightarrow> R cf cf'"
proof (induction sep base sz mx a cf arbitrary: ok a' cf' rule: agg_loop.induct)
  case (1 sep base sz mx a cf)
  obtain sp cf1 where s: "agg_separator sep mx a cf = (sp, cf1)" by (cases "agg_separator sep mx a cf")
  obtain tok cf2 where n: "next_token cf1 = (tok, cf2)" by (cases "next_token cf1")
  obtain o1 a1 cf3 where g: "agg_number base sz a cf2 = (o1, a1, cf3)" by (cases "agg_number base sz a cf2")
  note r = R_trans [OF R_agg_separator [OF s]] R_after_next [OF n] R_trans [OF R_agg_number [OF g]]
  note unf = "1.prems" [unfolded agg_loop.simps [of sep base sz mx a cf] s n g Let_def prod.case]
  show ?case
  proof (cases sp)
    case (Some b)
    with unf R_agg_separator [OF s] show ?thesis by simp
  next
    case None
    have "R cf cf3" "R cf cf2" "R cf (skip_to_semi cf2)" by (intro r R_refl R_skip_to_semi)+
    moreover note "1.IH" [OF s [symmetric] refl None n [symmetric] refl _ _ g [symmetric] refl refl _ refl]
    ultimately show ?thesis
      using unf None R_trans [OF \<open>R cf cf3\<close>] by (auto split: if_splits)
  qed
qed

lemma R_agg_convert: "agg_convert base sz cs s b cf = (b', cf') \<Longrightarrow> R cf cf'"
proof (induction cs arbitrary: s b cf)
  case (Cons c cs)
  obtain b1 cf1 where s: "store b s (convert_num c base sz) cf = (b1, cf1)" by (cases "store b s (convert_num c base sz) cf")
  have "R cf cf1" using s by (auto simp: store_def R_ub R_refl split: if_splits)
  moreover have "R cf1 cf'" using Cons.IH Cons.prems s by simp
  ultimately show ?case by (rule R_trans)
qed (simp add: R_refl)

lemma R_parse_ip_addr: "parse_ip_addr cf addr = (r, addr', cf') \<Longrightarrow> R cf cf'"
  by (auto simp: parse_ip_addr_def parse_numeric_aggregate_def Let_def split: prod.splits if_splits
      intro: R_agg_loop R_trans [OF R_agg_loop R_mallocs] R_trans [OF R_trans [OF R_agg_loop R_mallocs] R_agg_convert])

lemma R_read_fields: "read_fields ts cf = (vs, cf') \<Longrightarrow> R cf cf'"
proof (induction ts arbitrary: cf vs cf')
  case (Cons t ts)
  obtain tok cf1 where n: "next_token cf = (tok, cf1)" by (cases "next_token cf")
  obtain vs1 cf2 where f: "read_fields ts cf1 = (vs1, cf2)" by (cases "read_fields ts cf1")
  from Cons.prems n f Cons.IH [OF f] show ?case
    by (auto split: if_splits option.splits intro!: R_after_next [OF n] intro: R_skip_to_semi R_refl)
qed (simp add: R_refl)

lemma R_parse_date: "parse_date cf = (t, cf') \<Longrightarrow> R cf cf'"
proof -
  assume d: "parse_date cf = (t, cf')"
  obtain tok cf1 where n: "next_token cf = (tok, cf1)" by (cases "next_token cf")
  obtain vs cf2 where f: "read_fields date_fields cf1 = (vs, cf2)" by (cases "read_fields date_fields cf1")
  obtain t3 cf3 where p: "peek_token cf2 = (t3, cf3)" by (cases "peek_token cf2")
  define cf4 where "cf4 = (if t3 = NUMBER then snd (next_token cf3) else cf3)"
  obtain ok cf5 where s: "parse_semi cf4 = (ok, cf5)" by (cases "parse_semi cf4")
  obtain o2 cf6 where s1: "parse_semi cf1 = (o2, cf6)" by (cases "parse_semi cf1")
  have r4: "R cf3 cf4" by (simp add: cf4_def R_snd_next R_refl)
  have r2: "R cf cf2" by (intro R_after_next [OF n] R_read_fields [OF f])
  have r5: "R cf cf5"
    by (intro R_trans [OF r2] R_after_peek [OF p] R_trans [OF r4] R_parse_semi [OF s])
  have "R cf cf6" "R cf cf1" "R cf (skip_to_semi cf1)" "R cf (cf5\<lparr>ub := True\<rparr>)"
    by (intro R_after_next [OF n] R_parse_semi [OF s1] R_skip_to_semi R_refl R_trans [OF r5] R_ub)+
  with d n f p s s1 r2 r5 show ?thesis
    by (auto simp: parse_date_def Let_def cf4_def split: if_splits option.splits prod.splits)
qed

lemma R_parse_string: "parse_string cf = (r, v, cf') \<Longrightarrow> R cf cf'"
  by (auto simp: parse_string_def Let_def split: prod.splits if_splits
      intro: R_after_next R_skip_to_semi R_mallocs R_trans [OF R_mallocs R_parse_semi])

lemma R_parse_string_list: "parse_string_list cf lp m = (l, cf') \<Longrightarrow> R cf cf'"
proof (induction cf lp m arbitrary: l cf' rule: parse_string_list.induct)
  case (1 cf lp m)
  obtain tok cf1 where n: "next_token cf = (tok, cf1)" by (cases "next_token cf")
  obtain ok ms where a: "malloc (mallocs cf1) = (ok, ms)" by (cases "malloc (mallocs cf1)")
  let ?cf2 = "cf1\<lparr>mallocs := ms\<rparr>"
  obtain t3 cf3 where n3: "next_token ?cf2 = (t3, cf3)" by (cases "next_token ?cf2")
  note r = R_after_next [OF n] R_trans [OF R_mallocs] R_after_next [OF n3]
  have "R cf cf3" "R cf ?cf2" "R cf (skip_to_semi cf1)" "R cf (skip_to_semi cf3)"
    by (intro R_after_next [OF n] R_trans [OF R_mallocs R_next [OF n3]] R_mallocs R_skip_to_semi
        R_trans [OF R_trans [OF R_mallocs R_next [OF n3]]])+
  moreover note "1.IH" [OF n [symmetric] refl _ a [symmetric] refl refl _ refl n3 [symmetric] refl]
  ultimately show ?case
    using "1.prems" n a n3 R_trans [OF \<open>R cf cf3\<close>]
    by (auto simp: parse_string_list.simps [of cf lp m] Let_def split: if_splits)
qed

end

context parse_relation
begin

lemma R_fst_if:
  "(b \<Longrightarrow> R a (fst x)) \<Longrightarrow> (\<not> b \<Longrightarrow> R a (fst y)) \<Longrightarrow> R a (fst (if b then x else y))"
  by simp

text \<open>A declaration reads a token first; what it does then keeps the relation.\<close>

lemma R_declaration:
  assumes "parse_client_lease_declaration cf lease ipp cp = (cf', lease', cp')" "next_token cf = (t, cf1)"
  shows "R cf1 cf'"
proof -
  obtain t2 cf2 where n2: "next_token cf1 = (t2, cf2)" by (cases "next_token cf1")
  obtain r3 cf3 where s: "parse_semi cf2 = (r3, cf3)" by (cases "parse_semi cf2")
  have e: "R cf1 x \<Longrightarrow> R cf1 (end_declaration x)" for x
    using R_end_declaration by (rule R_trans [rotated])
  have "R cf1 (skip_to_semi cf2)" using R_next [OF n2] R_skip_to_semi by (rule R_trans)
  note 1 = e [OF this] e [OF R_after_next [OF n2 R_parse_semi [OF s]]] e [OF R_next [OF n2]] e [OF R_refl]
    e [OF R_skip_to_semi]
  obtain a1 a2 cfa where a: "parse_ip_addr cf1 (address lease) = (a1, a2, cfa)"
    by (cases "parse_ip_addr cf1 (address lease)")
  obtain b1 cfb where b: "parse_string_list cf1 (medium lease) False = (b1, cfb)"
    by (cases "parse_string_list cf1 (medium lease) False")
  obtain c1 c2 cfc where c: "parse_string cf1 = (c1, c2, cfc)" by (cases "parse_string cf1")
  obtain d1 cfd where d: "parse_date cf1 = (d1, cfd)" by (cases "parse_date cf1")
  note 2 = R_parse_ip_addr [OF a] R_trans [OF R_parse_ip_addr [OF a] R_end_declaration]
    R_parse_string_list [OF b] R_parse_string [OF c] R_parse_date [OF d] R_refl [of cf1]
  have "R cf1 (fst (parse_client_lease_declaration cf lease ipp cp))"
    unfolding parse_client_lease_declaration_def assms(2) n2 Let_def prod.case s snd_conv a b c d
    by (intro R_fst_if) (simp_all add: 1 2 split: option.split prod.split)
  with assms(1) show ?thesis by simp
qed

end

lemma tok_meas_updates [simp]:
  "tok_meas (cf\<lparr>mallocs := ms\<rparr>) = tok_meas cf" "tok_meas (cf\<lparr>ub := b\<rparr>) = tok_meas cf"
  by (simp_all add: tok_meas_def avail_def)

text \<open>No parser gains input; and none changes what it reads from and how line ends count.\<close>

interpretation parse_meas: parse_relation "\<lambda>cf cf'. tok_meas cf' \<le> tok_meas cf"
  by unfold_locales (auto intro: lex.nxt_le lex.pk_le)

definition same_source :: "parse \<Rightarrow> parse \<Rightarrow> bool" where
  "same_source cf cf' \<longleftrightarrow> fd cf' = fd cf \<and> bufsiz cf' = bufsiz cf \<and> eol_token cf' = eol_token cf"

lemma same_source_next: "next_token cf = (t, cf') \<Longrightarrow> same_source cf cf'"
proof (cases "token cf = 0")
  case True
  assume "next_token cf = (t, cf')"
  with True obtain t1 cf1 where "get_token cf = (t1, cf1)" "cf' = cf1\<lparr>token_line := cur_line cf1\<rparr>"
    by (auto simp: next_token_def split: prod.splits)
  with get_token_ctl show ?thesis by (auto simp: same_source_def same_ctl_def)
next
  case False
  then show "next_token cf = (t, cf') \<Longrightarrow> same_source cf cf'"
    by (auto simp: next_token_def Let_def same_source_def)
qed

lemma same_source_peek: "peek_token cf = (t, cf') \<Longrightarrow> same_source cf cf'"
proof (cases "token cf = 0")
  case True
  assume p: "peek_token cf = (t, cf')"
  let ?cf0 = "cf\<lparr>tlpos := lexchar cf, tline := lexline cf\<rparr>"
  obtain t1 cf1 where "get_token ?cf0 = (t1, cf1)" by (cases "get_token ?cf0")
  with p True get_token_ctl [OF this] show ?thesis
    by (auto simp: peek_token_def Let_def same_source_def same_ctl_def)
next
  case False
  then show "peek_token cf = (t, cf') \<Longrightarrow> same_source cf cf'" by (auto simp: peek_token_def same_source_def)
qed

interpretation parse_source: parse_relation same_source
  by unfold_locales (auto intro: same_source_next same_source_peek, auto simp: same_source_def)

section \<open>Statements\<close>

text \<open>A fresh lease: all zero but \<^verbatim>\<open>is_static\<close> (one bit wide) and the options.\<close>

definition new_lease :: "int \<Rightarrow> option_state option \<Rightarrow> client_lease" where
  "new_lease st opts =
     \<lparr>expiry = 0, renewal = 0, rebind = 0, address = \<lparr>len = 0, iabuf = replicate 16 0\<rparr>, server_name = None,
      filename = None, medium = [], is_static = st mod 2, is_bootp = 0, options = opts\<rparr>"

text \<open>The loop over the declarations of a lease: \<open>True\<close> when it ends at the right brace, \<open>False\<close> at the end of the file.\<close>

function lease_declarations ::
  "parse \<Rightarrow> client_lease \<Rightarrow> interface_info option \<Rightarrow> nat option \<Rightarrow> bool \<times> parse \<times> client_lease \<times> nat option" where
  "lease_declarations cf lease ip client =
     (let (tok, cf1) = peek_token cf in
      if tok = END_OF_FILE then (False, cf1, lease, client)
      else if tok = RBRACE then (True, cf1, lease, client)
      else (let (cf2, lease2, client2) = parse_client_lease_declaration cf1 lease ip client
            in lease_declarations cf2 lease2 ip client2))"
  by pat_completeness auto
termination
proof (relation "measure (\<lambda>(cf, l, i, c). tok_meas cf)", goal_cases)
  case (2 cf lease ip client x tok cf1 y cf2 z lease2 client2)
  then have p: "peek_token cf = (tok, cf1)" "tok \<noteq> END_OF_FILE"
      "parse_client_lease_declaration cf1 lease ip client = (cf2, lease2, client2)" by auto
  obtain t cf3 where n: "next_token cf1 = (t, cf3)" by (cases "next_token cf1")
  from parse_meas.R_declaration [OF p(3) n] lex.pk_nxt_less [OF p(1,2) n] show ?case by simp
qed simp

declare lease_declarations.simps [simp del]

text \<open>What becomes of a lease statement; the leases destroyed on the way are listed.\<close>

datatype lease_out =
    NoBrace
  | NoMemory
  | Unterminated client_lease
  | Crashed
  | Destroyed client_lease
  | Installed interface_info "client_lease list"

definition same_address :: "client_lease \<Rightarrow> client_lease \<Rightarrow> bool" where
  "same_address a b \<longleftrightarrow> len (address a) = len (address b) \<and>
     take (len (address b)) (iabuf (address a)) = take (len (address b)) (iabuf (address b))"

text \<open>The scan of the lease list: the first lease with the address of the new one is unlinked and destroyed.\<close>

fun toss :: "client_lease \<Rightarrow> client_lease list \<Rightarrow> client_lease list \<times> client_lease list" where
  "toss lease [] = ([], [])"
| "toss lease (lp # rest) =
     (if same_address lp lease then (rest, [lp])
      else (let (rest', freed) = toss lease rest in (lp # rest', freed)))"

text \<open>The new lease in one client state: preloaded leases go to the list, others become the active lease.\<close>

definition enter_lease :: "int \<Rightarrow> int \<Rightarrow> client_lease \<Rightarrow> client_state \<Rightarrow> client_state \<times> client_lease list" where
  "enter_lease cur_time st lease client =
     (let (ls, freed) = toss lease (leases client); client1 = client\<lparr>leases := ls\<rparr> in
      if st \<noteq> 0 then (client1\<lparr>leases := lease # ls\<rparr>, freed)
      else
        (case active client1 of
           None \<Rightarrow> (client1\<lparr>active := Some lease\<rparr>, freed)
         | Some a \<Rightarrow>
             if expiry a < cur_time then (client1\<lparr>active := Some lease\<rparr>, freed @ [a])
             else if same_address a lease then (client1\<lparr>active := Some lease\<rparr>, freed @ [a])
             else (client1\<lparr>leases := a # ls, active := Some lease\<rparr>, freed)))"

text \<open>
  The part of \<^verbatim>\<open>parse_client_lease_statement\<close> behind the test for an interface. A failed allocation of
  the client state is followed by a store through the NULL pointer.
\<close>

definition install_lease ::
  "int \<Rightarrow> int \<Rightarrow> client_lease \<Rightarrow> interface_info \<Rightarrow> nat option \<Rightarrow> parse \<Rightarrow> lease_out \<times> parse" where
  "install_lease cur_time st lease ip client cf =
     (let (cs, cf1) =
        (if clients ip = []
         then (let (c, ms) = make_client_state (mallocs cf) in
               (case c of None \<Rightarrow> [] | Some c' \<Rightarrow> [c'], cf\<lparr>mallocs := ms\<rparr>))
         else (clients ip, cf));
          k = (case client of None \<Rightarrow> 0 | Some i \<Rightarrow> i)
      in if cs = [] then (Crashed, cf1\<lparr>ub := True\<rparr>)
         else if st = 2 then (Installed (ip\<lparr>clients := cs[0 := (cs ! 0)\<lparr>alias_lease := Some lease\<rparr>]\<rparr>) [], cf1)
         else (let (c, freed) = enter_lease cur_time st lease (cs ! k)
               in (Installed (ip\<lparr>clients := cs[k := c]\<rparr>) freed, cf1)))"

text \<open>\<^verbatim>\<open>parse_client_lease_statement\<close>; the interface pointer is NULL at the start.\<close>

definition parse_client_lease_statement :: "int \<Rightarrow> parse \<Rightarrow> int \<Rightarrow> lease_out \<times> parse" where
  "parse_client_lease_statement cur_time cf st =
     (let (tok, cf1) = next_token cf in
      if tok \<noteq> LBRACE then (NoBrace, skip_to_semi cf1)
      else
        (let (ok, ms) = malloc (mallocs cf1) in
         if \<not> ok then (NoMemory, cf1\<lparr>mallocs := ms\<rparr>)
         else
           (let (_, opts, ms2) = option_state_allocate ms;
                ip = None;
                (fin, cf2, lease, client) = lease_declarations (cf1\<lparr>mallocs := ms2\<rparr>) (new_lease st opts) ip None
            in if \<not> fin then (Unterminated lease, cf2)
               else
                 (let (_, cf3) = next_token cf2 in
                  case ip of
                    None \<Rightarrow> (Destroyed lease, cf3)
                  | Some i \<Rightarrow> install_lease cur_time st lease i client cf3))))"

section \<open>The lease file\<close>

context parse_relation
begin

lemma R_lease_declarations: "lease_declarations cf lease ip c = (b, cf', lease', c') \<Longrightarrow> R cf cf'"
proof (induction cf lease ip c arbitrary: b cf' lease' c' rule: lease_declarations.induct)
  case (1 cf lease ip c)
  obtain t cf1 where p: "peek_token cf = (t, cf1)" by (cases "peek_token cf")
  obtain cf2 l2 c2 where d: "parse_client_lease_declaration cf1 lease ip c = (cf2, l2, c2)"
    by (cases "parse_client_lease_declaration cf1 lease ip c")
  obtain t1 cf3 where n: "next_token cf1 = (t1, cf3)" by (cases "next_token cf1")
  have "R cf cf2" by (intro R_after_peek [OF p] R_after_next [OF n] R_declaration [OF d n])
  with "1.prems" "1.IH" [OF p [symmetric] refl _ _ d [symmetric] refl refl] p d R_peek [OF p] show ?case
    by (auto simp: lease_declarations.simps [of cf lease ip c] split: if_splits intro: R_trans)
qed

lemma R_install_lease: "install_lease t st lease ip c cf = (r, cf') \<Longrightarrow> R cf cf'"
  by (auto simp: install_lease_def Let_def split: prod.splits if_splits
      intro: R_refl R_ub R_mallocs R_trans [OF R_mallocs R_ub])

lemma R_statement:
  assumes "parse_client_lease_statement t cf st = (r, cf')"
  shows "R cf cf'"
proof -
  obtain tok cf1 where n: "next_token cf = (tok, cf1)" by (cases "next_token cf")
  obtain ok ms where a: "malloc (mallocs cf1) = (ok, ms)" by (cases "malloc (mallocs cf1)")
  obtain x opts ms2 where oa: "option_state_allocate ms = (x, opts, ms2)" by (cases "option_state_allocate ms")
  obtain fin cf2 lease c where d:
      "lease_declarations (cf1\<lparr>mallocs := ms2\<rparr>) (new_lease st opts) None None = (fin, cf2, lease, c)"
    by (cases "lease_declarations (cf1\<lparr>mallocs := ms2\<rparr>) (new_lease st opts) None None")
  obtain t3 cf3 where n3: "next_token cf2 = (t3, cf3)" by (cases "next_token cf2")
  have r2: "R cf cf2" by (intro R_after_next [OF n] R_trans [OF R_mallocs R_lease_declarations [OF d]])
  have "R cf cf3" using R_next [OF n3] by (rule R_trans [OF r2])
  moreover have "R cf (skip_to_semi cf1)" "R cf (cf1\<lparr>mallocs := ms\<rparr>)"
    by (intro R_after_next [OF n] R_skip_to_semi R_mallocs)+
  ultimately show ?thesis
    using assms n a oa d n3 r2 by (auto simp: parse_client_lease_statement_def Let_def split: if_splits)
qed

end

function read_leases :: "int \<Rightarrow> parse \<Rightarrow> lease_out list \<times> parse" where
  "read_leases cur_time cf =
     (let (tok, cf1) = next_token cf in
      if tok = END_OF_FILE then ([], cf1)
      else if tok \<noteq> LEASE then ([], skip_to_semi cf1)
      else
        (let (r, cf2) = parse_client_lease_statement cur_time cf1 0;
             (rs, cf3) = read_leases cur_time cf2
         in (r # rs, cf3)))"
  by pat_completeness auto
termination
proof (relation "measure (\<lambda>(t, cf). tok_meas cf)", goal_cases)
  case (2 t cf x tok cf1 y r cf2)
  then have "next_token cf = (tok, cf1)" "tok \<noteq> END_OF_FILE" "parse_client_lease_statement t cf1 0 = (r, cf2)"
    by auto
  then show ?case using lex.nxt_less parse_meas.R_statement by fastforce
qed simp

declare read_leases.simps [simp del]

text \<open>
  \<^verbatim>\<open>read_client_lease\<close>: \<open>file\<close> is what \<open>open\<close> returns. The result of \<^verbatim>\<open>new_parse\<close> is not tested, so a failed
  allocation is followed by a read through the NULL pointer (\<open>NullParse\<close>). Otherwise: the fate of each
  lease, the last state, and the number of blocks \<^verbatim>\<open>end_parse\<close> frees.
\<close>

datatype read_out =
    NotOpened
  | NullParse
  | ReadLeases "lease_out list" parse nat

definition read_client_lease :: "int \<Rightarrow> int \<Rightarrow> int list option list \<Rightarrow> bool list \<Rightarrow> read_out" where
  "read_client_lease cur_time file blocks ms =
     (if file < 0 then NotOpened
      else
        (case new_parse file None 0 ''/var/dhcp/dhclient.leases'' 0 blocks ms of
           None \<Rightarrow> NullParse
         | Some cf \<Rightarrow> (let (rs, cf1) = read_leases cur_time cf in ReadLeases rs cf1 (end_parse cf1))))"

section \<open>The set of leases\<close>

text \<open>What two leases are compared by.\<close>

definition addr_key :: "client_lease \<Rightarrow> nat \<times> byte list" where
  "addr_key l = (len (address l), take (len (address l)) (iabuf (address l)))"

lemma same_address_key: "same_address a b \<longleftrightarrow> addr_key a = addr_key b"
  by (auto simp: same_address_def addr_key_def)

text \<open>The leases a client state holds, and its invariant: no two of them have the same address.\<close>

definition held :: "client_state \<Rightarrow> client_lease list" where
  "held c = (case active c of None \<Rightarrow> [] | Some a \<Rightarrow> [a]) @ leases c"

definition client_ok :: "client_state \<Rightarrow> bool" where
  "client_ok c \<longleftrightarrow> distinct (map addr_key (held c))"

lemma toss_filter:
  assumes "distinct (map addr_key ls)"
  shows "toss lease ls = (filter (\<lambda>l. addr_key l \<noteq> addr_key lease) ls, filter (\<lambda>l. addr_key l = addr_key lease) ls)"
  using assms
proof (induction ls)
  case (Cons l ls)
  show ?case
  proof (cases "addr_key l = addr_key lease")
    case True
    moreover have "addr_key l \<notin> addr_key ` set ls" using Cons.prems by simp
    ultimately have "\<forall>x \<in> set ls. addr_key x \<noteq> addr_key lease" by (metis imageI)
    then have "filter (\<lambda>l. addr_key l \<noteq> addr_key lease) ls = ls"
        "filter (\<lambda>l. addr_key l = addr_key lease) ls = []"
      by (simp_all add: filter_id_conv filter_empty_conv)
    with True show ?thesis by (simp add: same_address_key)
  next
    case False
    with Cons show ?thesis by (simp add: same_address_key)
  qed
qed simp

lemma client_ok_leases: "client_ok c \<Longrightarrow> distinct (map addr_key (leases c))"
  by (simp add: client_ok_def held_def)

lemma distinct_map_filter_key: "distinct (map f xs) \<Longrightarrow> distinct (map f (filter P xs))"
  by (induction xs) auto

text \<open>Entering a lease keeps the invariant of the client state: however the file is ordered, the
  active lease and the recorded leases of a client have pairwise different addresses.\<close>

theorem enter_lease_client_ok:
  assumes "client_ok c" and "enter_lease now 0 lease c = (c', freed)"
  shows "client_ok c' \<and> active c' = Some lease"
proof -
  note t = toss_filter [OF client_ok_leases [OF assms(1)], of lease]
  have "distinct (map addr_key (filter (\<lambda>l. addr_key l \<noteq> addr_key lease) (leases c)))"
    by (rule distinct_map_filter_key [OF client_ok_leases [OF assms(1)]])
  with assms show ?thesis
    by (cases "active c") (auto simp: enter_lease_def t client_ok_def held_def same_address_key Let_def split: if_splits)
qed

theorem enter_lease_client_ok_witness:
  "client_ok (fst (enter_lease 100 0 (new_lease 0 None)
     \<lparr>cname = None, active = Some ((new_lease 0 None)\<lparr>expiry := 200\<rparr>), leases = [], alias_lease = None\<rparr>))"
proof -
  let ?c = "\<lparr>cname = None, active = Some ((new_lease 0 None)\<lparr>expiry := 200\<rparr>), leases = [], alias_lease = None\<rparr>"
  obtain c' freed where e: "enter_lease 100 0 (new_lease 0 None) ?c = (c', freed)"
    by (cases "enter_lease 100 0 (new_lease 0 None) ?c")
  have "client_ok ?c" by (simp add: client_ok_def held_def)
  from enter_lease_client_ok [OF this e] e show ?thesis by simp
qed

text \<open>C24: Entering a lease is an update of the set of leases by address: of the leases held before, those
  stay that have another address and are not the expired active lease; the new lease is added, and
  nothing else.\<close>

theorem enter_lease_refines_update:
  assumes "client_ok c" and "enter_lease now 0 lease c = (c', freed)"
  shows "set (held c') =
    insert lease {l \<in> set (held c). addr_key l \<noteq> addr_key lease \<and> \<not> (active c = Some l \<and> expiry l < now)}"
proof -
  note t = toss_filter [OF client_ok_leases [OF assms(1)], of lease]
  have "a \<notin> set (leases c)" if "active c = Some a" for a
    using assms(1) that by (force simp: client_ok_def held_def)
  with assms(2) show ?thesis
    by (cases "active c") (auto simp: enter_lease_def t held_def same_address_key Let_def split: if_splits)
qed

theorem enter_lease_refines_update_witness:
  "set (held (fst (enter_lease 100 0 (new_lease 0 None)
     \<lparr>cname = None, active = Some ((new_lease 0 None)\<lparr>expiry := 200\<rparr>), leases = [], alias_lease = None\<rparr>))) =
   {new_lease 0 None}"
proof -
  let ?c = "\<lparr>cname = None, active = Some ((new_lease 0 None)\<lparr>expiry := 200\<rparr>), leases = [], alias_lease = None\<rparr>"
  obtain c' freed where e: "enter_lease 100 0 (new_lease 0 None) ?c = (c', freed)"
    by (cases "enter_lease 100 0 (new_lease 0 None) ?c")
  have "client_ok ?c" by (simp add: client_ok_def held_def)
  moreover have "addr_key ((new_lease 0 None)\<lparr>expiry := 200\<rparr>) = addr_key (new_lease 0 None)"
    by (simp add: addr_key_def)
  then have "\<forall>l \<in> set (held ?c). addr_key l = addr_key (new_lease 0 None)" by (simp add: held_def)
  ultimately have "set (held c') = {new_lease 0 None}"
    using enter_lease_refines_update [OF _ e] by blast
  with e show ?thesis by simp
qed

lemma toss_mset: "toss lease ls = (ls', freed) \<Longrightarrow> mset ls' + mset freed = mset ls"
  by (induction ls arbitrary: ls' freed) (auto split: if_splits prod.splits)

lemma toss_freed: "toss lease ls = (ls', freed) \<Longrightarrow> l \<in> set freed \<Longrightarrow> addr_key l = addr_key lease"
  by (induction ls arbitrary: ls' freed) (auto simp: same_address_key split: if_splits prod.splits)

text \<open>C32: No lease is lost and none is freed twice: the leases held afterwards and those destroyed are,
  counted with multiplicity, the leases held before and the new one. Those destroyed have the address of the new one, or are the
  active lease when it has expired.\<close>

theorem enter_lease_conserves:
  assumes "enter_lease now st lease c = (c', freed)"
  shows "mset (held c') + mset freed = add_mset lease (mset (held c)) \<and>
    (\<forall>l \<in> set freed. addr_key l = addr_key lease \<or> (active c = Some l \<and> expiry l < now))"
proof -
  obtain ls fr where t: "toss lease (leases c) = (ls, fr)" by (cases "toss lease (leases c)")
  note f = toss_freed [OF t]
  have "mset (held c') + mset freed = add_mset lease (mset (held c))"
    using assms toss_mset [OF t] by (auto simp: enter_lease_def held_def Let_def t split: if_splits option.splits)
  moreover have "\<forall>l \<in> set freed. addr_key l = addr_key lease \<or> (active c = Some l \<and> expiry l < now)"
    using assms f by (auto simp: enter_lease_def Let_def t same_address_key split: if_splits option.splits)
  ultimately show ?thesis by blast
qed

definition host_lease :: "byte \<Rightarrow> int \<Rightarrow> client_lease" where
  "host_lease host e = (new_lease 0 None)\<lparr>expiry := e, address := \<lparr>len = 4, iabuf = [10, 0, 0, host] @ replicate 12 0\<rparr>\<rparr>"

text \<open>A client whose active lease has expired gets a lease for an address on its list: both old ones are destroyed.\<close>

theorem enter_lease_conserves_witness:
  "enter_lease 100 0 (host_lease 3 900) \<lparr>cname = None, active = Some (host_lease 1 50), leases = [host_lease 2 700, host_lease 3 800], alias_lease = None\<rparr> =
     (\<lparr>cname = None, active = Some (host_lease 3 900), leases = [host_lease 2 700], alias_lease = None\<rparr>, [host_lease 3 800, host_lease 1 50]) \<and>
   mset [host_lease 3 900, host_lease 2 700] + mset [host_lease 3 800, host_lease 1 50] =
     add_mset (host_lease 3 900) (mset [host_lease 1 50, host_lease 2 700, host_lease 3 800]) \<and>
   addr_key (host_lease 3 800) = addr_key (host_lease 3 900)"
proof -
  let ?c = "\<lparr>cname = None, active = Some (host_lease 1 50), leases = [host_lease 2 700, host_lease 3 800], alias_lease = None\<rparr>"
  have e: "enter_lease 100 0 (host_lease 3 900) ?c =
      (\<lparr>cname = None, active = Some (host_lease 3 900), leases = [host_lease 2 700], alias_lease = None\<rparr>, [host_lease 3 800, host_lease 1 50])"
    by (simp add: enter_lease_def same_address_def host_lease_def new_lease_def)
  have "expiry (host_lease 3 800) = 800" by (simp add: host_lease_def)
  with enter_lease_conserves [OF e] e show ?thesis by (auto simp: held_def)
qed

text \<open>No lease of the file ever reaches a client: since the call that records the interface is commented
  out, every statement ends without an installed lease, and a complete lease is destroyed.\<close>

theorem lease_statement_never_installs:
  "fst (parse_client_lease_statement now cf st) \<noteq> Installed ip freed"
  by (auto simp: parse_client_lease_statement_def Let_def split: prod.splits)

end
