(* ===== verification/Lease_File.thy ===== *)
theory Lease_File
  imports Lease_Client
begin

text \<open>
  Whole lease files: the text of declarations, leases and files as the client writes them, and the
  theorem that \<^verbatim>\<open>read_client_lease\<close> of base/cl_parse.c reads them back.
\<close>

section \<open>Lease files read back\<close>

text \<open>
  The declarations a client writes into its lease file, their text, and their meaning for the lease
  under construction.
\<close>

datatype date = Date nat nat nat nat nat nat nat

fun date_chars :: "date \<Rightarrow> int list" where
  "date_chars (Date w y m d h mi s) = date_text w y m d h mi s"

fun date_ok :: "date \<Rightarrow> bool" where
  "date_ok (Date w y m d h mi s) \<longleftrightarrow> w < 7 \<and> 1970 \<le> y \<and> y \<le> 2037 \<and> 1 \<le> m \<and> m \<le> 12 \<and> 1 \<le> d \<and> d \<le> 31 \<and>
     h < 24 \<and> mi < 60 \<and> s < 60"

fun seconds :: "date \<Rightarrow> int" where
  "seconds (Date w y m d h mi s) = 86400 * int (epoch_days y m d) + 3600 * int h + 60 * int mi + int s"

datatype decl =
    DInterface "int list"
  | DBootp
  | DFixed "nat list"
  | DMedium "int list"
  | DFilename "int list"
  | DServerName "int list"
  | DRenew date
  | DRebind date
  | DExpire date

definition string_ok :: "int list \<Rightarrow> bool" where
  "string_ok s \<longleftrightarrow> list_all (\<lambda>c. c \<noteq> 0 \<and> c \<noteq> EOF \<and> -128 \<le> c \<and> c < 128) s \<and> length s < TOKBUF_SIZE - 1"

fun decl_ok :: "decl \<Rightarrow> bool" where
  "decl_ok (DInterface s) = string_ok s"
| "decl_ok DBootp = True"
| "decl_ok (DFixed ns) \<longleftrightarrow> length ns = 4 \<and> list_all (\<lambda>n. n < 256) ns"
| "decl_ok (DMedium s) = string_ok s"
| "decl_ok (DFilename s) = string_ok s"
| "decl_ok (DServerName s) = string_ok s"
| "decl_ok (DRenew d) = date_ok d"
| "decl_ok (DRebind d) = date_ok d"
| "decl_ok (DExpire d) = date_ok d"

fun decl_word :: "decl \<Rightarrow> string" where
  "decl_word (DInterface s) = ''interface''"
| "decl_word DBootp = ''bootp''"
| "decl_word (DFixed ns) = ''fixed-address''"
| "decl_word (DMedium s) = ''medium''"
| "decl_word (DFilename s) = ''filename''"
| "decl_word (DServerName s) = ''server-name''"
| "decl_word (DRenew d) = ''renew''"
| "decl_word (DRebind d) = ''rebind''"
| "decl_word (DExpire d) = ''expire''"

fun decl_token :: "decl \<Rightarrow> int" where
  "decl_token (DInterface s) = INTERFACE"
| "decl_token DBootp = TOKEN_BOOTP"
| "decl_token (DFixed ns) = FIXED_ADDR"
| "decl_token (DMedium s) = MEDIUM"
| "decl_token (DFilename s) = FILENAME"
| "decl_token (DServerName s) = SERVER_NAME"
| "decl_token (DRenew d) = RENEW"
| "decl_token (DRebind d) = REBIND"
| "decl_token (DExpire d) = EXPIRE"

definition string_chars :: "int list \<Rightarrow> int list" where
  "string_chars s = 32 # 34 # quoted s @ [59]"

fun decl_rest :: "decl \<Rightarrow> int list" where
  "decl_rest (DInterface s) = string_chars s"
| "decl_rest DBootp = [59]"
| "decl_rest (DFixed ns) = 32 # dotted_quad ns @ [59]"
| "decl_rest (DMedium s) = string_chars s"
| "decl_rest (DFilename s) = string_chars s"
| "decl_rest (DServerName s) = string_chars s"
| "decl_rest (DRenew d) = 32 # date_chars d"
| "decl_rest (DRebind d) = 32 # date_chars d"
| "decl_rest (DExpire d) = 32 # date_chars d"

definition decl_text :: "decl \<Rightarrow> int list" where
  "decl_text d = [10, 32, 32] @ codes (decl_word d) @ decl_rest d"

fun apply_decl :: "decl \<Rightarrow> client_lease \<Rightarrow> client_lease" where
  "apply_decl (DInterface s) l = l"
| "apply_decl DBootp l = l\<lparr>is_bootp := 1\<rparr>"
| "apply_decl (DFixed ns) l = l\<lparr>address := \<lparr>len = 4, iabuf = map of_nat ns @ drop 4 (iabuf (address l))\<rparr>\<rparr>"
| "apply_decl (DMedium s) l = l\<lparr>medium := medium l @ [s]\<rparr>"
| "apply_decl (DFilename s) l = l\<lparr>filename := Some (s @ [0])\<rparr>"
| "apply_decl (DServerName s) l = l\<lparr>server_name := Some (s @ [0])\<rparr>"
| "apply_decl (DRenew d) l = l\<lparr>renewal := seconds d\<rparr>"
| "apply_decl (DRebind d) l = l\<lparr>rebind := seconds d\<rparr>"
| "apply_decl (DExpire d) l = l\<lparr>expiry := seconds d\<rparr>"

definition lease_text :: "decl list \<Rightarrow> int list" where
  "lease_text ds = codes ''lease'' @ [32, 123] @ concat (map decl_text ds) @ [10, 125, 10]"

definition lease_of :: "decl list \<Rightarrow> client_lease" where
  "lease_of ds = fold apply_decl ds
     (new_lease 0 (Some \<lparr>refcnt = 1, universe_count = 10, site_universe = 0, site_code_min = 0\<rparr>))"

subsection \<open>Words\<close>

lemma lexes_keyword:
  assumes "list_all isspace ws" "w = c # cs" "isalpha c" "list_all name_char cs" "length cs < 20"
    "zs = [] \<or> \<not> name_char (hd zs)"
    "intern w (if list_all isxdigit cs then NUMBER_OR_NAME else NAME) = t"
  shows "lexes (ws @ w @ zs) t w zs"
  using lexes_name [OF assms(1,3,4,6)] assms(2,5,7) by simp

lemma decl_word_token:
  "\<exists>c cs. codes (decl_word d) = c # cs \<and> isalpha c \<and> list_all name_char cs \<and> length cs < 20 \<and>
     intern (c # cs) (if list_all isxdigit cs then NUMBER_OR_NAME else NAME) = decl_token d"
  by (cases d) (simp_all add: intern_eval name_char_def)

lemma lexes_decl: "lexes (decl_text d @ zs) (decl_token d) (codes (decl_word d)) (decl_rest d @ zs)"
proof -
  obtain c cs where w: "codes (decl_word d) = c # cs" "isalpha c" "list_all name_char cs" "length cs < 20"
      "intern (c # cs) (if list_all isxdigit cs then NUMBER_OR_NAME else NAME) = decl_token d"
    using decl_word_token [of d] by blast
  have "decl_rest d @ zs = [] \<or> \<not> name_char (hd (decl_rest d @ zs))"
    by (cases d) (simp_all add: punct_chars string_chars_def)
  from lexes_keyword [OF _ w(1-4) this, of "[10, 32, 32]"] w show ?thesis
    by (simp add: decl_text_def ctype_simps)
qed

lemma decl_token_plain: "decl_token d \<noteq> 0" "decl_token d \<noteq> END_OF_FILE" "decl_token d \<noteq> RBRACE"
  by (cases d; simp)+

lemma lexes_lease:
  "list_all isspace ws \<Longrightarrow> lexes (ws @ codes ''lease'' @ 32 # zs) LEASE (codes ''lease'') (32 # zs)"
  using lexes_keyword [of ws "codes ''lease''" 108 "[101, 97, 115, 101]" "32 # zs" LEASE]
  by (simp add: intern_eval name_char_def)

subsection \<open>Declarations\<close>

lemma cstr_from_nth:
  "cstr_from a i n = xs \<Longrightarrow> i + length xs < n \<Longrightarrow>
   map a [i..<i + length xs + 1] = xs @ [0]"
proof (induction xs arbitrary: i)
  case Nil
  then show ?case by (subst (asm) cstr_from.simps) (auto split: if_splits)
next
  case (Cons x xs)
  from Cons.prems have "a i = x" "cstr_from a (Suc i) n = xs"
    by (subst (asm) cstr_from.simps; auto split: if_splits)+
  moreover have "[i..<i + length (x # xs) + 1] = i # [Suc i..<Suc i + length xs + 1]"
    by (subst upt_conv_Cons) simp_all
  ultimately show ?case using Cons.IH [of "Suc i"] Cons.prems(2) by (simp del: upt_Suc)
qed

lemma tval_block_says:
  assumes "says cf s" "length s < TOKBUF_SIZE - 1"
  shows "tval_block cf (nat (tlen cf) + 1) = s @ [0]"
proof (cases "tval cf")
  case TvTokbuf
  with assms show ?thesis
    using cstr_from_nth [of "tokbuf cf" 0 TOKBUF_SIZE s] by (simp add: says_def tval_text_def tval_block_def del: upt_Suc)
next
  case TvTb
  with assms show ?thesis by (auto simp: says_def tval_text_def tval_block_def split: if_splits)
qed (use assms in \<open>simp add: says_def\<close>)


text \<open>Reading a semicolon, and the string of a declaration.\<close>

lemma lexes_semi: "lexes (59 # zs) SEMI [59] zs"
  using lexes_punct [of "[]" 59 zs] by (simp add: punct_chars)

lemma end_declaration_ready:
  assumes "ready cf (59 # zs)"
  obtains cf' where "end_declaration cf = cf'" "ready cf' zs" "ub cf' = ub cf" "mallocs cf' = mallocs cf"
  by (rule next_lexes [OF assms lexes_semi]) (use that in \<open>simp add: end_declaration_def\<close>)

lemma parse_semi_ready:
  assumes "ready cf (59 # zs)"
  obtains cf' where "parse_semi cf = (1, cf')" "ready cf' zs" "ub cf' = ub cf" "mallocs cf' = mallocs cf"
  by (rule next_lexes [OF assms lexes_semi]) (use that in \<open>simp add: parse_semi_def\<close>)

lemma next_string:
  assumes "ready cf (string_chars s @ zs)" "string_ok s"
  obtains cf' where "next_token cf = (STRING, cf')" "ready cf' (59 # zs)" "says cf' s" "ub cf' = ub cf"
    "mallocs cf' = mallocs cf"
proof -
  have "lexes ([32] @ 34 # quoted s @ 59 # zs) STRING s (59 # zs)"
    by (rule lexes_string) (use assms(2) in \<open>auto simp: string_ok_def list_all_iff ctype_simps\<close>)
  moreover have "ready cf ([32] @ 34 # quoted s @ 59 # zs)" using assms(1) by (simp add: string_chars_def)
  ultimately show ?thesis using next_lexes that by metis
qed

lemma ready_mallocs [simp]: "ready (cf\<lparr>mallocs := ms\<rparr>) xs = ready cf xs"
  by (simp add: ready_def inp_ok_def stream_def)

lemma says_mallocs [simp]: "says (cf\<lparr>mallocs := ms\<rparr>) s = says cf s"
  by (rule says_cong) simp_all

lemma malloc_Nil [simp]: "malloc [] = (True, [])"
  by (simp add: malloc_def)

lemma mallocs_Nil_update [simp]: "mallocs cf = [] \<Longrightarrow> cf\<lparr>mallocs := []\<rparr> = cf"
  by simp

lemma parse_string_ready:
  assumes "ready cf (string_chars s @ zs)" "string_ok s" "mallocs cf = []"
  obtains cf' where "parse_string cf = (1, Some (s @ [0], int (length s)), cf')" "ready cf' zs" "ub cf' = ub cf"
    "mallocs cf' = []"
proof -
  obtain cf1 where n: "next_token cf = (STRING, cf1)" "ready cf1 (59 # zs)" "says cf1 s" "ub cf1 = ub cf"
      "mallocs cf1 = []"
    using next_string [OF assms(1,2)] assms(3) by metis
  then obtain cf2 where "parse_semi cf1 = (1, cf2)" "ready cf2 zs" "ub cf2 = ub cf" "mallocs cf2 = []"
    using parse_semi_ready by metis
  moreover have "tval_block cf1 (nat (tlen cf1) + 1) = s @ [0]"
    using tval_block_says [OF n(3)] assms(2) by (simp add: string_ok_def)
  ultimately show ?thesis
    using n by (intro that [of cf2]) (simp_all add: parse_string_def Let_def says_def)
qed

lemma parse_string_list_ready:
  assumes "ready cf (string_chars s @ zs)" "string_ok s" "mallocs cf = []"
  obtains cf' where "parse_string_list cf lp False = (lp @ [s], cf')" "ready cf' zs" "ub cf' = ub cf"
    "mallocs cf' = []"
proof -
  obtain cf1 where n: "next_token cf = (STRING, cf1)" "ready cf1 (59 # zs)" "says cf1 s" "ub cf1 = ub cf"
      "mallocs cf1 = []"
    using next_string [OF assms(1,2)] assms(3) by metis
  then obtain cf2 where "next_token cf1 = (SEMI, cf2)" "ready cf2 zs" "ub cf2 = ub cf" "mallocs cf2 = []"
    using next_lexes [OF n(2) lexes_semi] by metis
  with n show ?thesis
    by (intro that [of cf2]) (simp_all add: parse_string_list.simps [of cf] Let_def says_def)
qed

lemma parse_date_ready:
  assumes "ready cf (32 # date_chars d @ zs)" "date_ok d" "mallocs cf = []"
  obtains cf' where "parse_date cf = (seconds d, cf')" "ready cf' zs" "ub cf' = ub cf" "mallocs cf' = []"
proof (cases d)
  case (Date w y m dd h mi s)
  have "ready cf ([32] @ date_text w y m dd h mi s @ zs)" using assms(1) Date by simp
  from parse_date_seconds [OF this] obtain cf' where
    "parse_date cf = (86400 * int (epoch_days y m dd) + 3600 * int h + 60 * int mi + int s, cf')"
    "ready cf' zs" "ub cf' = ub cf" "mallocs cf' = []"
    using assms(2,3) Date by (auto simp: ctype_simps)
  then show ?thesis using that Date by simp
qed

lemma parse_fixed_ready:
  assumes "ready cf (32 # dotted_quad ns @ 59 # zs)" "length ns = 4" "list_all (\<lambda>n. n < 256) ns"
    "length (iabuf addr) = 16" "mallocs cf = []"
  obtains cf' where "parse_ip_addr cf addr = (1, \<lparr>len = 4, iabuf = map of_nat ns @ drop 4 (iabuf addr)\<rparr>, cf')"
    "ready cf' (59 # zs)" "ub cf' = ub cf" "mallocs cf' = []"
proof -
  have "ready cf ([32] @ dotted_quad ns @ 59 # zs)" using assms(1) by simp
  moreover have "list_all isspace [32]" "\<forall>n \<in> set ns. n < 10 ^ 9" "59 # zs = [] \<or> \<not> name_char (hd (59 # zs))"
    using assms(3) by (auto simp: ctype_simps list_all_iff punct_chars)
  ultimately show ?thesis
    using parse_ip_addr_quad [OF _ _ assms(2) _ _ assms(4)] that assms(5) by metis
qed

text \<open>One declaration: from behind its keyword to behind its semicolon.\<close>

lemma declaration_ready:
  assumes "next_token cf = (decl_token d, cf1)" "ready cf1 (decl_rest d @ zs)" "decl_ok d" "mallocs cf1 = []"
    "length (iabuf (address l)) = 16"
  shows "\<exists>cf'. parse_client_lease_declaration cf l ip c = (cf', apply_decl d l, c) \<and> ready cf' zs \<and>
    ub cf' = ub cf1 \<and> mallocs cf' = []"
proof (cases d)
  case (DInterface s)
  then obtain cf2 where 2: "next_token cf1 = (STRING, cf2)" "ready cf2 (59 # zs)" "ub cf2 = ub cf1" "mallocs cf2 = []"
    using next_string [of cf1 s zs] assms by auto
  obtain cf3 where "end_declaration cf2 = cf3" "ready cf3 zs" "ub cf3 = ub cf1" "mallocs cf3 = []"
    using end_declaration_ready [OF 2(2)] 2(3,4) by metis
  with 2 assms(1) DInterface show ?thesis by (simp add: parse_client_lease_declaration_def)
next
  case DBootp
  then obtain cf3 where "end_declaration cf1 = cf3" "ready cf3 zs" "ub cf3 = ub cf1" "mallocs cf3 = []"
    using end_declaration_ready [of cf1 zs] assms by auto
  with assms(1) DBootp show ?thesis by (simp add: parse_client_lease_declaration_def)
next
  case (DFixed ns)
  then obtain cf2 where 2: "parse_ip_addr cf1 (address l) =
      (1, \<lparr>len = 4, iabuf = map of_nat ns @ drop 4 (iabuf (address l))\<rparr>, cf2)"
      "ready cf2 (59 # zs)" "ub cf2 = ub cf1" "mallocs cf2 = []"
    using parse_fixed_ready [of cf1 ns zs "address l"] assms by auto
  obtain cf3 where "end_declaration cf2 = cf3" "ready cf3 zs" "ub cf3 = ub cf1" "mallocs cf3 = []"
    using end_declaration_ready [OF 2(2)] 2(3,4) by metis
  with 2 assms(1) DFixed show ?thesis by (simp add: parse_client_lease_declaration_def)
next
  case (DMedium s)
  then obtain cf2 where "parse_string_list cf1 (medium l) False = (medium l @ [s], cf2)" "ready cf2 zs"
      "ub cf2 = ub cf1" "mallocs cf2 = []"
    using parse_string_list_ready [of cf1 s zs] assms by auto
  with assms(1) DMedium show ?thesis by (simp add: parse_client_lease_declaration_def)
next
  case (DFilename s)
  then obtain cf2 where "parse_string cf1 = (1, Some (s @ [0], int (length s)), cf2)" "ready cf2 zs"
      "ub cf2 = ub cf1" "mallocs cf2 = []"
    using parse_string_ready [of cf1 s zs] assms by auto
  with assms(1) DFilename show ?thesis by (simp add: parse_client_lease_declaration_def)
next
  case (DServerName s)
  then obtain cf2 where "parse_string cf1 = (1, Some (s @ [0], int (length s)), cf2)" "ready cf2 zs"
      "ub cf2 = ub cf1" "mallocs cf2 = []"
    using parse_string_ready [of cf1 s zs] assms by auto
  with assms(1) DServerName show ?thesis by (simp add: parse_client_lease_declaration_def)
next
  case (DRenew t)
  then obtain cf2 where "parse_date cf1 = (seconds t, cf2)" "ready cf2 zs" "ub cf2 = ub cf1" "mallocs cf2 = []"
    using parse_date_ready [of cf1 t zs] assms by auto
  with assms(1) DRenew show ?thesis by (simp add: parse_client_lease_declaration_def)
next
  case (DRebind t)
  then obtain cf2 where "parse_date cf1 = (seconds t, cf2)" "ready cf2 zs" "ub cf2 = ub cf1" "mallocs cf2 = []"
    using parse_date_ready [of cf1 t zs] assms by auto
  with assms(1) DRebind show ?thesis by (simp add: parse_client_lease_declaration_def)
next
  case (DExpire t)
  then obtain cf2 where "parse_date cf1 = (seconds t, cf2)" "ready cf2 zs" "ub cf2 = ub cf1" "mallocs cf2 = []"
    using parse_date_ready [of cf1 t zs] assms by auto
  with assms(1) DExpire show ?thesis by (simp add: parse_client_lease_declaration_def)
qed

subsection \<open>Statements and files\<close>

lemma apply_decl_iabuf:
  "decl_ok d \<Longrightarrow> length (iabuf (address l)) = 16 \<Longrightarrow> length (iabuf (address (apply_decl d l))) = 16"
  by (cases d) auto

lemma lexes_rbrace: "lexes (10 # 125 # zs) RBRACE [125] zs"
  using lexes_punct [of "[10]" 125 zs] by (simp add: punct_chars ctype_simps)

lemma lease_declarations_ready:
  assumes "ready cf (concat (map decl_text ds) @ 10 # 125 # zs)" "list_all decl_ok ds" "mallocs cf = []"
    "length (iabuf (address l)) = 16"
  shows "\<exists>cf'. lease_declarations cf l ip c = (True, cf', fold apply_decl ds l, c) \<and>
    peeked cf' RBRACE [125] zs \<and> ub cf' = ub cf \<and> mallocs cf' = []"
  using assms
proof (induction ds arbitrary: cf l)
  case Nil
  then have r: "ready cf (10 # 125 # zs)" by simp
  obtain cf1 where "peek_token cf = (RBRACE, cf1)" "peeked cf1 RBRACE [125] zs" "ub cf1 = ub cf"
      "mallocs cf1 = []"
    by (rule peek_lexes [OF r lexes_rbrace]) (use Nil.prems(3) in auto)
  then show ?case by (simp add: lease_declarations.simps [of cf])
next
  case (Cons d ds)
  let ?zs = "concat (map decl_text ds) @ 10 # 125 # zs"
  have "ready cf (decl_text d @ ?zs)" using Cons.prems(1) by simp
  then obtain cf1 where 1: "peek_token cf = (decl_token d, cf1)" "peeked cf1 (decl_token d) (codes (decl_word d)) (decl_rest d @ ?zs)"
      "ub cf1 = ub cf" "mallocs cf1 = mallocs cf"
    using peek_lexes [OF _ lexes_decl decl_token_plain(1)] by metis
  obtain cf2 where 2: "next_token cf1 = (decl_token d, cf2)" "ready cf2 (decl_rest d @ ?zs)" "ub cf2 = ub cf"
      "mallocs cf2 = []"
    using next_peeked [OF 1(2)] 1(3,4) Cons.prems(3) by metis
  obtain cf3 where 3: "parse_client_lease_declaration cf1 l ip c = (cf3, apply_decl d l, c)" "ready cf3 ?zs"
      "ub cf3 = ub cf" "mallocs cf3 = []"
    using declaration_ready [OF 2(1,2) _ 2(4) Cons.prems(4)] 2(3) Cons.prems(2) by fastforce
  have "list_all decl_ok ds" "length (iabuf (address (apply_decl d l))) = 16"
    using Cons.prems(2,4) apply_decl_iabuf by auto
  with Cons.IH [OF 3(2) _ 3(4)] 1(1) 3(1,3) show ?case
    by (simp add: lease_declarations.simps [of cf] decl_token_plain)
qed

lemma lexes_lbrace: "lexes (32 # 123 # zs) LBRACE [123] zs"
  using lexes_punct [of "[32]" 123 zs] by (simp add: punct_chars ctype_simps)

lemma statement_ready:
  assumes "ready cf (32 # 123 # concat (map decl_text ds) @ 10 # 125 # zs)" "list_all decl_ok ds" "mallocs cf = []"
  shows "\<exists>cf'. parse_client_lease_statement now cf 0 = (Destroyed (lease_of ds), cf') \<and> ready cf' zs \<and>
    ub cf' = ub cf \<and> mallocs cf' = []"
proof -
  let ?o = "\<lparr>refcnt = 1, universe_count = 10, site_universe = 0, site_code_min = 0\<rparr>"
  obtain cf1 where 1: "next_token cf = (LBRACE, cf1)" "ready cf1 (concat (map decl_text ds) @ 10 # 125 # zs)"
      "ub cf1 = ub cf" "mallocs cf1 = []"
    using next_lexes [OF assms(1) lexes_lbrace] assms(3) by metis
  have "length (iabuf (address (new_lease 0 (Some ?o)))) = 16" by (simp add: new_lease_def)
  then obtain cf2 where 2: "lease_declarations cf1 (new_lease 0 (Some ?o)) None None =
        (True, cf2, lease_of ds, None)" "peeked cf2 RBRACE [125] zs" "ub cf2 = ub cf" "mallocs cf2 = []"
    using lease_declarations_ready [OF 1(2) assms(2) 1(4)] 1(3) unfolding lease_of_def by metis
  obtain cf3 where "next_token cf2 = (RBRACE, cf3)" "ready cf3 zs" "ub cf3 = ub cf" "mallocs cf3 = []"
    using next_peeked [OF 2(2)] 2(3,4) by metis
  with 1 2(1) show ?thesis by (simp add: parse_client_lease_statement_def option_state_allocate_def)
qed

lemma next_token_eof:
  assumes "ready cf ws" "list_all isspace ws"
  obtains cf' where "next_token cf = (END_OF_FILE, cf')" "ub cf' = ub cf" "bufsiz cf' = bufsiz cf"
proof -
  obtain cf1 where s: "get_token cf = get_token cf1" "reads cf [] cf1"
    using get_token_spaces [of cf ws "[]"] assms by (auto simp: ready_def)
  then have "inp_ok cf1" "stream cf1 = []" by (auto simp: reads_def)
  then obtain cf2 where g: "get_char cf1 = (EOF, cf2)" "reads cf1 [] cf2"
    using get_char_reads_eof by metis
  have "get_token cf1 = (END_OF_FILE, cf2\<lparr>tlen := 0\<rparr>)"
    using g(1) by (simp add: get_token.simps [of cf1] ctype_simps)
  with s(1) assms(1) have "next_token cf = (END_OF_FILE, cf2\<lparr>tlen := 0, token_line := cur_line cf2\<rparr>)"
    by (simp add: next_token_def ready_def)
  then show ?thesis using that reads_trans [OF s(2) g(2)] by (auto simp: reads_def same_ctl_def)
qed

lemma read_leases_ready:
  assumes "ready cf (ws @ concat (map lease_text dss))" "list_all isspace ws" "list_all (list_all decl_ok) dss"
    "mallocs cf = []"
  shows "\<exists>cf'. read_leases now cf = (map (\<lambda>ds. Destroyed (lease_of ds)) dss, cf') \<and> ub cf' = ub cf"
  using assms
proof (induction dss arbitrary: cf ws)
  case Nil
  then obtain cf' where "next_token cf = (END_OF_FILE, cf')" "ub cf' = ub cf"
    using next_token_eof [of cf ws] by auto
  then show ?case by (simp add: read_leases.simps [of now cf])
next
  case (Cons ds dss)
  let ?zs = "10 # concat (map lease_text dss)"
  let ?S = "123 # concat (map decl_text ds) @ 10 # 125 # ?zs"
  have "ready cf (ws @ codes ''lease'' @ 32 # ?S)" using Cons.prems(1) by (simp add: lease_text_def [of ds])
  then obtain cf1 where 1: "next_token cf = (LEASE, cf1)" "ready cf1 (32 # ?S)" "ub cf1 = ub cf"
      "mallocs cf1 = []"
    using next_lexes [OF _ lexes_lease [OF Cons.prems(2)]] Cons.prems(4) by metis
  obtain cf2 where 2: "parse_client_lease_statement now cf1 0 = (Destroyed (lease_of ds), cf2)"
      "ready cf2 ([10] @ concat (map lease_text dss))" "ub cf2 = ub cf" "mallocs cf2 = []"
    using statement_ready [OF 1(2) _ 1(4)] Cons.prems(3) 1(3) by auto
  have "list_all isspace [10]" "list_all (list_all decl_ok) dss" using Cons.prems(3) by (simp_all add: ctype_simps)
  from Cons.IH [OF 2(2) this 2(4)] obtain cf' where
    "read_leases now cf2 = (map (\<lambda>ds. Destroyed (lease_of ds)) dss, cf')" "ub cf' = ub cf" using 2(3) by auto
  with 1(1) 2(1) show ?case by (simp add: read_leases.simps [of now cf])
qed

lemma quoted_chars: "set (quoted s) \<subseteq> insert 34 (insert 92 (set s))"
  by (auto simp: quoted_def quote_char_def split: if_splits)

lemma EOF_notin_dec [simp]: "EOF \<notin> set (dec n)"
  using dec_digits [of n] by (auto simp: list_all_iff isdigit_def)

lemma EOF_notin_agg_text: "EOF \<notin> set (agg_text [] DOT k ns)"
  by (induction ns arbitrary: k) (auto simp: sep_before_def)

lemma EOF_notin_date: "EOF \<notin> set (date_chars d)"
  by (cases d) (simp add: date_text_def)

lemma EOF_notin_decl: "decl_ok d \<Longrightarrow> EOF \<notin> set (decl_text d)"
proof -
  have s: "EOF \<notin> set (string_chars s)" if "string_ok s" for s
    using that quoted_chars [of s] by (auto simp: string_chars_def string_ok_def list_all_iff)
  assume "decl_ok d"
  moreover have "EOF \<notin> set (codes (decl_word d))" by (cases d) simp_all
  moreover have "EOF \<notin> set (decl_rest d)" if "decl_ok d"
    using that s EOF_notin_date EOF_notin_agg_text [of 0] by (cases d) (simp_all add: dotted_quad_def)
  ultimately show ?thesis by (simp add: decl_text_def)
qed

lemma EOF_notin_lease: "list_all decl_ok ds \<Longrightarrow> EOF \<notin> set (lease_text ds)"
  using EOF_notin_decl by (auto simp: lease_text_def list_all_iff)

text \<open>C1: The lease file read back. For every file that consists of lease statements whose declarations are
  well formed (interface, bootp, fixed-address, medium, filename, server-name, renew, rebind,
  expire), delivered by \<open>read\<close> in blocks of any sizes and with memory available, \<^verbatim>\<open>read_client_lease\<close>
  reads one lease per statement, in order; each has exactly the values its declarations give it, the
  last declaration of a kind winning; and nothing undefined happens. Every lease is destroyed in the
  end, as no interface is ever recorded.\<close>

theorem read_client_lease_roundtrip:
  assumes "list_all (list_all decl_ok) dss" and "concat blocks = concat (map lease_text dss)"
    and "\<forall>b \<in> set blocks. b \<noteq> [] \<and> length b \<le> 8192" and "0 \<le> file"
  shows "\<exists>cf n. read_client_lease now file (map Some blocks) [] =
           ReadLeases (map (\<lambda>ds. Destroyed (lease_of ds)) dss) cf n \<and> \<not> ub cf"
proof -
  obtain cf where n: "new_parse file None 0 ''/var/dhcp/dhclient.leases'' 0 (map Some blocks) [] = Some cf"
      "mallocs cf = []"
    by (simp add: new_parse_def)
  have "EOF \<notin> set (concat blocks)"
    using assms(1,2) EOF_notin_lease by (auto simp: list_all_iff)
  with new_parse_ready [OF n(1) _ assms(3)] assms(2,4)
  have "ready cf ([] @ concat (map lease_text dss))" "\<not> ub cf" by auto
  with read_leases_ready [OF this(1) _ assms(1) n(2)] obtain cf' where
    "read_leases now cf = (map (\<lambda>ds. Destroyed (lease_of ds)) dss, cf')" "\<not> ub cf'" by auto
  with n(1) assms(4) show ?thesis by (simp add: read_client_lease_def)
qed

definition sample_lease :: "decl list" where
  "sample_lease = [DInterface (codes ''eth0''), DFixed [10, 0, 2, 15], DServerName (codes ''srv''),
     DRenew (Date 4 2008 2 28 12 0 0), DExpire (Date 5 2008 2 29 12 0 1)]"

theorem read_client_lease_roundtrip_witness:
  "\<exists>cf n. read_client_lease 0 3 (map Some [lease_text sample_lease]) [] =
      ReadLeases [Destroyed (lease_of sample_lease)] cf n \<and> \<not> ub cf"
proof -
  have ok: "list_all (list_all decl_ok) [sample_lease]" by (simp add: sample_lease_def string_ok_def)
  have "lease_text sample_lease \<noteq> [] \<and> length (lease_text sample_lease) \<le> 8192"
    by (simp add: lease_text_def sample_lease_def decl_text_def string_chars_def quoted_def quote_char_def
        dotted_quad_def sep_before_def date_text_def dec.simps)
  with read_client_lease_roundtrip [OF ok, of "[lease_text sample_lease]" 3 0] show ?thesis by simp
qed

section \<open>Declarations that are lost\<close>

text \<open>A key declaration swallows the declaration behind it. After \<open>key k;\<close> the code has consumed the
  semicolon, yet looks for one more: the tokens up to and including the next semicolon are skipped,
  whatever they declare.\<close>

theorem key_declaration_eats_next:
  assumes "ready cf (codes ''key k;'' @ xs)" and "lexes_all xs (t # ts @ [SEMI]) vs zs"
    and "t \<noteq> SEMI" and "list_all passed_over ts"
  shows "\<exists>cf'. parse_client_lease_declaration cf l ip c = (cf', l, c) \<and> ready cf' zs"
proof -
  have "lexes ([] @ codes ''key'' @ codes '' k;'' @ xs) KEY (codes ''key'') (codes '' k;'' @ xs)"
    by (rule lexes_keyword [of _ _ 107 "[101, 121]"]) (simp_all add: intern_eval name_char_def)
  then obtain cf1 where 1: "next_token cf = (KEY, cf1)" "ready cf1 ([32] @ codes ''k'' @ 59 # xs)"
    using next_lexes [of cf] assms(1) by force
  have "lexes ([32] @ codes ''k'' @ 59 # xs) NUMBER_OR_NAME (codes ''k'') (59 # xs)"
    by (rule lexes_keyword [of _ _ 107 "[]"]) (simp_all add: intern_eval name_char_def)
  then obtain cf2 where 2: "next_token cf1 = (NUMBER_OR_NAME, cf2)" "ready cf2 (59 # xs)"
    using next_lexes [OF 1(2)] by metis
  obtain cf3 where 3: "parse_semi cf2 = (1, cf3)" "ready cf3 xs" using parse_semi_ready [OF 2(2)] by metis
  obtain v vs' ys where v: "lexes xs t v ys" "lexes_all ys (ts @ [SEMI]) vs' zs"
    using assms(2) by (cases vs) auto
  obtain cf4 where 4: "next_token cf3 = (t, cf4)" "ready cf4 ys" using next_lexes [OF 3(2) v(1)] by metis
  have "is_identifier NUMBER_OR_NAME" by (simp add: is_identifier_def)
  with 1(1) 2(1) 3(1) 4(1) assms(3) show ?thesis
    using skip_to_semi_lexes [OF 4(2) v(2) assms(4)]
    by (simp add: parse_client_lease_declaration_def end_declaration_def)
qed

theorem key_declaration_eats_next_witness:
  "\<exists>cf'. parse_client_lease_declaration
       (the (new_parse 3 None 0 [] 0 (map Some [codes ''key k;'' @ dec 7 @ [44, 59, 125]]) [])) (new_lease 0 None) None None =
     (cf', new_lease 0 None, None) \<and> ready cf' [125]"
proof -
  have t: "dec 7 = [55]" by (simp add: dec.simps)
  have "ready (the (new_parse 3 None 0 [] 0 (map Some [codes ''key k;'' @ dec 7 @ [44, 59, 125]]) []))
      (codes ''key k;'' @ dec 7 @ [44, 59, 125])"
    using new_parse_ready [of 3 "[]" "[codes ''key k;'' @ dec 7 @ [44, 59, 125]]" "[]"]
    by (simp add: new_parse_def t)
  moreover have "lexes_all (dec 7 @ [44, 59, 125]) (NUMBER # [COMMA] @ [SEMI]) [dec 7, [44], [59]] [125]"
    using lexes_dec [of 7 "[44, 59, 125]" "[]"] lexes_punct [of "[]" 44 "[59, 125]"] lexes_semi [of "[125]"]
    by (auto simp: punct_chars name_char_def ctype_simps)
  ultimately show ?thesis
    by (rule key_declaration_eats_next) (simp_all add: passed_over_def)
qed

end
