(* ===== verification/Memory.thy ===== *)
theory Memory
  imports Prelude
begin

text \<open>
  Byte buffers and unchecked pointers, shared by the network clients: outcomes of code that may leave the
  memory it may touch, reads and writes of bytes and integers at offsets of a buffer, and decimal text
  as bytes.
\<close>

section \<open>Outcomes\<close>

text \<open>
  Code that reads and writes memory through unchecked pointers: it returns, or it leaves the memory it
  may touch (\<open>Fault\<close>), or it nests deeper than the given bound (\<open>NoFuel\<close>).
\<close>

datatype 'a outcome = Ok 'a | Fault | NoFuel

fun bind_outcome :: "'a outcome \<Rightarrow> ('a \<Rightarrow> 'b outcome) \<Rightarrow> 'b outcome" where
  "bind_outcome (Ok x) f = f x"
| "bind_outcome Fault f = Fault"
| "bind_outcome NoFuel f = NoFuel"

lemma bind_outcome_Ok_iff: "bind_outcome m f = Ok y \<longleftrightarrow> (\<exists>x. m = Ok x \<and> f x = Ok y)"
  by (cases m) auto

lemma bind_outcome_Fault_iff: "bind_outcome m f = Fault \<longleftrightarrow> m = Fault \<or> (\<exists>x. m = Ok x \<and> f x = Fault)"
  by (cases m) auto

definition rd_byte :: "byte list \<Rightarrow> nat \<Rightarrow> byte outcome" where
  "rd_byte b i = (if i < length b then Ok (b ! i) else Fault)"

text \<open>\<open>memcpy\<close> of two and of four bytes into an integer of that size.\<close>

definition rd_u16 :: "byte list \<Rightarrow> nat \<Rightarrow> 16 word outcome" where
  "rd_u16 b i = (if i + 1 < length b then Ok (rd16 (b ! i) (b ! (i + 1))) else Fault)"

definition rd_u32 :: "byte list \<Rightarrow> nat \<Rightarrow> 32 word outcome" where
  "rd_u32 b i =
     (if i + 3 < length b then Ok (rd32 (b ! i) (b ! (i + 1)) (b ! (i + 2)) (b ! (i + 3))) else Fault)"

text \<open>Copying bytes into a buffer of fixed size at an offset.\<close>

definition wr_bytes :: "byte list \<Rightarrow> nat \<Rightarrow> byte list \<Rightarrow> byte list outcome" where
  "wr_bytes d off bs =
     (if off + length bs \<le> length d then Ok (take off d @ bs @ drop (off + length bs) d) else Fault)"

section \<open>Reading what was written\<close>

lemma wr_bytes_length: "wr_bytes d off bs = Ok d' \<Longrightarrow> length d' = length d"
  by (auto simp: wr_bytes_def split: if_splits)

lemma drop_nth: "drop i buf = xs \<Longrightarrow> k < length xs \<Longrightarrow> i + k < length buf \<and> buf ! (i + k) = xs ! k"
  by (auto simp: nth_drop)

lemma rd_u16_mem16: "drop i buf = mem16 w @ xs \<Longrightarrow> rd_u16 buf i = Ok w"
  using drop_nth [of i buf "mem16 w @ xs" 0] drop_nth [of i buf "mem16 w @ xs" 1] rd16_mem16 [of w]
  by (simp add: rd_u16_def mem16_def)

lemma rd_u32_mem32: "drop i buf = mem32 w @ xs \<Longrightarrow> rd_u32 buf i = Ok w"
  using drop_nth [of i buf "mem32 w @ xs" 0] drop_nth [of i buf "mem32 w @ xs" 1]
    drop_nth [of i buf "mem32 w @ xs" 2] drop_nth [of i buf "mem32 w @ xs" 3] rd32_mem32 [of w]
  by (simp add: rd_u32_def mem32_def)

lemma drop_more: "drop i buf = xs @ ys \<Longrightarrow> length xs = k \<Longrightarrow> drop (i + k) buf = ys"
  by (metis append_eq_conv_conj drop_drop add.commute)

lemma uint_word_cat:
  assumes "LENGTH('a::len) + LENGTH('b::len) \<le> LENGTH('c::len)"
  shows "uint (word_cat (a::'a word) (b :: 'b word) :: 'c word) = uint b + 2 ^ LENGTH('b) * uint a"
proof -
  have ua: "uint a < 2 ^ LENGTH('a)" "0 \<le> uint a" and ub: "uint b < 2 ^ LENGTH('b)" "0 \<le> uint b" by simp_all
  have e: "concat_bit LENGTH('b) (uint b) (uint a) = uint b + 2 ^ LENGTH('b) * uint a"
    by (simp add: concat_bit_eq push_bit_eq_mult take_bit_int_eq_self)
  have "uint b + 2 ^ LENGTH('b) * uint a < 2 ^ (LENGTH('a) + LENGTH('b))"
  proof -
    have "uint a + 1 \<le> 2 ^ LENGTH('a)" using ua(1) by linarith
    then have "2 ^ LENGTH('b) * (uint a + 1) \<le> 2 ^ LENGTH('b) * 2 ^ LENGTH('a)" by (intro mult_left_mono) simp_all
    then have "2 ^ LENGTH('b) + 2 ^ LENGTH('b) * uint a \<le> 2 ^ (LENGTH('a) + LENGTH('b))" by (simp add: power_add algebra_simps)
    with ub(1) show ?thesis by linarith
  qed
  also have "\<dots> \<le> 2 ^ LENGTH('c)" using assms by (intro power_increasing) simp_all
  finally have "uint b + 2 ^ LENGTH('b) * uint a < 2 ^ LENGTH('c)" .
  then show ?thesis unfolding word_cat_eq' e uint_word_of_int_eq by (simp add: take_bit_int_eq_self)
qed

lemma unat_rd32: "unat (rd32 a b c d) = unat a + 256 * unat b + 65536 * unat c + 16777216 * unat d"
proof -
  have "uint (rd32 a b c d) = uint a + 256 * uint b + 65536 * uint c + 16777216 * uint d"
    by (simp add: rd32_def uint_word_cat)
  then show ?thesis by (simp flip: of_nat_eq_iff [where 'a = int])
qed
section \<open>Decimal text\<close>

definition dec_bytes :: "nat \<Rightarrow> byte list" where
  "dec_bytes k = map of_int (dec k)"

lemma length_dec_bytes: "k < 256 \<Longrightarrow> length (dec_bytes k) \<le> 3"
  using dec_length [of k 3] by (simp add: dec_bytes_def)

end
