(* ===== verification/Dns_Packet.thy ===== *)
theory Dns_Packet
  imports Memory
begin

text \<open>
  The packets of the DNS client (tools/network/dns_client/dnsService.c): building a request, reading names
  with their pointers, and parsing a response.

  A packet is the list of the bytes of its buffer; the size of the packet in the buffer is a separate
  number, as in the code. The nesting of name pointers is bounded by a first argument, since the code
  recurses without a limit; as many levels as a chain of pointers has are enough. Names compressed as in RFC 1035 (\<open>rfc_name\<close>) are read as what they mean. Reads and
  writes outside a buffer are the outcome \<open>Fault\<close>. Error messages are the constructors of an error type.
\<close>

unbundle bit_operations_syntax

section \<open>Constants and structures\<close>

abbreviation DNS_QR_RESPONSE :: "16 word" where "DNS_QR_RESPONSE \<equiv> 0x8000"
abbreviation DNS_AUTH_ANS :: "16 word" where "DNS_AUTH_ANS \<equiv> 0x0400"
abbreviation DNS_TRUNCATED :: "16 word" where "DNS_TRUNCATED \<equiv> 0x0200"
abbreviation DNS_USE_RECURSION :: "16 word" where "DNS_USE_RECURSION \<equiv> 0x0100"
abbreviation DNS_RECURSION_AVAIL :: "16 word" where "DNS_RECURSION_AVAIL \<equiv> 0x0080"
abbreviation DNS_FORMAT_ERROR :: "16 word" where "DNS_FORMAT_ERROR \<equiv> 1"
abbreviation DNS_SERVER_FAILURE :: "16 word" where "DNS_SERVER_FAILURE \<equiv> 2"
abbreviation DNS_NAME_ERROR :: "16 word" where "DNS_NAME_ERROR \<equiv> 3"
abbreviation DNS_NOT_IMPLEMENTED :: "16 word" where "DNS_NOT_IMPLEMENTED \<equiv> 4"
abbreviation DNS_REFUSED :: "16 word" where "DNS_REFUSED \<equiv> 5"
abbreviation DNS_ERROR_MASK :: "16 word" where "DNS_ERROR_MASK \<equiv> 0x000f"
abbreviation DNS_INET_ADDR :: "16 word" where "DNS_INET_ADDR \<equiv> 1"
abbreviation DNS_A_RECORD :: "16 word" where "DNS_A_RECORD \<equiv> 1"
abbreviation DNS_NS_RECORD :: "16 word" where "DNS_NS_RECORD \<equiv> 2"
abbreviation DNS_CNAME_RECORD :: "16 word" where "DNS_CNAME_RECORD \<equiv> 5"
abbreviation DNS_MX_RECORD :: "16 word" where "DNS_MX_RECORD \<equiv> 15"
abbreviation MAX_DOMAIN_LENGTH :: nat where "MAX_DOMAIN_LENGTH \<equiv> 255"
abbreviation MAX_SUBDOMAIN_LENGTH :: nat where "MAX_SUBDOMAIN_LENGTH \<equiv> 63"
abbreviation MAX_AN_COUNT :: "16 word" where "MAX_AN_COUNT \<equiv> 50"
abbreviation DNS_POINTER_FLAG :: byte where "DNS_POINTER_FLAG \<equiv> 0xc0"
abbreviation DNS_POINTER_OFFSET_MASK :: "16 word" where "DNS_POINTER_OFFSET_MASK \<equiv> 0x3fff"
abbreviation DNS_LABEL_LENGTH_MASK :: byte where "DNS_LABEL_LENGTH_MASK \<equiv> 0x3f"

record dns_header =
  hdr_id :: "16 word"
  flags :: "16 word"
  qd_count :: "16 word"
  an_count :: "16 word"
  ns_count :: "16 word"
  ar_count :: "16 word"

definition header_bytes :: "dns_header \<Rightarrow> byte list" where
  "header_bytes h = mem16 (hdr_id h) @ mem16 (flags h) @ mem16 (qd_count h) @ mem16 (an_count h) @
     mem16 (ns_count h) @ mem16 (ar_count h)"

record dns_question_trailer =
  q_type :: "16 word"
  q_class :: "16 word"

definition trailer_bytes :: "dns_question_trailer \<Rightarrow> byte list" where
  "trailer_bytes t = mem16 (q_type t) @ mem16 (q_class t)"

record dns_response =
  response_type :: "16 word"
  preference :: "16 word"
  cache_time :: "32 word"
  ip_address :: "32 word"
  rname :: "byte list"
  authoritative :: byte

section \<open>Requests\<close>

text \<open>\<open>strtok_r\<close> with the delimiter \<open>.\<close> (46): the non-empty pieces between the dots.\<close>

fun tokens :: "byte list \<Rightarrow> byte list \<Rightarrow> byte list list" where
  "tokens acc [] = (if acc = [] then [] else [rev acc])"
| "tokens acc (c # cs) =
     (if c = 46 then (if acc = [] then tokens [] cs else rev acc # tokens [] cs)
      else tokens (c # acc) cs)"

text \<open>The loop over the subdomains: \<open>None\<close> when one of them is too long.\<close>

fun put_labels :: "byte list list \<Rightarrow> byte list option" where
  "put_labels [] = Some []"
| "put_labels (t # ts) =
     (if MAX_SUBDOMAIN_LENGTH < length t then None
      else (case put_labels ts of None \<Rightarrow> None | Some bs \<Rightarrow> Some (of_nat (length t) # t @ bs)))"

datatype build_error = NameTooLong | NoMemory | LabelTooLong

text \<open>
  \<^verbatim>\<open>build_dns_request_packet\<close>: the packet (its uninitialised cells \<open>None\<close>), its size and the request id.
  \<open>rnd\<close> is what \<open>rand\<close> returns, \<open>mem\<close> whether \<open>malloc\<close> succeeds.
\<close>

definition build_dns_request_packet ::
  "byte list \<Rightarrow> 16 word \<Rightarrow> nat \<Rightarrow> bool \<Rightarrow> build_error + (byte option list \<times> nat \<times> nat)" where
  "build_dns_request_packet domain_name request_q_type rnd mem =
     (let domain_length = length domain_name in
      if MAX_DOMAIN_LENGTH < domain_length then Inl NameTooLong
      else
        (let total_size = domain_length + 4 + 2 + 12 in
         if \<not> mem then Inl NoMemory
         else
           (let request_id = rnd mod 65535;
                header = \<lparr>hdr_id = htons (of_nat request_id), flags = htons DNS_USE_RECURSION, qd_count = htons 1,
                          an_count = htons 0, ns_count = htons 0, ar_count = htons 0\<rparr>
            in case put_labels (tokens [] domain_name) of
                 None \<Rightarrow> Inl LabelTooLong
               | Some ls \<Rightarrow>
                   (let q_trailer = \<lparr>q_type = htons request_q_type, q_class = htons DNS_INET_ADDR\<rparr>;
                        written = header_bytes header @ ls @ [0] @ trailer_bytes q_trailer
                    in Inr (map Some written @ replicate (total_size - length written) None,
                            total_size, request_id)))))"

section \<open>Names in packets\<close>

text \<open>
  \<^verbatim>\<open>read_domain_name\<close>: \<open>buf\<close> is the allocated packet buffer, \<open>n\<close> the size of the packet in it, \<open>dest\<close> the
  destination buffer and \<open>d\<close> the destination pointer as an offset into it. The result is the return
  value and the destination buffer. The first argument bounds the nesting of pointers; the loop
  over the labels needs no bound, as it advances in the packet.
\<close>

function rdn_loop ::
  "nat \<Rightarrow> byte list \<Rightarrow> nat \<Rightarrow> nat \<Rightarrow> byte list \<Rightarrow> nat \<Rightarrow> int \<Rightarrow> (int \<times> byte list) outcome" where
  "rdn_loop fuel buf n i dest d bytes_read =
     bind_outcome (rd_byte buf i) (\<lambda>label_length.
       if label_length = 0 then Ok (bytes_read + 1, dest)
       else
         bind_outcome (if 0 < bytes_read then wr_bytes dest d [46] else Ok dest) (\<lambda>dest1.
           let d1 = (if 0 < bytes_read then d + 1 else d) in
           if label_length AND DNS_POINTER_FLAG = DNS_POINTER_FLAG then
             bind_outcome (rd_u16 buf i) (\<lambda>tmp.
               let offset = unat (htons tmp AND DNS_POINTER_OFFSET_MASK) in
               if n \<le> offset then Ok (-1, dest1)
               else
                 (case fuel of
                    0 \<Rightarrow> NoFuel
                  | Suc f \<Rightarrow>
                      bind_outcome (rdn_loop f buf n offset dest1 d1 0) (\<lambda>(r, dest2).
                        Ok (bytes_read + 2, dest2))))
           else
             (let l = unat (label_length AND DNS_LABEL_LENGTH_MASK) in
              if n \<le> i + 1 + l then Ok (-1, dest1)
              else
                bind_outcome (wr_bytes dest1 d1 (take l (drop (i + 1) buf) @ [0])) (\<lambda>dest2.
                  rdn_loop fuel buf n (i + 1 + l) dest2 (d1 + l) (bytes_read + int l + 1)))))"
  by pat_completeness auto
termination
  by (relation "measures [\<lambda>(fuel, buf, n, i, dest, d, br). fuel, \<lambda>(fuel, buf, n, i, dest, d, br). n - i]") auto

declare rdn_loop.simps [simp del]

definition read_domain_name ::
  "nat \<Rightarrow> byte list \<Rightarrow> nat \<Rightarrow> nat \<Rightarrow> byte list \<Rightarrow> (int \<times> byte list) outcome" where
  "read_domain_name fuel buf n i dest = (if n \<le> i then Ok (-1, dest) else rdn_loop fuel buf n i dest 0 0)"

text \<open>\<^verbatim>\<open>increment_buffer_index\<close>: the new index, and whether it is still below the end.\<close>

definition increment_buffer_index :: "nat \<Rightarrow> nat \<Rightarrow> nat \<Rightarrow> nat \<times> bool" where
  "increment_buffer_index i max_index bytes = (i + bytes, i + bytes < max_index)"

section \<open>Responses\<close>

datatype response_error =
    InvalidFormat | IdMismatch | NotResponse | Truncated | NoRecursion | ServerFormatError | ServerFailure
  | NotImplemented | Refused | DomainMismatch | NoMemoryForResponse | InvalidClass

datatype parsed = ParseError response_error | NotFound | Answers "dns_response list"

text \<open>Advance the index or give up with the code's format error.\<close>

definition advance ::
  "nat \<Rightarrow> nat \<Rightarrow> nat \<Rightarrow> (nat \<Rightarrow> (response_error + 'a) outcome) \<Rightarrow> (response_error + 'a) outcome" where
  "advance n i bytes f =
     (let (j, ok) = increment_buffer_index i n bytes in if ok then f j else Ok (Inl InvalidFormat))"

text \<open>A name that has to be there.\<close>

definition name_at ::
  "nat \<Rightarrow> byte list \<Rightarrow> nat \<Rightarrow> nat \<Rightarrow> byte list \<Rightarrow> (nat \<Rightarrow> byte list \<Rightarrow> (response_error + 'a) outcome) \<Rightarrow>
   (response_error + 'a) outcome" where
  "name_at fuel buf n i dest f =
     bind_outcome (read_domain_name fuel buf n i dest) (\<lambda>(r, dest1).
       if r = -1 then Ok (Inl InvalidFormat) else f (nat r) dest1)"

text \<open>The RDATA field, by type: the response, the index and the remaining length.\<close>

definition parse_rdata ::
  "nat \<Rightarrow> byte list \<Rightarrow> nat \<Rightarrow> nat \<Rightarrow> 16 word \<Rightarrow> dns_response \<Rightarrow>
   (response_error + (dns_response \<times> nat \<times> 16 word)) outcome" where
  "parse_rdata fuel buf n i rdata_length r =
     (if response_type r = DNS_A_RECORD then
        bind_outcome (rd_u32 buf i) (\<lambda>tmp_32. Ok (Inr (r\<lparr>ip_address := htonl tmp_32\<rparr>, i, rdata_length)))
      else if response_type r = DNS_NS_RECORD \<or> response_type r = DNS_CNAME_RECORD then
        name_at fuel buf n i (rname r) (\<lambda>_ nm. Ok (Inr (r\<lparr>rname := nm\<rparr>, i, rdata_length)))
      else if response_type r = DNS_MX_RECORD then
        bind_outcome (rd_u16 buf i) (\<lambda>tmp.
          let r1 = r\<lparr>preference := htons tmp\<rparr> in
          advance n i 2 (\<lambda>j.
            name_at fuel buf n j (rname r1) (\<lambda>_ nm. Ok (Inr (r1\<lparr>rname := nm\<rparr>, j, rdata_length - 2)))))
      else Ok (Inr (r, i, rdata_length)))"

text \<open>One answer. The TTL is read into a 16-bit variable, as the code does.\<close>

definition parse_answer ::
  "nat \<Rightarrow> byte list \<Rightarrow> nat \<Rightarrow> bool \<Rightarrow> byte \<Rightarrow> nat \<Rightarrow> byte list \<Rightarrow>
   (response_error + (dns_response \<times> nat \<times> byte list)) outcome" where
  "parse_answer fuel buf n is_last auth i buffer =
     name_at fuel buf n i buffer (\<lambda>bytes_read buffer1.
     advance n i bytes_read (\<lambda>i1.
     bind_outcome (rd_u16 buf i1) (\<lambda>t_type.
     advance n i1 2 (\<lambda>i2.
     bind_outcome (rd_u16 buf i2) (\<lambda>t_class.
     if htons t_class \<noteq> DNS_INET_ADDR then Ok (Inl InvalidClass)
     else
       advance n i2 2 (\<lambda>i3.
       bind_outcome (rd_u16 buf i3) (\<lambda>t_ttl.
       advance n i3 4 (\<lambda>i4.
       bind_outcome (rd_u16 buf i4) (\<lambda>t_len.
       advance n i4 2 (\<lambda>i5.
       bind_outcome
         (parse_rdata fuel buf n i5 (htons t_len)
            \<lparr>response_type = htons t_type, preference = 0, cache_time = htonl (ucast t_ttl), ip_address = 0,
             rname = replicate 256 0, authoritative = auth\<rparr>)
         (\<lambda>res. case res of
            Inl e \<Rightarrow> Ok (Inl e)
          | Inr (r, i6, rdata_length) \<Rightarrow>
              (let (i7, ok) = increment_buffer_index i6 n (unat rdata_length) in
               if \<not> ok \<and> \<not> is_last then Ok (Inl InvalidFormat) else Ok (Inr (r, i7, buffer1))))))))))))))"

fun parse_answers ::
  "nat \<Rightarrow> byte list \<Rightarrow> nat \<Rightarrow> byte \<Rightarrow> nat \<Rightarrow> nat \<Rightarrow> byte list \<Rightarrow> (response_error + dns_response list) outcome" where
  "parse_answers fuel buf n auth 0 i buffer = Ok (Inr [])"
| "parse_answers fuel buf n auth (Suc k) i buffer =
     bind_outcome (parse_answer fuel buf n (k = 0) auth i buffer) (\<lambda>res. case res of
       Inl e \<Rightarrow> Ok (Inl e)
     | Inr (r, i1, buffer1) \<Rightarrow>
         bind_outcome (parse_answers fuel buf n auth k i1 buffer1) (\<lambda>res2. case res2 of
           Inl e \<Rightarrow> Ok (Inl e)
         | Inr rs \<Rightarrow> Ok (Inr (r # rs))))"

text \<open>The header of a packet in host order.\<close>

definition read_header :: "byte list \<Rightarrow> dns_header outcome" where
  "read_header buf =
     bind_outcome (rd_u16 buf 0) (\<lambda>a. bind_outcome (rd_u16 buf 2) (\<lambda>b. bind_outcome (rd_u16 buf 4) (\<lambda>c.
     bind_outcome (rd_u16 buf 6) (\<lambda>d. bind_outcome (rd_u16 buf 8) (\<lambda>e. bind_outcome (rd_u16 buf 10) (\<lambda>f.
     Ok \<lparr>hdr_id = htons a, flags = htons b, qd_count = htons c, an_count = htons d, ns_count = htons e,
         ar_count = htons f\<rparr>))))))"

text \<open>The checks of the header: an error, or the name was not found, or go on.\<close>

definition check_header :: "dns_header \<Rightarrow> int \<Rightarrow> parsed option" where
  "check_header h expected_id =
     (if uint (hdr_id h) \<noteq> expected_id then Some (ParseError IdMismatch)
      else if flags h AND DNS_QR_RESPONSE = 0 then Some (ParseError NotResponse)
      else if flags h AND DNS_TRUNCATED \<noteq> 0 then Some (ParseError Truncated)
      else if flags h AND DNS_RECURSION_AVAIL = 0 then Some (ParseError NoRecursion)
      else
        (let error_code = flags h AND DNS_ERROR_MASK in
         if error_code = DNS_FORMAT_ERROR then Some (ParseError ServerFormatError)
         else if error_code = DNS_SERVER_FAILURE then Some (ParseError ServerFailure)
         else if error_code = DNS_NOT_IMPLEMENTED then Some (ParseError NotImplemented)
         else if error_code = DNS_REFUSED then Some (ParseError Refused)
         else if error_code = DNS_NAME_ERROR then Some NotFound
         else if an_count h < 1 then Some NotFound
         else None))"

text \<open>The C string at the start of a buffer; running off its end is a fault.\<close>

definition cstring :: "byte list \<Rightarrow> byte list outcome" where
  "cstring b = (if 0 \<in> set b then Ok (takeWhile (\<lambda>c. c \<noteq> 0) b) else Fault)"

text \<open>
  \<^verbatim>\<open>parse_dns_response\<close>: \<open>buffer\<close> is what the local name buffer contains at the start (the code does not
  initialise it), \<open>mem\<close> whether \<open>malloc\<close> succeeds.
\<close>

definition parse_dns_response ::
  "nat \<Rightarrow> byte list \<Rightarrow> nat \<Rightarrow> int \<Rightarrow> byte list \<Rightarrow> byte list \<Rightarrow> bool \<Rightarrow> parsed outcome" where
  "parse_dns_response fuel buf n expected_id domain_name buffer mem =
     (if n < 12 then Ok (ParseError InvalidFormat)
      else
        bind_outcome (read_header buf) (\<lambda>h.
        case check_header h expected_id of
          Some p \<Rightarrow> Ok p
        | None \<Rightarrow>
            (let count = min (an_count h) MAX_AN_COUNT;
                 auth = (if flags h AND DNS_AUTH_ANS \<noteq> 0 then 1 else 0)
             in bind_outcome
                  (name_at fuel buf n 12 buffer (\<lambda>bytes_read buffer1.
                   advance n 12 bytes_read (\<lambda>i1.
                   bind_outcome (cstring buffer1) (\<lambda>nm.
                   if nm \<noteq> domain_name then Ok (Inl DomainMismatch)
                   else
                     advance n i1 4 (\<lambda>i2.
                       if \<not> mem then Ok (Inl NoMemoryForResponse)
                       else parse_answers fuel buf n auth (unat count) i2 buffer1)))))
                  (\<lambda>res. case res of Inl e \<Rightarrow> Ok (ParseError e) | Inr rs \<Rightarrow> Ok (Answers rs)))))"

section \<open>Encoded names\<close>

definition label_ok :: "byte list \<Rightarrow> bool" where
  "label_ok l \<longleftrightarrow> l \<noteq> [] \<and> length l \<le> MAX_SUBDOMAIN_LENGTH \<and> 46 \<notin> set l \<and> 0 \<notin> set l"

definition domain_of :: "byte list list \<Rightarrow> byte list" where
  "domain_of ls = concat (map (\<lambda>l. 46 # l) ls)"

text \<open>The text of a name: the labels with dots between them.\<close>

definition dotted :: "byte list list \<Rightarrow> byte list" where
  "dotted ls = tl (domain_of ls)"

definition enc_labels :: "byte list list \<Rightarrow> byte list" where
  "enc_labels ls = concat (map (\<lambda>l. of_nat (length l) # l) ls)"

lemma domain_of_simps [simp]:
  "domain_of [] = []" "domain_of (l # ls) = 46 # l @ domain_of ls" "enc_labels [] = []"
  "enc_labels (l # ls) = of_nat (length l) # l @ enc_labels ls"
  by (simp_all add: domain_of_def enc_labels_def)

lemma dotted_Cons [simp]: "dotted (l # ls) = l @ domain_of ls"
  by (simp add: dotted_def)

lemma length_enc_labels: "length (enc_labels ls) = length (domain_of ls)"
  by (induction ls) auto

lemma put_labels_enc: "list_all label_ok ls \<Longrightarrow> put_labels ls = Some (enc_labels ls)"
  by (induction ls) (auto simp: label_ok_def)

lemma tokens_label: "46 \<notin> set l \<Longrightarrow> tokens acc (l @ cs) = tokens (rev l @ acc) cs"
  by (induction l arbitrary: acc) auto

lemma tokens_domain_of:
  "list_all label_ok ls \<Longrightarrow> acc \<noteq> [] \<Longrightarrow> tokens acc (domain_of ls) = rev acc # ls"
proof (induction ls arbitrary: acc)
  case (Cons l ls)
  then have "46 \<notin> set l" "rev l \<noteq> []" by (auto simp: label_ok_def)
  with Cons.IH [of "rev l"] Cons.prems show ?case by (simp add: tokens_label)
qed simp

lemma tokens_dotted: "list_all label_ok ls \<Longrightarrow> tokens [] (dotted ls) = ls"
proof (cases ls)
  case (Cons l ls')
  assume "list_all label_ok ls"
  with Cons have "46 \<notin> set l" "rev l \<noteq> []" "list_all label_ok ls'" by (auto simp: label_ok_def)
  with tokens_domain_of [of ls' "rev l"] Cons show ?thesis by (simp add: tokens_label)
qed (simp add: dotted_def)

lemma label_byte:
  assumes "0 < k" "k \<le> MAX_SUBDOMAIN_LENGTH"
  shows "(of_nat k :: byte) \<noteq> 0" "(of_nat k :: byte) AND DNS_POINTER_FLAG \<noteq> DNS_POINTER_FLAG"
    "unat ((of_nat k :: byte) AND DNS_LABEL_LENGTH_MASK) = k"
proof -
  have "\<forall>k \<in> set [1..<64]. (of_nat k :: byte) \<noteq> 0 \<and>
      (of_nat k :: byte) AND DNS_POINTER_FLAG \<noteq> DNS_POINTER_FLAG \<and>
      unat ((of_nat k :: byte) AND DNS_LABEL_LENGTH_MASK) = k" by code_simp
  with assms show "(of_nat k :: byte) \<noteq> 0" "(of_nat k :: byte) AND DNS_POINTER_FLAG \<noteq> DNS_POINTER_FLAG"
      "unat ((of_nat k :: byte) AND DNS_LABEL_LENGTH_MASK) = k" by auto
qed

text \<open>A buffer with a text up to an offset and a NUL there.\<close>

definition ends_at :: "byte list \<Rightarrow> byte list \<Rightarrow> bool" where
  "ends_at dest s \<longleftrightarrow> (\<exists>rest. dest = s @ 0 # rest)"

lemma ends_at_length: "ends_at dest s \<Longrightarrow> length s < length dest"
  by (auto simp: ends_at_def)

lemma ends_at_cstring: "ends_at dest s \<Longrightarrow> 0 \<notin> set s \<Longrightarrow> cstring dest = Ok s"
  by (auto simp: ends_at_def cstring_def takeWhile_append)

lemma wr_bytes_ends:
  assumes "take d dest = s" "d \<le> length dest" "d + length bs + 1 \<le> length dest"
  obtains dest' where "wr_bytes dest d (bs @ [0]) = Ok dest'" "ends_at dest' (s @ bs)" "length dest' = length dest"
    "take (d + length bs) dest' = s @ bs"
proof -
  let ?d = "take d dest @ (bs @ [0]) @ drop (d + length (bs @ [0])) dest"
  have "wr_bytes dest d (bs @ [0]) = Ok ?d" using assms(3) by (simp add: wr_bytes_def)
  moreover have "ends_at ?d (s @ bs)" using assms(1) by (auto simp: ends_at_def)
  moreover have "length ?d = length dest" "take (d + length bs) ?d = s @ bs" using assms by auto
  ultimately show ?thesis by (rule that)
qed

text \<open>One label of the loop, when it fits and when it does not fit the destination.\<close>

lemma rdn_label:
  assumes "label_ok l" "drop i buf = of_nat (length l) # l @ xs" "i + 1 + length l < n" "i < length buf"
    "take d dest = s" "d \<le> length dest" "0 \<le> br" "dot = (if 0 < br then [46] else [])"
    "d + length dot + length l + 1 \<le> length dest"
  obtains dest' where "ends_at dest' (s @ dot @ l)" "length dest' = length dest"
    "rdn_loop fuel buf n i dest d br =
       rdn_loop fuel buf n (i + 1 + length l) dest' (d + length dot + length l) (br + int (length l) + 1)"
proof -
  have k: "0 < length l" "length l \<le> MAX_SUBDOMAIN_LENGTH" using assms(1) by (auto simp: label_ok_def)
  have b: "rd_byte buf i = Ok (of_nat (length l))"
    using assms(2,4) by (metis rd_byte_def nth_via_drop)
  have l: "take (length l) (drop (i + 1) buf) = l"
    using assms(2) by (metis Suc_eq_plus1 append_eq_conv_conj drop_Suc list.sel(3) tl_drop)
  let ?d1 = "take d dest @ dot @ drop (d + length dot) dest"
  have w1: "(if 0 < br then wr_bytes dest d [46] else Ok dest) = Ok ?d1"
    using assms(8,9) by (auto simp: wr_bytes_def)
  have "take (d + length dot) ?d1 = s @ dot" "length ?d1 = length dest" using assms(5,6,9) by auto
  then obtain dest' where w2: "wr_bytes ?d1 (d + length dot) (l @ [0]) = Ok dest'"
      "ends_at dest' ((s @ dot) @ l)" "length dest' = length dest"
    using wr_bytes_ends [of "d + length dot" ?d1 "s @ dot" l] assms(9) by auto
  have d1: "(if 0 < br then d + 1 else d) = d + length dot" using assms(8) by simp
  have "rdn_loop fuel buf n i dest d br =
      rdn_loop fuel buf n (i + 1 + length l) dest' (d + length dot + length l) (br + int (length l) + 1)"
    using assms(3) label_byte [OF k] w2(1)
    by (simp add: rdn_loop.simps [of fuel buf n i dest d br] b w1 d1 l Let_def del: One_nat_def add_Suc_right)
  with w2(2,3) show ?thesis using that [of dest'] by simp
qed

lemma drop_label:
  assumes "drop i buf = of_nat (length l) # l @ xs"
  shows "drop (i + 1 + length l) buf = xs"
proof -
  have "drop (i + 1 + length l) buf = drop (1 + length l) (drop i buf)" by (simp add: add.commute)
  then show ?thesis using assms by simp
qed

lemma rdn_root: "drop i buf = 0 # xs \<Longrightarrow> rdn_loop fuel buf n i dest d br = Ok (br + 1, dest)"
  by (cases "i < length buf") (auto simp: rdn_loop.simps [of fuel buf n i] rd_byte_def nth_via_drop)

lemma rdn_labels:
  assumes "list_all label_ok ls" "drop i buf = enc_labels ls @ 0 # xs" "i + length (enc_labels ls) < n"
    "ends_at dest s" "0 < br" "length s + length (domain_of ls) + 1 \<le> length dest"
  shows "\<exists>dest'. rdn_loop fuel buf n i dest (length s) br = Ok (br + int (length (enc_labels ls)) + 1, dest') \<and>
    ends_at dest' (s @ domain_of ls) \<and> length dest' = length dest"
  using assms
proof (induction ls arbitrary: i dest s br)
  case Nil
  then show ?case by (auto simp: rdn_root)
next
  case (Cons l ls)
  have p: "label_ok l" "drop i buf = of_nat (length l) # l @ (enc_labels ls @ 0 # xs)" "i + 1 + length l < n"
      "i < length buf" "take (length s) dest = s" "length s \<le> length dest" "0 \<le> br" "[46] = (if 0 < br then [46::byte] else [])"
      "length s + length [46::byte] + length l + 1 \<le> length dest"
    using Cons.prems by (auto simp: ends_at_def intro: ccontr)
  obtain dest' where d: "ends_at dest' (s @ [46] @ l)" "length dest' = length dest"
      "rdn_loop fuel buf n i dest (length s) br =
        rdn_loop fuel buf n (i + 1 + length l) dest' (length s + length [46::byte] + length l) (br + int (length l) + 1)"
    by (rule rdn_label [OF p])
  have len: "length (s @ [46] @ l) = length s + length [46::byte] + length l" by simp
  have "\<exists>dest''. rdn_loop fuel buf n (i + 1 + length l) dest' (length (s @ [46] @ l)) (br + int (length l) + 1) =
      Ok ((br + int (length l) + 1) + int (length (enc_labels ls)) + 1, dest'') \<and>
      ends_at dest'' ((s @ [46] @ l) @ domain_of ls) \<and> length dest'' = length dest'"
    by (rule Cons.IH) (use Cons.prems d drop_label [OF p(2)] in auto)
  with d(2,3) len show ?case by (simp add: ac_simps)
qed

lemma rdn_labels_fault:
  assumes "list_all label_ok ls" "drop i buf = enc_labels ls @ 0 # xs" "i + length (enc_labels ls) < n"
    "ends_at dest s" "0 < br" "length dest < length s + length (domain_of ls) + 1"
  shows "rdn_loop fuel buf n i dest (length s) br = Fault"
  using assms
proof (induction ls arbitrary: i dest s br)
  case Nil
  then show ?case using ends_at_length by fastforce
next
  case (Cons l ls)
  have p: "label_ok l" "drop i buf = of_nat (length l) # l @ (enc_labels ls @ 0 # xs)" "i + 1 + length l < n"
      "i < length buf" "take (length s) dest = s" "length s \<le> length dest" "0 \<le> br" "[46] = (if 0 < br then [46::byte] else [])"
    using Cons.prems by (auto simp: ends_at_def intro: ccontr)
  show ?case
  proof (cases "length s + length [46::byte] + length l + 1 \<le> length dest")
    case True
    obtain dest' where d: "ends_at dest' (s @ [46] @ l)" "length dest' = length dest"
        "rdn_loop fuel buf n i dest (length s) br =
          rdn_loop fuel buf n (i + 1 + length l) dest' (length s + length [46::byte] + length l) (br + int (length l) + 1)"
      by (rule rdn_label [OF p True])
    have "rdn_loop fuel buf n (i + 1 + length l) dest' (length (s @ [46] @ l)) (br + int (length l) + 1) = Fault"
      by (rule Cons.IH) (use Cons.prems d drop_label [OF p(2)] in auto)
    with d(3) show ?thesis by simp
  next
    case False
    have k: "0 < length l" "length l \<le> MAX_SUBDOMAIN_LENGTH" using p(1) by (auto simp: label_ok_def)
    have b: "rd_byte buf i = Ok (of_nat (length l))" using p(2,4) by (metis rd_byte_def nth_via_drop)
    have l: "take (length l) (drop (i + 1) buf) = l"
      using p(2) by (metis Suc_eq_plus1 append_eq_conv_conj drop_Suc list.sel(3) tl_drop)
    have "wr_bytes dest (length s) [46] = Ok (s @ [46] @ drop (length s + 1) dest)"
      using Cons.prems(4) by (auto simp: wr_bytes_def ends_at_def)
    moreover have "wr_bytes (s @ [46] @ drop (length s + 1) dest) (length s + 1) (l @ [0]) = Fault"
      using False ends_at_length [OF Cons.prems(4)] by (simp add: wr_bytes_def)
    ultimately show ?thesis
      using p(3) Cons.prems(5) label_byte [OF k]
      by (simp add: rdn_loop.simps [of fuel buf n i] b l Let_def del: One_nat_def add_Suc_right)
  qed
qed

lemma read_domain_name_enc:
  assumes "list_all label_ok ls" "ls \<noteq> []" "drop i buf = enc_labels ls @ 0 # xs"
    "i + length (enc_labels ls) < n" "length (domain_of ls) \<le> length dest"
  shows "\<exists>dest'. read_domain_name fuel buf n i dest = Ok (int (length (enc_labels ls)) + 1, dest') \<and>
    ends_at dest' (dotted ls) \<and> length dest' = length dest"
proof (cases ls)
  case (Cons l ls')
  have p: "label_ok l" "drop i buf = of_nat (length l) # l @ (enc_labels ls' @ 0 # xs)" "i + 1 + length l < n"
      "i < length buf" "take 0 dest = []" "0 \<le> length dest" "(0::int) \<le> 0" "[] = (if (0::int) < 0 then [46::byte] else [])"
      "0 + length ([]::byte list) + length l + 1 \<le> length dest"
    using assms Cons by (auto intro: ccontr)
  obtain dest' where d: "ends_at dest' ([] @ [] @ l)" "length dest' = length dest"
      "rdn_loop fuel buf n i dest 0 0 =
        rdn_loop fuel buf n (i + 1 + length l) dest' (0 + length ([]::byte list) + length l) (0 + int (length l) + 1)"
    by (rule rdn_label [OF p])
  have "\<exists>dest''. rdn_loop fuel buf n (i + 1 + length l) dest' (length l) (int (length l) + 1) =
      Ok ((int (length l) + 1) + int (length (enc_labels ls')) + 1, dest'') \<and>
      ends_at dest'' (l @ domain_of ls') \<and> length dest'' = length dest'"
    by (rule rdn_labels) (use assms Cons d drop_label [OF p(2)] in auto)
  with d Cons p(3) show ?thesis by (auto simp: read_domain_name_def add.assoc)
qed (use assms in simp)

section \<open>Requests read back\<close>

lemma length_header_bytes [simp]: "length (header_bytes h) = 12"
  by (simp add: header_bytes_def)

lemma length_trailer_bytes [simp]: "length (trailer_bytes t) = 4"
  by (simp add: trailer_bytes_def)

lemma length_dotted: "ls \<noteq> [] \<Longrightarrow> length (dotted ls) + 1 = length (domain_of ls)"
  by (cases ls) auto

definition request_header :: "nat \<Rightarrow> dns_header" where
  "request_header rid = \<lparr>hdr_id = htons (of_nat rid), flags = htons DNS_USE_RECURSION, qd_count = htons 1,
     an_count = htons 0, ns_count = htons 0, ar_count = htons 0\<rparr>"

definition request_bytes :: "byte list list \<Rightarrow> 16 word \<Rightarrow> nat \<Rightarrow> byte list" where
  "request_bytes ls qt rid = header_bytes (request_header rid) @ enc_labels ls @ [0] @
     trailer_bytes \<lparr>q_type = htons qt, q_class = htons DNS_INET_ADDR\<rparr>"

lemma build_request:
  assumes "list_all label_ok ls" "ls \<noteq> []" "length (dotted ls) \<le> MAX_DOMAIN_LENGTH"
  shows "build_dns_request_packet (dotted ls) qt rnd True =
    Inr (map Some (request_bytes ls qt (rnd mod 65535)), length (request_bytes ls qt (rnd mod 65535)), rnd mod 65535)"
  using assms length_dotted [OF assms(2)] length_enc_labels [of ls]
  by (simp add: build_dns_request_packet_def Let_def tokens_dotted put_labels_enc request_bytes_def request_header_def)

lemma drop_request: "drop 12 (request_bytes ls qt rid) = enc_labels ls @ 0 # trailer_bytes \<lparr>q_type = htons qt, q_class = htons DNS_INET_ADDR\<rparr>"
  by (simp add: request_bytes_def)

text \<open>C29: The question of a request is the name that was asked for. For every name of well-formed labels
  of at most 255 characters the request packet is built, every byte of it is written, and reading
  the name at the question section of that packet gives the name back, with the number of bytes
  that leads to the question trailer.\<close>

theorem request_name_roundtrip:
  assumes "list_all label_ok ls" and "ls \<noteq> []" and "length (dotted ls) \<le> MAX_DOMAIN_LENGTH"
    and "length dest = 256"
  shows "\<exists>pkt dest'. build_dns_request_packet (dotted ls) qt rnd True =
           Inr (map Some pkt, length pkt, rnd mod 65535) \<and>
         read_domain_name fuel pkt (length pkt) 12 dest = Ok (int (length (dotted ls)) + 2, dest') \<and>
         cstring dest' = Ok (dotted ls)"
proof -
  let ?pkt = "request_bytes ls qt (rnd mod 65535)"
  note l = length_dotted [OF assms(2)] length_enc_labels [of ls]
  have "\<exists>dest'. read_domain_name fuel ?pkt (length ?pkt) 12 dest = Ok (int (length (enc_labels ls)) + 1, dest') \<and>
      ends_at dest' (dotted ls) \<and> length dest' = length dest"
    by (rule read_domain_name_enc [OF assms(1,2) drop_request])
       (use assms(3,4) l in \<open>simp_all add: request_bytes_def\<close>)
  then obtain dest' where d: "read_domain_name fuel ?pkt (length ?pkt) 12 dest = Ok (int (length (dotted ls)) + 2, dest')"
      "ends_at dest' (dotted ls)" using l by auto
  have "0 \<notin> set (dotted ls)"
    using assms(1,2) by (cases ls) (auto simp: domain_of_def label_ok_def list_all_iff)
  with build_request [OF assms(1-3)] d ends_at_cstring show ?thesis by blast
qed

theorem request_name_roundtrip_witness:
  "\<exists>pkt dest'. build_dns_request_packet [97, 98, 46, 99] 1 7 True = Inr (map Some pkt, length pkt, 7) \<and>
     read_domain_name 0 pkt (length pkt) 12 (replicate 256 0) = Ok (6, dest') \<and> cstring dest' = Ok [97, 98, 46, 99]"
  using request_name_roundtrip [of "[[97, 98], [99]]" "replicate 256 0" 1 7 0] by (simp add: label_ok_def)

text \<open>The destination buffer is not protected. A packet whose name is longer than the 255 characters that
  fit the buffer (labels of legal length, only too many of them) makes the reader write past its end.\<close>

theorem long_name_overflows:
  assumes "list_all label_ok (l # ls)" and "drop i buf = enc_labels (l # ls) @ 0 # xs"
    and "i + length (enc_labels (l # ls)) < n" and "length dest = 256" and "255 < length (dotted (l # ls))"
  shows "read_domain_name fuel buf n i dest = Fault"
proof -
  have p: "label_ok l" "drop i buf = of_nat (length l) # l @ (enc_labels ls @ 0 # xs)" "i + 1 + length l < n"
      "i < length buf" "take 0 dest = []" "0 \<le> length dest" "(0::int) \<le> 0" "[] = (if (0::int) < 0 then [46::byte] else [])"
      "0 + length ([]::byte list) + length l + 1 \<le> length dest"
    using assms by (auto intro: ccontr simp: label_ok_def)
  obtain dest' where d: "ends_at dest' ([] @ [] @ l)" "length dest' = length dest"
      "rdn_loop fuel buf n i dest 0 0 =
        rdn_loop fuel buf n (i + 1 + length l) dest' (0 + length ([]::byte list) + length l) (0 + int (length l) + 1)"
    by (rule rdn_label [OF p])
  have "rdn_loop fuel buf n (i + 1 + length l) dest' (length l) (int (length l) + 1) = Fault"
    by (rule rdn_labels_fault) (use assms d drop_label [OF p(2)] in auto)
  with d(3) p(3) show ?thesis by (simp add: read_domain_name_def)
qed

theorem long_name_overflows_witness:
  "read_domain_name 0 (enc_labels (replicate 5 (replicate 60 97)) @ [0]) 306 0 (replicate 256 0) = Fault"
proof -
  have r: "replicate 5 (replicate 60 97) = replicate 60 97 # replicate 4 (replicate 60 (97::byte))"
    by (simp add: numeral_eq_Suc)
  have len: "length (domain_of (replicate 4 (replicate 60 (97::byte)))) = 244"
    by (simp add: domain_of_def length_concat sum_list_replicate)
  show ?thesis
    unfolding r
    by (rule long_name_overflows [where xs = "[]" and l = "replicate 60 97" and ls = "replicate 4 (replicate 60 97)"])
       (simp_all add: label_ok_def list_all_iff length_enc_labels len)
qed

text \<open>A name whose pointer leads back to itself is never read to the end: whatever nesting is allowed, the
  reader needs more. The code has no such limit and recurses until the stack is used up.\<close>

theorem self_pointer_diverges:
  assumes "i < n" and "i + 1 < length buf" and "buf ! i AND DNS_POINTER_FLAG = DNS_POINTER_FLAG"
    and "unat (htons (rd16 (buf ! i) (buf ! (i + 1))) AND DNS_POINTER_OFFSET_MASK) = i"
  shows "read_domain_name fuel buf n i dest = NoFuel"
proof -
  have nz: "buf ! i \<noteq> 0" using assms(3) by auto
  have "rdn_loop fuel buf n i dest 0 0 = NoFuel" for fuel
  proof (induction fuel)
    case 0
    then show ?case using assms nz by (simp add: rdn_loop.simps [of 0] rd_byte_def rd_u16_def)
  next
    case (Suc f)
    then show ?case using assms nz by (simp add: rdn_loop.simps [of "Suc f"] rd_byte_def rd_u16_def)
  qed
  with assms(1) show ?thesis by (simp add: read_domain_name_def)
qed

theorem self_pointer_diverges_witness:
  "read_domain_name 1000 [0xc0, 0] 2 0 (replicate 256 0) = NoFuel"
proof -
  have "unat (htons (rd16 0xc0 0) AND DNS_POINTER_OFFSET_MASK) = 0" by code_simp
  then show ?thesis using self_pointer_diverges [of 0 2 "[0xc0, 0]" 1000 "replicate 256 0"] by simp
qed

section \<open>Compressed names\<close>

text \<open>
  Section 4.1.4 of RFC 1035: a pointer is two bytes, with two bits set and the offset of another name in the packet. A name is labels with their lengths,
  ended by a zero byte or by a pointer. The judgement gives the number of pointers that are followed, the labels and the number of bytes the
  name takes at its place. A pointer leads to a name that is not the root.
\<close>

definition name_pointer :: "nat \<Rightarrow> byte list" where
  "name_pointer off = mem16 (htons (0xc000 OR of_nat off))"

inductive rfc_name :: "byte list \<Rightarrow> nat \<Rightarrow> nat \<Rightarrow> byte list list \<Rightarrow> nat \<Rightarrow> bool" for pkt where
  root: "drop i pkt = 0 # rest \<Longrightarrow> rfc_name pkt 0 i [] 1"
| label: "drop i pkt = of_nat (length l) # l @ rest \<Longrightarrow> label_ok l \<Longrightarrow> rfc_name pkt k (i + 1 + length l) ls sz \<Longrightarrow>
    rfc_name pkt k i (l # ls) (1 + length l + sz)"
| pointer: "drop i pkt = name_pointer off @ rest \<Longrightarrow> off < 2 ^ 14 \<Longrightarrow> rfc_name pkt k off ls sz \<Longrightarrow> ls \<noteq> [] \<Longrightarrow>
    rfc_name pkt (Suc k) i ls 2"

inductive_cases rfc_name_root: "rfc_name pkt k i [] sz"

lemma rfc_name_inside: "rfc_name pkt k i ls sz \<Longrightarrow> i < length pkt"
  by (erule rfc_name.cases) (auto simp: name_pointer_def mem16_def intro: ccontr)

lemma pointer_word:
  assumes "off < 2 ^ 14"
  shows "unat ((0xc000 OR of_nat off :: 16 word) AND DNS_POINTER_OFFSET_MASK) = off"
    "ucast (drop_bit 8 (0xc000 OR of_nat off :: 16 word)) AND DNS_POINTER_FLAG = DNS_POINTER_FLAG"
proof -
  have m: "(0x3fff :: 16 word) = mask 14" by (simp add: mask_eq_exp_minus_1)
  have t: "take_bit 14 (0xc000 :: 16 word) = 0" by code_simp
  have "take_bit 14 (of_nat off :: 16 word) = of_nat off" using assms by (simp add: take_bit_of_nat take_bit_nat_eq_self)
  then have "(0xc000 OR of_nat off :: 16 word) AND 0x3fff = of_nat off" unfolding m take_bit_eq_mask [symmetric] take_bit_or t by simp
  then show "unat ((0xc000 OR of_nat off :: 16 word) AND DNS_POINTER_OFFSET_MASK) = off"
    using assms by (simp add: unsigned_of_nat take_bit_nat_eq_self)
  have d: "ucast (drop_bit 8 (0xc000 :: 16 word)) = DNS_POINTER_FLAG" by code_simp
  have "(DNS_POINTER_FLAG OR y) AND DNS_POINTER_FLAG = DNS_POINTER_FLAG" for y by (rule bit_word_eqI) (auto simp: bit_simps)
  then show "ucast (drop_bit 8 (0xc000 OR of_nat off :: 16 word)) AND DNS_POINTER_FLAG = DNS_POINTER_FLAG"
    by (simp only: drop_bit_or unsigned_or_eq d)
qed

text \<open>The loop at a pointer: a dot behind an earlier label, then the name at the offset.\<close>

lemma rdn_pointer:
  assumes "drop i pkt = name_pointer off @ rest" "off < 2 ^ 14" "off < n" "(if 0 < br then wr_bytes dest d [46] else Ok dest) = Ok dest1"
  shows "rdn_loop (Suc f) pkt n i dest d br =
    bind_outcome (rdn_loop f pkt n off dest1 (if 0 < br then d + 1 else d) 0) (\<lambda>(r, dest2). Ok (br + 2, dest2))"
proof -
  let ?w = "0xc000 OR of_nat off :: 16 word"
  have u: "rd_u16 pkt i = Ok (htons ?w)" by (rule rd_u16_mem16 [OF assms(1) [unfolded name_pointer_def]])
  have "drop i pkt = ucast (drop_bit 8 ?w) # ucast ?w # rest" using assms(1) unfolding name_pointer_def mem16_htons by (simp add: mem16_def)
  then have b: "rd_byte pkt i = Ok (ucast (drop_bit 8 ?w))"
    by (cases "i < length pkt") (auto simp: rd_byte_def nth_via_drop)
  have nz: "ucast (drop_bit 8 ?w) \<noteq> (0 :: byte)" using pointer_word(2) [OF assms(2)] by auto
  show ?thesis
    using assms(3) pointer_word [OF assms(2)] nz
    by (simp add: rdn_loop.simps [of "Suc f" pkt n i dest d br] b u assms(4) Let_def del: word_not_simps)
qed

lemma domain_of_dotted: "ls \<noteq> [] \<Longrightarrow> domain_of ls = 46 # dotted ls"
  by (cases ls) (simp_all add: domain_of_def dotted_def)

lemma wr_dot:
  assumes "take (length s) dest = s" "length s < length dest"
  shows "wr_bytes dest (length s) [46] = Ok (s @ 46 # drop (length s + 1) dest)" "length (s @ 46 # drop (length s + 1) dest) = length dest"
  using assms(2) by (simp_all add: wr_bytes_def assms(1))

text \<open>
  Reading a name behind what is already in the destination: nothing at the start of a name or behind the dot of a pointer, and the text of the earlier
  labels with a NUL behind it otherwise.
\<close>

lemma rdn_name:
  assumes "rfc_name pkt k i ls sz" "k \<le> fuel" "take (length s) dest = s" "length s \<le> length dest" "0 \<le> br"
    "br = 0 \<Longrightarrow> ls \<noteq> []" "0 < br \<Longrightarrow> ends_at dest s" "length s + length (if br = 0 then dotted ls else domain_of ls) < length dest"
  shows "\<exists>dest'. rdn_loop fuel pkt (length pkt) i dest (length s) br = Ok (br + int sz, dest') \<and>
    ends_at dest' (s @ (if br = 0 then dotted ls else domain_of ls)) \<and> length dest' = length dest"
  using assms
proof (induction arbitrary: fuel dest s br rule: rfc_name.induct)
  case (root i rest)
  then show ?case by (auto simp: rdn_root)
next
  case (label i l rest k ls sz)
  let ?dot = "if 0 < br then [46] else [] :: byte list"
  have t: "(if br = 0 then dotted (l # ls) else domain_of (l # ls)) = ?dot @ l @ domain_of ls"
    using label.prems(4) by (simp add: dotted_def)
  have fits: "length s + length ?dot + length l + length (domain_of ls) + 1 \<le> length dest" using label.prems(7) unfolding t by simp
  have n: "i + 1 + length l < length pkt" "i < length pkt" using rfc_name_inside [OF label.hyps(3)] by simp_all
  obtain dest' where d: "ends_at dest' (s @ ?dot @ l)" "length dest' = length dest"
      "rdn_loop fuel pkt (length pkt) i dest (length s) br =
         rdn_loop fuel pkt (length pkt) (i + 1 + length l) dest' (length s + length ?dot + length l) (br + int (length l) + 1)"
    using rdn_label [OF label.hyps(2, 1) n label.prems(2-4) refl, of fuel] fits by auto
  have "take (length (s @ ?dot @ l)) dest' = s @ ?dot @ l" "length (s @ ?dot @ l) \<le> length dest'" using d(1) by (auto simp: ends_at_def)
  note ih = label.IH [OF label.prems(1) this, of "br + int (length l) + 1"]
  have nb: "0 < br + int (length l) + 1" "\<not> br + int (length l) + 1 = 0" using label.prems(4) by linarith+
  have len: "length (s @ ?dot @ l) + length (domain_of ls) < length dest'" using fits d(2) by simp
  have "\<exists>dest''. rdn_loop fuel pkt (length pkt) (i + 1 + length l) dest' (length (s @ ?dot @ l)) (br + int (length l) + 1) =
      Ok (br + int (length l) + 1 + int sz, dest'') \<and> ends_at dest'' ((s @ ?dot @ l) @ domain_of ls) \<and> length dest'' = length dest'"
    by (rule ih [unfolded if_not_P [OF nb(2)], OF _ _ d(1) len]) (use nb in simp_all)
  moreover have "length (s @ ?dot @ l) = length s + length ?dot + length l" by simp
  ultimately have "\<exists>dest''. rdn_loop fuel pkt (length pkt) i dest (length s) br = Ok (br + int (length l) + 1 + int sz, dest'') \<and>
      ends_at dest'' ((s @ ?dot @ l) @ domain_of ls) \<and> length dest'' = length dest'" unfolding d(3) by metis
  then show ?case unfolding t d(2) by (simp only: append_assoc of_nat_add of_nat_1 ac_simps)
next
  case (pointer i off rest k ls sz)
  let ?dot = "if 0 < br then [46] else [] :: byte list"
  obtain f where f: "fuel = Suc f" "k \<le> f" using pointer.prems(1) by (cases fuel) auto
  have t: "(if br = 0 then dotted ls else domain_of ls) = ?dot @ dotted ls" using pointer.prems(4) domain_of_dotted [OF pointer.hyps(4)] by simp
  have fits: "length (s @ ?dot) + length (dotted ls) < length dest" using pointer.prems(7) unfolding t by simp
  obtain dest1 where w: "(if 0 < br then wr_bytes dest (length s) [46] else Ok dest) = Ok dest1" "take (length (s @ ?dot)) dest1 = s @ ?dot" "length dest1 = length dest"
  proof (cases "0 < br")
    case True
    have "length s < length dest" using fits by simp
    note wr_dot [OF pointer.prems(2) this]
    with True show ?thesis by (intro that [of "s @ 46 # drop (length s + 1) dest"]) simp_all
  next
    case False
    with pointer.prems(2) show ?thesis by (intro that [of dest]) simp_all
  qed
  have l: "(if 0 < br then length s + 1 else length s) = length (s @ ?dot)" by simp
  obtain dest' where "rdn_loop f pkt (length pkt) off dest1 (length (s @ ?dot)) 0 = Ok (0 + int sz, dest')"
      "ends_at dest' ((s @ ?dot) @ dotted ls)" "length dest' = length dest1"
    using pointer.IH [OF f(2) w(2), of 0] w(3) fits pointer.hyps(4) by fastforce
  then show ?case unfolding t f(1) rdn_pointer [OF pointer.hyps(1, 2) rfc_name_inside [OF pointer.hyps(3)] w(1)] l using w(3) by auto
qed

lemma rfc_name_labels: "rfc_name pkt k i ls sz \<Longrightarrow> list_all label_ok ls"
  by (induction rule: rfc_name.induct) auto

text \<open>C39: Names are read as RFC 1035 compresses them. For every name in a packet, with any number of pointers in any places of the packet, none of them to
  the root, that has at most 255 characters, \<^verbatim>\<open>read_domain_name\<close> stays in the packet and in a destination of 256 bytes; the destination then holds the labels with
  dots between them, and the value returned is the number of bytes the name takes at its place, up to the first pointer.\<close>

theorem compressed_name_read:
  assumes "rfc_name pkt k i ls sz" and "ls \<noteq> []" and "length (dotted ls) \<le> MAX_DOMAIN_LENGTH" and "k \<le> fuel" and "length dest = 256"
  shows "\<exists>dest'. read_domain_name fuel pkt (length pkt) i dest = Ok (int sz, dest') \<and> cstring dest' = Ok (dotted ls) \<and> length dest' = 256"
proof -
  obtain dest' where d: "rdn_loop fuel pkt (length pkt) i dest 0 0 = Ok (int sz, dest')" "ends_at dest' (dotted ls)" "length dest' = 256"
    using rdn_name [OF assms(1, 4), of "[]" dest 0] assms(2, 3, 5) by auto
  have "0 \<notin> set (dotted ls)"
    using rfc_name_labels [OF assms(1)] assms(2) by (cases ls) (auto simp: domain_of_def label_ok_def list_all_iff dotted_def)
  then show ?thesis using d ends_at_cstring rfc_name_inside [OF assms(1)] by (simp add: read_domain_name_def)
qed

text \<open>Three names: \<open>b.c\<close> at the start, \<open>a\<close> before a pointer to it, and a pointer to the second one.\<close>

definition sample_names :: "byte list" where
  "sample_names = 7 # [1, 98, 1, 99, 0] @ [1, 97] @ name_pointer 1 @ name_pointer 6"

lemma rfc_name_label_at:
  "rfc_name pkt k j ls sz \<Longrightarrow> j = i + 1 + length l \<Longrightarrow> sz' = 1 + length l + sz \<Longrightarrow> drop i pkt = of_nat (length l) # l @ drop j pkt \<Longrightarrow> label_ok l \<Longrightarrow>
   rfc_name pkt k i (l # ls) sz'"
  using rfc_name.label by blast

theorem compressed_name_read_witness:
  "(\<exists>dest'. read_domain_name 2 sample_names (length sample_names) 6 (replicate 256 0) = Ok (4, dest') \<and> cstring dest' = Ok [97, 46, 98, 46, 99]) \<and>
   (\<exists>dest'. read_domain_name 2 sample_names (length sample_names) 10 (replicate 256 0) = Ok (2, dest') \<and> cstring dest' = Ok [97, 46, 98, 46, 99])"
proof -
  have c: "rfc_name sample_names 0 5 [] 1" by (rule rfc_name.root [where rest = "drop 6 sample_names"]) (simp add: sample_names_def)
  have c: "rfc_name sample_names 0 3 [[99]] 3" by (rule rfc_name_label_at [OF c]) (simp_all add: sample_names_def label_ok_def)
  have c: "rfc_name sample_names 0 1 [[98], [99]] 5" by (rule rfc_name_label_at [OF c]) (simp_all add: sample_names_def label_ok_def)
  have c: "rfc_name sample_names (Suc 0) 8 [[98], [99]] 2"
    by (rule rfc_name.pointer [OF _ _ c, where rest = "name_pointer 6"]) (simp_all add: sample_names_def)
  have a: "rfc_name sample_names (Suc 0) 6 [[97], [98], [99]] 4" by (rule rfc_name_label_at [OF c]) (simp_all add: sample_names_def label_ok_def)
  have b: "rfc_name sample_names (Suc (Suc 0)) 10 [[97], [98], [99]] 2"
    by (rule rfc_name.pointer [OF _ _ a, where rest = "[]"]) (simp_all add: sample_names_def name_pointer_def)
  show ?thesis using compressed_name_read [OF a, of 2 "replicate 256 0"] compressed_name_read [OF b, of 2 "replicate 256 0"] by (auto simp: dotted_def)
qed

section \<open>What a response is checked for\<close>

text \<open>The value of an answer that is accepted.\<close>

lemma case_sum_Ok:
  "(case res of Inl e \<Rightarrow> Ok (Inl e) | Inr p \<Rightarrow> f p) = Ok (Inr x) \<longleftrightarrow> (\<exists>p. res = Inr p \<and> f p = Ok (Inr x))"
  by (cases res) auto

lemma name_at_Ok: "name_at fuel buf n i dest f = Ok (Inr x) \<Longrightarrow>
   \<exists>r dest1. read_domain_name fuel buf n i dest = Ok (r, dest1) \<and> r \<noteq> -1 \<and> f (nat r) dest1 = Ok (Inr x)"
  by (auto simp: name_at_def bind_outcome_Ok_iff split: if_splits)

lemma advance_Ok: "advance n i k f = Ok (Inr x) \<Longrightarrow> i + k < n \<and> f (i + k) = Ok (Inr x)"
  by (auto simp: advance_def increment_buffer_index_def split: if_splits)

lemma parse_rdata_keeps:
  "parse_rdata fuel buf n i len r = Ok (Inr (r', j, len')) \<Longrightarrow> cache_time r' = cache_time r"
  by (auto simp: parse_rdata_def Let_def bind_outcome_Ok_iff split: if_splits dest!: name_at_Ok advance_Ok)

lemma ttl_low_bits: "htonl (ucast (t :: 16 word)) AND 0xFFFF = 0"
proof -
  have m: "(0xFFFF :: 32 word) = mask 16" by code_simp
  have "take_bit 16 (htonl (ucast t)) = 0"
    by (rule bit_word_eqI) (auto simp: htonl_def bit_simps dest: bit_imp_le_length)
  then show ?thesis unfolding m take_bit_eq_mask .
qed

lemma parse_answer_ttl:
  assumes "parse_answer fuel buf n lastp auth i buffer = Ok (Inr (r, j, b))"
  shows "cache_time r AND 0xFFFF = 0"
  using assms unfolding parse_answer_def Let_def
  by (auto simp: bind_outcome_Ok_iff case_sum_Ok ttl_low_bits increment_buffer_index_def split: if_splits prod.splits
      dest!: name_at_Ok advance_Ok parse_rdata_keeps)

lemma parse_answers_Ok:
  "parse_answers fuel buf n auth k i buffer = Ok (Inr rs) \<Longrightarrow>
   length rs = k \<and> (\<forall>r \<in> set rs. cache_time r AND 0xFFFF = 0)"
proof (induction k arbitrary: i buffer rs)
  case (Suc k)
  then obtain r i1 b1 rs' where "parse_answer fuel buf n (k = 0) auth i buffer = Ok (Inr (r, i1, b1))"
      "parse_answers fuel buf n auth k i1 b1 = Ok (Inr rs')" "rs = r # rs'"
    by (auto simp: bind_outcome_Ok_iff case_sum_Ok)
  with Suc.IH [of i1 b1 rs'] parse_answer_ttl show ?case by auto
qed simp

lemma case_parsed_Ok:
  "(case res of Inl e \<Rightarrow> Ok (ParseError e) | Inr rs' \<Rightarrow> Ok (Answers rs')) = Ok (Answers rs) \<longleftrightarrow> res = Inr rs"
  by (cases res) auto

lemma parse_dns_response_Answers:
  assumes "parse_dns_response fuel buf n expected_id domain_name buffer mem = Ok (Answers rs)"
  obtains h r b auth i where "read_header buf = Ok h" "check_header h expected_id = None"
    "read_domain_name fuel buf n 12 buffer = Ok (r, b)" "r \<noteq> -1" "cstring b = Ok domain_name"
    "parse_answers fuel buf n auth (unat (min (an_count h) MAX_AN_COUNT)) i b = Ok (Inr rs)"
proof -
  from assms obtain h where h: "read_header buf = Ok h" "check_header h expected_id = None"
    by (auto simp: parse_dns_response_def bind_outcome_Ok_iff check_header_def Let_def
        split: if_splits option.splits)
  let ?k = "unat (min (an_count h) MAX_AN_COUNT)"
  let ?auth = "if flags h AND DNS_AUTH_ANS \<noteq> 0 then 1 else 0 :: byte"
  have "name_at fuel buf n 12 buffer (\<lambda>bytes_read buffer1. advance n 12 bytes_read (\<lambda>i1.
      bind_outcome (cstring buffer1) (\<lambda>nm. if nm \<noteq> domain_name then Ok (Inl DomainMismatch)
        else advance n i1 4 (\<lambda>i2. if \<not> mem then Ok (Inl NoMemoryForResponse)
          else parse_answers fuel buf n ?auth ?k i2 buffer1)))) = Ok (Inr rs)"
    using assms h by (simp add: parse_dns_response_def bind_outcome_Ok_iff case_parsed_Ok Let_def split: if_splits)
  then obtain r b i where "read_domain_name fuel buf n 12 buffer = Ok (r, b)" "r \<noteq> -1" "cstring b = Ok domain_name"
      "parse_answers fuel buf n ?auth ?k i b = Ok (Inr rs)"
    by (auto simp: bind_outcome_Ok_iff dest!: name_at_Ok advance_Ok split: if_splits)
  with h show ?thesis by (rule that)
qed

section \<open>An address response read back\<close>

text \<open>
  The response a server sends to a request for an address: the question repeated, and one answer whose
  name is a pointer to the question.
\<close>

definition response_header :: "16 word \<Rightarrow> dns_header" where
  "response_header rid = \<lparr>hdr_id = htons rid, flags = htons 0x8180, qd_count = htons 1, an_count = htons 1,
     ns_count = htons 0, ar_count = htons 0\<rparr>"

definition answer_bytes :: "32 word \<Rightarrow> 32 word \<Rightarrow> byte list" where
  "answer_bytes ttl ip = [0xc0, 0x0c] @ mem16 (htons DNS_A_RECORD) @ mem16 (htons DNS_INET_ADDR) @ mem32 (htonl ttl) @
     mem16 (htons 4) @ mem32 (htonl ip)"

definition response_bytes :: "byte list list \<Rightarrow> 16 word \<Rightarrow> 32 word \<Rightarrow> 32 word \<Rightarrow> byte list" where
  "response_bytes ls rid ttl ip = header_bytes (response_header rid) @ (enc_labels ls @ [0]) @
     trailer_bytes \<lparr>q_type = htons DNS_A_RECORD, q_class = htons DNS_INET_ADDR\<rparr> @ answer_bytes ttl ip"

lemma read_header_response:
  "read_header (response_bytes ls rid ttl ip @ ys) =
     Ok \<lparr>hdr_id = rid, flags = 0x8180, qd_count = 1, an_count = 1, ns_count = 0, ar_count = 0\<rparr>"
  by (simp add: read_header_def response_bytes_def response_header_def header_bytes_def
      rd_u16_mem16 [where i = 0] rd_u16_def mem16_def rd16_mem16 [unfolded mem16_def])

lemma pointer_bytes:
  "(0xc0::byte) AND DNS_POINTER_FLAG = DNS_POINTER_FLAG"
  "unat (htons (rd16 0xc0 0x0c) AND DNS_POINTER_OFFSET_MASK) = 12"
  by code_simp+

lemma read_pointer:
  assumes "drop i buf = [0xc0, 0x0c] @ xs" "i < n" "12 < n" "rdn_loop f buf n 12 dest 0 0 = Ok (r, dest')"
  shows "read_domain_name (Suc f) buf n i dest = Ok (2, dest')"
  using drop_nth [OF assms(1), of 0] drop_nth [OF assms(1), of 1] assms(2-) pointer_bytes
  by (simp add: read_domain_name_def rdn_loop.simps [of "Suc f" buf n i] rd_byte_def rd_u16_def)

lemma check_header_response:
  "check_header \<lparr>hdr_id = rid, flags = 0x8180, qd_count = 1, an_count = 1, ns_count = 0, ar_count = 0\<rparr> (uint rid) = None"
proof -
  have "(0x8180 :: 16 word) AND DNS_QR_RESPONSE \<noteq> 0 \<and> (0x8180 :: 16 word) AND DNS_TRUNCATED = 0 \<and>
      (0x8180 :: 16 word) AND DNS_RECURSION_AVAIL \<noteq> 0 \<and> (0x8180 :: 16 word) AND DNS_ERROR_MASK = 0" by code_simp
  then show ?thesis by (simp add: check_header_def)
qed

lemma upper_half: "mem32 (htonl t) = [a, b, c, d] \<Longrightarrow> htonl (ucast (rd16 a b)) = push_bit 16 (drop_bit 16 t)"
  by (rule bit_word_eqI) (auto simp: mem32_def htonl_def rd16_def bit_simps)

lemma rd_u16_ttl: "drop i buf = mem32 (htonl t) @ xs \<Longrightarrow>
    \<exists>w. rd_u16 buf i = Ok w \<and> htonl (ucast w) = push_bit 16 (drop_bit 16 t)"
proof -
  assume d: "drop i buf = mem32 (htonl t) @ xs"
  obtain a b c e where m: "mem32 (htonl t) = [a, b, c, e]" by (simp add: mem32_def)
  with d drop_nth [OF d, of 0] drop_nth [OF d, of 1] have "rd_u16 buf i = Ok (rd16 a b)" by (simp add: rd_u16_def)
  with upper_half [OF m] show ?thesis by blast
qed

definition address_answer :: "32 word \<Rightarrow> 32 word \<Rightarrow> dns_response" where
  "address_answer ttl ip = \<lparr>response_type = DNS_A_RECORD, preference = 0, cache_time = push_bit 16 (drop_bit 16 ttl),
     ip_address = ip, rname = replicate 256 0, authoritative = 0\<rparr>"

lemma parse_answer_address:
  assumes "drop i buf = answer_bytes ttl ip @ ys" "n = i + 16" "read_domain_name fuel buf n i dest = Ok (2, dest')"
  shows "parse_answer fuel buf n True 0 i dest = Ok (Inr (address_answer ttl ip, n, dest'))"
proof -
  note d0 = assms(1) [unfolded answer_bytes_def append_assoc]
  note d1 = drop_more [OF d0, of 2, simplified] 
  note d2 = drop_more [OF d1, of 2, simplified]
  note d3 = drop_more [OF d2, of 2, simplified]
  note d4 = drop_more [OF d3, of 4, simplified]
  note d5 = drop_more [OF d4, of 2, simplified]
  obtain w where w: "rd_u16 buf (i + 2 + 2 + 2) = Ok w" "htonl (ucast w) = push_bit 16 (drop_bit 16 ttl)"
    using rd_u16_ttl [OF d3] by auto
  show ?thesis
    unfolding parse_answer_def name_at_def advance_def increment_buffer_index_def
    using rd_u16_mem16 [OF d1] rd_u16_mem16 [OF d2] w rd_u16_mem16 [OF d4] rd_u32_mem32 [OF d5] assms(2,3)
    by (simp add: parse_rdata_def address_answer_def)
qed

lemma address_response:
  assumes "list_all label_ok ls" and "ls \<noteq> []" and "length (dotted ls) \<le> MAX_DOMAIN_LENGTH" and "length buffer = 256"
  shows "parse_dns_response (Suc fuel) (response_bytes ls rid ttl ip @ ys) (length (response_bytes ls rid ttl ip))
    (uint rid) (dotted ls) buffer True = Ok (Answers [address_answer ttl ip])"
proof -
  let ?buf = "response_bytes ls rid ttl ip @ ys" and ?n = "length (response_bytes ls rid ttl ip)"
  let ?T = "trailer_bytes \<lparr>q_type = htons DNS_A_RECORD, q_class = htons DNS_INET_ADDR\<rparr>"
  let ?i = "12 + length (enc_labels ls) + 1"
  have n: "?n = ?i + 4 + 16" by (simp add: response_bytes_def answer_bytes_def)
  have d: "drop 12 ?buf = (enc_labels ls @ [0]) @ ?T @ answer_bytes ttl ip @ ys" by (simp add: response_bytes_def)
  have dq: "drop 12 ?buf = enc_labels ls @ 0 # (?T @ answer_bytes ttl ip @ ys)" using d by simp
  have "drop ?i ?buf = ?T @ answer_bytes ttl ip @ ys" using drop_more [OF d] by (simp add: add.assoc)
  then have da: "drop (?i + 4) ?buf = answer_bytes ttl ip @ ys" by (rule drop_more) simp
  have fit: "length (domain_of ls) \<le> 256" using assms(2,3) length_dotted by fastforce
  have nul: "0 \<notin> set (dotted ls)"
    using assms(1,2) by (cases ls) (auto simp: domain_of_def label_ok_def list_all_iff)
  have enc: "\<exists>b. read_domain_name f ?buf ?n 12 b0 = Ok (int (length (enc_labels ls)) + 1, b) \<and>
      ends_at b (dotted ls) \<and> length b = length b0" if "length b0 = 256" for f b0
    by (rule read_domain_name_enc [OF assms(1,2) dq]) (use n fit that in simp_all)
  obtain b1 where b1: "read_domain_name (Suc fuel) ?buf ?n 12 buffer = Ok (int (length (enc_labels ls)) + 1, b1)"
      "ends_at b1 (dotted ls)" "length b1 = 256" using enc [OF assms(4)] assms(4) by auto
  obtain b2 where b2: "read_domain_name fuel ?buf ?n 12 b1 = Ok (int (length (enc_labels ls)) + 1, b2)"
    using enc [OF b1(3)] by auto
  then have "rdn_loop fuel ?buf ?n 12 b1 0 0 = Ok (int (length (enc_labels ls)) + 1, b2)"
    using n by (simp add: read_domain_name_def)
  then have "read_domain_name (Suc fuel) ?buf ?n (?i + 4) b1 = Ok (2, b2)"
    by (rule read_pointer [rotated 3]) (use da n in \<open>simp_all add: answer_bytes_def\<close>)
  from parse_answer_address [OF da n this]
  have "parse_answers (Suc fuel) ?buf ?n 0 1 (?i + 4) b1 = Ok (Inr [address_answer ttl ip])" by simp
  moreover have "(0x8180 :: 16 word) AND DNS_AUTH_ANS = 0" "unat (min (1 :: 16 word) MAX_AN_COUNT) = 1" by code_simp+
  moreover have "12 \<le> ?n" using n by simp
  moreover have "advance ?n 12 (nat (int (length (enc_labels ls)) + 1)) f = f ?i" "advance ?n ?i 4 f = f (?i + 4)"
    for f :: "nat \<Rightarrow> (response_error + dns_response list) outcome"
    using n by (auto simp: advance_def increment_buffer_index_def nat_add_distrib)
  ultimately show ?thesis
    using b1 ends_at_cstring [OF b1(2) nul]
    by (simp add: parse_dns_response_def read_header_response check_header_response name_at_def Let_def not_less)
qed

text \<open>An address response is understood. For a well-formed name and any request id, lifetime and address, the
  response that repeats the question and answers with one address record (its name a pointer to the
  question) is accepted with exactly that address; one level of pointers is enough. Of the lifetime the
  upper half is delivered.\<close>

theorem address_response_roundtrip:
  assumes "list_all label_ok ls" and "ls \<noteq> []" and "length (dotted ls) \<le> MAX_DOMAIN_LENGTH" and "length buffer = 256"
  shows "parse_dns_response (Suc fuel) (response_bytes ls rid ttl ip @ ys) (length (response_bytes ls rid ttl ip))
    (uint rid) (dotted ls) buffer True = Ok (Answers [address_answer ttl ip])"
  using assms by (rule address_response)

theorem address_response_roundtrip_witness:
  "parse_dns_response 1 (response_bytes [[97, 98], [99]] 7 60 0x7f000001 @ [0])
     (length (response_bytes [[97, 98], [99]] 7 60 0x7f000001)) 7 [97, 98, 46, 99] (replicate 256 0) True =
   Ok (Answers [address_answer 60 0x7f000001])"
  using address_response_roundtrip [of "[[97, 98], [99]]" "replicate 256 0" 0 7 60 "0x7f000001" "[0]"]
  by (simp add: label_ok_def)

text \<open>Answers are delivered only from a response to the request: the id is the expected one, the packet is a
  response, complete, from a recursive server and without an error code, it has as many answers as
  its header says, up to 50 and at least one, and the name in its question section is the requested
  name.\<close>

theorem parse_dns_response_checked:
  assumes "parse_dns_response fuel buf n expected_id domain_name buffer mem = Ok (Answers rs)"
  shows "\<exists>h r b. read_header buf = Ok h \<and> uint (hdr_id h) = expected_id \<and> flags h AND DNS_QR_RESPONSE \<noteq> 0 \<and>
      flags h AND DNS_TRUNCATED = 0 \<and> flags h AND DNS_RECURSION_AVAIL \<noteq> 0 \<and>
      flags h AND DNS_ERROR_MASK \<notin> {1, 2, 3, 4, 5} \<and> length rs = unat (min (an_count h) MAX_AN_COUNT) \<and> rs \<noteq> [] \<and>
      read_domain_name fuel buf n 12 buffer = Ok (r, b) \<and> r \<noteq> -1 \<and> cstring b = Ok domain_name"
proof -
  obtain h r b auth i where h: "read_header buf = Ok h" "check_header h expected_id = None"
    "read_domain_name fuel buf n 12 buffer = Ok (r, b)" "r \<noteq> -1" "cstring b = Ok domain_name"
    "parse_answers fuel buf n auth (unat (min (an_count h) MAX_AN_COUNT)) i b = Ok (Inr rs)"
    by (rule parse_dns_response_Answers [OF assms])
  then have k: "length rs = unat (min (an_count h) MAX_AN_COUNT)" using parse_answers_Ok by blast
  have "an_count h \<noteq> 0" using h(2) by (auto simp: check_header_def Let_def split: if_splits)
  then have "0 < unat (min (an_count h) MAX_AN_COUNT)" by (auto simp: min_def unat_gt_0)
  with k have "rs \<noteq> []" by auto
  moreover have "uint (hdr_id h) = expected_id" "flags h AND DNS_QR_RESPONSE \<noteq> 0" "flags h AND DNS_TRUNCATED = 0"
      "flags h AND DNS_RECURSION_AVAIL \<noteq> 0" "flags h AND DNS_ERROR_MASK \<notin> {1, 2, 3, 4, 5}"
    using h(2) by (auto simp: check_header_def Let_def split: if_splits)
  ultimately show ?thesis using h k by blast
qed

theorem parse_dns_response_checked_witness:
  "\<exists>h. read_header (response_bytes [[97, 98], [99]] 7 60 1 @ [0]) = Ok h \<and> uint (hdr_id h) = 7"
proof -
  have "parse_dns_response (Suc 0) (response_bytes [[97, 98], [99]] 7 60 1 @ [0])
      (length (response_bytes [[97, 98], [99]] 7 60 1)) (uint (7 :: 16 word)) (dotted [[97, 98], [99]])
      (replicate 256 0) True = Ok (Answers [address_answer 60 1])"
    by (rule address_response) (simp_all add: label_ok_def)
  from parse_dns_response_checked [OF this] show ?thesis by auto
qed

text \<open>The lifetime of a record is truncated: the code reads the four bytes of the TTL into a 16-bit variable,
  so the lower half of every cache time delivered is zero (a TTL below 65536 seconds becomes 0).\<close>

theorem cache_time_truncated:
  assumes "parse_dns_response fuel buf n expected_id domain_name buffer mem = Ok (Answers rs)" and "r \<in> set rs"
  shows "cache_time r AND 0xFFFF = 0"
  by (rule parse_dns_response_Answers [OF assms(1)]) (use assms(2) parse_answers_Ok in blast)

theorem cache_time_truncated_witness:
  "cache_time (address_answer 60 1) AND 0xFFFF = 0"
proof -
  have "parse_dns_response (Suc 0) (response_bytes [[97, 98], [99]] 7 60 1 @ [0])
      (length (response_bytes [[97, 98], [99]] 7 60 1)) (uint (7 :: 16 word)) (dotted [[97, 98], [99]])
      (replicate 256 0) True = Ok (Answers [address_answer 60 1])"
    by (rule address_response) (simp_all add: label_ok_def)
  from cache_time_truncated [OF this] show ?thesis by simp
qed

end
