(* ===== verification/Dns_Client.thy ===== *)
theory Dns_Client
  imports Dns_Packet "HOL-Library.Signed_Division"
begin

text \<open>
  The DNS client around the packets (tools/network/dns_client/dnsService.c from \<^verbatim>\<open>do_select\<close> on, and
  tools/network/dns_client/dns.c): one query over the network, resolving a name to the text of an address, the
  cache of results, and the choice of the server.

  The network, the memory allocator, \<open>rand\<close>, and the configuration library of the device are arguments. An
  outcome \<open>Ok None\<close> is the return value -1; \<open>Ok (Some s)\<close> is 0 with the string \<open>s\<close> in the result buffer.
  What a cache promises its client is the locale \<open>name_cache\<close>, interpreted on the model of the code's cache.
\<close>

unbundle bit_operations_syntax

section \<open>Asking a server\<close>

text \<open>
  What the network does with one query: the results of \<open>socket\<close>, \<open>malloc\<close>, \<open>sendto\<close>, \<open>select\<close> (for
  the timeout in seconds and microseconds, with the answer of \<open>FD_ISSET\<close>) and \<open>recvfrom\<close> (\<open>None\<close> for -1),
  and the bytes that lie in the freshly allocated response buffer.
\<close>

record net =
  sock :: int
  mem_ok :: bool
  sent :: int
  selected :: "int \<times> int \<Rightarrow> int \<times> bool"
  received :: "byte list option"
  stale :: "byte list"

definition do_select :: "(int \<times> int \<Rightarrow> int \<times> bool) \<Rightarrow> int \<Rightarrow> int" where
  "do_select sel max_sec =
     (let (nRet, isset) = sel (max_sec sdiv 1000, (max_sec smod 1000) * 1000) in
      if 0 < nRet then (if isset then 1 else -1) else nRet)"

datatype query_error = NoSocket | NoResponseMemory | NotSent | NoResponse

text \<open>
  \<^verbatim>\<open>query_dns_server\<close>: the response buffer of 1000 bytes and the size of the packet in it. The counters
  are unsigned: after a failed \<open>recvfrom\<close> the count is the greatest number of the type, the test
  \<^verbatim>\<open>bytes_received <= 0\<close> is false, and the terminating NUL is stored outside the buffer.
\<close>

definition query_dns_server :: "net \<Rightarrow> nat \<Rightarrow> int \<Rightarrow> (query_error + byte list \<times> nat) outcome" where
  "query_dns_server w packet_size timeout =
     (if sock w < 0 then Ok (Inl NoSocket)
      else if \<not> mem_ok w then Ok (Inl NoResponseMemory)
      else if sent w \<noteq> int packet_size then Ok (Inl NotSent)
      else if 0 < do_select (selected w) timeout then
        (case received w of
           None \<Rightarrow> Fault
         | Some bs \<Rightarrow>
             (let n = min 999 (length bs) in
              if n = 0 then Ok (Inl NoResponse)
              else Ok (Inr (take n bs @ [0] @ drop (n + 1) (stale w), n))))
      else Ok (Inl NoResponse))"

text \<open>\<^verbatim>\<open>format_ip_address\<close>: the most significant byte first.\<close>

definition format_ip_address :: "32 word \<Rightarrow> byte list" where
  "format_ip_address ip =
     (let segments = mem32 ip in
      dec_bytes (unat (segments ! 3)) @ [46] @ dec_bytes (unat (segments ! 2)) @ [46] @
      dec_bytes (unat (segments ! 1)) @ [46] @ dec_bytes (unat (segments ! 0)))"

text \<open>
  What \<^verbatim>\<open>dns_resolve\<close> depends on besides its arguments: \<open>rand\<close>, the memory for the request and for the
  responses, the network (which sees the server and the packet), the stack garbage in the name
  buffer, the allowed nesting of pointers, and \<^verbatim>\<open>isIP\<close> of a library that is not part of the sources.
\<close>

record world =
  rnd :: nat
  req_mem :: bool
  rsp_mem :: bool
  network :: "byte list \<Rightarrow> byte option list \<Rightarrow> net"
  garbage :: "byte list"
  nesting :: nat
  is_ip :: "byte list \<Rightarrow> bool"

text \<open>The scan of the answers: the first address record whose text \<^verbatim>\<open>isIP\<close> accepts.\<close>

fun first_address :: "(byte list \<Rightarrow> bool) \<Rightarrow> dns_response list \<Rightarrow> byte list option" where
  "first_address isip [] = None"
| "first_address isip (r # rs) =
     (if response_type r = DNS_A_RECORD \<and> isip (format_ip_address (ip_address r))
      then Some (format_ip_address (ip_address r)) else first_address isip rs)"

text \<open>\<^verbatim>\<open>dns_resolve\<close>: the result string when the return value is 0, \<open>None\<close> when it is -1.\<close>

definition dns_resolve :: "world \<Rightarrow> byte list \<Rightarrow> byte list \<Rightarrow> int \<Rightarrow> byte list option outcome" where
  "dns_resolve w domain_name server_ip result_len =
     (if result_len < 16 then Ok None
      else if MAX_DOMAIN_LENGTH < length domain_name then Ok None
      else if MAX_DOMAIN_LENGTH < length server_ip then Ok None
      else
        (case build_dns_request_packet domain_name DNS_A_RECORD (rnd w) (req_mem w) of
           Inl _ \<Rightarrow> Ok None
         | Inr (packet, packet_size, request_id) \<Rightarrow>
             bind_outcome (query_dns_server (network w server_ip packet) packet_size 5000) (\<lambda>q.
               case q of
                 Inl _ \<Rightarrow> Ok None
               | Inr (response, n) \<Rightarrow>
                   bind_outcome
                     (parse_dns_response (nesting w) response n (int request_id) domain_name (garbage w) (rsp_mem w))
                     (\<lambda>p. case p of
                        ParseError _ \<Rightarrow> Ok None
                      | NotFound \<Rightarrow> Ok None
                      | Answers rs \<Rightarrow>
                          Ok (map_option (take (nat (result_len - 1))) (first_address (is_ip w) rs))))))"

section \<open>The cache\<close>

record dns_result =
  domian_name :: "byte list"
  resolve_ip :: "byte list"

text \<open>\<^verbatim>\<open>g_dns_cache\<close>: the entries below \<^verbatim>\<open>count\<close>.\<close>

type_synonym dns_result_cache = "dns_result list"

abbreviation MAX_RES_NUM :: nat where
  "MAX_RES_NUM \<equiv> 5"

definition init_dns_cache :: dns_result_cache where
  "init_dns_cache = []"

text \<open>\<open>strncmp(a, b, strlen(a)) == 0\<close> for strings: \<open>a\<close> is a prefix of \<open>b\<close>.\<close>

definition strncmp_eq :: "byte list \<Rightarrow> byte list \<Rightarrow> bool" where
  "strncmp_eq a b \<longleftrightarrow> take (length a) b = a"

fun find_entry :: "byte list \<Rightarrow> dns_result_cache \<Rightarrow> byte list option" where
  "find_entry domain_name [] = None"
| "find_entry domain_name (e # es) =
     (if strncmp_eq domain_name (domian_name e) then Some (resolve_ip e) else find_entry domain_name es)"

text \<open>
  \<^verbatim>\<open>find_dns_cache\<close>: with a length that is not positive the copy of a hit gets a size of nearly the whole
  address space.
\<close>

definition find_dns_cache :: "byte list \<Rightarrow> int \<Rightarrow> dns_result_cache \<Rightarrow> byte list option outcome" where
  "find_dns_cache domain_name result_len c =
     (case find_entry domain_name c of
        None \<Rightarrow> Ok None
      | Some ip \<Rightarrow> if result_len \<le> 0 then Fault else Ok (Some (take (nat (result_len - 1)) ip)))"

text \<open>The first loop of \<^verbatim>\<open>update_dns_cache\<close>: \<open>None\<close> when no entry matches.\<close>

fun update_entry :: "byte list \<Rightarrow> byte list \<Rightarrow> dns_result_cache \<Rightarrow> dns_result_cache option" where
  "update_entry domain_name dns_result [] = None"
| "update_entry domain_name dns_result (e # es) =
     (if strncmp_eq domain_name (domian_name e) then Some (e\<lparr>resolve_ip := take 15 dns_result\<rparr> # es)
      else map_option ((#) e) (update_entry domain_name dns_result es))"

text \<open>
  \<^verbatim>\<open>update_dns_cache\<close>; \<open>r\<close> is what \<^verbatim>\<open>Rand\<close> of the public library returns, a number that is not negative. The strings are copied with \<open>strncpy\<close> into arrays of 256
  and 16 characters whose last character stays 0.
\<close>

definition update_dns_cache :: "nat \<Rightarrow> byte list \<Rightarrow> byte list \<Rightarrow> dns_result_cache \<Rightarrow> dns_result_cache" where
  "update_dns_cache r domain_name dns_result c =
     (case update_entry domain_name dns_result c of
        Some c' \<Rightarrow> c'
      | None \<Rightarrow>
          (let e = \<lparr>domian_name = take 255 domain_name, resolve_ip = take 15 dns_result\<rparr> in
           if MAX_RES_NUM \<le> length c then c[r mod MAX_RES_NUM := e] else c @ [e]))"

section \<open>The client\<close>

text \<open>
  The configuration library behind \<^verbatim>\<open>GetConfigNetwork\<close> and \<^verbatim>\<open>SetConfigNetwork\<close> is not part of the
  sources: its state and the two operations are parameters, as are the default servers.
\<close>

record 'c config_lib =
  get_cfg :: "'c \<Rightarrow> byte list \<times> byte list"
  set_cfg :: "byte list \<times> byte list \<Rightarrow> 'c \<Rightarrow> 'c"
  default_dns :: "byte list"
  default_dns2 :: "byte list"

record 'c client =
  cur_dns_server :: int
  cfg :: 'c
  cache :: dns_result_cache

definition init_server_ip ::
  "'c config_lib \<Rightarrow> (byte list \<Rightarrow> bool) \<Rightarrow> int \<Rightarrow> 'c client \<Rightarrow> byte list option \<times> 'c client" where
  "init_server_ip lib isip len s =
     (if len < 16 then (None, s)
      else
        (let (p0, q0) = get_cfg lib (cfg s);
             (p, c1) = (if isip p0 then (p0, cfg s) else (default_dns lib, set_cfg lib (default_dns lib, q0) (cfg s)));
             (q, c2) = (if isip q0 then (q0, c1) else (default_dns2 lib, set_cfg lib (p, default_dns2 lib) c1))
         in if cur_dns_server s = 1 then (Some (take (nat (len - 1)) q), s\<lparr>cfg := c2, cur_dns_server := 2\<rparr>)
            else (Some (take (nat (len - 1)) p), s\<lparr>cfg := c2, cur_dns_server := 1\<rparr>)))"

definition dns_client ::
  "'c config_lib \<Rightarrow> world \<Rightarrow> nat \<Rightarrow> byte list \<Rightarrow> int \<Rightarrow> 'c client \<Rightarrow> (byte list option \<times> 'c client) outcome" where
  "dns_client lib w r domain_name result_len s =
     (case init_server_ip lib (is_ip w) 16 s of
        (None, s1) \<Rightarrow> Ok (None, s1)
      | (Some server_ip, s1) \<Rightarrow>
          bind_outcome (dns_resolve w domain_name server_ip result_len) (\<lambda>res. case res of
            None \<Rightarrow> Ok (None, s1)
          | Some ip \<Rightarrow> Ok (Some ip, s1\<lparr>cache := update_dns_cache r domain_name ip (cache s1)\<rparr>)))"

definition deal_dns_resolve ::
  "'c config_lib \<Rightarrow> world \<Rightarrow> nat \<Rightarrow> byte list \<Rightarrow> int \<Rightarrow> int \<Rightarrow> 'c client \<Rightarrow> (byte list option \<times> 'c client) outcome" where
  "deal_dns_resolve lib w r domain_name result_len flag s =
     (if flag = 1 then dns_client lib w r domain_name result_len s
      else
        bind_outcome (find_dns_cache domain_name result_len (cache s)) (\<lambda>hit. case hit of
          Some ip \<Rightarrow> Ok (Some ip, s)
        | None \<Rightarrow> dns_client lib w r domain_name result_len s))"

section \<open>What a cache promises\<close>

text \<open>
  The interface between the client and its cache: what was entered last for a name is found, and the
  invariant of the cache is kept by every update, whatever entry it evicts.
\<close>

locale name_cache =
  fixes find :: "'k \<Rightarrow> 'c \<Rightarrow> 'v option" and upd :: "nat \<Rightarrow> 'k \<Rightarrow> 'v \<Rightarrow> 'c \<Rightarrow> 'c"
    and ok :: "'c \<Rightarrow> bool" and key :: "'k \<Rightarrow> bool" and trim :: "'v \<Rightarrow> 'v"
  assumes find_upd: "ok c \<Longrightarrow> key k \<Longrightarrow> find k (upd r k v c) = Some (trim v)"
    and ok_upd: "ok c \<Longrightarrow> key k \<Longrightarrow> ok (upd r k v c)"
begin

lemma ok_updates:
  "ok c \<Longrightarrow> \<forall>(r, k, v) \<in> set us. key k \<Longrightarrow> ok (fold (\<lambda>(r, k, v). upd r k v) us c)"
  by (induction us arbitrary: c) (auto intro: ok_upd)

lemma find_last_update:
  assumes "ok c" "\<forall>(r, k, v) \<in> set us. key k" "key k"
  shows "find k (fold (\<lambda>(r, k, v). upd r k v) (us @ [(r, k, v)]) c) = Some (trim v)"
  using find_upd [OF ok_updates [OF assms(1,2)] assms(3)] by simp

end

text \<open>At most five entries, and no string longer than its array.\<close>

definition cache_ok :: "dns_result_cache \<Rightarrow> bool" where
  "cache_ok c \<longleftrightarrow> length c \<le> MAX_RES_NUM \<and>
     list_all (\<lambda>e. length (domian_name e) \<le> 255 \<and> length (resolve_ip e) \<le> 15) c"

definition cache_key :: "byte list \<Rightarrow> bool" where
  "cache_key k \<longleftrightarrow> length k \<le> MAX_DOMAIN_LENGTH"

lemma update_entry_find:
  "update_entry k v c = Some c' \<Longrightarrow> find_entry k c' = Some (take 15 v) \<and> length c' = length c"
  by (induction c arbitrary: c') (auto split: if_splits)

lemma update_entry_ok:
  "update_entry k v c = Some c' \<Longrightarrow> list_all (\<lambda>e. length (domian_name e) \<le> 255 \<and> length (resolve_ip e) \<le> 15) c \<Longrightarrow>
   list_all (\<lambda>e. length (domian_name e) \<le> 255 \<and> length (resolve_ip e) \<le> 15) c'"
  by (induction c arbitrary: c') (auto split: if_splits)

lemma update_entry_None: "update_entry k v c = None \<longleftrightarrow> (\<forall>e \<in> set c. \<not> strncmp_eq k (domian_name e))"
  by (induction c) auto

lemma find_entry_skip:
  "\<forall>e \<in> set c. \<not> strncmp_eq k (domian_name e) \<Longrightarrow> find_entry k (c @ d) = find_entry k d"
  by (induction c) auto

interpretation dns_cache: name_cache find_entry update_dns_cache cache_ok cache_key "take 15"
proof
  fix c :: dns_result_cache and k v :: "byte list" and r :: nat
  assume c: "cache_ok c" and k: "cache_key k"
  let ?e = "\<lparr>domian_name = take 255 k, resolve_ip = take 15 v\<rparr>"
  have hit: "strncmp_eq k (domian_name ?e)" using k by (simp add: strncmp_eq_def cache_key_def)
  show "find_entry k (update_dns_cache r k v c) = Some (take 15 v)"
  proof (cases "update_entry k v c")
    case None
    then have no: "\<forall>e \<in> set c. \<not> strncmp_eq k (domian_name e)" by (simp add: update_entry_None)
    show ?thesis
    proof (cases "MAX_RES_NUM \<le> length c")
      case True
      let ?i = "r mod MAX_RES_NUM"
      have "?i < MAX_RES_NUM" by simp
      with True have "?i < length c" by (rule less_le_trans [rotated])
      then have "c[?i := ?e] = take ?i c @ ?e # drop (Suc ?i) c" by (rule upd_conv_take_nth_drop)
      moreover have "\<forall>e \<in> set (take ?i c). \<not> strncmp_eq k (domian_name e)" using no set_take_subset by fast
      ultimately show ?thesis using None True hit find_entry_skip by (simp add: update_dns_cache_def)
    next
      case False
      with None no hit find_entry_skip show ?thesis by (simp add: update_dns_cache_def)
    qed
  next
    case (Some c')
    with update_entry_find show ?thesis by (simp add: update_dns_cache_def)
  qed
  show "cache_ok (update_dns_cache r k v c)"
  proof (cases "update_entry k v c")
    case None
    then show ?thesis
      using c set_update_subset_insert [of c "r mod MAX_RES_NUM" ?e]
      by (auto simp: update_dns_cache_def cache_ok_def Let_def list_all_iff)
  next
    case (Some c')
    with c update_entry_find [OF Some] update_entry_ok [OF Some] show ?thesis
      by (simp add: update_dns_cache_def cache_ok_def)
  qed
qed

text \<open>C33: The cache answers with the last address entered for a name. Starting from the empty cache and after
  any sequence of updates with any evictions, looking up the name entered last gives the address
  entered with it (cut to 15 characters), and the cache holds at most five entries whose strings fit
  their arrays.\<close>

theorem cache_answers_last_update:
  assumes "\<forall>(r, k, v) \<in> set us. length k \<le> MAX_DOMAIN_LENGTH" and "length k \<le> MAX_DOMAIN_LENGTH"
  shows "find_entry k (fold (\<lambda>(r, k, v). update_dns_cache r k v) (us @ [(r, k, v)]) init_dns_cache) = Some (take 15 v) \<and>
    cache_ok (fold (\<lambda>(r, k, v). update_dns_cache r k v) (us @ [(r, k, v)]) init_dns_cache)"
proof -
  have "cache_ok init_dns_cache" by (simp add: init_dns_cache_def cache_ok_def)
  then show ?thesis
    using dns_cache.find_last_update [of init_dns_cache us k r v] dns_cache.ok_updates [of init_dns_cache "us @ [(r, k, v)]"] assms
    by (auto simp: cache_key_def)
qed

theorem cache_answers_last_update_witness:
  "find_entry [97] (fold (\<lambda>(r, k, v). update_dns_cache r k v) ([(0, [98], [49])] @ [(3, [97], [50])]) init_dns_cache) = Some [50]"
  using cache_answers_last_update [of "[(0, [98], [49])]" "[97]" 3 "[50]"] by simp

text \<open>The cache can answer with the address of another name: names are compared only up to the length of
  the name looked up, so a name that is a proper prefix of a cached one gets that one's address.\<close>

theorem cache_prefix_hit:
  "find_entry k (update_dns_cache r (k @ ext) v init_dns_cache) = Some (take 15 v)"
  if "length (k @ ext) \<le> MAX_DOMAIN_LENGTH"
  using that by (simp add: update_dns_cache_def init_dns_cache_def strncmp_eq_def)

theorem cache_prefix_hit_witness:
  "find_entry [97] (update_dns_cache 0 ([97] @ [46, 98]) [49] init_dns_cache) = Some [49]"
  using cache_prefix_hit [of "[97]" "[46, 98]" 0 "[49]"] by simp

section \<open>Resolving a name\<close>

lemma format_ip_address_length: "length (format_ip_address ip) \<le> 15"
proof -
  have "unat b < 256" for b :: byte using unsigned_less [of b] by simp
  then have "length (dec_bytes (unat b)) \<le> 3" for b :: byte by (rule length_dec_bytes)
  from this [of "mem32 ip ! 3"] this [of "mem32 ip ! 2"] this [of "mem32 ip ! 1"] this [of "mem32 ip ! 0"]
  show ?thesis unfolding format_ip_address_def Let_def length_append by simp
qed

text \<open>A network that delivers one answer to one request.\<close>

definition answering :: "nat \<Rightarrow> byte list \<Rightarrow> byte list \<Rightarrow> net" where
  "answering sz response rest =
     \<lparr>sock = 3, mem_ok = True, sent = int sz, selected = (\<lambda>_. (1, True)), received = Some response, stale = rest\<rparr>"

lemma query_answering:
  assumes "response \<noteq> []" "length response \<le> 999"
  shows "query_dns_server (answering sz response rest) sz timeout =
    Ok (Inr (response @ [0] @ drop (length response + 1) rest, length response))"
  using assms by (simp add: query_dns_server_def answering_def do_select_def min_absorb2 Let_def)

lemma length_response_bytes:
  "ls \<noteq> [] \<Longrightarrow> length (response_bytes ls rid ttl ip) = length (dotted ls) + 34"
  using length_dotted [of ls] length_enc_labels [of ls] by (simp add: response_bytes_def answer_bytes_def)

lemma uint_of_nat_id: "k < 65536 \<Longrightarrow> uint (of_nat k :: 16 word) = int k"
  by (simp add: unsigned_of_nat take_bit_nat_eq_self flip: uint_nat)

lemma dns_resolve_answered:
  assumes "list_all label_ok ls" and "ls \<noteq> []" and "length (dotted ls) \<le> MAX_DOMAIN_LENGTH"
    and "length server \<le> MAX_DOMAIN_LENGTH" and "16 \<le> result_len" and "req_mem w" and "rsp_mem w"
    and "length (garbage w) = 256" and "nesting w = Suc f"
    and "network w server (map Some (request_bytes ls DNS_A_RECORD (rnd w mod 65535))) =
      answering (length (request_bytes ls DNS_A_RECORD (rnd w mod 65535)))
        (response_bytes ls (of_nat (rnd w mod 65535)) ttl ip) rest"
    and "is_ip w (format_ip_address ip)"
  shows "dns_resolve w (dotted ls) server result_len = Ok (Some (format_ip_address ip))"
proof -
  let ?id = "rnd w mod 65535"
  let ?rsp = "response_bytes ls (of_nat ?id) ttl ip"
  have len: "length ?rsp \<le> 999" "?rsp \<noteq> []" using length_response_bytes [OF assms(2)] assms(3) by (auto simp: response_bytes_def header_bytes_def mem16_def)
  have "parse_dns_response (Suc f) (?rsp @ [0] @ drop (length ?rsp + 1) rest) (length ?rsp)
      (uint (of_nat ?id :: 16 word)) (dotted ls) (garbage w) True = Ok (Answers [address_answer ttl ip])"
    by (rule address_response [OF assms(1-3,8)])
  moreover have "uint (of_nat ?id :: 16 word) = int ?id"
  proof -
    have "?id < 65535" by simp
    then show ?thesis by (intro uint_of_nat_id) linarith
  qed
  moreover have "take (nat (result_len - 1)) (format_ip_address ip) = format_ip_address ip"
    using assms(5) format_ip_address_length [of ip] by simp
  ultimately show ?thesis
    using build_request [OF assms(1-3), of DNS_A_RECORD "rnd w"] query_answering [OF len(2,1)] assms
    by (simp add: dns_resolve_def address_answer_def)
qed

text \<open>A name is resolved end to end. For every well-formed name, if the network delivers to the server asked the
  request and back the server's address response with the same id, and \<^verbatim>\<open>isIP\<close> accepts the text of the
  address, then \<^verbatim>\<open>dns_resolve\<close> returns exactly that text.\<close>

theorem dns_resolve_address:
  assumes "list_all label_ok ls" and "ls \<noteq> []" and "length (dotted ls) \<le> MAX_DOMAIN_LENGTH"
    and "length server \<le> MAX_DOMAIN_LENGTH" and "16 \<le> result_len" and "req_mem w" and "rsp_mem w"
    and "length (garbage w) = 256" and "nesting w = Suc f"
    and "network w server (map Some (request_bytes ls DNS_A_RECORD (rnd w mod 65535))) =
      answering (length (request_bytes ls DNS_A_RECORD (rnd w mod 65535)))
        (response_bytes ls (of_nat (rnd w mod 65535)) ttl ip) rest"
    and "is_ip w (format_ip_address ip)"
  shows "dns_resolve w (dotted ls) server result_len = Ok (Some (format_ip_address ip))"
  by (rule dns_resolve_answered [OF assms])

definition sample_world :: world where
  "sample_world = \<lparr>rnd = 7, req_mem = True, rsp_mem = True,
     network = (\<lambda>server pkt. answering (length pkt) (response_bytes [[97, 98], [99]] 7 60 0x7f000001) []),
     garbage = replicate 256 0, nesting = 1, is_ip = (\<lambda>s. length s \<le> 15)\<rparr>"

theorem dns_resolve_address_witness:
  "dns_resolve sample_world [97, 98, 46, 99] [56] 16 = Ok (Some (format_ip_address 0x7f000001))"
  using dns_resolve_address [of "[[97, 98], [99]]" "[56]" 16 sample_world 0 60 "0x7f000001" "[]"]
    format_ip_address_length [of "0x7f000001"]
  by (simp add: sample_world_def label_ok_def)

text \<open>A failed receive is not noticed: the unsigned count makes the code store the terminating NUL outside the
  response buffer.\<close>

theorem recv_error_faults:
  assumes "0 \<le> sock w" and "mem_ok w" and "sent w = int packet_size" and "0 < do_select (selected w) timeout"
    and "received w = None"
  shows "query_dns_server w packet_size timeout = Fault"
  using assms by (simp add: query_dns_server_def)

theorem recv_error_faults_witness:
  "query_dns_server ((answering 20 [] [])\<lparr>received := None\<rparr>) 20 5000 = Fault"
  by (rule recv_error_faults) (simp_all add: answering_def do_select_def)

text \<open>The servers handed out by calls in a row.\<close>

fun server_calls :: "'c config_lib \<Rightarrow> (byte list \<Rightarrow> bool) \<Rightarrow> nat \<Rightarrow> 'c client \<Rightarrow> byte list option list \<times> 'c client" where
  "server_calls lib isip 0 s = ([], s)"
| "server_calls lib isip (Suc n) s =
     (let (ip, s1) = init_server_ip lib isip 16 s; (ips, s2) = server_calls lib isip n s1 in (ip # ips, s2))"

lemma init_server_ip_valid:
  assumes "get_cfg lib (cfg s) = (p, q)" "isip p" "isip q" "length p \<le> 15" "length q \<le> 15"
  shows "init_server_ip lib isip 16 s =
    (if cur_dns_server s = 1 then (Some q, s\<lparr>cur_dns_server := 2\<rparr>) else (Some p, s\<lparr>cur_dns_server := 1\<rparr>))"
  using assms by (simp add: init_server_ip_def)

lemma server_calls_turns:
  assumes "get_cfg lib (cfg s) = (p, q)" "isip p" "isip q" "length p \<le> 15" "length q \<le> 15"
  shows "fst (server_calls lib isip n s) =
      map (\<lambda>k. Some (if even k = (cur_dns_server s \<noteq> 1) then p else q)) [0..<n] \<and>
    cfg (snd (server_calls lib isip n s)) = cfg s"
  using assms
proof (induction n arbitrary: s)
  case (Suc n)
  let ?s = "s\<lparr>cur_dns_server := (if cur_dns_server s = 1 then 2 else 1)\<rparr>"
  have "init_server_ip lib isip 16 s = (Some (if cur_dns_server s \<noteq> 1 then p else q), ?s)"
    using init_server_ip_valid [OF Suc.prems] by simp
  moreover have "[0..<Suc n] = 0 # map Suc [0..<n]" by (simp add: map_Suc_upt upt_conv_Cons)
  ultimately show ?case
    using Suc.IH [of ?s] Suc.prems by (auto simp: Let_def split: prod.splits)
qed simp

text \<open>The servers take turns. With both configured addresses valid, each call hands out the server the call before
  did not: the primary one first, then the secondary, then the primary again, and so on; the
  configuration is left alone.\<close>

theorem dns_servers_take_turns:
  assumes "get_cfg lib (cfg s) = (p, q)" and "isip p" and "isip q" and "length p \<le> 15" and "length q \<le> 15"
    and "cur_dns_server s = 0"
  shows "fst (server_calls lib isip n s) = map (\<lambda>k. Some (if even k then p else q)) [0..<n] \<and>
    cfg (snd (server_calls lib isip n s)) = cfg s"
  using server_calls_turns [OF assms(1-5), of n] assms(6) by simp

theorem dns_servers_take_turns_witness:
  "fst (server_calls \<lparr>get_cfg = (\<lambda>_. ([49], [50])), set_cfg = (\<lambda>_ c. c), default_dns = [56], default_dns2 = [57]\<rparr>
     (\<lambda>_. True) 3 \<lparr>cur_dns_server = 0, cfg = (), cache = []\<rparr>) = [Some [49], Some [50], Some [49]]"
proof -
  have "[0..<3] = [0, 1, 2::nat]" by (simp add: upt_conv_Cons)
  with dns_servers_take_turns [of "\<lparr>get_cfg = (\<lambda>_. ([49], [50])), set_cfg = (\<lambda>_ c. c), default_dns = [56], default_dns2 = [57]\<rparr>"
      "\<lparr>cur_dns_server = 0, cfg = (), cache = []\<rparr>" "[49]" "[50]" "\<lambda>_. True" 3]
  show ?thesis by simp
qed

text \<open>A resolution that succeeds enters its result into the cache.\<close>

lemma dns_client_caches:
  assumes "dns_client lib w r k len s = Ok (Some ip, s')"
  shows "\<exists>c. cache s' = update_dns_cache r k ip c \<and> c = cache s"
  using assms
  by (auto simp: dns_client_def init_server_ip_def bind_outcome_Ok_iff Let_def
      split: if_splits option.splits prod.splits)

text \<open>A resolved name is served from the cache. After a successful resolution, asking again for the same name
  without forcing a new query succeeds at once with the same address, whatever the network would
  do, and changes nothing.\<close>

theorem resolved_name_is_cached:
  assumes "cache_ok (cache s)" and "length k \<le> MAX_DOMAIN_LENGTH" and "16 \<le> len"
    and "dns_client lib w r k len s = Ok (Some ip, s')" and "flag \<noteq> 1"
  shows "deal_dns_resolve lib w' r' k len flag s' = Ok (Some (take 15 ip), s')"
proof -
  have "find_entry k (cache s') = Some (take 15 ip)"
    using dns_client_caches [OF assms(4)] dns_cache.find_upd [OF assms(1), of k r ip] assms(2)
    by (auto simp: cache_key_def)
  moreover have "take (nat (len - 1)) (take 15 ip) = take 15 ip" using assms(3) by simp
  ultimately show ?thesis using assms(3,5) by (simp add: deal_dns_resolve_def find_dns_cache_def)
qed

definition sample_lib :: "unit config_lib" where
  "sample_lib = \<lparr>get_cfg = (\<lambda>_. ([56], [57])), set_cfg = (\<lambda>_ c. c), default_dns = [56], default_dns2 = [57]\<rparr>"

lemma sample_resolution:
  "dns_client sample_lib sample_world 0 [97, 98, 46, 99] 16 \<lparr>cur_dns_server = 0, cfg = (), cache = []\<rparr> =
   Ok (Some (format_ip_address 0x7f000001), \<lparr>cur_dns_server = 1, cfg = (),
     cache = [\<lparr>domian_name = [97, 98, 46, 99], resolve_ip = take 15 (format_ip_address 0x7f000001)\<rparr>]\<rparr>)"
  using dns_resolve_answered [of "[[97, 98], [99]]" "[56]" 16 sample_world 0 60 "0x7f000001" "[]"]
    format_ip_address_length [of "0x7f000001"]
  by (simp add: dns_client_def sample_lib_def sample_world_def label_ok_def init_server_ip_def update_dns_cache_def)

theorem resolved_name_is_cached_witness:
  "deal_dns_resolve sample_lib (sample_world\<lparr>req_mem := False\<rparr>) 3 [97, 98, 46, 99] 16 0 \<lparr>cur_dns_server = 1, cfg = (),
     cache = [\<lparr>domian_name = [97, 98, 46, 99], resolve_ip = take 15 (format_ip_address 0x7f000001)\<rparr>]\<rparr> =
   Ok (Some (take 15 (format_ip_address 0x7f000001)), \<lparr>cur_dns_server = 1, cfg = (),
     cache = [\<lparr>domian_name = [97, 98, 46, 99], resolve_ip = take 15 (format_ip_address 0x7f000001)\<rparr>]\<rparr>)"
  by (rule resolved_name_is_cached [OF _ _ _ sample_resolution]) (simp_all add: cache_ok_def)

end
