(* ===== verification/Dhcp_Packet.thy ===== *)
theory Dhcp_Packet
  imports Memory
begin

text \<open>
  The packets of the DHCP client (tools/dhcp_client/dhcp.c and dhcp.h): its structures, the builders of
  options and packets, and the functions that walk over the options of a received message.

  Fixed buffers are lists of bytes of their size; character arrays that hold a text are the text before its
  NUL. A write or read outside a buffer is the outcome \<open>Fault\<close>. The contract that the option builders share is
  the locale \<open>option_builder\<close>, interpreted on the five builders of the code; the contract of the bodies of the
  option walk is the locale \<open>option_visitor\<close>, interpreted on both bodies.
\<close>

unbundle bit_operations_syntax

section \<open>Constants and structures\<close>

abbreviation DHCP_CLIENT_PORT :: "16 word" where "DHCP_CLIENT_PORT \<equiv> 68"
abbreviation DHCP_SERVER_PORT :: "16 word" where "DHCP_SERVER_PORT \<equiv> 67"
abbreviation TIME_OUT :: int where "TIME_OUT \<equiv> 3000"
abbreviation IF_NAME_LEN :: nat where "IF_NAME_LEN \<equiv> 32"
abbreviation ETHER_ADDR_LEN :: nat where "ETHER_ADDR_LEN \<equiv> 6"
abbreviation DATA_BUF_LEN :: nat where "DATA_BUF_LEN \<equiv> 2048"
abbreviation HOSTNAME_BUF_LEN :: nat where "HOSTNAME_BUF_LEN \<equiv> 32"
abbreviation SSID_BUF_LEN :: nat where "SSID_BUF_LEN \<equiv> 64"
abbreviation IP_BUF_LEN :: nat where "IP_BUF_LEN \<equiv> 16"
abbreviation DHCPOPT_BUF_LEN :: nat where "DHCPOPT_BUF_LEN \<equiv> 512"
abbreviation ARPHRD_ETHER :: byte where "ARPHRD_ETHER \<equiv> 1"
abbreviation DHCP_REQUEST :: byte where "DHCP_REQUEST \<equiv> 1"
abbreviation DHCP_MAGIC :: "32 word" where "DHCP_MAGIC \<equiv> 0x63825363"
abbreviation DHCP_PAD :: byte where "DHCP_PAD \<equiv> 0x00"
abbreviation DHCP_SUBNETMASK :: byte where "DHCP_SUBNETMASK \<equiv> 0x01"
abbreviation DHCP_ROUTER :: byte where "DHCP_ROUTER \<equiv> 0x03"
abbreviation DHCP_DNS :: byte where "DHCP_DNS \<equiv> 0x06"
abbreviation DHCP_HOSTNAME :: byte where "DHCP_HOSTNAME \<equiv> 0x0c"
abbreviation DHCP_DOMAINNAME :: byte where "DHCP_DOMAINNAME \<equiv> 0x0f"
abbreviation DHCP_REQUESTEDIP :: byte where "DHCP_REQUESTEDIP \<equiv> 0x32"
abbreviation DHCP_LEASETIME :: byte where "DHCP_LEASETIME \<equiv> 0x33"
abbreviation DHCP_MESSAGETYPE :: byte where "DHCP_MESSAGETYPE \<equiv> 0x35"
abbreviation DHCP_SERVIDENT :: byte where "DHCP_SERVIDENT \<equiv> 0x36"
abbreviation DHCP_PARAMREQUEST :: byte where "DHCP_PARAMREQUEST \<equiv> 0x37"
abbreviation DHCP_FQDN :: byte where "DHCP_FQDN \<equiv> 0x51"
abbreviation DHCP_END :: byte where "DHCP_END \<equiv> 0xff"
abbreviation DHCP_MSGDISCOVER :: byte where "DHCP_MSGDISCOVER \<equiv> 0x01"
abbreviation DHCP_MSGOFFER :: byte where "DHCP_MSGOFFER \<equiv> 0x02"
abbreviation DHCP_MSGREQUEST :: byte where "DHCP_MSGREQUEST \<equiv> 0x03"
abbreviation DHCP_MSGACK :: byte where "DHCP_MSGACK \<equiv> 0x05"
abbreviation DHCP_MSGNACK :: byte where "DHCP_MSGNACK \<equiv> 0x06"

record dhcp_option =
  dhcpXid :: "32 word"
  option50RequestIp :: "32 word"
  servId :: "32 word"
  option51LeaseTime :: "32 word"
  bcastFlag :: "16 word"
  unicastFlag :: "16 word"
  unicastIpAddress :: "32 word"
  hostname :: "byte list"
  hostnameFlag :: "32 word"
  optBuff :: "byte list"
  optSize :: nat

record dhcp_result =
  res_ifname :: "byte list"
  fixedAddress :: "byte list"
  subnetMask :: "byte list"
  router :: "byte list"
  servIdent :: "byte list"
  dnsServer :: "byte list"
  leaseTime :: int
  res_ssid :: "byte list"

record sockaddr_in =
  sin_family :: nat
  sin_port :: "16 word"
  s_addr :: "32 word"

text \<open>The two pointers into the receive buffer are offsets; \<open>None\<close> is the null pointer.\<close>

record dhcp_client =
  sockfd :: int
  timeout :: int
  broadcastAddr :: sockaddr_in
  ifname :: "byte list"
  srcMac :: "byte list"
  dstMac :: "byte list"
  recvLen :: nat
  recvBuff :: "byte list"
  sendLen :: nat
  sendBuff :: "byte list"
  ssid :: "byte list"
  dhcpHeader :: "nat option"
  dhcpOption :: "nat option"
  opt :: dhcp_option
  result :: dhcp_result

record dhcpv4_header =
  dhcp_opcode :: byte
  dhcp_htype :: byte
  dhcp_hlen :: byte
  dhcp_hopcount :: byte
  dhcp_xid :: "32 word"
  dhcp_secs :: "16 word"
  dhcp_flags :: "16 word"
  dhcp_cip :: "32 word"
  dhcp_yip :: "32 word"
  dhcp_sip :: "32 word"
  dhcp_gip :: "32 word"
  dhcp_chaddr :: "byte list"
  dhcp_sname :: "byte list"
  dhcp_file :: "byte list"
  dhcp_magic :: "32 word"

text \<open>The structure in memory: its fields are aligned, so there is no padding and its size is 240.\<close>

definition dhcp_header_bytes :: "dhcpv4_header \<Rightarrow> byte list" where
  "dhcp_header_bytes h =
     [dhcp_opcode h, dhcp_htype h, dhcp_hlen h, dhcp_hopcount h] @ mem32 (dhcp_xid h) @ mem16 (dhcp_secs h) @
     mem16 (dhcp_flags h) @ mem32 (dhcp_cip h) @ mem32 (dhcp_yip h) @ mem32 (dhcp_sip h) @ mem32 (dhcp_gip h) @
     dhcp_chaddr h @ dhcp_sname h @ dhcp_file h @ mem32 (dhcp_magic h)"

abbreviation DHCP_HEADER_LEN :: nat where "DHCP_HEADER_LEN \<equiv> 240"

text \<open>The fields read through \<^verbatim>\<open>client->dhcpHeader\<close>, at their offsets in the receive buffer.\<close>

definition header_xid :: "dhcp_client \<Rightarrow> 32 word outcome" where
  "header_xid c = (case dhcpHeader c of None \<Rightarrow> Fault | Some p \<Rightarrow> rd_u32 (recvBuff c) (p + 4))"

definition header_yip :: "dhcp_client \<Rightarrow> 32 word outcome" where
  "header_yip c = (case dhcpHeader c of None \<Rightarrow> Fault | Some p \<Rightarrow> rd_u32 (recvBuff c) (p + 16))"

text \<open>\<^verbatim>\<open>DHClientGetIpString\<close>: \<open>inet_ntop\<close> prints the bytes of the address in memory order.\<close>

definition DHClientGetIpString :: "32 word \<Rightarrow> byte list" where
  "DHClientGetIpString ip =
     (let m = mem32 ip in
      dec_bytes (unat (m ! 0)) @ [46] @ dec_bytes (unat (m ! 1)) @ [46] @
      dec_bytes (unat (m ! 2)) @ [46] @ dec_bytes (unat (m ! 3)))"

section \<open>Building options\<close>

text \<open>
  The builders copy code, length and value behind the options already written and add their size.
  The size is a number without width: a buffer of 512 bytes is left long before 32 bits are.
\<close>

definition put_option :: "byte list \<Rightarrow> dhcp_option \<Rightarrow> dhcp_option outcome" where
  "put_option bs o1 =
     bind_outcome (wr_bytes (optBuff o1) (optSize o1) bs) (\<lambda>b.
       Ok (o1\<lparr>optBuff := b, optSize := optSize o1 + length bs\<rparr>))"

text \<open>The message type always goes to the front of the buffer.\<close>

definition DHClientBuildOption53MessageType :: "byte \<Rightarrow> dhcp_option \<Rightarrow> dhcp_option outcome" where
  "DHClientBuildOption53MessageType dhcpMsgType o1 =
     bind_outcome (wr_bytes (optBuff o1) 0 [DHCP_MESSAGETYPE, 1, dhcpMsgType]) (\<lambda>b.
       Ok (o1\<lparr>optBuff := b, optSize := optSize o1 + 3\<rparr>))"

definition DHClientBuildOption50RequestIp :: "dhcp_option \<Rightarrow> dhcp_option outcome" where
  "DHClientBuildOption50RequestIp o1 =
     (if option50RequestIp o1 \<noteq> 0
      then put_option ([DHCP_REQUESTEDIP, 4] @ mem32 (option50RequestIp o1)) o1 else Ok o1)"

definition DHClientBuildOption51LeaseTime :: "dhcp_option \<Rightarrow> dhcp_option outcome" where
  "DHClientBuildOption51LeaseTime o1 =
     (if 0 < option51LeaseTime o1
      then put_option ([DHCP_LEASETIME, 4] @ mem32 (htonl (option51LeaseTime o1))) o1 else Ok o1)"

definition DHClientBuildOption54ServIdent :: "dhcp_option \<Rightarrow> dhcp_option outcome" where
  "DHClientBuildOption54ServIdent o1 =
     (if servId o1 \<noteq> 0 then put_option ([DHCP_SERVIDENT, 4] @ mem32 (servId o1)) o1 else Ok o1)"

definition DHClientBuildOption12Hostname :: "dhcp_option \<Rightarrow> dhcp_option outcome" where
  "DHClientBuildOption12Hostname o1 =
     (if hostnameFlag o1 = 1
      then put_option ([DHCP_HOSTNAME, of_nat (length (hostname o1))] @ hostname o1) o1 else Ok o1)"

definition DHClientBuildOption55Extra :: "dhcp_option \<Rightarrow> dhcp_option outcome" where
  "DHClientBuildOption55Extra o1 =
     put_option [DHCP_PARAMREQUEST, 4, DHCP_SUBNETMASK, DHCP_ROUTER, DHCP_DOMAINNAME, DHCP_DNS] o1"

definition DHClientBuildOptionEof :: "dhcp_option \<Rightarrow> dhcp_option outcome" where
  "DHClientBuildOptionEof o1 = put_option [0xff] o1"

definition DHClientResetDhcpOptionBuff :: "dhcp_option \<Rightarrow> dhcp_option" where
  "DHClientResetDhcpOptionBuff o1 = o1\<lparr>optBuff := replicate DHCPOPT_BUF_LEN 0, optSize := 0\<rparr>"

definition DHClientBuildRequestOption :: "dhcp_option \<Rightarrow> dhcp_option outcome" where
  "DHClientBuildRequestOption o0 =
     bind_outcome (DHClientBuildOption53MessageType DHCP_MSGREQUEST (DHClientResetDhcpOptionBuff o0)) (\<lambda>o1.
     bind_outcome (DHClientBuildOption50RequestIp o1) (\<lambda>o2.
     bind_outcome (DHClientBuildOption54ServIdent o2) (\<lambda>o3.
     bind_outcome (DHClientBuildOption12Hostname o3) (\<lambda>o4.
     bind_outcome (DHClientBuildOption51LeaseTime o4) (\<lambda>o5.
     bind_outcome (DHClientBuildOption55Extra o5) DHClientBuildOptionEof)))))"

definition DHClientBuildDiscoverOption :: "dhcp_option \<Rightarrow> dhcp_option outcome" where
  "DHClientBuildDiscoverOption o0 =
     bind_outcome (DHClientBuildOption53MessageType DHCP_MSGDISCOVER o0) (\<lambda>o1.
     bind_outcome (DHClientBuildOption12Hostname o1) (\<lambda>o2.
     bind_outcome (DHClientBuildOption50RequestIp o2) (\<lambda>o3.
     bind_outcome (DHClientBuildOption51LeaseTime o3) DHClientBuildOptionEof)))"

section \<open>Building packets\<close>

text \<open>The header both packets have; \<open>inet_addr\<close> of \<^verbatim>\<open>DHCP_GIADDR\<close> is 0.\<close>

definition dhcp_request_header :: "dhcp_client \<Rightarrow> dhcpv4_header" where
  "dhcp_request_header c =
     \<lparr>dhcp_opcode = DHCP_REQUEST, dhcp_htype = ARPHRD_ETHER, dhcp_hlen = of_nat ETHER_ADDR_LEN, dhcp_hopcount = 0,
      dhcp_xid = htonl (dhcpXid (opt c)), dhcp_secs = 0, dhcp_flags = bcastFlag (opt c),
      dhcp_cip = (if unicastFlag (opt c) \<noteq> 0 then unicastIpAddress (opt c) else 0),
      dhcp_yip = 0, dhcp_sip = 0, dhcp_gip = 0,
      dhcp_chaddr = take ETHER_ADDR_LEN (srcMac c) @ replicate 10 0,
      dhcp_sname = replicate 64 0, dhcp_file = replicate 128 0, dhcp_magic = htonl DHCP_MAGIC\<rparr>"

definition DHClientBuildRequestPacket :: "dhcp_client \<Rightarrow> dhcp_client outcome" where
  "DHClientBuildRequestPacket c =
     (if optSize (opt c) \<le> length (optBuff (opt c)) then
        bind_outcome (wr_bytes (replicate DATA_BUF_LEN 0) 0 (dhcp_header_bytes (dhcp_request_header c))) (\<lambda>b.
        bind_outcome (wr_bytes b DHCP_HEADER_LEN (take (optSize (opt c)) (optBuff (opt c)))) (\<lambda>b'.
          Ok (c\<lparr>sendBuff := b', sendLen := DHCP_HEADER_LEN + optSize (opt c)\<rparr>)))
      else Fault)"

definition DHClientBuildDiscoverPacket :: "dhcp_client \<Rightarrow> dhcp_client outcome" where
  "DHClientBuildDiscoverPacket c =
     (if optSize (opt c) \<le> length (optBuff (opt c)) then
        bind_outcome (wr_bytes (replicate DATA_BUF_LEN 0) 0 (dhcp_header_bytes (dhcp_request_header c))) (\<lambda>b.
        bind_outcome (wr_bytes b DHCP_HEADER_LEN (take (optSize (opt c)) (optBuff (opt c)))) (\<lambda>b'.
          Ok (c\<lparr>sendBuff := b', sendLen := DHCP_HEADER_LEN + optSize (opt c)\<rparr>)))
      else Fault)"

section \<open>Reading options\<close>

text \<open>
  The loop of the three functions that read options: from the option at \<open>i\<close> to the end marker, visiting each
  option on the way. Nothing but the end marker stops it.
\<close>

function walk :: "(byte list \<Rightarrow> nat \<Rightarrow> 'a \<Rightarrow> 'a outcome) \<Rightarrow> byte list \<Rightarrow> nat \<Rightarrow> 'a \<Rightarrow> 'a outcome" where
  "walk visit b i a =
     (if i < length b then
        if b ! i = DHCP_END then Ok a
        else bind_outcome (visit b i a) (\<lambda>a'.
             bind_outcome (rd_byte b (i + 1)) (\<lambda>n. walk visit b (i + unat n + 2) a'))
      else Fault)"
  by auto

termination
  by (relation "measure (\<lambda>(visit, b, i, a). length b - i)") auto

declare walk.simps [simp del]

text \<open>The body of \<^verbatim>\<open>DHClientSetServidOpt50RequestIp\<close>.\<close>

definition visit_servid :: "byte list \<Rightarrow> nat \<Rightarrow> dhcp_option \<Rightarrow> dhcp_option outcome" where
  "visit_servid b i o1 =
     (if b ! i = DHCP_SERVIDENT then bind_outcome (rd_u32 b (i + 2)) (\<lambda>tmp. Ok (o1\<lparr>servId := tmp\<rparr>))
      else Ok o1)"

definition DHClientSetServidOpt50RequestIp :: "dhcp_client \<Rightarrow> dhcp_client outcome" where
  "DHClientSetServidOpt50RequestIp c =
     bind_outcome (header_yip c) (\<lambda>yip.
       case dhcpOption c of
         None \<Rightarrow> Fault
       | Some p \<Rightarrow>
           bind_outcome (walk visit_servid (recvBuff c) p ((opt c)\<lparr>option50RequestIp := yip\<rparr>)) (\<lambda>o1.
             Ok (c\<lparr>opt := o1\<rparr>)))"

text \<open>The loop over the addresses of one option: the last one stays.\<close>

fun each_address :: "byte list \<Rightarrow> nat \<Rightarrow> nat \<Rightarrow> byte list \<Rightarrow> byte list outcome" where
  "each_address b i 0 s = Ok s"
| "each_address b i (Suc n) s =
     bind_outcome (rd_u32 b i) (\<lambda>tmp_data. each_address b (i + 4) n (DHClientGetIpString tmp_data))"

text \<open>
  The switch of \<^verbatim>\<open>DHClientParseOfferResponse\<close> and \<^verbatim>\<open>DHClientParseAckResponse\<close>. For the option FQDN four bytes
  are read as its length, and as many bytes less three are copied.
\<close>

definition visit_result :: "byte list \<Rightarrow> nat \<Rightarrow> dhcp_result \<Rightarrow> dhcp_result outcome" where
  "visit_result b i r =
     (if b ! i = DHCP_SERVIDENT then
        bind_outcome (rd_u32 b (i + 2)) (\<lambda>d. Ok (r\<lparr>servIdent := take (IP_BUF_LEN - 1) (DHClientGetIpString d)\<rparr>))
      else if b ! i = DHCP_LEASETIME then
        bind_outcome (rd_u32 b (i + 2)) (\<lambda>d. Ok (r\<lparr>leaseTime := sint (htonl d)\<rparr>))
      else if b ! i = DHCP_SUBNETMASK then
        bind_outcome (rd_u32 b (i + 2)) (\<lambda>d. Ok (r\<lparr>subnetMask := take (IP_BUF_LEN - 1) (DHClientGetIpString d)\<rparr>))
      else if b ! i = DHCP_ROUTER then
        bind_outcome (rd_byte b (i + 1)) (\<lambda>n.
        bind_outcome (each_address b (i + 2) (unat n div 4) (router r)) (\<lambda>s.
          Ok (r\<lparr>router := take (IP_BUF_LEN - 1) s\<rparr>)))
      else if b ! i = DHCP_DNS then
        bind_outcome (rd_byte b (i + 1)) (\<lambda>n.
        bind_outcome (each_address b (i + 2) (unat n div 4) (dnsServer r)) (\<lambda>s.
          Ok (r\<lparr>dnsServer := take (IP_BUF_LEN - 1) s\<rparr>)))
      else if b ! i = DHCP_FQDN then
        bind_outcome (rd_u32 b (i + 1)) (\<lambda>d.
          if i + 5 + unat (d - 3) \<le> length b then Ok r else Fault)
      else Ok r)"

definition empty_result :: dhcp_result where
  "empty_result = \<lparr>res_ifname = [], fixedAddress = [], subnetMask = [], router = [], servIdent = [],
     dnsServer = [], leaseTime = 0, res_ssid = []\<rparr>"

text \<open>The part of both functions before the loop.\<close>

definition start_result :: "dhcp_client \<Rightarrow> 32 word \<Rightarrow> dhcp_result" where
  "start_result c yip = empty_result
     \<lparr>res_ifname := take (IF_NAME_LEN - 1) (ifname c), res_ssid := take (SSID_BUF_LEN - 1) (ssid c),
      fixedAddress := take (IP_BUF_LEN - 1) (DHClientGetIpString yip)\<rparr>"

definition DHClientParseOfferResponse :: "dhcp_client \<Rightarrow> (int \<times> dhcp_client) outcome" where
  "DHClientParseOfferResponse c =
     bind_outcome (header_yip c) (\<lambda>yip.
       case dhcpOption c of
         None \<Rightarrow> Fault
       | Some p \<Rightarrow>
           bind_outcome (walk visit_result (recvBuff c) p (start_result c yip)) (\<lambda>r.
             Ok (0, c\<lparr>result := r\<rparr>)))"

definition DHClientParseAckResponse :: "dhcp_client \<Rightarrow> (int \<times> dhcp_client) outcome" where
  "DHClientParseAckResponse c =
     bind_outcome (header_yip c) (\<lambda>yip.
       case dhcpOption c of
         None \<Rightarrow> Fault
       | Some p \<Rightarrow>
           bind_outcome (walk visit_result (recvBuff c) p (start_result c yip)) (\<lambda>r.
             Ok (0, c\<lparr>result := r\<rparr>)))"
section \<open>The options of a packet\<close>

text \<open>Abstractly an option is a code with a value, and the options of a packet are a list of them.\<close>

type_synonym opt_entry = "byte \<times> byte list"

definition enc_option :: "opt_entry \<Rightarrow> byte list" where
  "enc_option e = fst e # of_nat (length (snd e)) # snd e"

definition enc_options :: "opt_entry list \<Rightarrow> byte list" where
  "enc_options es = concat (map enc_option es)"

lemma enc_options_simps [simp]:
  "enc_options [] = []" "enc_options (e # es) = enc_option e @ enc_options es"
  "enc_options (es @ fs) = enc_options es @ enc_options fs"
  by (simp_all add: enc_options_def)

lemma length_enc_option [simp]: "length (enc_option e) = length (snd e) + 2"
  by (simp add: enc_option_def)

text \<open>The options behind the ones already in the buffer.\<close>

definition append_options :: "opt_entry list \<Rightarrow> dhcp_option \<Rightarrow> dhcp_option" where
  "append_options es o1 = o1
     \<lparr>optBuff := take (optSize o1) (optBuff o1) @ enc_options es @
        drop (optSize o1 + length (enc_options es)) (optBuff o1),
      optSize := optSize o1 + length (enc_options es)\<rparr>"

lemma append_append:
  "optSize o1 + length (enc_options es) \<le> length (optBuff o1) \<Longrightarrow>
   append_options fs (append_options es o1) = append_options (es @ fs) o1"
  by (simp add: append_options_def min_absorb2 ac_simps)

lemma append_sizes [simp]:
  "optSize (append_options es o1) = optSize o1 + length (enc_options es)"
  "optSize o1 + length (enc_options es) \<le> length (optBuff o1) \<Longrightarrow>
   length (optBuff (append_options es o1)) = length (optBuff o1)"
  by (simp_all add: append_options_def)

lemma put_option_append:
  "optSize o1 + length (enc_options es) \<le> length (optBuff o1) \<Longrightarrow>
   put_option (enc_options es) o1 = Ok (append_options es o1)"
  by (simp add: put_option_def append_options_def wr_bytes_def)

lemma append_no_options: "optSize o1 \<le> length (optBuff o1) \<Longrightarrow> append_options [] o1 = o1"
  by (simp add: append_options_def)

text \<open>A step that adds \<open>n\<close> bytes to the options, or faults because the buffer is too small for them.\<close>

definition grows :: "dhcp_option outcome \<Rightarrow> dhcp_option \<Rightarrow> nat \<Rightarrow> bool" where
  "grows m o1 n \<longleftrightarrow> (m = Fault \<and> DHCPOPT_BUF_LEN < optSize o1 + n) \<or>
     (\<exists>b. m = Ok (o1\<lparr>optBuff := b, optSize := optSize o1 + n\<rparr>) \<and> length b = DHCPOPT_BUF_LEN)"

lemma grows_put: "length (optBuff o1) = DHCPOPT_BUF_LEN \<Longrightarrow> grows (put_option bs o1) o1 (length bs)"
  by (auto simp: grows_def put_option_def wr_bytes_def intro!: exI)

lemma grows_refl: "length (optBuff o1) = DHCPOPT_BUF_LEN \<Longrightarrow> grows (Ok o1) o1 0"
  by (auto simp: grows_def intro: exI [of _ "optBuff o1"])

lemma grows_bind:
  assumes "grows m (o1\<lparr>optBuff := b1, optSize := s1\<rparr>) n"
    and "\<And>b s. length b = DHCPOPT_BUF_LEN \<Longrightarrow>
      grows (f (o1\<lparr>optBuff := b, optSize := s\<rparr>)) (o1\<lparr>optBuff := b, optSize := s\<rparr>) k"
  shows "grows (bind_outcome m f) (o1\<lparr>optBuff := b1, optSize := s1\<rparr>) (n + k)"
  using assms(1) assms(2) [of _ "s1 + n"] by (fastforce simp: grows_def add.assoc)

text \<open>
  The contract the option builders share: whatever the buffer holds, a builder appends its options, which
  depend on the settings only and not on the buffer, and nothing else happens.
\<close>

locale option_builder =
  fixes build :: "dhcp_option \<Rightarrow> dhcp_option outcome" and entries :: "dhcp_option \<Rightarrow> opt_entry list"
  assumes build_puts: "entries o1 \<noteq> [] \<Longrightarrow> build o1 = put_option (enc_options (entries o1)) o1"
    and build_none: "entries o1 = [] \<Longrightarrow> build o1 = Ok o1"
    and entries_settings: "entries (o1\<lparr>optBuff := b, optSize := n\<rparr>) = entries o1"
begin

lemma entries_append [simp]: "entries (append_options es o1) = entries o1"
  using entries_settings by (simp add: append_options_def)

lemma build_appends:
  assumes "optSize o1 + length (enc_options (entries o1)) \<le> length (optBuff o1)"
  shows "build o1 = Ok (append_options (entries o1) o1)"
  using assms put_option_append [of o1 "entries o1"] append_no_options [of o1]
  by (cases "entries o1 = []") (simp_all add: build_none build_puts)

lemma build_more:
  assumes "optSize o1 + length (enc_options (es @ entries o1)) \<le> length (optBuff o1)"
  shows "build (append_options es o1) = Ok (append_options (es @ entries o1) o1)"
  using assms build_appends [of "append_options es o1"] by (simp add: append_append)

lemma build_grows:
  assumes "length b = DHCPOPT_BUF_LEN"
  shows "grows (build (o1\<lparr>optBuff := b, optSize := n\<rparr>)) (o1\<lparr>optBuff := b, optSize := n\<rparr>) (length (enc_options (entries o1)))"
  using assms by (cases "entries o1 = []") (simp_all add: build_none build_puts grows_put grows_refl entries_settings)

end

text \<open>The options each builder writes.\<close>

definition entry50 :: "dhcp_option \<Rightarrow> opt_entry list" where
  "entry50 o1 = (if option50RequestIp o1 \<noteq> 0 then [(DHCP_REQUESTEDIP, mem32 (option50RequestIp o1))] else [])"

definition entry51 :: "dhcp_option \<Rightarrow> opt_entry list" where
  "entry51 o1 = (if 0 < option51LeaseTime o1 then [(DHCP_LEASETIME, mem32 (htonl (option51LeaseTime o1)))] else [])"

definition entry54 :: "dhcp_option \<Rightarrow> opt_entry list" where
  "entry54 o1 = (if servId o1 \<noteq> 0 then [(DHCP_SERVIDENT, mem32 (servId o1))] else [])"

definition entry12 :: "dhcp_option \<Rightarrow> opt_entry list" where
  "entry12 o1 = (if hostnameFlag o1 = 1 then [(DHCP_HOSTNAME, hostname o1)] else [])"

definition entry55 :: "dhcp_option \<Rightarrow> opt_entry list" where
  "entry55 o1 = [(DHCP_PARAMREQUEST, [DHCP_SUBNETMASK, DHCP_ROUTER, DHCP_DOMAINNAME, DHCP_DNS])]"

lemmas entry_defs = entry50_def entry51_def entry54_def entry12_def entry55_def

interpretation opt50: option_builder DHClientBuildOption50RequestIp entry50
  by unfold_locales
    (auto simp: DHClientBuildOption50RequestIp_def entry50_def enc_option_def)

interpretation opt51: option_builder DHClientBuildOption51LeaseTime entry51
  by unfold_locales
    (auto simp: DHClientBuildOption51LeaseTime_def entry51_def enc_option_def word_gt_0)

interpretation opt54: option_builder DHClientBuildOption54ServIdent entry54
  by unfold_locales
    (auto simp: DHClientBuildOption54ServIdent_def entry54_def enc_option_def)

interpretation opt12: option_builder DHClientBuildOption12Hostname entry12
  by unfold_locales
    (auto simp: DHClientBuildOption12Hostname_def entry12_def enc_option_def)

interpretation opt55: option_builder DHClientBuildOption55Extra entry55
  by unfold_locales
    (auto simp: DHClientBuildOption55Extra_def entry55_def enc_option_def)

text \<open>The options of a request and of a discovery.\<close>

definition request_options :: "dhcp_option \<Rightarrow> opt_entry list" where
  "request_options o1 = [(DHCP_MESSAGETYPE, [DHCP_MSGREQUEST])] @ entry50 o1 @ entry54 o1 @ entry12 o1 @ entry51 o1 @ entry55 o1"

definition discover_options :: "dhcp_option \<Rightarrow> opt_entry list" where
  "discover_options o1 = [(DHCP_MESSAGETYPE, [DHCP_MSGDISCOVER])] @ entry12 o1 @ entry50 o1 @ entry51 o1"

lemma length_entries:
  "length (enc_options (entry50 o1)) \<le> 6" "length (enc_options (entry51 o1)) \<le> 6"
  "length (enc_options (entry54 o1)) \<le> 6" "length (enc_options (entry12 o1)) \<le> length (hostname o1) + 2"
  "length (enc_options (entry55 o1)) = 6"
  by (simp_all add: entry_defs)

text \<open>A buffer that starts with the options and the end marker, and is zero behind them.\<close>

definition filled :: "opt_entry list \<Rightarrow> dhcp_option \<Rightarrow> dhcp_option" where
  "filled es o1 = o1
     \<lparr>optBuff := enc_options es @ [DHCP_END] @ replicate (DHCPOPT_BUF_LEN - Suc (length (enc_options es))) 0,
      optSize := Suc (length (enc_options es))\<rparr>"

lemma append_reset_end:
  assumes "length (enc_options es) < DHCPOPT_BUF_LEN"
  shows "DHClientBuildOptionEof (append_options es (DHClientResetDhcpOptionBuff o1)) = Ok (filled es o1)"
  using assms by (simp add: DHClientBuildOptionEof_def put_option_def wr_bytes_def append_options_def
      DHClientResetDhcpOptionBuff_def filled_def)

lemma option53_reset:
  "DHClientBuildOption53MessageType t (DHClientResetDhcpOptionBuff o1) =
   Ok (append_options [(DHCP_MESSAGETYPE, [t])] (DHClientResetDhcpOptionBuff o1))"
  by (simp add: DHClientBuildOption53MessageType_def DHClientResetDhcpOptionBuff_def wr_bytes_def
      append_options_def enc_option_def)

lemma entries_reset [simp]:
  "entry50 (DHClientResetDhcpOptionBuff o1) = entry50 o1" "entry51 (DHClientResetDhcpOptionBuff o1) = entry51 o1"
  "entry54 (DHClientResetDhcpOptionBuff o1) = entry54 o1" "entry12 (DHClientResetDhcpOptionBuff o1) = entry12 o1"
  "entry55 (DHClientResetDhcpOptionBuff o1) = entry55 o1"
  by (simp_all add: DHClientResetDhcpOptionBuff_def opt50.entries_settings opt51.entries_settings
      opt54.entries_settings opt12.entries_settings opt55.entries_settings)

lemma reset_sizes [simp]:
  "optSize (DHClientResetDhcpOptionBuff o1) = 0" "length (optBuff (DHClientResetDhcpOptionBuff o1)) = DHCPOPT_BUF_LEN"
  by (simp_all add: DHClientResetDhcpOptionBuff_def)

lemmas build_more_options = opt50.build_more opt51.build_more opt54.build_more opt12.build_more opt55.build_more

lemma request_options_size: "length (hostname o1) \<le> 31 \<Longrightarrow> length (enc_options (request_options o1)) \<le> 60"
  using length_entries [of o1] by (simp add: request_options_def)

lemma discover_options_size: "length (hostname o1) \<le> 31 \<Longrightarrow> length (enc_options (discover_options o1)) \<le> 48"
  using length_entries [of o1] by (simp add: discover_options_def)

lemma build_request_options:
  assumes "length (hostname o1) \<le> 31"
  shows "DHClientBuildRequestOption o1 = Ok (filled (request_options o1) o1)"
proof -
  let ?r = "DHClientResetDhcpOptionBuff o1"
  let ?e1 = "[(DHCP_MESSAGETYPE, [DHCP_MSGREQUEST])] :: opt_entry list"
  let ?e2 = "?e1 @ entry50 o1" let ?e3 = "?e2 @ entry54 o1" let ?e4 = "?e3 @ entry12 o1" let ?e5 = "?e4 @ entry51 o1"
  note size = request_options_size [OF assms, unfolded request_options_def]
  have "DHClientBuildOption50RequestIp (append_options ?e1 ?r) = Ok (append_options ?e2 ?r)"
    using size opt50.build_more [of ?r ?e1] by simp
  moreover have "DHClientBuildOption54ServIdent (append_options ?e2 ?r) = Ok (append_options ?e3 ?r)"
    using size opt54.build_more [of ?r ?e2] by simp
  moreover have "DHClientBuildOption12Hostname (append_options ?e3 ?r) = Ok (append_options ?e4 ?r)"
    using size opt12.build_more [of ?r ?e3] by simp
  moreover have "DHClientBuildOption51LeaseTime (append_options ?e4 ?r) = Ok (append_options ?e5 ?r)"
    using size opt51.build_more [of ?r ?e4] by simp
  moreover have "DHClientBuildOption55Extra (append_options ?e5 ?r) = Ok (append_options (request_options o1) ?r)"
    using size opt55.build_more [of ?r ?e5] by (simp add: request_options_def)
  ultimately show ?thesis
    using append_reset_end [of "request_options o1" o1] request_options_size [OF assms]
    by (simp add: DHClientBuildRequestOption_def option53_reset)
qed

lemma build_discover_options:
  assumes "length (hostname o1) \<le> 31" "DHClientResetDhcpOptionBuff o1 = o1"
  shows "DHClientBuildDiscoverOption o1 = Ok (filled (discover_options o1) o1)"
proof -
  let ?r = "DHClientResetDhcpOptionBuff o1"
  let ?e1 = "[(DHCP_MESSAGETYPE, [DHCP_MSGDISCOVER])] :: opt_entry list"
  let ?e2 = "?e1 @ entry12 o1" let ?e3 = "?e2 @ entry50 o1"
  note size = discover_options_size [OF assms(1), unfolded discover_options_def]
  have "DHClientBuildOption12Hostname (append_options ?e1 ?r) = Ok (append_options ?e2 ?r)"
    using size opt12.build_more [of ?r ?e1] by simp
  moreover have "DHClientBuildOption50RequestIp (append_options ?e2 ?r) = Ok (append_options ?e3 ?r)"
    using size opt50.build_more [of ?r ?e2] by simp
  moreover have "DHClientBuildOption51LeaseTime (append_options ?e3 ?r) = Ok (append_options (discover_options o1) ?r)"
    using size opt51.build_more [of ?r ?e3] by (simp add: discover_options_def)
  ultimately have "DHClientBuildDiscoverOption ?r = Ok (filled (discover_options o1) o1)"
    using append_reset_end [of "discover_options o1" o1] discover_options_size [OF assms(1)]
    by (simp add: DHClientBuildDiscoverOption_def option53_reset)
  then show ?thesis by (simp add: assms(2))
qed

text \<open>C31: The options of a request are exactly the settings of the client. Whatever the option buffer held before,
  \<^verbatim>\<open>DHClientBuildRequestOption\<close> does not fault for a host name that fits its array, and the buffer then
  holds the message type, the requested address, the server, the host name, the lease time (each if
  set) and the parameter list, closed by the end marker and followed by zeros; at most 61 bytes.\<close>

theorem request_options_written:
  assumes "length (hostname o1) < HOSTNAME_BUF_LEN"
  shows "DHClientBuildRequestOption o1 = Ok (filled (request_options o1) o1) \<and>
    optSize (filled (request_options o1) o1) \<le> 61"
  using assms build_request_options [of o1] request_options_size [of o1] by (simp add: filled_def)

definition sample_settings :: dhcp_option where
  "sample_settings = \<lparr>dhcpXid = 5, option50RequestIp = 0x0a01a8c0, servId = 0x0101a8c0, option51LeaseTime = 0,
     bcastFlag = 0, unicastFlag = 0, unicastIpAddress = 0, hostname = [104], hostnameFlag = 1,
     optBuff = replicate 512 7, optSize = 600\<rparr>"

theorem request_options_written_witness:
  "\<exists>o2. DHClientBuildRequestOption sample_settings = Ok o2 \<and> optSize o2 = 25"
  using request_options_written [of sample_settings]
  by (simp add: sample_settings_def filled_def request_options_def entry_defs)

section \<open>Repeated discoveries\<close>

text \<open>The option buffers of discoveries in a row, with no request between them.\<close>

fun discover_builds :: "nat \<Rightarrow> dhcp_option \<Rightarrow> dhcp_option outcome" where
  "discover_builds 0 o1 = Ok o1"
| "discover_builds (Suc n) o1 = bind_outcome (DHClientBuildDiscoverOption o1) (discover_builds n)"

definition discover_size :: "dhcp_option \<Rightarrow> nat" where
  "discover_size o1 = Suc (length (enc_options (discover_options o1)))"

lemma discover_size_settings [simp]: "discover_size (o1\<lparr>optBuff := b, optSize := n\<rparr>) = discover_size o1"
  by (simp add: discover_size_def discover_options_def opt12.entries_settings opt50.entries_settings opt51.entries_settings)

lemma option53_grows:
  "length (optBuff o1) = DHCPOPT_BUF_LEN \<Longrightarrow> grows (DHClientBuildOption53MessageType t o1) o1 3"
  by (auto simp: grows_def DHClientBuildOption53MessageType_def wr_bytes_def intro!: exI)

text \<open>A step that adds \<open>n\<close> bytes if they fit and faults otherwise.\<close>

definition fits :: "dhcp_option outcome \<Rightarrow> dhcp_option \<Rightarrow> nat \<Rightarrow> bool" where
  "fits m o1 n \<longleftrightarrow>
     (if optSize o1 + n \<le> DHCPOPT_BUF_LEN
      then \<exists>b. m = Ok (o1\<lparr>optBuff := b, optSize := optSize o1 + n\<rparr>) \<and> length b = DHCPOPT_BUF_LEN
      else m = Fault)"

lemma fits_bind:
  assumes "grows m (o1\<lparr>optBuff := b1, optSize := s1\<rparr>) n"
    and "\<And>b s. length b = DHCPOPT_BUF_LEN \<Longrightarrow>
      fits (f (o1\<lparr>optBuff := b, optSize := s\<rparr>)) (o1\<lparr>optBuff := b, optSize := s\<rparr>) k"
  shows "fits (bind_outcome m f) (o1\<lparr>optBuff := b1, optSize := s1\<rparr>) (n + k)"
  using assms(1) assms(2) [of _ "s1 + n"] by (fastforce simp: grows_def fits_def add.assoc)

lemma fits_eof: "length (optBuff o1) = DHCPOPT_BUF_LEN \<Longrightarrow> fits (DHClientBuildOptionEof o1) o1 1"
  by (auto simp: fits_def DHClientBuildOptionEof_def put_option_def wr_bytes_def intro!: exI)

lemma discover_fits:
  assumes "length (optBuff o1) = DHCPOPT_BUF_LEN"
  shows "fits (DHClientBuildDiscoverOption o1) o1 (discover_size o1)"
proof -
  have size: "discover_size o1 = 3 + (length (enc_options (entry12 o1)) + (length (enc_options (entry50 o1)) +
      (length (enc_options (entry51 o1)) + 1)))"
    by (simp add: discover_size_def discover_options_def)
  have "fits (DHClientBuildDiscoverOption (o1\<lparr>optBuff := b, optSize := s\<rparr>)) (o1\<lparr>optBuff := b, optSize := s\<rparr>) (discover_size o1)"
    if "length b = DHCPOPT_BUF_LEN" for b s
    unfolding size DHClientBuildDiscoverOption_def
    by (intro fits_bind opt12.build_grows opt50.build_grows opt51.build_grows option53_grows fits_eof) (simp_all add: that)
  from this [of "optBuff o1" "optSize o1"] assms show ?thesis by simp
qed

lemma discover_builds_fit:
  "length (optBuff o1) = DHCPOPT_BUF_LEN \<Longrightarrow> 0 < n \<Longrightarrow> fits (discover_builds n o1) o1 (n * discover_size o1)"
proof (induction n arbitrary: o1)
  case (Suc n)
  note one = discover_fits [OF Suc.prems(1)]
  show ?case
  proof (cases "optSize o1 + discover_size o1 \<le> DHCPOPT_BUF_LEN")
    case True
    with one obtain b where b: "DHClientBuildDiscoverOption o1 = Ok (o1\<lparr>optBuff := b, optSize := optSize o1 + discover_size o1\<rparr>)"
      "length b = DHCPOPT_BUF_LEN" by (auto simp: fits_def)
    let ?o = "o1\<lparr>optBuff := b, optSize := optSize o1 + discover_size o1\<rparr>"
    show ?thesis
    proof (cases "n = 0")
      case True
      with one b show ?thesis by simp
    next
      case False
      with Suc.IH [of ?o] b have "fits (discover_builds n ?o) ?o (n * discover_size o1)" by simp
      with b(1) show ?thesis by (auto simp: fits_def add.assoc split: if_splits)
    qed
  next
    case False
    with one show ?thesis by (simp add: fits_def)
  qed
qed simp

text \<open>Discoveries in a row fill the option buffer: it is never reset between them, so each one adds its size to
  the size of all before, and the first one that no longer fits the 512 bytes writes outside the
  buffer.\<close>

theorem discoveries_accumulate:
  assumes "length (optBuff o1) = DHCPOPT_BUF_LEN" and "0 < n"
  shows "if optSize o1 + n * discover_size o1 \<le> DHCPOPT_BUF_LEN
    then \<exists>o2. discover_builds n o1 = Ok o2 \<and> optSize o2 = optSize o1 + n * discover_size o1
    else discover_builds n o1 = Fault"
  using discover_builds_fit [OF assms] by (auto simp: fits_def)

theorem discoveries_accumulate_witness:
  "discover_builds 40 (DHClientResetDhcpOptionBuff sample_settings) = Fault"
  using discoveries_accumulate [of "DHClientResetDhcpOptionBuff sample_settings" 40]
  by (simp add: discover_size_def discover_options_def) (simp add: sample_settings_def entry_defs)

section \<open>What the walk over options sees\<close>

text \<open>
  The contract of the two bodies of the walk: on an option that \<open>ok\<close> accepts they do what \<open>effect\<close> says,
  from the code and the value alone, wherever the option lies in the buffer.
\<close>

locale option_visitor =
  fixes visit :: "byte list \<Rightarrow> nat \<Rightarrow> 'a \<Rightarrow> 'a outcome" and effect :: "opt_entry \<Rightarrow> 'a \<Rightarrow> 'a" and ok :: "opt_entry \<Rightarrow> bool"
  assumes visit_effect: "ok e \<Longrightarrow> drop i b = enc_option e @ rest \<Longrightarrow> visit b i a = Ok (effect e a)"
    and ok_code: "ok e \<Longrightarrow> fst e \<noteq> DHCP_END" and ok_length: "ok e \<Longrightarrow> length (snd e) < 256"
begin

lemma walk_skip:
  assumes "list_all ok es" "drop i b = enc_options es @ rest"
  shows "walk visit b i a = walk visit b (i + length (enc_options es)) (fold effect es a)"
  using assms
proof (induction es arbitrary: i a)
  case (Cons e es)
  obtain c v where e: "e = (c, v)" by (cases e)
  have ok: "ok e" and es: "list_all ok es" using Cons.prems(1) by simp_all
  have d: "drop i b = enc_option e @ enc_options es @ rest" using Cons.prems(2) by simp
  have c: "i < length b" "b ! i = c" using drop_nth [OF d, of 0] by (simp_all add: e enc_option_def)
  have n: "rd_byte b (i + 1) = Ok (of_nat (length v))"
    using drop_nth [OF d, of 1] by (simp add: e enc_option_def rd_byte_def)
  have l: "unat (of_nat (length v) :: byte) = length v"
    using ok_length [OF ok] by (simp add: e unat_of_nat take_bit_nat_eq_self flip: take_bit_nat_def)
  have "drop (i + length v + 2) b = enc_options es @ rest"
    using drop_more [OF d, of "length v + 2"] by (simp add: e add.assoc)
  from Cons.IH [OF es this] show ?case
    using visit_effect [OF ok d] ok_code [OF ok] c n l by (simp add: walk.simps [of visit b i] e ac_simps)
qed simp

lemma walk_effect:
  assumes "list_all ok es" "drop i b = enc_options es @ DHCP_END # rest"
  shows "walk visit b i a = Ok (fold effect es a)"
proof -
  let ?j = "i + length (enc_options es)"
  have "drop ?j b = DHCP_END # rest" using drop_more [OF assms(2)] by simp
  then have "?j < length b" "b ! ?j = DHCP_END" using drop_nth [of ?j b "DHCP_END # rest" 0] by simp_all
  then show ?thesis using walk_skip [OF assms] by (simp add: walk.simps [of visit b ?j])
qed

end

text \<open>Reading back an address or a number from the four bytes of a value.\<close>

definition u32_of :: "byte list \<Rightarrow> 32 word" where
  "u32_of v = rd32 (v ! 0) (v ! 1) (v ! 2) (v ! 3)"

lemma u32_of_mem32 [simp]: "u32_of (mem32 w) = w"
  using rd32_mem32 [of w] by (simp add: u32_of_def mem32_def)

lemma drop_nth_value: "drop i b = v @ rest \<Longrightarrow> k < length v \<Longrightarrow> i + k < length b \<and> b ! (i + k) = v ! k"
  using drop_nth [of i b "v @ rest" k] by (simp add: nth_append)

lemma rd_u32_value:
  assumes "drop i b = v @ rest" "4 \<le> length v"
  shows "rd_u32 b i = Ok (u32_of v)"
  using less_le_trans [of 0 4 "length v"] drop_nth_value [OF assms(1), of 0] drop_nth_value [OF assms(1), of 1] drop_nth_value [OF assms(1), of 2]
    drop_nth_value [OF assms(1), of 3] assms(2)
  by (auto simp: rd_u32_def u32_of_def)

lemma option_value:
  assumes "drop i b = enc_option (c, v) @ rest"
  shows "b ! i = c" "rd_byte b (i + 1) = Ok (of_nat (length v))" "drop (i + 2) b = v @ rest"
  using drop_nth [OF assms, of 0] drop_nth [OF assms, of 1] drop_more [of i b "[c, of_nat (length v)]" "v @ rest" 2] assms
  by (simp_all add: enc_option_def rd_byte_def)

definition servid_effect :: "opt_entry \<Rightarrow> dhcp_option \<Rightarrow> dhcp_option" where
  "servid_effect e o1 = (if fst e = DHCP_SERVIDENT then o1\<lparr>servId := u32_of (snd e)\<rparr> else o1)"

text \<open>The text of the last whole address of a list of addresses.\<close>

fun last_address :: "nat \<Rightarrow> byte list \<Rightarrow> byte list \<Rightarrow> byte list" where
  "last_address 0 v s = s"
| "last_address (Suc n) v s = last_address n (drop 4 v) (DHClientGetIpString (u32_of v))"

definition result_effect :: "opt_entry \<Rightarrow> dhcp_result \<Rightarrow> dhcp_result" where
  "result_effect e r =
     (let c = fst e; v = snd e; n = length v div 4 in
      if c = DHCP_SERVIDENT then r\<lparr>servIdent := DHClientGetIpString (u32_of v)\<rparr>
      else if c = DHCP_LEASETIME then r\<lparr>leaseTime := sint (htonl (u32_of v))\<rparr>
      else if c = DHCP_SUBNETMASK then r\<lparr>subnetMask := DHClientGetIpString (u32_of v)\<rparr>
      else if c = DHCP_ROUTER then r\<lparr>router := take 15 (last_address n v (router r))\<rparr>
      else if c = DHCP_DNS then r\<lparr>dnsServer := take 15 (last_address n v (dnsServer r))\<rparr>
      else r)"

text \<open>
  The options the client reads right: addresses and times of four bytes, no end marker, no padding, no
  name of the client (option FQDN).
\<close>

definition option_ok :: "opt_entry \<Rightarrow> bool" where
  "option_ok e \<longleftrightarrow> fst e \<noteq> DHCP_END \<and> fst e \<noteq> DHCP_PAD \<and> fst e \<noteq> DHCP_FQDN \<and> length (snd e) < 256 \<and>
     (fst e \<in> {DHCP_SERVIDENT, DHCP_LEASETIME, DHCP_SUBNETMASK} \<longrightarrow> length (snd e) = 4)"

lemma length_ip_string: "length (DHClientGetIpString ip) \<le> 15"
proof -
  have "unat b < 256" for b :: byte using unsigned_less [of b] by simp
  then have "length (dec_bytes (unat b)) \<le> 3" for b :: byte by (rule length_dec_bytes)
  from this [of "mem32 ip ! 3"] this [of "mem32 ip ! 2"] this [of "mem32 ip ! 1"] this [of "mem32 ip ! 0"]
  show ?thesis unfolding DHClientGetIpString_def Let_def length_append by simp
qed

lemma each_address_last:
  "drop i b = v @ rest \<Longrightarrow> 4 * n \<le> length v \<Longrightarrow> each_address b i n s = Ok (last_address n v s)"
proof (induction n arbitrary: i v s)
  case (Suc n)
  have "drop (i + 4) b = drop 4 v @ rest"
    using drop_more [of i b "take 4 v" "drop 4 v @ rest" 4] Suc.prems by (simp flip: append_assoc)
  from Suc.IH [OF this] Suc.prems show ?case by (simp add: rd_u32_value)
qed simp

interpretation servid: option_visitor visit_servid servid_effect option_ok
proof
  fix e :: opt_entry and i :: nat and b rest :: "byte list" and a :: dhcp_option
  obtain c v where e: "e = (c, v)" by (cases e)
  assume "option_ok e" and "drop i b = enc_option e @ rest"
  then show "visit_servid b i a = Ok (servid_effect e a)"
    using option_value [of i b c v rest] rd_u32_value [of "i + 2" b v rest]
    by (auto simp: e visit_servid_def servid_effect_def option_ok_def)
qed (auto simp: option_ok_def)

interpretation res: option_visitor visit_result result_effect option_ok
proof
  fix e :: opt_entry and i :: nat and b rest :: "byte list" and a :: dhcp_result
  obtain c v where e: "e = (c, v)" by (cases e)
  assume ok: "option_ok e" and d: "drop i b = enc_option e @ rest"
  have l: "unat (of_nat (length v) :: byte) = length v"
    using ok by (simp add: e option_ok_def unat_of_nat take_bit_nat_eq_self flip: take_bit_nat_def)
  have "each_address b (i + 2) (length v div 4) s = Ok (last_address (length v div 4) v s)" for s
    using each_address_last option_value(3) [of i b c v rest] d by (simp add: e)
  then show "visit_result b i a = Ok (result_effect e a)"
    using option_value [of i b c v rest] rd_u32_value [of "i + 2" b v rest] ok d l length_ip_string
    by (auto simp: e visit_result_def result_effect_def option_ok_def Let_def)
qed (auto simp: option_ok_def)

section \<open>Reading a server message\<close>

lemma length_header [simp]:
  "length (dhcp_chaddr h) = 16 \<Longrightarrow> length (dhcp_sname h) = 64 \<Longrightarrow> length (dhcp_file h) = 128 \<Longrightarrow>
   length (dhcp_header_bytes h) = DHCP_HEADER_LEN"
  by (simp add: dhcp_header_bytes_def)

definition header_ok :: "dhcpv4_header \<Rightarrow> bool" where
  "header_ok h \<longleftrightarrow> length (dhcp_chaddr h) = 16 \<and> length (dhcp_sname h) = 64 \<and> length (dhcp_file h) = 128"

lemma header_ok_length [simp]: "header_ok h \<Longrightarrow> length (dhcp_header_bytes h) = DHCP_HEADER_LEN"
  by (simp add: header_ok_def)

text \<open>A message: the header, the options starting with the message type, and the end marker.\<close>

definition message :: "dhcpv4_header \<Rightarrow> byte \<Rightarrow> opt_entry list \<Rightarrow> byte list" where
  "message h t es = dhcp_header_bytes h @ enc_options ((DHCP_MESSAGETYPE, [t]) # es) @ [DHCP_END]"

lemma message_xid: "drop 4 (message h t es @ rest) = mem32 (dhcp_xid h) @ drop 8 (message h t es @ rest)"
  by (simp add: message_def dhcp_header_bytes_def mem32_def)

lemma message_yip: "drop 16 (message h t es @ rest) = mem32 (dhcp_yip h) @ drop 20 (message h t es @ rest)"
  by (simp add: message_def dhcp_header_bytes_def mem32_def mem16_def)

lemma message_options:
  "header_ok h \<Longrightarrow> drop DHCP_HEADER_LEN (message h t es @ rest) =
     enc_options ((DHCP_MESSAGETYPE, [t]) # es) @ DHCP_END # rest"
  by (simp add: message_def)

lemma message_type: "header_ok h \<Longrightarrow> rd_byte (message h t es @ rest) (DHCP_HEADER_LEN + 2) = Ok t"
  using drop_nth [OF message_options [of h t es rest], of 2] by (simp add: rd_byte_def enc_option_def)

text \<open>The client holds a message in its receive buffer, with its two pointers set.\<close>

definition holds_message :: "dhcp_client \<Rightarrow> dhcpv4_header \<Rightarrow> byte \<Rightarrow> opt_entry list \<Rightarrow> bool" where
  "holds_message c h t es \<longleftrightarrow> header_ok h \<and> list_all option_ok es \<and> dhcpHeader c = Some 0 \<and>
     dhcpOption c = Some DHCP_HEADER_LEN \<and> (\<exists>rest. recvBuff c = message h t es @ rest)"

lemma header_yip_message: "holds_message c h t es \<Longrightarrow> header_yip c = Ok (dhcp_yip h)"
  using rd_u32_mem32 [OF message_yip] by (auto simp: holds_message_def header_yip_def)

lemma type_ok: "option_ok (DHCP_MESSAGETYPE, [t])"
  by (simp add: option_ok_def)

lemma set_servid_message:
  assumes "holds_message c h t es"
  shows "DHClientSetServidOpt50RequestIp c =
    Ok (c\<lparr>opt := fold servid_effect es ((opt c)\<lparr>option50RequestIp := dhcp_yip h\<rparr>)\<rparr>)"
proof -
  obtain rest where "recvBuff c = message h t es @ rest" "header_ok h" "list_all option_ok es"
    using assms by (auto simp: holds_message_def)
  then have "walk visit_servid (recvBuff c) DHCP_HEADER_LEN o1 = Ok (fold servid_effect es o1)" for o1
    using servid.walk_effect [of "(DHCP_MESSAGETYPE, [t]) # es"] message_options [of h t es rest] type_ok [of t]
    by (simp add: servid_effect_def)
  then show ?thesis
    using assms header_yip_message [OF assms]
    by (simp add: DHClientSetServidOpt50RequestIp_def holds_message_def)
qed

text \<open>What the client takes from a message: its address and the values of its options, later ones replacing earlier ones.\<close>

definition message_result :: "dhcp_client \<Rightarrow> dhcpv4_header \<Rightarrow> opt_entry list \<Rightarrow> dhcp_result" where
  "message_result c h es = fold result_effect es (start_result c (dhcp_yip h))"

lemma walk_result_message:
  assumes "holds_message c h t es"
  shows "walk visit_result (recvBuff c) DHCP_HEADER_LEN r = Ok (fold result_effect es r)"
proof -
  obtain rest where "recvBuff c = message h t es @ rest" "header_ok h" "list_all option_ok es"
    using assms by (auto simp: holds_message_def)
  then show ?thesis
    using res.walk_effect [of "(DHCP_MESSAGETYPE, [t]) # es"] message_options [of h t es rest] type_ok [of t]
    by (simp add: result_effect_def)
qed

lemma parse_message:
  assumes "holds_message c h t es"
  shows "DHClientParseOfferResponse c = Ok (0, c\<lparr>result := message_result c h es\<rparr>)"
    and "DHClientParseAckResponse c = Ok (0, c\<lparr>result := message_result c h es\<rparr>)"
  using assms header_yip_message [OF assms] walk_result_message [OF assms]
  by (simp_all add: DHClientParseOfferResponse_def DHClientParseAckResponse_def message_result_def holds_message_def)

text \<open>C28: The server's parameters are read from a message. For a message with any header and any options the client
  reads right, in any order and with any other options between them, the result has the offered address
  and the mask, router, name server, server and lease time of the options (the last address of
  a list, the last option of a kind), and the next request asks for the offered address at the
  server that made the offer.\<close>

theorem message_parameters_read:
  assumes "holds_message c h t es"
  shows "DHClientParseAckResponse c = Ok (0, c\<lparr>result := message_result c h es\<rparr>) \<and>
    DHClientParseOfferResponse c = Ok (0, c\<lparr>result := message_result c h es\<rparr>) \<and>
    DHClientSetServidOpt50RequestIp c =
      Ok (c\<lparr>opt := fold servid_effect es ((opt c)\<lparr>option50RequestIp := dhcp_yip h\<rparr>)\<rparr>)"
  using parse_message [OF assms] set_servid_message [OF assms] by simp

definition sample_header :: "32 word \<Rightarrow> 32 word \<Rightarrow> dhcpv4_header" where
  "sample_header xid yip = \<lparr>dhcp_opcode = 2, dhcp_htype = 1, dhcp_hlen = 6, dhcp_hopcount = 0, dhcp_xid = xid,
     dhcp_secs = 0, dhcp_flags = 0, dhcp_cip = 0, dhcp_yip = yip, dhcp_sip = 0, dhcp_gip = 0,
     dhcp_chaddr = replicate 16 0, dhcp_sname = replicate 64 0, dhcp_file = replicate 128 0, dhcp_magic = htonl DHCP_MAGIC\<rparr>"

definition sample_entries :: "opt_entry list" where
  "sample_entries = [(DHCP_SERVIDENT, [192, 168, 1, 1]), (DHCP_LEASETIME, mem32 (htonl 3600)),
     (DHCP_SUBNETMASK, [255, 255, 255, 0]), (DHCP_ROUTER, [192, 168, 1, 1, 192, 168, 1, 2])]"

definition sample_client :: dhcp_client where
  "sample_client = \<lparr>sockfd = 3, timeout = TIME_OUT, broadcastAddr = \<lparr>sin_family = 2, sin_port = htons 67, s_addr = 0xffffffff\<rparr>,
     ifname = [119], srcMac = [1, 2, 3, 4, 5, 6], dstMac = [0, 0, 0, 0, 0, 0], recvLen = 0,
     recvBuff = replicate 2048 0, sendLen = 0, sendBuff = replicate 2048 0, ssid = [],
     dhcpHeader = None, dhcpOption = None, opt = DHClientResetDhcpOptionBuff sample_settings, result = empty_result\<rparr>"

lemma sample_ok: "list_all option_ok sample_entries" "header_ok (sample_header xid yip)"
  by (simp_all add: sample_entries_def option_ok_def sample_header_def header_ok_def)

theorem message_parameters_read_witness:
  "\<exists>c. DHClientParseAckResponse (sample_client\<lparr>recvBuff := message (sample_header 9 8) DHCP_MSGACK sample_entries,
     dhcpHeader := Some 0, dhcpOption := Some DHCP_HEADER_LEN\<rparr>) = Ok (0, c) \<and> leaseTime (result c) = 3600"
proof -
  let ?c = "sample_client\<lparr>recvBuff := message (sample_header 9 8) DHCP_MSGACK sample_entries,
     dhcpHeader := Some 0, dhcpOption := Some DHCP_HEADER_LEN\<rparr>"
  have "holds_message ?c (sample_header 9 8) DHCP_MSGACK sample_entries"
    by (simp add: holds_message_def sample_ok)
  moreover have "leaseTime (message_result ?c (sample_header 9 8) sample_entries) = 3600"
    by (simp add: message_result_def sample_entries_def result_effect_def Let_def)
  ultimately show ?thesis using message_parameters_read [of ?c "sample_header 9 8" DHCP_MSGACK sample_entries] by simp
qed

section \<open>Messages the client does not read right\<close>

text \<open>The client name of a server (option FQDN as RFC 4702 has it, with 255 as its first result code) makes the
  client read outside its receive buffer: the four bytes from the length on are taken as the length.\<close>

theorem fqdn_option_faults:
  assumes "drop i b = [DHCP_FQDN, n, flags, 255, rcode2] @ rest" and "length b \<le> DATA_BUF_LEN"
  shows "walk visit_result b i r = Fault"
proof -
  let ?w = "rd32 n flags 255 rcode2"
  have d: "rd_u32 b (i + 1) = Ok ?w" "i < length b" "b ! i = DHCP_FQDN"
    using drop_nth [OF assms(1), of 0] drop_nth [OF assms(1), of 1] drop_nth [OF assms(1), of 2]
      drop_nth [OF assms(1), of 3] drop_nth [OF assms(1), of 4]
    by (auto simp: rd_u32_def eval_nat_numeral)
  have u: "3 \<le> unat ?w" "65536 * 255 \<le> unat ?w" by (simp_all add: unat_rd32)
  then have "unat (?w - 3) = unat ?w - 3" by (simp add: unat_sub word_le_nat_alt)
  with u(2) have "DATA_BUF_LEN < unat (?w - 3)" by linarith
  with d assms(2) show ?thesis by (simp add: walk.simps [of visit_result b i] visit_result_def)
qed

theorem fqdn_option_faults_witness:
  "walk visit_result ([DHCP_FQDN, 6, 1, 255, 255, 97, 98, 99] @ [DHCP_END]) 0 empty_result = Fault"
  using fqdn_option_faults [of 0 "[DHCP_FQDN, 6, 1, 255, 255, 97, 98, 99] @ [DHCP_END]" 6 1 255 "[97, 98, 99, DHCP_END]" empty_result]
  by simp

lemma visit_pad: "b ! i = DHCP_PAD \<Longrightarrow> visit_result b i r = Ok r"
  by (simp add: visit_result_def)

lemma walk_zeros: "drop i b = replicate k 0 \<Longrightarrow> walk visit_result b i r = Fault"
proof (induction k arbitrary: i rule: less_induct)
  case (less k)
  have len: "length b - i = k" using arg_cong [OF less.prems, of length] by simp
  consider "k = 0" | "k = 1" | "2 \<le> k" by linarith
  then show ?case
  proof cases
    case 1
    with len show ?thesis by (simp add: walk.simps [of visit_result b i])
  next
    case 2
    with len have "\<not> Suc i < length b" by linarith
    with 2 drop_nth [OF less.prems, of 0] show ?thesis
      by (simp add: walk.simps [of visit_result b i] visit_pad rd_byte_def)
  next
    case 3
    have z: "b ! i = 0" "b ! (i + 1) = 0" "i + 1 < length b"
      using 3 drop_nth [OF less.prems, of 0] drop_nth [OF less.prems, of 1] by simp_all
    have "drop (i + 2) b = replicate (k - 2) 0" using less.prems by (metis drop_drop drop_replicate add.commute)
    from less.IH [OF _ this] z 3 show ?thesis
      by (simp add: walk.simps [of visit_result b i] visit_pad rd_byte_def)
  qed
qed

text \<open>A message without the end marker is read beyond the receive buffer: the zeros behind the message are taken as
  options of length zero, and nothing stops the walk at the end of the buffer.\<close>

theorem unterminated_options_fault:
  assumes "list_all option_ok es" and "drop i b = enc_options es @ replicate k 0"
  shows "walk visit_result b i r = Fault"
  using res.walk_skip [OF assms] walk_zeros [OF drop_more [OF assms(2) refl]] by simp

theorem unterminated_options_fault_witness:
  "walk visit_result (enc_options sample_entries @ replicate 2000 0) 0 empty_result = Fault"
  using unterminated_options_fault [OF sample_ok(1), of 0 "enc_options sample_entries @ replicate 2000 0" 2000 empty_result]
  by simp

end
