(* ===== verification/Dhcp_Client.thy ===== *)
theory Dhcp_Client
  imports Dhcp_Packet "HOL-Library.Signed_Division"
begin

text \<open>
  The DHCP client around its packets (tools/dhcp_client/dhcp.c): opening the client, sending with retries, waiting
  for the answer to its own transaction, and the exchanges that discover and request a lease.

  The state of the client is passed along explicitly. The system is a script: the results of the coming calls of
  \<open>sendto\<close>, \<open>select\<close> and \<open>recvfrom\<close>; a script that ends while the client still waits gives \<open>NoFuel\<close>. Eleven
  results of \<open>sendto\<close> are enough for every packet. The trace output is not part of the model.
\<close>

section \<open>Opening and closing the client\<close>

text \<open>
  What the system says to the calls that open the client: the descriptor of the socket for \<open>ioctl\<close>, the
  hardware address (\<open>None\<close> when the call fails), the descriptor of the DHCP socket, and the results of
  its options and of \<open>bind\<close>.
\<close>

record netif =
  ioctl_sock :: int
  hwaddr :: "byte list option"
  dhcp_sock :: int
  reuse_ret :: int
  broadcast_ret :: int
  device_ret :: int
  bind_ret :: int

definition DHClientInitMacAddress :: "netif \<Rightarrow> byte list option" where
  "DHClientInitMacAddress sys =
     (if ioctl_sock sys < 0 then None else map_option (take ETHER_ADDR_LEN) (hwaddr sys))"

definition DHClientInitBroadcastAddr :: "dhcp_client \<Rightarrow> dhcp_client" where
  "DHClientInitBroadcastAddr c =
     c\<lparr>broadcastAddr := \<lparr>sin_family = 2, sin_port = htons DHCP_SERVER_PORT, s_addr = 0xffffffff\<rparr>\<rparr>"

definition DHClientInitSocket :: "netif \<Rightarrow> dhcp_client \<Rightarrow> int \<times> dhcp_client" where
  "DHClientInitSocket sys c =
     (let c1 = c\<lparr>sockfd := dhcp_sock sys\<rparr> in
      if dhcp_sock sys < 0 then (-1, c1)
      else if reuse_ret sys < 0 then (-1, c1)
      else if broadcast_ret sys < 0 then (-1, c1)
      else if device_ret sys < 0 then (-1, c1)
      else if bind_ret sys < 0 then (-1, c1)
      else (0, c1))"

definition zero_option :: dhcp_option where
  "zero_option = \<lparr>dhcpXid = 0, option50RequestIp = 0, servId = 0, option51LeaseTime = 0, bcastFlag = 0,
     unicastFlag = 0, unicastIpAddress = 0, hostname = [], hostnameFlag = 0,
     optBuff = replicate DHCPOPT_BUF_LEN 0, optSize = 0\<rparr>"

text \<open>The structure after \<open>memset\<close>.\<close>

definition zero_client :: dhcp_client where
  "zero_client = \<lparr>sockfd = 0, timeout = 0, broadcastAddr = \<lparr>sin_family = 0, sin_port = 0, s_addr = 0\<rparr>,
     ifname = [], srcMac = replicate ETHER_ADDR_LEN 0, dstMac = replicate ETHER_ADDR_LEN 0,
     recvLen = 0, recvBuff = replicate DATA_BUF_LEN 0, sendLen = 0, sendBuff = replicate DATA_BUF_LEN 0, ssid = [],
     dhcpHeader = None, dhcpOption = None, opt = zero_option, result = empty_result\<rparr>"

text \<open>The names the caller gives, stored in their arrays; a missing one is \<open>None\<close>.\<close>

definition named_client :: "byte list \<Rightarrow> byte list option \<Rightarrow> byte list option \<Rightarrow> dhcp_client" where
  "named_client name ssid_arg host =
     (let c0 = zero_client\<lparr>sockfd := -1, timeout := TIME_OUT, ifname := take (IF_NAME_LEN - 1) name\<rparr>;
          c1 = (case host of
                  Some (x # xs) \<Rightarrow>
                    c0\<lparr>opt := (opt c0)\<lparr>hostname := take (HOSTNAME_BUF_LEN - 1) (x # xs), hostnameFlag := 1\<rparr>\<rparr>
                | _ \<Rightarrow> c0)
      in case ssid_arg of
           Some (x # xs) \<Rightarrow> c1\<lparr>ssid := take (SSID_BUF_LEN - 1) (x # xs)\<rparr>
         | _ \<Rightarrow> c1)"

text \<open>\<^verbatim>\<open>DHClientInit\<close>: a null pointer for the client or the interface leaves everything as it is.\<close>

definition DHClientInit ::
  "netif \<Rightarrow> dhcp_client option \<Rightarrow> byte list option \<Rightarrow> byte list option \<Rightarrow> byte list option \<Rightarrow> int \<times> dhcp_client option" where
  "DHClientInit sys client name ssid_arg host =
     (case (client, name) of
        (Some _, Some nm) \<Rightarrow>
          (let c = named_client nm ssid_arg host in
           case DHClientInitMacAddress sys of
             None \<Rightarrow> (-1, Some c)
           | Some mac \<Rightarrow>
               (let (ret, c1) = DHClientInitSocket sys (DHClientInitBroadcastAddr (c\<lparr>srcMac := mac\<rparr>)) in
                if ret \<noteq> 0 then (-1, Some c1) else (0, Some c1)))
      | _ \<Rightarrow> (-1, client))"

text \<open>\<^verbatim>\<open>DHClientDeinit\<close>: the client and the descriptor that is closed.\<close>

definition DHClientDeinit :: "dhcp_client \<Rightarrow> dhcp_client \<times> int option" where
  "DHClientDeinit c = (if 0 \<le> sockfd c then (c\<lparr>sockfd := -1\<rparr>, Some (sockfd c)) else (c, None))"

text \<open>\<^verbatim>\<open>DHClientSetDhcpXid\<close>; \<open>rnd\<close> is what \<open>rand\<close> returns.\<close>

definition DHClientSetDhcpXid :: "nat \<Rightarrow> dhcp_option \<Rightarrow> dhcp_option" where
  "DHClientSetDhcpXid rnd o1 = (if dhcpXid o1 = 0 then o1\<lparr>dhcpXid := of_nat (rnd mod 0xffffffff)\<rparr> else o1)"

section \<open>Sending and receiving\<close>

datatype errno = EHOSTUNREACH | ECONNREFUSED | ENETUNREACH | OtherError

text \<open>
  The network as the client sees it: the results of the coming calls of \<open>sendto\<close> with their \<open>errno\<close>, the coming
  returns of \<open>select\<close>, and the packets handed to \<open>sendto\<close> so far. A return of \<open>select\<close> has its result, whether the
  socket is in the set, the seconds left in the timeout, and what \<open>recvfrom\<close> gives then (\<open>None\<close> for -1). A script
  that ends while the client still waits is the outcome \<open>NoFuel\<close>.
\<close>

record event =
  retval :: int
  isset :: bool
  left_sec :: int
  arrived :: "byte list option"

record io =
  sends :: "(int \<times> errno) list"
  events :: "event list"
  outbox :: "byte list list"

fun send_loop :: "nat \<Rightarrow> byte list \<Rightarrow> (int \<times> errno) list \<Rightarrow> byte list list \<Rightarrow>
    (int \<times> (int \<times> errno) list \<times> byte list list) outcome" where
  "send_loop retry pkt [] out = NoFuel"
| "send_loop retry pkt ((ret, err) # ss) out =
     (if ret < 0 \<and> (err = EHOSTUNREACH \<or> err = ECONNREFUSED) \<and> retry < 10
      then send_loop (retry + 1) pkt ss (out @ [pkt])
      else Ok (ret, ss, out @ [pkt]))"

definition DHClientSendPacket :: "dhcp_client \<Rightarrow> io \<Rightarrow> (int \<times> io) outcome" where
  "DHClientSendPacket c w =
     (if sendLen c \<le> length (sendBuff c) then
        bind_outcome (send_loop 0 (take (sendLen c) (sendBuff c)) (sends w) (outbox w)) (\<lambda>(ret, ss, out).
          Ok (if ret \<noteq> int (sendLen c) then -1 else 0, w\<lparr>sends := ss, outbox := out\<rparr>))
      else Fault)"

abbreviation DHCP_OFFR_RCVD :: int where "DHCP_OFFR_RCVD \<equiv> 1"
abbreviation DHCP_DISC_RESEND :: int where "DHCP_DISC_RESEND \<equiv> 2"
abbreviation UNKNOWN_PACKET :: int where "UNKNOWN_PACKET \<equiv> 3"
abbreviation DHCP_ACK_RCVD :: int where "DHCP_ACK_RCVD \<equiv> 4"
abbreviation DHCP_NAK_RCVD :: int where "DHCP_NAK_RCVD \<equiv> 6"

definition DHClientCheckPacket :: "byte \<Rightarrow> dhcp_client \<Rightarrow> (int \<times> dhcp_client) outcome" where
  "DHClientCheckPacket packType c0 =
     (let c = c0\<lparr>dhcpHeader := Some 0, dhcpOption := Some DHCP_HEADER_LEN\<rparr> in
      bind_outcome (rd_byte (recvBuff c) (DHCP_HEADER_LEN + 2)) (\<lambda>t.
      bind_outcome (header_xid c) (\<lambda>xid.
        let mine = (htonl xid = dhcpXid (opt c)) in
        Ok (if packType = DHCP_MSGOFFER then
              (if t = DHCP_MSGOFFER \<and> mine then DHCP_OFFR_RCVD else UNKNOWN_PACKET)
            else if packType = DHCP_MSGACK then
              (if t = DHCP_MSGACK \<and> mine then DHCP_ACK_RCVD
               else if t = DHCP_MSGNACK \<and> mine then DHCP_NAK_RCVD
               else UNKNOWN_PACKET)
            else UNKNOWN_PACKET, c))))"

text \<open>The buffer after \<open>memset\<close> and \<open>recvfrom\<close>, and the value it returns.\<close>

definition receive :: "byte list option \<Rightarrow> dhcp_client \<Rightarrow> int \<times> dhcp_client" where
  "receive pkt c =
     (case pkt of
        None \<Rightarrow> (-1, c\<lparr>recvBuff := replicate DATA_BUF_LEN 0\<rparr>)
      | Some bs \<Rightarrow>
          (let got = take DATA_BUF_LEN bs in
           (int (length got), c\<lparr>recvBuff := got @ replicate (DATA_BUF_LEN - length got) 0\<rparr>)))"

text \<open>
  The loop of \<^verbatim>\<open>DHClientRecvPacket\<close>: \<open>ret\<close> is what the last \<open>recvfrom\<close> returned, \<open>tv\<close> the seconds left. It goes on as
  long as they are not zero.
\<close>

fun recv_loop :: "byte \<Rightarrow> int \<Rightarrow> int \<Rightarrow> dhcp_client \<Rightarrow> event list \<Rightarrow> (int \<times> dhcp_client \<times> event list) outcome" where
  "recv_loop packType ret tv c [] = (if tv = 0 then Ok (DHCP_DISC_RESEND, c, []) else NoFuel)"
| "recv_loop packType ret tv c (e # es) =
     (if tv = 0 then Ok (DHCP_DISC_RESEND, c, e # es)
      else if retval e = 0 then recv_loop packType ret (left_sec e) c es
      else
        (let (ret1, c1) = (if 0 < retval e \<and> isset e then receive (arrived e) c else (ret, c)) in
         if 60 \<le> ret1 \<and> (packType = DHCP_MSGOFFER \<or> packType = DHCP_MSGACK) then
           bind_outcome (DHClientCheckPacket packType c1) (\<lambda>(retPackType, c2).
             if packType = DHCP_MSGOFFER \<and> retPackType = DHCP_OFFR_RCVD then Ok (DHCP_OFFR_RCVD, c2, es)
             else if packType = DHCP_MSGACK \<and> retPackType = DHCP_ACK_RCVD then Ok (DHCP_ACK_RCVD, c2, es)
             else if packType = DHCP_MSGACK \<and> retPackType = DHCP_NAK_RCVD then Ok (DHCP_NAK_RCVD, c2, es)
             else recv_loop packType ret1 (left_sec e) c2 es)
         else recv_loop packType ret1 (left_sec e) c1 es))"

declare recv_loop.simps [simp del]

definition DHClientRecvPacket :: "byte \<Rightarrow> dhcp_client \<Rightarrow> io \<Rightarrow> (int \<times> dhcp_client \<times> io) outcome" where
  "DHClientRecvPacket packType c w =
     bind_outcome (recv_loop packType 0 (timeout c sdiv 1000) c (events w)) (\<lambda>(ret, c1, es).
       Ok (ret, c1, w\<lparr>events := es\<rparr>))"

section \<open>The exchanges\<close>

definition DHClientSendDiscoverPakcet :: "dhcp_client \<Rightarrow> io \<Rightarrow> (int \<times> dhcp_client \<times> io) outcome" where
  "DHClientSendDiscoverPakcet c w =
     bind_outcome (DHClientBuildDiscoverOption (opt c)) (\<lambda>o1.
     bind_outcome (DHClientBuildDiscoverPacket (c\<lparr>opt := o1\<rparr>)) (\<lambda>c1.
     bind_outcome (DHClientSendPacket c1 w) (\<lambda>(ret, w1).
       if ret \<noteq> 0 then Ok (-1, c1, w1)
       else bind_outcome (DHClientRecvPacket DHCP_MSGOFFER c1 w1) (\<lambda>(ret, c2, w2).
         if ret \<noteq> DHCP_OFFR_RCVD then Ok (-1, c2, w2)
         else bind_outcome (DHClientSetServidOpt50RequestIp c2) (\<lambda>c3. Ok (0, c3, w2))))))"

definition DHClientSendRequestPacket :: "dhcp_client \<Rightarrow> io \<Rightarrow> (int \<times> dhcp_client \<times> io) outcome" where
  "DHClientSendRequestPacket c w =
     bind_outcome (DHClientBuildRequestOption (opt c)) (\<lambda>o1.
     bind_outcome (DHClientBuildRequestPacket (c\<lparr>opt := o1\<rparr>)) (\<lambda>c1.
     bind_outcome (DHClientSendPacket c1 w) (\<lambda>(ret, w1).
       if ret \<noteq> 0 then Ok (-1, c1, w1)
       else bind_outcome (DHClientRecvPacket DHCP_MSGACK c1 w1) (\<lambda>(ret, c2, w2).
         if ret \<noteq> DHCP_ACK_RCVD then Ok (if ret = DHCP_NAK_RCVD then 1 else -1, c2, w2)
         else Ok (0, c2, w2)))))"

definition DHClientDiscover :: "nat \<Rightarrow> dhcp_client \<Rightarrow> io \<Rightarrow> (int \<times> dhcp_client \<times> io) outcome" where
  "DHClientDiscover rnd c w =
     (if sockfd c < 0 then Ok (-1, c, w)
      else
        bind_outcome (DHClientSendDiscoverPakcet (c\<lparr>opt := DHClientSetDhcpXid rnd (opt c)\<rparr>) w) (\<lambda>(ret, c1, w1).
          if ret \<noteq> 0 then Ok (-1, c1, w1)
          else bind_outcome (DHClientParseOfferResponse c1) (\<lambda>(_, c2).
               bind_outcome (DHClientSendRequestPacket c2 w1) (\<lambda>(ret, c3, w3).
                 if ret \<noteq> 0 then Ok (-1, c3, w3)
                 else bind_outcome (DHClientParseAckResponse c3) (\<lambda>(_, c4). Ok (0, c4, w3))))))"

definition DHClientRequest :: "nat \<Rightarrow> dhcp_client \<Rightarrow> io \<Rightarrow> (int \<times> dhcp_client \<times> io) outcome" where
  "DHClientRequest rnd c w =
     (if sockfd c < 0 then Ok (-1, c, w)
      else
        bind_outcome (DHClientSendRequestPacket (c\<lparr>opt := DHClientSetDhcpXid rnd (opt c)\<rparr>) w) (\<lambda>(ret, c1, w1).
          if ret \<noteq> 0 then Ok (if ret = 1 then 1 else -1, c1, w1)
          else bind_outcome (DHClientParseAckResponse c1) (\<lambda>(ret, c2).
                 Ok (if ret \<noteq> 0 then -1 else 0, c2, w1))))"

text \<open>
  \<^verbatim>\<open>main\<close>: the arguments with the name of the program, the value returned, the network afterwards and the
  descriptor that was closed. The host name is \<open>DHCP_TEST\<close>.
\<close>

definition dhcp_main :: "netif \<Rightarrow> nat \<Rightarrow> byte list list \<Rightarrow> io \<Rightarrow> (int \<times> io \<times> int option) outcome" where
  "dhcp_main sys rnd argv w =
     (if length argv \<noteq> 2 then Ok (-1, w, None)
      else
        (case DHClientInit sys (Some zero_client) (Some (argv ! 1)) None (Some [68, 72, 67, 80, 95, 84, 69, 83, 84]) of
           (ret, Some c) \<Rightarrow>
             if ret \<noteq> 0 then Ok (-1, w, None)
             else bind_outcome (DHClientDiscover rnd c w) (\<lambda>(ret, c1, w1). Ok (ret, w1, snd (DHClientDeinit c1)))
         | (ret, None) \<Rightarrow> Ok (-1, w, None)))"

section \<open>The state of a client\<close>

text \<open>Every buffer has its size, and every text fits its array.\<close>

definition client_ok :: "dhcp_client \<Rightarrow> bool" where
  "client_ok c \<longleftrightarrow> length (recvBuff c) = DATA_BUF_LEN \<and> length (sendBuff c) = DATA_BUF_LEN \<and>
     length (srcMac c) = ETHER_ADDR_LEN \<and> length (ifname c) < IF_NAME_LEN \<and> length (ssid c) < SSID_BUF_LEN \<and>
     length (hostname (opt c)) < HOSTNAME_BUF_LEN \<and> length (optBuff (opt c)) = DHCPOPT_BUF_LEN \<and>
     optSize (opt c) \<le> DHCPOPT_BUF_LEN"

lemma zero_client_simps [simp]:
  "length (recvBuff zero_client) = DATA_BUF_LEN" "length (sendBuff zero_client) = DATA_BUF_LEN"
  "ssid zero_client = []" "opt zero_client = zero_option" "hostname zero_option = []"
  "length (optBuff zero_option) = DHCPOPT_BUF_LEN" "optSize zero_option = 0"
  by (simp_all add: zero_client_def zero_option_def)

lemma named_client_ok: "length mac = ETHER_ADDR_LEN \<Longrightarrow> client_ok ((named_client nm s h)\<lparr>srcMac := mac\<rparr>)"
  by (auto simp: client_ok_def named_client_def Let_def split: option.splits list.splits)

text \<open>Opening a client that succeeds gives a client whose buffers have their sizes and whose names fit, with an
  empty option buffer, a valid socket and the broadcast address of DHCP servers; opening fails exactly
  when a pointer is missing or the system refuses one of the calls.\<close>

theorem init_client_ok:
  assumes "\<And>hw. hwaddr sys = Some hw \<Longrightarrow> length hw = 14"
  shows "(fst (DHClientInit sys client name s h) = 0 \<longleftrightarrow>
      client \<noteq> None \<and> name \<noteq> None \<and> 0 \<le> ioctl_sock sys \<and> hwaddr sys \<noteq> None \<and> 0 \<le> dhcp_sock sys \<and>
      0 \<le> reuse_ret sys \<and> 0 \<le> broadcast_ret sys \<and> 0 \<le> device_ret sys \<and> 0 \<le> bind_ret sys) \<and>
    (DHClientInit sys client name s h = (0, Some c) \<longrightarrow>
      client_ok c \<and> 0 \<le> sockfd c \<and> timeout c = TIME_OUT \<and> DHClientResetDhcpOptionBuff (opt c) = opt c \<and>
      s_addr (broadcastAddr c) = 0xffffffff)"
proof (cases "client \<noteq> None \<and> name \<noteq> None \<and> DHClientInitMacAddress sys \<noteq> None")
  case True
  then obtain c0 nm mac where a: "client = Some c0" "name = Some nm" "DHClientInitMacAddress sys = Some mac" by auto
  then have mac: "length mac = ETHER_ADDR_LEN" "0 \<le> ioctl_sock sys" "hwaddr sys \<noteq> None"
    using assms by (auto simp: DHClientInitMacAddress_def split: if_splits)
  have reset: "DHClientResetDhcpOptionBuff (opt (named_client nm s h)) = opt (named_client nm s h)" "timeout (named_client nm s h) = TIME_OUT"
    by (auto simp: named_client_def Let_def DHClientResetDhcpOptionBuff_def zero_client_def zero_option_def split: option.splits list.splits)
  show ?thesis
    using a mac reset named_client_ok [OF mac(1), of nm s h]
    by (auto simp: DHClientInit_def DHClientInitSocket_def DHClientInitBroadcastAddr_def Let_def client_ok_def split: if_splits)
next
  case False
  then show ?thesis
    by (auto simp: DHClientInit_def DHClientInitMacAddress_def Let_def split: option.splits if_splits)
qed

definition sample_netif :: netif where
  "sample_netif = \<lparr>ioctl_sock = 4, hwaddr = Some (replicate 14 2), dhcp_sock = 5, reuse_ret = 0, broadcast_ret = 0,
     device_ret = 0, bind_ret = 0\<rparr>"

theorem init_client_ok_witness:
  "fst (DHClientInit sample_netif (Some zero_client) (Some [119]) None None) = 0"
  using init_client_ok [of sample_netif "Some zero_client" "Some [119]" None None] by (simp add: sample_netif_def)

section \<open>Sending\<close>

definition retryable :: "int \<times> errno \<Rightarrow> bool" where
  "retryable s \<longleftrightarrow> fst s < 0 \<and> (snd s = EHOSTUNREACH \<or> snd s = ECONNREFUSED)"

lemma send_loop_calls:
  assumes "retry \<le> 10" "11 - retry \<le> length ss"
  shows "\<exists>k. 1 \<le> k \<and> k \<le> 11 - retry \<and> (\<forall>j < k - 1. retryable (ss ! j)) \<and>
    (k < 11 - retry \<longrightarrow> \<not> retryable (ss ! (k - 1))) \<and>
    send_loop retry pkt ss out = Ok (fst (ss ! (k - 1)), drop k ss, out @ replicate k pkt)"
  using assms
proof (induction retry pkt ss out rule: send_loop.induct)
  case (2 retry pkt ret err ss out)
  show ?case
  proof (cases "retryable (ret, err) \<and> retry < 10")
    case True
    then have again: "ret < 0 \<and> (err = EHOSTUNREACH \<or> err = ECONNREFUSED) \<and> retry < 10" by (simp add: retryable_def)
    have "retry + 1 \<le> 10" "11 - (retry + 1) \<le> length ss" using True "2.prems" by auto
    from "2.IH" [OF again this] obtain k where k: "1 \<le> k" "k \<le> 11 - (retry + 1)" "\<forall>j < k - 1. retryable (ss ! j)"
      "k < 11 - (retry + 1) \<longrightarrow> \<not> retryable (ss ! (k - 1))"
      "send_loop (retry + 1) pkt ss (out @ [pkt]) = Ok (fst (ss ! (k - 1)), drop k ss, (out @ [pkt]) @ replicate k pkt)"
      by blast
    have "\<forall>j < k. retryable (((ret, err) # ss) ! j)"
      using True k(3) by (auto simp: nth_Cons split: nat.splits)
    with True k show ?thesis
      by (intro exI [of _ "Suc k"]) (auto simp: retryable_def nth_Cons' replicate_append_same [symmetric])
  next
    case False
    then show ?thesis using "2.prems" by (intro exI [of _ 1]) (auto simp: retryable_def)
  qed
qed simp

text \<open>C34: Sending ends: whatever the network answers, the packet is handed to \<open>sendto\<close> at most eleven times, again only after
  an unreachable host or a refused connection, and the result is success exactly when the last call
  sent the whole packet.\<close>

theorem send_packet_retries:
  assumes "11 \<le> length (sends w)" and "sendLen c \<le> length (sendBuff c)"
  shows "\<exists>k. 1 \<le> k \<and> k \<le> 11 \<and> (\<forall>j < k - 1. retryable (sends w ! j)) \<and>
    (k < 11 \<longrightarrow> \<not> retryable (sends w ! (k - 1))) \<and>
    DHClientSendPacket c w = Ok (if fst (sends w ! (k - 1)) = int (sendLen c) then 0 else -1,
      w\<lparr>sends := drop k (sends w), outbox := outbox w @ replicate k (take (sendLen c) (sendBuff c))\<rparr>)"
  using send_loop_calls [of 0 "sends w" "take (sendLen c) (sendBuff c)" "outbox w"] assms
  by (auto simp: DHClientSendPacket_def)

theorem send_packet_retries_witness:
  "\<exists>k w. k \<le> 11 \<and> outbox w = replicate k [] \<and>
    DHClientSendPacket sample_client \<lparr>sends = replicate 11 (-1, ECONNREFUSED), events = [], outbox = []\<rparr> = Ok (-1, w)"
proof -
  let ?w = "\<lparr>sends = replicate 11 (-1, ECONNREFUSED), events = [], outbox = []\<rparr> :: io"
  obtain k where "1 \<le> k" "k \<le> 11" "DHClientSendPacket sample_client ?w =
      Ok (if fst (sends ?w ! (k - 1)) = int (sendLen sample_client) then 0 else -1, ?w\<lparr>sends := drop k (sends ?w),
        outbox := outbox ?w @ replicate k (take (sendLen sample_client) (sendBuff sample_client))\<rparr>)"
    using send_packet_retries [of ?w sample_client] by (auto simp: sample_client_def)
  then show ?thesis by (intro exI [of _ k]) (simp add: sample_client_def)
qed

section \<open>Receiving\<close>

text \<open>The bytes of a packet in the receive buffer.\<close>

definition in_buffer :: "byte list \<Rightarrow> byte list" where
  "in_buffer bs = take DATA_BUF_LEN bs @ replicate (DATA_BUF_LEN - length bs) 0"

lemma length_in_buffer [simp]: "length (in_buffer bs) = DATA_BUF_LEN"
  by (simp add: in_buffer_def)

lemma receive_Some: "receive (Some bs) c = (int (min DATA_BUF_LEN (length bs)), c\<lparr>recvBuff := in_buffer bs\<rparr>)"
  by (simp add: receive_def in_buffer_def min_def)

lemma receive_None: "receive None c = (-1, c\<lparr>recvBuff := replicate DATA_BUF_LEN 0\<rparr>)"
  by (simp add: receive_def)

lemmas receive_simps = receive_Some receive_None

text \<open>
  Whether a full receive buffer holds an answer the client waits for: the type of the message where the first
  option has it, and the transaction.
\<close>

definition accepts :: "byte \<Rightarrow> 32 word \<Rightarrow> byte list \<Rightarrow> int option" where
  "accepts packType xid b =
     (let t = b ! (DHCP_HEADER_LEN + 2) in
      if htonl (u32_of (drop 4 b)) \<noteq> xid then None
      else if packType = DHCP_MSGOFFER \<and> t = DHCP_MSGOFFER then Some DHCP_OFFR_RCVD
      else if packType = DHCP_MSGACK \<and> t = DHCP_MSGACK then Some DHCP_ACK_RCVD
      else if packType = DHCP_MSGACK \<and> t = DHCP_MSGNACK then Some DHCP_NAK_RCVD
      else None)"

lemma check_packet:
  assumes "length (recvBuff c) = DATA_BUF_LEN"
  shows "DHClientCheckPacket packType c = Ok (case accepts packType (dhcpXid (opt c)) (recvBuff c) of None \<Rightarrow> UNKNOWN_PACKET | Some k \<Rightarrow> k,
    c\<lparr>dhcpHeader := Some 0, dhcpOption := Some DHCP_HEADER_LEN\<rparr>)"
proof -
  have "rd_u32 (recvBuff c) 4 = Ok (u32_of (drop 4 (recvBuff c)))"
    using rd_u32_value [of 4 "recvBuff c" "drop 4 (recvBuff c)" "[]"] assms by simp
  then show ?thesis
    using assms by (simp add: DHClientCheckPacket_def accepts_def header_xid_def rd_byte_def Let_def)
qed

lemma accepts_range:
  "accepts packType xid b = Some k \<Longrightarrow> packType = DHCP_MSGOFFER \<and> k = DHCP_OFFR_RCVD \<or>
     packType = DHCP_MSGACK \<and> k = DHCP_ACK_RCVD \<or> packType = DHCP_MSGACK \<and> k = DHCP_NAK_RCVD"
  by (auto simp: accepts_def Let_def split: if_splits)

text \<open>A return of \<open>select\<close> that gives the client no answer and leaves at least a second.\<close>

definition no_answer :: "byte \<Rightarrow> 32 word \<Rightarrow> event \<Rightarrow> bool" where
  "no_answer packType xid e \<longleftrightarrow> left_sec e \<noteq> 0 \<and>
     (0 < retval e \<and> isset e \<longrightarrow>
      (case arrived e of None \<Rightarrow> True | Some bs \<Rightarrow> length bs < 60 \<or> accepts packType xid (in_buffer bs) = None))"

text \<open>The answer an event brings, if any: a packet of at least 60 bytes that is accepted.\<close>

definition answer_of :: "byte \<Rightarrow> 32 word \<Rightarrow> event \<Rightarrow> int option" where
  "answer_of packType xid e =
     (if 0 < retval e \<and> isset e then
        (case arrived e of None \<Rightarrow> None | Some bs \<Rightarrow> if 60 \<le> length bs then accepts packType xid (in_buffer bs) else None)
      else None)"

lemma no_answer_iff: "no_answer packType xid e \<longleftrightarrow> left_sec e \<noteq> 0 \<and> answer_of packType xid e = None"
  by (auto simp: no_answer_def answer_of_def split: option.splits)

lemma recv_step:
  assumes "length (recvBuff c) = DATA_BUF_LEN" "packType = DHCP_MSGOFFER \<or> packType = DHCP_MSGACK" "tv \<noteq> 0" "retval e \<noteq> 0"
    and "(if 0 < retval e \<and> isset e then receive (arrived e) c else (ret, c)) = (ret1, c1)"
  shows "recv_loop packType ret tv c (e # es) =
    (let c2 = c1\<lparr>dhcpHeader := Some 0, dhcpOption := Some DHCP_HEADER_LEN\<rparr> in
     if 60 \<le> ret1 then
       (case accepts packType (dhcpXid (opt c)) (recvBuff c1) of
          Some k \<Rightarrow> Ok (k, c2, es)
        | None \<Rightarrow> recv_loop packType ret1 (left_sec e) c2 es)
     else recv_loop packType ret1 (left_sec e) c1 es)"
proof -
  have c1: "length (recvBuff c1) = DATA_BUF_LEN" "opt c1 = opt c"
    using assms(1,5) by (auto simp: receive_def Let_def split: if_splits option.splits)
  show ?thesis
  proof (cases "accepts packType (dhcpXid (opt c)) (recvBuff c1)")
    case None
    with c1 assms check_packet [OF c1(1)] show ?thesis by (auto simp: Let_def recv_loop.simps)
  next
    case (Some k)
    with c1 assms check_packet [OF c1(1)] accepts_range [OF Some] show ?thesis by (auto simp: Let_def recv_loop.simps)
  qed
qed

text \<open>Nothing the client has read so far is an answer.\<close>

definition waiting :: "byte \<Rightarrow> 32 word \<Rightarrow> int \<Rightarrow> dhcp_client \<Rightarrow> dhcp_client \<Rightarrow> bool" where
  "waiting packType xid ret c0 c \<longleftrightarrow> length (recvBuff c) = DATA_BUF_LEN \<and>
     (60 \<le> ret \<longrightarrow> accepts packType xid (recvBuff c) = None) \<and>
     c\<lparr>recvBuff := [], dhcpHeader := None, dhcpOption := None\<rparr> = c0\<lparr>recvBuff := [], dhcpHeader := None, dhcpOption := None\<rparr>"

lemma waiting_opt: "waiting packType xid ret c0 c \<Longrightarrow> opt c = opt c0"
proof -
  assume "waiting packType xid ret c0 c"
  then have "c\<lparr>recvBuff := [], dhcpHeader := None, dhcpOption := None\<rparr> = c0\<lparr>recvBuff := [], dhcpHeader := None, dhcpOption := None\<rparr>"
    by (simp add: waiting_def)
  then have "opt (c\<lparr>recvBuff := [], dhcpHeader := None, dhcpOption := None\<rparr>) = opt (c0\<lparr>recvBuff := [], dhcpHeader := None, dhcpOption := None\<rparr>)"
    by (rule arg_cong)
  then show ?thesis by simp
qed

lemma recv_ignores:
  assumes "waiting packType (dhcpXid (opt c0)) ret c0 c" "answer_of packType (dhcpXid (opt c0)) e = None" "tv \<noteq> 0"
    "packType = DHCP_MSGOFFER \<or> packType = DHCP_MSGACK"
  shows "\<exists>ret' c'. waiting packType (dhcpXid (opt c0)) ret' c0 c' \<and>
    recv_loop packType ret tv c (e # es) = recv_loop packType ret' (left_sec e) c' es"
proof (cases "retval e = 0")
  case True
  with assms(1,3) show ?thesis by (auto simp: recv_loop.simps)
next
  case False
  obtain ret1 c1 where r: "(if 0 < retval e \<and> isset e then receive (arrived e) c else (ret, c)) = (ret1, c1)"
    by (cases "if 0 < retval e \<and> isset e then receive (arrived e) c else (ret, c)")
  have w: "waiting packType (dhcpXid (opt c0)) ret1 c0 c1"
    using assms(1,2) r
    by (cases "arrived e") (auto simp: waiting_def answer_of_def receive_simps split: if_splits)
  then have w2: "waiting packType (dhcpXid (opt c0)) ret1 c0 (c1\<lparr>dhcpHeader := Some 0, dhcpOption := Some DHCP_HEADER_LEN\<rparr>)"
    by (simp add: waiting_def)
  have "length (recvBuff c) = DATA_BUF_LEN" using assms(1) by (simp add: waiting_def)
  note step = recv_step [OF this assms(4,3) False r, of es]
  show ?thesis
  proof (cases "60 \<le> ret1")
    case True
    with w have "accepts packType (dhcpXid (opt c0)) (recvBuff c1) = None" by (simp add: waiting_def)
    with True step waiting_opt [OF assms(1)] w2 show ?thesis by auto
  next
    case False
    with step w show ?thesis by auto
  qed
qed

lemma recv_ignores_all:
  assumes "waiting packType (dhcpXid (opt c0)) ret c0 c" "list_all (no_answer packType (dhcpXid (opt c0))) junk" "tv \<noteq> 0"
    "packType = DHCP_MSGOFFER \<or> packType = DHCP_MSGACK"
  shows "\<exists>ret' c' tv'. waiting packType (dhcpXid (opt c0)) ret' c0 c' \<and> tv' \<noteq> 0 \<and>
    recv_loop packType ret tv c (junk @ es) = recv_loop packType ret' tv' c' es"
  using assms
proof (induction junk arbitrary: ret c tv)
  case Nil
  then show ?case by auto
next
  case (Cons e junk)
  then obtain ret' c' where step: "waiting packType (dhcpXid (opt c0)) ret' c0 c'"
    "recv_loop packType ret tv c (e # (junk @ es)) = recv_loop packType ret' (left_sec e) c' (junk @ es)"
    using recv_ignores [of packType c0 ret c e tv "junk @ es"] by (auto simp: no_answer_iff)
  with Cons.prems Cons.IH [OF step(1), of "left_sec e"] show ?case by (auto simp: no_answer_iff)
qed

lemma waiting_start: "length (recvBuff c) = DATA_BUF_LEN \<Longrightarrow> waiting packType xid 0 c c"
  by (simp add: waiting_def)

lemma recv_answer:
  assumes "length (recvBuff c) = DATA_BUF_LEN" "packType = DHCP_MSGOFFER \<or> packType = DHCP_MSGACK" "tv \<noteq> 0"
    and "list_all (no_answer packType (dhcpXid (opt c))) junk"
    and "0 < retval e" "isset e" "arrived e = Some bs" "60 \<le> length bs"
    and "accepts packType (dhcpXid (opt c)) (in_buffer bs) = Some k"
  shows "recv_loop packType 0 tv c (junk @ e # es) =
    Ok (k, c\<lparr>recvBuff := in_buffer bs, dhcpHeader := Some 0, dhcpOption := Some DHCP_HEADER_LEN\<rparr>, es)"
proof -
  obtain ret' c' tv' where w: "waiting packType (dhcpXid (opt c)) ret' c c'" "tv' \<noteq> 0"
    "recv_loop packType 0 tv c (junk @ e # es) = recv_loop packType ret' tv' c' (e # es)"
    using recv_ignores_all [OF waiting_start [OF assms(1)] assms(4,3,2), of "e # es"] by auto
  have rest: "c'\<lparr>recvBuff := b, dhcpHeader := p, dhcpOption := q\<rparr> = c\<lparr>recvBuff := b, dhcpHeader := p, dhcpOption := q\<rparr>" for b p q
  proof -
    have "c'\<lparr>recvBuff := [], dhcpHeader := None, dhcpOption := None\<rparr> = c\<lparr>recvBuff := [], dhcpHeader := None, dhcpOption := None\<rparr>"
      using w(1) by (simp add: waiting_def)
    then have "c'\<lparr>recvBuff := [], dhcpHeader := None, dhcpOption := None\<rparr>\<lparr>recvBuff := b, dhcpHeader := p, dhcpOption := q\<rparr> =
      c\<lparr>recvBuff := [], dhcpHeader := None, dhcpOption := None\<rparr>\<lparr>recvBuff := b, dhcpHeader := p, dhcpOption := q\<rparr>"
      by (rule arg_cong)
    then show ?thesis by simp
  qed
  have "length (recvBuff c') = DATA_BUF_LEN" using w(1) by (simp add: waiting_def)
  note step = recv_step [OF this assms(2) w(2), of e ret' "int (min DATA_BUF_LEN (length bs))" "c'\<lparr>recvBuff := in_buffer bs\<rparr>" es]
  show ?thesis
    using step assms(5-9) w(3) waiting_opt [OF w(1)] rest by (simp add: receive_simps)
qed

lemma recv_takes:
  assumes "waiting packType (dhcpXid (opt c0)) ret c0 c" "answer_of packType (dhcpXid (opt c0)) e = Some k" "tv \<noteq> 0"
    "packType = DHCP_MSGOFFER \<or> packType = DHCP_MSGACK"
  shows "\<exists>c'. recv_loop packType ret tv c (e # es) = Ok (k, c', es)"
proof -
  obtain bs where e: "0 < retval e" "isset e" "arrived e = Some bs" "60 \<le> length bs" "accepts packType (dhcpXid (opt c0)) (in_buffer bs) = Some k"
    using assms(2) by (auto simp: answer_of_def split: if_splits option.splits)
  have "length (recvBuff c) = DATA_BUF_LEN" using assms(1) by (simp add: waiting_def)
  note step = recv_step [OF this assms(4,3), of e ret "int (min DATA_BUF_LEN (length bs))" "c\<lparr>recvBuff := in_buffer bs\<rparr>" es]
  show ?thesis using step e waiting_opt [OF assms(1)] by (simp add: receive_simps)
qed

text \<open>The events the client sees: up to the first one after which no second is left.\<close>

definition within_time :: "event list \<Rightarrow> event list" where
  "within_time es = takeWhile (\<lambda>e. left_sec e \<noteq> 0) es @ take 1 (dropWhile (\<lambda>e. left_sec e \<noteq> 0) es)"

lemma within_time_simps:
  "within_time [] = []" "left_sec e = 0 \<Longrightarrow> within_time (e # es) = [e]" "left_sec e \<noteq> 0 \<Longrightarrow> within_time (e # es) = e # within_time es"
  by (simp_all add: within_time_def)

text \<open>The result of the waiting: the first answer in time, the request to send again when the time is over, or none when the events end before.\<close>

definition recv_result :: "byte \<Rightarrow> 32 word \<Rightarrow> event list \<Rightarrow> int option" where
  "recv_result packType xid es =
     (case List.map_filter (answer_of packType xid) (within_time es) of
        k # ks \<Rightarrow> Some k
      | [] \<Rightarrow> if \<exists>e \<in> set es. left_sec e = 0 then Some DHCP_DISC_RESEND else None)"

lemma recv_result_simps:
  "recv_result packType xid [] = None"
  "answer_of packType xid e = Some k \<Longrightarrow> recv_result packType xid (e # es) = Some k"
  "answer_of packType xid e = None \<Longrightarrow> left_sec e = 0 \<Longrightarrow> recv_result packType xid (e # es) = Some DHCP_DISC_RESEND"
  "answer_of packType xid e = None \<Longrightarrow> left_sec e \<noteq> 0 \<Longrightarrow> recv_result packType xid (e # es) = recv_result packType xid es"
proof -
  show "recv_result packType xid [] = None" by (simp add: recv_result_def within_time_simps map_filter_simps)
  show "answer_of packType xid e = Some k \<Longrightarrow> recv_result packType xid (e # es) = Some k"
    by (cases "left_sec e = 0") (simp_all add: recv_result_def within_time_simps map_filter_simps)
  show "answer_of packType xid e = None \<Longrightarrow> left_sec e = 0 \<Longrightarrow> recv_result packType xid (e # es) = Some DHCP_DISC_RESEND"
    by (simp add: recv_result_def within_time_simps map_filter_simps)
  show "answer_of packType xid e = None \<Longrightarrow> left_sec e \<noteq> 0 \<Longrightarrow> recv_result packType xid (e # es) = recv_result packType xid es"
    by (auto simp: recv_result_def within_time_simps map_filter_simps split: list.split)
qed

lemma recv_exact:
  assumes "packType = DHCP_MSGOFFER \<or> packType = DHCP_MSGACK" "waiting packType (dhcpXid (opt c0)) ret c0 c" "tv \<noteq> 0"
  shows "case recv_result packType (dhcpXid (opt c0)) es of
      Some k \<Rightarrow> \<exists>c' es'. recv_loop packType ret tv c es = Ok (k, c', es') | None \<Rightarrow> recv_loop packType ret tv c es = NoFuel"
  using assms(2, 3)
proof (induction es arbitrary: ret tv c)
  case Nil
  then show ?case by (simp add: recv_result_simps recv_loop.simps)
next
  case (Cons e es)
  show ?case
  proof (cases "answer_of packType (dhcpXid (opt c0)) e")
    case (Some k)
    then show ?thesis using recv_takes [OF Cons.prems(1) Some Cons.prems(2) assms(1), of es] by (auto simp: recv_result_simps)
  next
    case None
    obtain ret' c' where r: "waiting packType (dhcpXid (opt c0)) ret' c0 c'"
        "recv_loop packType ret tv c (e # es) = recv_loop packType ret' (left_sec e) c' es"
      using recv_ignores [OF Cons.prems(1) None Cons.prems(2) assms(1)] by blast
    show ?thesis
    proof (cases "left_sec e = 0")
      case True
      then show ?thesis using None r(2) by (cases es) (simp_all add: recv_result_simps recv_loop.simps)
    next
      case False
      then show ?thesis using Cons.IH [OF r(1) False] None unfolding r(2) by (simp add: recv_result_simps)
    qed
  qed
qed

lemma u32_of_append: "u32_of (mem32 w @ rest) = w"
  using u32_of_mem32 [of w] by (simp add: u32_of_def mem32_def)

lemma in_buffer_message:
  "length bs \<le> DATA_BUF_LEN \<Longrightarrow> in_buffer bs = bs @ replicate (DATA_BUF_LEN - length bs) 0"
  by (simp add: in_buffer_def)

lemma accepts_message:
  assumes "header_ok h" "dhcp_xid h = htonl xid" "length (message h t es) \<le> DATA_BUF_LEN"
  shows "accepts packType xid (in_buffer (message h t es)) =
    (if packType = DHCP_MSGOFFER \<and> t = DHCP_MSGOFFER then Some DHCP_OFFR_RCVD
     else if packType = DHCP_MSGACK \<and> t = DHCP_MSGACK then Some DHCP_ACK_RCVD
     else if packType = DHCP_MSGACK \<and> t = DHCP_MSGNACK then Some DHCP_NAK_RCVD
     else None)"
proof -
  let ?rest = "replicate (DATA_BUF_LEN - length (message h t es)) 0"
  have "u32_of (drop 4 (message h t es @ ?rest)) = dhcp_xid h" by (subst message_xid) (rule u32_of_append)
  moreover have "(message h t es @ ?rest) ! (DHCP_HEADER_LEN + 2) = t"
    using message_type [OF assms(1), of t es ?rest] by (simp add: rd_byte_def split: if_splits)
  ultimately show ?thesis using assms(2,3) by (simp add: accepts_def in_buffer_message)
qed

lemma length_message: "header_ok h \<Longrightarrow> 60 \<le> length (message h t es)"
  by (simp add: message_def)

text \<open>An event that brings a message.\<close>

definition delivers :: "event \<Rightarrow> byte list \<Rightarrow> bool" where
  "delivers e bs \<longleftrightarrow> 0 < retval e \<and> isset e \<and> arrived e = Some bs"

text \<open>A client and messages to try the theorems on.\<close>

definition offer_event :: "byte list \<Rightarrow> event" where
  "offer_event bs = \<lparr>retval = 1, isset = True, left_sec = 2, arrived = Some bs\<rparr>"

lemma sample_client_ok:
  "client_ok sample_client" "DHClientResetDhcpOptionBuff (opt sample_client) = opt sample_client" "dhcpXid (opt sample_client) = 5"
  "sockfd sample_client = 3" "timeout sample_client = TIME_OUT"
  by (simp_all add: client_ok_def sample_client_def DHClientResetDhcpOptionBuff_def sample_settings_def)

lemma sample_message:
  "length (message (sample_header xid yip) t sample_entries) \<le> DATA_BUF_LEN"
  "delivers (offer_event bs) bs" "no_answer p xid (offer_event [7])"
  using sample_ok(2) [of xid yip] by (simp_all add: message_def sample_entries_def delivers_def offer_event_def no_answer_def)

text \<open>The client takes the first answer to its own transaction. Whatever arrives before it (errors, short
  packets, messages of other clients or of another type) is skipped, as long as a second is left each
  time; the first message of the expected type with the client's transaction number ends the
  waiting with its kind, and is what the receive buffer then holds. The rest of the client is unchanged.\<close>

theorem recv_first_answer:
  assumes "length (recvBuff c) = DATA_BUF_LEN" and "packType \<in> {DHCP_MSGOFFER, DHCP_MSGACK}" and "1000 \<le> timeout c"
    and "events w = junk @ e # es" and "list_all (no_answer packType (dhcpXid (opt c))) junk"
    and "0 < retval e" and "isset e" and "arrived e = Some bs" and "60 \<le> length bs"
    and "accepts packType (dhcpXid (opt c)) (in_buffer bs) = Some k"
  shows "DHClientRecvPacket packType c w =
    Ok (k, c\<lparr>recvBuff := in_buffer bs, dhcpHeader := Some 0, dhcpOption := Some DHCP_HEADER_LEN\<rparr>, w\<lparr>events := es\<rparr>)"
proof -
  have "timeout c sdiv 1000 \<noteq> 0" using assms(3) by (simp add: signed_divide_int_def)
  with recv_answer [of c packType "timeout c sdiv 1000" junk e bs k es] assms show ?thesis
    by (simp add: DHClientRecvPacket_def)
qed

theorem recv_first_answer_witness:
  "\<exists>c w. DHClientRecvPacket DHCP_MSGACK sample_client \<lparr>sends = [], events = [offer_event [7],
      offer_event (message (sample_header (htonl 5) 9) DHCP_MSGACK sample_entries)], outbox = []\<rparr> = Ok (DHCP_ACK_RCVD, c, w)"
proof -
  let ?m = "message (sample_header (htonl 5) 9) DHCP_MSGACK sample_entries"
  let ?w = "\<lparr>sends = [], events = [offer_event [7], offer_event ?m], outbox = []\<rparr> :: io"
  have "accepts DHCP_MSGACK (dhcpXid (opt sample_client)) (in_buffer ?m) = Some DHCP_ACK_RCVD"
    using accepts_message [OF sample_ok(2) _ sample_message(1), of "htonl 5" 9 5 DHCP_MSGACK DHCP_MSGACK]
    by (simp add: sample_client_ok sample_header_def)
  then show ?thesis
    using recv_first_answer [of sample_client DHCP_MSGACK ?w "[offer_event [7]]" "offer_event ?m" "[]" ?m DHCP_ACK_RCVD]
      length_message [OF sample_ok(2), of "htonl 5" 9 DHCP_MSGACK sample_entries] sample_client_ok sample_message
    by (simp add: client_ok_def offer_event_def)
qed

text \<open>C40: What receiving gives, whatever \<open>select\<close> and \<open>recvfrom\<close> do. The client looks at the events up to the first one after which no second of its
  timeout is left. If an answer is among them, a packet of at least 60 bytes with the transaction number of the client and the expected type, the first
  one ends the waiting with its kind. If none is and the time has run out, the client is told to send again; and if neither happens, it is still
  waiting when the events are used up. Errors, short packets, packets of other clients and a packet that is looked at again after an error of
  \<open>select\<close> change nothing.\<close>

theorem recv_outcome:
  assumes "length (recvBuff c) = DATA_BUF_LEN" and "packType \<in> {DHCP_MSGOFFER, DHCP_MSGACK}" and "1000 \<le> timeout c"
  shows "case recv_result packType (dhcpXid (opt c)) (events w) of
      Some k \<Rightarrow> \<exists>c' w'. DHClientRecvPacket packType c w = Ok (k, c', w') | None \<Rightarrow> DHClientRecvPacket packType c w = NoFuel"
proof -
  have "timeout c sdiv 1000 \<noteq> 0" using assms(3) by (simp add: signed_divide_int_def)
  moreover have p: "packType = DHCP_MSGOFFER \<or> packType = DHCP_MSGACK" using assms(2) by simp
  ultimately show ?thesis using recv_exact [OF p waiting_start [OF assms(1)], of "timeout c sdiv 1000" "events w"]
    by (auto simp: DHClientRecvPacket_def split: option.splits)
qed

definition quiet_event :: "int \<Rightarrow> event" where
  "quiet_event left = \<lparr>retval = 0, isset = False, left_sec = left, arrived = None\<rparr>"

text \<open>A short packet and the answer; a short packet and the end of the time before the answer; and a short packet only.\<close>

theorem recv_outcome_witness:
  "let m = message (sample_header (htonl 5) 9) DHCP_MSGACK sample_entries; run = (\<lambda>es. DHClientRecvPacket DHCP_MSGACK sample_client \<lparr>sends = [], events = es, outbox = []\<rparr>) in
   (\<exists>c w. run [offer_event [7], offer_event m] = Ok (DHCP_ACK_RCVD, c, w)) \<and>
   (\<exists>c w. run [offer_event [7], quiet_event 0, offer_event m] = Ok (DHCP_DISC_RESEND, c, w)) \<and> run [offer_event [7]] = NoFuel"
proof -
  let ?m = "message (sample_header (htonl 5) 9) DHCP_MSGACK sample_entries"
  have a: "answer_of DHCP_MSGACK (dhcpXid (opt sample_client)) (offer_event ?m) = Some DHCP_ACK_RCVD"
    using accepts_message [OF sample_ok(2) _ sample_message(1), of "htonl 5" 9 5 DHCP_MSGACK DHCP_MSGACK]
      length_message [OF sample_ok(2), of "htonl 5" 9 DHCP_MSGACK sample_entries]
    by (simp add: sample_client_ok sample_header_def answer_of_def offer_event_def)
  have n: "answer_of DHCP_MSGACK x (offer_event [7]) = None" "answer_of DHCP_MSGACK x (quiet_event k) = None" for x k
    by (simp_all add: answer_of_def offer_event_def quiet_event_def)
  have l: "left_sec (offer_event bs) \<noteq> 0" "left_sec (quiet_event 0) = 0" for bs by (simp_all add: offer_event_def quiet_event_def)
  have c: "length (recvBuff sample_client) = DATA_BUF_LEN" "DHCP_MSGACK \<in> {DHCP_MSGOFFER, DHCP_MSGACK}" "1000 \<le> timeout sample_client"
    using sample_client_ok by (simp_all add: client_ok_def)
  note r = recv_outcome [OF c, of "\<lparr>sends = [], events = es, outbox = []\<rparr>" for es]
  show ?thesis
    using r [of "[offer_event [7], offer_event ?m]"] r [of "[offer_event [7], quiet_event 0, offer_event ?m]"] r [of "[offer_event [7]]"]
    by (simp add: Let_def recv_result_simps a n l)
qed

text \<open>When the time is up without an answer, the client reports it and leaves the later events alone.\<close>

theorem recv_times_out:
  assumes "length (recvBuff c) = DATA_BUF_LEN" and "packType \<in> {DHCP_MSGOFFER, DHCP_MSGACK}" and "1000 \<le> timeout c"
    and "events w = junk @ e # es" and "list_all (no_answer packType (dhcpXid (opt c))) junk"
    and "retval e = 0" and "left_sec e = 0"
  shows "\<exists>c'. DHClientRecvPacket packType c w = Ok (DHCP_DISC_RESEND, c', w\<lparr>events := es\<rparr>) \<and> opt c' = opt c"
proof -
  have "timeout c sdiv 1000 \<noteq> 0" using assms(3) by (simp add: signed_divide_int_def)
  then obtain ret' c' tv' where w: "waiting packType (dhcpXid (opt c)) ret' c c'" "tv' \<noteq> 0"
    "recv_loop packType 0 (timeout c sdiv 1000) c (junk @ e # es) = recv_loop packType ret' tv' c' (e # es)"
    using recv_ignores_all [OF waiting_start [OF assms(1)] assms(5), of "timeout c sdiv 1000" "e # es"] assms(2) by auto
  moreover have "recv_loop packType ret' tv' c' (e # es) = Ok (DHCP_DISC_RESEND, c', es)"
    using w(2) assms(6,7) by (cases es) (simp_all add: recv_loop.simps)
  ultimately show ?thesis using assms(4) waiting_opt [OF w(1)] by (simp add: DHClientRecvPacket_def)
qed

theorem recv_times_out_witness:
  "\<exists>c w. DHClientRecvPacket DHCP_MSGOFFER sample_client \<lparr>sends = [], events = [offer_event [7],
      \<lparr>retval = 0, isset = False, left_sec = 0, arrived = None\<rparr>], outbox = []\<rparr> = Ok (DHCP_DISC_RESEND, c, w)"
  using recv_times_out [of sample_client DHCP_MSGOFFER "\<lparr>sends = [], events = [offer_event [7],
      \<lparr>retval = 0, isset = False, left_sec = 0, arrived = None\<rparr>], outbox = []\<rparr>" "[offer_event [7]]"
      "\<lparr>retval = 0, isset = False, left_sec = 0, arrived = None\<rparr>" "[]"]
    sample_client_ok sample_message(3) by (auto simp: client_ok_def)

section \<open>Exchanges with a server\<close>

text \<open>The packet with given options, the client that has sent it, and the client that has received a message.\<close>

definition packet :: "dhcp_client \<Rightarrow> opt_entry list \<Rightarrow> byte list" where
  "packet c es = dhcp_header_bytes (dhcp_request_header c) @ enc_options es @ [DHCP_END]"

definition sent :: "opt_entry list \<Rightarrow> dhcp_client \<Rightarrow> dhcp_client" where
  "sent es c = c\<lparr>opt := filled es (opt c),
     sendBuff := packet c es @ replicate (DATA_BUF_LEN - length (packet c es)) 0, sendLen := length (packet c es)\<rparr>"

definition got :: "byte list \<Rightarrow> dhcp_client \<Rightarrow> dhcp_client" where
  "got bs c = c\<lparr>recvBuff := in_buffer bs, dhcpHeader := Some 0, dhcpOption := Some DHCP_HEADER_LEN\<rparr>"

lemma request_header_ok: "length (srcMac c) = ETHER_ADDR_LEN \<Longrightarrow> header_ok (dhcp_request_header c)"
  by (simp add: header_ok_def dhcp_request_header_def)

lemma request_header_filled [simp]: "dhcp_request_header (c\<lparr>opt := filled es (opt c)\<rparr>) = dhcp_request_header c"
  by (simp add: dhcp_request_header_def filled_def)

lemma length_packet: "length (srcMac c) = ETHER_ADDR_LEN \<Longrightarrow> length (packet c es) = DHCP_HEADER_LEN + Suc (length (enc_options es))"
  using request_header_ok [of c] by (simp add: packet_def)

lemma build_packet:
  assumes "client_ok c" "length (enc_options es) < DHCPOPT_BUF_LEN"
  shows "DHClientBuildRequestPacket (c\<lparr>opt := filled es (opt c)\<rparr>) = Ok (sent es c)"
    and "DHClientBuildDiscoverPacket (c\<lparr>opt := filled es (opt c)\<rparr>) = Ok (sent es c)"
proof -
  have mac: "length (srcMac c) = ETHER_ADDR_LEN" using assms(1) by (simp add: client_ok_def)
  let ?b = "take (optSize (filled es (opt c))) (optBuff (filled es (opt c)))"
  have b: "?b = enc_options es @ [DHCP_END]" "optSize (filled es (opt c)) = Suc (length (enc_options es))"
      "length (optBuff (filled es (opt c))) = DHCPOPT_BUF_LEN"
    using assms(2) by (simp_all add: filled_def)
  show "DHClientBuildRequestPacket (c\<lparr>opt := filled es (opt c)\<rparr>) = Ok (sent es c)"
    using request_header_ok [OF mac] length_packet [OF mac, of es] b assms(2)
    by (simp add: DHClientBuildRequestPacket_def wr_bytes_def sent_def packet_def)
  then show "DHClientBuildDiscoverPacket (c\<lparr>opt := filled es (opt c)\<rparr>) = Ok (sent es c)"
    by (simp add: DHClientBuildDiscoverPacket_def DHClientBuildRequestPacket_def)
qed

lemma send_sent:
  assumes "client_ok c" "length (enc_options es) < DHCPOPT_BUF_LEN" "sends w = (int (length (packet c es)), err) # ss"
  shows "DHClientSendPacket (sent es c) w = Ok (0, w\<lparr>sends := ss, outbox := outbox w @ [packet c es]\<rparr>)"
  using assms length_packet [of c es] by (simp add: DHClientSendPacket_def sent_def client_ok_def)

lemma sent_keeps [simp]:
  "recvBuff (sent es c) = recvBuff c" "timeout (sent es c) = timeout c" "opt (sent es c) = filled es (opt c)"
  "dhcpXid (filled es o1) = dhcpXid o1"
  by (simp_all add: sent_def filled_def)

lemma recv_got:
  assumes "length (recvBuff c) = DATA_BUF_LEN" "packType = DHCP_MSGOFFER \<or> packType = DHCP_MSGACK" "1000 \<le> timeout c"
    and "events w = junk @ e # es" "list_all (no_answer packType (dhcpXid (opt c))) junk" "delivers e bs" "60 \<le> length bs"
    and "accepts packType (dhcpXid (opt c)) (in_buffer bs) = Some k"
  shows "DHClientRecvPacket packType c w = Ok (k, got bs c, w\<lparr>events := es\<rparr>)"
proof -
  have "timeout c sdiv 1000 \<noteq> 0" using assms(3) by (simp add: signed_divide_int_def)
  with recv_answer [of c packType "timeout c sdiv 1000" junk e bs k es] assms show ?thesis
    by (simp add: DHClientRecvPacket_def delivers_def got_def)
qed

lemma request_exchange:
  assumes "client_ok c" "1000 \<le> timeout c"
    and "sends w = (int (length (packet c (request_options (opt c)))), err) # ss"
    and "events w = junk @ e # es" "list_all (no_answer DHCP_MSGACK (dhcpXid (opt c))) junk" "delivers e bs" "60 \<le> length bs"
    and "accepts DHCP_MSGACK (dhcpXid (opt c)) (in_buffer bs) = Some k"
  shows "DHClientSendRequestPacket c w =
    Ok (if k = DHCP_ACK_RCVD then 0 else 1, got bs (sent (request_options (opt c)) c),
      w\<lparr>sends := ss, events := es, outbox := outbox w @ [packet c (request_options (opt c))]\<rparr>)"
proof -
  let ?es = "request_options (opt c)"
  have host: "length (hostname (opt c)) \<le> 31" and buf: "length (recvBuff c) = DATA_BUF_LEN"
    using assms(1) by (simp_all add: client_ok_def)
  have size: "length (enc_options ?es) < DHCPOPT_BUF_LEN" using request_options_size [OF host] by simp
  show ?thesis
    using build_request_options [OF host] build_packet(1) [OF assms(1) size] send_sent [OF assms(1) size assms(3)]
      recv_got [of "sent ?es c" DHCP_MSGACK "w\<lparr>sends := ss, outbox := outbox w @ [packet c ?es]\<rparr>" junk e es bs k]
      assms(2,4-8) buf accepts_range [OF assms(8)]
    by (auto simp: DHClientSendRequestPacket_def)
qed

lemma discover_exchange:
  assumes "client_ok c" "1000 \<le> timeout c" "DHClientResetDhcpOptionBuff (opt c) = opt c"
    and "sends w = (int (length (packet c (discover_options (opt c)))), err) # ss"
    and "events w = junk @ e # es" "list_all (no_answer DHCP_MSGOFFER (dhcpXid (opt c))) junk" "delivers e bs" "60 \<le> length bs"
    and "accepts DHCP_MSGOFFER (dhcpXid (opt c)) (in_buffer bs) = Some k"
    and "DHClientSetServidOpt50RequestIp (got bs (sent (discover_options (opt c)) c)) = Ok c'"
  shows "DHClientSendDiscoverPakcet c w =
    Ok (0, c', w\<lparr>sends := ss, events := es, outbox := outbox w @ [packet c (discover_options (opt c))]\<rparr>)"
proof -
  let ?es = "discover_options (opt c)"
  have host: "length (hostname (opt c)) \<le> 31" and buf: "length (recvBuff c) = DATA_BUF_LEN"
    using assms(1) by (simp_all add: client_ok_def)
  have size: "length (enc_options ?es) < DHCPOPT_BUF_LEN" using discover_options_size [OF host] by simp
  show ?thesis
    using build_discover_options [OF host assms(3)] build_packet(2) [OF assms(1) size] send_sent [OF assms(1) size assms(4)]
      recv_got [of "sent ?es c" DHCP_MSGOFFER "w\<lparr>sends := ss, outbox := outbox w @ [packet c ?es]\<rparr>" junk e es bs k]
      assms(2,5-10) buf accepts_range [OF assms(9)]
    by (auto simp: DHClientSendDiscoverPakcet_def)
qed

text \<open>The server an offer names.\<close>

definition offered_server :: "opt_entry list \<Rightarrow> 32 word \<Rightarrow> 32 word" where
  "offered_server es s = fold (\<lambda>e s. if fst e = DHCP_SERVIDENT then u32_of (snd e) else s) es s"

lemma fold_servid: "fold servid_effect es o1 = o1\<lparr>servId := offered_server es (servId o1)\<rparr>"
  by (induction es arbitrary: o1) (simp_all add: servid_effect_def offered_server_def)

text \<open>The settings after an offer was taken.\<close>

definition take_offer :: "dhcpv4_header \<Rightarrow> opt_entry list \<Rightarrow> dhcp_option \<Rightarrow> dhcp_option" where
  "take_offer h es o1 = o1\<lparr>option50RequestIp := dhcp_yip h, servId := offered_server es (servId o1)\<rparr>"

lemma request_options_filled: "request_options (take_offer h es (filled fs o1)) = request_options (take_offer h es o1)"
  by (simp add: request_options_def take_offer_def filled_def entry_defs)

lemma take_offer_xid [simp]: "dhcpXid (take_offer h es o1) = dhcpXid o1"
  by (simp add: take_offer_def)

lemma holds_got:
  assumes "header_ok h" "list_all option_ok es" "length (message h t es) \<le> DATA_BUF_LEN"
  shows "holds_message (got (message h t es) c) h t es"
  using assms by (auto simp: holds_message_def got_def in_buffer_message)

lemma client_ok_sent_got:
  assumes "client_ok c" "length (enc_options es) < DHCPOPT_BUF_LEN"
  shows "client_ok (got bs (sent es c))"
  using assms length_packet [of c es] by (simp add: client_ok_def got_def sent_def filled_def)

lemma message_result_frame:
  "ifname c = ifname c' \<Longrightarrow> ssid c = ssid c' \<Longrightarrow> message_result c h es = message_result c' h es"
  by (simp add: message_result_def start_result_def)

text \<open>C6: A lease is obtained end to end. For an open client with an empty option buffer and its transaction number,
  if both packets are sent, and among whatever else arrives the server's offer comes and then its
  acknowledgement, for any headers and any options the client reads right, then discovering succeeds. The
  client has sent exactly two packets: the discovery with its settings, and a request for the
  offered address at the server that made the offer; and its result has the address and the parameters
  of the acknowledgement.\<close>

theorem discover_obtains_lease:
  assumes "client_ok c" and "0 \<le> sockfd c" and "1000 \<le> timeout c" and "dhcpXid (opt c) \<noteq> 0"
    and "DHClientResetDhcpOptionBuff (opt c) = opt c"
    and "header_ok h1" and "list_all option_ok os1" and "dhcp_xid h1 = htonl (dhcpXid (opt c))"
    and "header_ok h2" and "list_all option_ok os2" and "dhcp_xid h2 = htonl (dhcpXid (opt c))"
    and "length (message h1 DHCP_MSGOFFER os1) \<le> DATA_BUF_LEN" and "length (message h2 DHCP_MSGACK os2) \<le> DATA_BUF_LEN"
    and "p1 = packet c (discover_options (opt c))"
    and "p2 = packet c (request_options (take_offer h1 os1 (opt c)))"
    and "sends w = (int (length p1), err1) # (int (length p2), err2) # ss"
    and "events w = junk1 @ e1 # junk2 @ e2 # es"
    and "list_all (no_answer DHCP_MSGOFFER (dhcpXid (opt c))) junk1" and "delivers e1 (message h1 DHCP_MSGOFFER os1)"
    and "list_all (no_answer DHCP_MSGACK (dhcpXid (opt c))) junk2" and "delivers e2 (message h2 DHCP_MSGACK os2)"
  shows "\<exists>c'. DHClientDiscover rnd c w = Ok (0, c', w\<lparr>sends := ss, events := es, outbox := outbox w @ [p1, p2]\<rparr>) \<and>
    result c' = message_result c h2 os2"
proof -
  let ?d = "discover_options (opt c)" let ?m1 = "message h1 DHCP_MSGOFFER os1" let ?m2 = "message h2 DHCP_MSGACK os2"
  let ?c1 = "got ?m1 (sent ?d c)"
  let ?c2 = "?c1\<lparr>opt := take_offer h1 os1 (opt ?c1)\<rparr>"
  let ?c3 = "?c2\<lparr>result := message_result ?c2 h1 os1\<rparr>"
  let ?w1 = "w\<lparr>sends := (int (length p2), err2) # ss, events := junk2 @ e2 # es, outbox := outbox w @ [p1]\<rparr>"
  have host: "length (hostname (opt c)) \<le> 31" using assms(1) by (simp add: client_ok_def)
  have ok1: "client_ok ?c1" using client_ok_sent_got [OF assms(1)] discover_options_size [OF host] by simp
  have m1: "holds_message ?c1 h1 DHCP_MSGOFFER os1" using holds_got assms(6,7,12) by blast
  have servid: "DHClientSetServidOpt50RequestIp ?c1 = Ok ?c2"
    using set_servid_message [OF m1] by (simp add: fold_servid take_offer_def)
  have disc: "DHClientSendDiscoverPakcet c w = Ok (0, ?c2, ?w1)"
    using discover_exchange [OF assms(1,3,5) _ _ _ assms(19) length_message [OF assms(6)] _ servid]
      accepts_message [OF assms(6,8,12), of DHCP_MSGOFFER] assms(14,16,17,18) by simp
  have offer: "DHClientParseOfferResponse ?c2 = Ok (0, ?c3)"
    using parse_message(1) [of ?c2 h1 DHCP_MSGOFFER os1] m1 by (simp add: holds_message_def)
  have ok3: "client_ok ?c3" using ok1 by (simp add: client_ok_def take_offer_def)
  have opt3: "request_options (opt ?c3) = request_options (take_offer h1 os1 (opt c))" "dhcpXid (opt ?c3) = dhcpXid (opt c)"
    by (simp_all add: got_def request_options_filled)
  have p3: "packet ?c3 = packet c"
    by (auto simp: packet_def dhcp_request_header_def got_def sent_def take_offer_def filled_def)
  let ?c4 = "got ?m2 (sent (request_options (opt ?c3)) ?c3)"
  have req: "DHClientSendRequestPacket ?c3 ?w1 = Ok (0, ?c4, w\<lparr>sends := ss, events := es, outbox := outbox w @ [p1, p2]\<rparr>)"
    using request_exchange [OF ok3 _ _ _ _ assms(21) length_message [OF assms(9)], of ?w1 err2 ss junk2 es DHCP_ACK_RCVD]
      accepts_message [OF assms(9,11,13), of DHCP_MSGACK] assms(3,15,20) opt3 p3
    by (simp add: got_def)
  have ack: "DHClientParseAckResponse ?c4 = Ok (0, ?c4\<lparr>result := message_result ?c4 h2 os2\<rparr>)"
    by (rule parse_message(2) [OF holds_got [OF assms(9,10,13)]])
  have "DHClientDiscover rnd c w =
      Ok (0, ?c4\<lparr>result := message_result ?c4 h2 os2\<rparr>, w\<lparr>sends := ss, events := es, outbox := outbox w @ [p1, p2]\<rparr>)"
    using assms(2,4) disc offer req ack by (simp add: DHClientDiscover_def DHClientSetDhcpXid_def)
  moreover have "message_result ?c4 h2 os2 = message_result c h2 os2"
    by (rule message_result_frame) (simp_all add: got_def sent_def)
  ultimately show ?thesis by simp
qed

theorem discover_obtains_lease_witness:
  "\<exists>c w. DHClientDiscover 0 sample_client
     \<lparr>sends = [(int (length (packet sample_client (discover_options (opt sample_client)))), OtherError),
        (int (length (packet sample_client (request_options (take_offer (sample_header (htonl 5) 9) sample_entries (opt sample_client))))), OtherError)],
      events = [offer_event [7], offer_event (message (sample_header (htonl 5) 9) DHCP_MSGOFFER sample_entries),
        offer_event (message (sample_header (htonl 5) 9) DHCP_MSGACK sample_entries)], outbox = []\<rparr> = Ok (0, c, w) \<and>
    length (outbox w) = 2 \<and> leaseTime (result c) = 3600"
proof -
  let ?h = "sample_header (htonl 5) 9"
  let ?p1 = "packet sample_client (discover_options (opt sample_client))"
  let ?p2 = "packet sample_client (request_options (take_offer ?h sample_entries (opt sample_client)))"
  let ?w = "\<lparr>sends = [(int (length ?p1), OtherError), (int (length ?p2), OtherError)],
      events = [offer_event [7], offer_event (message ?h DHCP_MSGOFFER sample_entries),
        offer_event (message ?h DHCP_MSGACK sample_entries)], outbox = []\<rparr> :: io"
  have xid: "dhcp_xid ?h = htonl (dhcpXid (opt sample_client))" by (simp add: sample_client_ok) (simp add: sample_header_def)
  have "\<exists>c'. DHClientDiscover 0 sample_client ?w = Ok (0, c', ?w\<lparr>sends := [], events := [], outbox := outbox ?w @ [?p1, ?p2]\<rparr>) \<and>
    result c' = message_result sample_client ?h sample_entries"
    by (rule discover_obtains_lease [OF sample_client_ok(1) _ _ _ sample_client_ok(2) sample_ok(2,1) xid sample_ok(2,1) xid
          sample_message(1) sample_message(1) refl refl, where ?junk1.0 = "[offer_event [7]]" and ?junk2.0 = "[]"])
      (simp add: sample_client_ok sample_message)+
  moreover have "leaseTime (message_result sample_client ?h sample_entries) = 3600"
    by (simp add: message_result_def sample_entries_def result_effect_def Let_def)
  ultimately show ?thesis by auto
qed

text \<open>A refused request is reported as such. If the first answer to a request is the server's refusal, then
  \<^verbatim>\<open>DHClientRequest\<close> returns 1 after sending one packet, and the result of the client is left alone.\<close>

theorem request_refused:
  assumes "client_ok c" and "0 \<le> sockfd c" and "1000 \<le> timeout c" and "dhcpXid (opt c) \<noteq> 0"
    and "header_ok h" and "dhcp_xid h = htonl (dhcpXid (opt c))" and "length (message h DHCP_MSGNACK os) \<le> DATA_BUF_LEN"
    and "sends w = (int (length (packet c (request_options (opt c)))), err) # ss"
    and "events w = junk @ e # es" and "list_all (no_answer DHCP_MSGACK (dhcpXid (opt c))) junk"
    and "delivers e (message h DHCP_MSGNACK os)"
  shows "\<exists>c'. DHClientRequest rnd c w = Ok (1, c', w\<lparr>sends := ss, events := es,
      outbox := outbox w @ [packet c (request_options (opt c))]\<rparr>) \<and> result c' = result c"
  using request_exchange [OF assms(1,3,8,9,10,11) length_message [OF assms(5)], of DHCP_NAK_RCVD]
    accepts_message [OF assms(5-7), of DHCP_MSGACK] assms(2,4)
  by (simp add: DHClientRequest_def DHClientSetDhcpXid_def got_def sent_def)

theorem request_refused_witness:
  "\<exists>c w. DHClientRequest 0 sample_client
     \<lparr>sends = [(int (length (packet sample_client (request_options (opt sample_client)))), OtherError)],
      events = [offer_event (message (sample_header (htonl 5) 9) DHCP_MSGNACK sample_entries)], outbox = []\<rparr> = Ok (1, c, w)"
proof -
  have xid: "dhcp_xid (sample_header (htonl 5) 9) = htonl (dhcpXid (opt sample_client))"
    by (simp add: sample_client_ok) (simp add: sample_header_def)
  let ?p = "packet sample_client (request_options (opt sample_client))"
  let ?m = "message (sample_header (htonl 5) 9) DHCP_MSGNACK sample_entries"
  let ?w = "\<lparr>sends = [(int (length ?p), OtherError)], events = [offer_event ?m], outbox = []\<rparr> :: io"
  have "\<exists>c'. DHClientRequest 0 sample_client ?w = Ok (1, c', ?w\<lparr>sends := [], events := [], outbox := outbox ?w @ [?p]\<rparr>) \<and>
      result c' = result sample_client"
    by (rule request_refused [OF sample_client_ok(1) _ _ _ sample_ok(2) xid sample_message(1), where junk = "[]"])
      (simp add: sample_client_ok sample_message)+
  then show ?thesis by blast
qed

text \<open>What receiving may change: the receive buffer, which keeps its size, and the pointers into it.\<close>

definition only_received :: "dhcp_client \<Rightarrow> dhcp_client \<Rightarrow> bool" where
  "only_received c c' \<longleftrightarrow>
     (\<exists>b p q. c' = c\<lparr>recvBuff := b, dhcpHeader := p, dhcpOption := q\<rparr> \<and> length b = DATA_BUF_LEN)"

lemma only_receivedI: "length b = DATA_BUF_LEN \<Longrightarrow> only_received c (c\<lparr>recvBuff := b, dhcpHeader := p, dhcpOption := q\<rparr>)"
  by (auto simp: only_received_def)

lemma only_received_refl: "length (recvBuff c) = DATA_BUF_LEN \<Longrightarrow> only_received c c"
  using only_receivedI [of "recvBuff c" c "dhcpOption c" "dhcpHeader c"] by simp

lemma only_received_trans: "only_received c c1 \<Longrightarrow> only_received c1 c2 \<Longrightarrow> only_received c c2"
  by (auto simp: only_received_def) blast

lemma only_received_length: "only_received c c' \<Longrightarrow> length (recvBuff c') = DATA_BUF_LEN"
  by (auto simp: only_received_def)

lemma recv_loop_safe:
  assumes "length (recvBuff c) = DATA_BUF_LEN" "packType = DHCP_MSGOFFER \<or> packType = DHCP_MSGACK"
  shows "recv_loop packType ret tv c es \<noteq> Fault \<and>
    (\<forall>k c' es'. recv_loop packType ret tv c es = Ok (k, c', es') \<longrightarrow> only_received c c')"
  using assms
proof (induction es arbitrary: ret tv c)
  case Nil
  then show ?case by (auto simp: recv_loop.simps only_received_refl)
next
  case (Cons e es)
  consider "tv = 0" | "tv \<noteq> 0" "retval e = 0" | "tv \<noteq> 0" "retval e \<noteq> 0" by blast
  then show ?case
  proof cases
    case 1
    with only_received_refl [OF Cons.prems(1)] show ?thesis by (simp add: recv_loop.simps)
  next
    case 2
    with Cons.IH [OF Cons.prems] show ?thesis by (simp add: recv_loop.simps)
  next
    case 3
    obtain ret1 c1 where r: "(if 0 < retval e \<and> isset e then receive (arrived e) c else (ret, c)) = (ret1, c1)"
      by (cases "if 0 < retval e \<and> isset e then receive (arrived e) c else (ret, c)")
    then obtain b where c1: "c1 = c\<lparr>recvBuff := b\<rparr>" "length b = DATA_BUF_LEN"
      using Cons.prems(1) by (cases "arrived e") (auto simp: receive_simps split: if_splits intro: that [of "recvBuff c"])
    let ?c2 = "c1\<lparr>dhcpHeader := Some 0, dhcpOption := Some DHCP_HEADER_LEN\<rparr>"
    have o1: "only_received c c1" using only_receivedI [OF c1(2), of c "dhcpOption c" "dhcpHeader c"] c1(1) by simp
    have o2: "only_received c ?c2" using only_receivedI [OF c1(2)] c1(1) by simp
    note IH1 = Cons.IH [OF only_received_length [OF o1] Cons.prems(2), of ret1 "left_sec e"]
    note IH2 = Cons.IH [OF only_received_length [OF o2] Cons.prems(2), of ret1 "left_sec e"]
    from recv_step [OF Cons.prems 3 r, of es] IH1 IH2 o1 o2 show ?thesis
      by (auto simp: Let_def split: if_splits option.splits intro: only_received_trans)
  qed
qed

lemma recv_packet_safe:
  assumes "length (recvBuff c) = DATA_BUF_LEN" "packType = DHCP_MSGOFFER \<or> packType = DHCP_MSGACK"
  shows "DHClientRecvPacket packType c w \<noteq> Fault"
    and "DHClientRecvPacket packType c w = Ok (k, c', w') \<Longrightarrow> only_received c c'"
  using recv_loop_safe [OF assms, of 0 "timeout c sdiv 1000" "events w"]
  by (auto simp: DHClientRecvPacket_def bind_outcome_Ok_iff
      split: prod.splits elim: bind_outcome.elims dest: sym)

lemma send_packet_safe: "sendLen c \<le> length (sendBuff c) \<Longrightarrow> DHClientSendPacket c w \<noteq> Fault"
proof -
  have "send_loop retry pkt ss out \<noteq> Fault" for retry pkt ss out
    by (induction retry pkt ss out rule: send_loop.induct) simp_all
  then show "sendLen c \<le> length (sendBuff c) \<Longrightarrow> DHClientSendPacket c w \<noteq> Fault"
    by (auto simp: DHClientSendPacket_def elim: bind_outcome.elims dest: sym)
qed

lemma client_ok_sent:
  assumes "client_ok c" "length (enc_options es) < DHCPOPT_BUF_LEN"
  shows "client_ok (sent es c)" "sendLen (sent es c) \<le> length (sendBuff (sent es c))"
  using assms length_packet [of c es] by (simp_all add: client_ok_def sent_def filled_def)

lemma client_ok_received: "client_ok c \<Longrightarrow> only_received c c' \<Longrightarrow> client_ok c'"
  by (auto simp: client_ok_def only_received_def)

text \<open>C30: A request never leaves the client's buffers. Whatever the settings and whatever the network answers, building and
  sending the request and receiving the answer do not fault, and the client stays well-formed; this is
  so even after discoveries that have filled the option buffer.\<close>

theorem request_exchange_safe:
  assumes "client_ok c"
  shows "DHClientSendRequestPacket c w \<noteq> Fault \<and>
    (\<forall>ret c' w'. DHClientSendRequestPacket c w = Ok (ret, c', w') \<longrightarrow> client_ok c' \<and> ret \<in> {-1, 0, 1})"
proof -
  let ?es = "request_options (opt c)" let ?c = "sent ?es c"
  have host: "length (hostname (opt c)) \<le> 31" using assms by (simp add: client_ok_def)
  have size: "length (enc_options ?es) < DHCPOPT_BUF_LEN" using request_options_size [OF host] by simp
  note ok = client_ok_sent [OF assms size]
  have buf: "length (recvBuff ?c) = DATA_BUF_LEN" using ok(1) by (simp add: client_ok_def)
  have run: "DHClientSendRequestPacket c w = bind_outcome (DHClientSendPacket ?c w) (\<lambda>(ret, w1).
       if ret \<noteq> 0 then Ok (-1, ?c, w1)
       else bind_outcome (DHClientRecvPacket DHCP_MSGACK ?c w1) (\<lambda>(ret, c2, w2).
         if ret \<noteq> DHCP_ACK_RCVD then Ok (if ret = DHCP_NAK_RCVD then 1 else -1, c2, w2)
         else Ok (0, c2, w2)))"
    using build_request_options [OF host] build_packet(1) [OF assms size]
    by (simp add: DHClientSendRequestPacket_def)
  have "DHClientSendRequestPacket c w \<noteq> Fault"
    using send_packet_safe [OF ok(2)] recv_packet_safe(1) [OF buf]
    by (auto simp: run bind_outcome_Fault_iff split: prod.splits if_splits)
  moreover have "client_ok c' \<and> ret \<in> {-1, 0, 1}" if "DHClientSendRequestPacket c w = Ok (ret, c', w')" for ret c' w'
    using that ok(1) recv_packet_safe(2) [OF buf] client_ok_received [OF ok(1)]
    by (fastforce simp: run bind_outcome_Ok_iff split: prod.splits if_splits)
  ultimately show ?thesis by blast
qed

theorem request_exchange_safe_witness:
  "DHClientSendRequestPacket sample_client \<lparr>sends = [(3, OtherError)], events = [], outbox = []\<rparr> \<noteq> Fault"
  using request_exchange_safe [OF sample_client_ok(1)] by blast

end
