(* ===== verification/Md5.thy ===== *)
theory Md5
  imports Memory
begin

text \<open>
  The message digest (tools/md5/md5.c and md5.h): the transformation with its 64 unrolled steps, contexts that take a
  message in pieces, and the digest; and its specification after RFC 1321, with the proof that the code computes
  it.

  The type \<open>UINT4\<close> of the code is \<^verbatim>\<open>unsigned long\<close>; it is modelled with the 32 bits it has on the ARM boards
  the makefile builds for (and where it has 64, the rotations of the code are not rotations). The interface of an
  incremental digest is the locale \<open>incremental_digest\<close>, interpreted on the contexts of the code.
\<close>

unbundle bit_operations_syntax

section \<open>The transformation\<close>

type_synonym UINT4 = "32 word"

text \<open>The array \<^verbatim>\<open>state\<close> of four words.\<close>

type_synonym quad = "UINT4 \<times> UINT4 \<times> UINT4 \<times> UINT4"

abbreviation S11 :: nat where "S11 \<equiv> 7"
abbreviation S12 :: nat where "S12 \<equiv> 12"
abbreviation S13 :: nat where "S13 \<equiv> 17"
abbreviation S14 :: nat where "S14 \<equiv> 22"
abbreviation S21 :: nat where "S21 \<equiv> 5"
abbreviation S22 :: nat where "S22 \<equiv> 9"
abbreviation S23 :: nat where "S23 \<equiv> 14"
abbreviation S24 :: nat where "S24 \<equiv> 20"
abbreviation S31 :: nat where "S31 \<equiv> 4"
abbreviation S32 :: nat where "S32 \<equiv> 11"
abbreviation S33 :: nat where "S33 \<equiv> 16"
abbreviation S34 :: nat where "S34 \<equiv> 23"
abbreviation S41 :: nat where "S41 \<equiv> 6"
abbreviation S42 :: nat where "S42 \<equiv> 10"
abbreviation S43 :: nat where "S43 \<equiv> 15"
abbreviation S44 :: nat where "S44 \<equiv> 21"

definition PADDING :: "byte list" where
  "PADDING = 0x80 # replicate 63 0"

definition F_basic :: "UINT4 \<Rightarrow> UINT4 \<Rightarrow> UINT4 \<Rightarrow> UINT4" where
  "F_basic x y z = (x AND y) OR (NOT x AND z)"

definition G_basic :: "UINT4 \<Rightarrow> UINT4 \<Rightarrow> UINT4 \<Rightarrow> UINT4" where
  "G_basic x y z = (x AND z) OR (y AND NOT z)"

definition H_basic :: "UINT4 \<Rightarrow> UINT4 \<Rightarrow> UINT4 \<Rightarrow> UINT4" where
  "H_basic x y z = (x XOR y) XOR z"

definition I_basic :: "UINT4 \<Rightarrow> UINT4 \<Rightarrow> UINT4 \<Rightarrow> UINT4" where
  "I_basic x y z = y XOR (x OR NOT z)"

definition ROTATE_LEFT :: "UINT4 \<Rightarrow> nat \<Rightarrow> UINT4" where
  "ROTATE_LEFT x n = push_bit n x OR drop_bit (32 - n) x"

definition FF :: "UINT4 \<Rightarrow> UINT4 \<Rightarrow> UINT4 \<Rightarrow> UINT4 \<Rightarrow> UINT4 \<Rightarrow> nat \<Rightarrow> UINT4 \<Rightarrow> UINT4" where
  "FF a b c d x s ac = ROTATE_LEFT (a + (F_basic b c d + x + ac)) s + b"

definition GG :: "UINT4 \<Rightarrow> UINT4 \<Rightarrow> UINT4 \<Rightarrow> UINT4 \<Rightarrow> UINT4 \<Rightarrow> nat \<Rightarrow> UINT4 \<Rightarrow> UINT4" where
  "GG a b c d x s ac = ROTATE_LEFT (a + (G_basic b c d + x + ac)) s + b"

definition HH :: "UINT4 \<Rightarrow> UINT4 \<Rightarrow> UINT4 \<Rightarrow> UINT4 \<Rightarrow> UINT4 \<Rightarrow> nat \<Rightarrow> UINT4 \<Rightarrow> UINT4" where
  "HH a b c d x s ac = ROTATE_LEFT (a + (H_basic b c d + x + ac)) s + b"

definition II :: "UINT4 \<Rightarrow> UINT4 \<Rightarrow> UINT4 \<Rightarrow> UINT4 \<Rightarrow> UINT4 \<Rightarrow> nat \<Rightarrow> UINT4 \<Rightarrow> UINT4" where
  "II a b c d x s ac = ROTATE_LEFT (a + (I_basic b c d + x + ac)) s + b"

text \<open>The loops over whole words: \<^verbatim>\<open>len\<close> is four times the number of words.\<close>

fun Encode :: "UINT4 list \<Rightarrow> byte list" where
  "Encode [] = []"
| "Encode (w # ws) =
     [ucast (w AND 0xff), ucast (drop_bit 8 w AND 0xff), ucast (drop_bit 16 w AND 0xff), ucast (drop_bit 24 w AND 0xff)] @
     Encode ws"

fun Decode :: "byte list \<Rightarrow> UINT4 list" where
  "Decode (a # b # c # d # bs) =
     (ucast a OR push_bit 8 (ucast b) OR push_bit 16 (ucast c) OR push_bit 24 (ucast d)) # Decode bs"
| "Decode bs = []"

text \<open>The four rounds of \<^verbatim>\<open>MD5Transform\<close>, unrolled as in the code.\<close>

definition round1 :: "UINT4 list \<Rightarrow> quad \<Rightarrow> quad" where
  "round1 x s =
     (let (a, b, c, d) = s;
          a = FF a b c d (x ! 0) S11 0xd76aa478;
          d = FF d a b c (x ! 1) S12 0xe8c7b756;
          c = FF c d a b (x ! 2) S13 0x242070db;
          b = FF b c d a (x ! 3) S14 0xc1bdceee;
          a = FF a b c d (x ! 4) S11 0xf57c0faf;
          d = FF d a b c (x ! 5) S12 0x4787c62a;
          c = FF c d a b (x ! 6) S13 0xa8304613;
          b = FF b c d a (x ! 7) S14 0xfd469501;
          a = FF a b c d (x ! 8) S11 0x698098d8;
          d = FF d a b c (x ! 9) S12 0x8b44f7af;
          c = FF c d a b (x ! 10) S13 0xffff5bb1;
          b = FF b c d a (x ! 11) S14 0x895cd7be;
          a = FF a b c d (x ! 12) S11 0x6b901122;
          d = FF d a b c (x ! 13) S12 0xfd987193;
          c = FF c d a b (x ! 14) S13 0xa679438e;
          b = FF b c d a (x ! 15) S14 0x49b40821
      in (a, b, c, d))"

definition round2 :: "UINT4 list \<Rightarrow> quad \<Rightarrow> quad" where
  "round2 x s =
     (let (a, b, c, d) = s;
          a = GG a b c d (x ! 1) S21 0xf61e2562;
          d = GG d a b c (x ! 6) S22 0xc040b340;
          c = GG c d a b (x ! 11) S23 0x265e5a51;
          b = GG b c d a (x ! 0) S24 0xe9b6c7aa;
          a = GG a b c d (x ! 5) S21 0xd62f105d;
          d = GG d a b c (x ! 10) S22 0x2441453;
          c = GG c d a b (x ! 15) S23 0xd8a1e681;
          b = GG b c d a (x ! 4) S24 0xe7d3fbc8;
          a = GG a b c d (x ! 9) S21 0x21e1cde6;
          d = GG d a b c (x ! 14) S22 0xc33707d6;
          c = GG c d a b (x ! 3) S23 0xf4d50d87;
          b = GG b c d a (x ! 8) S24 0x455a14ed;
          a = GG a b c d (x ! 13) S21 0xa9e3e905;
          d = GG d a b c (x ! 2) S22 0xfcefa3f8;
          c = GG c d a b (x ! 7) S23 0x676f02d9;
          b = GG b c d a (x ! 12) S24 0x8d2a4c8a
      in (a, b, c, d))"

definition round3 :: "UINT4 list \<Rightarrow> quad \<Rightarrow> quad" where
  "round3 x s =
     (let (a, b, c, d) = s;
          a = HH a b c d (x ! 5) S31 0xfffa3942;
          d = HH d a b c (x ! 8) S32 0x8771f681;
          c = HH c d a b (x ! 11) S33 0x6d9d6122;
          b = HH b c d a (x ! 14) S34 0xfde5380c;
          a = HH a b c d (x ! 1) S31 0xa4beea44;
          d = HH d a b c (x ! 4) S32 0x4bdecfa9;
          c = HH c d a b (x ! 7) S33 0xf6bb4b60;
          b = HH b c d a (x ! 10) S34 0xbebfbc70;
          a = HH a b c d (x ! 13) S31 0x289b7ec6;
          d = HH d a b c (x ! 0) S32 0xeaa127fa;
          c = HH c d a b (x ! 3) S33 0xd4ef3085;
          b = HH b c d a (x ! 6) S34 0x4881d05;
          a = HH a b c d (x ! 9) S31 0xd9d4d039;
          d = HH d a b c (x ! 12) S32 0xe6db99e5;
          c = HH c d a b (x ! 15) S33 0x1fa27cf8;
          b = HH b c d a (x ! 2) S34 0xc4ac5665
      in (a, b, c, d))"

definition round4 :: "UINT4 list \<Rightarrow> quad \<Rightarrow> quad" where
  "round4 x s =
     (let (a, b, c, d) = s;
          a = II a b c d (x ! 0) S41 0xf4292244;
          d = II d a b c (x ! 7) S42 0x432aff97;
          c = II c d a b (x ! 14) S43 0xab9423a7;
          b = II b c d a (x ! 5) S44 0xfc93a039;
          a = II a b c d (x ! 12) S41 0x655b59c3;
          d = II d a b c (x ! 3) S42 0x8f0ccc92;
          c = II c d a b (x ! 10) S43 0xffeff47d;
          b = II b c d a (x ! 1) S44 0x85845dd1;
          a = II a b c d (x ! 8) S41 0x6fa87e4f;
          d = II d a b c (x ! 15) S42 0xfe2ce6e0;
          c = II c d a b (x ! 6) S43 0xa3014314;
          b = II b c d a (x ! 13) S44 0x4e0811a1;
          a = II a b c d (x ! 4) S41 0xf7537e82;
          d = II d a b c (x ! 11) S42 0xbd3af235;
          c = II c d a b (x ! 2) S43 0x2ad7d2bb;
          b = II b c d a (x ! 9) S44 0xeb86d391
      in (a, b, c, d))"

definition MD5Transform :: "quad \<Rightarrow> byte list \<Rightarrow> quad" where
  "MD5Transform state block =
     (let x = Decode block;
          (a, b, c, d) = round4 x (round3 x (round2 x (round1 x state)));
          (s0, s1, s2, s3) = state
      in (s0 + a, s1 + b, s2 + c, s3 + d))"

section \<open>Contexts\<close>

record MD5_CONTEXT =
  md5_state :: quad
  count0 :: UINT4
  count1 :: UINT4
  md5_buffer :: "byte list"

definition MD5Init :: "MD5_CONTEXT \<Rightarrow> MD5_CONTEXT" where
  "MD5Init context = context\<lparr>count0 := 0, count1 := 0, md5_state := (0x67452301, 0xefcdab89, 0x98badcfe, 0x10325476)\<rparr>"

text \<open>
  The loop over the blocks of the input. The sum \<^verbatim>\<open>i + 63\<close> is one of 32 bits; where it wraps around, the
  code reads behind the input.
\<close>

function update_loop :: "nat \<Rightarrow> byte list \<Rightarrow> quad \<Rightarrow> (nat \<times> quad) outcome" where
  "update_loop i inp state =
     (if (i + 63) mod 2 ^ 32 < length inp then
        if i + 64 \<le> length inp then update_loop (i + 64) inp (MD5Transform state (take 64 (drop i inp))) else Fault
      else Ok (i, state))"
  by auto

termination
  by (relation "measure (\<lambda>(i, inp, state). length inp - i)") auto

declare update_loop.simps [simp del]

definition MD5Update :: "MD5_CONTEXT \<Rightarrow> byte list \<Rightarrow> MD5_CONTEXT outcome" where
  "MD5Update context inp =
     (let inputLen = of_nat (length inp) :: UINT4;
          index = unat (drop_bit 3 (count0 context) AND 0x3F);
          c0 = count0 context + push_bit 3 inputLen;
          c1 = (if c0 < push_bit 3 inputLen then count1 context + 1 else count1 context) + drop_bit 29 inputLen;
          partLen = 64 - index
      in if partLen \<le> length inp then
           bind_outcome (wr_bytes (md5_buffer context) index (take partLen inp)) (\<lambda>buf.
           bind_outcome (update_loop partLen inp (MD5Transform (md5_state context) buf)) (\<lambda>(i, state).
           bind_outcome (wr_bytes buf 0 (drop i inp)) (\<lambda>buf'.
             Ok (context\<lparr>count0 := c0, count1 := c1, md5_state := state, md5_buffer := buf'\<rparr>))))
         else
           bind_outcome (wr_bytes (md5_buffer context) index inp) (\<lambda>buf.
             Ok (context\<lparr>count0 := c0, count1 := c1, md5_buffer := buf\<rparr>)))"

definition zero_context :: MD5_CONTEXT where
  "zero_context = \<lparr>md5_state = (0, 0, 0, 0), count0 = 0, count1 = 0, md5_buffer = replicate 64 0\<rparr>"

definition state_words :: "quad \<Rightarrow> UINT4 list" where
  "state_words s = (let (a, b, c, d) = s in [a, b, c, d])"

text \<open>\<^verbatim>\<open>MD5Final\<close>: the digest, and the context that is cleared.\<close>

definition MD5Final :: "MD5_CONTEXT \<Rightarrow> (byte list \<times> MD5_CONTEXT) outcome" where
  "MD5Final context =
     (let bits = Encode [count0 context, count1 context];
          index = unat (drop_bit 3 (count0 context) AND 0x3F);
          padLen = (if index < 56 then 56 - index else 120 - index)
      in bind_outcome (MD5Update context (take padLen PADDING)) (\<lambda>c1.
         bind_outcome (MD5Update c1 bits) (\<lambda>c2.
           Ok (Encode (state_words (md5_state c2)), zero_context))))"

section \<open>The digest of RFC 1321\<close>

text \<open>
  The reference: step \<open>i\<close> of 64 with its function, its word of the block, its shift and its entry of the sine table,
  on four words that move by one place in each step.
\<close>

definition sine_table :: "UINT4 list" where
  "sine_table =
    [0xd76aa478, 0xe8c7b756, 0x242070db, 0xc1bdceee,
     0xf57c0faf, 0x4787c62a, 0xa8304613, 0xfd469501,
     0x698098d8, 0x8b44f7af, 0xffff5bb1, 0x895cd7be,
     0x6b901122, 0xfd987193, 0xa679438e, 0x49b40821,
     0xf61e2562, 0xc040b340, 0x265e5a51, 0xe9b6c7aa,
     0xd62f105d, 0x2441453, 0xd8a1e681, 0xe7d3fbc8,
     0x21e1cde6, 0xc33707d6, 0xf4d50d87, 0x455a14ed,
     0xa9e3e905, 0xfcefa3f8, 0x676f02d9, 0x8d2a4c8a,
     0xfffa3942, 0x8771f681, 0x6d9d6122, 0xfde5380c,
     0xa4beea44, 0x4bdecfa9, 0xf6bb4b60, 0xbebfbc70,
     0x289b7ec6, 0xeaa127fa, 0xd4ef3085, 0x4881d05,
     0xd9d4d039, 0xe6db99e5, 0x1fa27cf8, 0xc4ac5665,
     0xf4292244, 0x432aff97, 0xab9423a7, 0xfc93a039,
     0x655b59c3, 0x8f0ccc92, 0xffeff47d, 0x85845dd1,
     0x6fa87e4f, 0xfe2ce6e0, 0xa3014314, 0x4e0811a1,
     0xf7537e82, 0xbd3af235, 0x2ad7d2bb, 0xeb86d391]"

definition rfc_function :: "nat \<Rightarrow> UINT4 \<Rightarrow> UINT4 \<Rightarrow> UINT4 \<Rightarrow> UINT4" where
  "rfc_function i x y z =
     (if i < 16 then (x AND y) OR (NOT x AND z)
      else if i < 32 then (x AND z) OR (y AND NOT z)
      else if i < 48 then (x XOR y) XOR z
      else y XOR (x OR NOT z))"

definition rfc_word :: "nat \<Rightarrow> nat" where
  "rfc_word i = (if i < 16 then i else if i < 32 then (5 * i + 1) mod 16 else if i < 48 then (3 * i + 5) mod 16 else 7 * i mod 16)"

definition rfc_shift :: "nat \<Rightarrow> nat" where
  "rfc_shift i = [[7, 12, 17, 22], [5, 9, 14, 20], [4, 11, 16, 23], [6, 10, 15, 21]] ! (i div 16) ! (i mod 4)"

definition rfc_step :: "UINT4 list \<Rightarrow> nat \<Rightarrow> quad \<Rightarrow> quad" where
  "rfc_step x i s =
     (let (a, b, c, d) = s in
      (d, b + word_rotl (rfc_shift i) (a + rfc_function i b c d + x ! rfc_word i + sine_table ! i), b, c))"

definition rfc_compress :: "quad \<Rightarrow> byte list \<Rightarrow> quad" where
  "rfc_compress s block =
     (let (a, b, c, d) = fold (rfc_step (Decode block)) [0..<64] s; (s0, s1, s2, s3) = s
      in (s0 + a, s1 + b, s2 + c, s3 + d))"

text \<open>All whole blocks of a message.\<close>

function compress_all :: "(quad \<Rightarrow> byte list \<Rightarrow> quad) \<Rightarrow> quad \<Rightarrow> byte list \<Rightarrow> quad" where
  "compress_all tr s bs = (if length bs < 64 then s else compress_all tr (tr s (take 64 bs)) (drop 64 bs))"
  by auto

termination
  by (relation "measure (\<lambda>(tr, s, bs). length bs)") auto

declare compress_all.simps [simp del]

text \<open>The padding: one bit, zeros up to eight bytes below a whole block, and the length in bits as 64 bits.\<close>

definition rfc_pad :: "byte list \<Rightarrow> byte list" where
  "rfc_pad m = m @ 0x80 # replicate ((119 - length m mod 64) mod 64) 0 @
     mem32 (of_nat (8 * length m)) @ mem32 (of_nat (8 * length m div 2 ^ 32))"

definition md5 :: "byte list \<Rightarrow> byte list" where
  "md5 m =
     (let (a, b, c, d) = compress_all rfc_compress (0x67452301, 0xefcdab89, 0x98badcfe, 0x10325476) (rfc_pad m)
      in mem32 a @ mem32 b @ mem32 c @ mem32 d)"

section \<open>The unrolled rounds are the steps of the reference\<close>

lemma ROTATE_LEFT_rotl:
  assumes "0 < n" "n < 32"
  shows "ROTATE_LEFT x n = word_rotl n x"
proof (rule bit_word_eqI)
  fix k
  assume "k < LENGTH(32)"
  then have k: "k < 32" by simp
  show "bit (ROTATE_LEFT x n) k = bit (word_rotl n x) k"
  proof (cases "n \<le> k")
    case True
    have "(k + 32 - n) mod 32 = ((k - n) + 32) mod 32" using True by simp
    also have "\<dots> = k - n" using k by (simp only: mod_add_self2) simp
    finally have m: "(k + 32 - n) mod 32 = k - n" .
    have "\<not> bit x (32 - n + k)" using bit_imp_le_length [of x "32 - n + k"] True assms by auto
    with m k True show ?thesis by (auto simp: ROTATE_LEFT_def bit_simps bit_word_rotl_iff)
  next
    case False
    then have "(k + 32 - n) mod 32 = 32 - n + k" using assms k by simp
    with False k assms show ?thesis by (auto simp: ROTATE_LEFT_def bit_simps bit_word_rotl_iff)
  qed
qed

lemma rfc_shift_range:
  assumes "i < 64"
  shows "0 < rfc_shift i" "rfc_shift i < 32"
proof -
  have "i div 16 < 4" "i mod 4 < 4" using assms by auto
  then have "i div 16 \<in> {0, 1, 2, 3}" "i mod 4 \<in> {0, 1, 2, 3}" by auto
  then show "0 < rfc_shift i" "rfc_shift i < 32" by (auto simp: rfc_shift_def)
qed

text \<open>One step of the reference, written with the macro of its round.\<close>

lemma rfc_steps:
  "i < 16 \<Longrightarrow> fold (rfc_step x) (i # is) (a, b, c, d) =
     (let v = FF a b c d (x ! rfc_word i) (rfc_shift i) (sine_table ! i) in fold (rfc_step x) is (d, v, b, c))"
  "16 \<le> i \<Longrightarrow> i < 32 \<Longrightarrow> fold (rfc_step x) (i # is) (a, b, c, d) =
     (let v = GG a b c d (x ! rfc_word i) (rfc_shift i) (sine_table ! i) in fold (rfc_step x) is (d, v, b, c))"
  "32 \<le> i \<Longrightarrow> i < 48 \<Longrightarrow> fold (rfc_step x) (i # is) (a, b, c, d) =
     (let v = HH a b c d (x ! rfc_word i) (rfc_shift i) (sine_table ! i) in fold (rfc_step x) is (d, v, b, c))"
  "48 \<le> i \<Longrightarrow> i < 64 \<Longrightarrow> fold (rfc_step x) (i # is) (a, b, c, d) =
     (let v = II a b c d (x ! rfc_word i) (rfc_shift i) (sine_table ! i) in fold (rfc_step x) is (d, v, b, c))"
  using rfc_shift_range [of i]
  by (simp_all add: rfc_step_def rfc_function_def FF_def GG_def HH_def II_def F_basic_def G_basic_def H_basic_def
      I_basic_def ROTATE_LEFT_rotl Let_def ac_simps)

lemma rfc_values1:
  "rfc_word 0 = 0" "rfc_shift 0 = 7" "sine_table ! 0 = 0xd76aa478"
  "rfc_word 1 = 1" "rfc_shift 1 = 12" "sine_table ! 1 = 0xe8c7b756"
  "rfc_word 2 = 2" "rfc_shift 2 = 17" "sine_table ! 2 = 0x242070db"
  "rfc_word 3 = 3" "rfc_shift 3 = 22" "sine_table ! 3 = 0xc1bdceee"
  "rfc_word 4 = 4" "rfc_shift 4 = 7" "sine_table ! 4 = 0xf57c0faf"
  "rfc_word 5 = 5" "rfc_shift 5 = 12" "sine_table ! 5 = 0x4787c62a"
  "rfc_word 6 = 6" "rfc_shift 6 = 17" "sine_table ! 6 = 0xa8304613"
  "rfc_word 7 = 7" "rfc_shift 7 = 22" "sine_table ! 7 = 0xfd469501"
  "rfc_word 8 = 8" "rfc_shift 8 = 7" "sine_table ! 8 = 0x698098d8"
  "rfc_word 9 = 9" "rfc_shift 9 = 12" "sine_table ! 9 = 0x8b44f7af"
  "rfc_word 10 = 10" "rfc_shift 10 = 17" "sine_table ! 10 = 0xffff5bb1"
  "rfc_word 11 = 11" "rfc_shift 11 = 22" "sine_table ! 11 = 0x895cd7be"
  "rfc_word 12 = 12" "rfc_shift 12 = 7" "sine_table ! 12 = 0x6b901122"
  "rfc_word 13 = 13" "rfc_shift 13 = 12" "sine_table ! 13 = 0xfd987193"
  "rfc_word 14 = 14" "rfc_shift 14 = 17" "sine_table ! 14 = 0xa679438e"
  "rfc_word 15 = 15" "rfc_shift 15 = 22" "sine_table ! 15 = 0x49b40821"
  by (simp_all add: rfc_word_def rfc_shift_def sine_table_def)

lemma rfc_values2:
  "rfc_word 16 = 1" "rfc_shift 16 = 5" "sine_table ! 16 = 0xf61e2562"
  "rfc_word 17 = 6" "rfc_shift 17 = 9" "sine_table ! 17 = 0xc040b340"
  "rfc_word 18 = 11" "rfc_shift 18 = 14" "sine_table ! 18 = 0x265e5a51"
  "rfc_word 19 = 0" "rfc_shift 19 = 20" "sine_table ! 19 = 0xe9b6c7aa"
  "rfc_word 20 = 5" "rfc_shift 20 = 5" "sine_table ! 20 = 0xd62f105d"
  "rfc_word 21 = 10" "rfc_shift 21 = 9" "sine_table ! 21 = 0x2441453"
  "rfc_word 22 = 15" "rfc_shift 22 = 14" "sine_table ! 22 = 0xd8a1e681"
  "rfc_word 23 = 4" "rfc_shift 23 = 20" "sine_table ! 23 = 0xe7d3fbc8"
  "rfc_word 24 = 9" "rfc_shift 24 = 5" "sine_table ! 24 = 0x21e1cde6"
  "rfc_word 25 = 14" "rfc_shift 25 = 9" "sine_table ! 25 = 0xc33707d6"
  "rfc_word 26 = 3" "rfc_shift 26 = 14" "sine_table ! 26 = 0xf4d50d87"
  "rfc_word 27 = 8" "rfc_shift 27 = 20" "sine_table ! 27 = 0x455a14ed"
  "rfc_word 28 = 13" "rfc_shift 28 = 5" "sine_table ! 28 = 0xa9e3e905"
  "rfc_word 29 = 2" "rfc_shift 29 = 9" "sine_table ! 29 = 0xfcefa3f8"
  "rfc_word 30 = 7" "rfc_shift 30 = 14" "sine_table ! 30 = 0x676f02d9"
  "rfc_word 31 = 12" "rfc_shift 31 = 20" "sine_table ! 31 = 0x8d2a4c8a"
  by (simp_all add: rfc_word_def rfc_shift_def sine_table_def)

lemma rfc_values3:
  "rfc_word 32 = 5" "rfc_shift 32 = 4" "sine_table ! 32 = 0xfffa3942"
  "rfc_word 33 = 8" "rfc_shift 33 = 11" "sine_table ! 33 = 0x8771f681"
  "rfc_word 34 = 11" "rfc_shift 34 = 16" "sine_table ! 34 = 0x6d9d6122"
  "rfc_word 35 = 14" "rfc_shift 35 = 23" "sine_table ! 35 = 0xfde5380c"
  "rfc_word 36 = 1" "rfc_shift 36 = 4" "sine_table ! 36 = 0xa4beea44"
  "rfc_word 37 = 4" "rfc_shift 37 = 11" "sine_table ! 37 = 0x4bdecfa9"
  "rfc_word 38 = 7" "rfc_shift 38 = 16" "sine_table ! 38 = 0xf6bb4b60"
  "rfc_word 39 = 10" "rfc_shift 39 = 23" "sine_table ! 39 = 0xbebfbc70"
  "rfc_word 40 = 13" "rfc_shift 40 = 4" "sine_table ! 40 = 0x289b7ec6"
  "rfc_word 41 = 0" "rfc_shift 41 = 11" "sine_table ! 41 = 0xeaa127fa"
  "rfc_word 42 = 3" "rfc_shift 42 = 16" "sine_table ! 42 = 0xd4ef3085"
  "rfc_word 43 = 6" "rfc_shift 43 = 23" "sine_table ! 43 = 0x4881d05"
  "rfc_word 44 = 9" "rfc_shift 44 = 4" "sine_table ! 44 = 0xd9d4d039"
  "rfc_word 45 = 12" "rfc_shift 45 = 11" "sine_table ! 45 = 0xe6db99e5"
  "rfc_word 46 = 15" "rfc_shift 46 = 16" "sine_table ! 46 = 0x1fa27cf8"
  "rfc_word 47 = 2" "rfc_shift 47 = 23" "sine_table ! 47 = 0xc4ac5665"
  by (simp_all add: rfc_word_def rfc_shift_def sine_table_def)

lemma rfc_values4:
  "rfc_word 48 = 0" "rfc_shift 48 = 6" "sine_table ! 48 = 0xf4292244"
  "rfc_word 49 = 7" "rfc_shift 49 = 10" "sine_table ! 49 = 0x432aff97"
  "rfc_word 50 = 14" "rfc_shift 50 = 15" "sine_table ! 50 = 0xab9423a7"
  "rfc_word 51 = 5" "rfc_shift 51 = 21" "sine_table ! 51 = 0xfc93a039"
  "rfc_word 52 = 12" "rfc_shift 52 = 6" "sine_table ! 52 = 0x655b59c3"
  "rfc_word 53 = 3" "rfc_shift 53 = 10" "sine_table ! 53 = 0x8f0ccc92"
  "rfc_word 54 = 10" "rfc_shift 54 = 15" "sine_table ! 54 = 0xffeff47d"
  "rfc_word 55 = 1" "rfc_shift 55 = 21" "sine_table ! 55 = 0x85845dd1"
  "rfc_word 56 = 8" "rfc_shift 56 = 6" "sine_table ! 56 = 0x6fa87e4f"
  "rfc_word 57 = 15" "rfc_shift 57 = 10" "sine_table ! 57 = 0xfe2ce6e0"
  "rfc_word 58 = 6" "rfc_shift 58 = 15" "sine_table ! 58 = 0xa3014314"
  "rfc_word 59 = 13" "rfc_shift 59 = 21" "sine_table ! 59 = 0x4e0811a1"
  "rfc_word 60 = 4" "rfc_shift 60 = 6" "sine_table ! 60 = 0xf7537e82"
  "rfc_word 61 = 11" "rfc_shift 61 = 10" "sine_table ! 61 = 0xbd3af235"
  "rfc_word 62 = 2" "rfc_shift 62 = 15" "sine_table ! 62 = 0x2ad7d2bb"
  "rfc_word 63 = 9" "rfc_shift 63 = 21" "sine_table ! 63 = 0xeb86d391"
  by (simp_all add: rfc_word_def rfc_shift_def sine_table_def)

lemma let_quad: "(let (a, b, c, d) = (p, q, r, t) in f a b c d) = f p q r t"
  by simp

lemma round1_steps: "round1 x s = fold (rfc_step x) [0, 1, 2, 3, 4, 5, 6, 7, 8, 9, 10, 11, 12, 13, 14, 15] s"
  by (cases s) (simp only: rfc_steps(1) rel_simps zero_le_numeral zero_less_numeral simp_thms rfc_values1 fold_simps(1) let_quad round1_def)

lemma round2_steps: "round2 x s = fold (rfc_step x) [16, 17, 18, 19, 20, 21, 22, 23, 24, 25, 26, 27, 28, 29, 30, 31] s"
  by (cases s) (simp only: rfc_steps(2) rel_simps zero_le_numeral zero_less_numeral simp_thms rfc_values2 fold_simps(1) let_quad round2_def)

lemma round3_steps: "round3 x s = fold (rfc_step x) [32, 33, 34, 35, 36, 37, 38, 39, 40, 41, 42, 43, 44, 45, 46, 47] s"
  by (cases s) (simp only: rfc_steps(3) rel_simps zero_le_numeral zero_less_numeral simp_thms rfc_values3 fold_simps(1) let_quad round3_def)

lemma round4_steps: "round4 x s = fold (rfc_step x) [48, 49, 50, 51, 52, 53, 54, 55, 56, 57, 58, 59, 60, 61, 62, 63] s"
  by (cases s) (simp only: rfc_steps(4) rel_simps zero_le_numeral zero_less_numeral simp_thms rfc_values4 fold_simps(1) let_quad round4_def)

lemma upt_64: "[0..<64] = [0, 1, 2, 3, 4, 5, 6, 7, 8, 9, 10, 11, 12, 13, 14, 15] @
  [16, 17, 18, 19, 20, 21, 22, 23, 24, 25, 26, 27, 28, 29, 30, 31] @
  [32, 33, 34, 35, 36, 37, 38, 39, 40, 41, 42, 43, 44, 45, 46, 47] @
  [48, 49, 50, 51, 52, 53, 54, 55, 56, 57, 58, 59, 60, 61, 62, 63]"
  by (simp add: upt_rec)

lemma transform_rfc: "MD5Transform s block = rfc_compress s block"
  by (simp only: MD5Transform_def rfc_compress_def upt_64 fold_append comp_apply Let_def
      round1_steps round2_steps round3_steps round4_steps)

text \<open>The unrolled transformation is the compression function of RFC 1321: the 64 macro calls with their constants, on
  variables that change roles, compute the 64 steps of the reference, for every state and every block.\<close>

theorem MD5Transform_rfc: "MD5Transform s block = rfc_compress s block"
  by (rule transform_rfc)

section \<open>What a context stands for\<close>

lemma low_byte: "ucast (v AND 0xff) = (ucast v :: byte)" for v :: UINT4
proof -
  have m: "(0xff :: UINT4) = mask 8" by (simp add: mask_eq_exp_minus_1)
  show ?thesis unfolding m by (rule bit_word_eqI) (auto simp: bit_simps)
qed

lemma Encode_mem32: "Encode ws = concat (map mem32 ws)"
  by (induction ws) (simp_all add: low_byte mem32_def)

text \<open>The block counter of a message of \<open>n\<close> bytes.\<close>

lemma md5_index: "unat (drop_bit 3 (of_nat (8 * n) :: UINT4) AND 0x3F) = n mod 64"
proof -
  have m: "(0x3F :: UINT4) = mask 6" by (simp add: mask_eq_exp_minus_1)
  have "unat (drop_bit 3 (of_nat k :: UINT4) AND 0x3F) = k div 8 mod 64" for k
  proof -
    have "unat (drop_bit 3 (of_nat k :: UINT4) AND 0x3F) = take_bit 6 (drop_bit 3 (take_bit 32 k))"
      unfolding m take_bit_eq_mask [symmetric] by (simp add: unsigned_take_bit_eq unsigned_drop_bit_eq unsigned_of_nat)
    also have "\<dots> = take_bit 6 (drop_bit 3 k)" by (rule bit_eqI) (auto simp: bit_simps)
    finally show ?thesis by (simp add: drop_bit_eq_div take_bit_eq_mod)
  qed
  from this [of "8 * n"] show ?thesis by simp
qed

lemma md5_count0: "of_nat (8 * n) + push_bit 3 (of_nat k) = (of_nat (8 * (n + k)) :: UINT4)"
  by (simp add: push_bit_eq_mult algebra_simps)

lemma carry:
  fixes a b m :: nat
  assumes "0 < m"
  shows "(a + b) div m = a div m + b div m + (if (a + b) mod m < b mod m then 1 else 0)"
proof -
  let ?s = "a mod m + b mod m"
  have lt: "a mod m < m" "b mod m < m" using assms by simp_all
  have d: "(a + b) div m = a div m + b div m + ?s div m" by (rule div_add1_eq)
  have md: "(a + b) mod m = ?s mod m" by (simp add: mod_add_eq)
  show ?thesis
  proof (cases "?s < m")
    case True
    then show ?thesis using d md by simp
  next
    case False
    moreover have "?s - m < m" using lt by linarith
    ultimately have "?s div m = 1" "?s mod m = ?s - m" using assms by (simp_all add: le_div_geq le_mod_geq)
    moreover have "?s - m < b mod m" using lt False by linarith
    ultimately show ?thesis using d md by simp
  qed
qed

lemma md5_count1:
  assumes "k < 2 ^ 32"
  shows "(if (of_nat (8 * (n + k)) :: UINT4) < push_bit 3 (of_nat k) then of_nat (8 * n div 2 ^ 32) + 1 else of_nat (8 * n div 2 ^ 32)) +
      drop_bit 29 (of_nat k) = (of_nat (8 * (n + k) div 2 ^ 32) :: UINT4)"
proof -
  have p: "push_bit 3 (of_nat k :: UINT4) = of_nat (8 * k)" by (simp add: push_bit_eq_mult)
  have u: "unat (of_nat x :: UINT4) = x mod 2 ^ 32" for x by (simp add: unsigned_of_nat take_bit_eq_mod)
  have c: "(of_nat (8 * (n + k)) :: UINT4) < of_nat (8 * k) \<longleftrightarrow> (8 * n + 8 * k) mod 2 ^ 32 < (8 * k) mod 2 ^ 32"
    unfolding word_less_nat_alt u add_mult_distrib2 ..
  have "drop_bit 29 (of_nat k :: UINT4) = of_nat (k div 2 ^ 29)"
  proof (rule word_unat_eq_iff [THEN iffD2])
    have "unat (drop_bit 29 (of_nat k :: UINT4)) = k div 2 ^ 29"
      unfolding unsigned_drop_bit_eq u using assms by (simp add: drop_bit_eq_div take_bit_eq_mod)
    moreover have "k div 2 ^ 29 < 2 ^ 32" using assms by (rule le_less_trans [OF div_le_dividend])
    ultimately show "unat (drop_bit 29 (of_nat k :: UINT4)) = unat (of_nat (k div 2 ^ 29) :: UINT4)" unfolding u by simp
  qed
  moreover have "k div 2 ^ 29 = 8 * k div 2 ^ 32" by simp
  ultimately have d: "drop_bit 29 (of_nat k :: UINT4) = of_nat (8 * k div 2 ^ 32)" by simp
  have "8 * (n + k) div 2 ^ 32 = 8 * n div 2 ^ 32 + 8 * k div 2 ^ 32 +
      (if (8 * n + 8 * k) mod 2 ^ 32 < (8 * k) mod 2 ^ 32 then 1 else 0)"
    using carry [of "2 ^ 32" "8 * n" "8 * k"] by (simp add: add_mult_distrib2)
  then show ?thesis unfolding p c d by simp
qed

lemma compress_all_short: "length bs < 64 \<Longrightarrow> compress_all tr s bs = s"
  by (simp add: compress_all.simps [of tr s bs])

lemma compress_all_block: "length b = 64 \<Longrightarrow> compress_all tr s (b @ bs) = compress_all tr (tr s b) bs"
  by (simp add: compress_all.simps [of tr s "b @ bs"])

lemma compress_all_append:
  "64 dvd length bs \<Longrightarrow> compress_all tr s (bs @ cs) = compress_all tr (compress_all tr s bs) cs"
proof (induction tr s bs rule: compress_all.induct)
  case (1 tr s bs)
  show ?case
  proof (cases "length bs < 64")
    case True
    with "1.prems" have "bs = []" using dvd_imp_le [of 64 "length bs"] by fastforce
    then show ?thesis by (simp add: compress_all_short)
  next
    case False
    moreover have "64 dvd length (drop 64 bs)" using "1.prems" False by simp
    ultimately show ?thesis
      using "1.IH" by (simp add: compress_all.simps [of tr s bs] compress_all.simps [of tr s "bs @ cs"])
  qed
qed

text \<open>The whole blocks of a message and what is left.\<close>

definition whole :: "byte list \<Rightarrow> byte list" where
  "whole m = take (64 * (length m div 64)) m"

definition left_over :: "byte list \<Rightarrow> byte list" where
  "left_over m = drop (64 * (length m div 64)) m"

lemma whole_left_over: "m = whole m @ left_over m"
  by (simp add: whole_def left_over_def)

lemma whole_dvd: "64 dvd length (whole m)"
  by (simp add: whole_def)

lemma length_left_over: "length (left_over m) = length m mod 64"
  by (simp add: left_over_def minus_mult_div_eq_mod)

lemma left_over_append: "left_over (m @ x) = left_over (left_over m @ x)"
proof -
  let ?q = "length m div 64"
  have "length (m @ x) = 64 * ?q + length (left_over m @ x)" by (simp add: length_left_over)
  then have "length (m @ x) div 64 = ?q + length (left_over m @ x) div 64" by simp
  then have "left_over (m @ x) = drop (64 * (length (left_over m @ x) div 64)) (drop (64 * ?q) (m @ x))"
    by (simp add: left_over_def distrib_left add.commute)
  moreover have "drop (64 * ?q) (m @ x) = left_over m @ x" by (simp add: left_over_def)
  ultimately show ?thesis by (simp add: left_over_def)
qed

lemma left_over_block: "length b = 64 \<Longrightarrow> left_over (b @ y) = left_over y"
proof -
  assume "length b = 64"
  then have "left_over b = []" by (simp add: left_over_def)
  with left_over_append [of b y] show ?thesis by simp
qed

lemma compress_all_more: "compress_all tr s (m @ x) = compress_all tr (compress_all tr s m) (left_over m @ x)"
proof -
  have "compress_all tr s m = compress_all tr s (whole m)"
    using compress_all_append [OF whole_dvd, of tr s m "left_over m"] whole_left_over [of m]
      compress_all_short [of "left_over m"] length_left_over [of m] by simp
  moreover have "compress_all tr s (m @ x) = compress_all tr (compress_all tr s (whole m)) (left_over m @ x)"
    using compress_all_append [OF whole_dvd, of tr s m "left_over m @ x"] whole_left_over [of m] by (metis append_assoc)
  ultimately show ?thesis by simp
qed

definition init_state :: quad where
  "init_state = (0x67452301, 0xefcdab89, 0x98badcfe, 0x10325476)"

text \<open>
  A context stands for the message given to it so far: its state has compressed the whole blocks, its buffer starts
  with what is left, and its counters have the length in bits.
\<close>

definition md5_rep :: "MD5_CONTEXT \<Rightarrow> byte list \<Rightarrow> bool" where
  "md5_rep c m \<longleftrightarrow> md5_state c = compress_all MD5Transform init_state m \<and> length (md5_buffer c) = 64 \<and>
     take (length m mod 64) (md5_buffer c) = left_over m \<and> count0 c = of_nat (8 * length m) \<and>
     count1 c = of_nat (8 * length m div 2 ^ 32)"

lemma update_loop_blocks:
  assumes "i \<le> length inp" "length inp \<le> 2 ^ 32 - 64"
  shows "update_loop i inp s = Ok (i + 64 * ((length inp - i) div 64), compress_all MD5Transform s (drop i inp))"
  using assms
proof (induction i inp s rule: update_loop.induct)
  case (1 i inp s)
  have m: "(i + 63) mod 2 ^ 32 = i + 63" using "1.prems" by simp
  show ?case
  proof (cases "i + 64 \<le> length inp")
    case True
    then have "(length inp - i) div 64 = Suc ((length inp - (i + 64)) div 64)" by (simp add: le_div_geq)
    moreover have "\<not> length inp - i < 64" using True by linarith
    ultimately show ?thesis
      using True m "1.IH" "1.prems" by (simp add: update_loop.simps [of i] compress_all.simps [of _ s "drop i inp"] ac_simps)
  next
    case False
    with m "1.prems" show ?thesis by (simp add: update_loop.simps [of i] compress_all_short)
  qed
qed

lemma refill:
  "length b = 64 \<Longrightarrow> length l = n mod 64 \<Longrightarrow>
   length (l @ drop (n mod 64) b) = 64 \<and> take (n mod 64) (l @ drop (n mod 64) b) = l"
  using mod_less_divisor [of 64 n] by simp

lemma update_rep:
  assumes c: "md5_rep c m" and x: "length x \<le> 2 ^ 32 - 64"
  shows "\<exists>c'. MD5Update c x = Ok c' \<and> md5_rep c' (m @ x)"
proof -
  let ?n = "length m" let ?r = "?n mod 64" let ?p = "64 - ?r" let ?S = "compress_all MD5Transform init_state m"
  let ?c0 = "of_nat (8 * length (m @ x)) :: UINT4" let ?c1 = "of_nat (8 * length (m @ x) div 2 ^ 32) :: UINT4"
  have r: "?r < 64" by simp
  have rep: "md5_state c = ?S" "length (md5_buffer c) = 64" "take ?r (md5_buffer c) = left_over m"
      "count0 c = of_nat (8 * ?n)" "count1 c = of_nat (8 * ?n div 2 ^ 32)"
    using c by (simp_all add: md5_rep_def)
  have idx: "unat (drop_bit 3 (count0 c) AND 0x3F) = ?r" unfolding rep(4) by (rule md5_index)
  have n0: "count0 c + push_bit 3 (of_nat (length x)) = ?c0"
    unfolding rep(4) length_append by (rule md5_count0)
  have x32: "length x < 2 ^ 32" using x by simp
  have n1: "(if ?c0 < push_bit 3 (of_nat (length x)) then count1 c + 1 else count1 c) + drop_bit 29 (of_nat (length x)) = ?c1"
    using md5_count1 [OF x32, of ?n] unfolding rep(5) length_append .
  show ?thesis
  proof (cases "?p \<le> length x")
    case True
    let ?b = "left_over m @ take ?p x" let ?y = "drop ?p x"
    have lb: "length ?b = 64" using True r by (simp add: length_left_over)
    have w1: "wr_bytes (md5_buffer c) ?r (take ?p x) = Ok ?b"
      using True rep(2,3) r by (simp add: wr_bytes_def)
    have lp: "update_loop ?p x (MD5Transform ?S ?b) = Ok (?p + 64 * (length ?y div 64), compress_all MD5Transform (MD5Transform ?S ?b) ?y)"
      using update_loop_blocks [of ?p x] True x by simp
    have st: "compress_all MD5Transform (MD5Transform ?S ?b) ?y = compress_all MD5Transform init_state (m @ x)"
      using compress_all_more [of MD5Transform init_state m x] compress_all_block [OF lb, of MD5Transform ?S ?y] by simp
    have lo: "drop (?p + 64 * (length ?y div 64)) x = left_over (m @ x)"
    proof -
      have "left_over (?b @ ?y) = left_over ?y" by (rule left_over_block [OF lb])
      then have "left_over (m @ x) = left_over ?y" using left_over_append [of m x] by simp
      then show ?thesis by (simp add: left_over_def add.commute)
    qed
    have ll: "length (left_over (m @ x)) = length (m @ x) mod 64" by (rule length_left_over)
    then have w2: "wr_bytes ?b 0 (left_over (m @ x)) = Ok (left_over (m @ x) @ drop (length (m @ x) mod 64) ?b)"
      using lb by (simp add: wr_bytes_def order_less_imp_le)
    have "MD5Update c x = Ok (c\<lparr>count0 := ?c0, count1 := ?c1, md5_state := compress_all MD5Transform init_state (m @ x),
        md5_buffer := left_over (m @ x) @ drop (length (m @ x) mod 64) ?b\<rparr>)"
      unfolding MD5Update_def Let_def idx n0 n1 rep(1)
      using True w1 lp w2 by (simp only: if_True bind_outcome.simps prod.case st lo)
    then show ?thesis using refill [OF lb ll] by (simp add: md5_rep_def)
  next
    case False
    have lo: "left_over (m @ x) = left_over m @ x"
      using left_over_append [of m x] False r by (simp add: left_over_def [of "left_over m @ x"] length_left_over)
    have st: "compress_all MD5Transform init_state (m @ x) = ?S"
      using compress_all_more [of MD5Transform init_state m x] False r by (simp add: compress_all_short length_left_over)
    let ?b = "left_over m @ x @ drop (?r + length x) (md5_buffer c)"
    have w1: "wr_bytes (md5_buffer c) ?r x = Ok ?b" using False rep(2,3) r by (simp add: wr_bytes_def)
    have "MD5Update c x = Ok (c\<lparr>count0 := ?c0, count1 := ?c1, md5_buffer := ?b\<rparr>)"
      unfolding MD5Update_def Let_def idx n0 n1
      using False w1 by (simp only: if_False bind_outcome.simps)
    moreover have "length (m @ x) mod 64 = ?r + length x" using False r length_left_over [of "m @ x"] lo by (simp add: length_left_over)
    ultimately show ?thesis using rep(1,2) st lo False r by (auto simp: md5_rep_def length_left_over)
  qed
qed

lemma md5_padding:
  "take (if n mod 64 < 56 then 56 - n mod 64 else 120 - n mod 64) PADDING = 0x80 # replicate ((119 - n mod 64) mod 64) 0"
proof (cases "n mod 64 < 56")
  case True
  then have "119 - n mod 64 = (55 - n mod 64) + 64" by simp
  then have "(119 - n mod 64) mod 64 = 55 - n mod 64" by (simp only: mod_add_self2) simp
  with True show ?thesis by (simp add: PADDING_def take_Cons' min_def)
next
  case False
  moreover have "n mod 64 < 64" by simp
  ultimately have le: "119 - n mod 64 \<le> 63" "\<not> 120 \<le> n mod 64" by linarith+
  then have "(119 - n mod 64) mod 64 = 119 - n mod 64" by (intro mod_less) linarith
  with False le show ?thesis by (simp add: PADDING_def take_Cons' min_def)
qed

lemma final_rep:
  assumes "md5_rep c m"
  shows "MD5Final c = Ok (md5 m, zero_context)"
proof -
  let ?pad = "0x80 # replicate ((119 - length m mod 64) mod 64) 0 :: byte list"
  let ?bits = "Encode [count0 c, count1 c]"
  have idx: "unat (drop_bit 3 (count0 c) AND 0x3F) = length m mod 64"
    using assms md5_index [of "length m"] by (simp only: md5_rep_def)
  have bits: "?bits = mem32 (of_nat (8 * length m)) @ mem32 (of_nat (8 * length m div 2 ^ 32))"
    using assms by (simp only: md5_rep_def Encode_mem32) simp
  have "length ?pad \<le> 64" using mod_less_divisor [of 64 "119 - length m mod 64"] by simp
  then have small: "length ?pad \<le> 2 ^ 32 - 64" by (rule le_trans) simp
  obtain c1 where c1: "MD5Update c ?pad = Ok c1" "md5_rep c1 (m @ ?pad)"
    using update_rep [OF assms small] by blast
  obtain c2 where c2: "MD5Update c1 ?bits = Ok c2" "md5_rep c2 ((m @ ?pad) @ ?bits)"
    using update_rep [OF c1(2), of ?bits] bits by auto
  have pad: "(m @ ?pad) @ ?bits = rfc_pad m" unfolding bits by (simp add: rfc_pad_def)
  have tr: "MD5Transform = rfc_compress" by (intro ext) (rule transform_rfc)
  have "md5_state c2 = compress_all rfc_compress init_state (rfc_pad m)"
    using c2(2) unfolding pad tr [symmetric] by (simp add: md5_rep_def)
  then have "Encode (state_words (md5_state c2)) = md5 m"
    by (simp add: md5_def init_state_def state_words_def Encode_mem32 Let_def split: prod.splits)
  then show ?thesis
    using c1(1) c2(1) md5_padding [of "length m"]
    unfolding MD5Final_def Let_def idx by (simp only: bind_outcome.simps)
qed

section \<open>Digests in pieces\<close>

text \<open>
  The interface of an incremental digest: a context stands for the message given so far, an update appends a piece of
  bounded size, and the end gives the digest of the message. What a client needs is that the pieces do not
  matter.
\<close>

locale incremental_digest =
  fixes start :: 'c and update :: "'c \<Rightarrow> byte list \<Rightarrow> 'c outcome" and finish :: "'c \<Rightarrow> 'd outcome"
    and rep :: "'c \<Rightarrow> byte list \<Rightarrow> bool" and digest :: "byte list \<Rightarrow> 'd" and bound :: nat
  assumes rep_start: "rep start []"
    and rep_update: "rep c m \<Longrightarrow> length x \<le> bound \<Longrightarrow> \<exists>c'. update c x = Ok c' \<and> rep c' (m @ x)"
    and rep_finish: "rep c m \<Longrightarrow> finish c = Ok (digest m)"
begin

fun updates :: "'c \<Rightarrow> byte list list \<Rightarrow> 'c outcome" where
  "updates c [] = Ok c"
| "updates c (x # xs) = bind_outcome (update c x) (\<lambda>c'. updates c' xs)"

lemma rep_updates:
  "rep c m \<Longrightarrow> list_all (\<lambda>x. length x \<le> bound) xs \<Longrightarrow> \<exists>c'. updates c xs = Ok c' \<and> rep c' (m @ concat xs)"
proof (induction xs arbitrary: c m)
  case (Cons x xs)
  then obtain c1 where "update c x = Ok c1" "rep c1 (m @ x)" using rep_update [of c m x] by auto
  with Cons.IH [of c1 "m @ x"] Cons.prems show ?case by auto
qed simp

lemma digest_pieces:
  "list_all (\<lambda>x. length x \<le> bound) xs \<Longrightarrow> bind_outcome (updates start xs) finish = Ok (digest (concat xs))"
  using rep_updates [OF rep_start, of xs] rep_finish by auto

end

lemma init_rep: "length (md5_buffer c) = 64 \<Longrightarrow> md5_rep (MD5Init c) []"
  by (simp add: md5_rep_def MD5Init_def compress_all_short init_state_def left_over_def)

interpretation md5_digest: incremental_digest "MD5Init zero_context" MD5Update MD5Final md5_rep "\<lambda>m. (md5 m, zero_context)" "2 ^ 32 - 64"
proof
  show "md5_rep (MD5Init zero_context) []" by (rule init_rep) (simp add: zero_context_def)
qed (blast intro: update_rep final_rep)+

text \<open>The updates of a message given in pieces.\<close>

fun md5_updates :: "MD5_CONTEXT \<Rightarrow> byte list list \<Rightarrow> MD5_CONTEXT outcome" where
  "md5_updates c [] = Ok c"
| "md5_updates c (x # xs) = bind_outcome (MD5Update c x) (\<lambda>c'. md5_updates c' xs)"

lemma md5_updates_eq: "md5_updates c xs = md5_digest.updates c xs"
  by (induction xs arbitrary: c) simp_all

text \<open>C8: The code computes the digest of RFC 1321. For a message given in any pieces, of any number and any sizes up to the
  greatest the counters of the code allow, initialising, updating with the pieces and finishing returns the
  digest of the whole message, padded with its length, and clears the context.\<close>

theorem md5_computes_rfc1321:
  assumes "list_all (\<lambda>x. length x \<le> 2 ^ 32 - 64) xs"
  shows "bind_outcome (md5_updates (MD5Init zero_context) xs) MD5Final = Ok (md5 (concat xs), zero_context)"
  unfolding md5_updates_eq by (rule md5_digest.digest_pieces [OF assms])

theorem md5_computes_rfc1321_witness:
  "bind_outcome (md5_updates (MD5Init zero_context) [[97], [98, 99]]) MD5Final = Ok (md5 [97, 98, 99], zero_context)"
  using md5_computes_rfc1321 [of "[[97], [98, 99]]"] by simp

end
