(* ===== verification/Md5_Code.thy ===== *)
theory Md5_Code
  imports Md5
begin

text \<open>
  The codes of data and of files (tools/md5/md5encode.c): the hexadecimal digest of the hexadecimal digest of a message
  followed by a fixed text. Whether plain characters are signed is an argument; \<open>open\<close>, \<open>fstat\<close> and \<open>read\<close> are a
  script, and a script that ends while the loop still reads gives \<open>NoFuel\<close>.
\<close>

section \<open>Codes\<close>

text \<open>The additional input \<^verbatim>\<open>Mutex\<close>: \<open>www.pfly.cn\<close>.\<close>

definition Mutex :: "byte list" where
  "Mutex = [119, 119, 119, 46, 112, 102, 108, 121, 46, 99, 110]"

definition hex_char :: "nat \<Rightarrow> byte" where
  "hex_char n = (if n < 10 then 48 + of_nat n else 87 + of_nat n)"

text \<open>
  \<open>sprintf\<close> with \<open>%02x\<close> of a character. Where plain characters are signed (\<open>sg\<close>), one with its highest bit set is
  converted to a negative number and printed with eight digits.
\<close>

definition sprintf_02x :: "bool \<Rightarrow> byte \<Rightarrow> byte list" where
  "sprintf_02x sg c =
     (if sg \<and> bit c 7 then replicate 6 102 else []) @ [hex_char (unat c div 16), hex_char (unat c mod 16)]"

text \<open>The loops that print a digest behind the empty string.\<close>

definition hex_code :: "bool \<Rightarrow> byte list \<Rightarrow> byte list" where
  "hex_code sg key = concat (map (sprintf_02x sg) key)"

abbreviation BUF_SIZE :: nat where "BUF_SIZE \<equiv> 50 * 1024"

text \<open>
  The part both functions end with: the digest of the message in the context is printed, the additional input is
  appended, and the digest of that text is printed into the zeroed buffer. The text of the second \<open>sprintf\<close> is
  printed over itself, which leaves it as it is.
\<close>

definition second_code :: "bool \<Rightarrow> MD5_CONTEXT \<Rightarrow> byte list outcome" where
  "second_code sg mtx =
     bind_outcome (MD5Final mtx) (\<lambda>(key, mtx1).
     bind_outcome (MD5Update (MD5Init mtx1) (hex_code sg key @ Mutex)) (\<lambda>mtx2.
     bind_outcome (MD5Final mtx2) (\<lambda>(key2, _).
       Ok (hex_code sg key2))))"

text \<open>\<open>memcpy\<close> of \<open>n\<close> bytes from the buffer that holds a text and zeros.\<close>

definition copy_code :: "byte list \<Rightarrow> int \<Rightarrow> byte list outcome" where
  "copy_code code n =
     (if nat n \<le> BUF_SIZE then Ok (take (nat n) (code @ replicate (BUF_SIZE - length code) 0)) else Fault)"

text \<open>
  \<^verbatim>\<open>GetDataMd5Code\<close>: the return value and what is copied to the caller. A null pointer is \<open>None\<close>; \<open>mtx\<close> is the context
  before it is initialised.
\<close>

definition GetDataMd5Code ::
  "bool \<Rightarrow> MD5_CONTEXT \<Rightarrow> byte list option \<Rightarrow> int \<Rightarrow> bool \<Rightarrow> int \<Rightarrow> (int \<times> byte list) outcome" where
  "GetDataMd5Code sg mtx pSrcData iDataSize pMd5code iCodeSize =
     (case pSrcData of
        None \<Rightarrow> Ok (-1, [])
      | Some src \<Rightarrow>
          if iDataSize \<le> 0 \<or> \<not> pMd5code \<or> iCodeSize < 32 then Ok (-1, [])
          else if length src < nat iDataSize then Fault
          else
            bind_outcome (MD5Update (MD5Init mtx) (take (nat iDataSize) src)) (\<lambda>mtx1.
            bind_outcome (second_code sg mtx1) (\<lambda>code.
            bind_outcome (copy_code code iCodeSize) (\<lambda>out. Ok (0, out)))))"

section \<open>Codes of files\<close>

text \<open>
  The loop over the file: \<open>st_size\<close> is what \<open>fstat\<close> reports, the script has the coming results of \<open>read\<close> (\<open>None\<close> for
  -1). The counter is an \<^verbatim>\<open>int\<close>; beyond its range is a fault.
\<close>

fun file_loop ::
  "int \<Rightarrow> int \<Rightarrow> int \<Rightarrow> MD5_CONTEXT \<Rightarrow> byte list option list \<Rightarrow> (int \<times> MD5_CONTEXT) outcome" where
  "file_loop st_size nSizeRead ret mtx [] = NoFuel"
| "file_loop st_size nSizeRead ret mtx (r # rs) =
     (case r of
        None \<Rightarrow> Ok (ret, mtx)
      | Some bs \<Rightarrow>
          (let buf = take BUF_SIZE bs; n = nSizeRead + int (length buf) in
           if buf = [] then Ok (ret, mtx)
           else
             bind_outcome (MD5Update mtx buf) (\<lambda>mtx1.
               if 2 ^ 31 \<le> n then Fault
               else if st_size \<le> n then Ok (0, mtx1)
               else if length buf < BUF_SIZE then Ok (0, mtx1)
               else file_loop st_size n 0 mtx1 rs)))"

text \<open>What the system says: the descriptors of \<open>open\<close> for the two files, \<open>fstat\<close> and its size, and the reads.\<close>

record file_sys =
  dst_fd :: int
  src_fd :: int
  fstat_ret :: int
  fstat_size :: int
  file_reads :: "byte list option list"

text \<open>What the call did: the return value, the code copied, what was written to the second file, and whether that was unlinked.\<close>

record file_out =
  fret :: int
  fcode :: "byte list"
  written :: "byte list"
  unlinked :: bool

definition GetFileMd5Code ::
  "bool \<Rightarrow> MD5_CONTEXT \<Rightarrow> file_sys \<Rightarrow> byte list option \<Rightarrow> byte list option \<Rightarrow> bool \<Rightarrow> int \<Rightarrow> file_out outcome" where
  "GetFileMd5Code sg mtx sys pSrcFile pMd5File pMd5Code iCodeSize =
     (let failed = \<lparr>fret = -1, fcode = [], written = [], unlinked = False\<rparr>;
          dst = (case pMd5File of None \<Rightarrow> False | Some f \<Rightarrow> f \<noteq> [])
      in if pSrcFile = None \<or> \<not> pMd5Code \<or> iCodeSize < 32 then Ok failed
         else if dst \<and> dst_fd sys = -1 then Ok failed
         else if src_fd sys = -1 then Ok failed
         else
           bind_outcome
             (if fstat_ret sys \<noteq> 0 \<or> fstat_size sys \<le> 0 then Ok (-1, mtx)
              else file_loop (fstat_size sys) 0 (-1) (MD5Init mtx) (file_reads sys))
             (\<lambda>(ret, mtx1).
               if ret = 0 then
                 bind_outcome (second_code sg mtx1) (\<lambda>code.
                 bind_outcome (copy_code code iCodeSize) (\<lambda>out.
                   Ok \<lparr>fret = 0, fcode = out, written = (if dst then code else []), unlinked = False\<rparr>))
               else Ok (failed\<lparr>unlinked := dst\<rparr>)))"

section \<open>What the codes are\<close>

definition code_of :: "bool \<Rightarrow> byte list \<Rightarrow> byte list" where
  "code_of sg m = hex_code sg (md5 (hex_code sg (md5 m) @ Mutex))"

lemma length_md5 [simp]: "length (md5 m) = 16"
  by (simp add: md5_def Let_def split: prod.splits)

lemma length_hex_code: "length (hex_code sg key) \<le> 8 * length key"
  by (induction key) (auto simp: hex_code_def sprintf_02x_def)

lemma length_code_of: "length (code_of sg m) \<le> 128"
  using length_hex_code [of sg "md5 (hex_code sg (md5 m) @ Mutex)"] by (simp add: code_of_def)

lemma zero_rep: "md5_rep (MD5Init zero_context) []"
  by (rule md5_digest.rep_start)

lemma second_code_rep:
  assumes "md5_rep c m"
  shows "second_code sg c = Ok (code_of sg m)"
proof -
  let ?t = "hex_code sg (md5 m) @ Mutex"
  have "length ?t \<le> 139" using length_hex_code [of sg "md5 m"] by (simp add: Mutex_def)
  then have "length ?t \<le> 2 ^ 32 - 64" by simp
  then obtain c2 where "MD5Update (MD5Init zero_context) ?t = Ok c2" "md5_rep c2 ([] @ ?t)"
    using md5_digest.rep_update [OF zero_rep] by blast
  then show ?thesis
    using md5_digest.rep_finish [OF assms] md5_digest.rep_finish [of c2 ?t] by (simp add: second_code_def code_of_def)
qed

text \<open>The code of data is the digest of the digest: for data of any positive size, given in a buffer at least as long,
  the caller receives the hexadecimal digest of the hexadecimal digest of the data followed by the
  additional input, and zeros behind it.\<close>

theorem data_code_correct:
  assumes "length (md5_buffer mtx) = 64" and "0 < n" and "n < 2 ^ 31" and "nat n \<le> length src" and "32 \<le> k" and "k \<le> int BUF_SIZE"
  shows "GetDataMd5Code sg mtx (Some src) n True k =
    Ok (0, take (nat k) (code_of sg (take (nat n) src) @ replicate (BUF_SIZE - length (code_of sg (take (nat n) src))) 0))"
proof -
  let ?m = "take (nat n) src"
  have "length ?m \<le> 2 ^ 32 - 64" using assms(3) by simp
  then obtain c where c: "MD5Update (MD5Init mtx) ?m = Ok c" "md5_rep c ([] @ ?m)"
    using update_rep [OF init_rep [OF assms(1)]] by blast
  then show ?thesis
    using assms second_code_rep [of c ?m sg] by (simp add: GetDataMd5Code_def copy_code_def)
qed

text \<open>The signedness of plain characters matters: where they are signed, a byte above 127 is printed with eight digits.\<close>

lemma length_hex_code_exact: "length (hex_code sg key) = 2 * length key + (if sg then 6 * length (filter (\<lambda>c. bit c 7) key) else 0)"
  by (induction key) (auto simp: hex_code_def sprintf_02x_def)

theorem data_code_correct_witness:
  "GetDataMd5Code False zero_context (Some [97, 98, 99]) 3 True 32 = Ok (0, code_of False [97, 98, 99])"
  using data_code_correct [of zero_context 3 "[97, 98, 99]" 32 False] length_hex_code_exact [of False]
  by (simp add: zero_context_def code_of_def)

text \<open>A file in reads that fill the buffer, except the last.\<close>

fun full_reads :: "byte list list \<Rightarrow> bool" where
  "full_reads [] = False"
| "full_reads [b] = (b \<noteq> [] \<and> length b \<le> BUF_SIZE)"
| "full_reads (b # bs) = (length b = BUF_SIZE \<and> full_reads bs)"

lemma full_reads_concat: "full_reads bs \<Longrightarrow> 0 < length (concat bs)"
  by (induction bs rule: full_reads.induct) auto

lemma file_loop_reads:
  assumes "full_reads bs" "md5_rep c m" "length (m @ concat bs) < 2 ^ 31"
  shows "\<exists>c'. file_loop (int (length (m @ concat bs))) (int (length m)) ret c (map Some bs @ rest) = Ok (0, c') \<and>
    md5_rep c' (m @ concat bs)"
  using assms
proof (induction bs arbitrary: c m ret rule: full_reads.induct)
  case (2 b)
  then obtain c' where "MD5Update c b = Ok c'" "md5_rep c' (m @ b)" using update_rep [of c m b] by auto
  with 2 show ?case by simp
next
  case (3 b b' bs)
  let ?all = "m @ concat (b # b' # bs)"
  obtain c1 where c1: "MD5Update c b = Ok c1" "md5_rep c1 (m @ b)" using 3 update_rep [of c m b] by auto
  have all: "?all = (m @ b) @ concat (b' # bs)" by simp
  have "length ?all = length (m @ b) + length (concat (b' # bs))" by (simp only: all length_append)
  moreover have "0 < length (concat (b' # bs))" using full_reads_concat [of "b' # bs"] "3.prems"(1) by (simp del: concat.simps)
  ultimately have lt: "\<not> int (length ?all) \<le> int (length (m @ b))" by linarith
  have small: "\<not> 2 ^ 31 \<le> int (length (m @ b))" using "3.prems"(3) by simp
  have step: "file_loop (int (length ?all)) (int (length m)) ret c (map Some (b # b' # bs) @ rest) =
      file_loop (int (length ?all)) (int (length (m @ b))) 0 c1 (map Some (b' # bs) @ rest)"
    using c1(1) "3.prems"(1) lt small by (auto simp: Let_def)
  have "full_reads (b' # bs)" using "3.prems"(1) by simp
  from "3.IH" [OF this c1(2) "3.prems"(3) [unfolded all], of 0] show ?case unfolding step by (simp only: all)
qed simp

text \<open>The code of a file is the code of its contents. For a file of less than two gigabytes that is read in whole buffers
  and a rest, by any number of reads, \<^verbatim>\<open>GetFileMd5Code\<close> succeeds with exactly what \<^verbatim>\<open>GetDataMd5Code\<close>
  returns for the contents in memory, and writes the code to the second file if there is one.\<close>

theorem file_code_is_data_code:
  assumes "full_reads bs" and "length (concat bs) < 2 ^ 31" and "file_reads sys = map Some bs @ rest"
    and "fstat_ret sys = 0" and "fstat_size sys = int (length (concat bs))" and "src_fd sys \<noteq> -1" and "dst_fd sys \<noteq> -1"
    and "length (md5_buffer mtx) = 64" and "length (md5_buffer mtx') = 64" and "32 \<le> k" and "k \<le> int BUF_SIZE"
  shows "\<exists>out. GetFileMd5Code sg mtx sys (Some f) (Some (x # xs)) True k =
      Ok \<lparr>fret = 0, fcode = out, written = code_of sg (concat bs), unlinked = False\<rparr> \<and>
    GetDataMd5Code sg mtx' (Some (concat bs)) (int (length (concat bs))) True k = Ok (0, out)"
proof -
  let ?m = "concat bs"
  obtain c where c: "file_loop (int (length ?m)) 0 (-1) (MD5Init mtx) (map Some bs @ rest) = Ok (0, c)" "md5_rep c ?m"
    using file_loop_reads [OF assms(1) init_rep [OF assms(8)], of "-1" rest] assms(2) by auto
  have pos: "0 < length ?m" by (rule full_reads_concat [OF assms(1)])
  have len: "length ?m \<le> 2 ^ 32 - 64" using assms(2) by simp
  obtain d where d: "MD5Update (MD5Init mtx') ?m = Ok d" "md5_rep d ([] @ ?m)"
    using update_rep [OF init_rep [OF assms(9)] len] by blast
  show ?thesis
    using c second_code_rep [OF c(2), of sg] d second_code_rep [of d ?m sg] pos assms
    by (simp add: GetFileMd5Code_def GetDataMd5Code_def copy_code_def)
qed

theorem file_code_is_data_code_witness:
  "\<exists>out. GetFileMd5Code False zero_context \<lparr>dst_fd = 4, src_fd = 3, fstat_ret = 0, fstat_size = 3, file_reads = [Some [97, 98, 99]]\<rparr>
      (Some [102]) (Some [103]) True 32 = Ok \<lparr>fret = 0, fcode = out, written = code_of False [97, 98, 99], unlinked = False\<rparr> \<and>
    GetDataMd5Code False zero_context (Some [97, 98, 99]) 3 True 32 = Ok (0, out)"
  using file_code_is_data_code [of "[[97, 98, 99]]" "\<lparr>dst_fd = 4, src_fd = 3, fstat_ret = 0, fstat_size = 3, file_reads = [Some [97, 98, 99]]\<rparr>"
      "[]" zero_context zero_context 32 False "[102]" 103 "[]"]
  by (simp add: zero_context_def)

text \<open>A short read ends the file: a read that returns less than a buffer before the end is taken as the last one, and the
  call succeeds with the code of the beginning of the file.\<close>

theorem short_read_truncates:
  assumes "b \<noteq> []" and "length b < BUF_SIZE" and "file_reads sys = Some b # rest" and "fstat_ret sys = 0"
    and "int (length b) < fstat_size sys" and "src_fd sys \<noteq> -1" and "length (md5_buffer mtx) = 64"
  shows "GetFileMd5Code False mtx sys (Some f) None True 32 =
    Ok \<lparr>fret = 0, fcode = code_of False b, written = [], unlinked = False\<rparr>"
proof -
  obtain c where c: "MD5Update (MD5Init mtx) b = Ok c" "md5_rep c ([] @ b)"
    using update_rep [OF init_rep [OF assms(7)], of b] assms(2) by auto
  have "length (code_of False b) = 32" using length_hex_code_exact [of False] by (simp add: code_of_def)
  then show ?thesis
    using c second_code_rep [of c b False] assms by (simp add: GetFileMd5Code_def copy_code_def Let_def)
qed

theorem short_read_truncates_witness:
  "GetFileMd5Code False zero_context \<lparr>dst_fd = -1, src_fd = 3, fstat_ret = 0, fstat_size = 9, file_reads = [Some [97]]\<rparr>
     (Some [102]) None True 32 = Ok \<lparr>fret = 0, fcode = code_of False [97], written = [], unlinked = False\<rparr>"
  by (rule short_read_truncates) (simp_all add: zero_context_def)

end
