(* ===== verification/Encrypt.thy ===== *)
theory Encrypt
  imports Memory
begin

text \<open>
  Decrypting a file (base/encrypt.c): Base64 text is decoded, every character is combined with one of five keys, and
  the result is appended to another file. Characters are bytes; \<open>stat\<close>, \<open>open\<close>, \<open>read\<close> and \<open>write\<close> are a script, and
  every access to the buffers is checked.
\<close>

unbundle bit_operations_syntax

section \<open>Tables\<close>

definition bitKey :: "nat list" where
  "bitKey = [1, 2, 3, 4, 5]"

definition EnBase64Tab :: "byte list" where
  "EnBase64Tab =
    [65, 66, 67, 68, 69, 70, 71, 72, 73, 74, 75, 76, 77, 78, 79, 80, 81, 82, 83, 84, 85, 86, 87, 88, 89, 90,
     97, 98, 99, 100, 101, 102, 103, 104, 105, 106, 107, 108, 109, 110, 111, 112, 113, 114, 115, 116, 117, 118, 119,
     120, 121, 122, 48, 49, 50, 51, 52, 53, 54, 55, 56, 57, 43, 47]"

definition DeBase64Tab :: "nat list" where
  "DeBase64Tab =
    [
0, 0, 0, 0, 0, 0, 0, 0, 0, 0, 0, 0, 0, 0, 0, 0, 0, 0, 0, 0, 0, 0, 0, 0,
          0, 0, 0, 0, 0, 0, 0, 0, 0, 0, 0, 0, 0, 0, 0, 0, 0, 0, 0, 62, 0, 0, 0, 63,
          52, 53, 54, 55, 56, 57, 58, 59, 60, 61, 0, 0, 0, 0, 0, 0, 0, 0, 1, 2, 3, 4, 5, 6,
          7, 8, 9, 10, 11, 12, 13, 14, 15, 16, 17, 18, 19, 20, 21, 22, 23, 24, 25, 0, 0, 0, 0, 0,
          0, 26, 27, 28, 29, 30, 31, 32, 33, 34, 35, 36, 37, 38, 39, 40, 41, 42, 43, 44, 45, 46, 47, 48,
          49, 50, 51]"

section \<open>Decoding\<close>

text \<open>
  An entry of the decoding table, which ends with the letter z. A character above it, and one that is negative
  where characters are signed, is an index outside the table.
\<close>

definition tab64 :: "byte \<Rightarrow> nat outcome" where
  "tab64 c = (if unat c < length DeBase64Tab then Ok (DeBase64Tab ! unat c) else Fault)"

text \<open>Storing a byte at the end of what is already in a buffer of size \<open>cap\<close>.\<close>

definition emit :: "nat \<Rightarrow> byte list \<Rightarrow> nat \<Rightarrow> byte list outcome" where
  "emit cap out v = (if length out < cap then Ok (out @ [of_nat v]) else Fault)"

text \<open>
  The loop of \<^verbatim>\<open>DecodeBase64\<close>: \<open>p\<close> is the source pointer, \<open>i\<close> the counter; the pointer stops at a padding
  character, the counter does not.
\<close>

function decode_loop :: "byte list \<Rightarrow> nat \<Rightarrow> nat \<Rightarrow> nat \<Rightarrow> nat \<Rightarrow> byte list \<Rightarrow> byte list outcome" where
  "decode_loop src p i n cap out =
     (if i < n then
        bind_outcome (rd_byte src p) (\<lambda>c.
        if c \<noteq> 13 \<and> c \<noteq> 10 then
          bind_outcome (tab64 c) (\<lambda>v1.
          bind_outcome (rd_byte src (p + 1)) (\<lambda>c2.
          bind_outcome (tab64 c2) (\<lambda>v2.
          let nValue = push_bit 18 v1 + push_bit 12 v2 in
          bind_outcome (emit cap out (drop_bit 16 (nValue AND 0x00ff0000))) (\<lambda>out1.
          bind_outcome (rd_byte src (p + 2)) (\<lambda>c3.
          if c3 \<noteq> 61 then
            bind_outcome (tab64 c3) (\<lambda>v3.
            let nValue = nValue + push_bit 6 v3 in
            bind_outcome (emit cap out1 (drop_bit 8 (nValue AND 0x0000ff00))) (\<lambda>out2.
            bind_outcome (rd_byte src (p + 3)) (\<lambda>c4.
            if c4 \<noteq> 61 then
              bind_outcome (tab64 c4) (\<lambda>v4.
              bind_outcome (emit cap out2 ((nValue + v4) AND 0x000000ff)) (\<lambda>out3.
                decode_loop src (p + 4) (i + 4) n cap out3))
            else decode_loop src (p + 3) (i + 4) n cap out2)))
          else decode_loop src (p + 2) (i + 4) n cap out1)))))
        else decode_loop src (p + 1) (i + 1) n cap out)
      else Ok out)"
  by auto

termination
  by (relation "measure (\<lambda>(src, p, i, n, cap, out). n - i)") auto

declare decode_loop.simps [simp del]

text \<open>\<^verbatim>\<open>DecodeBase64\<close>: the bytes stored before the terminating NUL; their number is the return value.\<close>

definition DecodeBase64 :: "byte list \<Rightarrow> nat \<Rightarrow> nat \<Rightarrow> byte list outcome" where
  "DecodeBase64 pSrc cap nSrcLen =
     bind_outcome (decode_loop pSrc 0 0 nSrcLen cap []) (\<lambda>out. if length out < cap then Ok out else Fault)"

definition MakecodeChar :: "byte \<Rightarrow> nat \<Rightarrow> byte" where
  "MakecodeChar c key = c XOR of_nat key"

definition CutcodeChar :: "byte \<Rightarrow> nat \<Rightarrow> byte" where
  "CutcodeChar c key = c XOR of_nat key"

text \<open>\<^verbatim>\<open>BitDecode\<close> on the text up to the first NUL, and on the whole buffer.\<close>

definition cut_string :: "byte list \<Rightarrow> byte list" where
  "cut_string s = map (\<lambda>i. CutcodeChar (s ! i) (bitKey ! (i mod 5))) [0..<length s]"

definition BitDecode :: "byte list \<Rightarrow> byte list" where
  "BitDecode b = (let s = takeWhile (\<lambda>c. c \<noteq> 0) b in cut_string s @ drop (length s) b)"

section \<open>Files\<close>

text \<open>
  What the system says about the files: the size \<open>stat\<close> reports (\<open>None\<close> when it fails), the allocations, the descriptor
  and the result of reading (\<open>None\<close> for -1), the byte behind the file in its buffer, the descriptor for writing,
  and the results of \<open>write\<close>, each with whether it was interrupted.
\<close>

record crypt_sys =
  stat_size :: "int option"
  src_mem :: bool
  dst_mem :: bool
  read_fd :: int
  read_ret :: "byte list option"
  spare :: byte
  write_fd :: int
  writes :: "(int \<times> bool) list"

text \<open>\<^verbatim>\<open>ReadFile\<close>: the bytes read, \<open>None\<close> for a negative value.\<close>

definition ReadFile :: "crypt_sys \<Rightarrow> int \<Rightarrow> byte list option" where
  "ReadFile sys nBufSize =
     (if read_fd sys < 0 then None
      else
        (let nfilelen = min (case stat_size sys of None \<Rightarrow> 0 | Some n \<Rightarrow> n) nBufSize
         in map_option (take (nat nfilelen)) (read_ret sys)))"

text \<open>The loop of \<^verbatim>\<open>WriteFile\<close>: the return value of the function and what was appended to the file.\<close>

fun write_loop :: "byte list \<Rightarrow> int \<Rightarrow> (int \<times> bool) list \<Rightarrow> byte list \<Rightarrow> (int \<times> byte list) outcome" where
  "write_loop [] sz ws out = Ok (sz, out)"
| "write_loop (b # bs) sz [] out = NoFuel"
| "write_loop (b # bs) sz ((w, eintr) # ws) out =
     (if w \<le> 0 then
        if w < 0 \<and> eintr then write_loop (b # bs) sz ws out else Ok (-1, out)
      else write_loop (drop (nat w) (b # bs)) sz ws (out @ take (nat w) (b # bs)))"

definition WriteFile :: "crypt_sys \<Rightarrow> byte list \<Rightarrow> (int \<times> byte list) outcome" where
  "WriteFile sys buf =
     (if write_fd sys < 0 then Ok (-1, []) else write_loop buf (int (length buf)) (writes sys) [])"

text \<open>
  \<^verbatim>\<open>file_bit_decrypt\<close>: the return value and what was appended to the second file. The sizes are computed in \<open>int\<close>:
  a file whose size plus one, or twice whose size, is not an \<open>int\<close> is a fault.
\<close>

definition file_bit_decrypt :: "crypt_sys \<Rightarrow> (int \<times> byte list) outcome" where
  "file_bit_decrypt sys =
     (case stat_size sys of
        None \<Rightarrow> Ok (-1, [])
      | Some sz \<Rightarrow>
          if sz \<le> 0 then Ok (-1, [])
          else if 2147483647 \<le> sz then Fault
          else if \<not> src_mem sys then Ok (-1, [])
          else
            (case ReadFile sys (sz + 1) of
               None \<Rightarrow> Ok (-1, [])
             | Some src \<Rightarrow>
                 if int (length src) \<noteq> sz then Ok (-1, [])
                 else if 2147483647 < 2 * length src then Fault
                 else if \<not> dst_mem sys then Ok (-1, [])
                 else
                   bind_outcome (DecodeBase64 (src @ [spare sys]) (2 * length src) (length src)) (\<lambda>dst.
                   bind_outcome (WriteFile sys (BitDecode dst)) (\<lambda>(_, out). Ok (0, out)))))"

section \<open>Encoded text\<close>

text \<open>Base64 text: groups of three bytes, line breaks between them, and at most two bytes at the end, padded.\<close>

datatype b64_item = Quad byte byte byte | Break byte

definition sextets :: "nat \<Rightarrow> nat \<Rightarrow> nat \<Rightarrow> byte list" where
  "sextets a b c =
     (let n = 65536 * a + 256 * b + c in
      map ((!) EnBase64Tab) [n div 2 ^ 18, n div 2 ^ 12 mod 64, n div 64 mod 64, n mod 64])"

fun item_text :: "b64_item \<Rightarrow> byte list" where
  "item_text (Quad a b c) = sextets (unat a) (unat b) (unat c)"
| "item_text (Break k) = [k]"

fun item_bytes :: "b64_item \<Rightarrow> byte list" where
  "item_bytes (Quad a b c) = [a, b, c]"
| "item_bytes (Break k) = []"

fun item_ok :: "b64_item \<Rightarrow> bool" where
  "item_ok (Quad a b c) = True"
| "item_ok (Break k) = (k = 13 \<or> k = 10)"

fun last_text :: "byte list \<Rightarrow> byte list" where
  "last_text [a] = take 2 (sextets (unat a) 0 0) @ [61, 61]"
| "last_text [a, b] = take 3 (sextets (unat a) (unat b) 0) @ [61]"
| "last_text bs = []"

definition b64_text :: "b64_item list \<Rightarrow> byte list \<Rightarrow> byte list" where
  "b64_text items bs = concat (map item_text items) @ last_text bs"

definition b64_bytes :: "b64_item list \<Rightarrow> byte list \<Rightarrow> byte list" where
  "b64_bytes items bs = concat (map item_bytes items) @ bs"

lemma tables: "list_all (\<lambda>k. tab64 (EnBase64Tab ! k) = Ok k \<and> EnBase64Tab ! k \<notin> {13, 10, 61}) [0..<64]"
  by (simp add: tab64_def EnBase64Tab_def DeBase64Tab_def upt_rec)

lemma tab64_enc: "k < 64 \<Longrightarrow> tab64 (EnBase64Tab ! k) = Ok k"
  and enc_plain: "k < 64 \<Longrightarrow> EnBase64Tab ! k \<noteq> 13 \<and> EnBase64Tab ! k \<noteq> 10 \<and> EnBase64Tab ! k \<noteq> 61"
  using tables by (auto simp: list_all_iff)

lemma masks:
  "drop_bit 16 (n AND 0x00ff0000) = n div 65536 mod 256" "drop_bit 8 (n AND 0x0000ff00) = n div 256 mod 256"
  "n AND 0x000000ff = n mod 256" for n :: nat
proof -
  have m: "(0x00ff0000 :: nat) = push_bit 16 (mask 8)" "(0x0000ff00 :: nat) = push_bit 8 (mask 8)" "(0x000000ff :: nat) = mask 8"
    by (simp_all add: mask_eq_exp_minus_1 push_bit_eq_mult)
  have d: "drop_bit k (n AND push_bit k (mask 8)) = take_bit 8 (drop_bit k n)" for k
    by (rule bit_eqI) (auto simp: bit_simps)
  show "drop_bit 16 (n AND 0x00ff0000) = n div 65536 mod 256" "drop_bit 8 (n AND 0x0000ff00) = n div 256 mod 256"
      "n AND 0x000000ff = n mod 256"
    unfolding m d by (simp_all add: take_bit_eq_mod drop_bit_eq_div flip: take_bit_eq_mask)
qed

lemma split64: "q div 64 * (64 * k) + q mod 64 * k = q * k" for q k :: nat
  by (metis add_mult_distrib div_mult_mod_eq mult.assoc)

text \<open>The four sextets of a group give back its bytes.\<close>

lemma sextet_bytes:
  fixes a b c :: nat
  assumes "a < 256" "b < 256" "c < 256"
  defines "n \<equiv> 65536 * a + 256 * b + c"
  shows "n div 2 ^ 18 < 64" "push_bit 18 (n div 2 ^ 18) + push_bit 12 (n div 2 ^ 12 mod 64) = n div 2 ^ 12 * 2 ^ 12"
    "n div 2 ^ 12 * 2 ^ 12 + push_bit 6 (n div 64 mod 64) = n div 64 * 64" "n div 64 * 64 + n mod 64 = n"
    "n div 2 ^ 12 * 2 ^ 12 div 65536 mod 256 = a" "n div 64 * 64 div 256 mod 256 = b" "n mod 256 = c"
proof -
  have n: "n < 2 ^ 24" using assms by simp
  have d18: "n div 2 ^ 18 = n div 2 ^ 12 div 64" by (simp add: div_mult2_eq)
  have d12: "n div 2 ^ 12 = n div 64 div 64" by (simp add: div_mult2_eq)
  show "n div 2 ^ 18 < 64" using n by simp
  show "push_bit 18 (n div 2 ^ 18) + push_bit 12 (n div 2 ^ 12 mod 64) = n div 2 ^ 12 * 2 ^ 12"
    using split64 [of "n div 2 ^ 12" "2 ^ 12"] unfolding d18 push_bit_eq_mult by simp
  show "n div 2 ^ 12 * 2 ^ 12 + push_bit 6 (n div 64 mod 64) = n div 64 * 64"
    using split64 [of "n div 64" 64] unfolding d12 push_bit_eq_mult by simp
  show "n div 64 * 64 + n mod 64 = n" by simp
  have n2: "n = c + 256 * (b + 256 * a)" by (simp add: n_def)
  have d8: "n div 256 = b + 256 * a" unfolding n2 using assms(3) by simp
  have "n div 65536 = a" using assms by (simp add: n_def)
  moreover have "n div 256 mod 256 = b" unfolding d8 using assms(2) by simp
  moreover have "n mod 256 = c" unfolding n2 mod_mult_self2 using assms(3) by simp
  moreover have "n div 2 ^ 12 * 2 ^ 12 div 65536 = n div 65536"
    using div_mult2_eq [of n "2 ^ 12" 16] div_mult2_eq [of "n div 2 ^ 12 * 2 ^ 12" "2 ^ 12" 16] by simp
  moreover have "n div 64 * 64 div 256 = n div 256"
    using div_mult2_eq [of n 64 4] div_mult2_eq [of "n div 64 * 64" 64 4] by simp
  ultimately show "n div 2 ^ 12 * 2 ^ 12 div 65536 mod 256 = a" "n div 64 * 64 div 256 mod 256 = b" "n mod 256 = c"
    using assms by simp_all
qed

lemma unat_byte: "unat (b :: byte) < 256"
  using unsigned_less [of b] by simp

lemma emit_byte: "length out < cap \<Longrightarrow> unat b = v \<Longrightarrow> emit cap out v = Ok (out @ [b])"
  by (auto simp: emit_def)

lemma decode_quad:
  assumes "drop p src = sextets (unat a) (unat b) (unat c) @ t" "i < n" "length out + 3 \<le> cap"
  shows "decode_loop src p i n cap out = decode_loop src (p + 4) (i + 4) n cap (out @ [a, b, c])"
proof -
  let ?n = "65536 * unat a + 256 * unat b + unat c"
  note sx = sextet_bytes [OF unat_byte [of a] unat_byte [of b] unat_byte [of c]]
  have k: "?n div 2 ^ 12 mod 64 < 64" "?n div 64 mod 64 < 64" "?n mod 64 < 64" by simp_all
  note enc = tab64_enc [OF sx(1)] tab64_enc [OF k(1)] tab64_enc [OF k(2)] tab64_enc [OF k(3)]
  note pl = enc_plain [OF sx(1)] enc_plain [OF k(2)] enc_plain [OF k(3)]
  have rd: "rd_byte src p = Ok (EnBase64Tab ! (?n div 2 ^ 18))" "rd_byte src (p + 1) = Ok (EnBase64Tab ! (?n div 2 ^ 12 mod 64))"
      "rd_byte src (p + 2) = Ok (EnBase64Tab ! (?n div 64 mod 64))" "rd_byte src (p + 3) = Ok (EnBase64Tab ! (?n mod 64))"
    using drop_nth [OF assms(1), of 0] drop_nth [OF assms(1), of 1] drop_nth [OF assms(1), of 2] drop_nth [OF assms(1), of 3]
    by (simp_all add: rd_byte_def sextets_def Let_def)
  have em: "emit cap out a' = Ok (out @ [a])" "emit cap (out @ [a]) b' = Ok (out @ [a] @ [b])"
      "emit cap (out @ [a] @ [b]) c' = Ok (out @ [a] @ [b] @ [c])"
    if "a' = unat a" "b' = unat b" "c' = unat c" for a' b' c'
    using assms(3) that by (simp_all add: emit_def)
  show ?thesis
    unfolding decode_loop.simps [of src p i]
    using assms(2) rd enc pl em [OF sx(5,6,7)]
    by (simp only: bind_outcome.simps Let_def masks sx if_True simp_thms append_Cons append_Nil append_assoc)
qed

lemma length_sextets [simp]: "length (sextets a b c) = 4"
  by (simp add: sextets_def Let_def)

lemma decode_items:
  assumes "list_all item_ok items" "drop p src = concat (map item_text items) @ t"
    and "i + length (concat (map item_text items)) \<le> n" "length out + length (concat (map item_bytes items)) \<le> cap"
  shows "decode_loop src p i n cap out = decode_loop src (p + length (concat (map item_text items)))
    (i + length (concat (map item_text items))) n cap (out @ concat (map item_bytes items))"
  using assms
proof (induction items arbitrary: p i out)
  case (Cons x items)
  show ?case
  proof (cases x)
    case (Quad a b c)
    have d: "drop p src = sextets (unat a) (unat b) (unat c) @ concat (map item_text items) @ t"
      using Cons.prems(2) by (simp add: Quad)
    have "drop (p + 4) src = concat (map item_text items) @ t" using drop_more [OF d] by simp
    with Cons.IH [of "p + 4" "i + 4" "out @ [a, b, c]"] decode_quad [OF d, of i n out cap] Cons.prems show ?thesis
      by (simp add: Quad ac_simps)
  next
    case (Break k)
    have d: "drop p src = [k] @ concat (map item_text items) @ t" using Cons.prems(2) by (simp add: Break)
    have "drop (p + 1) src = concat (map item_text items) @ t" using drop_more [OF d] by simp
    moreover have "decode_loop src p i n cap out = decode_loop src (p + 1) (i + 1) n cap out"
      using drop_nth [OF d, of 0] Cons.prems by (auto simp: Break decode_loop.simps [of src p i] rd_byte_def)
    ultimately show ?thesis using Cons.IH [of "p + 1" "i + 1" out] Cons.prems by (simp add: Break)
  qed
qed simp

lemma decode_end: "\<not> i < n \<Longrightarrow> decode_loop src p i n cap out = Ok out"
  by (simp add: decode_loop.simps [of src p i])

lemma decode_pad2:
  assumes "drop p src = take 2 (sextets (unat a) 0 0) @ 61 # t" "i < n" "length out < cap"
  shows "decode_loop src p i n cap out = decode_loop src (p + 2) (i + 4) n cap (out @ [a])"
proof -
  have z: "(0 :: nat) < 256" by simp
  let ?n = "65536 * unat a + 256 * 0 + 0"
  note sx = sextet_bytes [OF unat_byte [of a] z z]
  have k: "?n div 2 ^ 12 mod 64 < 64" by simp
  have rd: "rd_byte src p = Ok (EnBase64Tab ! (?n div 2 ^ 18))" "rd_byte src (p + 1) = Ok (EnBase64Tab ! (?n div 2 ^ 12 mod 64))"
      "rd_byte src (p + 2) = Ok 61"
    using drop_nth [OF assms(1), of 0] drop_nth [OF assms(1), of 1] drop_nth [OF assms(1), of 2]
    by (simp_all add: rd_byte_def sextets_def Let_def)
  have em: "emit cap out (unat a) = Ok (out @ [a])" using assms(3) by (simp add: emit_def)
  show ?thesis
    unfolding decode_loop.simps [of src p i]
    using assms(2) rd tab64_enc [OF sx(1)] tab64_enc [OF k] enc_plain [OF sx(1)] em
    by (simp only: bind_outcome.simps Let_def masks sx if_True if_False simp_thms)
qed

lemma decode_pad1:
  assumes "drop p src = take 3 (sextets (unat a) (unat b) 0) @ 61 # t" "i < n" "length out + 2 \<le> cap"
  shows "decode_loop src p i n cap out = decode_loop src (p + 3) (i + 4) n cap (out @ [a, b])"
proof -
  have z: "(0 :: nat) < 256" by simp
  let ?n = "65536 * unat a + 256 * unat b + 0"
  note sx = sextet_bytes [OF unat_byte [of a] unat_byte [of b] z]
  have k: "?n div 2 ^ 12 mod 64 < 64" "?n div 64 mod 64 < 64" by simp_all
  have rd: "rd_byte src p = Ok (EnBase64Tab ! (?n div 2 ^ 18))" "rd_byte src (p + 1) = Ok (EnBase64Tab ! (?n div 2 ^ 12 mod 64))"
      "rd_byte src (p + 2) = Ok (EnBase64Tab ! (?n div 64 mod 64))" "rd_byte src (p + 3) = Ok 61"
    using drop_nth [OF assms(1), of 0] drop_nth [OF assms(1), of 1] drop_nth [OF assms(1), of 2] drop_nth [OF assms(1), of 3]
    by (simp_all add: rd_byte_def sextets_def Let_def)
  have em: "emit cap out (unat a) = Ok (out @ [a])" "emit cap (out @ [a]) (unat b) = Ok (out @ [a, b])"
    using assms(3) by (simp_all add: emit_def)
  show ?thesis
    unfolding decode_loop.simps [of src p i]
    using assms(2) rd tab64_enc [OF sx(1)] tab64_enc [OF k(1)] tab64_enc [OF k(2)] enc_plain [OF sx(1)] enc_plain [OF k(2)] em
    by (simp only: bind_outcome.simps Let_def masks sx if_True if_False simp_thms)
qed

lemma decode_last:
  assumes "drop p src = last_text bs @ t" "n = i + length (last_text bs)" "length out + length bs \<le> cap" "length bs \<le> 2"
  shows "decode_loop src p i n cap out = Ok (out @ bs)"
proof -
  consider "bs = []" | a where "bs = [a]" | a b where "bs = [a, b]"
    using assms(4) by (cases bs; cases "tl bs"; cases "tl (tl bs)") auto
  then show ?thesis
  proof cases
    case 1
    with assms show ?thesis by (simp add: decode_end)
  next
    case (2 a)
    with assms decode_pad2 [of p src a "61 # t" i n out cap] show ?thesis by (simp add: decode_end)
  next
    case (3 a b)
    with assms decode_pad1 [of p src a b t i n out cap] show ?thesis by (simp add: decode_end)
  qed
qed

lemma text_length: "length (concat (map item_bytes items)) \<le> length (concat (map item_text items))"
proof (induction items)
  case (Cons x items)
  then show ?case by (cases x) simp_all
qed simp

lemma last_length: "length bs \<le> 2 \<Longrightarrow> length bs \<le> length (last_text bs)"
  by (cases bs rule: last_text.cases) auto

lemma decode_text:
  assumes "list_all item_ok items" "length bs \<le> 2" "b64_text items bs \<noteq> []"
  shows "DecodeBase64 (b64_text items bs @ t) (2 * length (b64_text items bs)) (length (b64_text items bs)) = Ok (b64_bytes items bs)"
proof -
  let ?t = "concat (map item_text items)" let ?n = "length (b64_text items bs)" let ?src = "b64_text items bs @ t"
  have cap: "length (b64_bytes items bs) \<le> ?n"
    using text_length [of items] last_length [OF assms(2)] by (simp add: b64_text_def b64_bytes_def)
  have pos: "0 < ?n" using assms(3) by simp
  have "decode_loop ?src 0 0 ?n (2 * ?n) [] = decode_loop ?src (length ?t) (length ?t) ?n (2 * ?n) (concat (map item_bytes items))"
    using decode_items [OF assms(1), of 0 ?src "last_text bs @ t" 0 ?n "[]" "2 * ?n"] cap
    by (simp add: b64_text_def b64_bytes_def)
  also have "\<dots> = Ok (b64_bytes items bs)"
    using decode_last [of "length ?t" ?src bs t ?n "length ?t" "concat (map item_bytes items)" "2 * ?n"] assms(2) cap
    by (simp add: b64_text_def b64_bytes_def)
  finally have loop: "decode_loop ?src 0 0 ?n (2 * ?n) [] = Ok (b64_bytes items bs)" .
  have "length (b64_bytes items bs) < 2 * ?n" using cap pos by linarith
  with loop show ?thesis by (simp add: DecodeBase64_def)
qed

text \<open>Base64 text is decoded to its bytes. For text of any groups with any line breaks between them and any padded rest,
  \<^verbatim>\<open>DecodeBase64\<close> into a buffer of twice the size of the text returns exactly the bytes that were encoded; it
  reads nothing outside the text and writes nothing outside the buffer.\<close>

theorem base64_roundtrip:
  assumes "list_all item_ok items" and "length bs \<le> 2" and "b64_text items bs \<noteq> []"
  shows "DecodeBase64 (b64_text items bs @ t) (2 * length (b64_text items bs)) (length (b64_text items bs)) = Ok (b64_bytes items bs)"
  by (rule decode_text [OF assms])

theorem base64_roundtrip_witness:
  "DecodeBase64 (b64_text [Quad 77 97 110, Break 10] [65] @ [0]) (2 * length (b64_text [Quad 77 97 110, Break 10] [65]))
     (length (b64_text [Quad 77 97 110, Break 10] [65])) = Ok [77, 97, 110, 65]"
  using base64_roundtrip [of "[Quad 77 97 110, Break 10]" "[65]" "[0]"] by (simp add: b64_bytes_def b64_text_def)

text \<open>The counter runs past the padding, the pointer does not: a line break behind a padded group makes the loop decode the
  padding and what lies behind the text as a further group, so that bytes appear that were not encoded.\<close>

theorem padded_line_break_garbage:
  "DecodeBase64 (last_text [a] @ [10, u]) 10 5 =
     (if u = 61 then Ok [a, 0, 0] else bind_outcome (tab64 u) (\<lambda>v. Ok [a, 0, 0, of_nat v]))"
proof -
  let ?src = "last_text [a] @ [10, u]"
  have first: "decode_loop ?src 0 0 5 10 [] = decode_loop ?src 2 4 5 10 [a]"
    using decode_pad2 [of 0 ?src a "[61, 10, u]" 0 5 "[]" 10] by (simp add: numeral_2_eq_2)
  have rd: "rd_byte ?src 2 = Ok 61" "rd_byte ?src 3 = Ok 61" "rd_byte ?src 4 = Ok 10" "rd_byte ?src 5 = Ok u"
    by (simp_all add: rd_byte_def nth_append)
  have tb: "tab64 61 = Ok 0" "tab64 10 = Ok 0" by (simp_all add: tab64_def DeBase64Tab_def)
  have low_byte: "word_of_nat (v AND 255) = (word_of_nat v :: byte)" for v
    using masks(3) [of v] by (simp add: word_of_nat_eq_iff take_bit_eq_mod)
  show ?thesis
    unfolding DecodeBase64_def first decode_loop.simps [of ?src 2 4]
    using rd tb by (cases "tab64 u") (simp_all add: emit_def Let_def decode_end low_byte)
qed

section \<open>Decrypting a file\<close>

lemma length_cut_string [simp]: "length (cut_string s) = length s"
  by (simp add: cut_string_def)

lemma cut_string_involution: "cut_string (cut_string s) = s"
  by (rule nth_equalityI) (simp_all add: cut_string_def CutcodeChar_def xor.assoc)

text \<open>The text of the program that made the file: every character changed with its key.\<close>

definition encrypted :: "byte list \<Rightarrow> byte list" where
  "encrypted s = map (\<lambda>i. MakecodeChar (s ! i) (bitKey ! (i mod 5))) [0..<length s]"

lemma encrypted_cut: "encrypted s = cut_string s"
  by (simp add: encrypted_def cut_string_def MakecodeChar_def CutcodeChar_def)

text \<open>No character of the plain text is its own key, which would become a NUL.\<close>

definition key_free :: "byte list \<Rightarrow> bool" where
  "key_free s \<longleftrightarrow> 0 \<notin> set (encrypted s)"

lemma BitDecode_encrypted: "key_free s \<Longrightarrow> BitDecode (encrypted s) = s"
proof -
  assume "key_free s"
  then have t: "takeWhile (\<lambda>c. c \<noteq> 0) (encrypted s) = encrypted s" by (auto simp: key_free_def takeWhile_eq_all_conv)
  show ?thesis by (simp add: BitDecode_def t) (simp add: encrypted_cut cut_string_involution)
qed

text \<open>Writes that get everything out: parts in a row, and interruptions between them.\<close>

fun writes_all :: "nat \<Rightarrow> (int \<times> bool) list \<Rightarrow> bool" where
  "writes_all 0 ws = True"
| "writes_all (Suc n) [] = False"
| "writes_all (Suc n) ((w, eintr) # ws) =
     (if w \<le> 0 then w < 0 \<and> eintr \<and> writes_all (Suc n) ws else nat w \<le> Suc n \<and> writes_all (Suc n - nat w) ws)"

lemma write_loop_all: "writes_all (length bs) ws \<Longrightarrow> write_loop bs sz ws out = Ok (sz, out @ bs)"
proof (induction bs sz ws out rule: write_loop.induct)
  case (3 b bs sz w eintr ws out)
  show ?case
  proof (cases "w \<le> 0")
    case True
    with 3 show ?thesis by simp
  next
    case False
    then have "writes_all (length (drop (nat w) (b # bs))) ws" using "3.prems" by (simp add: diff_Suc split: nat.splits)
    with False "3.IH"(2) show ?thesis by simp
  qed
qed simp_all

text \<open>A file is decrypted. If the file holds the Base64 text, with any line breaks, of a text encrypted character by character, and
  none of its characters is its own key, then decrypting it returns 0 and appends exactly the plain text to
  the second file, through writes of any sizes and any interruptions.\<close>

theorem file_decrypted:
  assumes "list_all item_ok items" and "length bs \<le> 2" and "b64_bytes items bs = encrypted plain" and "key_free plain"
    and "b64_text items bs \<noteq> []" and "length (b64_text items bs) < 2 ^ 30" and "stat_size sys = Some (int (length (b64_text items bs)))"
    and "read_ret sys = Some (b64_text items bs)" and "0 \<le> read_fd sys" and "0 \<le> write_fd sys" and "src_mem sys" and "dst_mem sys"
    and "writes_all (length plain) (writes sys)"
  shows "file_bit_decrypt sys = Ok (0, plain)"
proof -
  let ?t = "b64_text items bs"
  have "ReadFile sys (int (length ?t) + 1) = Some ?t" using assms(7-9) by (simp add: ReadFile_def)
  moreover have "DecodeBase64 (?t @ [spare sys]) (2 * length ?t) (length ?t) = Ok (encrypted plain)"
    using decode_text [OF assms(1,2,5), of "[spare sys]"] assms(3) by simp
  moreover have "WriteFile sys (BitDecode (encrypted plain)) = Ok (int (length plain), plain)"
    using assms(4,10,13) write_loop_all [of plain "writes sys"] by (simp add: WriteFile_def BitDecode_encrypted)
  ultimately show ?thesis using assms(5-7,11,12) by (simp add: file_bit_decrypt_def)
qed

theorem file_decrypted_witness:
  "file_bit_decrypt \<lparr>stat_size = Some 6, src_mem = True, dst_mem = True, read_fd = 3, read_ret = Some [81, 71, 66, 65, 13, 10],
     spare = 0, write_fd = 4, writes = [(1, False), (-1, True), (2, False)]\<rparr> = Ok (0, [65, 98, 67])"
  using file_decrypted [of "[Quad 64 96 64, Break 13, Break 10]" "[]" "[65, 98, 67]"
      "\<lparr>stat_size = Some 6, src_mem = True, dst_mem = True, read_fd = 3, read_ret = Some [81, 71, 66, 65, 13, 10],
     spare = 0, write_fd = 4, writes = [(1, False), (-1, True), (2, False)]\<rparr>"]
  by (simp add: b64_bytes_def b64_text_def encrypted_def key_free_def MakecodeChar_def bitKey_def upt_rec
      sextets_def EnBase64Tab_def Let_def)

text \<open>A character that is its own key ends the decryption: it becomes a NUL, and everything from there on is written as
  it was.\<close>

theorem decryption_stops_at_key:
  assumes "key_free s"
  shows "BitDecode (encrypted s @ 0 # rest) = s @ 0 # rest"
proof -
  have t: "takeWhile (\<lambda>c. c \<noteq> 0) (encrypted s @ 0 # rest) = encrypted s"
    using assms by (subst takeWhile_append2) (auto simp: key_free_def)
  show ?thesis by (simp add: BitDecode_def t) (simp add: encrypted_cut cut_string_involution)
qed

theorem decryption_stops_at_key_witness: "BitDecode [64, 0, 0x5A] = [65, 0, 0x5A]"
  using decryption_stops_at_key [of "[65]" "[0x5A]"]
  by (simp add: encrypted_def key_free_def MakecodeChar_def bitKey_def)

end
