(* ===== verification/Encrypt_C8.thy ===== *)
theory Encrypt_C8
  imports Encrypt
begin

text \<open>
  The tool that encrypts and decrypts files (base/test_encrypt_c8.c). Its tables, its decoder and its functions for
  reading and writing are those of base/encrypt.c again; this theory adds the encoder, the encryption of a file, and the
  decryption with its own checks, and tells for every file whether it comes back, changes, or is encrypted outside of the buffers.
\<close>

section \<open>Encoding\<close>

abbreviation INFOR_RET_SUCCESS :: int where "INFOR_RET_SUCCESS \<equiv> 0"
abbreviation INFOR_RET_FAIL :: int where "INFOR_RET_FAIL \<equiv> 1"
abbreviation MAX_LINE_LEN :: int where "MAX_LINE_LEN \<equiv> 76"

text \<open>Storing bytes at the end of what is already in a buffer of size \<open>cap\<close>.\<close>

definition put :: "nat \<Rightarrow> byte list \<Rightarrow> byte list \<Rightarrow> byte list outcome" where
  "put cap out xs = (if length out + length xs \<le> cap then Ok (out @ xs) else Fault)"

text \<open>
  The loop of \<^verbatim>\<open>EncodeBase64\<close> over the groups of three bytes: what is left of the source, and the text. A line break
  follows when another group would make the line longer than allowed.
\<close>

fun encode_loop :: "nat \<Rightarrow> byte list \<Rightarrow> nat \<Rightarrow> int \<Rightarrow> int \<Rightarrow> byte list \<Rightarrow> (byte list \<times> byte list) outcome" where
  "encode_loop 0 src cap nMaxLineLen nLineLen out = Ok (src, out)"
| "encode_loop (Suc k) (c1 # c2 # c3 # src) cap nMaxLineLen nLineLen out =
     bind_outcome
       (put cap out
         [EnBase64Tab ! drop_bit 2 (unat c1),
          EnBase64Tab ! ((push_bit 4 (unat c1) OR drop_bit 4 (unat c2)) AND 0x3f),
          EnBase64Tab ! ((push_bit 2 (unat c2) OR drop_bit 6 (unat c3)) AND 0x3f),
          EnBase64Tab ! (unat c3 AND 0x3f)]) (\<lambda>out1.
       if nLineLen + 4 > nMaxLineLen - 4 then
         bind_outcome (put cap out1 [13, 10]) (\<lambda>out2. encode_loop k src cap nMaxLineLen 0 out2)
       else encode_loop k src cap nMaxLineLen (nLineLen + 4) out1)"
| "encode_loop (Suc k) src cap nMaxLineLen nLineLen out = Fault"

text \<open>\<^verbatim>\<open>EncodeBase64\<close>: the text stored before the terminating NUL; its length is the return value.\<close>

definition EncodeBase64 :: "byte list \<Rightarrow> nat \<Rightarrow> nat \<Rightarrow> int \<Rightarrow> byte list outcome" where
  "EncodeBase64 pSrc cap nSrcLen nMaxLineLen =
     bind_outcome (encode_loop (nSrcLen div 3) pSrc cap nMaxLineLen 0 []) (\<lambda>(src, out).
     bind_outcome
       (if nSrcLen mod 3 = 1 then
          bind_outcome (rd_byte src 0) (\<lambda>c1.
            put cap out
              [EnBase64Tab ! drop_bit 2 (unat c1 AND 0xfc), EnBase64Tab ! push_bit 4 (unat c1 AND 0x03), 61, 61])
        else if nSrcLen mod 3 = 2 then
          bind_outcome (rd_byte src 0) (\<lambda>c1.
          bind_outcome (rd_byte src 1) (\<lambda>c2.
            put cap out
              [EnBase64Tab ! drop_bit 2 (unat c1 AND 0xfc),
               EnBase64Tab ! (push_bit 4 (unat c1 AND 0x03) OR drop_bit 4 (unat c2 AND 0xf0)),
               EnBase64Tab ! push_bit 2 (unat c2 AND 0x0f), 61]))
        else Ok out) (\<lambda>out1.
       if length out1 < cap then Ok out1 else Fault))"

text \<open>
  \<^verbatim>\<open>BitEncode\<close> on a whole buffer: the characters before the first NUL are changed. A buffer without a NUL is read
  beyond its end.
\<close>

definition BitEncode :: "byte list \<Rightarrow> byte list outcome" where
  "BitEncode b =
     (let s = takeWhile (\<lambda>c. c \<noteq> 0) b in
      if length s = length b then Fault
      else Ok (map (\<lambda>i. MakecodeChar (s ! i) (bitKey ! (i mod 5))) [0..<length s] @ drop (length s) b))"

section \<open>Files\<close>

text \<open>A path that is missing or empty.\<close>

definition no_path :: "byte list option \<Rightarrow> bool" where
  "no_path p \<longleftrightarrow> (case p of None \<Rightarrow> True | Some s \<Rightarrow> s = [])"

text \<open>
  \<^verbatim>\<open>FileBitDecrypt\<close>: the return value and what was appended to the second file. As before, a size that does not
  fit the arithmetic of \<open>int\<close> is a fault.
\<close>

definition FileBitDecrypt :: "crypt_sys \<Rightarrow> byte list option \<Rightarrow> byte list option \<Rightarrow> (int \<times> byte list) outcome" where
  "FileBitDecrypt sys pSrcPath pDstPath =
     (if no_path pSrcPath \<or> no_path pDstPath then Ok (INFOR_RET_FAIL, [])
      else
        (case stat_size sys of
           None \<Rightarrow> Ok (INFOR_RET_FAIL, [])
         | Some iFileSize \<Rightarrow>
             if iFileSize \<le> 0 then Ok (INFOR_RET_FAIL, [])
             else if 2147483647 < iFileSize then Fault
             else if \<not> src_mem sys then Ok (INFOR_RET_FAIL, [])
             else
               (case ReadFile sys iFileSize of
                  None \<Rightarrow> Ok (INFOR_RET_FAIL, [])
                | Some pSrc \<Rightarrow>
                    if int (length pSrc) \<noteq> iFileSize then Ok (INFOR_RET_FAIL, [])
                    else if 2147483647 < 2 * length pSrc then Fault
                    else if \<not> dst_mem sys then Ok (INFOR_RET_FAIL, [])
                    else
                      bind_outcome (DecodeBase64 pSrc (2 * length pSrc) (length pSrc)) (\<lambda>pDst.
                      bind_outcome (WriteFile sys (BitDecode pDst)) (\<lambda>(iWriteLen, out).
                        Ok (if iWriteLen = int (length pDst) then INFOR_RET_SUCCESS else INFOR_RET_FAIL, out))))))"

text \<open>
  \<^verbatim>\<open>FileBitEncrypt\<close>. The buffer of the source has one byte more than the file. Its first five bytes are
  cleared, five being the size of an \<open>int\<close> plus one, and not the size of the file: smaller buffers are written beyond
  their end, and larger ones keep what was behind the file.
\<close>

definition FileBitEncrypt :: "crypt_sys \<Rightarrow> byte list option \<Rightarrow> byte list option \<Rightarrow> (int \<times> byte list) outcome" where
  "FileBitEncrypt sys src_file dst_file =
     (if no_path src_file \<or> no_path dst_file then Ok (INFOR_RET_FAIL, [])
      else
        (case stat_size sys of
           None \<Rightarrow> Ok (INFOR_RET_FAIL, [])
         | Some src_len \<Rightarrow>
             if src_len \<le> 0 then Ok (INFOR_RET_FAIL, [])
             else if 2147483647 < 2 * src_len then Fault
             else if \<not> src_mem sys then Ok (INFOR_RET_FAIL, [])
             else if src_len + 1 < 4 + 1 then Fault
             else
               (case ReadFile sys src_len of
                  None \<Rightarrow> Ok (INFOR_RET_FAIL, [])
                | Some src \<Rightarrow>
                    if int (length src) \<noteq> src_len then Ok (INFOR_RET_FAIL, [])
                    else if \<not> dst_mem sys then Ok (INFOR_RET_FAIL, [])
                    else
                      bind_outcome (BitEncode (src @ [if src_len < 4 + 1 then 0 else spare sys])) (\<lambda>psrc_buf.
                      bind_outcome (EncodeBase64 psrc_buf (2 * length src) (length src) MAX_LINE_LEN) (\<lambda>pdst_buf.
                      bind_outcome (WriteFile sys pdst_buf) (\<lambda>(write_len, out).
                        Ok (if write_len = int (length pdst_buf) then INFOR_RET_SUCCESS else INFOR_RET_FAIL, out)))))))"

section \<open>The text of a message\<close>

text \<open>The groups of a message with a line break after every nineteenth, and the bytes that are left over.\<close>

fun b64_items :: "nat \<Rightarrow> byte list \<Rightarrow> b64_item list" where
  "b64_items n (a # b # c # bs) =
     Quad a b c # (if n < 18 then b64_items (Suc n) bs else Break 13 # Break 10 # b64_items 0 bs)"
| "b64_items n bs = []"

definition b64_rest :: "byte list \<Rightarrow> byte list" where
  "b64_rest bs = drop (3 * (length bs div 3)) bs"

definition b64_encode :: "byte list \<Rightarrow> byte list" where
  "b64_encode bs = b64_text (b64_items 0 bs) (b64_rest bs)"

lemma or_plus: "b < 2 ^ n \<Longrightarrow> push_bit n a OR b = 2 ^ n * a + b" for a b :: nat
proof -
  assume "b < 2 ^ n"
  then have b: "take_bit n b = b" by (simp add: take_bit_nat_eq_self_iff)
  have "push_bit n a AND take_bit n b = 0" by (rule bit_eqI) (auto simp: bit_simps)
  then show ?thesis using b by (simp add: disjunctive_add_eq_or push_bit_eq_mult flip: disjunctive_add_eq_or)
qed

lemma low_bits: "n AND 0x3f = n mod 64" "n AND 0x03 = n mod 4" "n AND 0x0f = n mod 16"
    "drop_bit 2 (n AND 0xfc) = n div 4 mod 64" "drop_bit 4 (n AND 0xf0) = n div 16 mod 16" for n :: nat
proof -
  have m: "(0x3f :: nat) = mask 6" "(0x03 :: nat) = mask 2" "(0x0f :: nat) = mask 4"
      "(0xfc :: nat) = push_bit 2 (mask 6)" "(0xf0 :: nat) = push_bit 4 (mask 4)"
    by (simp_all add: mask_eq_exp_minus_1 push_bit_eq_mult)
  have d: "drop_bit k (n AND push_bit k (mask j)) = take_bit j (drop_bit k n)" for j k
    by (rule bit_eqI) (auto simp: bit_simps)
  show "n AND 0x3f = n mod 64" "n AND 0x03 = n mod 4" "n AND 0x0f = n mod 16"
      "drop_bit 2 (n AND 0xfc) = n div 4 mod 64" "drop_bit 4 (n AND 0xf0) = n div 16 mod 16"
    unfolding m d by (simp_all add: take_bit_eq_mod drop_bit_eq_div flip: take_bit_eq_mask)
qed

text \<open>The shifts and masks of the encoder are the sextets of the group.\<close>

lemma sextets_shifts:
  assumes "a < 256" "b < 256" "c < 256"
  shows "sextets a b c = map ((!) EnBase64Tab)
    [drop_bit 2 a, (push_bit 4 a OR drop_bit 4 b) AND 0x3f, (push_bit 2 b OR drop_bit 6 c) AND 0x3f, c AND 0x3f]"
proof -
  let ?n = "65536 * a + 256 * b + c"
  have "?n div 2 ^ 18 = a div 4" using assms by simp
  moreover have "?n div 2 ^ 12 mod 64 = (16 * a + b div 16) mod 64"
  proof -
    have "?n div 2 ^ 12 = 16 * a + b div 16" using assms by simp
    then show ?thesis by simp
  qed
  moreover have "?n div 64 mod 64 = (4 * b + c div 64) mod 64"
  proof -
    have "?n div 64 = 4 * b + c div 64 + 64 * (16 * a)" by simp
    then show ?thesis by (simp only: mod_mult_self2)
  qed
  moreover have "?n mod 64 = c mod 64"
  proof -
    have "?n = c + 64 * (1024 * a + 4 * b)" by simp
    then show ?thesis by (simp only: mod_mult_self2)
  qed
  moreover have "push_bit 4 a OR drop_bit 4 b = 16 * a + b div 16" "push_bit 2 b OR drop_bit 6 c = 4 * b + c div 64"
    using assms or_plus [of "b div 16" 4 a] or_plus [of "c div 64" 2 b] by (simp_all add: drop_bit_eq_div)
  ultimately show ?thesis unfolding sextets_def Let_def low_bits by (simp add: drop_bit_eq_div)
qed

lemma last_text_shifts:
  "last_text [c1] = [EnBase64Tab ! drop_bit 2 (unat c1 AND 0xfc), EnBase64Tab ! push_bit 4 (unat c1 AND 0x03), 61, 61]"
  "last_text [c1, c2] = [EnBase64Tab ! drop_bit 2 (unat c1 AND 0xfc),
     EnBase64Tab ! (push_bit 4 (unat c1 AND 0x03) OR drop_bit 4 (unat c2 AND 0xf0)), EnBase64Tab ! push_bit 2 (unat c2 AND 0x0f), 61]"
proof -
  note b = unat_byte [of c1] unat_byte [of c2]
  have o: "(push_bit 4 a OR drop_bit 4 d) AND 0x3f = push_bit 4 (a mod 4) OR d div 16" if "d < 256" for a d :: nat
  proof -
    have "d div 16 < 2 ^ 4" using that by simp
    then have "push_bit 4 a OR d div 16 = 16 * a + d div 16" "push_bit 4 (a mod 4) OR d div 16 = 16 * (a mod 4) + d div 16"
      by (simp_all only: or_plus) simp_all
    moreover have "(16 * a + d div 16) mod 64 = 16 * (a mod 4) + d div 16"
    proof -
      have "16 * a + d div 16 = (16 * (a mod 4) + d div 16) + 64 * (a div 4)"
        using div_mult_mod_eq [of a 4] by linarith
      moreover have "16 * (a mod 4) + d div 16 < 64" using that by linarith
      ultimately show ?thesis by (simp only: mod_mult_self2 mod_less)
    qed
    ultimately show ?thesis by (simp only: low_bits drop_bit_eq_div) simp
  qed
  have d: "drop_bit 2 (unat c1 AND 0xfc) = drop_bit 2 (unat c1)" "drop_bit 4 (unat c2 AND 0xf0) = unat c2 div 16"
    using b unfolding low_bits by (simp_all add: drop_bit_eq_div)
  have e: "(push_bit 2 (unat c2) OR drop_bit 6 0) AND 0x3f = push_bit 2 (unat c2 AND 0x0f)"
    by (simp add: low_bits push_bit_eq_mult mult_mod_left)
  have zero: "0 < (256 :: nat)" by simp
  show "last_text [c1] = [EnBase64Tab ! drop_bit 2 (unat c1 AND 0xfc), EnBase64Tab ! push_bit 4 (unat c1 AND 0x03), 61, 61]"
    unfolding last_text.simps sextets_shifts [OF b(1) zero zero] d low_bits(2) using o [of 0 "unat c1"] by simp
  show "last_text [c1, c2] = [EnBase64Tab ! drop_bit 2 (unat c1 AND 0xfc),
     EnBase64Tab ! (push_bit 4 (unat c1 AND 0x03) OR drop_bit 4 (unat c2 AND 0xf0)), EnBase64Tab ! push_bit 2 (unat c2 AND 0x0f), 61]"
    unfolding last_text.simps sextets_shifts [OF b zero] d low_bits(2) o [OF b(2)] e by (simp add: low_bits(3) numeral_3_eq_3)
qed

section \<open>Encoding a message\<close>

lemma three [simp]: "(3 + n) div 3 = Suc (n div 3)"
  using div_add_self1 [of 3 n] by simp

lemma b64_rest_Cons: "b64_rest (a # b # c # bs) = b64_rest bs"
proof -
  have "drop 3 (a # b # c # bs) = bs" by (simp add: numeral_3_eq_3)
  then have "drop (3 * (length bs div 3) + 3) (a # b # c # bs) = drop (3 * (length bs div 3)) bs"
    by (simp only: drop_drop [symmetric])
  moreover have "3 * (length (a # b # c # bs) div 3) = 3 * (length bs div 3) + 3" by simp
  ultimately show ?thesis by (simp only: b64_rest_def)
qed

lemma put_Ok: "length out + length xs \<le> cap \<Longrightarrow> put cap out xs = Ok (out @ xs)"
  by (simp add: put_def)

text \<open>The loop writes the text of the groups of the message and stops at the bytes left over.\<close>

lemma encode_loop_items:
  assumes "n \<le> 18" "length out + length (concat (map item_text (b64_items n bs))) \<le> cap"
  shows "encode_loop (length bs div 3) (bs @ t) cap MAX_LINE_LEN (4 * int n) out =
    Ok (b64_rest bs @ t, out @ concat (map item_text (b64_items n bs)))"
  using assms
proof (induction n bs arbitrary: out rule: b64_items.induct)
  case (1 n a b c bs)
  let ?q = "sextets (unat a) (unat b) (unat c)"
  have p: "put cap out ?q = Ok (out @ ?q)" using "1.prems" by (simp add: put_Ok)
  have i: "4 * int (Suc n) = 4 * int n + 4" by simp
  have step: "encode_loop (length (a # b # c # bs) div 3) ((a # b # c # bs) @ t) cap MAX_LINE_LEN (4 * int n) out =
     (if n < 18 then encode_loop (length bs div 3) (bs @ t) cap MAX_LINE_LEN (4 * int (Suc n)) (out @ ?q)
      else bind_outcome (put cap (out @ ?q) [13, 10]) (\<lambda>out2. encode_loop (length bs div 3) (bs @ t) cap MAX_LINE_LEN 0 out2))"
    using p i by (simp add: sextets_shifts [OF unat_byte unat_byte unat_byte] del: of_nat_Suc)
  show ?case
  proof (cases "n < 18")
    case True
    with "1.IH"(1) [of "out @ ?q"] "1.prems" show ?thesis unfolding step b64_rest_Cons by simp
  next
    case False
    with "1.IH"(2) [of "out @ ?q @ [13, 10]"] "1.prems" show ?thesis unfolding step b64_rest_Cons by (simp add: put_Ok)
  qed
qed (simp_all add: b64_rest_def)

lemma length_rest: "length (b64_rest bs) = length bs mod 3"
  by (simp add: b64_rest_def minus_mult_div_eq_mod)

lemma encode_message:
  assumes "length (b64_encode bs) < cap"
  shows "EncodeBase64 (bs @ t) cap (length bs) MAX_LINE_LEN = Ok (b64_encode bs)"
proof -
  let ?c = "concat (map item_text (b64_items 0 bs))"
  have loop: "encode_loop (length bs div 3) (bs @ t) cap MAX_LINE_LEN 0 [] = Ok (b64_rest bs @ t, ?c)"
    using encode_loop_items [of 0 "[]" bs cap t] assms by (simp add: b64_encode_def b64_text_def)
  consider "b64_rest bs = []" "length bs mod 3 = 0" | a where "b64_rest bs = [a]" "length bs mod 3 = 1"
    | a b where "b64_rest bs = [a, b]" "length bs mod 3 = 2"
    using length_rest [of bs] mod_less_divisor [of 3 "length bs"]
    by (cases "b64_rest bs"; cases "tl (b64_rest bs)"; cases "tl (tl (b64_rest bs))") auto
  then show ?thesis
  proof cases
    case 1
    then show ?thesis using loop assms by (simp add: EncodeBase64_def b64_encode_def b64_text_def)
  next
    case (2 a)
    then show ?thesis using loop assms
      by (simp add: EncodeBase64_def b64_encode_def b64_text_def rd_byte_def put_Ok del: last_text.simps add: last_text_shifts)
  next
    case (3 a b)
    then show ?thesis using loop assms
      by (simp add: EncodeBase64_def b64_encode_def b64_text_def rd_byte_def put_Ok del: last_text.simps add: last_text_shifts)
  qed
qed

lemma items_of_message: "list_all item_ok (b64_items n bs)" "b64_bytes (b64_items n bs) (b64_rest bs) = bs"
proof -
  show "list_all item_ok (b64_items n bs)" by (induction n bs rule: b64_items.induct) auto
  show "b64_bytes (b64_items n bs) (b64_rest bs) = bs"
    by (induction n bs rule: b64_items.induct) (simp_all add: b64_bytes_def b64_rest_Cons, simp_all add: b64_rest_def)
qed

text \<open>The length of the text: four characters for a group, two for a line break.\<close>

lemma length_items: "n \<le> 18 \<Longrightarrow>
  length (concat (map item_text (b64_items n bs))) = 4 * (length bs div 3) + 2 * ((length bs div 3 + n) div 19)"
proof (induction n bs rule: b64_items.induct)
  case (1 n a b c bs)
  show ?case
  proof (cases "n < 18")
    case True
    with "1.IH"(1) show ?thesis by simp
  next
    case False
    then have "(Suc (length bs div 3) + n) div 19 = length bs div 3 div 19 + 1" using "1.prems" by simp
    with False "1.IH"(2) show ?thesis by simp
  qed
qed simp_all

lemma length_last: "length bs \<le> 2 \<Longrightarrow> length (last_text bs) = (if bs = [] then 0 else 4)"
  by (cases bs rule: last_text.cases) auto

lemma length_encode: "length (b64_encode bs) =
  4 * (length bs div 3) + 2 * (length bs div 3 div 19) + (if length bs mod 3 = 0 then 0 else 4)"
proof -
  have "length (b64_rest bs) \<le> 2" using length_rest [of bs] mod_less_divisor [of 3 "length bs"] by linarith
  moreover have "b64_rest bs = [] \<longleftrightarrow> length bs mod 3 = 0" using length_rest [of bs] by (metis length_0_conv)
  ultimately show ?thesis by (simp add: b64_encode_def b64_text_def length_items length_last)
qed

lemma encode_fits: "5 \<le> length bs \<or> length bs = 3 \<Longrightarrow> length (b64_encode bs) < 2 * length bs"
proof -
  assume n: "5 \<le> length bs \<or> length bs = 3"
  define q r where "q = length bs div 3" and "r = length bs mod 3"
  have l: "length bs = 3 * q + r" and r: "r < 3" by (simp_all add: q_def r_def)
  have "4 * q + 2 * (q div 19) + (if r = 0 then 0 else 4) < 2 * (3 * q + r)"
    using n r unfolding l by (cases "r = 0"; cases "r = 1") (auto, presburger)
  then show ?thesis unfolding length_encode q_def [symmetric] r_def [symmetric] by (simp only: l)
qed

lemma encode_nonempty: "bs \<noteq> [] \<Longrightarrow> b64_encode bs \<noteq> []"
  unfolding length_0_conv [symmetric] length_encode by (auto dest: dvd_imp_le simp: div_greater_zero_iff)

lemma decode_encode:
  assumes "bs \<noteq> []"
  shows "DecodeBase64 (b64_encode bs) (2 * length (b64_encode bs)) (length (b64_encode bs)) = Ok bs"
proof -
  show ?thesis
    using encode_nonempty [OF assms] decode_text [OF items_of_message(1), of "b64_rest bs" 0 bs "[]"] length_rest [of bs] mod_less_divisor [of 3 "length bs"]
    by (simp add: items_of_message(2) b64_encode_def)
qed

text \<open>Encoding and decoding. The encoder writes lines of 76 characters and the padded rest, inside a buffer
  of any larger size, and the decoder gives the message back.\<close>

theorem encode_decode:
  assumes "bs \<noteq> []" and "length (b64_encode bs) < cap"
  shows "\<exists>text. EncodeBase64 (bs @ t) cap (length bs) MAX_LINE_LEN = Ok text \<and>
    DecodeBase64 text (2 * length text) (length text) = Ok bs \<and> length text < cap"
  using encode_message [OF assms(2)] decode_encode [OF assms(1)] assms(2) by blast

section \<open>Encrypting and decrypting files\<close>

text \<open>The system serves a file with some content, and takes everything that is written.\<close>

definition serves :: "crypt_sys \<Rightarrow> byte list \<Rightarrow> bool" where
  "serves sys content \<longleftrightarrow> stat_size sys = Some (int (length content)) \<and> read_ret sys = Some content \<and>
     0 \<le> read_fd sys \<and> 0 \<le> write_fd sys \<and> src_mem sys \<and> dst_mem sys"

definition text_part :: "byte list \<Rightarrow> byte list" where
  "text_part s = takeWhile (\<lambda>c. c \<noteq> 0) s"

text \<open>The encrypted message: the characters before the first NUL with their keys, the rest as it is.\<close>

definition half_encrypted :: "byte list \<Rightarrow> byte list" where
  "half_encrypted s = encrypted (text_part s) @ dropWhile (\<lambda>c. c \<noteq> 0) s"

lemma length_encrypted [simp]: "length (encrypted s) = length s"
  by (simp add: encrypted_def)

lemma length_half [simp]: "length (half_encrypted s) = length s"
proof -
  have "length (takeWhile (\<lambda>c. c \<noteq> 0) s) + length (dropWhile (\<lambda>c. c \<noteq> 0) s) = length s"
    by (simp flip: length_append)
  then show ?thesis by (simp add: half_encrypted_def text_part_def)
qed

lemma BitEncode_file: "z = 0 \<or> 0 \<in> set s \<Longrightarrow> BitEncode (s @ [z]) = Ok (half_encrypted s @ [z])"
proof (cases "0 \<in> set s")
  case True
  then have t: "takeWhile (\<lambda>c. c \<noteq> 0) (s @ [z]) = text_part s" unfolding text_part_def by (intro takeWhile_append1) auto
  have d: "drop (length (text_part s)) (s @ [z]) = dropWhile (\<lambda>c. c \<noteq> 0) s @ [z]"
    unfolding text_part_def dropWhile_eq_drop using length_takeWhile_le [of "\<lambda>c. c \<noteq> 0" s] by simp
  have "length (text_part s) \<noteq> length (s @ [z])"
    unfolding text_part_def using length_takeWhile_le [of "\<lambda>c. c \<noteq> 0" s] by simp
  then show ?thesis unfolding BitEncode_def Let_def t d by (simp add: half_encrypted_def encrypted_def)
next
  case False
  assume "z = 0 \<or> 0 \<in> set s"
  with False have z: "z = 0" by simp
  have "takeWhile (\<lambda>c. c \<noteq> 0) (s @ [0]) = s" using False by (subst takeWhile_append2) auto
  moreover have "text_part s = s" "dropWhile (\<lambda>c. c \<noteq> 0) s = []"
    using False by (auto simp: text_part_def takeWhile_eq_all_conv)
  ultimately show ?thesis by (simp add: BitEncode_def half_encrypted_def encrypted_def z)
qed

text \<open>A buffer that was read in full and has no NUL behind the file is read beyond its end.\<close>

lemma BitEncode_unterminated: "0 \<notin> set s \<Longrightarrow> b \<noteq> 0 \<Longrightarrow> BitEncode (s @ [b]) = Fault"
proof -
  assume "0 \<notin> set s" "b \<noteq> 0"
  then have "takeWhile (\<lambda>c. c \<noteq> 0) (s @ [b]) = s @ [b]" by (auto simp: takeWhile_eq_all_conv)
  then show ?thesis by (simp add: BitEncode_def)
qed

text \<open>Decrypting gives the message back exactly if no character of its text is its own key.\<close>

lemma BitDecode_at_key:
  assumes "0 \<in> set b"
  shows "BitDecode b ! length (takeWhile (\<lambda>c. c \<noteq> 0) b) = 0" "length (takeWhile (\<lambda>c. c \<noteq> 0) b) < length b"
proof -
  have "takeWhile (\<lambda>c. c \<noteq> 0) b \<noteq> b" using assms by (auto simp: takeWhile_eq_all_conv)
  then show k: "length (takeWhile (\<lambda>c. c \<noteq> 0) b) < length b"
    by (metis length_takeWhile_le order_le_imp_less_or_eq takeWhile_eq_take take_all_iff)
  show "BitDecode b ! length (takeWhile (\<lambda>c. c \<noteq> 0) b) = 0"
    using nth_length_takeWhile [OF k] k by (simp add: BitDecode_def Let_def nth_append)
qed

lemma BitDecode_half: "BitDecode (half_encrypted s) = s \<longleftrightarrow> key_free (text_part s)"
proof
  let ?rest = "dropWhile (\<lambda>c. c \<noteq> 0) s"
  have s: "text_part s @ ?rest = s" by (simp add: text_part_def)
  assume free: "key_free (text_part s)"
  have "takeWhile (\<lambda>c. c \<noteq> 0) ?rest = []" by (induction s) auto
  then have t: "takeWhile (\<lambda>c. c \<noteq> 0) (encrypted (text_part s) @ ?rest) = encrypted (text_part s)"
    using free by (subst takeWhile_append2) (auto simp: key_free_def)
  show "BitDecode (half_encrypted s) = s"
    by (simp add: BitDecode_def half_encrypted_def t) (simp add: encrypted_cut cut_string_involution s)
next
  let ?u = "takeWhile (\<lambda>c. c \<noteq> 0) (encrypted (text_part s))"
  assume eq: "BitDecode (half_encrypted s) = s"
  show "key_free (text_part s)"
  proof (rule ccontr)
    assume "\<not> key_free (text_part s)"
    then have z: "0 \<in> set (encrypted (text_part s))" by (simp add: key_free_def)
    have u: "takeWhile (\<lambda>c. c \<noteq> 0) (half_encrypted s) = ?u"
      unfolding half_encrypted_def using z by (intro takeWhile_append1) auto
    have k: "length ?u < length (text_part s)" using BitDecode_at_key(2) [OF z] by simp
    have "s ! length ?u = 0" using BitDecode_at_key(1) [of "half_encrypted s"] z eq unfolding u by (simp add: half_encrypted_def)
    moreover have "s ! length ?u = text_part s ! length ?u" using k unfolding text_part_def by (rule takeWhile_nth [symmetric])
    moreover have "text_part s ! length ?u \<noteq> 0" using nth_mem [OF k] unfolding text_part_def by (auto dest: set_takeWhileD)
    ultimately show False by simp
  qed
qed

lemma length_BitDecode: "length (BitDecode b) = length b"
  using length_takeWhile_le [of "\<lambda>c. c \<noteq> 0" b] by (simp add: BitDecode_def Let_def)

lemma write_everything: "serves sys c \<Longrightarrow> writes_all (length bs) (writes sys) \<Longrightarrow> WriteFile sys bs = Ok (int (length bs), bs)"
  by (simp add: WriteFile_def serves_def write_loop_all)

lemma encrypt_file:
  assumes "serves sys plain" "\<not> no_path p" "\<not> no_path q" "5 \<le> length plain" "length plain < 2 ^ 30" "spare sys = 0 \<or> 0 \<in> set plain"
    and "writes_all (length (b64_encode (half_encrypted plain))) (writes sys)"
  shows "FileBitEncrypt sys p q = Ok (INFOR_RET_SUCCESS, b64_encode (half_encrypted plain))"
proof -
  have "plain \<noteq> []" using assms(4) by auto
  moreover have "ReadFile sys (int (length plain)) = Some plain" using assms(1) by (simp add: ReadFile_def serves_def)
  moreover have "EncodeBase64 (half_encrypted plain @ [spare sys]) (2 * length plain) (length plain) MAX_LINE_LEN = Ok (b64_encode (half_encrypted plain))"
    using encode_message [of "half_encrypted plain" "2 * length plain" "[spare sys]"] encode_fits [of "half_encrypted plain"] assms(4) by simp
  moreover note write_everything [OF assms(1,7)]
  ultimately show ?thesis using assms(1-5) BitEncode_file [OF assms(6)] by (simp add: FileBitEncrypt_def serves_def)
qed

lemma decrypt_file:
  assumes "serves sys (b64_encode (half_encrypted plain))" "\<not> no_path p" "\<not> no_path q" "plain \<noteq> []"
    and "length (b64_encode (half_encrypted plain)) < 2 ^ 30" "writes_all (length plain) (writes sys)"
  shows "FileBitDecrypt sys p q = Ok (INFOR_RET_SUCCESS, BitDecode (half_encrypted plain))"
proof -
  let ?t = "b64_encode (half_encrypted plain)"
  have h: "half_encrypted plain \<noteq> []" using length_half [of plain] assms(4) by (metis length_0_conv)
  have "0 < length ?t" using encode_nonempty [OF h] by simp
  moreover have "ReadFile sys (int (length ?t)) = Some ?t" using assms(1) by (simp add: ReadFile_def serves_def)
  moreover have l: "length (BitDecode (half_encrypted plain)) = length plain"
    by (simp add: length_BitDecode)
  moreover have "WriteFile sys (BitDecode (half_encrypted plain)) = Ok (int (length plain), BitDecode (half_encrypted plain))"
    using write_everything [OF assms(1), of "BitDecode (half_encrypted plain)"] assms(6) by (simp add: l)
  ultimately show ?thesis using assms(1-3,5) decode_encode [OF h] by (simp add: FileBitDecrypt_def serves_def)
qed

text \<open>A file of at most four bytes is written beyond the buffers: clearing the source buffer, or storing the text and its
  NUL in twice the size of the file.\<close>

theorem tiny_file_overflows:
  assumes "serves sys plain" and "plain \<noteq> []" and "length plain \<le> 4" and "\<not> no_path p" and "\<not> no_path q"
  shows "FileBitEncrypt sys p q = Fault"
proof (cases "length plain = 4")
  case True
  have "\<exists>a b c d. h = [a, b, c, d]" if "length h = 4" for h :: "byte list"
    using that by (auto simp: length_Suc_conv eval_nat_numeral)
  with True obtain a b c d where h: "half_encrypted plain = [a, b, c, d]" using length_half [of plain] by metis
  have "EncodeBase64 (half_encrypted plain @ [0]) 8 4 MAX_LINE_LEN = Fault"
    by (simp add: h EncodeBase64_def put_def rd_byte_def)
  then show ?thesis using assms True
    by (simp add: FileBitEncrypt_def serves_def ReadFile_def BitEncode_file)
next
  case False
  then show ?thesis using assms by (simp add: FileBitEncrypt_def serves_def)
qed

text \<open>Without a NUL in the file and behind it, the text is read beyond the buffer.\<close>

lemma unterminated_file_overflows:
  assumes "serves sys plain" "5 \<le> length plain" "length plain < 2 ^ 30" "\<not> no_path p" "\<not> no_path q" "spare sys \<noteq> 0" "0 \<notin> set plain"
  shows "FileBitEncrypt sys p q = Fault"
proof -
  have "plain \<noteq> []" using assms(2) by auto
  moreover have "ReadFile sys (int (length plain)) = Some plain" using assms(1) by (simp add: ReadFile_def serves_def)
  moreover note BitEncode_unterminated [OF assms(7, 6)]
  ultimately show ?thesis using assms(1-5) by (simp add: FileBitEncrypt_def serves_def)
qed

text \<open>C11: What becomes of a file that is encrypted and decrypted again, for every file of 1 to \<open>2 ^ 28\<close> bytes and whatever byte is behind the
  file in the buffer, which is not initialised. If the file has at least five bytes, and has a NUL in it or happens to have one behind it,
  then \<^verbatim>\<open>FileBitEncrypt\<close> succeeds and appends a text; a file with that text is decrypted by \<^verbatim>\<open>FileBitDecrypt\<close>
  with success, into a file of the same length; and that file is the first one if and only if no character of the first
  one, up to its first NUL, is its own key. In every other case \<^verbatim>\<open>FileBitEncrypt\<close> leaves its buffers. The writes may be of any sizes and
  interrupted.\<close>

theorem encrypt_decrypt_file:
  assumes "serves sys1 plain" and "plain \<noteq> []" and "length plain \<le> 2 ^ 28"
    and "\<not> no_path p" and "\<not> no_path q" and "writes_all (length cipher) (writes sys1)"
    and "cipher = b64_encode (half_encrypted plain)"
    and "serves sys2 cipher" and "writes_all (length plain) (writes sys2)"
  shows "if 5 \<le> length plain \<and> (spare sys1 = 0 \<or> 0 \<in> set plain)
    then \<exists>again. FileBitEncrypt sys1 p q = Ok (INFOR_RET_SUCCESS, cipher) \<and>
      FileBitDecrypt sys2 q p = Ok (INFOR_RET_SUCCESS, again) \<and> length again = length plain \<and>
      (again = plain \<longleftrightarrow> key_free (text_part plain))
    else FileBitEncrypt sys1 p q = Fault"
proof (cases "5 \<le> length plain \<and> (spare sys1 = 0 \<or> 0 \<in> set plain)")
  case True
  have "length cipher < 2 * length plain" using encode_fits [of "half_encrypted plain"] True assms(7) by simp
  then have small: "length cipher < 2 ^ 30" using assms(3) by simp
  have "FileBitDecrypt sys2 q p = Ok (INFOR_RET_SUCCESS, BitDecode (half_encrypted plain))"
    using decrypt_file [of sys2 plain q p] assms(2,4,5,7-9) small by simp
  moreover have "FileBitEncrypt sys1 p q = Ok (INFOR_RET_SUCCESS, cipher)"
    using encrypt_file [of sys1 plain p q] assms True by simp
  moreover have "length (BitDecode (half_encrypted plain)) = length plain"
    by (simp add: length_BitDecode)
  ultimately show ?thesis using True BitDecode_half [of plain] by auto
next
  case False
  then consider "length plain \<le> 4" | "5 \<le> length plain" "spare sys1 \<noteq> 0" "0 \<notin> set plain" by linarith
  then have "FileBitEncrypt sys1 p q = Fault"
  proof cases
    case 1
    then show ?thesis using tiny_file_overflows assms(1,2,4,5) by blast
  next
    case 2
    then show ?thesis using unterminated_file_overflows [of sys1 plain p q] assms(1,3-5) by simp
  qed
  with False show ?thesis by simp
qed

definition sample_plain :: "byte list" where
  "sample_plain = [72, 101, 108, 108, 111]"

definition sample_disk :: "byte list \<Rightarrow> (int \<times> bool) list \<Rightarrow> crypt_sys" where
  "sample_disk content ws = \<lparr>stat_size = Some (int (length content)), src_mem = True, dst_mem = True, read_fd = 3,
     read_ret = Some content, spare = 0, write_fd = 4, writes = ws\<rparr>"

theorem encrypt_decrypt_file_witness:
  "\<exists>again. FileBitEncrypt (sample_disk sample_plain [(8, False)]) (Some [97]) (Some [98]) = Ok (INFOR_RET_SUCCESS, b64_encode (half_encrypted sample_plain)) \<and>
    FileBitDecrypt (sample_disk (b64_encode (half_encrypted sample_plain)) [(2, False), (-1, True), (3, False)]) (Some [98]) (Some [97]) =
      Ok (INFOR_RET_SUCCESS, again) \<and> length again = 5 \<and> again = sample_plain \<and>
    FileBitEncrypt ((sample_disk sample_plain [(8, False)])\<lparr>spare := 7\<rparr>) (Some [97]) (Some [98]) = Fault"
proof -
  have l: "length (b64_encode (half_encrypted sample_plain)) = 8" by (simp add: length_encode sample_plain_def)
  have f: "key_free (text_part sample_plain)"
    by (simp add: key_free_def text_part_def sample_plain_def encrypted_def MakecodeChar_def bitKey_def upt_rec)
  have p: "length sample_plain = 5" by (simp add: sample_plain_def)
  have w: "writes_all 8 [(8, False)]" "writes_all 5 [(2, False), (-1, True), (3, False)]" by (simp_all add: eval_nat_numeral)
  have n: "sample_plain \<noteq> []" "0 \<notin> set sample_plain" by (simp_all add: sample_plain_def)
  let ?d = "sample_disk (b64_encode (half_encrypted sample_plain)) [(2, False), (-1, True), (3, False)]"
  show ?thesis
    using encrypt_decrypt_file [of "sample_disk sample_plain [(8, False)]" sample_plain "Some [97]" "Some [98]" "b64_encode (half_encrypted sample_plain)" ?d]
      encrypt_decrypt_file [of "(sample_disk sample_plain [(8, False)])\<lparr>spare := 7\<rparr>" sample_plain "Some [97]" "Some [98]" "b64_encode (half_encrypted sample_plain)" ?d]
      l f p w n
    by (simp add: serves_def sample_disk_def no_path_def)
qed

theorem tiny_file_overflows_witness: "FileBitEncrypt (sample_disk [65] []) (Some [97]) (Some [98]) = Fault"
  using tiny_file_overflows [of "sample_disk [65] []" "[65]" "Some [97]" "Some [98]"]
  by (simp add: serves_def sample_disk_def no_path_def)

end
