(* ===== verification/Ip_Text.thy ===== *)
theory Ip_Text
  imports Prelude
begin

text \<open>
  Checking the text of an address (base/test_isIp.c and base/test_isValidIpV4.c). A text is the list of its characters
  before the terminating NUL. The first check walks over the characters, the others scan the four numbers.
\<close>

section \<open>Scanning numbers\<close>

text \<open>
  \<^verbatim>\<open>sscanf\<close> with the format \<^verbatim>\<open>%d.%d.%d.%d\<close> into four variables that hold zero: a number may have white space and
  a sign before it and needs a digit; where the text does not match, the variables from there on keep their zero.
\<close>

definition scan_d :: "int list \<Rightarrow> (int \<times> int list) option" where
  "scan_d str =
     (let s = dropWhile isspace str;
          ds = (if c_at s 0 = 45 \<or> c_at s 0 = 43 then drop 1 s else s)
      in if isdigit (c_at ds 0) then Some (atoi s, dropWhile isdigit ds) else None)"

fun scan_parts :: "nat \<Rightarrow> int list \<Rightarrow> int list" where
  "scan_parts 0 s = []"
| "scan_parts (Suc k) s =
     (case scan_d s of
        None \<Rightarrow> replicate (Suc k) 0
      | Some (v, r) \<Rightarrow> v # (if c_at r 0 = 46 then scan_parts k (drop 1 r) else replicate k 0))"

section \<open>The checks\<close>

text \<open>
  The loop of \<^verbatim>\<open>isIP\<close> over the characters of the string from index \<open>i\<close> on: the values of \<open>i\<close>, \<open>j\<close> and \<open>nDot\<close> when it ends,
  at the end of the string or at a break.
\<close>

fun isip_loop :: "int list \<Rightarrow> int list \<Rightarrow> nat \<Rightarrow> nat \<Rightarrow> bool \<Rightarrow> nat \<Rightarrow> nat \<times> nat \<times> nat" where
  "isip_loop pAddr [] i j bDot nDot = (i, j, nDot)"
| "isip_loop pAddr (c # cs) i j bDot nDot =
     (if c = 46 then
        if bDot then (i, j, nDot)
        else if atoi (drop j pAddr) > 255 then (i, j, nDot)
        else isip_loop pAddr cs (i + 1) (i + 1) True (nDot + 1)
      else if c < 48 \<or> c > 57 then (i, j, nDot)
      else if i - j > 2 then (i, j, nDot)
      else isip_loop pAddr cs (i + 1) j False nDot)"

definition isIP :: "int list option \<Rightarrow> bool" where
  "isIP p =
     (case p of
        None \<Rightarrow> False
      | Some pAddr \<Rightarrow>
          (let len = length pAddr in
           if 7 \<le> len \<and> len \<le> 15 then
             (let (i, j, nDot) = isip_loop pAddr pAddr 0 0 True 0
              in i = len \<and> nDot = 3 \<and> atoi (drop j pAddr) \<le> 255)
           else False))"

definition IsIp :: "int list option \<Rightarrow> int" where
  "IsIp p =
     (case p of
        None \<Rightarrow> -1
      | Some pIpAddr \<Rightarrow>
          if pIpAddr = [] then -1
          else if \<not> isIP p then -1
          else
            (let v = scan_parts 4 pIpAddr; iPart0 = v ! 0; iPart1 = v ! 1; iPart2 = v ! 2; iPart3 = v ! 3
             in if iPart0 = 127 \<and> iPart1 = 0 \<and> iPart2 = 0 \<and> iPart3 = 1 then -1
                else if iPart0 = 0 \<and> 0 \<le> iPart1 \<and> iPart1 \<le> 255 \<and> 0 \<le> iPart2 \<and> iPart2 \<le> 255 \<and>
                  0 \<le> iPart3 \<and> iPart3 \<le> 255 then -1
                else if 224 \<le> iPart0 \<and> iPart0 \<le> 255 \<and> 0 \<le> iPart1 \<and> iPart1 \<le> 255 \<and> 0 \<le> iPart2 \<and>
                  iPart2 \<le> 255 \<and> 0 \<le> iPart3 \<and> iPart3 \<le> 255 then -1
                else 0))"

text \<open>\<^verbatim>\<open>IsVaildIpv4Addr\<close>: the classes of addresses, each with its own host part.\<close>

definition IsVaildIpv4Addr :: "int list option \<Rightarrow> int" where
  "IsVaildIpv4Addr p =
     (case p of
        None \<Rightarrow> -1
      | Some pIpv4Addr \<Rightarrow>
          (let v = scan_parts 4 pIpv4Addr; nIpPartOne = v ! 0; nIpPartTwo = v ! 1; nIpPartThree = v ! 2; nIpPartFour = v ! 3;
               inRange = (0 \<le> nIpPartTwo \<and> nIpPartTwo \<le> 255 \<and> 0 \<le> nIpPartThree \<and> nIpPartThree \<le> 255 \<and>
                 0 \<le> nIpPartFour \<and> nIpPartFour \<le> 255)
           in if 1 \<le> nIpPartOne \<and> nIpPartOne < 127 then
                if inRange then
                  (let bAllZero = (nIpPartTwo = 0 \<and> nIpPartThree = 0 \<and> nIpPartFour = 0);
                       bAllOne = (nIpPartTwo = 255 \<and> nIpPartThree = 255 \<and> nIpPartFour = 255)
                   in if \<not> (bAllZero \<or> bAllOne) then 0 else -1)
                else -1
              else if nIpPartOne = 127 then
                if nIpPartTwo = 0 \<and> nIpPartThree = 0 \<and> nIpPartFour = 1 then 0 else -1
              else if 128 \<le> nIpPartOne \<and> nIpPartOne \<le> 191 then
                if inRange then
                  (let bAllZero = (nIpPartThree = 0 \<and> nIpPartFour = 0);
                       bAllOne = (nIpPartThree = 255 \<and> nIpPartFour = 255)
                   in if \<not> (bAllZero \<or> bAllOne) then 0 else -1)
                else -1
              else if 192 \<le> nIpPartOne \<and> nIpPartOne \<le> 223 then
                (let bAllZero = (nIpPartFour = 0); bAllOne = (nIpPartFour = 255)
                 in if \<not> (bAllZero \<or> bAllOne) then 0 else -1)
              else -1))"

section \<open>Numbers in texts\<close>

lemma dec_val_bounds: "list_all isdigit xs \<Longrightarrow> 0 \<le> v \<Longrightarrow> 0 \<le> dec_val v xs \<and> dec_val v xs < (v + 1) * 10 ^ length xs"
proof (induction xs arbitrary: v)
  case (Cons x xs)
  then have d: "isdigit x" "0 \<le> x - 48" "x - 48 \<le> 9" by (auto simp: ctype_simps)
  let ?w = "10 * v + (x - 48)"
  have "(?w + 1) * 10 ^ length xs \<le> (v + 1) * 10 ^ length (x # xs)" using d by simp
  moreover have "0 \<le> dec_val ?w xs \<and> dec_val ?w xs < (?w + 1) * 10 ^ length xs"
    using Cons.IH [of ?w] Cons.prems d(2) by simp
  ultimately show ?case using d by (simp only: dec_val.simps if_True simp_thms) linarith
qed simp

text \<open>A text without a digit at its front ends the number before it.\<close>

definition ends_number :: "int list \<Rightarrow> bool" where
  "ends_number r \<longleftrightarrow> \<not> isdigit (c_at r 0)"

lemma ends_number_simps [simp]: "ends_number []" "ends_number (c # r) \<longleftrightarrow> \<not> isdigit c"
  by (simp_all add: ends_number_def c_at_def isdigit_def)

lemma dec_val_stops: "ends_number r \<Longrightarrow> dec_val v r = v"
  by (cases r) simp_all

lemma atoi_digits:
  assumes "list_all isdigit p" "length p \<le> 9" "ends_number r" "p = [] \<longrightarrow> r = []"
  shows "atoi (p @ r) = dec_val 0 p"
proof -
  have "dropWhile isspace (p @ r) = p @ r" "c_at (p @ r) 0 \<noteq> 45" "c_at (p @ r) 0 \<noteq> 43"
    using assms by (cases p; auto simp: ctype_simps c_at_def)+
  moreover have "dec_val 0 (p @ r) = dec_val 0 p" using assms by (simp add: dec_val_append dec_val_stops)
  moreover have "10 ^ length p \<le> (10 ^ 9 :: int)" using assms(2) by (intro power_increasing) auto
  then have "0 \<le> dec_val 0 p" "dec_val 0 p < 10 ^ 9" using dec_val_bounds [OF assms(1), of 0] by auto
  then have "to_s32 (max (- (2 ^ 63)) (min (2 ^ 63 - 1) (dec_val 0 p))) = dec_val 0 p" by (simp add: to_s32_id)
  ultimately show ?thesis by (simp add: atoi_def Let_def)
qed

lemma scan_d_digits:
  assumes "list_all isdigit p" "length p \<le> 9" "p \<noteq> []" "ends_number r"
  shows "scan_d (p @ r) = Some (dec_val 0 p, r)"
proof -
  obtain d ds where p: "p = d # ds" "isdigit d" using assms(1,3) by (cases p) auto
  have "dropWhile isspace (p @ r) = p @ r" "c_at (p @ r) 0 = d" using p by (auto simp: ctype_simps c_at_def)
  moreover have "dropWhile isdigit (p @ r) = r"
    using assms(1,4) by (subst dropWhile_append2) (auto simp: list_all_iff ends_number_def c_at_def dropWhile_eq_self_iff hd_conv_nth)
  moreover have "d \<noteq> 45" "d \<noteq> 43" using p(2) by (auto simp: ctype_simps)
  ultimately show ?thesis using atoi_digits [OF assms(1,2,4)] p assms(3) by (simp add: scan_d_def Let_def)
qed

section \<open>The texts \<open>isIP\<close> accepts\<close>

text \<open>One part of an address: one to three digits with a value of at most 255.\<close>

definition ip_part :: "int list \<Rightarrow> bool" where
  "ip_part p \<longleftrightarrow> p \<noteq> [] \<and> length p \<le> 3 \<and> list_all isdigit p \<and> dec_val 0 p \<le> 255"

text \<open>What may follow when \<open>k\<close> dots are still to come; the last part may be empty.\<close>

primrec accepts :: "nat \<Rightarrow> int list \<Rightarrow> bool" where
  "accepts 0 xs \<longleftrightarrow> xs = [] \<or> ip_part xs"
| "accepts (Suc k) xs \<longleftrightarrow> (\<exists>p r. ip_part p \<and> xs = p @ 46 # r \<and> accepts k r)"

lemma isdigit_dot [simp]: "\<not> isdigit 46"
  by (simp add: isdigit_def)

lemma digits_dot_unique:
  "list_all isdigit p \<Longrightarrow> list_all isdigit q \<Longrightarrow> \<not> isdigit c \<Longrightarrow> \<not> isdigit d \<Longrightarrow> p @ c # r = q @ d # s \<longleftrightarrow> p = q \<and> c = d \<and> r = s"
proof (induction p arbitrary: q)
  case Nil
  then show ?case by (cases q) auto
next
  case (Cons x p)
  then show ?case by (cases q) auto
qed

lemma accepts_break:
  assumes "list_all isdigit cur" "\<not> isdigit c"
  shows "\<not> accepts 0 (cur @ c # cs)"
    and "accepts (Suc k) (cur @ c # cs) \<longleftrightarrow> c = 46 \<and> ip_part cur \<and> accepts k cs"
  using assms digits_dot_unique [of cur _ c 46] by (auto simp: ip_part_def)

lemma accepts_long: "list_all isdigit cur \<Longrightarrow> 3 < length cur \<Longrightarrow> \<not> accepts k (cur @ cs)"
proof (cases k)
  case (Suc j)
  assume cur: "list_all isdigit cur" "3 < length cur"
  have False if "ip_part p" "cur @ cs = p @ 46 # r" for p r
  proof -
    have "length p < length cur" using that(1) cur(2) by (simp add: ip_part_def)
    then have "cur ! length p = 46" using that(2) by (metis nth_append nth_append_length)
    then show False using cur \<open>length p < length cur\<close> by (auto simp: list_all_length)
  qed
  then show ?thesis by (auto simp: Suc)
qed (auto simp: ip_part_def)

lemma isip_loop_dots: "nDot \<le> snd (snd (isip_loop s cs i j bDot nDot))"
  by (induction s cs i j bDot nDot rule: isip_loop.induct) (auto simp: le_Suc_eq)

lemma isip_loop_short: "i + length cs = length s \<Longrightarrow> fst (isip_loop s cs i j bDot nDot) \<le> length s"
  by (induction s cs i j bDot nDot rule: isip_loop.induct) auto

definition ends_well :: "int list \<Rightarrow> nat \<Rightarrow> nat \<times> nat \<times> nat \<Rightarrow> bool" where
  "ends_well s n = (\<lambda>(i, j, nDot). i = length s \<and> nDot = n \<and> atoi (drop j s) \<le> 255)"

text \<open>The loop with a part of digits behind it.\<close>

lemma isip_loop_accepts:
  assumes "s = pre @ cur @ cs" "list_all isdigit cur" "length cur \<le> 3"
  shows "ends_well s (nDot + k) (isip_loop s cs (length pre + length cur) (length pre) (cur = []) nDot) \<longleftrightarrow> accepts k (cur @ cs)"
  using assms
proof (induction cs arbitrary: pre cur nDot k)
  case Nil
  have "atoi cur = dec_val 0 cur" using atoi_digits [of cur "[]"] Nil.prems by simp
  moreover have "\<not> accepts (Suc j) cur" for j using Nil.prems(2) by (auto simp: list_all_iff)
  ultimately show ?case using Nil.prems by (cases k) (auto simp: ends_well_def ip_part_def)
next
  case (Cons c cs)
  let ?i = "length pre + length cur" let ?j = "length pre"
  have lt: "?i < length s" using Cons.prems(1) by simp
  have stop: "\<not> ends_well s n (?i, ?j, nDot)" for n using lt by (simp add: ends_well_def)
  consider (dot) "c = 46" "cur = []" | (big) "c = 46" "cur \<noteq> []" "255 < dec_val 0 cur" | (part) "c = 46" "ip_part cur"
    | (other) "c \<noteq> 46" "\<not> isdigit c" | (long) "isdigit c" "length cur = 3" | (digit) "isdigit c" "length cur < 3"
    using Cons.prems(2,3) unfolding ip_part_def by (metis linorder_not_less nat_less_le)
  then show ?case
  proof cases
    case dot
    then show ?thesis using stop accepts_break(1) [of cur c cs] accepts_break(2) [of cur c _ cs] by (cases k) (auto simp: ip_part_def)
  next
    case big
    have "atoi (drop ?j s) = dec_val 0 cur" using atoi_digits [of cur "c # cs"] Cons.prems big by simp
    then show ?thesis using big stop accepts_break(1) [of cur c cs] accepts_break(2) [of cur c _ cs] Cons.prems(2) by (cases k) (auto simp: ip_part_def)
  next
    case part
    have a: "atoi (drop ?j s) = dec_val 0 cur"
      using atoi_digits [of cur "c # cs"] Cons.prems part by (simp add: ip_part_def)
    have step: "isip_loop s (c # cs) ?i ?j (cur = []) nDot = isip_loop s cs (?i + 1) (?i + 1) True (nDot + 1)"
      using part a by (simp add: ip_part_def)
    show ?thesis
    proof (cases k)
      case 0
      have "nDot + 1 \<le> snd (snd (isip_loop s cs (?i + 1) (?i + 1) True (nDot + 1)))" by (rule isip_loop_dots)
      then have "\<not> ends_well s nDot (isip_loop s cs (?i + 1) (?i + 1) True (nDot + 1))"
        by (auto simp: ends_well_def split: prod.splits)
      then show ?thesis unfolding step using 0 accepts_break(1) [of cur c cs] Cons.prems(2) part by simp
    next
      case (Suc k')
      have "ends_well s (nDot + 1 + k') (isip_loop s cs (?i + 1) (?i + 1) True (nDot + 1)) \<longleftrightarrow> accepts k' cs"
        using Cons.IH [of "pre @ cur @ [c]" "[]" "nDot + 1" k'] Cons.prems(1) by simp
      then show ?thesis unfolding step using Suc accepts_break(2) [of cur c k' cs] Cons.prems(2) part by simp
    qed
  next
    case other
    then show ?thesis using stop accepts_break(1) [of cur c cs] accepts_break(2) [of cur c _ cs] Cons.prems(2) by (cases k) (auto simp: isdigit_def)
  next
    case long
    then have "\<not> accepts k ((cur @ [c]) @ cs)" using Cons.prems(2) by (intro accepts_long) simp_all
    with long show ?thesis using stop by (auto simp: isdigit_def)
  next
    case digit
    have "ends_well s (nDot + k) (isip_loop s cs (length pre + length (cur @ [c])) (length pre) (cur @ [c] = []) nDot) \<longleftrightarrow>
        accepts k ((cur @ [c]) @ cs)"
      by (rule Cons.IH) (use Cons.prems digit in simp_all)
    then show ?thesis using digit by (auto simp: isdigit_def)
  qed
qed

lemma isIP_parts:
  "isIP (Some s) \<longleftrightarrow> 7 \<le> length s \<and>
     (\<exists>a b c d. ip_part a \<and> ip_part b \<and> ip_part c \<and> (d = [] \<or> ip_part d) \<and> s = a @ 46 # b @ 46 # c @ 46 # d)"
proof -
  have loop: "ends_well s 3 (isip_loop s s 0 0 True 0) \<longleftrightarrow> accepts 3 s"
    using isip_loop_accepts [of s "[]" "[]" s 0 3] by simp
  have acc: "accepts 3 s \<longleftrightarrow>
      (\<exists>a b c d. ip_part a \<and> ip_part b \<and> ip_part c \<and> (d = [] \<or> ip_part d) \<and> s = a @ 46 # b @ 46 # c @ 46 # d)"
    by (auto simp: numeral_3_eq_3) blast+
  have "accepts 3 s \<Longrightarrow> length s \<le> 15" by (auto simp: acc ip_part_def)
  then have "isIP (Some s) \<longleftrightarrow> 7 \<le> length s \<and> accepts 3 s"
    unfolding loop [symmetric] by (auto simp: isIP_def ends_well_def Let_def split: prod.splits)
  then show ?thesis unfolding acc .
qed

text \<open>C35: \<^verbatim>\<open>isIP\<close> accepts exactly the texts of four parts with dots between them, of at least seven characters, where the
  first three parts have one to three digits and a value of at most 255, and the fourth one too unless it is
  empty.\<close>

theorem isIP_iff:
  "isIP (Some s) \<longleftrightarrow> 7 \<le> length s \<and>
     (\<exists>a b c d. ip_part a \<and> ip_part b \<and> ip_part c \<and> (d = [] \<or> ip_part d) \<and> s = a @ 46 # b @ 46 # c @ 46 # d)"
  by (rule isIP_parts)

section \<open>The values of the parts\<close>

lemma scan_parts_digits:
  assumes "list_all isdigit p" "length p \<le> 9" "p \<noteq> []"
  shows "scan_parts (Suc k) (p @ 46 # r) = dec_val 0 p # scan_parts k r" "scan_parts (Suc k) p = dec_val 0 p # replicate k 0"
  using scan_d_digits [OF assms, of "46 # r"] scan_d_digits [OF assms, of "[]"] by (simp_all add: c_at_def)

lemma scan_parts_Nil: "scan_parts (Suc k) [] = replicate (Suc k) 0"
  by (simp add: scan_d_def c_at_def isdigit_def)

lemma scan_address:
  assumes "ip_part a" "ip_part b" "ip_part c" "d = [] \<or> ip_part d"
  shows "scan_parts 4 (a @ 46 # b @ 46 # c @ 46 # d) = [dec_val 0 a, dec_val 0 b, dec_val 0 c, dec_val 0 d]"
proof -
  have l: "scan_parts (Suc 0) d = [dec_val 0 d]"
    using assms(4) scan_parts_digits(2) [of d 0] scan_parts_Nil [of 0] by (auto simp: ip_part_def simp del: scan_parts.simps)
  have p: "scan_parts (Suc k) (x @ 46 # r) = dec_val 0 x # scan_parts k r" if "ip_part x" for x r k
    using scan_parts_digits(1) [of x k r] that by (simp add: ip_part_def del: scan_parts.simps)
  have four: "4 = Suc (Suc (Suc (Suc 0)))" by simp
  show ?thesis unfolding four p [OF assms(1)] p [OF assms(2)] p [OF assms(3)] l ..
qed

lemma part_value: "ip_part p \<Longrightarrow> 0 \<le> dec_val 0 p \<and> dec_val 0 p \<le> 255"
  using dec_val_bounds [of p 0] by (simp add: ip_part_def)

text \<open>\<^verbatim>\<open>IsIp\<close> accepts exactly the texts \<^verbatim>\<open>isIP\<close> accepts whose first part is from 1 to 223 and that are not the address of the
  host itself.\<close>

theorem IsIp_iff:
  "IsIp (Some s) = 0 \<longleftrightarrow> 7 \<le> length s \<and>
     (\<exists>a b c d. ip_part a \<and> ip_part b \<and> ip_part c \<and> (d = [] \<or> ip_part d) \<and> s = a @ 46 # b @ 46 # c @ 46 # d \<and>
        1 \<le> dec_val 0 a \<and> dec_val 0 a \<le> 223 \<and> [dec_val 0 a, dec_val 0 b, dec_val 0 c, dec_val 0 d] \<noteq> [127, 0, 0, 1])"
proof -
  have checked: "IsIp (Some (a @ 46 # b @ 46 # c @ 46 # d)) = 0 \<longleftrightarrow> 1 \<le> dec_val 0 a \<and> dec_val 0 a \<le> 223 \<and>
      [dec_val 0 a, dec_val 0 b, dec_val 0 c, dec_val 0 d] \<noteq> [127, 0, 0, 1]"
    if "isIP (Some (a @ 46 # b @ 46 # c @ 46 # d))" and p: "ip_part a" "ip_part b" "ip_part c" "d = [] \<or> ip_part d" for a b c d
  proof -
    have "0 \<le> dec_val 0 d \<and> dec_val 0 d \<le> 255" using p(4) part_value by auto
    then show ?thesis using that scan_address [OF p] part_value [OF p(1)] part_value [OF p(2)] part_value [OF p(3)]
      by (simp add: IsIp_def Let_def)
  qed
  have only: "IsIp (Some s) = 0 \<Longrightarrow> isIP (Some s)" by (auto simp: IsIp_def split: if_splits)
  show ?thesis (is "_ \<longleftrightarrow> ?R")
  proof
    assume zero: "IsIp (Some s) = 0"
    with only isIP_parts [of s] obtain a b c d where "7 \<le> length s" "ip_part a" "ip_part b" "ip_part c" "d = [] \<or> ip_part d"
        "s = a @ 46 # b @ 46 # c @ 46 # d" by blast
    with zero only checked [of a b c d] show ?R by metis
  next
    assume ?R
    then obtain a b c d where p: "7 \<le> length s" "ip_part a" "ip_part b" "ip_part c" "d = [] \<or> ip_part d" "s = a @ 46 # b @ 46 # c @ 46 # d"
        "1 \<le> dec_val 0 a \<and> dec_val 0 a \<le> 223 \<and> [dec_val 0 a, dec_val 0 b, dec_val 0 c, dec_val 0 d] \<noteq> [127, 0, 0, 1]" by blast
    then have "isIP (Some s)" unfolding isIP_parts by blast
    with p checked [of a b c d] show "IsIp (Some s) = 0" by metis
  qed
qed

text \<open>The text of an address.\<close>

definition ip_text :: "nat \<Rightarrow> int list" where
  "ip_text n = dec (n div 2 ^ 24) @ 46 # dec (n div 2 ^ 16 mod 256) @ 46 # dec (n div 2 ^ 8 mod 256) @ 46 # dec (n mod 256)"

lemma ip_part_dec: "k < 256 \<Longrightarrow> ip_part (dec k)"
  using dec_digits [of k] dec_length [of k 3] by (simp add: ip_part_def)

lemma scan_ip_text: "n < 2 ^ 32 \<Longrightarrow>
  scan_parts 4 (ip_text n) = [int (n div 2 ^ 24), int (n div 2 ^ 16 mod 256), int (n div 2 ^ 8 mod 256), int (n mod 256)]"
  unfolding ip_text_def by (subst scan_address) (auto intro!: ip_part_dec)

lemma isIP_ip_text: "n < 2 ^ 32 \<Longrightarrow> isIP (Some (ip_text n))"
proof -
  assume n: "n < 2 ^ 32"
  have "0 < length (dec k)" for k by simp
  from this [of "n div 2 ^ 24"] this [of "n div 2 ^ 16 mod 256"] this [of "n div 2 ^ 8 mod 256"] this [of "n mod 256"]
  have "7 \<le> length (ip_text n)" unfolding ip_text_def length_append length_Cons by linarith
  moreover have "ip_part (dec (n div 2 ^ 24))" "ip_part (dec (n div 2 ^ 16 mod 256))" "ip_part (dec (n div 2 ^ 8 mod 256))"
      "ip_part (dec (n mod 256))"
    using n by (auto intro!: ip_part_dec)
  ultimately show ?thesis unfolding isIP_parts by (auto simp: ip_text_def)
qed

text \<open>Addresses of hosts: a network of class A, B or C with a host part that is not all zeros or ones, and the address of the host itself.\<close>

definition host_address :: "nat \<Rightarrow> bool" where
  "host_address n \<longleftrightarrow>
     (2 ^ 24 \<le> n \<and> n < 127 * 2 ^ 24 \<and> n mod 2 ^ 24 \<noteq> 0 \<and> n mod 2 ^ 24 \<noteq> 2 ^ 24 - 1) \<or>
     n = 127 * 2 ^ 24 + 1 \<or>
     (128 * 2 ^ 24 \<le> n \<and> n < 192 * 2 ^ 24 \<and> n mod 2 ^ 16 \<noteq> 0 \<and> n mod 2 ^ 16 \<noteq> 2 ^ 16 - 1) \<or>
     (192 * 2 ^ 24 \<le> n \<and> n < 224 * 2 ^ 24 \<and> n mod 2 ^ 8 \<noteq> 0 \<and> n mod 2 ^ 8 \<noteq> 2 ^ 8 - 1)"

text \<open>\<^verbatim>\<open>IsVaildIpv4Addr\<close> accepts the text of an address exactly if it is the address of a host.\<close>

theorem valid_ipv4_is_host:
  assumes "n < 2 ^ 32"
  shows "IsVaildIpv4Addr (Some (ip_text n)) = (if host_address n then 0 else -1)"
proof -
  define a b c d where "a = n div 2 ^ 24" and "b = n div 2 ^ 16 mod 256" and "c = n div 2 ^ 8 mod 256" and "d = n mod 256"
  have n: "n = a * 2 ^ 24 + b * 2 ^ 16 + c * 2 ^ 8 + d"
  proof -
    have "n = 256 * (n div 2 ^ 8) + d" by (simp add: d_def)
    moreover have "n div 2 ^ 8 = 256 * (n div 2 ^ 8 div 256) + c" by (simp add: c_def)
    moreover have "n div 2 ^ 8 div 256 = n div 2 ^ 16" by (simp add: div_mult2_eq [symmetric])
    moreover have "n div 2 ^ 16 = 256 * (n div 2 ^ 16 div 256) + b" by (simp add: b_def)
    moreover have "n div 2 ^ 16 div 256 = a" by (simp add: a_def div_mult2_eq [symmetric])
    ultimately show ?thesis by simp
  qed
  have lt: "a < 256" "b < 256" "c < 256" "d < 256" using assms by (simp_all add: a_def b_def c_def d_def)
  have e: "n = b * 2 ^ 16 + c * 2 ^ 8 + d + 2 ^ 24 * a" "n = c * 2 ^ 8 + d + 2 ^ 16 * (256 * a + b)" using n by simp_all
  have "n mod 2 ^ 24 = (b * 2 ^ 16 + c * 2 ^ 8 + d) mod 2 ^ 24" "n mod 2 ^ 16 = (c * 2 ^ 8 + d) mod 2 ^ 16"
    using arg_cong [OF e(1), of "\<lambda>x. x mod 2 ^ 24"] arg_cong [OF e(2), of "\<lambda>x. x mod 2 ^ 16"] by (simp_all only: mod_mult_self2)
  then have m: "n mod 2 ^ 24 = b * 2 ^ 16 + c * 2 ^ 8 + d" "n mod 2 ^ 16 = c * 2 ^ 8 + d" "n mod 2 ^ 8 = d"
    using lt by (simp_all add: d_def)
  have ge: "k * 2 ^ 24 \<le> n \<longleftrightarrow> k \<le> a" "n < k * 2 ^ 24 \<longleftrightarrow> a < k" for k
    unfolding a_def by (simp_all add: less_eq_div_iff_mult_less_eq div_less_iff_less_mult)
  have self: "n = 127 * 2 ^ 24 + 1 \<longleftrightarrow> a = 127 \<and> b = 0 \<and> c = 0 \<and> d = 1"
    using n by (auto simp: a_def b_def c_def d_def)
  have zeros: "n mod 2 ^ 24 = 0 \<longleftrightarrow> b = 0 \<and> c = 0 \<and> d = 0" "n mod 2 ^ 16 = 0 \<longleftrightarrow> c = 0 \<and> d = 0" unfolding m by auto
  have ones: "n mod 2 ^ 24 = 2 ^ 24 - 1 \<longleftrightarrow> b = 255 \<and> c = 255 \<and> d = 255" "n mod 2 ^ 16 = 2 ^ 16 - 1 \<longleftrightarrow> c = 255 \<and> d = 255"
    unfolding m using lt by (safe; simp; linarith)+
  have host: "host_address n \<longleftrightarrow>
      1 \<le> a \<and> a < 127 \<and> \<not> (b = 0 \<and> c = 0 \<and> d = 0) \<and> \<not> (b = 255 \<and> c = 255 \<and> d = 255) \<or> a = 127 \<and> b = 0 \<and> c = 0 \<and> d = 1 \<or>
      128 \<le> a \<and> a < 192 \<and> \<not> (c = 0 \<and> d = 0) \<and> \<not> (c = 255 \<and> d = 255) \<or> 192 \<le> a \<and> a < 224 \<and> d \<noteq> 0 \<and> d \<noteq> 255"
    unfolding host_address_def ge ge(1) [of 1, unfolded mult_1] zeros ones self m(3) by simp
  show ?thesis
    unfolding host IsVaildIpv4Addr_def using lt
    by (simp add: scan_ip_text [OF assms, folded a_def b_def c_def d_def] Let_def)
qed

theorem valid_ipv4_is_host_witness: "IsVaildIpv4Addr (Some (ip_text 0x0A00020F)) = 0"
  using valid_ipv4_is_host [of "0x0A00020F"] by (simp add: host_address_def)

text \<open>In a network of class C only the first and the last part are checked.\<close>

theorem class_c_middle_unchecked:
  assumes "192 \<le> a" and "a \<le> 223" and "b < 10 ^ 9" and "c < 10 ^ 9" and "0 < d" and "d < 255"
  shows "IsVaildIpv4Addr (Some (dec a @ 46 # dec b @ 46 # dec c @ 46 # dec d)) = 0"
proof -
  have four: "4 = Suc (Suc (Suc (Suc 0)))" by simp
  have p: "scan_parts (Suc k) (dec x @ 46 # r) = int x # scan_parts k r" "scan_parts (Suc k) (dec x) = int x # replicate k 0"
    if "x < 10 ^ 9" for x r k
    using scan_parts_digits(1) [OF dec_digits [of x], of k r] scan_parts_digits(2) [OF dec_digits [of x], of k] dec_length [of x 9] that by (simp_all del: scan_parts.simps)
  have lt: "a < 10 ^ 9" "d < 10 ^ 9" using assms by simp_all
  have "scan_parts 4 (dec a @ 46 # dec b @ 46 # dec c @ 46 # dec d) = [int a, int b, int c, int d]"
    unfolding four p(1) [OF lt(1)] p(1) [OF assms(3)] p(1) [OF assms(4)] p(2) [OF lt(2)] by simp
  then show ?thesis using assms(1,2,5,6) by (simp add: IsVaildIpv4Addr_def Let_def)
qed

theorem class_c_middle_unchecked_witness: "IsVaildIpv4Addr (Some (dec 192 @ 46 # dec 999 @ 46 # dec 0 @ 46 # dec 1)) = 0"
  using class_c_middle_unchecked [of 192 999 0 1] by simp

end
