(* ===== verification/Serial_Port.thy ===== *)
theory Serial_Port
  imports Memory
begin

text \<open>
  The settings of a serial port. \<^verbatim>\<open>set_serial_param\<close> with its tables is the same in \<^verbatim>\<open>src/base/test_rs232.c\<close> and \<^verbatim>\<open>src/base/test_cpucard.c\<close>; \<^verbatim>\<open>PortInit\<close> is in
  the second one only. The lemmas show that the line is raw afterwards, whatever it was before.
\<close>

unbundle bit_operations_syntax

section \<open>Settings\<close>

text \<open>
  The attributes of the line with the values of Linux; the speeds are the ones that the functions for them read and set. \<^verbatim>\<open>set_serial_param\<close> gives the
  attributes that the last \<^verbatim>\<open>tcsetattr\<close> puts in place of the ones \<^verbatim>\<open>tcgetattr\<close> has read.
\<close>

record termios =
  c_iflag :: "32 word"
  c_oflag :: "32 word"
  c_cflag :: "32 word"
  c_lflag :: "32 word"
  c_cc :: "byte list"
  c_ispeed :: "32 word"
  c_ospeed :: "32 word"

abbreviation (input) CSIZE :: "32 word" where "CSIZE \<equiv> 0x30"
abbreviation (input) CS5 :: "32 word" where "CS5 \<equiv> 0"
abbreviation (input) CS7 :: "32 word" where "CS7 \<equiv> 0x20"
abbreviation (input) CS8 :: "32 word" where "CS8 \<equiv> 0x30"
abbreviation (input) CSTOPB :: "32 word" where "CSTOPB \<equiv> 0x40"
abbreviation (input) CREAD :: "32 word" where "CREAD \<equiv> 0x80"
abbreviation (input) PARENB :: "32 word" where "PARENB \<equiv> 0x100"
abbreviation (input) PARODD :: "32 word" where "PARODD \<equiv> 0x200"
abbreviation (input) CLOCAL :: "32 word" where "CLOCAL \<equiv> 0x800"
abbreviation (input) IGNBRK :: "32 word" where "IGNBRK \<equiv> 1"
abbreviation (input) IGNPAR :: "32 word" where "IGNPAR \<equiv> 4"
abbreviation (input) INPCK :: "32 word" where "INPCK \<equiv> 0x10"
abbreviation (input) INLCR :: "32 word" where "INLCR \<equiv> 0x40"
abbreviation (input) IGNCR :: "32 word" where "IGNCR \<equiv> 0x80"
abbreviation (input) ICRNL :: "32 word" where "ICRNL \<equiv> 0x100"
abbreviation (input) IXON :: "32 word" where "IXON \<equiv> 0x400"
abbreviation (input) OPOST :: "32 word" where "OPOST \<equiv> 1"
abbreviation (input) ONLCR :: "32 word" where "ONLCR \<equiv> 4"
abbreviation (input) OCRNL :: "32 word" where "OCRNL \<equiv> 8"
abbreviation (input) ONOCR :: "32 word" where "ONOCR \<equiv> 0x10"
abbreviation (input) ONLRET :: "32 word" where "ONLRET \<equiv> 0x20"
abbreviation (input) VTIME :: nat where "VTIME \<equiv> 5"
abbreviation (input) VMIN :: nat where "VMIN \<equiv> 6"

definition speed_value :: "int list" where
  "speed_value = [230400, 115200, 57600, 38400, 19200, 9600, 4800, 2400, 1200, 600, 300]"

definition speed_param :: "32 word list" where
  "speed_param = [0x1003, 0x1002, 0x1001, 0xF, 0xE, 0xD, 0xC, 0xB, 9, 8, 7]"

definition set_speed :: "int \<Rightarrow> termios \<Rightarrow> termios" where
  "set_speed speed t = fold (\<lambda>(v, p) o1. if speed = v then o1\<lparr>c_ispeed := p, c_ospeed := p\<rparr> else o1) (zip speed_value speed_param) t"

definition set_databits :: "int \<Rightarrow> termios \<Rightarrow> termios" where
  "set_databits databits t =
     (let t1 = t\<lparr>c_cflag := c_cflag t AND NOT CSIZE\<rparr> in
      if databits = 5 then t1\<lparr>c_cflag := c_cflag t1 OR CS5\<rparr>
      else if databits = 7 then t1\<lparr>c_cflag := c_cflag t1 OR CS7\<rparr>
      else if databits = 8 then t1\<lparr>c_cflag := c_cflag t1 OR CS8\<rparr>
      else t1)"

definition set_stopbits :: "int \<Rightarrow> termios \<Rightarrow> termios" where
  "set_stopbits stopbits t =
     (if stopbits = 1 then t\<lparr>c_cflag := c_cflag t AND NOT CSTOPB\<rparr>
      else if stopbits = 2 then t\<lparr>c_cflag := c_cflag t OR CSTOPB\<rparr>
      else t)"

definition set_parity :: "int \<Rightarrow> termios \<Rightarrow> termios" where
  "set_parity parity t =
     (if parity = 110 \<or> parity = 78 then t\<lparr>c_cflag := c_cflag t AND NOT PARENB, c_iflag := c_iflag t AND NOT INPCK\<rparr>
      else if parity = 111 \<or> parity = 79 then t\<lparr>c_cflag := c_cflag t OR (PARODD OR PARENB), c_iflag := c_iflag t OR INPCK\<rparr>
      else if parity = 101 \<or> parity = 69 then t\<lparr>c_cflag := (c_cflag t OR PARENB) AND NOT PARODD, c_iflag := c_iflag t OR INPCK\<rparr>
      else if parity = 83 \<or> parity = 115 then t\<lparr>c_cflag := c_cflag t AND NOT PARENB AND NOT CSTOPB, c_iflag := c_iflag t AND NOT INPCK\<rparr>
      else t\<lparr>c_iflag := c_iflag t AND NOT INPCK\<rparr>)"

definition set_serial_param :: "int \<Rightarrow> int \<Rightarrow> int \<Rightarrow> int \<Rightarrow> int \<Rightarrow> termios \<Rightarrow> termios" where
  "set_serial_param speed databits stopbits parity opostflag t =
     (let t1 = set_parity parity (set_stopbits stopbits (set_databits databits (set_speed speed t)));
          i1 = (c_iflag t1 AND NOT IXON) OR (IGNBRK OR IGNPAR);
          o1 = (if opostflag \<noteq> 0 then 0 OR OPOST else 0 AND NOT OPOST)
      in t1\<lparr>c_iflag := i1 AND NOT (INLCR OR ICRNL OR IGNCR), c_lflag := 0, c_oflag := o1 AND NOT (ONLCR OR OCRNL OR ONOCR OR ONLRET),
            c_cflag := c_cflag t1 OR (CLOCAL OR CREAD), c_cc := (c_cc t1)[VTIME := 1, VMIN := 1]\<rparr>)"

text \<open>\<^verbatim>\<open>PortInit\<close>, which nothing calls: the attributes, or an error of one of the calls.\<close>

abbreviation (input) CRTSCTS :: "32 word" where "CRTSCTS \<equiv> 0x80000000"
abbreviation (input) TTY_SPEED :: "32 word" where "TTY_SPEED \<equiv> 0xE"

definition PortInit :: "termios option \<Rightarrow> bool \<Rightarrow> int \<times> termios option" where
  "PortInit got set_ok =
     (case got of
        None \<Rightarrow> (-1, None)
      | Some t \<Rightarrow>
          let cf = ((c_cflag t AND NOT CSIZE) OR CS8) OR (CLOCAL OR CREAD);
              t1 = t\<lparr>c_ospeed := TTY_SPEED, c_ispeed := TTY_SPEED, c_iflag := IGNBRK, c_lflag := 0, c_oflag := 0,
                     c_cflag := cf AND NOT CRTSCTS, c_cc := (c_cc t)[VMIN := 4, VTIME := 0]\<rparr>
          in if set_ok then (0, Some t1) else (-1, got))"

section \<open>The line is raw\<close>

lemmas param_defs = set_serial_param_def set_parity_def set_stopbits_def set_databits_def Let_def

lemma set_speed_flags [simp]:
  "c_iflag (set_speed v t) = c_iflag t" "c_cflag (set_speed v t) = c_cflag t" "c_cc (set_speed v t) = c_cc t"
  by (simp_all add: set_speed_def speed_value_def speed_param_def)

lemma set_speed_table:
  "i < 11 \<Longrightarrow> c_ispeed (set_speed (speed_value ! i) t) = speed_param ! i \<and> c_ospeed (set_speed (speed_value ! i) t) = speed_param ! i"
  by (auto simp: set_speed_def speed_value_def speed_param_def less_Suc_eq numeral_eq_Suc)

lemma raw_speed: "c_ispeed (set_serial_param v 8 1 110 0 t) = c_ispeed (set_speed v t) \<and> c_ospeed (set_serial_param v 8 1 110 0 t) = c_ospeed (set_speed v t)"
  by (simp add: param_defs)

lemma raw_modes: "c_lflag (set_serial_param v 8 1 110 0 t) = 0 \<and> c_oflag (set_serial_param v 8 1 110 0 t) = 0"
  by (simp add: param_defs)

lemma raw_cflag:
  "c_cflag (set_serial_param v 8 1 110 0 t) AND (CSIZE OR CSTOPB OR PARENB OR CREAD OR CLOCAL) = CS8 OR CREAD OR CLOCAL"
  by (simp add: param_defs) (auto intro!: bit_word_eqI simp: bit_simps bit_numeral_rec split: nat.splits)

lemma raw_iflag:
  "c_iflag (set_serial_param v 8 1 110 0 t) AND (IXON OR INPCK OR INLCR OR ICRNL OR IGNCR OR IGNBRK OR IGNPAR) = IGNBRK OR IGNPAR"
  by (simp add: param_defs) (auto intro!: bit_word_eqI simp: bit_simps bit_numeral_rec split: nat.splits)

lemma raw_cc: "length (c_cc t) = 32 \<Longrightarrow> c_cc (set_serial_param v 8 1 110 0 t) ! VTIME = 1 \<and> c_cc (set_serial_param v 8 1 110 0 t) ! VMIN = 1"
  by (simp add: param_defs)

text \<open>A speed that is not in the table is ignored.\<close>

lemma unknown_speed: "v \<notin> set speed_value \<Longrightarrow> set_speed v t = t"
  by (auto simp: set_speed_def speed_value_def speed_param_def)

text \<open>With six data bits, which the function does not know, the line is left with five.\<close>

lemma six_bits_are_five: "c_cflag (set_databits 6 t) AND CSIZE = CS5"
  by (simp add: set_databits_def Let_def) (auto intro!: bit_word_eqI simp: bit_simps)

end
