(* ===== verification/Cpu_Card.thy ===== *)
theory Cpu_Card
  imports Memory Serial_Port
begin

text \<open>
  The frames of a card reader on a serial line (base/test_cpucard.c): building and sending a command, collecting the
  answer from the pieces that arrive, removing the marks, and telling the kind of card. The line is a script of what
  \<open>select\<close>, \<open>read\<close> and \<open>write\<close> do. Of what is printed only \<^verbatim>\<open>print_hex\<close> is modelled, as its loop does not always end.
\<close>

section \<open>Frames\<close>

abbreviation FRAME_HEAD :: byte where "FRAME_HEAD \<equiv> 0x02"
abbreviation FRAME_END :: byte where "FRAME_END \<equiv> 0x03"
abbreviation SET_SERIAL_BAUD_RATE :: byte where "SET_SERIAL_BAUD_RATE \<equiv> 0x15"
abbreviation SEARCH_CARD :: byte where "SEARCH_CARD \<equiv> 0x46"

text \<open>The loop that copies the data of a frame and marks 0x02, 0x03 and 0x10 with a 0x10 before them.\<close>

fun stuff :: "byte list \<Rightarrow> byte list" where
  "stuff [] = []"
| "stuff (b # bs) = (if b = 0x02 \<or> b = 0x03 \<or> b = 0x10 then 0x10 # b # stuff bs else b # stuff bs)"

text \<open>The loop that sums up the bytes behind the head, in one byte.\<close>

definition checksum :: "byte list \<Rightarrow> byte" where
  "checksum bs = sum_list bs"

text \<open>
  The bytes \<^verbatim>\<open>CpuCardSetCmd\<close> sends for a command: address, length, the command with its data, and the checksum. Both
  buffers have 512 bytes.
\<close>

definition build_frame :: "byte list \<Rightarrow> nat \<Rightarrow> byte list outcome" where
  "build_frame Cmd DataLen =
     (if DataLen - 2 \<le> length Cmd then
        (let body = [0x00, 0x00, of_nat DataLen] @ take (DataLen - 2) Cmd;
             send_buf = FRAME_HEAD # stuff (body @ [checksum body]) @ [FRAME_END]
         in if length body + 3 \<le> 512 \<and> length send_buf \<le> 512 then Ok send_buf else Fault)
      else Fault)"

text \<open>
  \<^verbatim>\<open>print_hex\<close> prints \<open>bytes\<close> bytes of a buffer with an index of type \<open>unsigned char\<close>, which never reaches a larger number than 255: the loop
  runs for at most \<open>fuel\<close> turns, and \<open>NoFuel\<close> says that it needs more. The result is the bytes printed.
\<close>

fun print_hex_loop :: "nat \<Rightarrow> byte \<Rightarrow> byte list \<Rightarrow> nat \<Rightarrow> byte list outcome" where
  "print_hex_loop 0 ucindex buff bytes = NoFuel"
| "print_hex_loop (Suc fuel) ucindex buff bytes =
     (if unat ucindex < bytes then
        bind_outcome (rd_byte buff (unat ucindex)) (\<lambda>b. bind_outcome (print_hex_loop fuel (ucindex + 1) buff bytes) (\<lambda>bs. Ok (b # bs)))
      else Ok [])"

definition print_hex :: "byte list \<Rightarrow> nat \<Rightarrow> byte list outcome" where
  "print_hex buff bytes = print_hex_loop 257 0 buff bytes"

section \<open>Answers\<close>

text \<open>
  What happens on the line in one turn of the reading loop: \<open>select\<close> does not report it ready, or \<open>read\<close> gives bytes, or
  fails. What is sent is recorded; \<open>write\<close> takes its results from a script.
\<close>

datatype card_event = Quiet | Data "byte list" | ReadError

record card_io =
  turns :: "card_event list"
  wrote :: "int list"
  sent :: "byte list list"

text \<open>The test for a whole frame: its first and last byte, and no mark before the last one.\<close>

definition looks_complete :: "byte list \<Rightarrow> bool" where
  "looks_complete tmp_buf \<longleftrightarrow>
     tmp_buf \<noteq> [] \<and> (hd tmp_buf = 0x02 \<or> hd tmp_buf = 0x13) \<and> tmp_buf ! (length tmp_buf - 1) = 0x03 \<and>
     (tmp_buf ! (length tmp_buf - 2) \<noteq> 0x10 \<or> tmp_buf ! (length tmp_buf - 3) = 0x10)"

text \<open>
  The reading loop with at most \<open>k\<close> turns left; \<open>tmp_buf\<close> is what was read so far. One \<open>read\<close> gives at most 128 bytes; what
  goes beyond the 512 bytes of the buffer is a fault.
\<close>

fun read_loop :: "nat \<Rightarrow> byte list \<Rightarrow> card_event list \<Rightarrow> (byte list \<times> card_event list) outcome" where
  "read_loop 0 tmp_buf es = Ok (tmp_buf, es)"
| "read_loop (Suc k) tmp_buf [] = NoFuel"
| "read_loop (Suc k) tmp_buf (Data bs # es) =
     (let new = tmp_buf @ take 128 bs in
      if 512 < length new then Fault
      else if looks_complete new then Ok (new, es)
      else read_loop k new es)"
| "read_loop (Suc k) tmp_buf (_ # es) = read_loop k tmp_buf es"

text \<open>
  The loop that removes the marks. A mark at the very end is followed by a zero byte, as the buffer is cleared and the
  last byte of what was read is not a mark.
\<close>

fun unstuff :: "byte list \<Rightarrow> byte list" where
  "unstuff [] = []"
| "unstuff [b] = (if b = 0x10 then [0] else [b])"
| "unstuff (b # c # bs) = (if b = 0x10 then c # unstuff bs else b # unstuff (c # bs))"

definition byte_at :: "byte list \<Rightarrow> nat \<Rightarrow> byte" where
  "byte_at buf i = (if i < length buf then buf ! i else 0)"

text \<open>
  What \<^verbatim>\<open>CpuCardRead\<close> makes of the bytes it has read. The checksum is not looked at. What is not the answer to a search is printed, from a
  buffer of 512 bytes.
\<close>

definition decode_answer :: "byte \<Rightarrow> byte list \<Rightarrow> int outcome" where
  "decode_answer cmd0 tmp_buf =
     (let i = (if byte_at tmp_buf 0 = 0x13 then 1 else 0) in
      if byte_at tmp_buf i = FRAME_HEAD \<and> tmp_buf ! (length tmp_buf - 1) = FRAME_END then
        (let buf = tmp_buf ! i # unstuff (drop (i + 1) tmp_buf) in
         bind_outcome (if byte_at buf 4 \<noteq> SEARCH_CARD then print_hex (buf @ replicate (512 - length buf) 0) (length buf) else Ok []) (\<lambda>printed.
         Ok (if byte_at buf 4 = cmd0 then
               if byte_at buf 5 = 0x00 then
                 if byte_at buf 4 = SEARCH_CARD then
                   if byte_at buf 6 = 0x04 \<or> byte_at buf 6 = 0x02 then 1 else 2
                 else -1
               else -10
             else -11)))
      else Ok (-1))"

definition CpuCardRead :: "byte \<Rightarrow> card_io \<Rightarrow> (int \<times> card_io) outcome" where
  "CpuCardRead cmd0 w =
     bind_outcome (read_loop 100 [] (turns w)) (\<lambda>(tmp_buf, es).
     bind_outcome (decode_answer cmd0 tmp_buf) (\<lambda>rtn. Ok (rtn, w\<lparr>turns := es\<rparr>)))"

section \<open>Commands\<close>

definition CpuCardSetCmd :: "byte list \<Rightarrow> nat \<Rightarrow> card_io \<Rightarrow> (int \<times> card_io) outcome" where
  "CpuCardSetCmd Cmd DataLen w =
     bind_outcome (build_frame Cmd DataLen) (\<lambda>send_buf.
     bind_outcome (if byte_at send_buf 4 \<noteq> SEARCH_CARD then print_hex (send_buf @ replicate (512 - length send_buf) 0) (length send_buf) else Ok []) (\<lambda>printed.
       case wrote w of
         [] \<Rightarrow> NoFuel
       | ret # rs \<Rightarrow>
           (let w1 = w\<lparr>wrote := rs, sent := sent w @ [take (nat ret) send_buf]\<rparr> in
            if ret = int (length send_buf) then
              bind_outcome (rd_byte Cmd 0) (\<lambda>cmd0. CpuCardRead cmd0 w1)
            else Ok (-1, w1))))"

fun start_loop :: "nat \<Rightarrow> card_io \<Rightarrow> card_io outcome" where
  "start_loop 0 w = Ok w"
| "start_loop (Suc k) w =
     bind_outcome (CpuCardSetCmd (SET_SERIAL_BAUD_RATE # 0x03 # replicate 30 0) 4 w) (\<lambda>(ret, w1).
       if 0 \<le> ret then Ok w1 else start_loop k w1)"

definition start_cpucard :: "card_io \<Rightarrow> card_io outcome" where
  "start_cpucard w = start_loop 3 w"

definition CpuSearchCard :: "card_io \<Rightarrow> (int \<times> card_io) outcome" where
  "CpuSearchCard w = CpuCardSetCmd (SEARCH_CARD # 0x52 # replicate 62 0) 4 w"

text \<open>
  The program: it opens the line, sets it up, sends the start command, and searches for cards without end. The result is the settings and the line after a number of searches, or
  nothing if the line cannot be opened.
\<close>

definition CPU_CARD_DEVICE :: string where
  "CPU_CARD_DEVICE = ''/dev/ttyS1''"

fun card_searches :: "nat \<Rightarrow> card_io \<Rightarrow> card_io outcome" where
  "card_searches 0 w = Ok w"
| "card_searches (Suc n) w = bind_outcome (CpuSearchCard w) (\<lambda>(ret, w1). card_searches n w1)"

definition card_main :: "(string \<Rightarrow> termios option) \<Rightarrow> nat \<Rightarrow> card_io \<Rightarrow> (termios \<times> card_io) option outcome" where
  "card_main devices n w =
     (case devices CPU_CARD_DEVICE of
        None \<Rightarrow> Ok None
      | Some t \<Rightarrow>
          bind_outcome (start_cpucard w) (\<lambda>w1. bind_outcome (card_searches n w1) (\<lambda>w2. Ok (Some (set_serial_param 19200 8 1 110 0 t, w2)))))"

section \<open>Printing\<close>

lemma print_hex_loop_ends:
  assumes "bytes \<le> 255" "bytes \<le> length buff" "unat i + k = bytes" "k < fuel"
  shows "print_hex_loop fuel i buff bytes = Ok (take k (drop (unat i) buff))"
  using assms(3, 4)
proof (induction k arbitrary: i fuel)
  case 0
  then show ?case by (cases fuel) simp_all
next
  case (Suc k)
  obtain f where f: "fuel = Suc f" "k < f" using Suc.prems(2) by (cases fuel) auto
  have i: "unat i < bytes" "unat i < length buff" "unat (i + 1) = unat i + 1"
    using Suc.prems(1) assms(1, 2) unat_add_lem [of i 1] by auto
  then have "print_hex_loop f (i + 1) buff bytes = Ok (take k (drop (unat i + 1) buff))" using Suc f(2) by simp
  moreover have "take (Suc k) (drop (unat i) buff) = buff ! unat i # take k (drop (unat i + 1) buff)"
    using i(2) by (simp add: take_Suc_conv_app_nth flip: Cons_nth_drop_Suc)
  ultimately show ?case using i f(1) by (simp add: rd_byte_def)
qed

lemma print_hex_ends: "bytes \<le> 255 \<Longrightarrow> bytes \<le> length buff \<Longrightarrow> print_hex buff bytes = Ok (take bytes buff)"
  using print_hex_loop_ends [of bytes buff 0 bytes 257] by (simp add: print_hex_def)

text \<open>A length above 255 is never reached, whatever the number of turns.\<close>

lemma print_hex_loop_forever: "255 < bytes \<Longrightarrow> 255 < length buff \<Longrightarrow> print_hex_loop fuel i buff bytes = NoFuel"
proof (induction fuel arbitrary: i)
  case (Suc fuel)
  have "unat i < 256" using unsigned_less [of i] by simp
  with Suc show ?case by (simp add: rd_byte_def)
qed simp

lemma print_hex_forever: "255 < bytes \<Longrightarrow> 255 < length buff \<Longrightarrow> print_hex buff bytes = NoFuel"
  by (simp add: print_hex_def print_hex_loop_forever)

section \<open>Marks are removed again\<close>

lemma unstuff_stuff: "unstuff (stuff bs @ r) = bs @ unstuff r"
proof (induction bs)
  case (Cons b bs)
  show ?case
  proof (cases "b = 0x02 \<or> b = 0x03 \<or> b = 0x10")
    case True
    then show ?thesis using Cons by auto
  next
    case False
    then show ?thesis using Cons by (cases "stuff bs @ r") auto
  qed
qed simp

section \<open>Recognising the end of a frame\<close>

text \<open>Data in which no 0x10 is followed by a 0x03.\<close>

fun clash_free :: "byte list \<Rightarrow> bool" where
  "clash_free (a # b # bs) \<longleftrightarrow> \<not> (a = 0x10 \<and> b = 0x03) \<and> clash_free (b # bs)"
| "clash_free bs \<longleftrightarrow> True"

lemma stuff_append [simp]: "stuff (xs @ ys) = stuff xs @ stuff ys"
  by (induction xs) auto

lemma stuff_Nil_iff [simp]: "stuff bs = [] \<longleftrightarrow> bs = []"
  by (cases bs) auto

lemma last_stuff: "bs \<noteq> [] \<Longrightarrow> last (stuff bs) = last bs"
  by (cases bs rule: rev_cases) auto

text \<open>A 0x03 at the end of a part of the marked data is a marked one.\<close>

lemma stuff_prefix_end:
  assumes "take m (stuff bs) = p" "p \<noteq> []" "last p = 0x03"
  shows "\<exists>pre rest. bs = pre @ 0x03 # rest \<and> p = stuff pre @ [0x10, 0x03]"
  using assms
proof (induction bs arbitrary: m p)
  case (Cons b bs)
  have later: "\<exists>pre rest. b # bs = pre @ 0x03 # rest \<and> stuff [b] @ p' = stuff pre @ [0x10, 0x03]"
    if p': "take k (stuff bs) = p'" "p' \<noteq> []" "last p' = 0x03" for k p'
  proof -
    from Cons.IH [OF p'] obtain pre rest where "bs = pre @ 0x03 # rest" "p' = stuff pre @ [0x10, 0x03]" by blast
    then show ?thesis by (intro exI [of _ "b # pre"] exI [of _ rest]) simp
  qed
  show ?case
  proof (cases "b = 0x02 \<or> b = 0x03 \<or> b = 0x10")
    case True
    consider "m = 0" | "m = 1" | "m = 2" | k where "m = Suc (Suc k)" "k \<noteq> 0" by (metis One_nat_def Suc_1 not0_implies_Suc)
    then show ?thesis
    proof cases
      case 3
      then have "p = [0x10, b]" using True Cons.prems(1) by (simp add: numeral_2_eq_2)
      with Cons.prems(3) show ?thesis by (intro exI [of _ "[]"] exI [of _ bs]) simp
    next
      case (4 k)
      then have p: "p = stuff [b] @ take k (stuff bs)" using True Cons.prems(1) by simp
      then have "take k (stuff bs) \<noteq> [] \<Longrightarrow> ?thesis" using later [OF refl, of k] Cons.prems(3) by simp
      moreover have "take k (stuff bs) = [] \<Longrightarrow> ?thesis"
        using p True Cons.prems(3) by (intro exI [of _ "[]"] exI [of _ bs]) auto
      ultimately show ?thesis by blast
    qed (use True Cons.prems in auto)
  next
    case False
    show ?thesis
    proof (cases m)
      case (Suc k)
      then have p: "p = stuff [b] @ take k (stuff bs)" using False Cons.prems(1) by simp
      then have "take k (stuff bs) \<noteq> []" using False Cons.prems(3) by (auto split: if_splits)
      then show ?thesis using later [OF refl, of k] Cons.prems(3) p by simp
    qed (use Cons.prems in simp)
  qed
qed simp

lemma clash_free_last: "clash_free (pre @ 0x03 # rest) \<Longrightarrow> pre \<noteq> [] \<Longrightarrow> last pre \<noteq> 0x10"
  by (induction pre rule: clash_free.induct) auto

text \<open>A frame may be preceded by one byte 0x13.\<close>

definition frame_head :: "byte list \<Rightarrow> bool" where
  "frame_head h \<longleftrightarrow> h = [0x02] \<or> h = [0x13, 0x02]"

lemma looks_complete_end: "looks_complete (h @ q @ [x, 0x03]) \<longleftrightarrow> x \<noteq> 0x10 \<or> last (h @ q) = 0x10" if "frame_head h"
proof -
  have "(h @ q @ [x, 0x03]) ! (length (h @ q @ [x, 0x03]) - 3) = last (h @ q)"
  proof -
    have "h @ q \<noteq> []" using that by (auto simp: frame_head_def)
    then obtain ys y where "h @ q = ys @ [y]" by (cases "h @ q" rule: rev_cases) auto
    then have e: "h @ q @ [x, 0x03] = ys @ [y, x, 0x03]" and l: "last (h @ q) = y" by (metis append.assoc append_Cons append_Nil, simp)
    show ?thesis unfolding e l by (simp add: nth_append)
  qed
  moreover have "(h @ q @ [x, 0x03]) ! (length (h @ q @ [x, 0x03]) - 2) = x" "(h @ q @ [x, 0x03]) ! (length (h @ q @ [x, 0x03]) - 1) = 0x03"
    by (simp_all add: nth_append)
  ultimately show ?thesis using that unfolding looks_complete_def by (auto simp: frame_head_def)
qed

lemma prefix_incomplete:
  assumes "frame_head h" "clash_free bs" "p = take m (stuff bs)"
  shows "\<not> looks_complete (h @ p)"
proof (cases "p = [] \<or> last p \<noteq> 0x03")
  case True
  have "last (h @ p) \<noteq> 0x03" using True assms(1) by (auto simp: frame_head_def split: if_splits)
  moreover have "h @ p \<noteq> []" using assms(1) by (auto simp: frame_head_def)
  ultimately show ?thesis by (simp add: looks_complete_def last_conv_nth)
next
  case False
  with stuff_prefix_end [of m bs p] assms(3) obtain pre rest where b: "bs = pre @ 0x03 # rest" "p = stuff pre @ [0x10, 0x03]" by blast
  have "last (h @ stuff pre) \<noteq> 0x10"
    using clash_free_last [of pre rest] assms(1,2) b(1) by (cases "pre = []") (auto simp: last_stuff frame_head_def)
  then show ?thesis using looks_complete_end [OF assms(1), of "stuff pre" "0x10"] b(2) by simp
qed

lemma frame_complete: "frame_head h \<Longrightarrow> looks_complete (h @ stuff bs @ [0x03])"
proof (cases bs rule: rev_cases)
  case Nil
  then show "frame_head h \<Longrightarrow> ?thesis" by (auto simp: frame_head_def looks_complete_def)
next
  case (snoc xs x)
  assume h: "frame_head h"
  show ?thesis
  proof (cases "x = 0x10")
    case True
    then show ?thesis using looks_complete_end [OF h, of "stuff xs @ [0x10]" "0x10"] snoc by simp
  next
    case False
    have "stuff bs = butlast (stuff bs) @ [x]" using snoc last_stuff [of bs] append_butlast_last_id [of "stuff bs"] by simp
    then show ?thesis using looks_complete_end [OF h, of "butlast (stuff bs)" x] False by (metis append.assoc append_Cons append_Nil)
  qed
qed

section \<open>Reading an answer\<close>

fun event_bytes :: "card_event \<Rightarrow> byte list" where
  "event_bytes (Data bs) = bs"
| "event_bytes e = []"

text \<open>A frame arrives in pieces, with nothing or errors in between; the last piece completes it.\<close>

definition arrives :: "byte list \<Rightarrow> card_event list \<Rightarrow> byte list \<Rightarrow> bool" where
  "arrives frame es piece \<longleftrightarrow> concat (map event_bytes es) @ piece = frame \<and> piece \<noteq> [] \<and> length piece \<le> 128 \<and>
     list_all (\<lambda>e. length (event_bytes e) \<le> 128) es \<and> length frame \<le> 512"

lemma read_loop_pieces:
  assumes "list_all (\<lambda>e. length (event_bytes e) \<le> 128) es" "length es < k" "piece \<noteq> []" "length piece \<le> 128"
    and "tmp @ concat (map event_bytes es) @ piece = frame" "length frame \<le> 512" "looks_complete frame"
    and "\<forall>p q. frame = p @ q \<longrightarrow> q \<noteq> [] \<longrightarrow> \<not> looks_complete p"
  shows "read_loop k tmp (es @ Data piece # rest) = Ok (frame, rest)"
  using assms
proof (induction es arbitrary: k tmp)
  case Nil
  then obtain j where "k = Suc j" by (cases k) auto
  with Nil show ?case by (simp add: Let_def)
next
  case (Cons e es)
  then obtain j where k: "k = Suc j" "length es < j" by (cases k) auto
  have "\<not> looks_complete (tmp @ event_bytes e)" using Cons.prems(3,5,8) by auto
  moreover have "read_loop j (tmp @ event_bytes e) (es @ Data piece # rest) = Ok (frame, rest)"
    by (rule Cons.IH) (use Cons.prems k in simp_all)
  moreover have "length (tmp @ event_bytes e) \<le> 512" using Cons.prems(5,6) by auto
  ultimately show ?case using Cons.prems(1) k(1) by (cases e) (simp_all add: Let_def)
qed

lemma frame_prefix:
  assumes "frame_head h" "clash_free bs" "h @ stuff bs @ [0x03] = p @ q" "q \<noteq> []"
  shows "\<not> looks_complete p"
proof -
  obtain q' where "h @ stuff bs = p @ q'" using assms(3,4) by (cases q rule: rev_cases) auto
  then consider us where "h = p @ us" | us where "p = h @ us" "stuff bs = us @ q'"
    by (auto simp: append_eq_append_conv2)
  then show ?thesis
  proof cases
    case 1
    then show ?thesis using assms(1) by (auto simp: frame_head_def looks_complete_def append_eq_Cons_conv Cons_eq_append_conv)
  next
    case (2 us)
    then have "us = take (length us) (stuff bs)" by simp
    then show ?thesis using prefix_incomplete [OF assms(1,2)] 2(1) by blast
  qed
qed

lemma read_frame:
  assumes "frame_head h" "clash_free bs" "arrives (h @ stuff bs @ [0x03]) es piece" "length es < 100"
  shows "read_loop 100 [] (es @ Data piece # rest) = Ok (h @ stuff bs @ [0x03], rest)"
  by (rule read_loop_pieces)
    (use assms frame_complete [OF assms(1)] frame_prefix [OF assms(1,2)] in \<open>auto simp: arrives_def\<close>)

text \<open>What the code makes of an answer with a status and a first byte of data.\<close>

definition answer_value :: "byte \<Rightarrow> byte list \<Rightarrow> int" where
  "answer_value cmd0 bs =
     (if bs ! 3 \<noteq> cmd0 then -11 else if bs ! 4 \<noteq> 0 then -10 else if cmd0 \<noteq> SEARCH_CARD then -1
      else if bs ! 5 = 0x04 \<or> bs ! 5 = 0x02 then 1 else 2)"

lemma decode_frame:
  assumes "frame_head h" "6 \<le> length bs" "length bs < 512"
  shows "decode_answer cmd0 (h @ stuff bs @ [0x03]) =
    (if bs ! 3 \<noteq> SEARCH_CARD \<and> 253 < length bs then NoFuel else Ok (answer_value cmd0 bs))"
proof -
  let ?t = "h @ stuff bs @ [0x03]" let ?buf = "0x02 # bs @ [0x03]"
  define i where "i = (if byte_at ?t 0 = 0x13 then 1 else 0 :: nat)"
  have i: "byte_at ?t i = 0x02" "?t ! i = 0x02" "drop (i + 1) ?t = stuff bs @ [0x03]"
    using assms(1) by (auto simp: frame_head_def byte_at_def i_def)
  have l: "?t ! (length ?t - 1) = 0x03" by (simp add: nth_append)
  have u: "unstuff (stuff bs @ [0x03]) = bs @ [0x03]" by (simp add: unstuff_stuff)
  have d: "decode_answer cmd0 ?t =
      bind_outcome (if byte_at ?buf 4 \<noteq> SEARCH_CARD then print_hex (?buf @ replicate (512 - length ?buf) 0) (length ?buf) else Ok []) (\<lambda>printed.
        Ok (if byte_at ?buf 4 = cmd0 then if byte_at ?buf 5 = 0 then if byte_at ?buf 4 = SEARCH_CARD then if byte_at ?buf 6 = 0x04 \<or> byte_at ?buf 6 = 0x02 then 1 else 2
          else -1 else -10 else -11))"
    unfolding decode_answer_def i_def [symmetric] Let_def i l u by (simp only: simp_thms if_True)
  have b: "byte_at ?buf 4 = bs ! 3" "byte_at ?buf 5 = bs ! 4" "byte_at ?buf 6 = bs ! 5"
    using assms(2) by (auto simp: byte_at_def nth_append nth_Cons' eval_nat_numeral)
  have p: "print_hex (?buf @ replicate (512 - length ?buf) 0) (length ?buf) = (if 253 < length bs then NoFuel else Ok ?buf)"
    using print_hex_ends [of "length ?buf" "?buf @ replicate (512 - length ?buf) 0"]
      print_hex_forever [of "length ?buf" "?buf @ replicate (512 - length ?buf) 0"] assms(3) by auto
  show ?thesis unfolding d b p by (auto simp: answer_value_def)
qed

lemma length_stuff: "length bs \<le> length (stuff bs)"
  by (induction bs) auto

text \<open>C25: A card is searched for. The command goes out as one frame; if the reader's answer arrives in whatever pieces, with
  pauses and failed reads between them, in fewer than 100 turns and at most 512 bytes, and no byte 0x10 is followed by 0x03 in it, then
  the marks are removed and the result tells the kind of card: 1 for the two kinds of M1 cards, 2 for a CPU card, -10 for a status that is not zero
  and -11 for the answer to another command. Only an answer to another command that has more than 253 bytes without its marks, head and end
  is printed without end.\<close>

theorem search_card_answered:
  assumes "frame_head h" and "clash_free bs" and "6 \<le> length bs" and "arrives (h @ stuff bs @ [FRAME_END]) es piece"
    and "length es < 100" and "turns w = es @ Data piece # rest" and "wrote w = 8 # ws"
  shows "CpuSearchCard w =
    (if bs ! 3 \<noteq> SEARCH_CARD \<and> 253 < length bs then NoFuel
     else Ok (answer_value SEARCH_CARD bs,
       w\<lparr>turns := rest, wrote := ws, sent := sent w @ [[FRAME_HEAD, 0, 0, 4, SEARCH_CARD, 0x52, 0x9C, FRAME_END]]\<rparr>))"
proof -
  have "build_frame (SEARCH_CARD # 0x52 # replicate 62 0) 4 = Ok [FRAME_HEAD, 0, 0, 4, SEARCH_CARD, 0x52, 0x9C, FRAME_END]"
    by (simp add: build_frame_def checksum_def Let_def)
  moreover have "length bs < 512" using assms(1, 4) length_stuff [of bs] by (auto simp: arrives_def frame_head_def)
  ultimately show ?thesis
    using read_frame [OF assms(1,2,4,5), of rest] decode_frame [OF assms(1,3), of SEARCH_CARD] assms(6,7)
    by (simp add: CpuSearchCard_def CpuCardSetCmd_def CpuCardRead_def rd_byte_def byte_at_def)
qed

definition sample_line :: card_io where
  "sample_line = \<lparr>turns = [Quiet, Data [0x02, 0, 0, 5, 0x46], ReadError, Data [0, 0x10], Data [0x02, 0x4D, 0x03]], wrote = [8], sent = []\<rparr>"

theorem search_card_answered_witness:
  "CpuSearchCard sample_line = Ok (1, \<lparr>turns = [], wrote = [], sent = [[0x02, 0, 0, 4, 0x46, 0x52, 0x9C, 0x03]]\<rparr>)"
  using search_card_answered [of "[0x02]" "[0, 0, 5, 0x46, 0, 0x02, 0x4D]"
      "[Quiet, Data [0x02, 0, 0, 5, 0x46], ReadError, Data [0, 0x10]]" "[0x02, 0x4D, 0x03]" sample_line "[]" "[]"]
  by (simp add: frame_head_def arrives_def sample_line_def answer_value_def)

text \<open>Every frame that is sent can be read back: removing the marks from it gives the address, the length, the command with its data, the
  checksum and the end.\<close>

theorem frame_roundtrip:
  assumes "build_frame Cmd DataLen = Ok frame"
  shows "\<exists>body. body = [0, 0, of_nat DataLen] @ take (DataLen - 2) Cmd \<and> hd frame = FRAME_HEAD \<and>
    unstuff (tl frame) = body @ [checksum body, FRAME_END] \<and> length frame \<le> 512"
proof -
  let ?b = "[0, 0, of_nat DataLen] @ take (DataLen - 2) Cmd :: byte list"
  have e: "frame = FRAME_HEAD # stuff (?b @ [checksum ?b]) @ [FRAME_END]"
    using assms by (simp add: build_frame_def Let_def del: stuff.simps stuff_append append_Cons append_Nil split: if_splits)
  moreover have "length frame \<le> 512"
    using assms unfolding e build_frame_def Let_def by (simp del: stuff.simps stuff_append append_Cons append_Nil split: if_splits)
  moreover have "unstuff (stuff (?b @ [checksum ?b]) @ [FRAME_END]) = (?b @ [checksum ?b]) @ [FRAME_END]"
    unfolding unstuff_stuff by simp
  ultimately show ?thesis by (simp del: stuff.simps stuff_append)
qed

theorem frame_roundtrip_witness:
  "build_frame [0x15, 0x03] 4 = Ok [0x02, 0, 0, 4, 0x15, 0x10, 0x03, 0x1C, 0x03] \<and>
   (\<exists>body. body = [0, 0, of_nat 4] @ take (4 - 2) [0x15, 0x03] \<and> hd [0x02, 0, 0, 4, 0x15, 0x10, 0x03, 0x1C, 0x03] = FRAME_HEAD \<and>
    unstuff (tl [0x02, 0, 0, 4, 0x15, 0x10, 0x03, 0x1C, 0x03]) = body @ [checksum body, FRAME_END] \<and>
    length [0x02, 0, 0, 4, 0x15, 0x10, 0x03, 0x1C, 0x03 :: byte] \<le> 512)"
proof -
  have b: "build_frame [0x15, 0x03] 4 = Ok [0x02, 0, 0, 4, 0x15, 0x10, 0x03, 0x1C, 0x03]"
    by (simp add: build_frame_def checksum_def Let_def)
  show ?thesis using b frame_roundtrip [OF b] by blast
qed

section \<open>Starting the reader\<close>

lemma decode_answer_other: "cmd0 \<noteq> SEARCH_CARD \<Longrightarrow> decode_answer cmd0 t = Ok r \<Longrightarrow> r < 0"
  by (auto simp: decode_answer_def Let_def bind_outcome_Ok_iff split: if_splits)

lemma CpuCardSetCmd_other:
  assumes "CpuCardSetCmd (c # cs) n w = Ok (r, w1)" "c \<noteq> SEARCH_CARD"
  shows "r < 0" "length (sent w1) = Suc (length (sent w))"
proof -
  obtain ret rs where "wrote w = ret # rs" using assms(1) by (cases "wrote w") (auto simp: CpuCardSetCmd_def bind_outcome_Ok_iff)
  with assms decode_answer_other [OF assms(2)] show "r < 0" "length (sent w1) = Suc (length (sent w))"
    by (auto simp: CpuCardSetCmd_def CpuCardRead_def rd_byte_def bind_outcome_Ok_iff Let_def split: if_splits)
qed

text \<open>Starting the reader never succeeds early. Only the answer to a search has a value that is not negative, so the command that sets the
  speed is sent three times whatever the reader answers.\<close>

theorem start_sends_three:
  assumes "start_cpucard w = Ok w'"
  shows "length (sent w') = length (sent w) + 3"
proof -
  have "start_loop k w = Ok w' \<Longrightarrow> length (sent w') = length (sent w) + k" for k
  proof (induction k arbitrary: w)
    case (Suc k)
    then obtain r w1 where c: "CpuCardSetCmd (SET_SERIAL_BAUD_RATE # 0x03 # replicate 30 0) 4 w = Ok (r, w1)"
        "(if 0 \<le> r then Ok w1 else start_loop k w1) = Ok w'"
      by (auto simp: bind_outcome_Ok_iff)
    with CpuCardSetCmd_other [OF c(1)] Suc.IH [of w1] show ?case by simp
  qed simp
  from this [of 3] assms show ?thesis by (simp add: start_cpucard_def)
qed

theorem start_sends_three_witness:
  "\<exists>w'. start_cpucard \<lparr>turns = [], wrote = [-1, 0, -1], sent = []\<rparr> = Ok w' \<and> length (sent w') = 3"
proof -
  obtain w' where w': "start_cpucard \<lparr>turns = [], wrote = [-1, 0, -1], sent = []\<rparr> = Ok w'"
    using print_hex_ends [of "Suc (Suc (Suc (Suc (Suc (Suc (Suc (Suc (Suc 0))))))))" "[0x02, 0, 0, 4, 0x15, 0x10, 0x03, 0x1C, 0x03] @ replicate 503 0"]
    by (simp add: start_cpucard_def CpuCardSetCmd_def build_frame_def checksum_def byte_at_def Let_def numeral_3_eq_3)
  with start_sends_three [OF w'] show ?thesis by simp
qed

text \<open>A 0x10 followed by a 0x03 in the data ends the reading when a piece ends there: three bytes 0x10 in a row hide the mark.\<close>

theorem mark_run_ends_reading:
  assumes "frame_head h" and "length (h @ stuff (xs @ [0x10, 0x03])) \<le> 128"
  shows "read_loop (Suc k) [] (Data (h @ stuff (xs @ [0x10, 0x03])) # es) = Ok (h @ stuff (xs @ [0x10, 0x03]), es)"
  using assms looks_complete_end [OF assms(1), of "stuff xs @ [0x10, 0x10]" "0x10"] by (simp add: Let_def)

theorem mark_run_ends_reading_witness:
  "read_loop 5 [] [Data [0x02, 0x10, 0x10, 0x10, 0x03], Data [0x07, 0x03]] = Ok ([0x02, 0x10, 0x10, 0x10, 0x03], [Data [0x07, 0x03]])"
  using mark_run_ends_reading [of "[0x02]" "[]" 4 "[Data [0x07, 0x03]]"] by (simp add: frame_head_def)

end
