(* ===== verification/Net_Ping.thy ===== *)
theory Net_Ping
  imports Memory
begin

text \<open>
  Asking a host whether it is there (base/net_ping.c): the checksum of ICMP packets, building an echo request,
  recognising the answer, and the loop that waits for it. The system calls are a script. The address asked is fixed in the
  source, and the times are not used. The result is 0 exactly if an answer is among the datagrams that arrive.
\<close>

unbundle bit_operations_syntax

abbreviation ICMP_ECHO :: byte where "ICMP_ECHO \<equiv> 8"
abbreviation ICMP_ECHOREPLY :: byte where "ICMP_ECHOREPLY \<equiv> 0"
abbreviation MAX_NO_PACKETS :: nat where "MAX_NO_PACKETS \<equiv> 1"
abbreviation PACKET_SIZE :: nat where "PACKET_SIZE \<equiv> 4096"

section \<open>The checksum\<close>

text \<open>The loop over the 16-bit words of a packet as the host reads them; a last byte alone is the low one of a word.\<close>

fun word_sum :: "byte list \<Rightarrow> nat" where
  "word_sum (a # b # bs) = unat (rd16 a b) + word_sum bs"
| "word_sum [a] = unat a"
| "word_sum [] = 0"

text \<open>\<^verbatim>\<open>cal_chksum\<close>: the sum is an \<open>int\<close>, one that does not fit it is a fault.\<close>

definition cal_chksum :: "byte list \<Rightarrow> 16 word outcome" where
  "cal_chksum bs =
     (let sum = word_sum bs in
      if 2 ^ 31 \<le> sum then Fault
      else
        (let sum = drop_bit 16 sum + (sum AND 0xffff);
             sum = sum + drop_bit 16 sum
         in Ok (NOT (of_nat sum))))"

section \<open>Packets\<close>

text \<open>
  \<^verbatim>\<open>pack\<close>: the header of an echo request with the process id and the number of the packet cut to 16 bits, and the bytes
  of the time as data.
\<close>

definition echo_bytes :: "byte \<Rightarrow> 16 word \<Rightarrow> int \<Rightarrow> int \<Rightarrow> byte list \<Rightarrow> byte list" where
  "echo_bytes type cksum pid pkt_no tval =
     [type, 0] @ mem16 cksum @ mem16 (of_int pid) @ mem16 (of_int pkt_no) @ tval"

definition pack :: "int \<Rightarrow> int \<Rightarrow> byte list \<Rightarrow> byte list outcome" where
  "pack pid pkt_no tval =
     bind_outcome (cal_chksum (echo_bytes ICMP_ECHO 0 pid pkt_no tval)) (\<lambda>cksum.
       Ok (echo_bytes ICMP_ECHO cksum pid pkt_no tval))"

text \<open>\<^verbatim>\<open>unpack\<close>: 0 for the answer to the own packet, -1 otherwise. The fields of 16 bits are compared with whole integers.\<close>

definition unpack :: "int \<Rightarrow> int \<Rightarrow> byte list \<Rightarrow> int \<Rightarrow> int outcome" where
  "unpack pid cur_seq buf len =
     bind_outcome (rd_byte buf 0) (\<lambda>b.
       let iphdrlen = 4 * unat (b AND 0x0f) in
       if len - int iphdrlen < 8 then Ok (-1)
       else
         bind_outcome (rd_byte buf iphdrlen) (\<lambda>icmp_type.
         bind_outcome (rd_u16 buf (iphdrlen + 4)) (\<lambda>icmp_id.
         bind_outcome (rd_u16 buf (iphdrlen + 6)) (\<lambda>icmp_seq.
           Ok (if icmp_type = ICMP_ECHOREPLY \<and> uint icmp_id = pid \<and> uint icmp_seq = cur_seq then 0 else -1)))))"

section \<open>Sending and receiving\<close>

text \<open>
  One turn of the receiving loop: a packet, a receive that was interrupted or failed, or a \<open>select\<close> that returned without the socket being
  ready.
\<close>

datatype ping_event = Packet "byte list" | Interrupted | Failed | NotReady

text \<open>
  The loop of \<^verbatim>\<open>recv_packet\<close> with the length of the last packet, which has no value before the first one.
\<close>

fun recv_packet :: "int \<Rightarrow> int \<Rightarrow> nat option \<Rightarrow> byte list \<Rightarrow> ping_event list \<Rightarrow> (int \<times> byte list \<times> ping_event list) outcome" where
  "recv_packet pid pkt_no n buf [] = NoFuel"
| "recv_packet pid pkt_no n buf (Packet bs # es) =
     (let got = take PACKET_SIZE bs; buf1 = got @ drop (length got) buf in
      bind_outcome (unpack pid pkt_no buf1 (int (length got))) (\<lambda>r.
        if r = -1 then recv_packet pid pkt_no (Some (length got)) buf1 es else Ok (1, buf1, es)))"
| "recv_packet pid pkt_no n buf (Interrupted # es) = Ok (-1, buf, es)"
| "recv_packet pid pkt_no n buf (Failed # es) = Ok (-2, buf, es)"
| "recv_packet pid pkt_no n buf (NotReady # es) =
     (case n of
        None \<Rightarrow> Fault
      | Some k \<Rightarrow>
          bind_outcome (unpack pid pkt_no buf (int k)) (\<lambda>r.
            if r = -1 then recv_packet pid pkt_no n buf es else Ok (1, buf, es)))"

text \<open>What the system does: the results of \<open>socket\<close>, of both \<open>fcntl\<close> and of \<open>sendto\<close>, the process id, the bytes of the time, and the
  receive buffer.\<close>

record ping_sys =
  sockfd_ret :: int
  getfl_ret :: int
  setfl_ret :: int
  sendto_ret :: "int list"
  process_id :: int
  time_bytes :: "byte list"
  recvpacket :: "byte list"
  ping_events :: "ping_event list"

text \<open>\<^verbatim>\<open>send_packet\<close>: the return value, with the packet that was built.\<close>

definition send_packet :: "int \<Rightarrow> ping_sys \<Rightarrow> (int \<times> byte list \<times> ping_sys) outcome" where
  "send_packet pkt_no s =
     bind_outcome (pack (process_id s) pkt_no (time_bytes s)) (\<lambda>pkt.
       case sendto_ret s of
         [] \<Rightarrow> NoFuel
       | r # rs \<Rightarrow> Ok (if r < 0 then -1 else 1, pkt, s\<lparr>sendto_ret := rs\<rparr>))"

text \<open>The loop of \<^verbatim>\<open>NetIsOk\<close> over the packets to send: the return value and the packets sent.\<close>

fun ping_loop :: "nat \<Rightarrow> int \<Rightarrow> ping_sys \<Rightarrow> byte list list \<Rightarrow> (int \<times> byte list list) outcome" where
  "ping_loop 0 i s out = Ok (-1, out)"
| "ping_loop (Suc k) i s out =
     bind_outcome (send_packet i s) (\<lambda>(sent_ret, pkt, s1).
       if sent_ret < 0 then Ok (-1, out)
       else
         bind_outcome (recv_packet (process_id s1) i None (recvpacket s1) (ping_events s1)) (\<lambda>(ret, buf, es).
           if 0 < ret then Ok (0, out @ [pkt])
           else ping_loop k (i + 1) (s1\<lparr>recvpacket := buf, ping_events := es\<rparr>) (out @ [pkt])))"

definition NetIsOk :: "ping_sys \<Rightarrow> (int \<times> byte list list) outcome" where
  "NetIsOk s =
     (if sockfd_ret s < 0 then Ok (-1, [])
      else if getfl_ret s < 0 then Ok (-1, [])
      else if setfl_ret s < 0 then Ok (-1, [])
      else ping_loop MAX_NO_PACKETS 0 s [])"

section \<open>The checksum of RFC 1071\<close>

text \<open>
  The one's complement sum: the sum of the words without the multiples of 65535, where zero stands for all bits clear only if every
  word is.
\<close>

definition ones_sum :: "nat \<Rightarrow> nat" where
  "ones_sum s = (if s = 0 then 0 else (s - 1) mod 65535 + 1)"

lemma fold_carries:
  assumes "s < 2 ^ 31"
  shows "(let t = s div 65536 + s mod 65536 in (t + t div 65536) mod 65536) = ones_sum s"
proof -
  define q r where "q = s div 65536" and "r = s mod 65536"
  have s: "s = 65536 * q + r" and r: "r < 65536" and q: "q < 32768" using assms by (simp_all add: q_def r_def)
  have s': "s = 65535 * q + (q + r)" using s by simp
  show ?thesis
  proof (cases "q + r < 65536")
    case True
    have "ones_sum s = q + r"
    proof (cases "q + r = 0")
      case False
      then have "(s - 1) mod 65535 = (q + r - 1) mod 65535" using s' by (metis (no_types) Nat.add_diff_assoc Suc_leI mod_mult_self4 neq0_conv One_nat_def)
      then show ?thesis using False True s' by (simp add: ones_sum_def)
    qed (simp add: s' ones_sum_def)
    then show ?thesis using True by (simp add: q_def r_def Let_def)
  next
    case False
    then have t: "(q + r) div 65536 = 1" "q + r \<le> 131071" using q r by simp_all
    then have "(q + r + 1) mod 65536 = q + r - 65535" using False q r by (simp add: mod_if)
    moreover have "(s - 1) mod 65535 = q + r - 65536"
    proof -
      have "s - 1 = 65535 * (q + 1) + (q + r - 65536)" using s' False by simp
      then have "(s - 1) mod 65535 = (q + r - 65536) mod 65535" by (simp only: mod_mult_self4)
      then show ?thesis using q r by simp
    qed
    moreover have "s \<noteq> 0" using s False by linarith
    ultimately have "(q + r + 1) mod 65536 = ones_sum s" using False by (simp add: ones_sum_def)
    then show ?thesis unfolding Let_def q_def [symmetric] r_def [symmetric] t(1) .
  qed
qed

lemma unat_NOT16: "unat (NOT w :: 16 word) = 65535 - unat w"
proof -
  have "NOT w = - 1 - w" by (simp add: not_eq_complement)
  moreover have "unat (- 1 - w) = unat (- 1 :: 16 word) - unat w" by (rule unat_sub) simp
  ultimately show ?thesis by (simp add: unsigned_minus_1_eq_mask mask_eq_exp_minus_1)
qed

lemma chksum_value:
  assumes "word_sum bs < 2 ^ 31"
  shows "\<exists>c. cal_chksum bs = Ok c \<and> unat c = 65535 - ones_sum (word_sum bs)"
proof -
  let ?s = "word_sum bs" let ?t = "?s div 65536 + ?s mod 65536"
  have "drop_bit 16 n + (n AND 0xffff) = n div 65536 + n mod 65536" for n :: nat
  proof -
    have m: "(0xffff :: nat) = mask 16" by (simp add: mask_eq_exp_minus_1)
    show ?thesis unfolding m by (simp add: take_bit_eq_mod drop_bit_eq_div flip: take_bit_eq_mask)
  qed
  then have "cal_chksum bs = Ok (NOT (of_nat (?t + ?t div 65536)))"
    using assms by (simp add: cal_chksum_def Let_def drop_bit_eq_div)
  moreover have u: "unat (of_nat n :: 16 word) = n mod 65536" for n by (simp add: unsigned_of_nat take_bit_eq_mod)
  moreover have "unat (NOT (of_nat (?t + ?t div 65536) :: 16 word)) = 65535 - ones_sum ?s"
    unfolding unat_NOT16 u using fold_carries [OF assms] by (simp add: Let_def)
  ultimately show ?thesis by blast
qed

lemma word_sum_append: "even (length xs) \<Longrightarrow> word_sum (xs @ ys) = word_sum xs + word_sum ys"
  by (induction xs rule: word_sum.induct) auto

lemma word_sum_bound: "word_sum bs \<le> 65535 * ((length bs + 1) div 2)"
proof (induction bs rule: word_sum.induct)
  case (1 a b bs)
  have "unat (rd16 a b) < 65536" using unsigned_less [of "rd16 a b"] by simp
  with 1 show ?case by simp
next
  case (2 a)
  have "unat a < 256" using unsigned_less [of a] by simp
  then show ?case by simp
qed simp

lemma ones_sum_cancels: "ones_sum (s + (65535 - ones_sum s)) = 65535"
proof (cases "s = 0")
  case False
  define m where "m = (s - 1) mod 65535"
  have o: "ones_sum s = m + 1" and m: "m < 65535" using False by (simp_all add: ones_sum_def m_def)
  have "s - 1 = 65535 * ((s - 1) div 65535) + m" by (simp add: m_def)
  then have "s + (65535 - ones_sum s) - 1 = 65535 * ((s - 1) div 65535) + 65534" using False m o by linarith
  then have "(s + (65535 - ones_sum s) - 1) mod 65535 = 65534 mod 65535" by (simp only: mod_mult_self4)
  then show ?thesis using False by (simp add: ones_sum_def)
qed (simp add: ones_sum_def)

lemma checksum_verifies_lemma:
  assumes "even (length xs)" and "length xs + length ys \<le> 65530"
  shows "\<exists>c. cal_chksum (xs @ [0, 0] @ ys) = Ok c \<and> unat c = 65535 - ones_sum (word_sum (xs @ [0, 0] @ ys)) \<and>
    cal_chksum (xs @ mem16 c @ ys) = Ok 0"
proof -
  let ?s = "word_sum xs + word_sum ys"
  have "rd16 0 0 = 0" using rd16_mem16 [of 0] by (simp add: mem16_def)
  then have z: "word_sum (xs @ [0, 0] @ ys) = ?s" using assms(1) by (simp add: word_sum_append)
  have b: "?s + 65535 < 2 ^ 31" using word_sum_bound [of xs] word_sum_bound [of ys] assms(2) by simp
  obtain c where c: "cal_chksum (xs @ [0, 0] @ ys) = Ok c" "unat c = 65535 - ones_sum ?s"
    using chksum_value [of "xs @ [0, 0] @ ys"] z b by auto
  have "word_sum (xs @ mem16 c @ ys) = word_sum xs + unat c + word_sum ys"
    using assms(1) rd16_mem16 [of c] by (simp add: word_sum_append mem16_def)
  then have w: "word_sum (xs @ mem16 c @ ys) = ?s + (65535 - ones_sum ?s)" using c(2) by simp
  have "word_sum (xs @ mem16 c @ ys) < 2 ^ 31" unfolding w using b diff_le_self [of 65535 "ones_sum ?s"] by linarith
  from chksum_value [OF this] obtain d where "cal_chksum (xs @ mem16 c @ ys) = Ok d" "unat d = 65535 - 65535"
    unfolding w ones_sum_cancels by blast
  then show ?thesis using c z by (metis diff_self_eq_0 unat_eq_zero)
qed

text \<open>The checksum does what RFC 1071 asks for. For every packet of at most 65534 bytes with two zero bytes at an even offset, the value
  computed is the complement of the one's complement sum of its words; and stored at that place, it makes the checksum of the packet zero, which
  is how a receiver verifies it.\<close>

theorem checksum_verifies:
  assumes "even (length xs)" and "length xs + length ys \<le> 65530"
  shows "\<exists>c. cal_chksum (xs @ [0, 0] @ ys) = Ok c \<and> unat c = 65535 - ones_sum (word_sum (xs @ [0, 0] @ ys)) \<and>
    cal_chksum (xs @ mem16 c @ ys) = Ok 0"
  by (rule checksum_verifies_lemma [OF assms])

theorem checksum_verifies_witness:
  "\<exists>c. cal_chksum ([8, 0] @ [0, 0] @ [7, 0, 1, 0]) = Ok c \<and> unat c = 65535 - ones_sum (word_sum ([8, 0] @ [0, 0] @ [7, 0, 1, 0])) \<and>
    cal_chksum ([8, 0] @ mem16 c @ [7, 0, 1, 0]) = Ok 0"
  using checksum_verifies [of "[8, 0]" "[7, 0, 1, 0]"] by simp

section \<open>Requests and answers\<close>

text \<open>
  What arrives: a datagram with an ICMP message, which is an IP header of \<open>4 * ihl\<close> bytes, the eight bytes of the ICMP header and data; or a datagram with
  fewer than eight bytes behind its IP header.
\<close>

datatype datagram =
    Icmp "byte list" byte byte "16 word" "16 word" "16 word" "byte list"
  | Runt "byte list"

definition ip_header_len :: "byte list \<Rightarrow> nat" where
  "ip_header_len bs = 4 * unat (hd bs AND 0x0f)"

fun datagram_bytes :: "datagram \<Rightarrow> byte list" where
  "datagram_bytes (Icmp hdr type code cksum ident seq body) = hdr @ [type, code] @ mem16 cksum @ mem16 ident @ mem16 seq @ body"
| "datagram_bytes (Runt bs) = bs"

fun datagram_ok :: "datagram \<Rightarrow> bool" where
  "datagram_ok (Icmp hdr type code cksum ident seq body) \<longleftrightarrow> hdr \<noteq> [] \<and> length hdr = ip_header_len hdr \<and> length hdr + 8 + length body \<le> PACKET_SIZE"
| "datagram_ok (Runt bs) \<longleftrightarrow> bs \<noteq> [] \<and> length bs < ip_header_len bs + 8 \<and> length bs \<le> PACKET_SIZE"

text \<open>The echo reply of RFC 792 to the request with an identifier and a sequence number.\<close>

fun answers :: "16 word \<Rightarrow> 16 word \<Rightarrow> datagram \<Rightarrow> bool" where
  "answers ident seq (Icmp hdr type code cksum ident' seq' body) \<longleftrightarrow> type = ICMP_ECHOREPLY \<and> ident' = ident \<and> seq' = seq"
| "answers ident seq (Runt bs) \<longleftrightarrow> False"

lemma unpack_icmp:
  assumes "hdr \<noteq> []" "length hdr = ip_header_len hdr" "d = Icmp hdr type code ck ident seq body" "n = int (length (datagram_bytes d))"
  shows "unpack pid cur_seq (datagram_bytes d @ rest) n = Ok (if type = ICMP_ECHOREPLY \<and> uint ident = pid \<and> uint seq = cur_seq then 0 else -1)"
proof -
  let ?k = "length hdr" let ?buf = "datagram_bytes d @ rest"
  have d: "drop ?k ?buf = [type, code] @ mem16 ck @ mem16 ident @ mem16 seq @ body @ rest" using assms(3) by simp
  have d4: "drop (?k + 4) ?buf = mem16 ident @ mem16 seq @ body @ rest"
    using drop_more [of ?k ?buf "[type, code] @ mem16 ck" _ 4] d by simp
  have d6: "drop (?k + 6) ?buf = mem16 seq @ body @ rest"
    using drop_more [of ?k ?buf "[type, code] @ mem16 ck @ mem16 ident" _ 6] d by simp
  have "rd_byte ?buf ?k = Ok type" using drop_nth [OF d, of 0] by (simp add: rd_byte_def)
  moreover have "rd_byte ?buf 0 = Ok (hd hdr)" using assms(1, 3) by (auto simp: rd_byte_def hd_conv_nth nth_append)
  moreover note rd_u16_mem16 [OF d4] rd_u16_mem16 [OF d6]
  moreover have "\<not> n - int (4 * unat (hd hdr AND 0x0f)) < 8" using assms(2-4) by (simp add: ip_header_len_def)
  ultimately show ?thesis using assms(2) by (simp add: unpack_def ip_header_len_def Let_def)
qed

text \<open>A datagram is recognised exactly if it is the echo reply, whatever an older one left behind it in the buffer.\<close>

lemma unpack_datagram:
  assumes "datagram_ok d"
  shows "unpack (uint ident) (uint seq) (datagram_bytes d @ rest) (int (length (datagram_bytes d))) = Ok (if answers ident seq d then 0 else -1)"
proof (cases d)
  case (Icmp hdr type code ck ident' seq' body)
  with assms show ?thesis using unpack_icmp [OF _ _ Icmp refl, of "uint ident" "uint seq" rest] by (auto simp: word_uint_eq_iff)
next
  case (Runt bs)
  have "rd_byte (bs @ rest) 0 = Ok (hd bs)" using assms Runt by (auto simp: rd_byte_def hd_conv_nth nth_append)
  moreover have "int (length bs) - int (4 * unat (hd bs AND 0x0f)) < 8" using assms Runt by (simp add: ip_header_len_def del: of_nat_mult)
  ultimately show ?thesis using Runt by (simp add: unpack_def Let_def)
qed

lemma recv_datagrams:
  assumes "list_all datagram_ok ds" "length buf = PACKET_SIZE" "e = Interrupted \<or> e = Failed"
  shows "\<exists>r buf' es'. recv_packet (uint ident) (uint seq) n buf (map (\<lambda>d. Packet (datagram_bytes d)) ds @ e # es) = Ok (r, buf', es') \<and>
    (0 < r \<longleftrightarrow> (\<exists>d \<in> set ds. answers ident seq d))"
  using assms(1, 2)
proof (induction ds arbitrary: n buf)
  case Nil
  then show ?case using assms(3) by auto
next
  case (Cons d ds)
  let ?b = "datagram_bytes d @ drop (length (datagram_bytes d)) buf"
  have ok: "datagram_ok d" using Cons.prems(1) by simp
  then have l: "length (datagram_bytes d) \<le> PACKET_SIZE" by (cases d) simp_all
  then have t: "take PACKET_SIZE (datagram_bytes d) = datagram_bytes d" "length ?b = PACKET_SIZE" using Cons.prems(2) by simp_all
  show ?case
  proof (cases "answers ident seq d")
    case True
    then show ?thesis using unpack_datagram [OF ok, of ident seq] by (simp add: Let_def t(1))
  next
    case False
    then show ?thesis using unpack_datagram [OF ok, of ident seq] Cons.IH [OF _ t(2)] Cons.prems(1) by (simp add: Let_def t(1))
  qed
qed

text \<open>The request: type, code, checksum, the low half of the process id, the number of the packet, and the bytes of the time.\<close>

lemma pack_request:
  assumes "length tval \<le> 64"
  shows "\<exists>c. pack pid pkt_no tval = Ok ([ICMP_ECHO, 0] @ mem16 c @ mem16 (of_int pid) @ mem16 (of_int pkt_no) @ tval) \<and>
    unat c = 65535 - ones_sum (word_sum ([ICMP_ECHO, 0] @ [0, 0] @ mem16 (of_int pid) @ mem16 (of_int pkt_no) @ tval))"
proof -
  let ?ys = "mem16 (of_int pid) @ mem16 (of_int pkt_no) @ tval"
  have z: "echo_bytes ICMP_ECHO 0 pid pkt_no tval = [8, 0] @ [0, 0] @ ?ys" by (simp add: echo_bytes_def mem16_def)
  obtain c where "cal_chksum ([8, 0] @ [0, 0] @ ?ys) = Ok c" "unat c = 65535 - ones_sum (word_sum ([8, 0] @ [0, 0] @ ?ys))"
    using checksum_verifies_lemma [of "[8, 0]" ?ys] assms by auto
  then show ?thesis unfolding pack_def z by (intro exI [of _ c]) (simp add: echo_bytes_def)
qed

text \<open>C27: The host is found to be up exactly if it answers. A process with an id of 16 bits sends one echo request, with the checksum of RFC 1071 over its
  bytes; then any datagrams arrive, until a receive is interrupted or fails. The result is 0 if one of them is an echo reply with the identifier of
  the process and the sequence number of the request, and -1 if none is: messages of other types, replies to other processes and datagrams that are
  too short do not count.\<close>

theorem ping_answered:
  assumes "0 \<le> process_id s" and "process_id s < 65536" and "0 \<le> sockfd_ret s" and "0 \<le> getfl_ret s" and "0 \<le> setfl_ret s"
    and "sendto_ret s = r # rs" and "0 \<le> r" and "length (time_bytes s) \<le> 64" and "length (recvpacket s) = PACKET_SIZE"
    and "ping_events s = map (\<lambda>d. Packet (datagram_bytes d)) ds @ e # es" and "list_all datagram_ok ds" and "e = Interrupted \<or> e = Failed"
  shows "\<exists>c. NetIsOk s = Ok (if \<exists>d \<in> set ds. answers (of_int (process_id s)) 0 d then 0 else -1,
      [[ICMP_ECHO, 0] @ mem16 c @ mem16 (of_int (process_id s)) @ mem16 0 @ time_bytes s]) \<and>
    unat c = 65535 - ones_sum (word_sum ([ICMP_ECHO, 0] @ [0, 0] @ mem16 (of_int (process_id s)) @ mem16 0 @ time_bytes s))"
proof -
  have u: "uint (of_int (process_id s) :: 16 word) = process_id s" "uint (0 :: 16 word) = 0"
    using assms(1,2) by (simp_all add: uint_word_of_int_eq take_bit_int_eq_self)
  obtain ret buf' es' where ret: "recv_packet (process_id s) 0 None (recvpacket s) (ping_events s) = Ok (ret, buf', es')"
      "0 < ret \<longleftrightarrow> (\<exists>d \<in> set ds. answers (of_int (process_id s)) 0 d)"
    using recv_datagrams [OF assms(11,9,12), of "of_int (process_id s)" 0 None es] unfolding assms(10) u by blast
  obtain c where c: "pack (process_id s) 0 (time_bytes s) = Ok ([ICMP_ECHO, 0] @ mem16 c @ mem16 (of_int (process_id s)) @ mem16 0 @ time_bytes s)"
      "unat c = 65535 - ones_sum (word_sum ([ICMP_ECHO, 0] @ [0, 0] @ mem16 (of_int (process_id s)) @ mem16 0 @ time_bytes s))"
    using pack_request [OF assms(8), of "process_id s" 0] by auto
  have "NetIsOk s = Ok (if \<exists>d \<in> set ds. answers (of_int (process_id s)) 0 d then 0 else -1,
      [[ICMP_ECHO, 0] @ mem16 c @ mem16 (of_int (process_id s)) @ mem16 0 @ time_bytes s])"
    using assms(3-7) c(1) ret by (simp add: NetIsOk_def send_packet_def)
  with c(2) show ?thesis by blast
qed

definition sample_ip :: "byte list" where
  "sample_ip = 0x45 # replicate 19 0"

text \<open>The own request seen on the line, a reply to another process, a datagram cut short, and the answer.\<close>

definition sample_datagrams :: "datagram list" where
  "sample_datagrams = [Icmp sample_ip 8 0 0 777 0 [], Icmp sample_ip 0 0 0 778 0 [], Runt (sample_ip @ [0, 0]), Icmp sample_ip 0 0 0 777 0 (replicate 16 1)]"

definition sample_host :: "datagram list \<Rightarrow> ping_sys" where
  "sample_host ds = \<lparr>sockfd_ret = 3, getfl_ret = 2, setfl_ret = 0, sendto_ret = [24], process_id = 777, time_bytes = replicate 16 1,
     recvpacket = replicate PACKET_SIZE 0, ping_events = map (\<lambda>d. Packet (datagram_bytes d)) ds @ [Failed]\<rparr>"

lemma sample_datagrams_ok: "list_all datagram_ok sample_datagrams"
  by (simp add: sample_datagrams_def sample_ip_def ip_header_len_def)

theorem ping_answered_witness:
  "(\<exists>pkt. NetIsOk (sample_host sample_datagrams) = Ok (0, [pkt])) \<and> (\<exists>pkt. NetIsOk (sample_host (butlast sample_datagrams)) = Ok (-1, [pkt]))"
proof -
  note ok = sample_datagrams_ok
  have w: "\<exists>c. NetIsOk (sample_host ds) = Ok (if \<exists>d \<in> set ds. answers 777 0 d then 0 else -1, [[ICMP_ECHO, 0] @ mem16 c @ mem16 777 @ mem16 0 @ replicate 16 1])"
    if "list_all datagram_ok ds" for ds
    using ping_answered [of "sample_host ds" 24 "[]" ds Failed "[]"] that by (auto simp: sample_host_def)
  have "\<exists>d \<in> set sample_datagrams. answers 777 0 d" "\<not> (\<exists>d \<in> set (butlast sample_datagrams). answers 777 0 d)"
    by (simp_all add: sample_datagrams_def)
  moreover have "list_all datagram_ok (butlast sample_datagrams)" using ok by (auto simp: list_all_iff dest: in_set_butlastD)
  ultimately show ?thesis using w [OF ok] w [of "butlast sample_datagrams"] by auto
qed

lemma unpack_large_pid: "65536 \<le> pid \<Longrightarrow> unpack pid seq buf n = Ok r \<Longrightarrow> r = -1"
proof -
  assume p: "65536 \<le> pid" and u: "unpack pid seq buf n = Ok r"
  have "uint w \<noteq> pid" for w :: "16 word"
  proof -
    have "uint w < 2 ^ 16" using unsigned_less [of w] by simp
    with p show ?thesis by auto
  qed
  with u show "r = -1" by (auto simp: unpack_def Let_def bind_outcome_Ok_iff split: if_splits)
qed

lemma recv_large_pid:
  assumes "65536 \<le> pid"
  shows "recv_packet pid seq n buf es = Ok (r, buf', es') \<Longrightarrow> r < 0"
proof (induction es arbitrary: n buf)
  case (Cons e es)
  show ?case
  proof (cases e)
    case (Packet bs)
    let ?got = "take PACKET_SIZE bs" let ?b = "?got @ drop (length ?got) buf"
    from Cons.prems Packet obtain x where x: "unpack pid seq ?b (int (length ?got)) = Ok x"
        "(if x = -1 then recv_packet pid seq (Some (length ?got)) ?b es else Ok (1, ?b, es)) = Ok (r, buf', es')"
      by (auto simp: Let_def bind_outcome_Ok_iff)
    with unpack_large_pid [OF assms x(1)] Cons.IH show ?thesis by simp
  next
    case NotReady
    with Cons.prems obtain k x where x: "unpack pid seq buf (int k) = Ok x"
        "(if x = -1 then recv_packet pid seq n buf es else Ok (1, buf, es)) = Ok (r, buf', es')"
      by (auto simp: bind_outcome_Ok_iff split: option.splits)
    with unpack_large_pid [OF assms x(1)] Cons.IH show ?thesis by simp
  qed (use Cons.prems in auto)
qed simp

lemma ping_loop_large_pid: "ping_loop k i s out = Ok (r, out') \<Longrightarrow> 65536 \<le> process_id s \<Longrightarrow> r = -1"
proof (induction k arbitrary: i s out)
  case (Suc k)
  obtain sr pkt s1 where sent: "send_packet i s = Ok (sr, pkt, s1)"
    using Suc.prems(1) by (auto simp: bind_outcome_Ok_iff)
  have pid: "65536 \<le> process_id s1"
    using sent Suc.prems(2) by (cases "sendto_ret s") (auto simp: send_packet_def bind_outcome_Ok_iff)
  show ?case
  proof (cases "sr < 0")
    case True
    with Suc.prems(1) sent show ?thesis by simp
  next
    case False
    with Suc.prems(1) sent obtain ret buf es where
      ret: "recv_packet (process_id s1) i None (recvpacket s1) (ping_events s1) = Ok (ret, buf, es)"
      and again: "(if 0 < ret then Ok (0, out @ [pkt])
        else ping_loop k (i + 1) (s1\<lparr>recvpacket := buf, ping_events := es\<rparr>) (out @ [pkt])) = Ok (r, out')"
      by (auto simp: bind_outcome_Ok_iff)
    have "ret < 0" by (rule recv_large_pid [OF pid ret])
    with again have "ping_loop k (i + 1) (s1\<lparr>recvpacket := buf, ping_events := es\<rparr>) (out @ [pkt]) = Ok (r, out')" by simp
    from Suc.IH [OF this] pid show ?thesis by simp
  qed
qed simp

text \<open>A process id of more than 16 bits never gets an answer: the field of the packet is compared with the whole id.\<close>

theorem large_pid_never_answered:
  assumes "65536 \<le> process_id s"
  shows "NetIsOk s \<noteq> Ok (0, out)"
  using ping_loop_large_pid [OF _ assms, of MAX_NO_PACKETS 0 "[]" 0 out] by (auto simp: NetIsOk_def)

theorem large_pid_never_answered_witness: "NetIsOk ((sample_host [])\<lparr>process_id := 70000\<rparr>) \<noteq> Ok (0, [])"
  by (rule large_pid_never_answered) simp

end
