(* ===== verification/Http_Text.thy ===== *)
theory Http_Text
  imports Memory
begin

text \<open>
  The texts of the HTTP client (tools/network/http_client_cjson/http_client.c): the session and its settings, searching the response
  for its parts and reading it, taking a URL apart, options and information. The characters of a text are their codes. A response
  of the usual form is read as what it says, and a URL is read back into the parts it is made of.
\<close>

section \<open>Codes and options\<close>

datatype MRJEcode =
    MRJE_ERR | MRJE_OK | MRJE_UNKNOWN | MRJE_URLINLEGAL | MRJE_CRSOCKFAL | MRJE_IOCTLFAL | MRJE_NOTFINDHOST
  | MRJE_NOTCONNHOST | MRJE_DISCONNHOST | MRJE_NOCOMPLETERES | MRJE_SNDREQERR | MRJE_EMPTYRES | MRJE_ENOCOMPLETERES
  | MRJE_CRLOCALFILEFAL | MRJE_SELECTFAL | MRJE_TIME_OUT | MRJE_NORESPONSE | MRJE_HTTP_SERVERE400 | MRJE_HTTP_SERVERE401
  | MRJE_HTTP_SERVERE403 | MRJE_HTTP_SERVERE404 | MRJE_HTTP_SERVERE500 | MRJE_HTTP_SERVERE503 | MRJE_BAD_FUNCTION_ARGUMENT
  | MRJE_OUT_OF_MEMORY | MRJE_UNSUPPORTED_PROTOCOL | MRJE_FAILED_INIT | MRJE_UNKNOWN_OPTION | MRJE_WRITE_ERROR
  | MRJE_UPLOAD_FAILED | MRJE_READ_ERROR | MRJE_OPERATION_TIMEDOUT | MRJE_FUNCTION_NOT_FOUND | MRJE_INTERFACE_FAILED
  | MRJE_SEND_ERROR | MRJE_RECV_ERROR | MRJE_AGAIN | MRJE_NO_CONNECTION_AVAILABLE | MRJE_ABORTED_BY_CALLBACK
  | MRJE_OPEN_FILE_ERROR | MRJE_SELECT_FAIL | MRJE_SELECT_TIME_OUT | MRJE_GET_SOCKOPT_ERROR | MRJE_FCNTL_ERROR
  | MRJE_CONNECT_NONB_ERROR

datatype MRJ_HttpReq = HTTPREQ_NONE | HTTPREQ_GET | HTTPREQ_POST | HTTPREQ_POST_FORM | HTTPREQ_PUT | HTTPREQ_HEAD | HTTPREQ_CUSTOM | HTTPREQ_LAST

abbreviation MRJ_DEF_PORT :: int where "MRJ_DEF_PORT \<equiv> 80"
abbreviation MRJ_MAX_PATH :: nat where "MRJ_MAX_PATH \<equiv> 256"
abbreviation MRJ_MAX_REQHEAD :: nat where "MRJ_MAX_REQHEAD \<equiv> 1024"
abbreviation MRJ_MAX_RESPHEAD :: nat where "MRJ_MAX_RESPHEAD \<equiv> 10 * 1024"
abbreviation MRJ_MAX_HOST :: nat where "MRJ_MAX_HOST \<equiv> 128"
abbreviation MRJ_MAX_BUFSIZE :: nat where "MRJ_MAX_BUFSIZE \<equiv> 2048"
abbreviation MRJ_DOWN_PERSIZE :: nat where "MRJ_DOWN_PERSIZE \<equiv> 1440"

definition MRJ_HTTPID :: "int list" where "MRJ_HTTPID = codes ''HTTP/1.1''"
definition MRJ_CONTENTLEN :: "int list" where "MRJ_CONTENTLEN = codes ''Content-Length:''"
definition MRJ_ENDOFHEAD :: "int list" where "MRJ_ENDOFHEAD = [13, 10, 13, 10]"

section \<open>The session\<close>

text \<open>
  A write callback gets a buffer and the number of bytes in it, and works on the user's data \<^verbatim>\<open>event_args\<close>; it returns a number
  of bytes. The settings hold that data and the callback.
\<close>

type_synonym 'u write_callback = "int list \<Rightarrow> nat \<Rightarrow> 'u \<Rightarrow> (nat \<times> 'u) outcome"

record 'u UserDefined =
  verbose :: bool
  httpreq :: MRJ_HttpReq
  httpversion :: int
  timeout_ms :: int
  connecttimeout :: int
  fwrite_func :: "'u write_callback option"
  is_fwrite_set :: int
  event_args :: 'u
  set_url :: "int list option"
  send_len :: nat
  send_buf :: "int list option"
  recv_len :: nat
  recv_buf :: "int list option"
  set_resume_from :: nat

record PureInfo =
  httpcode :: int
  content_len :: nat

record 'u SessionHandle =
  sock :: int
  remote_addr :: "16 word \<times> 32 word"
  port :: int
  host :: "int list"
  remote_path :: "int list"
  request_send :: "int list"
  request_send_len :: nat
  response_recv :: "int list"
  response_recv_len :: nat
  set_opt :: "'u UserDefined"
  info :: PureInfo

section \<open>Searching\<close>

text \<open>Reading a character of a buffer; the strings searched for are followed by their NUL.\<close>

definition rd_char :: "int list \<Rightarrow> nat \<Rightarrow> int outcome" where
  "rd_char b i = (if i < length b then Ok (b ! i) else Fault)"

definition PQH_ISCHAR :: "int \<Rightarrow> bool" where
  "PQH_ISCHAR c \<longleftrightarrow> (97 \<le> c \<and> c \<le> 122) \<or> (65 \<le> c \<and> c \<le> 90)"

text \<open>
  The test of the inner loop of \<^verbatim>\<open>p_strcasestr\<close>. The second operand of its last comparison is the truth value of a conjunction,
  which is 1 as both operands are not zero.
\<close>

definition same_char :: "int \<Rightarrow> int \<Rightarrow> bool" where
  "same_char ch1 ch2 \<longleftrightarrow>
     ch1 = ch2 \<or> (PQH_ISCHAR ch1 \<and> PQH_ISCHAR ch2 \<and> and ch1 0xdf = (if ch2 \<noteq> 0 \<and> (0xdf :: int) \<noteq> 0 then 1 else 0))"

text \<open>The inner loop, at position \<open>p\<close> of the buffer with the character there already read.\<close>

fun match_here :: "int list \<Rightarrow> nat \<Rightarrow> int \<Rightarrow> int list \<Rightarrow> bool outcome" where
  "match_here b p ch1 [] = Ok False"
| "match_here b p ch1 (ch2 # str2) =
     (if same_char ch1 ch2 then
        bind_outcome (rd_char b (p + 1)) (\<lambda>ch1'. if str2 = [] then Ok True else match_here b (p + 1) ch1' str2)
      else Ok False)"

text \<open>\<^verbatim>\<open>p_strcasestr\<close> from a position of a buffer on: the position found.\<close>

function p_strcasestr :: "int list \<Rightarrow> nat \<Rightarrow> int list \<Rightarrow> nat option outcome" where
  "p_strcasestr b i str2 =
     (if i < length b then
        if b ! i = 0 then Ok None
        else bind_outcome (match_here b i (b ! i) str2) (\<lambda>found. if found then Ok (Some i) else p_strcasestr b (i + 1) str2)
      else Fault)"
  by auto

termination
  by (relation "measure (\<lambda>(b, i, str2). length b - i)") auto

declare p_strcasestr.simps [simp del]

text \<open>The C string at a position of a buffer, as \<^verbatim>\<open>atoi\<close> and \<^verbatim>\<open>strlen\<close> take it.\<close>

definition c_string :: "int list \<Rightarrow> nat \<Rightarrow> int list outcome" where
  "c_string b p = (if 0 \<in> set (drop p b) then Ok (takeWhile (\<lambda>c. c \<noteq> 0) (drop p b)) else Fault)"

text \<open>The loop that skips blanks, from offset \<open>i\<close> behind a position.\<close>

function skip_blanks :: "int list \<Rightarrow> nat \<Rightarrow> nat outcome" where
  "skip_blanks b p = (if p < length b then if b ! p = 32 then skip_blanks b (p + 1) else Ok p else Fault)"
  by auto

termination
  by (relation "measure (\<lambda>(b, p). length b - p)") auto

declare skip_blanks.simps [simp del]

text \<open>The number behind a string that was found at a position: one character is skipped, then blanks.\<close>

definition number_after :: "int list \<Rightarrow> nat \<Rightarrow> int outcome" where
  "number_after b p =
     bind_outcome (skip_blanks b (p + 1)) (\<lambda>q. bind_outcome (c_string b q) (\<lambda>s. Ok (atoi s)))"

text \<open>\<open>strncpy\<close> of \<open>n\<close> characters from a position of a buffer.\<close>

fun strncpy_from :: "int list \<Rightarrow> nat \<Rightarrow> nat \<Rightarrow> int list outcome" where
  "strncpy_from b p 0 = Ok []"
| "strncpy_from b p (Suc n) =
     (if p < length b then
        if b ! p = 0 then Ok (replicate (Suc n) 0)
        else bind_outcome (strncpy_from b (p + 1) n) (\<lambda>r. Ok (b ! p # r))
      else Fault)"

text \<open>\<^verbatim>\<open>parse_response\<close>; the argument tells whether \<open>malloc\<close> succeeds.\<close>

definition parse_response :: "bool \<Rightarrow> 'u SessionHandle \<Rightarrow> (MRJEcode \<times> 'u SessionHandle) outcome" where
  "parse_response mem data =
     (let b = response_recv data in
      bind_outcome (p_strcasestr b 0 MRJ_HTTPID) (\<lambda>pstatus.
      bind_outcome (p_strcasestr b 0 MRJ_CONTENTLEN) (\<lambda>plen.
      bind_outcome (p_strcasestr b 0 MRJ_ENDOFHEAD) (\<lambda>peoh.
      bind_outcome (case pstatus of None \<Rightarrow> Ok 0 | Some p \<Rightarrow> number_after b (p + length MRJ_HTTPID)) (\<lambda>code.
      bind_outcome (case plen of None \<Rightarrow> Ok 0 | Some p \<Rightarrow> number_after b (p + length MRJ_CONTENTLEN)) (\<lambda>n.
      let clen = nat (n mod 2 ^ 32);
          data1 = data\<lparr>info := \<lparr>httpcode = code, content_len = clen\<rparr>\<rparr>
      in case peoh of
           None \<Rightarrow> Ok (MRJE_UNKNOWN, data1)
         | Some p \<Rightarrow>
             (let body = p + length MRJ_ENDOFHEAD in
              bind_outcome (if clen \<noteq> 0 then Ok (clen + 1) else bind_outcome (c_string b body) (\<lambda>s. Ok (length s + 1))) (\<lambda>len.
              if httpreq (set_opt data1) = HTTPREQ_POST then
                if \<not> mem then Ok (MRJE_OUT_OF_MEMORY, data1\<lparr>set_opt := (set_opt data1)\<lparr>recv_buf := None\<rparr>\<rparr>)
                else
                  bind_outcome (strncpy_from b body (len - 1)) (\<lambda>r.
                    Ok (MRJE_OK, data1\<lparr>set_opt := (set_opt data1)\<lparr>recv_buf := Some (r @ [0]), recv_len := len - 1\<rparr>\<rparr>))
              else Ok (MRJE_OK, data1)))))))))"

section \<open>The URL\<close>

text \<open>The position of the first occurrence of a character: the loops that stop at a colon and at a slash.\<close>

fun scan_to :: "int \<Rightarrow> int list \<Rightarrow> nat option" where
  "scan_to c [] = None"
| "scan_to c (x # xs) = (if x = c then Some 0 else map_option Suc (scan_to c xs))"

text \<open>The loop over the digits of the port, with the rest of the URL it stops at. A port beyond \<open>int\<close> overflows.\<close>

fun url_port :: "int \<Rightarrow> int list \<Rightarrow> (int \<times> int list) outcome" where
  "url_port p [] = Ok (p, [])"
| "url_port p (ch # rest) =
     (if ch = 47 then Ok (p, ch # rest)
      else if 48 \<le> ch \<and> ch \<le> 57 then
        if p * 10 + (ch - 48) < 2 ^ 31 then url_port (p * 10 + (ch - 48)) rest else Fault
      else Ok (p, ch # rest))"

text \<open>Copying into the fields \<^verbatim>\<open>host\<close> and \<^verbatim>\<open>remote_path\<close>, with the NUL behind.\<close>

definition copy_host :: "int list \<Rightarrow> 'u SessionHandle \<Rightarrow> 'u SessionHandle outcome" where
  "copy_host h data = (if length h < MRJ_MAX_HOST then Ok (data\<lparr>host := h\<rparr>) else Fault)"

definition copy_path :: "int list \<Rightarrow> 'u SessionHandle \<Rightarrow> 'u SessionHandle outcome" where
  "copy_path path data = (if length path < MRJ_MAX_PATH then Ok (data\<lparr>remote_path := path\<rparr>) else Fault)"

text \<open>\<^verbatim>\<open>parse_url\<close> behind the scheme, and all of it; the pointer to the URL may be NULL.\<close>

definition url_finish :: "int list \<Rightarrow> 'u SessionHandle \<Rightarrow> (MRJEcode \<times> 'u SessionHandle) outcome" where
  "url_finish path data =
     bind_outcome (copy_path path (data\<lparr>port := (if port data = 0 then MRJ_DEF_PORT else port data)\<rparr>)) (\<lambda>data1. Ok (MRJE_OK, data1))"

definition url_web :: "int list \<Rightarrow> 'u SessionHandle \<Rightarrow> (MRJEcode \<times> 'u SessionHandle) outcome" where
  "url_web rest data =
     (case scan_to 47 rest of
        Some k \<Rightarrow>
          if 0 < k then bind_outcome (copy_host (take k rest) data) (url_finish (drop k rest)) else Ok (MRJE_URLINLEGAL, data)
      | None \<Rightarrow> Ok (MRJE_URLINLEGAL, data))"

definition url_rest :: "int list \<Rightarrow> 'u SessionHandle \<Rightarrow> (MRJEcode \<times> 'u SessionHandle) outcome" where
  "url_rest rest data =
     (let data0 = data\<lparr>port := 0\<rparr> in
      case scan_to 58 rest of
        Some k \<Rightarrow>
          if 0 < k then
            bind_outcome (copy_host (take k rest) data0) (\<lambda>data1.
            bind_outcome (url_port 0 (drop (k + 1) rest)) (\<lambda>(p, path). url_finish path (data1\<lparr>port := p\<rparr>)))
          else url_web rest data0
      | None \<Rightarrow> url_web rest data0)"

definition parse_url :: "'u SessionHandle \<Rightarrow> (MRJEcode \<times> 'u SessionHandle) outcome" where
  "parse_url data =
     (case set_url (set_opt data) of
        None \<Rightarrow> Fault
      | Some url \<Rightarrow>
          if strncaseeq url ''http://'' 7 then url_rest (drop 7 url) data
          else if strncaseeq url ''https://'' 8 then url_rest (drop 8 url) data
          else Ok (MRJE_URLINLEGAL, data))"

section \<open>Options and information\<close>

text \<open>The options with the argument each takes from the argument list; \<^verbatim>\<open>MRJOPT_OTHER\<close> is any other number.\<close>

datatype 'u MRJHTTPoption =
    MRJOPT_WRITEDATA 'u | MRJOPT_URL "int list option" | MRJOPT_WRITEFUNCTION "'u write_callback option"
  | MRJOPT_POSTFIELDS "int list option" | MRJOPT_POST int | MRJOPT_GET | MRJOPT_VERBOSE int | MRJOPT_HTTP_VERSION int
  | MRJOPT_TIMEOUT int | MRJOPT_CONNECTTIMEOUT int | MRJOPT_RESUME_FROM int | MRJOPT_OTHER

abbreviation MRJ_HTTP_VERSION_1_0 :: int where "MRJ_HTTP_VERSION_1_0 \<equiv> 1"
abbreviation MRJ_HTTP_VERSION_2_0 :: int where "MRJ_HTTP_VERSION_2_0 \<equiv> 3"

text \<open>\<^verbatim>\<open>setstropt\<close> gives the new pointer, which points to a copy up to the first NUL. The flag tells whether memory is left.\<close>

definition setstropt :: "bool \<Rightarrow> int list option \<Rightarrow> MRJEcode \<times> int list option" where
  "setstropt mem s =
     (case s of
        None \<Rightarrow> (MRJE_OK, None)
      | Some t \<Rightarrow> if mem then (MRJE_OK, Some (takeWhile (\<lambda>c. c \<noteq> 0) t)) else (MRJE_OUT_OF_MEMORY, None))"

text \<open>Seconds as milliseconds in a \<open>long\<close>.\<close>

definition millis :: "int \<Rightarrow> int outcome" where
  "millis s = (if - (2 ^ 63) \<le> s * 1000 \<and> s * 1000 < 2 ^ 63 then Ok (s * 1000) else Fault)"

fun http_setopt :: "bool \<Rightarrow> 'u MRJHTTPoption \<Rightarrow> 'u UserDefined \<Rightarrow> (MRJEcode \<times> 'u UserDefined) outcome" where
  "http_setopt mem (MRJOPT_VERBOSE v) u = Ok (MRJE_OK, u\<lparr>verbose := (v \<noteq> 0)\<rparr>)"
| "http_setopt mem (MRJOPT_WRITEDATA a) u = Ok (MRJE_OK, u\<lparr>event_args := a\<rparr>)"
| "http_setopt mem (MRJOPT_URL s) u = (let (r, p) = setstropt mem s in Ok (r, u\<lparr>set_url := p\<rparr>))"
| "http_setopt mem (MRJOPT_WRITEFUNCTION f) u =
     Ok (MRJE_OK, u\<lparr>fwrite_func := f, is_fwrite_set := (if f = None then 0 else 1)\<rparr>)"
| "http_setopt mem (MRJOPT_POSTFIELDS d) u =
     (case d of
        None \<Rightarrow> Fault
      | Some s \<Rightarrow> Ok (MRJE_OK, u\<lparr>send_buf := d, send_len := length (takeWhile (\<lambda>c. c \<noteq> 0) s), httpreq := HTTPREQ_POST\<rparr>))"
| "http_setopt mem (MRJOPT_POST v) u = Ok (MRJE_OK, u\<lparr>httpreq := (if v \<noteq> 0 then HTTPREQ_POST else HTTPREQ_GET)\<rparr>)"
| "http_setopt mem MRJOPT_GET u = Ok (MRJE_OK, u\<lparr>httpreq := HTTPREQ_GET\<rparr>)"
| "http_setopt mem (MRJOPT_TIMEOUT s) u = bind_outcome (millis s) (\<lambda>t. Ok (MRJE_OK, u\<lparr>timeout_ms := t\<rparr>))"
| "http_setopt mem (MRJOPT_CONNECTTIMEOUT s) u = bind_outcome (millis s) (\<lambda>t. Ok (MRJE_OK, u\<lparr>connecttimeout := t\<rparr>))"
| "http_setopt mem (MRJOPT_HTTP_VERSION v) u =
     (if v = MRJ_HTTP_VERSION_2_0 then Ok (MRJE_UNSUPPORTED_PROTOCOL, u) else Ok (MRJE_OK, u\<lparr>httpversion := v\<rparr>))"
| "http_setopt mem (MRJOPT_RESUME_FROM n) u = Ok (MRJE_OK, u\<lparr>set_resume_from := nat (n mod 2 ^ 64)\<rparr>)"
| "http_setopt mem MRJOPT_OTHER u = Ok (MRJE_UNKNOWN_OPTION, u)"

text \<open>\<^verbatim>\<open>http_client_setopt\<close> on a handle that may be NULL.\<close>

definition http_client_setopt ::
    "bool \<Rightarrow> 'u SessionHandle option \<Rightarrow> 'u MRJHTTPoption \<Rightarrow> (MRJEcode \<times> 'u SessionHandle option) outcome" where
  "http_client_setopt mem http tag =
     (case http of
        None \<Rightarrow> Ok (MRJE_BAD_FUNCTION_ARGUMENT, None)
      | Some data \<Rightarrow> bind_outcome (http_setopt mem tag (set_opt data)) (\<lambda>(r, u). Ok (r, Some (data\<lparr>set_opt := u\<rparr>))))"

text \<open>Information about the last transfer: the kinds of information, and the value stored through the pointer, which may be NULL.\<close>

abbreviation MRJINFO_STRING :: int where "MRJINFO_STRING \<equiv> 0x100000"
abbreviation MRJINFO_LONG :: int where "MRJINFO_LONG \<equiv> 0x200000"
abbreviation MRJINFO_DOUBLE :: int where "MRJINFO_DOUBLE \<equiv> 0x300000"
abbreviation MRJINFO_SLIST :: int where "MRJINFO_SLIST \<equiv> 0x400000"
abbreviation MRJINFO_TYPEMASK :: int where "MRJINFO_TYPEMASK \<equiv> 0xf00000"
abbreviation MRJINFO_RESPONSE_CODE :: int where "MRJINFO_RESPONSE_CODE \<equiv> MRJINFO_LONG + 2"

definition getinfo_long :: "'u SessionHandle \<Rightarrow> int \<Rightarrow> MRJEcode \<times> int option" where
  "getinfo_long data kind =
     (if kind = MRJINFO_RESPONSE_CODE then (MRJE_OK, Some (httpcode (info data))) else (MRJE_BAD_FUNCTION_ARGUMENT, None))"

definition http_getinfo :: "'u SessionHandle option \<Rightarrow> int \<Rightarrow> bool \<Rightarrow> MRJEcode \<times> int option" where
  "http_getinfo http kind param_null =
     (case http of
        None \<Rightarrow> (MRJE_BAD_FUNCTION_ARGUMENT, None)
      | Some data \<Rightarrow>
          let ty = and MRJINFO_TYPEMASK kind in
          if ty = MRJINFO_STRING then (MRJE_BAD_FUNCTION_ARGUMENT, None)
          else if ty = MRJINFO_LONG then if param_null then (MRJE_BAD_FUNCTION_ARGUMENT, None) else getinfo_long data kind
          else if ty = MRJINFO_DOUBLE then (MRJE_BAD_FUNCTION_ARGUMENT, None)
          else if ty = MRJINFO_SLIST then (MRJE_BAD_FUNCTION_ARGUMENT, None)
          else (MRJE_BAD_FUNCTION_ARGUMENT, None))"

definition http_client_getinfo :: "'u SessionHandle option \<Rightarrow> int \<Rightarrow> bool \<Rightarrow> MRJEcode \<times> int option" where
  "http_client_getinfo mrjhttp kind paramp_null = http_getinfo mrjhttp kind paramp_null"

fun http_client_strerror :: "MRJEcode \<Rightarrow> string" where
  "http_client_strerror MRJE_OK = ''No error''"
| "http_client_strerror MRJE_UNSUPPORTED_PROTOCOL = ''Unsupported protocol''"
| "http_client_strerror MRJE_IOCTLFAL = ''Ioctl opertion fail''"
| "http_client_strerror MRJE_NOTCONNHOST = ''Not connect the host''"
| "http_client_strerror MRJE_FAILED_INIT = ''Failed initialization''"
| "http_client_strerror MRJE_WRITE_ERROR = ''Failed writing received data to disk/application''"
| "http_client_strerror MRJE_UPLOAD_FAILED = ''Upload failed (at start/before it took off)''"
| "http_client_strerror MRJE_READ_ERROR = ''Failed to open/read local data from file/application''"
| "http_client_strerror MRJE_OUT_OF_MEMORY = ''Out of memory''"
| "http_client_strerror MRJE_OPERATION_TIMEDOUT = ''Timeout was reached''"
| "http_client_strerror MRJE_FUNCTION_NOT_FOUND = ''A required function in the library was not found''"
| "http_client_strerror MRJE_ABORTED_BY_CALLBACK = ''Operation was aborted by an application callback''"
| "http_client_strerror MRJE_BAD_FUNCTION_ARGUMENT = ''A libcurl function was given a bad argument''"
| "http_client_strerror MRJE_INTERFACE_FAILED = ''Failed binding local connection end''"
| "http_client_strerror MRJE_UNKNOWN_OPTION = ''An unknown option was passed in to libcurl''"
| "http_client_strerror MRJE_SEND_ERROR = ''Failed sending data to the peer''"
| "http_client_strerror MRJE_RECV_ERROR = ''Failure when receiving data from the peer''"
| "http_client_strerror MRJE_AGAIN = ''Socket not ready for send/recv''"
| "http_client_strerror MRJE_NO_CONNECTION_AVAILABLE = ''The max connection limit is reached''"
| "http_client_strerror _ = ''Unknown error''"

section \<open>What a search finds\<close>

text \<open>Letters are never equal to a truth value once the bit of their case is cleared, so the comparison is equality.\<close>

lemma letter_and_not_1: "PQH_ISCHAR c \<Longrightarrow> and c 0xdf \<noteq> (1 :: int)"
proof
  assume c: "PQH_ISCHAR c" and e: "and c 0xdf = (1 :: int)"
  have "bit c 6" using c by (auto simp: PQH_ISCHAR_def bit_iff_odd even_iff_mod_2_eq_zero)
  moreover have "bit (0xdf :: int) 6" by (simp add: bit_iff_odd)
  ultimately have "bit (and c 0xdf) 6" by (simp add: bit_and_iff)
  then have "bit (1 :: int) 6" unfolding e .
  then show False by (simp add: bit_1_iff)
qed

lemma same_char_eq [simp]: "same_char a b \<longleftrightarrow> a = b"
  by (auto simp: same_char_def letter_and_not_1 PQH_ISCHAR_def [of 0])

fun find_sub :: "int list \<Rightarrow> int list \<Rightarrow> nat option" where
  "find_sub pat [] = None"
| "find_sub pat (x # xs) =
     (if take (length pat) (x # xs) = pat then Some 0 else map_option Suc (find_sub pat xs))"

lemma match_here_found:
  "drop p b = t @ 0 # rest \<Longrightarrow> 0 \<notin> set t \<Longrightarrow> 0 \<notin> set pat \<Longrightarrow> pat \<noteq> [] \<Longrightarrow> match_here b p (b ! p) pat = Ok (take (length pat) t = pat)"
proof (induction pat arbitrary: p t)
  case (Cons c cs)
  have bp: "p < length b" "b ! p = (t @ 0 # rest) ! 0" using drop_nth [OF Cons.prems(1), of 0] by simp_all
  show ?case
  proof (cases t)
    case Nil
    with bp Cons.prems show ?thesis by auto
  next
    case t: (Cons a t')
    have d: "drop (p + 1) b = t' @ 0 # rest" using Cons.prems(1) t by (metis append_Cons Suc_eq_plus1 drop_Suc list.sel(3) tl_drop)
    have r: "p + 1 < length b" "rd_char b (p + 1) = Ok (b ! (p + 1))" using drop_nth [OF d, of 0] by (simp_all add: rd_char_def)
    show ?thesis
    proof (cases "cs = []")
      case True
      then show ?thesis using bp t r by simp
    next
      case False
      then have "match_here b (p + 1) (b ! (p + 1)) cs = Ok (take (length cs) t' = cs)" using Cons.IH [OF d] Cons.prems t by simp
      with False show ?thesis using bp t r by simp
    qed
  qed
qed simp

text \<open>Behind any position of a buffer with a NUL, a search gives the first occurrence in the text up to that NUL.\<close>

lemma p_strcasestr_found:
  "drop i b = t @ 0 # rest \<Longrightarrow> 0 \<notin> set t \<Longrightarrow> 0 \<notin> set pat \<Longrightarrow> pat \<noteq> [] \<Longrightarrow>
   p_strcasestr b i pat = Ok (map_option (\<lambda>k. i + k) (find_sub pat t))"
proof (induction t arbitrary: i)
  case Nil
  then show ?case using drop_nth [OF Nil(1), of 0] by (simp add: p_strcasestr.simps [of b i])
next
  case (Cons a t)
  have bi: "i < length b" "b ! i = a" using drop_nth [OF Cons.prems(1), of 0] by simp_all
  have d: "drop (i + 1) b = t @ 0 # rest" using Cons.prems(1) by (metis append_Cons Suc_eq_plus1 drop_Suc list.sel(3) tl_drop)
  have m: "match_here b i a pat = Ok (take (length pat) (a # t) = pat)" using match_here_found [OF Cons.prems] bi by simp
  have "p_strcasestr b (i + 1) pat = Ok (map_option (\<lambda>k. i + 1 + k) (find_sub pat t))" using Cons.IH [OF d] Cons.prems by simp
  with m bi Cons.prems show ?case by (cases "find_sub pat t") (auto simp: p_strcasestr.simps [of b i])
qed

lemma find_sub_append: "find_sub pat (x @ pat) = Some (length x) \<Longrightarrow> find_sub pat (x @ pat @ y) = Some (length x)"
proof (induction x)
  case Nil
  then show ?case by (cases pat) auto
next
  case (Cons a x)
  have "take (length pat) ((a # x @ pat) @ y) = take (length pat) (a # x @ pat)" by (subst take_append) simp
  with Cons show ?case by (auto split: if_splits)
qed

lemma find_sub_bound: "find_sub pat t = Some k \<Longrightarrow> k + length pat \<le> length t \<and> take (length pat) (drop k t) = pat"
proof (induction t arbitrary: k)
  case (Cons a t)
  show ?case
  proof (cases "take (length pat) (a # t) = pat")
    case True
    then have "length pat \<le> length (a # t)" by (metis length_take min.cobounded1)
    then show ?thesis using Cons.prems True by simp
  next
    case False
    with Cons.prems obtain j where "find_sub pat t = Some j" "k = Suc j" by auto
    with Cons.IH show ?thesis by simp
  qed
qed simp

section \<open>What a response is read as\<close>

lemma zero_not_in_dec [simp]: "0 \<notin> set (dec n)" and blank_not_in_dec: "32 \<notin> set (dec n)"
  using dec_digits [of n] by (auto simp: list_all_iff isdigit_def)

lemma dec_val_stop: "\<not> isdigit (c_at t 0) \<Longrightarrow> dec_val v t = v"
  by (cases t) (auto simp: c_at_def)

lemma atoi_dec_append: "n < 2 ^ 31 \<Longrightarrow> \<not> isdigit (c_at t 0) \<Longrightarrow> atoi (dec n @ t) = int n"
proof -
  assume n: "n < 2 ^ 31" and t: "\<not> isdigit (c_at t 0)"
  obtain d ds where d: "dec n = d # ds" "isdigit d" using dec_Cons by metis
  have v: "dec_val 0 (dec n @ t) = int n" using dec_val_append [OF dec_digits [of n], of 0 t] dec_val_stop [OF t] by simp
  have "dropWhile isspace (dec n @ t) = dec n @ t" "c_at (dec n @ t) 0 \<noteq> 45" "c_at (dec n @ t) 0 \<noteq> 43"
    using d by (auto simp: ctype_simps c_at_def)
  moreover have "to_s32 (int n) = int n" using n by (simp add: to_s32_id)
  moreover have "max (- (2 ^ 63)) (min (2 ^ 63 - 1) (int n)) = int n" using n by simp
  ultimately show ?thesis by (simp add: atoi_def Let_def v)
qed

lemma c_string_text: "drop p b = t @ 0 # rest \<Longrightarrow> 0 \<notin> set t \<Longrightarrow> c_string b p = Ok t"
  by (auto simp: c_string_def takeWhile_append)

lemma skip_blanks_stop: "drop p b = c # t \<Longrightarrow> c \<noteq> 32 \<Longrightarrow> skip_blanks b p = Ok p"
  using drop_nth [of p b "c # t" 0] by (simp add: skip_blanks.simps [of b p])

lemma number_after_dec:
  assumes d: "drop (p + 1) b = dec n @ t @ 0 # rest" and "n < 2 ^ 31" "\<not> isdigit (c_at t 0)" "0 \<notin> set t"
  shows "number_after b p = Ok (int n)"
proof -
  obtain c cs where c: "dec n = c # cs" "isdigit c" using dec_Cons by metis
  then have "skip_blanks b (p + 1) = Ok (p + 1)" using d skip_blanks_stop [of "p + 1" b c] by (auto simp: isdigit_def)
  moreover have "c_string b (p + 1) = Ok (dec n @ t)" using assms by (intro c_string_text [where rest = rest]) simp_all
  ultimately show ?thesis using assms(2, 3) by (simp add: number_after_def atoi_dec_append)
qed

lemma strncpy_from_text: "drop p b = t @ 0 # rest \<Longrightarrow> 0 \<notin> set t \<Longrightarrow> strncpy_from b p k = Ok (strncpy_bytes k t)"
proof (induction t arbitrary: p k)
  case Nil
  then show ?case using drop_nth [OF Nil(1), of 0] by (cases k) (simp_all add: strncpy_bytes_def)
next
  case (Cons a t)
  have d: "drop (p + 1) b = t @ 0 # rest" using Cons.prems(1) by (metis append_Cons Suc_eq_plus1 drop_Suc list.sel(3) tl_drop)
  then show ?case using Cons.IH [OF d] Cons.prems drop_nth [OF Cons.prems(1), of 0] by (cases k) (auto simp: strncpy_bytes_def)
qed

text \<open>The responses the client understands: a status line, header lines with the length of the body, a blank line and the body.\<close>

definition response_head :: "nat \<Rightarrow> int list \<Rightarrow> int list" where
  "response_head code h1 = MRJ_HTTPID @ 32 # dec code @ h1"

definition response_fields :: "nat \<Rightarrow> int list \<Rightarrow> nat \<Rightarrow> int list \<Rightarrow> int list" where
  "response_fields code h1 n h2 = response_head code h1 @ MRJ_CONTENTLEN @ 32 # dec n @ h2"

definition http_response :: "nat \<Rightarrow> int list \<Rightarrow> nat \<Rightarrow> int list \<Rightarrow> int list \<Rightarrow> int list" where
  "http_response code h1 n h2 body = response_fields code h1 n h2 @ MRJ_ENDOFHEAD @ body"

definition good_head :: "nat \<Rightarrow> int list \<Rightarrow> nat \<Rightarrow> int list \<Rightarrow> bool" where
  "good_head code h1 n h2 \<longleftrightarrow>
     code < 2 ^ 31 \<and> n < 2 ^ 31 \<and> 0 \<notin> set h1 \<and> 0 \<notin> set h2 \<and> \<not> isdigit (c_at h1 0) \<and> \<not> isdigit (c_at h2 0) \<and>
     find_sub MRJ_CONTENTLEN (response_head code h1 @ MRJ_CONTENTLEN) = Some (length (response_head code h1)) \<and>
     find_sub MRJ_ENDOFHEAD (response_fields code h1 n h2 @ MRJ_ENDOFHEAD) = Some (length (response_fields code h1 n h2))"

lemma marks_no_zero [simp]: "0 \<notin> set MRJ_HTTPID" "0 \<notin> set MRJ_CONTENTLEN" "0 \<notin> set MRJ_ENDOFHEAD"
  by (simp_all add: MRJ_HTTPID_def MRJ_CONTENTLEN_def MRJ_ENDOFHEAD_def codes_def)

lemma marks_not_Nil [simp]: "MRJ_HTTPID \<noteq> []" "MRJ_CONTENTLEN \<noteq> []" "MRJ_ENDOFHEAD \<noteq> []"
  by (simp_all add: MRJ_HTTPID_def MRJ_CONTENTLEN_def MRJ_ENDOFHEAD_def codes_def)

lemma good_head_no_zero: "good_head code h1 n h2 \<Longrightarrow> 0 \<notin> set (response_fields code h1 n h2)"
  by (simp add: good_head_def response_fields_def response_head_def)

lemma not_digit_append: "\<not> isdigit (c_at h 0) \<Longrightarrow> (h = [] \<Longrightarrow> \<not> isdigit (c_at t 0)) \<Longrightarrow> \<not> isdigit (c_at (h @ t) 0)"
  by (cases h) (auto simp: c_at_def)

lemma mark_not_digit: "\<not> isdigit (c_at (MRJ_CONTENTLEN @ t) 0)" "\<not> isdigit (c_at (MRJ_ENDOFHEAD @ t) 0)"
  by (simp_all add: MRJ_CONTENTLEN_def MRJ_ENDOFHEAD_def codes_def c_at_def isdigit_def)

definition response_len :: "nat \<Rightarrow> int list \<Rightarrow> nat" where
  "response_len n body = (if n = 0 then length body else n)"

lemma parse_response_reads:
  fixes data :: "'u SessionHandle"
  assumes b: "response_recv data = http_response code h1 n h2 body @ 0 # rest" and g: "good_head code h1 n h2" and body: "0 \<notin> set body"
  defines "data1 \<equiv> data\<lparr>info := \<lparr>httpcode = int code, content_len = n\<rparr>\<rparr>"
  shows "parse_response mem data =
     (if httpreq (set_opt data) = HTTPREQ_POST then
        if mem then
          Ok (MRJE_OK, data1\<lparr>set_opt := (set_opt data)\<lparr>recv_buf := Some (strncpy_bytes (response_len n body) body @ [0]),
                                                  recv_len := response_len n body\<rparr>\<rparr>)
        else Ok (MRJE_OUT_OF_MEMORY, data1\<lparr>set_opt := (set_opt data)\<lparr>recv_buf := None\<rparr>\<rparr>)
      else Ok (MRJE_OK, data1))"
proof -
  define B where "B = response_recv data"
  define t where "t = http_response code h1 n h2 body"
  note gd = g [unfolded good_head_def]
  have dB: "drop 0 B = t @ 0 # rest" and t0: "0 \<notin> set t"
    using b body good_head_no_zero [OF g] by (simp_all add: B_def t_def http_response_def)
  have f1: "p_strcasestr B 0 MRJ_HTTPID = Ok (Some 0)"
    using p_strcasestr_found [OF dB t0, of MRJ_HTTPID] find_sub_append [of MRJ_HTTPID "[]"]
    by (simp add: t_def http_response_def response_fields_def response_head_def MRJ_HTTPID_def codes_def)
  have f2: "p_strcasestr B 0 MRJ_CONTENTLEN = Ok (Some (length (response_head code h1)))"
    using p_strcasestr_found [OF dB t0, of MRJ_CONTENTLEN] gd
      find_sub_append [of MRJ_CONTENTLEN "response_head code h1" "32 # dec n @ h2 @ MRJ_ENDOFHEAD @ body"]
    by (simp add: t_def http_response_def response_fields_def)
  have f3: "p_strcasestr B 0 MRJ_ENDOFHEAD = Ok (Some (length (response_fields code h1 n h2)))"
    using p_strcasestr_found [OF dB t0, of MRJ_ENDOFHEAD] gd
      find_sub_append [of MRJ_ENDOFHEAD "response_fields code h1 n h2" body]
    by (simp add: t_def http_response_def)
  have n1: "number_after B (length MRJ_HTTPID) = Ok (int code)"
  proof (rule number_after_dec [where t = "h1 @ MRJ_CONTENTLEN @ 32 # dec n @ h2 @ MRJ_ENDOFHEAD @ body" and rest = rest])
    show "drop (length MRJ_HTTPID + 1) B = dec code @ (h1 @ MRJ_CONTENTLEN @ 32 # dec n @ h2 @ MRJ_ENDOFHEAD @ body) @ 0 # rest"
      using dB by (simp add: t_def http_response_def response_fields_def response_head_def)
  qed (use gd body in \<open>auto simp: not_digit_append mark_not_digit\<close>)
  have n2: "number_after B (length (response_head code h1) + length MRJ_CONTENTLEN) = Ok (int n)"
  proof (rule number_after_dec [where t = "h2 @ MRJ_ENDOFHEAD @ body" and rest = rest])
    show "drop (length (response_head code h1) + length MRJ_CONTENTLEN + 1) B = dec n @ (h2 @ MRJ_ENDOFHEAD @ body) @ 0 # rest"
      using dB by (simp add: t_def http_response_def response_fields_def)
  qed (use gd body in \<open>auto simp: not_digit_append mark_not_digit\<close>)
  have d3: "drop (length (response_fields code h1 n h2) + length MRJ_ENDOFHEAD) B = body @ 0 # rest"
    using dB by (simp add: t_def http_response_def)
  have nm: "nat (int n mod 2 ^ 32) = n" using gd by simp
  show ?thesis
    using f1 f2 f3 n1 n2 d3 nm c_string_text [OF d3 body] strncpy_from_text [OF d3 body]
    by (cases "n = 0") (simp_all add: parse_response_def Let_def B_def data1_def response_len_def)
qed

section \<open>What a URL is read as\<close>

definition url_text :: "bool \<Rightarrow> int list \<Rightarrow> nat option \<Rightarrow> int list \<Rightarrow> int list" where
  "url_text secure h p path =
     (if secure then codes ''https://'' else codes ''http://'') @ h @ (case p of None \<Rightarrow> [] | Some k \<Rightarrow> 58 # dec k) @ path"

text \<open>A port of 0 is not told from no port; without a port the path must start with a slash and hold no colon.\<close>

fun good_url :: "int list \<Rightarrow> nat option \<Rightarrow> int list \<Rightarrow> bool" where
  "good_url h None path \<longleftrightarrow>
     h \<noteq> [] \<and> length h < MRJ_MAX_HOST \<and> length path < MRJ_MAX_PATH \<and> 58 \<notin> set h \<and> 47 \<notin> set h \<and> c_at path 0 = 47 \<and> 58 \<notin> set path"
| "good_url h (Some k) path \<longleftrightarrow>
     h \<noteq> [] \<and> length h < MRJ_MAX_HOST \<and> length path < MRJ_MAX_PATH \<and> 58 \<notin> set h \<and> 0 < k \<and> k < 2 ^ 31 \<and> \<not> isdigit (c_at path 0)"

lemma scan_to_found: "c \<notin> set h \<Longrightarrow> scan_to c (h @ c # t) = Some (length h)"
  by (induction h) auto

lemma scan_to_none: "c \<notin> set h \<Longrightarrow> scan_to c h = None"
  by (induction h) auto

lemma isdigit_iff_range: "isdigit c \<longleftrightarrow> 48 \<le> c \<and> c \<le> 57"
  by (auto simp: isdigit_def)

lemma dec_val_mono: "0 \<le> v \<Longrightarrow> list_all isdigit ds \<Longrightarrow> v \<le> dec_val v ds"
proof (induction ds arbitrary: v)
  case (Cons d ds)
  have "v \<le> 10 * v + (d - 48)" "0 \<le> 10 * v + (d - 48)" using Cons.prems by (auto simp: isdigit_iff_range)
  with Cons.IH [of "10 * v + (d - 48)"] Cons.prems show ?case by auto
qed simp

lemma url_port_digits:
  "0 \<le> v \<Longrightarrow> list_all isdigit ds \<Longrightarrow> dec_val v ds < 2 ^ 31 \<Longrightarrow> \<not> isdigit (c_at t 0) \<Longrightarrow> url_port v (ds @ t) = Ok (dec_val v ds, t)"
proof (induction ds arbitrary: v)
  case Nil
  then show ?case by (cases t) (auto simp: c_at_def isdigit_iff_range)
next
  case (Cons d ds)
  define w where "w = v * 10 + (d - 48)"
  have d: "48 \<le> d" "d \<le> 57" "isdigit d" using Cons.prems by (auto simp: isdigit_iff_range)
  have w: "0 \<le> w" "dec_val v (d # ds) = dec_val w ds" using Cons.prems d by (simp_all add: w_def mult.commute)
  then have "w \<le> dec_val w ds" using Cons.prems by (intro dec_val_mono) simp_all
  with Cons.prems w have "w < 2 ^ 31" by linarith
  with Cons.IH [OF w(1)] Cons.prems d w show ?case by (simp add: w_def)
qed

lemma strncaseeq_http:
  "strncaseeq (codes ''http://'' @ t) ''http://'' 7" "\<not> strncaseeq (codes ''https://'' @ t) ''http://'' 7"
  "strncaseeq (codes ''https://'' @ t) ''https://'' 8"
  by (simp_all add: strncaseeq_def codes_def tolower_c_def)

lemma parse_url_scheme:
  "set_url (set_opt data) = Some (url_text secure h p path) \<Longrightarrow>
   parse_url data = url_rest (h @ (case p of None \<Rightarrow> [] | Some k \<Rightarrow> 58 # dec k) @ path) data"
  using strncaseeq_http by (simp add: parse_url_def url_text_def)

lemma parse_url_reads:
  assumes u: "set_url (set_opt data) = Some (url_text secure h p path)" and g: "good_url h p path"
  shows "parse_url data =
     Ok (MRJE_OK, data\<lparr>port := (case p of None \<Rightarrow> MRJ_DEF_PORT | Some k \<Rightarrow> int k), host := h, remote_path := path\<rparr>)"
proof (cases p)
  case None
  with g obtain t where t: "path = 47 # t" "58 \<notin> set (h @ 47 # t)" by (cases path) (auto simp: c_at_def)
  then have "scan_to 58 (h @ path) = None" "scan_to 47 (h @ path) = Some (length h)"
    using g None by (simp_all add: scan_to_none scan_to_found)
  then show ?thesis using parse_url_scheme [OF u] g None
    by (simp add: url_rest_def url_web_def url_finish_def copy_host_def copy_path_def)
next
  case (Some k)
  then have s: "scan_to 58 (h @ 58 # dec k @ path) = Some (length h)" using g by (simp add: scan_to_found)
  have "url_port 0 (dec k @ path) = Ok (int k, path)" using url_port_digits [of 0 "dec k" path] g Some by (simp add: dec_digits)
  with s show ?thesis using parse_url_scheme [OF u] g Some
    by (simp add: url_rest_def url_finish_def copy_host_def copy_path_def)
qed

text \<open>A colon behind the first slash is taken for the one in front of a port: the host then reaches into the path.\<close>

lemma parse_url_colon_in_path:
  assumes u: "set_url (set_opt data) = Some (url_text secure h None (47 # q @ 58 # r))"
    and "58 \<notin> set h" "58 \<notin> set q" "length h + length q + 1 < MRJ_MAX_HOST" "length r < MRJ_MAX_PATH" "\<not> isdigit (c_at r 0)"
  shows "parse_url data = Ok (MRJE_OK, data\<lparr>port := MRJ_DEF_PORT, host := h @ 47 # q, remote_path := r\<rparr>)"
proof -
  have s: "scan_to 58 (h @ 47 # q @ 58 # r) = Some (length h + length q + 1)"
    using scan_to_found [of 58 "h @ 47 # q" r] assms(2, 3) by simp
  have "url_port 0 r = Ok (0, r)" using url_port_digits [of 0 "[]" r] assms(6) by simp
  with s show ?thesis using parse_url_scheme [OF u] assms(4, 5)
    by (simp add: url_rest_def url_finish_def copy_host_def copy_path_def)
qed

end
