(* ===== verification/Http_Client.thy ===== *)
theory Http_Client
  imports Http_Text
begin

text \<open>
  Transfers of the HTTP client (tools/network/http_client_cjson/http_client.c): connecting, sending, receiving the head and the body,
  downloads in pieces through a callback, and the functions of its interface. The operating system is a script of the results of
  the calls. The locale \<open>write_sink\<close> is what a download expects of a callback. Over a working network a request is sent whole and
  the body of the response is delivered whole; over any network whose \<open>recv\<close> reports no errors a transfer stays within the memory of the session.
\<close>

section \<open>The network around the client\<close>

text \<open>
  What the operating system does is a script. A connection attempt is given by the results of its system calls; a call of
  \<open>send\<close> by its result and the time when it is over; a call of \<open>select\<close> and \<open>recv\<close> by the result of \<open>select\<close>, the sets the socket
  is in, the most bytes \<open>recv\<close> gives (negative: an error; 0: end of the stream) and the time when it is over. The bytes that
  arrive are one stream. Where a script ends before the code does, the outcome is \<open>NoFuel\<close>.
\<close>

type_synonym timeval = "int \<times> int"

record conn_turn =
  c_setfl :: int
  c_connect :: int
  c_inprogress :: bool
  c_select :: int
  c_ready :: bool
  c_sockopt :: int
  c_error :: int
  c_restore :: int

record send_turn =
  s_ret :: int
  s_now :: timeval

record recv_turn =
  r_sel :: int
  r_ex :: bool
  r_rd :: bool
  r_got :: int
  r_now :: timeval

text \<open>
  The script with what the client does to the world: the addresses it connects to, the bytes it sends, the lines it prints and the
  sockets it closes. \<^verbatim>\<open>before\<close> is the global variable of that name.
\<close>

record io =
  mallocs :: "bool list"
  sockets :: "int list"
  conns :: "conn_turn list"
  clock :: "timeval list"
  sends :: "send_turn list"
  rcvs :: "recv_turn list"
  incoming :: "int list"
  before :: timeval
  dialed :: "(16 word \<times> 32 word) list"
  wire :: "int list"
  shown :: "int list list"
  closed :: "int list"

definition malloc_ok :: "io \<Rightarrow> (bool \<times> io) outcome" where
  "malloc_ok io = (case mallocs io of [] \<Rightarrow> NoFuel | m # ms \<Rightarrow> Ok (m, io\<lparr>mallocs := ms\<rparr>))"

definition mrjx_tvnow :: "io \<Rightarrow> (timeval \<times> io) outcome" where
  "mrjx_tvnow io = (case clock io of [] \<Rightarrow> NoFuel | t # ts \<Rightarrow> Ok (t, io\<lparr>clock := ts\<rparr>))"

text \<open>Division of C rounds towards zero.\<close>

definition quot_1000 :: "int \<Rightarrow> int" where
  "quot_1000 d = (if d < 0 then - ((- d) div 1000) else d div 1000)"

definition mrjx_tvdiff :: "timeval \<Rightarrow> timeval \<Rightarrow> int" where
  "mrjx_tvdiff newer older = (fst newer - fst older) * 1000 + quot_1000 (snd newer - snd older)"

definition timeleft :: "'u SessionHandle \<Rightarrow> timeval \<Rightarrow> timeval \<Rightarrow> int" where
  "timeleft data beforep now = timeout_ms (set_opt data) - mrjx_tvdiff now beforep"

definition wselect :: "recv_turn \<Rightarrow> MRJEcode" where
  "wselect t =
     (if r_sel t = 0 then MRJE_TIME_OUT
      else if r_sel t < 0 \<or> r_ex t then MRJE_SELECTFAL
      else if r_rd t then MRJE_OK
      else MRJE_SELECTFAL)"

section \<open>Printing a head\<close>

text \<open>The tokens \<open>strtok_r\<close> cuts at carriage returns and newlines, with the token being read as first argument.\<close>

fun head_lines :: "int list \<Rightarrow> int list \<Rightarrow> int list list" where
  "head_lines cur [] = (if cur = [] then [] else [cur])"
| "head_lines cur (c # cs) =
     (if c = 13 \<or> c = 10 then if cur = [] then head_lines [] cs else cur # head_lines [] cs
      else head_lines (cur @ [c]) cs)"

definition show_req_head :: "int list \<Rightarrow> nat \<Rightarrow> io \<Rightarrow> (MRJEcode \<times> io) outcome" where
  "show_req_head head len io =
     bind_outcome (malloc_ok io) (\<lambda>(m, io1).
       if \<not> m then Ok (MRJE_OUT_OF_MEMORY, io1)
       else bind_outcome (strncpy_from head 0 len) (\<lambda>headp.
         Ok (MRJE_OK, io1\<lparr>shown := shown io1 @ map (\<lambda>l. codes ''* '' @ l) (head_lines [] (takeWhile (\<lambda>c. c \<noteq> 0) headp))\<rparr>)))"

definition show_resp_head :: "int list \<Rightarrow> nat \<Rightarrow> io \<Rightarrow> (MRJEcode \<times> io) outcome" where
  "show_resp_head head len io =
     bind_outcome (malloc_ok io) (\<lambda>(m, io1).
       if \<not> m then Ok (MRJE_OUT_OF_MEMORY, io1)
       else bind_outcome (strncpy_from head 0 len) (\<lambda>headp.
         Ok (MRJE_OK, io1\<lparr>shown := shown io1 @ map (\<lambda>l. codes ''> '' @ l) (head_lines [] (takeWhile (\<lambda>c. c \<noteq> 0) headp))\<rparr>)))"

section \<open>Connecting\<close>

definition connect_nnob :: "conn_turn \<Rightarrow> MRJEcode" where
  "connect_nnob t =
     (let finish = (\<lambda>err :: int. if c_restore t = -1 then MRJE_FCNTL_ERROR else if err \<noteq> 0 then MRJE_CONNECT_NONB_ERROR else MRJE_OK)
      in if c_setfl t = -1 then MRJE_FCNTL_ERROR
         else if c_connect t < 0 \<and> \<not> c_inprogress t then MRJE_NOTCONNHOST
         else if c_connect t = 0 then finish 0
         else if c_select t < 0 then MRJE_SELECT_FAIL
         else if c_select t = 0 then MRJE_SELECT_TIME_OUT
         else if c_ready t then if c_sockopt t < 0 then MRJE_GET_SOCKOPT_ERROR else finish (c_error t)
         else MRJE_SELECT_FAIL)"

definition open_socket :: "'u SessionHandle \<Rightarrow> io \<Rightarrow> ('u SessionHandle \<times> io) outcome" where
  "open_socket data io =
     (if sock data = -1 then case sockets io of [] \<Rightarrow> NoFuel | s # ss \<Rightarrow> Ok (data\<lparr>sock := s\<rparr>, io\<lparr>sockets := ss\<rparr>)
      else Ok (data, io))"

definition connect_host :: "'u SessionHandle \<Rightarrow> io \<Rightarrow> (MRJEcode \<times> 'u SessionHandle \<times> io) outcome" where
  "connect_host data io =
     bind_outcome (open_socket data io) (\<lambda>(data1, io1).
       if sock data1 = -1 then Ok (MRJE_CRSOCKFAL, data1, io1)
       else case conns io1 of
              [] \<Rightarrow> NoFuel
            | t # ts \<Rightarrow> Ok (connect_nnob t, data1, io1\<lparr>conns := ts, dialed := dialed io1 @ (if c_setfl t = -1 then [] else [remote_addr data1])\<rparr>))"

section \<open>Sending and receiving\<close>

text \<open>Numbers of bytes are \<open>size_t\<close>, so an error of \<open>send\<close> and \<open>recv\<close> is a huge number.\<close>

abbreviation size_mod :: nat where "size_mod \<equiv> 2 ^ 64"

definition sent_now :: "send_turn \<Rightarrow> nat \<Rightarrow> nat" where
  "sent_now t n = (if s_ret t < 0 then size_mod - 1 else Orderings.min (nat (s_ret t)) n)"

fun http_send_loop ::
    "'u SessionHandle \<Rightarrow> timeval \<Rightarrow> int list \<Rightarrow> nat \<Rightarrow> nat \<Rightarrow> send_turn list \<Rightarrow> (MRJEcode \<times> int list \<times> send_turn list) outcome" where
  "http_send_loop data bef hcmd n already [] = NoFuel"
| "http_send_loop data bef hcmd n already (t # ts) =
     (let per = sent_now t (n - already);
          out = (if s_ret t < 0 then [] else take per (drop already hcmd));
          already' = (already + per) mod size_mod
      in if per = 0 then Ok (MRJE_DISCONNHOST, [], ts)
         else if timeleft data bef (s_now t) \<le> 0 then Ok (MRJE_TIME_OUT, out, ts)
         else if already' < n then
           bind_outcome (http_send_loop data bef hcmd n already' ts) (\<lambda>(r, out', ts'). Ok (r, out @ out', ts'))
         else Ok (MRJE_OK, out, ts))"

definition send_data :: "'u SessionHandle \<Rightarrow> int list \<Rightarrow> nat \<Rightarrow> io \<Rightarrow> (MRJEcode \<times> io) outcome" where
  "send_data data hcmd n io =
     bind_outcome (http_send_loop data (before io) hcmd n 0 (sends io)) (\<lambda>(r, out, ts).
       Ok (r, io\<lparr>wire := wire io @ out, sends := ts\<rparr>))"

text \<open>\<^verbatim>\<open>recv_data\<close>: \<open>over\<close> counts line end characters in a row, \<open>ch\<close> is the last character read.\<close>

fun http_recv_loop ::
    "timeval \<Rightarrow> nat \<Rightarrow> nat \<Rightarrow> int \<Rightarrow> 'u SessionHandle \<Rightarrow> int list \<Rightarrow> recv_turn list
      \<Rightarrow> (MRJEcode \<times> 'u SessionHandle \<times> int list \<times> recv_turn list) outcome" where
  "http_recv_loop bef recv_flag over ch data inp [] = NoFuel"
| "http_recv_loop bef recv_flag over ch data inp (t # ts) =
     (if wselect t \<noteq> MRJE_OK then Ok (wselect t, data, inp, ts)
      else if 0 \<le> r_got t \<and> (r_got t = 0 \<or> inp = []) then Ok (MRJE_OK, data, inp, ts)
      else
        let ch' = (if r_got t < 0 then ch else hd inp);
            inp' = (if r_got t < 0 then inp else tl inp);
            over' = (if ch' = 13 \<or> ch' = 10 then over + 1 else 0)
        in if response_recv_len data \<ge> MRJ_MAX_RESPHEAD then Ok (MRJE_OUT_OF_MEMORY, data, inp', ts)
           else if response_recv_len data \<ge> length (response_recv data) then Fault
           else
             let data' = data\<lparr>response_recv := (response_recv data)[response_recv_len data := ch'],
                              response_recv_len := response_recv_len data + 1\<rparr>
             in if timeleft data' bef (r_now t) \<le> 0 then Ok (MRJE_TIME_OUT, data', inp', ts)
                else if over' < recv_flag then http_recv_loop bef recv_flag over' ch' data' inp' ts
                else Ok (MRJE_OK, data', inp', ts))"

definition recv_data :: "'u SessionHandle \<Rightarrow> nat \<Rightarrow> io \<Rightarrow> (MRJEcode \<times> 'u SessionHandle \<times> io) outcome" where
  "recv_data data recv_flag io =
     bind_outcome (http_recv_loop (before io) recv_flag 0 0 data (incoming io) (rcvs io)) (\<lambda>(r, data', inp, ts).
       Ok (r, data', io\<lparr>incoming := inp, rcvs := ts\<rparr>))"

text \<open>Handing bytes of the buffer to the callback, if there is one: whether it took them all.\<close>

definition call_write :: "int list \<Rightarrow> nat \<Rightarrow> 'u SessionHandle \<Rightarrow> (bool \<times> 'u SessionHandle) outcome" where
  "call_write buf n data =
     (case fwrite_func (set_opt data) of
        None \<Rightarrow> Ok (True, data)
      | Some f \<Rightarrow>
          bind_outcome (f buf n (event_args (set_opt data))) (\<lambda>(k, a).
            Ok (k = n, data\<lparr>set_opt := (set_opt data)\<lparr>event_args := a\<rparr>\<rparr>)))"

definition got_now :: "recv_turn \<Rightarrow> int list \<Rightarrow> nat" where
  "got_now t inp =
     (if r_got t < 0 then size_mod - 1 else Orderings.min (nat (r_got t)) (Orderings.min MRJ_DOWN_PERSIZE (length inp)))"

fun down_loop ::
    "timeval \<Rightarrow> nat \<Rightarrow> 'u SessionHandle \<Rightarrow> int list \<Rightarrow> recv_turn list
      \<Rightarrow> (MRJEcode \<times> 'u SessionHandle \<times> int list \<times> recv_turn list) outcome" where
  "down_loop bef already data inp [] = NoFuel"
| "down_loop bef already data inp (t # ts) =
     (if wselect t \<noteq> MRJE_OK then Ok (wselect t, data, inp, ts)
      else
        let cl = content_len (info data);
            per = got_now t inp;
            now = (if r_got t < 0 then [] else take per inp);
            inp' = drop (length now) inp;
            buf = now @ replicate (MRJ_MAX_BUFSIZE - length now) 0
        in if per \<noteq> 0 then
             let sum = (already + per) mod size_mod;
                 per' = (if sum > cl then nat ((int per - int (sum - cl)) mod int size_mod) else per);
                 already' = (if sum > cl then cl else sum)
             in bind_outcome (call_write buf per' data) (\<lambda>(ok, data').
                  if \<not> ok then Ok (MRJE_WRITE_ERROR, data', inp', ts)
                  else if timeleft data' bef (r_now t) \<le> 0 then Ok (MRJE_TIME_OUT, data', inp', ts)
                  else if already' < cl then down_loop bef already' data' inp' ts
                  else Ok (MRJE_OK, data', inp', ts))
           else if already < cl then Ok (MRJE_DISCONNHOST, data, inp', ts)
           else if timeleft data bef (r_now t) \<le> 0 then Ok (MRJE_TIME_OUT, data, inp', ts)
           else Ok (MRJE_OK, data, inp', ts))"

definition recv_data_download :: "'u SessionHandle \<Rightarrow> io \<Rightarrow> (MRJEcode \<times> 'u SessionHandle \<times> io) outcome" where
  "recv_data_download data io =
     bind_outcome (down_loop (before io) 0 data (incoming io) (rcvs io)) (\<lambda>(r, data', inp, ts).
       Ok (r, data', io\<lparr>incoming := inp, rcvs := ts\<rparr>))"

section \<open>A request and its response\<close>

definition status_result :: "int \<Rightarrow> MRJEcode" where
  "status_result code =
     (if code = 200 then MRJE_OK
      else if code = 206 then MRJE_OK
      else if code = 400 then MRJE_HTTP_SERVERE400
      else if code = 401 then MRJE_HTTP_SERVERE401
      else if code = 403 then MRJE_HTTP_SERVERE403
      else if code = 404 then MRJE_HTTP_SERVERE404
      else if code = 500 then MRJE_HTTP_SERVERE500
      else if code = 503 then MRJE_HTTP_SERVERE503
      else MRJE_UNKNOWN)"

text \<open>The parts of \<^verbatim>\<open>send_hcmd\<close> in the order of the code; \<open>malloc\<close> is called by \<^verbatim>\<open>parse_response\<close> for a POST with a complete head only.\<close>

definition hcmd_parse :: "'u SessionHandle \<Rightarrow> io \<Rightarrow> (MRJEcode \<times> 'u SessionHandle \<times> io) outcome" where
  "hcmd_parse data io =
     bind_outcome (p_strcasestr (response_recv data) 0 MRJ_ENDOFHEAD) (\<lambda>peoh.
     bind_outcome (if peoh \<noteq> None \<and> httpreq (set_opt data) = HTTPREQ_POST then malloc_ok io else Ok (True, io)) (\<lambda>(m, io1).
     bind_outcome (parse_response m data) (\<lambda>(res, data1).
       if res \<noteq> MRJE_OK then Ok (res, data1, io1) else Ok (status_result (httpcode (info data1)), data1, io1))))"

definition hcmd_receive :: "'u SessionHandle \<Rightarrow> io \<Rightarrow> (MRJEcode \<times> 'u SessionHandle \<times> io) outcome" where
  "hcmd_receive data io =
     bind_outcome (recv_data (data\<lparr>response_recv_len := 0\<rparr>) 4 io) (\<lambda>(res, data1, io1).
       if res \<noteq> MRJE_OK then Ok (MRJE_RECV_ERROR, data1, io1)
       else
         bind_outcome (if httpreq (set_opt data1) = HTTPREQ_POST then recv_data data1 2 io1 else Ok (MRJE_OK, data1, io1)) (\<lambda>(res2, data2, io2).
           if res2 \<noteq> MRJE_OK then Ok (MRJE_RECV_ERROR, data2, io2)
           else
             bind_outcome (if verbose (set_opt data2) then show_resp_head (response_recv data2) (response_recv_len data2) io2 else Ok (MRJE_OK, io2))
               (\<lambda>(_, io3). hcmd_parse data2 io3)))"

definition send_hcmd :: "'u SessionHandle \<Rightarrow> int list \<Rightarrow> nat \<Rightarrow> io \<Rightarrow> (MRJEcode \<times> 'u SessionHandle \<times> io) outcome" where
  "send_hcmd data hcmd hlen io =
     bind_outcome (connect_host data io) (\<lambda>(res, data1, io1).
       if res \<noteq> MRJE_OK then Ok (res, data1, io1)
       else
         bind_outcome (if verbose (set_opt data1) then show_req_head hcmd hlen io1 else Ok (MRJE_OK, io1)) (\<lambda>(_, io2).
         bind_outcome (send_data data1 hcmd hlen io2) (\<lambda>(res2, io3).
           if res2 \<noteq> MRJE_OK then Ok (MRJE_SEND_ERROR, data1, io3) else hcmd_receive data1 io3)))"

text \<open>\<open>printf\<close> of an \<open>int\<close>, and the three heads; \<open>snprintf\<close> keeps all but the last two bytes of the buffer.\<close>

definition fmt_d :: "int \<Rightarrow> int list" where
  "fmt_d i = (if i < 0 then 45 # dec (nat (- i)) else dec (nat i))"

definition crlf :: "int list" where "crlf = [13, 10]"

definition S_pos_head :: "int list \<Rightarrow> int list \<Rightarrow> int \<Rightarrow> int list" where
  "S_pos_head path h n =
     codes ''POST '' @ path @ codes '' HTTP/1.0'' @ crlf @ codes ''Accept: */*'' @ crlf @ codes ''HOST: '' @ h @ crlf @
     codes ''Content-Length: '' @ fmt_d n @ crlf @ codes ''Content-Type: application/x-www-form-urlencoded'' @ crlf @ crlf"

definition S_get_head :: "int list \<Rightarrow> int list \<Rightarrow> int \<Rightarrow> int list" where
  "S_get_head path h p =
     codes ''GET '' @ path @ codes '' HTTP/1.1'' @ crlf @ codes ''Accept:*/*'' @ crlf @ codes ''Host:'' @ h @ 58 # fmt_d p @ crlf @
     codes ''Connection:Keep-alive'' @ crlf @ crlf"

definition S_get_head_range :: "int list \<Rightarrow> int \<Rightarrow> int list \<Rightarrow> int \<Rightarrow> int list" where
  "S_get_head_range path from h p =
     codes ''GET '' @ path @ codes '' HTTP/1.1'' @ crlf @ codes ''Accept:*/*'' @ crlf @ codes ''Range: bytes='' @ fmt_d from @ 45 # crlf @
     codes ''Host:'' @ h @ 58 # fmt_d p @ crlf @ codes ''Connection:Keep-alive'' @ crlf @ crlf"

definition request_head :: "'u SessionHandle \<Rightarrow> (int list \<times> nat) option" where
  "request_head data =
     (let u = set_opt data; cut = take (MRJ_MAX_REQHEAD - 2) in
      if httpreq u = HTTPREQ_POST then
        Some (cut (S_pos_head (remote_path data) (host data) (to_s32 (int (send_len u)))), send_len u)
      else if httpreq u = HTTPREQ_GET then
        if set_resume_from u = 0 then Some (cut (S_get_head (remote_path data) (host data) (port data)), 0)
        else Some (cut (S_get_head_range (remote_path data) (to_s32 (int (set_resume_from u))) (host data) (port data)), 0)
      else None)"

text \<open>The bytes sent: the head, the data of a POST and a NUL.\<close>

definition http_request_bytes :: "int list \<Rightarrow> nat \<Rightarrow> 'u UserDefined \<Rightarrow> int list" where
  "http_request_bytes head data_len u =
     head @ (case send_buf u of Some s \<Rightarrow> strncpy_bytes data_len (takeWhile (\<lambda>c. c \<noteq> 0) s) | None \<Rightarrow> replicate data_len 0) @ [0]"

definition transfer_body :: "'u SessionHandle \<Rightarrow> io \<Rightarrow> (MRJEcode \<times> 'u SessionHandle \<times> io) outcome" where
  "transfer_body data io =
     (if httpreq (set_opt data) = HTTPREQ_GET then
        if httpcode (info data) = 206 \<or> httpcode (info data) = 200 then
          if content_len (info data) = 0 then Ok (MRJE_EMPTYRES, data, io) else recv_data_download data io
        else Ok (MRJE_UNKNOWN, data, io)
      else if httpreq (set_opt data) = HTTPREQ_POST then
        if httpcode (info data) = 200 then
          bind_outcome (call_write (case recv_buf (set_opt data) of Some b \<Rightarrow> b | None \<Rightarrow> []) (recv_len (set_opt data)) data) (\<lambda>(ok, data1).
            Ok (if ok then MRJE_OK else MRJE_ABORTED_BY_CALLBACK, data1, io))
        else Ok (MRJE_UNKNOWN, data, io)
      else Ok (MRJE_UNSUPPORTED_PROTOCOL, data, io))"

definition http_transfer :: "'u SessionHandle \<Rightarrow> io \<Rightarrow> (MRJEcode \<times> 'u SessionHandle \<times> io) outcome" where
  "http_transfer data io =
     (case request_head data of
        None \<Rightarrow> Ok (MRJE_UNSUPPORTED_PROTOCOL, data, io)
      | Some (head, data_len) \<Rightarrow>
          bind_outcome (malloc_ok io) (\<lambda>(m, io1).
            if \<not> m then Ok (MRJE_OUT_OF_MEMORY, data\<lparr>request_send := head\<rparr>, io1)
            else
              let total_len = length head + data_len + 1;
                  data1 = data\<lparr>request_send := head, request_send_len := total_len\<rparr>
              in bind_outcome (mrjx_tvnow io1) (\<lambda>(now, io2).
                 bind_outcome (send_hcmd data1 (http_request_bytes head data_len (set_opt data1)) total_len (io2\<lparr>before := now\<rparr>))
                   (\<lambda>(res, data2, io3). if res = MRJE_OK then transfer_body data2 io3 else Ok (res, data2, io3)))))"

section \<open>The client's interface\<close>

text \<open>
  \<open>inet_addr\<close>: up to four numbers with points between them, in decimal, octal or hexadecimal. The last one fills the bytes
  that are left. The result is in network order; a text that is not an address gives all ones.
\<close>

definition digit_of :: "int \<Rightarrow> nat" where
  "digit_of c = (if isdigit c then nat (c - 48) else if 97 \<le> c \<and> c \<le> 102 then nat (c - 87) else if 65 \<le> c \<and> c \<le> 70 then nat (c - 55) else 16)"

fun take_digits :: "nat \<Rightarrow> nat \<Rightarrow> int list \<Rightarrow> nat \<times> int list" where
  "take_digits base v [] = (v, [])"
| "take_digits base v (c # cs) = (if digit_of c < base then take_digits base (base * v + digit_of c) cs else (v, c # cs))"

definition strtoul_0 :: "int list \<Rightarrow> nat \<times> int list" where
  "strtoul_0 s =
     (if c_at s 0 = 48 \<and> (c_at s 1 = 120 \<or> c_at s 1 = 88) \<and> digit_of (c_at s 2) < 16 then take_digits 16 0 (drop 2 s)
      else if c_at s 0 = 48 then take_digits 8 0 s
      else take_digits 10 0 s)"

fun addr_parts :: "nat \<Rightarrow> int list \<Rightarrow> nat list option" where
  "addr_parts 0 s = None"
| "addr_parts (Suc k) s =
     (if \<not> isdigit (c_at s 0) then None
      else
        let (v, rest) = strtoul_0 s in
        if v > 0xffffffff then None
        else if c_at rest 0 = 46 then if v > 0xff then None else map_option (\<lambda>ps. v # ps) (addr_parts k (drop 1 rest))
        else if rest = [] \<or> (isascii (hd rest) \<and> isspace (hd rest)) then Some [v]
        else None)"

definition inet_addr :: "int list \<Rightarrow> 32 word" where
  "inet_addr s =
     htonl (case addr_parts 4 s of
              None \<Rightarrow> 0xffffffff
            | Some ps \<Rightarrow>
                let n = length ps - 1;
                    high = foldr (\<lambda>i acc. ps ! i * 2 ^ (24 - 8 * i) + acc) [0..<n] 0
                in if ps ! n < 2 ^ (32 - 8 * n) then of_nat (high + ps ! n) else 0xffffffff)"

definition http_load_url :: "'u SessionHandle \<Rightarrow> (MRJEcode \<times> 'u SessionHandle) outcome" where
  "http_load_url data =
     bind_outcome (parse_url data) (\<lambda>(res, data1).
       if res \<noteq> MRJE_OK then Ok (res, data1)
       else Ok (MRJE_OK, data1\<lparr>remote_addr := (htons (of_int (port data1)), inet_addr (host data1))\<rparr>))"

definition http_perform :: "'u SessionHandle \<Rightarrow> io \<Rightarrow> (MRJEcode \<times> 'u SessionHandle \<times> io) outcome" where
  "http_perform data io =
     bind_outcome (http_load_url data) (\<lambda>(res, data1). if res \<noteq> MRJE_OK then Ok (res, data1, io) else http_transfer data1 io)"

definition http_init :: "'u \<Rightarrow> io \<Rightarrow> ('u SessionHandle option \<times> io) outcome" where
  "http_init null io =
     bind_outcome (malloc_ok io) (\<lambda>(m, io1).
       if \<not> m then Ok (None, io1)
       else
         Ok (Some \<lparr>sock = -1, remote_addr = (0, 0), port = 0, host = [], remote_path = [], request_send = [], request_send_len = 0,
                   response_recv = replicate MRJ_MAX_RESPHEAD 0, response_recv_len = 0,
                   set_opt = \<lparr>verbose = False, httpreq = HTTPREQ_GET, httpversion = 0, timeout_ms = 0, connecttimeout = 0,
                              fwrite_func = None, is_fwrite_set = 0, event_args = null, set_url = None, send_len = 0, send_buf = None,
                              recv_len = 0, recv_buf = None, set_resume_from = 0\<rparr>,
                   info = \<lparr>httpcode = 0, content_len = 0\<rparr>\<rparr>, io1))"

text \<open>Closing a session frees it: the handle is gone afterwards.\<close>

definition http_close :: "'u SessionHandle \<Rightarrow> io \<Rightarrow> MRJEcode \<times> io" where
  "http_close data io = (MRJE_OK, if sock data \<noteq> -1 then io\<lparr>closed := closed io @ [sock data]\<rparr> else io)"

definition http_client_init :: "'u \<Rightarrow> io \<Rightarrow> ('u SessionHandle option \<times> io) outcome" where
  "http_client_init null io = http_init null io"

definition http_client_cleanup :: "'u SessionHandle option \<Rightarrow> io \<Rightarrow> io" where
  "http_client_cleanup handle io = (case handle of None \<Rightarrow> io | Some data \<Rightarrow> snd (http_close data io))"

definition http_client_perform :: "'u SessionHandle option \<Rightarrow> io \<Rightarrow> (MRJEcode \<times> 'u SessionHandle option \<times> io) outcome" where
  "http_client_perform handle io =
     (case handle of
        None \<Rightarrow> Fault
      | Some data \<Rightarrow> bind_outcome (http_perform data io) (\<lambda>(r, data', io'). Ok (r, Some data', io')))"

section \<open>Sending all of a request\<close>

text \<open>A turn of the network that makes progress in time.\<close>

definition send_fine :: "'u SessionHandle \<Rightarrow> timeval \<Rightarrow> send_turn \<Rightarrow> bool" where
  "send_fine data bef t \<longleftrightarrow> 0 < s_ret t \<and> 0 < timeleft data bef (s_now t)"

definition recv_fine :: "'u SessionHandle \<Rightarrow> timeval \<Rightarrow> recv_turn \<Rightarrow> bool" where
  "recv_fine data bef t \<longleftrightarrow> wselect t = MRJE_OK \<and> 0 < r_got t \<and> 0 < timeleft data bef (r_now t)"

lemma sent_now_fine: "send_fine data bef t \<Longrightarrow> 0 < n \<Longrightarrow> 0 < sent_now t n \<and> sent_now t n \<le> n"
  by (auto simp: send_fine_def sent_now_def)

lemma take_drop_split: "take k (drop a xs) @ drop (a + k) xs = drop a xs"
  by (metis append_take_drop_id drop_drop add.commute)

lemma send_loop_all:
  "list_all (send_fine data bef) ts \<Longrightarrow> length hcmd - already \<le> length ts \<Longrightarrow> already < length hcmd \<Longrightarrow> length hcmd < size_mod \<Longrightarrow>
   \<exists>ts'. http_send_loop data bef hcmd (length hcmd) already ts = Ok (MRJE_OK, drop already hcmd, ts')"
proof (induction ts arbitrary: already)
  case (Cons t ts)
  define per where "per = sent_now t (length hcmd - already)"
  have t: "0 < s_ret t" "0 < timeleft data bef (s_now t)" using Cons.prems(1) by (simp_all add: send_fine_def)
  have per: "0 < per" "per \<le> length hcmd - already" using sent_now_fine [of data bef t] Cons.prems by (simp_all add: per_def)
  have m: "(already + per) mod size_mod = already + per" using per Cons.prems by simp
  show ?case
  proof (cases "already + per < length hcmd")
    case True
    with Cons.IH [of "already + per"] Cons.prems per obtain ts' where
      "http_send_loop data bef hcmd (length hcmd) (already + per) ts = Ok (MRJE_OK, drop (already + per) hcmd, ts')" by force
    then show ?thesis using t per m True by (simp add: per_def [symmetric] Let_def take_drop_split)
  next
    case False
    then have "take per (drop already hcmd) = drop already hcmd" using per by simp
    then show ?thesis using t per m False by (simp add: per_def [symmetric] Let_def)
  qed
qed simp

section \<open>Reading a stream\<close>

text \<open>What \<^verbatim>\<open>recv_data\<close> takes off a stream: everything up to a run of so many line end characters.\<close>

fun read_until :: "nat \<Rightarrow> nat \<Rightarrow> int list \<Rightarrow> int list \<times> int list" where
  "read_until flag over [] = ([], [])"
| "read_until flag over (c # cs) =
     (let over' = (if c = 13 \<or> c = 10 then over + 1 else 0) in
      if over' < flag then (let (xs, ys) = read_until flag over' cs in (c # xs, ys)) else ([c], cs))"

lemma read_until_append:
  "read_until flag over xs = (xs, []) \<Longrightarrow> xs \<noteq> [] \<Longrightarrow> over < flag \<Longrightarrow>
   read_until flag over (xs @ ys) = (xs, ys) \<or>
   (\<exists>o' < flag. read_until flag over (xs @ ys) = (xs @ fst (read_until flag o' ys), snd (read_until flag o' ys)))"
proof (induction xs arbitrary: over)
  case (Cons c cs)
  show ?case
  proof (cases "cs = []")
    case True
    then show ?thesis by (auto simp: Let_def split: prod.splits)
  next
    case False
    define o' where "o' = (if c = 13 \<or> c = 10 then over + 1 else 0)"
    have o: "o' < flag" "read_until flag o' cs = (cs, [])" using Cons.prems(1) False by (auto simp: o'_def Let_def split: if_splits prod.splits)
    from Cons.IH [OF o(2) False o(1)] show ?thesis using o(1) by (auto simp: o'_def [symmetric] Let_def)
  qed
qed simp

definition put_at :: "int list \<Rightarrow> nat \<Rightarrow> int list \<Rightarrow> int list" where
  "put_at buf k xs = take k buf @ xs @ drop (k + length xs) buf"

lemma put_at_Cons: "k + length xs < length buf \<Longrightarrow> put_at (buf[k := x]) (k + 1) xs = put_at buf k (x # xs)"
  by (simp add: put_at_def take_Suc_conv_app_nth)

lemma length_put_at: "k + length xs \<le> length buf \<Longrightarrow> length (put_at buf k xs) = length buf"
  by (simp add: put_at_def)

lemma timeleft_cong: "set_opt d = set_opt d' \<Longrightarrow> timeleft d = timeleft d'"
  by (simp add: timeleft_def fun_eq_iff)

lemma recv_fine_cong: "set_opt d = set_opt d' \<Longrightarrow> recv_fine d = recv_fine d'"
  by (simp add: recv_fine_def fun_eq_iff timeleft_cong [of d d'])

definition recv_put :: "'u SessionHandle \<Rightarrow> int list \<Rightarrow> 'u SessionHandle" where
  "recv_put data xs =
     data\<lparr>response_recv := put_at (response_recv data) (response_recv_len data) xs, response_recv_len := response_recv_len data + length xs\<rparr>"

lemma recv_put_Cons:
  "response_recv_len data + length xs < length (response_recv data) \<Longrightarrow>
   recv_put (data\<lparr>response_recv := (response_recv data)[response_recv_len data := x], response_recv_len := response_recv_len data + 1\<rparr>) xs =
   recv_put data (x # xs)"
  using put_at_Cons [of "response_recv_len data" xs "response_recv data" x] by (simp add: recv_put_def)

lemma recv_put_Nil: "recv_put data [] = data"
  by (simp add: recv_put_def put_at_def)

lemma recv_loop_reads:
  "read_until flag over inp = (xs, rest) \<Longrightarrow> list_all (recv_fine data bef) ts \<Longrightarrow> length xs < length ts \<Longrightarrow> over < flag \<Longrightarrow>
   response_recv_len data + length xs \<le> MRJ_MAX_RESPHEAD \<Longrightarrow> length (response_recv data) = MRJ_MAX_RESPHEAD \<Longrightarrow>
   \<exists>k. k \<le> length xs + 1 \<and> http_recv_loop bef flag over ch data inp ts = Ok (MRJE_OK, recv_put data xs, rest, drop k ts)"
proof (induction inp arbitrary: over ch data xs ts)
  case Nil
  then obtain t ts' where ts: "ts = t # ts'" by (cases ts) auto
  then have "http_recv_loop bef flag over ch data [] ts = Ok (MRJE_OK, recv_put data xs, rest, drop 1 ts)"
    using Nil by (auto simp: recv_fine_def recv_put_Nil)
  then show ?case by (intro exI [of _ 1]) simp
next
  case (Cons c inp)
  then obtain t ts' where ts: "ts = t # ts'" by (cases ts) auto
  define o' where "o' = (if c = 13 \<or> c = 10 then over + 1 else 0)"
  define data' where "data' = data\<lparr>response_recv := (response_recv data)[response_recv_len data := c], response_recv_len := response_recv_len data + 1\<rparr>"
  obtain xs' where xs: "xs = c # xs'" using Cons.prems(1) by (auto simp: Let_def split: if_splits prod.splits)
  have same: "set_opt data' = set_opt data" by (simp add: data'_def)
  have t: "wselect t = MRJE_OK" "0 < r_got t" "0 < timeleft data' bef (r_now t)"
    using Cons.prems(2) ts timeleft_cong [OF same] by (simp_all add: recv_fine_def)
  have put: "recv_put data' xs' = recv_put data xs" using recv_put_Cons [of data xs' c] Cons.prems(5, 6) xs by (simp add: data'_def)
  have step: "http_recv_loop bef flag over ch data (c # inp) ts =
      (if o' < flag then http_recv_loop bef flag o' c data' inp ts' else Ok (MRJE_OK, data', inp, ts'))"
    using t [unfolded data'_def] Cons.prems(5, 6) xs ts by (simp add: o'_def data'_def Let_def)
  show ?case
  proof (cases "o' < flag")
    case True
    then have r: "read_until flag o' inp = (xs', rest)" using Cons.prems(1) xs by (auto simp: o'_def Let_def split: prod.splits)
    have "\<exists>k. k \<le> length xs' + 1 \<and> http_recv_loop bef flag o' c data' inp ts' = Ok (MRJE_OK, recv_put data' xs', rest, drop k ts')"
      using Cons.prems ts xs True recv_fine_cong [OF same] by (intro Cons.IH [OF r]) (simp_all add: data'_def)
    then obtain k where "k \<le> length xs' + 1" "http_recv_loop bef flag o' c data' inp ts' = Ok (MRJE_OK, recv_put data' xs', rest, drop k ts')" by blast
    then show ?thesis using step True put ts xs by (intro exI [of _ "Suc k"]) simp
  next
    case False
    then have "xs' = []" "rest = inp" using Cons.prems(1) xs by (auto simp: o'_def Let_def)
    then show ?thesis using step False put ts recv_put_Nil [of data'] by (intro exI [of _ 1]) simp
  qed
qed

lemma recv_data_reads:
  assumes "read_until flag 0 (incoming io) = (xs, rest)" "list_all (recv_fine data (before io)) (rcvs io)" "length xs < length (rcvs io)" "0 < flag"
    "response_recv_len data + length xs \<le> MRJ_MAX_RESPHEAD" "length (response_recv data) = MRJ_MAX_RESPHEAD"
  shows "\<exists>k. k \<le> length xs + 1 \<and>
     recv_data data flag io = Ok (MRJE_OK, recv_put data xs, io\<lparr>incoming := rest, rcvs := drop k (rcvs io)\<rparr>)"
  using recv_loop_reads [OF assms, of 0] by (auto simp: recv_data_def)

section \<open>Delivering a download\<close>

text \<open>
  The contract of a write callback: while there is room it takes what it is given, all of it, and puts it behind what it has
  already seen.
\<close>

locale write_sink =
  fixes give :: "'u write_callback"
    and seen :: "'u \<Rightarrow> int list"
    and room :: "'u \<Rightarrow> nat \<Rightarrow> bool"
  assumes takes: "room u (n + m) \<Longrightarrow> 0 < n \<Longrightarrow> n \<le> length buf \<Longrightarrow> \<exists>u'. give buf n u = Ok (n, u') \<and> seen u' = seen u @ take n buf \<and> room u' m"
begin

lemma call_write_takes:
  assumes "fwrite_func (set_opt data) = Some give" "room (event_args (set_opt data)) (n + m)" "0 < n" "n \<le> length buf"
  obtains u' where "call_write buf n data = Ok (True, data\<lparr>set_opt := (set_opt data)\<lparr>event_args := u'\<rparr>\<rparr>)"
    "seen u' = seen (event_args (set_opt data)) @ take n buf" "room u' m"
  using takes [OF assms(2, 3, 4)] assms(1) by (auto simp: call_write_def)

lemma down_loop_delivers:
  "list_all (recv_fine data bef) ts \<Longrightarrow> cl - already \<le> length ts \<Longrightarrow> cl - already \<le> length inp \<Longrightarrow> already < cl \<Longrightarrow>
   cl = content_len (info data) \<Longrightarrow> cl < 2 ^ 63 \<Longrightarrow> fwrite_func (set_opt data) = Some give \<Longrightarrow> room (event_args (set_opt data)) (cl - already) \<Longrightarrow>
   \<exists>u' rest ts'. down_loop bef already data inp ts = Ok (MRJE_OK, data\<lparr>set_opt := (set_opt data)\<lparr>event_args := u'\<rparr>\<rparr>, rest, ts') \<and>
     seen u' = seen (event_args (set_opt data)) @ take (cl - already) inp"
proof (induction ts arbitrary: already data inp)
  case (Cons t ts)
  define per where "per = got_now t inp"
  define buf where "buf = take per inp @ replicate (MRJ_MAX_BUFSIZE - per) 0"
  define per' where "per' = Orderings.min per (cl - already)"
  have t: "wselect t = MRJE_OK" "0 < r_got t" "0 < timeleft data bef (r_now t)" using Cons.prems(1) by (simp_all add: recv_fine_def)
  have inp: "0 < length inp" using Cons.prems(3, 4) by linarith
  then have per: "0 < per" "per \<le> length inp" "per \<le> MRJ_DOWN_PERSIZE" using t(2) by (auto simp: per_def got_now_def)
  have per': "0 < per'" "per' \<le> cl - already" "per' \<le> per" "per' \<le> length buf" "take per' buf = take per' inp"
    using per Cons.prems(4) by (auto simp: per'_def buf_def min_def)
  have sum: "(already + per) mod size_mod = already + per" using per(3) Cons.prems(4, 6) by simp
  have room: "room (event_args (set_opt data)) (per' + (cl - already - per'))" using Cons.prems(8) per'(2) by (simp only: le_add_diff_inverse)
  obtain u1 where u1: "call_write buf per' data = Ok (True, data\<lparr>set_opt := (set_opt data)\<lparr>event_args := u1\<rparr>\<rparr>)"
    "seen u1 = seen (event_args (set_opt data)) @ take per' inp" "room u1 (cl - already - per')"
    using call_write_takes [OF Cons.prems(7) room per'(1, 4)] per'(5) by metis
  define data1 where "data1 = data\<lparr>set_opt := (set_opt data)\<lparr>event_args := u1\<rparr>\<rparr>"
  have tl: "timeleft data1 = timeleft data" "recv_fine data1 = recv_fine data"
    by (simp_all add: data1_def timeleft_def recv_fine_def fun_eq_iff)
  have sub: "already + per > cl \<Longrightarrow> nat ((int per - int (already + per - cl)) mod int size_mod) = cl - already"
  proof -
    assume "already + per > cl"
    then have "int per - int (already + per - cl) = int (cl - already)" using Cons.prems(4) by simp
    then show ?thesis using Cons.prems(6) by simp
  qed
  have step: "down_loop bef already data inp (t # ts) =
      (if already + per < cl then down_loop bef (already + per) data1 (drop per inp) ts else Ok (MRJE_OK, data1, drop per inp, ts))"
  proof (cases "already + per > cl")
    case True
    then have "per' = cl - already" by (auto simp: per'_def)
    then show ?thesis using t per True sum sub [OF True] u1(1) tl Cons.prems(5) inp
      by (simp add: Let_def per_def [symmetric] buf_def [symmetric] data1_def [symmetric] min_absorb2)
  next
    case False
    then have "per' = per" by (auto simp: per'_def)
    then show ?thesis using t per False sum u1(1) tl Cons.prems(5) inp
      by (simp add: Let_def per_def [symmetric] buf_def [symmetric] data1_def [symmetric] min_absorb2)
  qed
  show ?case
  proof (cases "already + per < cl")
    case True
    then have p: "per' = per" by (auto simp: per'_def)
    have "\<exists>u' rest ts'. down_loop bef (already + per) data1 (drop per inp) ts =
          Ok (MRJE_OK, data1\<lparr>set_opt := (set_opt data1)\<lparr>event_args := u'\<rparr>\<rparr>, rest, ts') \<and>
        seen u' = seen (event_args (set_opt data1)) @ take (cl - (already + per)) (drop per inp)"
      using Cons.prems True per u1(3) p tl by (intro Cons.IH) (simp_all add: data1_def)
    then obtain u' rest ts' where "down_loop bef (already + per) data1 (drop per inp) ts =
        Ok (MRJE_OK, data\<lparr>set_opt := (set_opt data)\<lparr>event_args := u'\<rparr>\<rparr>, rest, ts')"
      "seen u' = seen u1 @ take (cl - (already + per)) (drop per inp)" by (auto simp: data1_def)
    moreover have "take per inp @ take (cl - (already + per)) (drop per inp) = take (cl - already) inp"
      using True by (simp flip: take_add)
    ultimately show ?thesis using step True u1(2) p by auto
  next
    case False
    then have "per' = cl - already" by (auto simp: per'_def)
    then show ?thesis using step False u1(2) by (auto simp: data1_def)
  qed
qed simp

end

section \<open>A transfer over a working network\<close>

text \<open>
  The network works for a request of so many bytes and a response of so many bytes: a socket, a connection and memory are there,
  and all turns are fine from the time the request starts.
\<close>

definition network_fine :: "'u SessionHandle \<Rightarrow> nat \<Rightarrow> nat \<Rightarrow> io \<Rightarrow> bool" where
  "network_fine data out inn io \<longleftrightarrow>
     sockets io \<noteq> [] \<and> hd (sockets io) \<noteq> -1 \<and> conns io \<noteq> [] \<and> connect_nnob (hd (conns io)) = MRJE_OK \<and> clock io \<noteq> [] \<and>
     4 \<le> length (mallocs io) \<and> list_all (\<lambda>m. m) (mallocs io) \<and>
     out \<le> length (sends io) \<and> list_all (send_fine data (hd (clock io))) (sends io) \<and>
     inn + 2 \<le> length (rcvs io) \<and> list_all (recv_fine data (hd (clock io))) (rcvs io)"

definition fresh :: "'u SessionHandle \<Rightarrow> bool" where
  "fresh data \<longleftrightarrow> sock data = -1 \<and> response_recv data = replicate MRJ_MAX_RESPHEAD 0"

lemma strncpy_from_inside: "p + n \<le> length b \<Longrightarrow> \<exists>r. strncpy_from b p n = Ok r \<and> length r = n"
proof (induction n arbitrary: p)
  case (Suc n)
  then have "\<exists>r. strncpy_from b (p + 1) n = Ok r \<and> length r = n" by (intro Suc.IH) simp
  with Suc.prems show ?case by auto
qed simp

lemma show_head_inside:
  assumes "n \<le> length head" "mallocs io = m # ms"
  shows "\<exists>r sh. show_req_head head n io = Ok (r, io\<lparr>mallocs := ms, shown := sh\<rparr>)"
    and "\<exists>r sh. show_resp_head head n io = Ok (r, io\<lparr>mallocs := ms, shown := sh\<rparr>)"
proof -
  obtain r where r: "strncpy_from head 0 n = Ok r" using strncpy_from_inside [of 0 n head] assms(1) by auto
  show "\<exists>r sh. show_req_head head n io = Ok (r, io\<lparr>mallocs := ms, shown := sh\<rparr>)"
    using r assms(2) by (cases m) (auto simp: show_req_head_def malloc_ok_def intro: exI [of _ "shown io"])
  show "\<exists>r sh. show_resp_head head n io = Ok (r, io\<lparr>mallocs := ms, shown := sh\<rparr>)"
    using r assms(2) by (cases m) (auto simp: show_resp_head_def malloc_ok_def intro: exI [of _ "shown io"])
qed

lemma connect_nnob_set: "connect_nnob t = MRJE_OK \<Longrightarrow> c_setfl t \<noteq> -1"
  by (auto simp: connect_nnob_def Let_def)

lemma connect_host_fresh:
  assumes "sock data = -1" "sockets io = s # ss" "s \<noteq> -1" "conns io = c # cs" "connect_nnob c = MRJE_OK"
  shows "connect_host data io = Ok (MRJE_OK, data\<lparr>sock := s\<rparr>, io\<lparr>sockets := ss, conns := cs, dialed := dialed io @ [remote_addr data]\<rparr>)"
  using assms connect_nnob_set [OF assms(5)] by (simp add: connect_host_def open_socket_def)

lemma send_fine_cong: "set_opt d = set_opt d' \<Longrightarrow> send_fine d = send_fine d'"
  by (simp add: send_fine_def fun_eq_iff timeleft_cong [of d d'])

text \<open>Up to the point where the response is read, a transfer sends the whole request to the address of the session.\<close>

lemma transfer_sends:
  assumes fine: "network_fine data (length req) inn io" and sock: "sock data = -1"
    and head: "request_head data = Some (head, data_len)" and req: "req = http_request_bytes head data_len (set_opt data)"
    and small: "length req < size_mod"
  obtains s io1 where
    "http_transfer data io =
       bind_outcome (hcmd_receive (data\<lparr>request_send := head, request_send_len := length req, sock := s\<rparr>) io1)
         (\<lambda>(res, data2, io2). if res = MRJE_OK then transfer_body data2 io2 else Ok (res, data2, io2))"
    "wire io1 = wire io @ req" "dialed io1 = dialed io @ [remote_addr data]" "incoming io1 = incoming io" "rcvs io1 = rcvs io"
    "before io1 = hd (clock io)" "2 \<le> length (mallocs io1)" "list_all (\<lambda>m. m) (mallocs io1)"
proof -
  from fine obtain s ss c cs now nows where sc: "sockets io = s # ss" "s \<noteq> -1" "conns io = c # cs" "connect_nnob c = MRJE_OK" "clock io = now # nows"
    by (auto simp: network_fine_def neq_Nil_conv)
  obtain m1 m2 ms where ms: "mallocs io = m1 # m2 # ms" "m1" "m2" "2 \<le> length ms" "list_all (\<lambda>m. m) ms"
    using fine by (cases "mallocs io"; cases "tl (mallocs io)") (auto simp: network_fine_def)
  have snd: "length req \<le> length (sends io)" "list_all (send_fine data now) (sends io)" using fine sc by (simp_all add: network_fine_def)
  have len: "length req = length head + data_len + 1" by (cases "send_buf (set_opt data)") (simp_all add: req http_request_bytes_def)
  define data1 where "data1 = data\<lparr>request_send := head, request_send_len := length req\<rparr>"
  define data2 where "data2 = data1\<lparr>sock := s\<rparr>"
  define io1 where "io1 = io\<lparr>mallocs := m2 # ms, clock := nows, before := now\<rparr>"
  define io2 where "io2 = io1\<lparr>sockets := ss, conns := cs, dialed := dialed io1 @ [remote_addr data1]\<rparr>"
  have conn: "connect_host data1 io1 = Ok (MRJE_OK, data2, io2)"
    using connect_host_fresh [of data1 io1 s ss c cs] sock sc by (simp add: data1_def data2_def io1_def io2_def)
  obtain r sh ms' where shw: "(if verbose (set_opt data2) then show_req_head req (length req) io2 else Ok (MRJE_OK, io2)) = Ok (r, io2\<lparr>mallocs := ms', shown := sh\<rparr>)"
    and ms': "2 \<le> length ms'" "list_all (\<lambda>m. m) ms'"
  proof (cases "verbose (set_opt data2)")
    case True
    then show thesis using that show_head_inside(1) [of "length req" req io2 m2 ms] ms by (auto simp: io2_def io1_def)
  next
    case False
    then show thesis using that [of MRJE_OK "shown io2" "m2 # ms"] ms by (simp add: io2_def io1_def)
  qed
  define io3 where "io3 = io2\<lparr>mallocs := ms', shown := sh\<rparr>"
  have same: "set_opt data2 = set_opt data" by (simp add: data2_def data1_def)
  have ne: "req \<noteq> []" using len by auto
  obtain ts where snt: "http_send_loop data2 now req (length req) 0 (sends io) = Ok (MRJE_OK, req, ts)"
    using send_loop_all [of data2 now "sends io" req 0] snd ne small send_fine_cong [OF same] by auto
  define io4 where "io4 = io3\<lparr>wire := wire io @ req, sends := ts\<rparr>"
  have sd: "send_data data2 req (length req) io3 = Ok (MRJE_OK, io4)"
    using snt by (simp add: send_data_def io4_def io3_def io2_def io1_def)
  have hc: "send_hcmd data1 req (length req) io1 = hcmd_receive data2 io4"
    using conn shw sd by (simp add: send_hcmd_def io3_def [symmetric])
  have "http_transfer data io = bind_outcome (send_hcmd data1 req (length req) io1)
      (\<lambda>(res, data2, io2). if res = MRJE_OK then transfer_body data2 io2 else Ok (res, data2, io2))"
    using head ms(1, 2) sc(5) len by (simp add: http_transfer_def malloc_ok_def mrjx_tvnow_def Let_def req data1_def io1_def)
  then have "http_transfer data io = bind_outcome (hcmd_receive (data\<lparr>request_send := head, request_send_len := length req, sock := s\<rparr>) io4)
      (\<lambda>(res, data2, io2). if res = MRJE_OK then transfer_body data2 io2 else Ok (res, data2, io2))"
    unfolding hc by (simp add: data2_def data1_def)
  moreover have "wire io4 = wire io @ req" "dialed io4 = dialed io @ [remote_addr data]" "incoming io4 = incoming io" "rcvs io4 = rcvs io"
    "before io4 = hd (clock io)" "2 \<le> length (mallocs io4)" "list_all (\<lambda>m. m) (mallocs io4)"
    using ms' sc by (simp_all add: io4_def io3_def io2_def io1_def data1_def)
  ultimately show thesis using that by blast
qed

section \<open>A post delivers the body of the response\<close>

text \<open>
  The responses a POST reads completely: the first blank line ends the head, the body has no two line ends in a row before its
  end, and all of it fits into the buffer with a NUL behind.
\<close>

definition good_head_end :: "nat \<Rightarrow> int list \<Rightarrow> nat \<Rightarrow> int list \<Rightarrow> bool" where
  "good_head_end code h1 n h2 \<longleftrightarrow>
     good_head code h1 n h2 \<and> read_until 4 0 (response_fields code h1 n h2 @ MRJ_ENDOFHEAD) = (response_fields code h1 n h2 @ MRJ_ENDOFHEAD, [])"

definition good_post :: "nat \<Rightarrow> int list \<Rightarrow> nat \<Rightarrow> int list \<Rightarrow> int list \<Rightarrow> bool" where
  "good_post code h1 n h2 body \<longleftrightarrow>
     good_head_end code h1 n h2 \<and> (n = 0 \<or> n = length body) \<and> 0 \<notin> set body \<and> read_until 2 0 body = (body, []) \<and>
     length (http_response code h1 n h2 body) < MRJ_MAX_RESPHEAD"

lemma read_until_head: "read_until 4 over (x @ MRJ_ENDOFHEAD) = (x @ MRJ_ENDOFHEAD, []) \<Longrightarrow> read_until 4 over (x @ MRJ_ENDOFHEAD @ y) = (x @ MRJ_ENDOFHEAD, y)"
proof (induction x arbitrary: over)
  case Nil
  then show ?case by (auto simp: MRJ_ENDOFHEAD_def Let_def split: if_splits)
next
  case (Cons a x)
  define o' where "o' = (if a = 13 \<or> a = 10 then over + 1 else 0)"
  show ?case
  proof (cases "o' < 4")
    case True
    then have "read_until 4 o' (x @ MRJ_ENDOFHEAD) = (x @ MRJ_ENDOFHEAD, [])" using Cons.prems by (auto simp: o'_def Let_def split: prod.splits)
    from Cons.IH [OF this] True show ?thesis by (simp add: o'_def Let_def)
  next
    case False
    then show ?thesis using Cons.prems by (auto simp: o'_def Let_def)
  qed
qed

lemma read_until_response:
  "good_head_end code h1 n h2 \<Longrightarrow> read_until 4 0 (http_response code h1 n h2 body) = (response_fields code h1 n h2 @ MRJ_ENDOFHEAD, body)"
  using read_until_head [of 0 "response_fields code h1 n h2" body] by (simp add: good_head_end_def http_response_def)

lemma put_at_zero: "length xs < n \<Longrightarrow> put_at (replicate n 0) 0 xs = xs @ 0 # replicate (n - length xs - 1) 0"
  by (simp add: put_at_def) (metis Suc_diff_Suc diff_Suc_eq_diff_pred replicate_Suc One_nat_def diff_Suc_1)

lemma put_at_put_at: "length xs + length ys \<le> length buf \<Longrightarrow> put_at (put_at buf 0 xs) (length xs) ys = put_at buf 0 (xs @ ys)"
  by (simp add: put_at_def add.commute)

lemma recv_put_twice:
  "response_recv_len data = 0 \<Longrightarrow> length xs + length ys \<le> length (response_recv data) \<Longrightarrow>
   recv_put (recv_put data xs) ys = recv_put data (xs @ ys)"
  by (simp add: recv_put_def put_at_put_at)

lemma recv_put_simps [simp]:
  "set_opt (recv_put data xs) = set_opt data" "response_recv_len (recv_put data xs) = response_recv_len data + length xs"
  "response_recv (recv_put data xs) = put_at (response_recv data) (response_recv_len data) xs"
  by (simp_all add: recv_put_def)

text \<open>Printing the head of a response costs memory and prints; nothing else changes.\<close>

lemma show_resp_then:
  assumes "n \<le> length buf" "k < length (mallocs io)" "list_all (\<lambda>m. m) (mallocs io)"
  obtains r sh ms where "(if v then show_resp_head buf n io else Ok (MRJE_OK, io)) = Ok (r, io\<lparr>mallocs := ms, shown := sh\<rparr>)"
    "k \<le> length ms" "list_all (\<lambda>m. m) ms"
proof (cases v)
  case True
  from assms(2) obtain m ms where "mallocs io = m # ms" by (cases "mallocs io") auto
  with True show thesis using that show_head_inside(2) [OF assms(1), of io m ms] assms(2, 3) by auto
next
  case False
  with assms(2, 3) show thesis using that [of MRJE_OK "shown io" "mallocs io"] by simp
qed

lemma hcmd_parse_post:
  assumes g: "good_post code h1 n h2 body" and buf: "response_recv data = http_response code h1 n h2 body @ 0 # rest"
    and post: "httpreq (set_opt data) = HTTPREQ_POST" and ms: "mallocs io = True # ms"
  shows "hcmd_parse data io = Ok (status_result (int code), data\<lparr>info := \<lparr>httpcode = int code, content_len = n\<rparr>,
      set_opt := (set_opt data)\<lparr>recv_buf := Some (body @ [0]), recv_len := length body\<rparr>\<rparr>, io\<lparr>mallocs := ms\<rparr>)"
proof -
  note gp = g [unfolded good_post_def]
  have zero: "0 \<notin> set (http_response code h1 n h2 body)" using gp good_head_no_zero by (auto simp: http_response_def good_head_end_def)
  have fe: "find_sub MRJ_ENDOFHEAD (http_response code h1 n h2 body) = Some (length (response_fields code h1 n h2))"
    using find_sub_append [of MRJ_ENDOFHEAD "response_fields code h1 n h2" body] gp by (simp add: http_response_def good_head_end_def good_head_def)
  have pe: "p_strcasestr (response_recv data) 0 MRJ_ENDOFHEAD = Ok (Some (length (response_fields code h1 n h2)))"
    using p_strcasestr_found [of 0 "response_recv data" "http_response code h1 n h2 body"] buf zero fe by simp
  have rl: "response_len n body = length body" "strncpy_bytes (length body) body = body" using gp by (auto simp: response_len_def strncpy_bytes_def)
  have pr: "parse_response True data = Ok (MRJE_OK, data\<lparr>info := \<lparr>httpcode = int code, content_len = n\<rparr>,
      set_opt := (set_opt data)\<lparr>recv_buf := Some (body @ [0]), recv_len := length body\<rparr>\<rparr>)"
    using parse_response_reads [OF buf] gp post rl by (simp add: good_head_end_def)
  show ?thesis using pe post pr ms by (simp add: hcmd_parse_def malloc_ok_def)
qed

lemma hcmd_receive_post:
  assumes g: "good_post code h1 n h2 body" and inp: "incoming io = http_response code h1 n h2 body"
    and fine: "list_all (recv_fine data (before io)) (rcvs io)" "length (http_response code h1 n h2 body) + 2 \<le> length (rcvs io)"
    and mem: "2 \<le> length (mallocs io)" "list_all (\<lambda>m. m) (mallocs io)"
    and data: "response_recv data = replicate MRJ_MAX_RESPHEAD 0" "httpreq (set_opt data) = HTTPREQ_POST"
  shows "\<exists>data' io'. hcmd_receive data io = Ok (status_result (int code), data', io') \<and> incoming io' = [] \<and>
     wire io' = wire io \<and> dialed io' = dialed io \<and> httpcode (info data') = int code \<and>
     set_opt data' = (set_opt data)\<lparr>recv_buf := Some (body @ [0]), recv_len := length body\<rparr>"
proof -
  define hd' where "hd' = response_fields code h1 n h2 @ MRJ_ENDOFHEAD"
  define resp where "resp = http_response code h1 n h2 body"
  note gp = g [unfolded good_post_def]
  have resp: "resp = hd' @ body" by (simp add: resp_def hd'_def http_response_def)
  have len: "length hd' + length body < MRJ_MAX_RESPHEAD" using gp resp by (simp add: resp_def [symmetric])
  define data0 where "data0 = data\<lparr>response_recv_len := 0\<rparr>"
  have d0: "set_opt data0 = set_opt data" "response_recv_len data0 = 0" "length (response_recv data0) = MRJ_MAX_RESPHEAD" "response_recv data0 = replicate MRJ_MAX_RESPHEAD 0"
    using data by (simp_all add: data0_def)
  have r1: "read_until 4 0 (incoming io) = (hd', body)" using read_until_response gp inp by (simp add: hd'_def)
  obtain k where k: "k \<le> length hd' + 1" "recv_data data0 4 io = Ok (MRJE_OK, recv_put data0 hd', io\<lparr>incoming := body, rcvs := drop k (rcvs io)\<rparr>)"
    using recv_data_reads [OF r1, of data0] fine len d0 recv_fine_cong [OF d0(1)] resp by (auto simp: resp_def [symmetric])
  define data1 where "data1 = recv_put data0 hd'"
  define io1 where "io1 = io\<lparr>incoming := body, rcvs := drop k (rcvs io)\<rparr>"
  have d1: "set_opt data1 = set_opt data" using d0 by (simp add: data1_def)
  have r2: "read_until 2 0 (incoming io1) = (body, [])" using gp by (simp add: io1_def)
  have f2: "list_all (recv_fine data1 (before io1)) (rcvs io1)" "length body < length (rcvs io1)"
    using fine k(1) resp recv_fine_cong [OF d1] by (auto simp: io1_def list_all_iff resp_def [symmetric] dest: in_set_dropD)
  obtain k2 where k2: "recv_data data1 2 io1 = Ok (MRJE_OK, recv_put data1 body, io1\<lparr>incoming := [], rcvs := drop k2 (rcvs io1)\<rparr>)"
    using recv_data_reads [OF r2 f2] len d0 by (auto simp: data1_def length_put_at)
  define data2 where "data2 = recv_put data1 body"
  define io2 where "io2 = io1\<lparr>incoming := [], rcvs := drop k2 (rcvs io1)\<rparr>"
  have d2: "data2 = recv_put data0 resp" using recv_put_twice [of data0 hd' body] d0 len by (simp add: data2_def data1_def resp)
  have buf: "response_recv data2 = resp @ 0 # replicate (MRJ_MAX_RESPHEAD - length resp - 1) 0"
    using put_at_zero [of resp MRJ_MAX_RESPHEAD] len d0 by (simp add: d2 resp)
  have len2: "response_recv_len data2 \<le> length (response_recv data2)" using d0 len by (simp add: d2 resp length_put_at)
  obtain r sh ms where shw: "(if verbose (set_opt data2) then show_resp_head (response_recv data2) (response_recv_len data2) io2 else Ok (MRJE_OK, io2)) =
      Ok (r, io2\<lparr>mallocs := ms, shown := sh\<rparr>)" and ms: "1 \<le> length ms" "list_all (\<lambda>m. m) ms"
    using show_resp_then [OF len2, of 1 io2 "verbose (set_opt data2)"] mem by (auto simp: io2_def io1_def)
  then obtain ms' where ms': "ms = True # ms'" by (cases ms) auto
  define io3 where "io3 = io2\<lparr>mallocs := ms, shown := sh\<rparr>"
  have post2: "httpreq (set_opt data2) = HTTPREQ_POST" using data d1 by (simp add: data2_def)
  have hp: "hcmd_parse data2 io3 = Ok (status_result (int code), data2\<lparr>info := \<lparr>httpcode = int code, content_len = n\<rparr>,
      set_opt := (set_opt data2)\<lparr>recv_buf := Some (body @ [0]), recv_len := length body\<rparr>\<rparr>, io3\<lparr>mallocs := ms'\<rparr>)"
    using hcmd_parse_post [OF g buf [unfolded resp_def] post2, of io3 ms'] ms' by (simp add: io3_def)
  have "hcmd_receive data io = hcmd_parse data2 io3"
    using k(2) k2 shw post2 d1 data(2) unfolding hcmd_receive_def data0_def [symmetric]
    by (simp add: data1_def [symmetric] io1_def [symmetric] data2_def [symmetric] io2_def [symmetric] io3_def)
  with hp show ?thesis by (auto simp: io3_def io2_def io1_def data2_def d1)
qed

lemma hcmd_receive_get:
  assumes g: "good_head_end code h1 n h2" and inp: "incoming io = http_response code h1 n h2 body"
    and fits: "length (http_response code h1 n h2 []) < MRJ_MAX_RESPHEAD"
    and fine: "list_all (recv_fine data (before io)) (rcvs io)" "length (http_response code h1 n h2 []) < length (rcvs io)"
    and mem: "1 \<le> length (mallocs io)" "list_all (\<lambda>m. m) (mallocs io)"
    and data: "response_recv data = replicate MRJ_MAX_RESPHEAD 0" "httpreq (set_opt data) = HTTPREQ_GET"
  shows "\<exists>data' io' k. hcmd_receive data io = Ok (status_result (int code), data', io') \<and> incoming io' = body \<and>
     wire io' = wire io \<and> dialed io' = dialed io \<and> before io' = before io \<and> k \<le> length (http_response code h1 n h2 []) + 1 \<and>
     rcvs io' = drop k (rcvs io) \<and> info data' = \<lparr>httpcode = int code, content_len = n\<rparr> \<and> set_opt data' = set_opt data"
proof -
  define resp where "resp = http_response code h1 n h2 []"
  have resp: "resp = response_fields code h1 n h2 @ MRJ_ENDOFHEAD" by (simp add: resp_def http_response_def)
  define data0 where "data0 = data\<lparr>response_recv_len := 0\<rparr>"
  have d0: "set_opt data0 = set_opt data" "response_recv_len data0 = 0" "length (response_recv data0) = MRJ_MAX_RESPHEAD" "response_recv data0 = replicate MRJ_MAX_RESPHEAD 0"
    using data by (simp_all add: data0_def)
  have r1: "read_until 4 0 (incoming io) = (resp, body)" using read_until_response [OF g] inp by (simp add: resp)
  obtain k where k: "k \<le> length resp + 1" "recv_data data0 4 io = Ok (MRJE_OK, recv_put data0 resp, io\<lparr>incoming := body, rcvs := drop k (rcvs io)\<rparr>)"
    using recv_data_reads [OF r1, of data0] fine fits d0 recv_fine_cong [OF d0(1)] by (auto simp: resp_def [symmetric])
  define data1 where "data1 = recv_put data0 resp"
  define io1 where "io1 = io\<lparr>incoming := body, rcvs := drop k (rcvs io)\<rparr>"
  have buf: "response_recv data1 = resp @ 0 # replicate (MRJ_MAX_RESPHEAD - length resp - 1) 0"
    using put_at_zero [of resp MRJ_MAX_RESPHEAD] fits d0 by (simp add: data1_def resp_def [symmetric])
  have len1: "response_recv_len data1 \<le> length (response_recv data1)" using d0 fits by (simp add: data1_def length_put_at resp_def [symmetric])
  obtain r sh ms where shw: "(if verbose (set_opt data1) then show_resp_head (response_recv data1) (response_recv_len data1) io1 else Ok (MRJE_OK, io1)) =
      Ok (r, io1\<lparr>mallocs := ms, shown := sh\<rparr>)"
    by (rule show_resp_then [OF len1, of 0 io1 "verbose (set_opt data1)"]) (use mem in \<open>simp_all add: io1_def Suc_le_eq\<close>)
  define io2 where "io2 = io1\<lparr>mallocs := ms, shown := sh\<rparr>"
  have get1: "httpreq (set_opt data1) = HTTPREQ_GET" using data d0 by (simp add: data1_def)
  have pe: "\<exists>p. p_strcasestr (response_recv data1) 0 MRJ_ENDOFHEAD = Ok p"
    using p_strcasestr_found [of 0 "response_recv data1" resp] buf good_head_no_zero g by (auto simp: resp good_head_end_def)
  have pr: "parse_response True data1 = Ok (MRJE_OK, data1\<lparr>info := \<lparr>httpcode = int code, content_len = n\<rparr>\<rparr>)"
    using parse_response_reads [of data1 code h1 n h2 "[]"] buf g get1 by (simp add: resp_def good_head_end_def)
  have hp: "hcmd_parse data1 io2 = Ok (status_result (int code), data1\<lparr>info := \<lparr>httpcode = int code, content_len = n\<rparr>\<rparr>, io2)"
    using pe get1 pr by (auto simp: hcmd_parse_def)
  have "hcmd_receive data io = hcmd_parse data1 io2"
    using k(2) shw get1 unfolding hcmd_receive_def data0_def [symmetric]
    by (simp add: data1_def [symmetric] io1_def [symmetric] io2_def)
  with hp k(1) show ?thesis by (auto simp: io2_def io1_def data1_def d0 resp_def)
qed

section \<open>Requests are not cut\<close>

lemma fmt_d_of_nat: "fmt_d (int n) = dec n"
  by (simp add: fmt_d_def)

lemma request_head_lengths:
  assumes "length h < MRJ_MAX_HOST" "length path < MRJ_MAX_PATH" "n < 10 ^ 10" "p < 10 ^ 10"
  shows "length (S_pos_head path h (int n)) \<le> MRJ_MAX_REQHEAD - 2" "length (S_get_head path h (int p)) \<le> MRJ_MAX_REQHEAD - 2"
    "length (S_get_head_range path (int n) h (int p)) \<le> MRJ_MAX_REQHEAD - 2"
  using assms dec_length [OF assms(3)] dec_length [OF assms(4)]
  by (simp_all add: S_pos_head_def S_get_head_def S_get_head_range_def fmt_d_of_nat crlf_def)

text \<open>The port a URL gives.\<close>

definition url_port_of :: "nat option \<Rightarrow> nat" where
  "url_port_of p = (case p of None \<Rightarrow> 80 | Some k \<Rightarrow> k)"

lemma load_url_reads:
  assumes "set_url (set_opt data) = Some (url_text secure h p path)" "good_url h p path"
  shows "http_load_url data =
     Ok (MRJE_OK, data\<lparr>port := int (url_port_of p), host := h, remote_path := path, remote_addr := (htons (of_nat (url_port_of p)), inet_addr h)\<rparr>)"
  using parse_url_reads [OF assms] by (cases p) (simp_all add: http_load_url_def url_port_of_def)

lemma good_url_lengths: "good_url h p path \<Longrightarrow> length h < MRJ_MAX_HOST \<and> length path < MRJ_MAX_PATH \<and> url_port_of p < 2 ^ 31"
  by (cases p) (auto simp: url_port_of_def)

lemma network_fine_cong: "set_opt d = set_opt d' \<Longrightarrow> network_fine d = network_fine d'"
  by (simp add: network_fine_def fun_eq_iff send_fine_cong [of d d'] recv_fine_cong [of d d'])

section \<open>What a session does\<close>

definition post_request :: "int list \<Rightarrow> int list \<Rightarrow> int list \<Rightarrow> int list" where
  "post_request h path s = S_pos_head path h (int (length s)) @ s @ [0]"

lemma perform_post:
  assumes url: "set_url (set_opt data) = Some (url_text secure h p path)" "good_url h p path"
    and post: "httpreq (set_opt data) = HTTPREQ_POST" "send_buf (set_opt data) = Some s" "send_len (set_opt data) = length s" "0 \<notin> set s" "length s < 2 ^ 31"
    and call: "fwrite_func (set_opt data) = Some f" "f (body @ [0]) (length body) (event_args (set_opt data)) = Ok (length body, args)"
    and net: "fresh data" "network_fine data (length (post_request h path s)) (length (http_response 200 h1 n h2 body)) io"
    and resp: "incoming io = http_response 200 h1 n h2 body" "good_post 200 h1 n h2 body"
  shows "\<exists>data' io'. http_perform data io = Ok (MRJE_OK, data', io') \<and> event_args (set_opt data') = args \<and> httpcode (info data') = 200 \<and>
     incoming io' = [] \<and> wire io' = wire io @ post_request h path s \<and> dialed io' = dialed io @ [(htons (of_nat (url_port_of p)), inet_addr h)]"
proof -
  define data0 where "data0 = data\<lparr>port := int (url_port_of p), host := h, remote_path := path, remote_addr := (htons (of_nat (url_port_of p)), inet_addr h)\<rparr>"
  define head where "head = S_pos_head path h (int (length s))"
  have ld: "http_load_url data = Ok (MRJE_OK, data0)" using load_url_reads [OF url] by (simp add: data0_def)
  have gu: "length h < MRJ_MAX_HOST" "length path < MRJ_MAX_PATH" using good_url_lengths [OF url(2)] by auto
  have hl: "length head \<le> MRJ_MAX_REQHEAD - 2" using request_head_lengths(1) [OF gu, of "length s" 0] post(5) by (simp add: head_def)
  have rh: "request_head data0 = Some (head, length s)" using post hl by (simp add: request_head_def data0_def Let_def head_def to_s32_id)
  have tw: "takeWhile (\<lambda>c. c \<noteq> 0) s = s" using post(4) by (auto simp: takeWhile_eq_all_conv)
  have rb: "post_request h path s = http_request_bytes head (length s) (set_opt data0)"
    using post by (simp add: post_request_def http_request_bytes_def data0_def head_def strncpy_bytes_def tw del: takeWhile_eq_all_conv)
  have same: "set_opt data0 = set_opt data" "sock data0 = -1" "response_recv data0 = replicate MRJ_MAX_RESPHEAD 0"
    using net(1) by (simp_all add: data0_def fresh_def)
  have small: "length (post_request h path s) < size_mod" using hl post(5) by (simp add: post_request_def head_def)
  obtain sk io1 where tr: "http_transfer data0 io =
       bind_outcome (hcmd_receive (data0\<lparr>request_send := head, request_send_len := length (post_request h path s), sock := sk\<rparr>) io1)
         (\<lambda>(res, data2, io2). if res = MRJE_OK then transfer_body data2 io2 else Ok (res, data2, io2))"
    and io1: "wire io1 = wire io @ post_request h path s" "dialed io1 = dialed io @ [remote_addr data0]" "incoming io1 = incoming io" "rcvs io1 = rcvs io"
      "before io1 = hd (clock io)" "2 \<le> length (mallocs io1)" "list_all (\<lambda>m. m) (mallocs io1)"
    by (rule transfer_sends [OF net(2) [folded network_fine_cong [OF same(1)]] same(2) rh rb small])
  define data1 where "data1 = data0\<lparr>request_send := head, request_send_len := length (post_request h path s), sock := sk\<rparr>"
  have same1: "set_opt data1 = set_opt data" by (simp add: data1_def same)
  have fine: "list_all (recv_fine data1 (before io1)) (rcvs io1)" "length (http_response 200 h1 n h2 body) + 2 \<le> length (rcvs io1)"
    using net(2) io1 recv_fine_cong [OF same1] by (simp_all add: network_fine_def)
  obtain data2 io2 where rc: "hcmd_receive data1 io1 = Ok (status_result (int 200), data2, io2)" "incoming io2 = []"
      "wire io2 = wire io1" "dialed io2 = dialed io1" "httpcode (info data2) = int 200"
      "set_opt data2 = (set_opt data1)\<lparr>recv_buf := Some (body @ [0]), recv_len := length body\<rparr>"
    using hcmd_receive_post [OF resp(2) io1(3) [unfolded resp(1)] fine io1(6, 7)] same same1 post(1) by (auto simp: data1_def)
  have tb: "transfer_body data2 io2 = Ok (MRJE_OK, data2\<lparr>set_opt := (set_opt data2)\<lparr>event_args := args\<rparr>\<rparr>, io2)"
    using rc(5, 6) same1 post(1) call by (simp add: transfer_body_def call_write_def)
  have "http_perform data io = Ok (MRJE_OK, data2\<lparr>set_opt := (set_opt data2)\<lparr>event_args := args\<rparr>\<rparr>, io2)"
    using ld tr rc(1) tb by (simp add: http_perform_def data1_def [symmetric] status_result_def)
  then show ?thesis using rc io1 by (auto simp: data0_def)
qed

definition get_request :: "int list \<Rightarrow> nat \<Rightarrow> int list \<Rightarrow> nat \<Rightarrow> int list" where
  "get_request h p path off =
     (if off = 0 then S_get_head path h (int p) else S_get_head_range path (int off) h (int p)) @ [0]"

context write_sink
begin

lemma perform_get:
  assumes url: "set_url (set_opt data) = Some (url_text secure h p path)" "good_url h p path"
    and get: "httpreq (set_opt data) = HTTPREQ_GET" "set_resume_from (set_opt data) < 2 ^ 31"
    and call: "fwrite_func (set_opt data) = Some give" "room (event_args (set_opt data)) n"
    and net: "fresh data" "network_fine data (length (get_request h (url_port_of p) path (set_resume_from (set_opt data)))) (length (http_response code h1 n h2 body)) io"
    and resp: "incoming io = http_response code h1 n h2 body @ after" "good_head_end code h1 n h2" "code = 200 \<or> code = 206" "n = length body" "0 < n"
      "length (http_response code h1 n h2 []) < MRJ_MAX_RESPHEAD"
  shows "\<exists>data' io'. http_perform data io = Ok (MRJE_OK, data', io') \<and> seen (event_args (set_opt data')) = seen (event_args (set_opt data)) @ body \<and>
     wire io' = wire io @ get_request h (url_port_of p) path (set_resume_from (set_opt data)) \<and>
     dialed io' = dialed io @ [(htons (of_nat (url_port_of p)), inet_addr h)]"
proof -
  define off where "off = set_resume_from (set_opt data)"
  define req where "req = get_request h (url_port_of p) path off"
  define data0 where "data0 = data\<lparr>port := int (url_port_of p), host := h, remote_path := path, remote_addr := (htons (of_nat (url_port_of p)), inet_addr h)\<rparr>"
  define head where "head = (if off = 0 then S_get_head path h (int (url_port_of p)) else S_get_head_range path (int off) h (int (url_port_of p)))"
  have ld: "http_load_url data = Ok (MRJE_OK, data0)" using load_url_reads [OF url] by (simp add: data0_def)
  have gu: "length h < MRJ_MAX_HOST" "length path < MRJ_MAX_PATH" "url_port_of p < 10 ^ 10" "off < 10 ^ 10"
    using good_url_lengths [OF url(2)] get(2) by (auto simp: off_def)
  have hl: "length head \<le> MRJ_MAX_REQHEAD - 2" using request_head_lengths(2, 3) [OF gu(1, 2) gu(4) gu(3)] by (simp add: head_def)
  have rh: "request_head data0 = Some (head, 0)" using get hl by (cases "off = 0") (simp_all add: request_head_def data0_def Let_def head_def off_def to_s32_id)
  have rb: "req = http_request_bytes head 0 (set_opt data0)"
    by (cases "send_buf (set_opt data0)") (simp_all add: req_def get_request_def http_request_bytes_def head_def strncpy_bytes_def)
  have same: "set_opt data0 = set_opt data" "sock data0 = -1" "response_recv data0 = replicate MRJ_MAX_RESPHEAD 0"
    using net(1) by (simp_all add: data0_def fresh_def)
  have small: "length req < size_mod" using hl by (simp add: req_def get_request_def head_def split: if_splits)
  have net0: "network_fine data0 (length req) (length (http_response code h1 n h2 body)) io"
    using net(2) network_fine_cong [OF same(1)] by (simp add: req_def off_def)
  obtain sk io1 where tr: "http_transfer data0 io =
       bind_outcome (hcmd_receive (data0\<lparr>request_send := head, request_send_len := length req, sock := sk\<rparr>) io1)
         (\<lambda>(res, data2, io2). if res = MRJE_OK then transfer_body data2 io2 else Ok (res, data2, io2))"
    and io1: "wire io1 = wire io @ req" "dialed io1 = dialed io @ [remote_addr data0]" "incoming io1 = incoming io" "rcvs io1 = rcvs io"
      "before io1 = hd (clock io)" "2 \<le> length (mallocs io1)" "list_all (\<lambda>m. m) (mallocs io1)"
    by (rule transfer_sends [OF net0 same(2) rh rb small])
  define data1 where "data1 = data0\<lparr>request_send := head, request_send_len := length req, sock := sk\<rparr>"
  have same1: "set_opt data1 = set_opt data" by (simp add: data1_def same)
  have hb: "length (http_response code h1 n h2 body) = length (http_response code h1 n h2 []) + n" using resp(4) by (simp add: http_response_def)
  have fine: "list_all (recv_fine data (before io1)) (rcvs io1)" "length (http_response code h1 n h2 []) + n + 2 \<le> length (rcvs io1)"
    using net(2) io1 hb by (simp_all add: network_fine_def)
  have inp1: "incoming io1 = http_response code h1 n h2 (body @ after)" using io1(3) resp(1) by (simp add: http_response_def)
  obtain data2 io2 k where rc: "hcmd_receive data1 io1 = Ok (status_result (int code), data2, io2)" "incoming io2 = body @ after"
      "wire io2 = wire io1" "dialed io2 = dialed io1" "before io2 = before io1" "k \<le> length (http_response code h1 n h2 []) + 1"
      "rcvs io2 = drop k (rcvs io1)" "info data2 = \<lparr>httpcode = int code, content_len = n\<rparr>" "set_opt data2 = set_opt data"
    using hcmd_receive_get [OF resp(2) inp1 resp(6), of data1] fine io1(6, 7) recv_fine_cong [OF same1] same same1 get(1)
    by (auto simp: data1_def)
  have fine2: "list_all (recv_fine data2 (before io2)) (rcvs io2)" "n - 0 \<le> length (rcvs io2)"
    using fine rc(5, 6, 7) recv_fine_cong [OF rc(9)] by (auto simp: list_all_iff dest: in_set_dropD)
  have n63: "n < 2 ^ 63" using resp(2) by (simp add: good_head_end_def good_head_def)
  have "\<exists>u' rest ts'. down_loop (before io2) 0 data2 (incoming io2) (rcvs io2) =
        Ok (MRJE_OK, data2\<lparr>set_opt := (set_opt data2)\<lparr>event_args := u'\<rparr>\<rparr>, rest, ts') \<and>
      seen u' = seen (event_args (set_opt data2)) @ take (n - 0) (incoming io2)"
    using rc(2, 8, 9) resp(4, 5) n63 call by (intro down_loop_delivers [OF fine2]) simp_all
  then obtain u' rest ts' where dl: "down_loop (before io2) 0 data2 (incoming io2) (rcvs io2) =
        Ok (MRJE_OK, data2\<lparr>set_opt := (set_opt data2)\<lparr>event_args := u'\<rparr>\<rparr>, rest, ts')"
      "seen u' = seen (event_args (set_opt data2)) @ take (n - 0) (incoming io2)" by blast
  have tb: "transfer_body data2 io2 = Ok (MRJE_OK, data2\<lparr>set_opt := (set_opt data2)\<lparr>event_args := u'\<rparr>\<rparr>, io2\<lparr>incoming := rest, rcvs := ts'\<rparr>)"
    using rc(8, 9) get(1) resp(3, 5) dl(1) by (auto simp: transfer_body_def recv_data_download_def)
  have "http_perform data io = Ok (MRJE_OK, data2\<lparr>set_opt := (set_opt data2)\<lparr>event_args := u'\<rparr>\<rparr>, io2\<lparr>incoming := rest, rcvs := ts'\<rparr>)"
    using ld tr rc(1) tb resp(3) by (auto simp: http_perform_def data1_def [symmetric] status_result_def)
  then show ?thesis using rc io1 dl(2) resp(4) by (auto simp: data0_def req_def off_def)
qed

end

section \<open>The memory of a session\<close>

text \<open>A condition on what an outcome returns, if it returns, and the same with no access outside of an object.\<close>

fun ensures :: "('a \<Rightarrow> bool) \<Rightarrow> 'a outcome \<Rightarrow> bool" where
  "ensures P (Ok x) = P x"
| "ensures P Fault = True"
| "ensures P NoFuel = True"

lemma ensures_bind: "ensures Q m \<Longrightarrow> (\<And>x. Q x \<Longrightarrow> ensures P (f x)) \<Longrightarrow> ensures P (bind_outcome m f)"
  by (cases m) auto

lemma ensures_bind_any: "(\<And>x. ensures P (f x)) \<Longrightarrow> ensures P (bind_outcome m f)"
  by (cases m) auto

lemma ensures_iff: "ensures P m \<longleftrightarrow> (\<forall>x. m = Ok x \<longrightarrow> P x)"
  by (cases m) auto

definition safely :: "('a \<Rightarrow> bool) \<Rightarrow> 'a outcome \<Rightarrow> bool" where
  "safely P m \<longleftrightarrow> m \<noteq> Fault \<and> ensures P m"

lemma safely_simps [simp]: "safely P (Ok x) \<longleftrightarrow> P x" "safely P NoFuel" "\<not> safely P Fault"
  by (simp_all add: safely_def)

lemma safely_bind: "safely Q m \<Longrightarrow> (\<And>x. Q x \<Longrightarrow> safely P (f x)) \<Longrightarrow> safely P (bind_outcome m f)"
  by (cases m) auto

text \<open>
  The texts of a session fit into their fields, and the buffer of the response ends with two NULs, behind what it holds. A callback is given fewer bytes than
  the buffer has, so that it may write a NUL behind them.
\<close>

definition session_ok :: "'u SessionHandle \<Rightarrow> bool" where
  "session_ok data \<longleftrightarrow>
     length (host data) < MRJ_MAX_HOST \<and> length (remote_path data) < MRJ_MAX_PATH \<and> length (request_send data) < MRJ_MAX_REQHEAD \<and>
     length (response_recv data) = MRJ_MAX_RESPHEAD \<and> drop (MRJ_MAX_RESPHEAD - 2) (response_recv data) = [0, 0]"

definition callback_ok :: "'u UserDefined \<Rightarrow> bool" where
  "callback_ok u \<longleftrightarrow> (\<forall>f buf n a. fwrite_func u = Some f \<longrightarrow> n < length buf \<longrightarrow> f buf n a \<noteq> Fault)"

text \<open>What arrives: no call of \<open>recv\<close> fails, and what is read into the buffer leaves its last two bytes.\<close>

definition answer_fits :: "MRJ_HttpReq \<Rightarrow> io \<Rightarrow> bool" where
  "answer_fits req io \<longleftrightarrow> list_all (\<lambda>t. 0 \<le> r_got t) (rcvs io) \<and>
     length (if req = HTTPREQ_POST then incoming io else fst (read_until 4 0 (incoming io))) \<le> MRJ_MAX_RESPHEAD - 2"

lemma session_ok_updates [simp]:
  "session_ok (data\<lparr>set_opt := u\<rparr>) = session_ok data" "session_ok (data\<lparr>info := i\<rparr>) = session_ok data" "session_ok (data\<lparr>sock := s\<rparr>) = session_ok data"
  "session_ok (data\<lparr>request_send_len := n\<rparr>) = session_ok data" "session_ok (data\<lparr>response_recv_len := n\<rparr>) = session_ok data"
  "session_ok (data\<lparr>set_opt := u, info := i\<rparr>) = session_ok data" "session_ok (data\<lparr>request_send_len := n, sock := s\<rparr>) = session_ok data"
  by (simp_all add: session_ok_def)

lemma callback_ok_updates [simp]:
  "callback_ok (u\<lparr>recv_buf := b\<rparr>) = callback_ok u" "callback_ok (u\<lparr>recv_buf := b, recv_len := n\<rparr>) = callback_ok u" "callback_ok (u\<lparr>event_args := a\<rparr>) = callback_ok u"
  by (simp_all add: callback_ok_def)

lemma answer_fits_updates [simp]:
  "answer_fits req (io\<lparr>mallocs := ms\<rparr>) = answer_fits req io" "answer_fits req (io\<lparr>shown := sh\<rparr>) = answer_fits req io" "answer_fits req (io\<lparr>sockets := ss\<rparr>) = answer_fits req io"
  "answer_fits req (io\<lparr>clock := ck\<rparr>) = answer_fits req io" "answer_fits req (io\<lparr>before := bf\<rparr>) = answer_fits req io"
  "answer_fits req (io\<lparr>wire := wi, sends := se\<rparr>) = answer_fits req io" "answer_fits req (io\<lparr>conns := cs, dialed := di\<rparr>) = answer_fits req io"
  by (simp_all add: answer_fits_def)

subsection \<open>Reading the answer\<close>

lemma read_until_length: "length (fst (read_until flag over inp)) \<le> length inp"
  by (induction flag over inp rule: read_until.induct) (auto simp: Let_def split: prod.splits)

lemma drop_update_before: "k < n \<Longrightarrow> drop n (b[k := x]) = drop n b"
  by (simp add: drop_update_cancel)

lemma http_recv_safe:
  "list_all (\<lambda>t. 0 \<le> r_got t) ts \<Longrightarrow> session_ok data \<Longrightarrow> response_recv_len data + length (fst (read_until flag over inp)) \<le> MRJ_MAX_RESPHEAD - 2 \<Longrightarrow>
   safely (\<lambda>(r, data', rest, ts'). session_ok data' \<and> set_opt data' = set_opt data \<and> response_recv_len data' \<le> MRJ_MAX_RESPHEAD - 2 \<and>
       response_recv_len data' + length rest \<le> response_recv_len data + length inp \<and> list_all (\<lambda>t. 0 \<le> r_got t) ts')
     (http_recv_loop bef flag over ch data inp ts)"
proof (induction ts arbitrary: over ch data inp)
  case (Cons t ts)
  show ?case
  proof (cases "wselect t \<noteq> MRJE_OK \<or> r_got t = 0 \<or> inp = []")
    case True
    then show ?thesis using Cons.prems by auto
  next
    case False
    then obtain c cs where inp: "inp = c # cs" by (cases inp) auto
    define o' where "o' = (if c = 13 \<or> c = 10 then over + 1 else 0)"
    define d where "d = data\<lparr>response_recv := (response_recv data)[response_recv_len data := c], response_recv_len := response_recv_len data + 1\<rparr>"
    have len: "response_recv_len data + 1 \<le> MRJ_MAX_RESPHEAD - 2" "o' < flag \<Longrightarrow> response_recv_len d + length (fst (read_until flag o' cs)) \<le> MRJ_MAX_RESPHEAD - 2"
      using Cons.prems(3) inp by (auto simp: o'_def [symmetric] d_def Let_def split: if_splits prod.splits)
    have d: "session_ok d" "set_opt d = set_opt data" "response_recv_len d = response_recv_len data + 1"
      using Cons.prems(2) len(1) by (auto simp: d_def session_ok_def drop_update_before)
    have "http_recv_loop bef flag over ch data inp (t # ts) =
        (if timeleft d bef (r_now t) \<le> 0 then Ok (MRJE_TIME_OUT, d, cs, ts) else if o' < flag then http_recv_loop bef flag o' c d cs ts else Ok (MRJE_OK, d, cs, ts))"
      using False Cons.prems(1, 2) inp len(1) by (simp add: Let_def o'_def d_def session_ok_def)
    moreover have "o' < flag \<Longrightarrow> safely (\<lambda>(r, data', rest, ts'). session_ok data' \<and> set_opt data' = set_opt data \<and> response_recv_len data' \<le> MRJ_MAX_RESPHEAD - 2 \<and>
       response_recv_len data' + length rest \<le> response_recv_len data + length inp \<and> list_all (\<lambda>t. 0 \<le> r_got t) ts') (http_recv_loop bef flag o' c d cs ts)"
      using Cons.IH [of d o' cs c] Cons.prems(1) d len(2) inp by simp
    ultimately show ?thesis using Cons.prems(1) d len(1) inp by simp
  qed
qed simp

lemma recv_data_safe:
  assumes "list_all (\<lambda>t. 0 \<le> r_got t) (rcvs io)" "session_ok data" "response_recv_len data + length (fst (read_until flag 0 (incoming io))) \<le> MRJ_MAX_RESPHEAD - 2"
  shows "safely (\<lambda>(r, data', io'). session_ok data' \<and> set_opt data' = set_opt data \<and> response_recv_len data' \<le> MRJ_MAX_RESPHEAD - 2 \<and>
     response_recv_len data' + length (incoming io') \<le> response_recv_len data + length (incoming io) \<and> list_all (\<lambda>t. 0 \<le> r_got t) (rcvs io')) (recv_data data flag io)"
  unfolding recv_data_def by (rule safely_bind [OF http_recv_safe [OF assms]]) auto

subsection \<open>Taking the answer apart\<close>

lemma search_inside:
  assumes "session_ok data" "0 \<notin> set pat" "pat \<noteq> []"
  obtains k where "p_strcasestr (response_recv data) 0 pat = Ok k" "\<And>p. k = Some p \<Longrightarrow> p + length pat \<le> MRJ_MAX_RESPHEAD - 2"
proof -
  let ?b = "response_recv data"
  have b: "?b = take (MRJ_MAX_RESPHEAD - 2) ?b @ [0, 0]" using assms(1) by (metis append_take_drop_id session_ok_def)
  then have "0 \<in> set ?b" by (metis in_set_conv_decomp append_Cons)
  then obtain t rest where t: "?b = t @ 0 # rest" "0 \<notin> set t" by (meson split_list_first)
  have "length t \<le> MRJ_MAX_RESPHEAD - 2"
  proof (rule ccontr)
    assume "\<not> length t \<le> MRJ_MAX_RESPHEAD - 2"
    then have "t ! (MRJ_MAX_RESPHEAD - 2) = ?b ! (MRJ_MAX_RESPHEAD - 2)" "t ! (MRJ_MAX_RESPHEAD - 2) \<in> set t" by (simp_all add: t(1) nth_append)
    moreover have "?b ! (MRJ_MAX_RESPHEAD - 2) = 0" using assms(1) hd_drop_conv_nth [of "MRJ_MAX_RESPHEAD - 2" ?b] by (simp add: session_ok_def)
    ultimately show False using t(2) by simp
  qed
  then show thesis
    using that [of "find_sub pat t"] p_strcasestr_found [of 0 ?b t rest pat] t assms(2, 3) find_sub_bound [of pat t] by (cases "find_sub pat t") force+
qed

lemma skip_blanks_inside: "p < length b \<Longrightarrow> last b = 0 \<Longrightarrow> \<exists>q. skip_blanks b p = Ok q \<and> q < length b"
proof (induction b p rule: skip_blanks.induct)
  case (1 b p)
  show ?case
  proof (cases "b ! p = 32")
    case True
    then have "p \<noteq> length b - 1" using 1(2, 3) last_conv_nth [of b] by fastforce
    then have "p + 1 < length b" using 1(2) by simp
    then show ?thesis using 1 True by (simp add: skip_blanks.simps [of b p])
  qed (use 1(2) in \<open>simp add: skip_blanks.simps [of b p]\<close>)
qed

lemma strncpy_from_nul: "0 \<in> set (drop p b) \<Longrightarrow> \<exists>r. strncpy_from b p n = Ok r \<and> length r = n"
proof (induction n arbitrary: p)
  case (Suc n)
  have p: "p < length b" using Suc.prems by (metis drop_all empty_iff empty_set not_le)
  then have d: "drop p b = b ! p # drop (p + 1) b" by (simp add: Cons_nth_drop_Suc)
  show ?case
  proof (cases "b ! p = 0")
    case False
    then have "0 \<in> set (drop (p + 1) b)" using Suc.prems d by simp
    then show ?thesis using Suc.IH [of "p + 1"] p False by auto
  qed (use p in simp)
qed simp

lemma session_text:
  assumes "session_ok data" "p < MRJ_MAX_RESPHEAD"
  shows "0 \<in> set (drop p (response_recv data))" "\<exists>s. c_string (response_recv data) p = Ok s" "\<exists>n. p + 1 < MRJ_MAX_RESPHEAD \<longrightarrow> number_after (response_recv data) p = Ok n"
proof -
  let ?b = "response_recv data"
  have l: "length ?b = MRJ_MAX_RESPHEAD" using assms(1) by (simp add: session_ok_def)
  have e: "last ?b = 0" using assms(1) last_drop [of "MRJ_MAX_RESPHEAD - 2" ?b] by (simp add: session_ok_def)
  have z: "0 \<in> set (drop q ?b)" if "q < MRJ_MAX_RESPHEAD" for q using that l e last_drop [of q ?b] last_in_set [of "drop q ?b"] by simp
  have c: "\<exists>s. c_string ?b q = Ok s" if "q < MRJ_MAX_RESPHEAD" for q using z [OF that] by (simp add: c_string_def)
  show "0 \<in> set (drop p ?b)" "\<exists>s. c_string ?b p = Ok s" using z c assms(2) by blast+
  show "\<exists>n. p + 1 < MRJ_MAX_RESPHEAD \<longrightarrow> number_after ?b p = Ok n"
  proof (cases "p + 1 < MRJ_MAX_RESPHEAD")
    case True
    then obtain q where q: "skip_blanks ?b (p + 1) = Ok q" "q < MRJ_MAX_RESPHEAD" using skip_blanks_inside [of "p + 1" ?b] e l by auto
    then show ?thesis using c [OF q(2)] by (auto simp: number_after_def)
  qed simp
qed

text \<open>Reading the response never leaves the buffer, and after a POST the data of the session has the bytes that it says it has.\<close>

definition body_ok :: "'u UserDefined \<Rightarrow> bool" where
  "body_ok u \<longleftrightarrow> (\<exists>b. recv_buf u = Some b \<and> recv_len u < length b)"

lemma parse_response_safe:
  assumes "session_ok data" "callback_ok (set_opt data)"
  shows "safely (\<lambda>(r, data'). session_ok data' \<and> callback_ok (set_opt data') \<and> httpreq (set_opt data') = httpreq (set_opt data) \<and> content_len (info data') < 2 ^ 32 \<and>
     (r = MRJE_OK \<longrightarrow> httpreq (set_opt data) = HTTPREQ_POST \<longrightarrow> body_ok (set_opt data'))) (parse_response mem data)"
proof -
  let ?b = "response_recv data"
  obtain ps where ps: "p_strcasestr ?b 0 MRJ_HTTPID = Ok ps" "\<And>p. ps = Some p \<Longrightarrow> p + length MRJ_HTTPID \<le> MRJ_MAX_RESPHEAD - 2"
    using search_inside [OF assms(1), of MRJ_HTTPID] by (auto simp: MRJ_HTTPID_def)
  obtain pl where pl: "p_strcasestr ?b 0 MRJ_CONTENTLEN = Ok pl" "\<And>p. pl = Some p \<Longrightarrow> p + length MRJ_CONTENTLEN \<le> MRJ_MAX_RESPHEAD - 2"
    using search_inside [OF assms(1), of MRJ_CONTENTLEN] by (auto simp: MRJ_CONTENTLEN_def)
  obtain pe where pe: "p_strcasestr ?b 0 MRJ_ENDOFHEAD = Ok pe" "\<And>p. pe = Some p \<Longrightarrow> p + length MRJ_ENDOFHEAD \<le> MRJ_MAX_RESPHEAD - 2"
    using search_inside [OF assms(1), of MRJ_ENDOFHEAD] by (auto simp: MRJ_ENDOFHEAD_def)
  have number: "\<exists>n. (case k of None \<Rightarrow> Ok 0 | Some p \<Rightarrow> number_after ?b (p + m)) = Ok n" if "\<And>p. k = Some p \<Longrightarrow> p + m \<le> MRJ_MAX_RESPHEAD - 2" for k m
  proof (cases k)
    case (Some p)
    then have "p + m < MRJ_MAX_RESPHEAD" "p + m + 1 < MRJ_MAX_RESPHEAD" using that by fastforce+
    then show ?thesis using session_text(3) [OF assms(1), of "p + m"] Some by auto
  qed simp
  obtain code where code: "(case ps of None \<Rightarrow> Ok 0 | Some p \<Rightarrow> number_after ?b (p + length MRJ_HTTPID)) = Ok code" using number [OF ps(2)] by blast
  obtain n where n: "(case pl of None \<Rightarrow> Ok 0 | Some p \<Rightarrow> number_after ?b (p + length MRJ_CONTENTLEN)) = Ok n" using number [OF pl(2)] by blast
  have m: "nat (n mod 2 ^ 32) < 2 ^ 32" by simp
  show ?thesis
  proof (cases pe)
    case None
    then show ?thesis using ps(1) pl(1) pe(1) code n m assms by (simp add: parse_response_def Let_def)
  next
    case (Some p)
    let ?body = "p + length MRJ_ENDOFHEAD"
    have p: "?body < MRJ_MAX_RESPHEAD" using pe(2) [OF Some] by simp
    obtain s where s: "c_string ?b ?body = Ok s" using session_text(2) [OF assms(1) p] by blast
    have "\<exists>len. (if nat (n mod 2 ^ 32) \<noteq> 0 then Ok (nat (n mod 2 ^ 32) + 1) else bind_outcome (c_string ?b ?body) (\<lambda>s. Ok (length s + 1))) = Ok len" using s by simp
    then obtain len where len: "(if nat (n mod 2 ^ 32) \<noteq> 0 then Ok (nat (n mod 2 ^ 32) + 1) else bind_outcome (c_string ?b ?body) (\<lambda>s. Ok (length s + 1))) = Ok len" by blast
    obtain r where r: "strncpy_from ?b ?body (len - 1) = Ok r" "length r = len - 1" using strncpy_from_nul [OF session_text(1) [OF assms(1) p]] by blast
    show ?thesis unfolding parse_response_def Let_def ps(1) pl(1) pe(1) bind_outcome.simps code n Some option.case len
      using assms m r by (simp add: body_ok_def)
  qed
qed

lemma malloc_safe: "answer_fits req io \<Longrightarrow> safely (\<lambda>(m, io'). answer_fits req io') (malloc_ok io)"
  by (auto simp: malloc_ok_def split: list.split)

lemma hcmd_parse_safe:
  assumes "session_ok data" "callback_ok (set_opt data)" "list_all (\<lambda>t. 0 \<le> r_got t) (rcvs io)"
  shows "safely (\<lambda>(r, data', io'). session_ok data' \<and> callback_ok (set_opt data') \<and> httpreq (set_opt data') = httpreq (set_opt data) \<and> content_len (info data') < 2 ^ 32 \<and>
     (r = MRJE_OK \<longrightarrow> httpreq (set_opt data) = HTTPREQ_POST \<longrightarrow> body_ok (set_opt data')) \<and> list_all (\<lambda>t. 0 \<le> r_got t) (rcvs io')) (hcmd_parse data io)"
proof -
  obtain pe where pe: "p_strcasestr (response_recv data) 0 MRJ_ENDOFHEAD = Ok pe"
    using search_inside [OF assms(1), of MRJ_ENDOFHEAD] by (auto simp: MRJ_ENDOFHEAD_def)
  have m: "safely (\<lambda>(m, io'). list_all (\<lambda>t. 0 \<le> r_got t) (rcvs io')) (if P then malloc_ok io else Ok (True, io))" for P
    using assms(3) by (auto simp: malloc_ok_def split: list.split)
  show ?thesis unfolding hcmd_parse_def pe bind_outcome.simps
  proof (rule safely_bind [OF m])
    fix x :: "bool \<times> io"
    assume x: "case x of (m, io') \<Rightarrow> list_all (\<lambda>t. 0 \<le> r_got t) (rcvs io')"
    show "safely (\<lambda>(r, data', io'). session_ok data' \<and> callback_ok (set_opt data') \<and> httpreq (set_opt data') = httpreq (set_opt data) \<and> content_len (info data') < 2 ^ 32 \<and>
       (r = MRJE_OK \<longrightarrow> httpreq (set_opt data) = HTTPREQ_POST \<longrightarrow> body_ok (set_opt data')) \<and> list_all (\<lambda>t. 0 \<le> r_got t) (rcvs io'))
      (case x of (m, io1) \<Rightarrow> bind_outcome (parse_response m data) (\<lambda>(res, data1).
        if res \<noteq> MRJE_OK then Ok (res, data1, io1) else Ok (status_result (httpcode (info data1)), data1, io1)))"
      using x by (cases x) (auto intro!: safely_bind [OF parse_response_safe [OF assms(1, 2)]] split: prod.splits)
  qed
qed

lemma show_safe:
  assumes "n \<le> length head" "list_all (\<lambda>t. 0 \<le> r_got t) (rcvs io)"
  shows "safely (\<lambda>(r, io'). list_all (\<lambda>t. 0 \<le> r_got t) (rcvs io')) (show_resp_head head n io)"
    "answer_fits req io \<Longrightarrow> safely (\<lambda>(r, io'). answer_fits req io') (show_req_head head n io)"
  using strncpy_from_inside [of 0 n head] assms
  by (auto simp: show_resp_head_def show_req_head_def malloc_ok_def split: list.split)

lemma hcmd_receive_safe:
  assumes "session_ok data" "callback_ok (set_opt data)" "answer_fits (httpreq (set_opt data)) io"
  shows "safely (\<lambda>(r, data', io'). session_ok data' \<and> callback_ok (set_opt data') \<and> (r = MRJE_OK \<longrightarrow> httpreq (set_opt data') = httpreq (set_opt data) \<and>
     content_len (info data') < 2 ^ 32 \<and> (httpreq (set_opt data) = HTTPREQ_POST \<longrightarrow> body_ok (set_opt data'))) \<and> list_all (\<lambda>t. 0 \<le> r_got t) (rcvs io')) (hcmd_receive data io)"
    (is "safely ?P _")
proof -
  let ?read = "\<lambda>d io'. session_ok d \<and> set_opt d = set_opt data \<and> response_recv_len d \<le> MRJ_MAX_RESPHEAD - 2 \<and> list_all (\<lambda>t. 0 \<le> r_got t) (rcvs io')"
  have g: "list_all (\<lambda>t. 0 \<le> r_got t) (rcvs io)" using assms(3) by (simp add: answer_fits_def)
  have "length (fst (read_until 4 0 (incoming io))) \<le> MRJ_MAX_RESPHEAD - 2"
    using assms(3) read_until_length [of 4 0 "incoming io"] by (auto simp: answer_fits_def split: if_splits)
  then have one: "safely (\<lambda>(r, d, io'). ?read d io' \<and> response_recv_len d + length (incoming io') \<le> length (incoming io)) (recv_data (data\<lparr>response_recv_len := 0\<rparr>) 4 io)"
    using recv_data_safe [OF g, of "data\<lparr>response_recv_len := 0\<rparr>" 4] assms(1) by (simp add: safely_def ensures_iff split_beta)
  have two: "safely (\<lambda>(r, d, io'). ?read d io') (if httpreq (set_opt d) = HTTPREQ_POST then recv_data d 2 io1 else Ok (MRJE_OK, d, io1))"
    if d: "?read d io1" "response_recv_len d + length (incoming io1) \<le> length (incoming io)" for d io1
  proof (cases "httpreq (set_opt d) = HTTPREQ_POST")
    case True
    then have "response_recv_len d + length (fst (read_until 2 0 (incoming io1))) \<le> MRJ_MAX_RESPHEAD - 2"
      using assms(3) d read_until_length [of 2 0 "incoming io1"] by (simp add: answer_fits_def)
    then show ?thesis using recv_data_safe [of io1 d 2] d True by (simp add: safely_def ensures_iff split_beta)
  qed (use d in simp)
  have three: "safely ?P (bind_outcome (if verbose (set_opt d) then show_resp_head (response_recv d) (response_recv_len d) io2 else Ok (MRJE_OK, io2))
      (\<lambda>(_, io3). hcmd_parse d io3))" if d: "?read d io2" for d io2
  proof (rule safely_bind [where Q = "\<lambda>(r, io'). list_all (\<lambda>t. 0 \<le> r_got t) (rcvs io')"])
    have "response_recv_len d \<le> length (response_recv d)" using d by (simp add: session_ok_def)
    then show "safely (\<lambda>(r, io'). list_all (\<lambda>t. 0 \<le> r_got t) (rcvs io')) (if verbose (set_opt d) then show_resp_head (response_recv d) (response_recv_len d) io2 else Ok (MRJE_OK, io2))"
      using show_safe(1) d by auto
    fix x :: "MRJEcode \<times> io"
    assume "case x of (r, io') \<Rightarrow> list_all (\<lambda>t. 0 \<le> r_got t) (rcvs io')"
    then show "safely ?P (case x of (_, io3) \<Rightarrow> hcmd_parse d io3)"
      using hcmd_parse_safe [of d "snd x"] d assms(2) by (cases x) (simp add: safely_def ensures_iff split_beta)
  qed
  have four: "safely ?P (case y of (res2, data2, io2) \<Rightarrow> if res2 \<noteq> MRJE_OK then Ok (MRJE_RECV_ERROR, data2, io2) else
      bind_outcome (if verbose (set_opt data2) then show_resp_head (response_recv data2) (response_recv_len data2) io2 else Ok (MRJE_OK, io2)) (\<lambda>(_, io3). hcmd_parse data2 io3))"
    if "case y of (r, d, io') \<Rightarrow> ?read d io'" for y using that three assms(2) by (cases y) auto
  show ?thesis unfolding hcmd_receive_def
  proof (rule safely_bind [OF one], goal_cases)
    case (1 x)
    then show ?case using safely_bind [OF two four] assms(2) by (cases x) auto
  qed
qed

lemma connect_host_safe:
  "answer_fits req io \<Longrightarrow> session_ok data \<Longrightarrow> safely (\<lambda>(r, data', io'). session_ok data' \<and> set_opt data' = set_opt data \<and> answer_fits req io') (connect_host data io)"
  by (auto simp: connect_host_def open_socket_def split: list.split)

lemma send_loop_safe: "safely (\<lambda>x. True) (http_send_loop data bef hcmd n already ts)"
proof (induction ts arbitrary: already)
  case (Cons t ts)
  show ?case by (auto simp: Let_def intro!: safely_bind [OF Cons.IH])
qed simp

lemma send_data_safe: "answer_fits req io \<Longrightarrow> safely (\<lambda>(r, io'). answer_fits req io') (send_data data hcmd n io)"
  unfolding send_data_def by (rule safely_bind [OF send_loop_safe]) auto

lemma send_hcmd_safe:
  assumes "session_ok data" "callback_ok (set_opt data)" "answer_fits (httpreq (set_opt data)) io" "n \<le> length hcmd"
  shows "safely (\<lambda>(r, data', io'). session_ok data' \<and> callback_ok (set_opt data') \<and> (r = MRJE_OK \<longrightarrow> httpreq (set_opt data') = httpreq (set_opt data) \<and>
     content_len (info data') < 2 ^ 32 \<and> (httpreq (set_opt data) = HTTPREQ_POST \<longrightarrow> body_ok (set_opt data'))) \<and> list_all (\<lambda>t. 0 \<le> r_got t) (rcvs io')) (send_hcmd data hcmd n io)"
    (is "safely ?P _")
proof -
  let ?fits = "answer_fits (httpreq (set_opt data))"
  have fits: "?fits io' \<Longrightarrow> list_all (\<lambda>t. 0 \<le> r_got t) (rcvs io')" for io' by (simp add: answer_fits_def)
  have sent: "safely ?P (bind_outcome (send_data d hcmd n io2) (\<lambda>(res2, io3). if res2 \<noteq> MRJE_OK then Ok (MRJE_SEND_ERROR, d, io3) else hcmd_receive d io3))"
    if d: "session_ok d" "set_opt d = set_opt data" "?fits io2" for d io2
  proof (rule safely_bind [OF send_data_safe [OF d(3)]], goal_cases)
    case (1 x)
    then show ?case using hcmd_receive_safe [of d "snd x"] d assms(2) fits by (cases x) (simp add: safely_def ensures_iff split_beta)
  qed
  have shown: "safely ?P (bind_outcome (if verbose (set_opt d) then show_req_head hcmd n io1 else Ok (MRJE_OK, io1)) (\<lambda>(_, io2).
      bind_outcome (send_data d hcmd n io2) (\<lambda>(res2, io3). if res2 \<noteq> MRJE_OK then Ok (MRJE_SEND_ERROR, d, io3) else hcmd_receive d io3)))"
    if d: "session_ok d" "set_opt d = set_opt data" "?fits io1" for d io1
  proof (rule safely_bind [where Q = "\<lambda>(r, io'). ?fits io'"])
    show "safely (\<lambda>(r, io'). ?fits io') (if verbose (set_opt d) then show_req_head hcmd n io1 else Ok (MRJE_OK, io1))"
      using show_safe(2) [OF assms(4) fits [OF d(3)] d(3)] d(3) by simp
  qed (use sent [OF d(1, 2)] in \<open>auto split: prod.split\<close>)
  show ?thesis unfolding send_hcmd_def
  proof (rule safely_bind [OF connect_host_safe [OF assms(3, 1)]], goal_cases)
    case (1 x)
    then show ?case using shown assms(2) fits by (cases x) auto
  qed
qed

subsection \<open>Handing it over\<close>

lemma call_write_safe:
  assumes "session_ok data" "callback_ok (set_opt data)" "n < length buf"
  shows "safely (\<lambda>(ok, data'). session_ok data' \<and> callback_ok (set_opt data') \<and> info data' = info data) (call_write buf n data)"
proof (cases "fwrite_func (set_opt data)")
  case (Some f)
  then have "f buf n (event_args (set_opt data)) \<noteq> Fault" using assms(2, 3) by (simp add: callback_ok_def)
  then show ?thesis using Some assms(1, 2) by (cases "f buf n (event_args (set_opt data))") (auto simp: call_write_def)
qed (use assms in \<open>simp add: call_write_def\<close>)

lemma down_loop_safe:
  "list_all (\<lambda>t. 0 \<le> r_got t) ts \<Longrightarrow> session_ok data \<Longrightarrow> callback_ok (set_opt data) \<Longrightarrow> already \<le> content_len (info data) \<Longrightarrow> content_len (info data) < 2 ^ 32 \<Longrightarrow>
   safely (\<lambda>(r, data', inp', ts'). session_ok data' \<and> callback_ok (set_opt data')) (down_loop bef already data inp ts)"
proof (induction ts arbitrary: already data inp)
  case (Cons t ts)
  define cl where "cl = content_len (info data)"
  define per where "per = got_now t inp"
  define buf where "buf = take per inp @ replicate (MRJ_MAX_BUFSIZE - per) 0"
  define per' where "per' = (if already + per > cl then cl - already else per)"
  define al where "al = (if already + per > cl then cl else already + per)"
  have g: "0 \<le> r_got t" "list_all (\<lambda>t. 0 \<le> r_got t) ts" using Cons.prems(1) by simp_all
  have per: "per \<le> MRJ_DOWN_PERSIZE" "length (take per inp) = per" using g(1) by (auto simp: per_def got_now_def)
  have c: "already \<le> cl" "cl < 2 ^ 32" using Cons.prems(4, 5) by (simp_all add: cl_def)
  have s: "(already + per) mod size_mod = already + per" using c per(1) by simp
  have l: "length buf = MRJ_MAX_BUFSIZE" "per' \<le> per" using per c by (auto simp: buf_def per'_def)
  have sub: "already + per > cl \<Longrightarrow> nat ((int per - int (already + per - cl)) mod int size_mod) = cl - already"
  proof -
    assume "already + per > cl"
    then have "int per - int (already + per - cl) = int (cl - already)" using c(1) by simp
    then show ?thesis using c(2) by simp
  qed
  have w: "safely (\<lambda>(ok, data'). session_ok data' \<and> callback_ok (set_opt data') \<and> info data' = info data) (call_write buf per' data)"
    using call_write_safe [OF Cons.prems(2, 3)] l per(1) by simp
  have step: "safely (\<lambda>(r, data', inp', ts'). session_ok data' \<and> callback_ok (set_opt data')) (bind_outcome (call_write buf per' data) (\<lambda>(ok, data').
      if \<not> ok then Ok (MRJE_WRITE_ERROR, data', drop per inp, ts) else if timeleft data' bef (r_now t) \<le> 0 then Ok (MRJE_TIME_OUT, data', drop per inp, ts)
      else if al < cl then down_loop bef al data' (drop per inp) ts else Ok (MRJE_OK, data', drop per inp, ts)))"
  proof (rule safely_bind [OF w], goal_cases)
    case (1 x)
    then show ?case using Cons.IH [OF g(2), of "snd x" al "drop per inp"] Cons.prems(5) by (cases x) (simp add: cl_def)
  qed
  have "nat ((int per - int (already + per - cl)) mod int size_mod) = per'" if "already + per > cl" using sub [OF that] that by (simp add: per'_def)
  moreover have "per = per'" if "\<not> already + per > cl" using that by (simp add: per'_def)
  moreover have nw: "(if r_got t < 0 then [] else take per inp) = take per inp" using g(1) by simp
  ultimately have p: "(if already + per > cl then nat ((int per - int (already + per - cl)) mod int size_mod) else per) = per'" by simp
  have "down_loop bef already data inp (t # ts) =
     (if wselect t \<noteq> MRJE_OK then Ok (wselect t, data, inp, ts)
      else if per \<noteq> 0 then bind_outcome (call_write buf per' data) (\<lambda>(ok, data').
        if \<not> ok then Ok (MRJE_WRITE_ERROR, data', drop per inp, ts) else if timeleft data' bef (r_now t) \<le> 0 then Ok (MRJE_TIME_OUT, data', drop per inp, ts)
        else if al < cl then down_loop bef al data' (drop per inp) ts else Ok (MRJE_OK, data', drop per inp, ts))
      else if already < cl then Ok (MRJE_DISCONNHOST, data, drop per inp, ts)
      else if timeleft data bef (r_now t) \<le> 0 then Ok (MRJE_TIME_OUT, data, drop per inp, ts)
      else Ok (MRJE_OK, data, drop per inp, ts))"
    unfolding down_loop.simps Let_def per_def [symmetric] cl_def [symmetric] s p al_def [symmetric] nw per(2) buf_def [symmetric] by (rule refl)
  then show ?case using step Cons.prems(2, 3) by simp
qed simp

lemma transfer_body_safe:
  assumes "session_ok data" "callback_ok (set_opt data)" "content_len (info data) < 2 ^ 32" "list_all (\<lambda>t. 0 \<le> r_got t) (rcvs io)"
    "httpreq (set_opt data) = HTTPREQ_POST \<Longrightarrow> body_ok (set_opt data)"
  shows "safely (\<lambda>(r, data', io'). session_ok data') (transfer_body data io)"
proof (cases "httpreq (set_opt data) = HTTPREQ_POST")
  case True
  then obtain b where b: "recv_buf (set_opt data) = Some b" "recv_len (set_opt data) < length b" using assms(5) by (auto simp: body_ok_def)
  show ?thesis using True b(1) assms(1) by (auto simp: transfer_body_def intro!: safely_bind [OF call_write_safe [OF assms(1, 2) b(2)]])
next
  case False
  show ?thesis using False assms(1) by (auto simp: transfer_body_def recv_data_download_def intro!: safely_bind [OF down_loop_safe [OF assms(4, 1, 2) _ assms(3)]])
qed

lemma request_bytes_length: "length (http_request_bytes head n u) = length head + n + 1"
  by (auto simp: http_request_bytes_def strncpy_bytes_def split: option.split)

lemma http_transfer_safe:
  assumes "session_ok data" "callback_ok (set_opt data)" "answer_fits (httpreq (set_opt data)) io"
  shows "safely (\<lambda>(r, data', io'). session_ok data') (http_transfer data io)"
proof (cases "request_head data")
  case None
  then show ?thesis using assms(1) by (simp add: http_transfer_def)
next
  case (Some hn)
  obtain head n where hn: "hn = (head, n)" by (cases hn)
  have "length head < MRJ_MAX_REQHEAD" using Some hn by (auto simp: request_head_def Let_def split: if_splits)
  then have d: "session_ok (data\<lparr>request_send := head\<rparr>)" "session_ok (data\<lparr>request_send := head, request_send_len := k\<rparr>)" for k using assms(1) by (simp_all add: session_ok_def)
  let ?d = "data\<lparr>request_send := head, request_send_len := length head + n + 1\<rparr>"
  have sent: "safely (\<lambda>(r, data', io'). session_ok data') (bind_outcome (send_hcmd ?d (http_request_bytes head n (set_opt ?d)) (length head + n + 1) io2)
      (\<lambda>(res, data2, io3). if res = MRJE_OK then transfer_body data2 io3 else Ok (res, data2, io3)))" if "answer_fits (httpreq (set_opt data)) io2" for io2
    by (rule safely_bind [OF send_hcmd_safe]) (use d that assms(2) in \<open>auto simp: request_bytes_length intro!: transfer_body_safe\<close>)
  have now: "safely (\<lambda>(t, io'). answer_fits (httpreq (set_opt data)) io') (mrjx_tvnow io1)" if "answer_fits (httpreq (set_opt data)) io1" for io1
    using that by (auto simp: mrjx_tvnow_def split: list.split)
  have timed: "safely (\<lambda>(r, data', io'). session_ok data') (bind_outcome (mrjx_tvnow io1) (\<lambda>(now, io2).
      bind_outcome (send_hcmd ?d (http_request_bytes head n (set_opt ?d)) (length head + n + 1) (io2\<lparr>before := now\<rparr>))
        (\<lambda>(res, data2, io3). if res = MRJE_OK then transfer_body data2 io3 else Ok (res, data2, io3))))" if "answer_fits (httpreq (set_opt data)) io1" for io1
    by (rule safely_bind [OF now [OF that]]) (use sent in \<open>auto split: prod.split\<close>)
  show ?thesis unfolding http_transfer_def Some hn option.case prod.case Let_def
    by (rule safely_bind [OF malloc_safe [OF assms(3)]]) (use d timed in \<open>auto split: prod.split\<close>)
qed

lemma http_perform_safe:
  assumes "session_ok data" "callback_ok (set_opt data)" "answer_fits (httpreq (set_opt data)) io"
    "set_url (set_opt data) = Some (url_text secure h p path)" "good_url h p path"
  shows "safely (\<lambda>(r, data', io'). session_ok data') (http_perform data io)"
proof -
  let ?d = "data\<lparr>port := int (url_port_of p), host := h, remote_path := path, remote_addr := (htons (of_nat (url_port_of p)), inet_addr h)\<rparr>"
  have "session_ok ?d" using assms(1) good_url_lengths [OF assms(5)] by (simp add: session_ok_def)
  then have "safely (\<lambda>(r, data', io'). session_ok data') (http_transfer ?d io)" using http_transfer_safe [of ?d io] assms(2, 3) by simp
  then show ?thesis by (simp add: http_perform_def load_url_reads [OF assms(4, 5)])
qed

text \<open>Without room for two NULs the search may leave the buffer: a response that fills it ends the program.\<close>

lemma search_leaves_full_buffer: "0 \<notin> set b \<Longrightarrow> i \<le> length b \<Longrightarrow> 13 \<notin> set b \<Longrightarrow> p_strcasestr b i MRJ_ENDOFHEAD = Fault"
proof (induction "length b - i" arbitrary: i)
  case 0
  then show ?case by (simp add: p_strcasestr.simps [of b i])
next
  case (Suc k)
  then have i: "i < length b" by simp
  then have "b ! i \<noteq> 0" "b ! i \<noteq> 13" using Suc.prems by (metis nth_mem)+
  then show ?case using Suc.hyps(1) [of "i + 1"] Suc.hyps(2) Suc.prems i by (simp add: p_strcasestr.simps [of b i] MRJ_ENDOFHEAD_def)
qed

lemma init_session_ok: "http_init null io = Ok (Some data, io') \<Longrightarrow> session_ok data"
  by (auto simp: http_init_def session_ok_def bind_outcome_Ok_iff numeral_2_eq_2 split: if_splits)

section \<open>Failures that are not seen\<close>

text \<open>An error of \<open>send\<close> at the start of a request is a number of bytes above that of the request: the request counts as sent.\<close>

lemma send_error_counts_as_sent:
  assumes "s_ret t < 0" "0 < timeleft data bef (s_now t)" "n < size_mod"
  shows "http_send_loop data bef hcmd n 0 (t # ts) = Ok (MRJE_OK, [], ts)"
  using assms by (simp add: sent_now_def Let_def)

text \<open>An error of \<open>recv\<close> stores the character that was read before once more.\<close>

lemma recv_error_repeats:
  assumes "r_got t < 0" "wselect t = MRJE_OK" "0 < timeleft data bef (r_now t)" "response_recv_len data < MRJ_MAX_RESPHEAD" "length (response_recv data) = MRJ_MAX_RESPHEAD" "ch \<noteq> 13" "ch \<noteq> 10" "0 < flag"
  shows "http_recv_loop bef flag over ch data inp (t # ts) =
     http_recv_loop bef flag 0 ch (data\<lparr>response_recv := (response_recv data)[response_recv_len data := ch], response_recv_len := response_recv_len data + 1\<rparr>) inp ts"
  using assms by (simp add: Let_def timeleft_def)

text \<open>With the timeout of a new session every request times out once a part of it is sent, at any time that is not before its start.\<close>

lemma zero_timeout:
  assumes "timeout_ms (set_opt data) = 0" "0 \<le> mrjx_tvdiff (s_now t) bef" "0 < s_ret t" "0 < n"
  shows "http_send_loop data bef hcmd n 0 (t # ts) = Ok (MRJE_TIME_OUT, take (sent_now t n) hcmd, ts)"
  using assms by (simp add: Let_def timeleft_def sent_now_def)

text \<open>The first digit of a length that follows the colon at once is skipped.\<close>

lemma length_without_blank:
  assumes d: "drop p b = c # dec n @ t @ 0 # rest" and "isdigit c" "n < 2 ^ 31" "\<not> isdigit (c_at t 0)" "0 \<notin> set t"
  shows "number_after b p = Ok (int n)"
proof -
  have "drop (p + 1) b = dec n @ t @ 0 # rest" using d by (metis Suc_eq_plus1 drop_Suc list.sel(3) tl_drop)
  then show ?thesis using assms(3, 4, 5) by (rule number_after_dec)
qed

section \<open>A session\<close>

text \<open>A small session over a network that answers.\<close>

definition demo_settings :: "(int list) UserDefined" where
  "demo_settings =
     \<lparr>verbose = True, httpreq = HTTPREQ_POST, httpversion = 1, timeout_ms = 30000, connecttimeout = 10000,
      fwrite_func = Some (\<lambda>b n u. Ok (n, u @ take n b)), is_fwrite_set = 1, event_args = [],
      set_url = Some (url_text False (codes ''1.2.3.4'') (Some 8888) (codes ''/a'')), send_len = 3, send_buf = Some (codes ''x=1''),
      recv_len = 0, recv_buf = None, set_resume_from = 0\<rparr>"

definition demo_session :: "(int list) SessionHandle" where
  "demo_session =
     \<lparr>sock = -1, remote_addr = (0, 0), port = 0, host = [], remote_path = [], request_send = [], request_send_len = 0,
      response_recv = replicate MRJ_MAX_RESPHEAD 0, response_recv_len = 0, set_opt = demo_settings, info = \<lparr>httpcode = 0, content_len = 0\<rparr>\<rparr>"

definition demo_io :: io where
  "demo_io =
     \<lparr>mallocs = replicate 8 True, sockets = [5],
      conns = [\<lparr>c_setfl = 0, c_connect = -1, c_inprogress = True, c_select = 1, c_ready = True, c_sockopt = 0, c_error = 0, c_restore = 0\<rparr>],
      clock = [(100, 0)], sends = replicate 300 \<lparr>s_ret = 7, s_now = (101, 5)\<rparr>,
      rcvs = replicate 300 \<lparr>r_sel = 1, r_ex = False, r_rd = True, r_got = 1, r_now = (102, 0)\<rparr>,
      incoming = http_response 200 (codes '' OK'' @ crlf) 2 [] (codes ''ok''), before = (0, 0), dialed = [], wire = [], shown = [], closed = []\<rparr>"

lemma demo_network:
  "network_fine demo_session (length (post_request (codes ''1.2.3.4'') (codes ''/a'') (codes ''x=1'')))
     (length (http_response 200 (codes '' OK'' @ crlf) 2 [] (codes ''ok''))) demo_io"
  by (simp add: network_fine_def demo_io_def demo_session_def demo_settings_def connect_nnob_def list_all_iff send_fine_def recv_fine_def
      timeleft_def mrjx_tvdiff_def quot_1000_def wselect_def post_request_def S_pos_head_def fmt_d_def crlf_def
      http_response_def response_fields_def response_head_def MRJ_HTTPID_def MRJ_CONTENTLEN_def MRJ_ENDOFHEAD_def dec.simps)

lemma demo_response: "good_post 200 (codes '' OK'' @ crlf) 2 [] (codes ''ok'')"
  by (simp add: good_post_def good_head_end_def good_head_def http_response_def response_fields_def response_head_def crlf_def
      MRJ_HTTPID_def MRJ_CONTENTLEN_def MRJ_ENDOFHEAD_def dec.simps c_at_def isdigit_def)

lemma demo_run:
  "\<exists>data' io'. http_perform demo_session demo_io = Ok (MRJE_OK, data', io') \<and> event_args (set_opt data') = codes ''ok'' \<and> httpcode (info data') = 200 \<and>
     incoming io' = [] \<and> wire io' = wire demo_io @ post_request (codes ''1.2.3.4'') (codes ''/a'') (codes ''x=1'') \<and>
     dialed io' = dialed demo_io @ [(htons (of_nat (url_port_of (Some 8888))), inet_addr (codes ''1.2.3.4''))]"
  by (rule perform_post [OF _ _ _ _ _ _ _ _ _ _ demo_network _ demo_response, where secure = False and f = "\<lambda>b n u. Ok (n, u @ take n b)"])
     (simp_all add: demo_session_def demo_settings_def demo_io_def fresh_def c_at_def isdigit_def)

section \<open>Properties of the client\<close>

text \<open>Where a text ends with a NUL, the search for a string finds exactly its first occurrence in the text, and nothing when it does not
  occur; it never reads behind the NUL.\<close>

theorem search_finds_first:
  assumes "0 \<notin> set t" "0 \<notin> set pat" "pat \<noteq> []"
  shows "p_strcasestr (t @ 0 # rest) 0 pat = Ok (find_sub pat t)"
  using p_strcasestr_found [of 0 "t @ 0 # rest" t rest pat] assms by (cases "find_sub pat t") simp_all

theorem search_finds_first_witness: "p_strcasestr [72, 105, 13, 10, 13, 10, 66, 0, 7] 0 MRJ_ENDOFHEAD = Ok (Some 2)"
  using search_finds_first [of "[72, 105, 13, 10, 13, 10, 66]" MRJ_ENDOFHEAD "[7]"] by (simp add: MRJ_ENDOFHEAD_def)



text \<open>
  C10: a transfer stays within the memory of the session, whatever memory, connections, \<open>select\<close>, timeouts and partial sends and receives do, and whatever
  the server answers, if no call of \<open>recv\<close> reports an error and the answer is not too long: all of it for a POST, its head for any other request, has at most 10238
  bytes. The URL has the usual form with a host of less than 128 and a path of less than 256 characters, the callback stays in its own memory when it gets fewer bytes than
  the buffer has, and the buffer of the session ends with two NULs, as in a new session. Then no read or write leaves a buffer (this would be the outcome \<open>Fault\<close>), and the session
  is as good as before, so that this holds for the next transfer too.
\<close>

theorem perform_memory_safe:
  assumes "session_ok data" "callback_ok (set_opt data)" "answer_fits (httpreq (set_opt data)) io"
    and "set_url (set_opt data) = Some (url_text secure h p path)" "good_url h p path"
  shows "http_perform data io \<noteq> Fault \<and> (\<forall>r data' io'. http_perform data io = Ok (r, data', io') \<longrightarrow> session_ok data')"
  using http_perform_safe [OF assms] by (simp add: safely_def ensures_iff)

text \<open>The session of the example, with the answer it waits for, and with one that breaks off behind the name of the protocol before the connection times out.\<close>

theorem perform_memory_safe_witness:
  "(\<exists>data' io'. http_perform demo_session demo_io = Ok (MRJE_OK, data', io') \<and> session_ok data') \<and>
   http_perform demo_session (demo_io\<lparr>incoming := codes ''HTTP/1.1'', mallocs := [True, False]\<rparr>) \<noteq> Fault"
proof -
  have d: "session_ok demo_session" by (simp add: session_ok_def demo_session_def numeral_2_eq_2)
  have c: "callback_ok (set_opt demo_session)" by (simp add: callback_ok_def demo_session_def demo_settings_def)
  have u: "set_url (set_opt demo_session) = Some (url_text False (codes ''1.2.3.4'') (Some 8888) (codes ''/a''))" "good_url (codes ''1.2.3.4'') (Some 8888) (codes ''/a'')"
    by (simp_all add: demo_session_def demo_settings_def c_at_def isdigit_def)
  have a: "answer_fits (httpreq (set_opt demo_session)) demo_io" "answer_fits (httpreq (set_opt demo_session)) (demo_io\<lparr>incoming := codes ''HTTP/1.1'', mallocs := [True, False]\<rparr>)"
    by (simp_all add: answer_fits_def demo_session_def demo_settings_def demo_io_def list_all_iff http_response_def response_fields_def response_head_def crlf_def
        MRJ_HTTPID_def MRJ_CONTENTLEN_def MRJ_ENDOFHEAD_def dec.simps)
  obtain data' io' where "http_perform demo_session demo_io = Ok (MRJE_OK, data', io')" using demo_run by blast
  then show ?thesis using perform_memory_safe [OF d c a(1) u] perform_memory_safe [OF d c a(2) u] by blast
qed



end
