(* ===== verification/Cjson.thy ===== *)
theory Cjson
  imports Memory
begin

text \<open>
  The JSON library the platform client uses (tools/network/http_client_cjson/cJSON.c): items, the parser, the printer without a print
  buffer, the functions on items and the removal of white space. Numbers are kept as they are written, as \<open>double\<close> arithmetic is
  not modelled.
\<close>

section \<open>Items\<close>

text \<open>
  A text is the list of its characters, as unsigned numbers, without the NUL behind it; code that moves past that NUL faults. An
  item is a node with the fields of the structure; \<^verbatim>\<open>next\<close> and \<^verbatim>\<open>prev\<close> are the list of children. A number is kept as what was
  read, from which the code computes a \<open>double\<close>. Memory is always there.
\<close>

abbreviation (input) cJSON_False :: int where "cJSON_False \<equiv> 0"
abbreviation (input) cJSON_True :: int where "cJSON_True \<equiv> 1"
abbreviation (input) cJSON_NULL :: int where "cJSON_NULL \<equiv> 2"
abbreviation (input) cJSON_Number :: int where "cJSON_Number \<equiv> 3"
abbreviation (input) cJSON_String :: int where "cJSON_String \<equiv> 4"
abbreviation (input) cJSON_Array :: int where "cJSON_Array \<equiv> 5"
abbreviation (input) cJSON_Object :: int where "cJSON_Object \<equiv> 6"

datatype jnum = JNum (num_neg: bool) (num_digits: "int list") (num_scale: int) (num_subscale: int)

datatype cJSON = Node (jtype: int) (valuestring: "int list option") (valuenum: "jnum option") (jstring: "int list option") (child: "cJSON list")

definition cJSON_New_Item :: "cJSON" where
  "cJSON_New_Item = Node 0 None None None []"

text \<open>Results of the parser: the place of the error (\<^verbatim>\<open>ep\<close>), or a value and the text behind it.\<close>

type_synonym 'a json_parsed = "(int list + 'a \<times> int list) outcome"

definition then_parse :: "'a json_parsed \<Rightarrow> ('a \<Rightarrow> int list \<Rightarrow> 'b json_parsed) \<Rightarrow> 'b json_parsed" where
  "then_parse m f = bind_outcome m (\<lambda>r. case r of Inl e \<Rightarrow> Ok (Inl e) | Inr (x, t) \<Rightarrow> f x t)"

section \<open>Reading\<close>

definition cJSON_strcasecmp :: "int list option \<Rightarrow> int list option \<Rightarrow> bool" where
  "cJSON_strcasecmp s1 s2 \<longleftrightarrow>
     (case s1 of
        None \<Rightarrow> s2 \<noteq> None
      | Some a \<Rightarrow> (case s2 of None \<Rightarrow> True | Some b \<Rightarrow> map tolower_c a \<noteq> map tolower_c b))"

definition skip :: "int list \<Rightarrow> int list" where
  "skip t = dropWhile (\<lambda>c. c \<le> 32) t"

fun read_exponent :: "int \<Rightarrow> int list \<Rightarrow> (int \<times> int list) outcome" where
  "read_exponent v [] = Ok (v, [])"
| "read_exponent v (c # cs) =
     (if isdigit c then if v * 10 + (c - 48) < 2 ^ 31 then read_exponent (v * 10 + (c - 48)) cs else Fault else Ok (v, c # cs))"

definition parse_exponent :: "int list \<Rightarrow> (int \<times> int list) outcome" where
  "parse_exponent t4 =
     (if c_at t4 0 = 101 \<or> c_at t4 0 = 69 then
        let t5 = drop 1 t4;
            sgn = (if c_at t5 0 = 45 then -1 else 1);
            t6 = (if c_at t5 0 = 43 \<or> c_at t5 0 = 45 then drop 1 t5 else t5)
        in bind_outcome (read_exponent 0 t6) (\<lambda>(v, t7). Ok (sgn * v, t7))
      else Ok (0, t4))"

definition parse_number :: "int list option \<Rightarrow> int list \<Rightarrow> cJSON json_parsed" where
  "parse_number name t0 =
     (let neg = (c_at t0 0 = 45);
          t1 = (if neg then drop 1 t0 else t0);
          t2 = (if c_at t1 0 = 48 then drop 1 t1 else t1);
          whole = (if 49 \<le> c_at t2 0 \<and> c_at t2 0 \<le> 57 then takeWhile isdigit t2 else []);
          t3 = drop (length whole) t2;
          frac = (if c_at t3 0 = 46 \<and> isdigit (c_at t3 1) then takeWhile isdigit (drop 1 t3) else []);
          t4 = (if frac = [] then t3 else drop (length frac + 1) t3)
      in bind_outcome (parse_exponent t4)
           (\<lambda>(sub, t8). Ok (Inr (Node cJSON_Number None (Some (JNum neg (whole @ frac) (- int (length frac)) sub)) name [], t8))))"

definition json_hex_digit :: "int \<Rightarrow> nat option" where
  "json_hex_digit c =
     (if 48 \<le> c \<and> c \<le> 57 then Some (nat (c - 48)) else if 65 \<le> c \<and> c \<le> 70 then Some (nat (10 + c - 65))
      else if 97 \<le> c \<and> c \<le> 102 then Some (nat (10 + c - 97)) else None)"

definition parse_hex4 :: "int list \<Rightarrow> nat" where
  "parse_hex4 t =
     (case (json_hex_digit (c_at t 0), json_hex_digit (c_at t 1), json_hex_digit (c_at t 2), json_hex_digit (c_at t 3)) of
        (Some a, Some b, Some c, Some d) \<Rightarrow> ((a * 16 + b) * 16 + c) * 16 + d
      | _ \<Rightarrow> 0)"

text \<open>The bytes of a character: the cases of the \<open>switch\<close> fall through, so they are written from the last to the first.\<close>

definition firstByteMark :: "nat list" where
  "firstByteMark = [0x00, 0x00, 0xC0, 0xE0, 0xF0, 0xF8, 0xFC]"

fun utf8_tail :: "nat \<Rightarrow> nat \<Rightarrow> int list \<Rightarrow> nat \<times> int list" where
  "utf8_tail 0 uc out = (uc, out)"
| "utf8_tail (Suc k) uc out = utf8_tail k (uc div 64) (int (and (or uc 0x80) 0xBF) # out)"

definition utf8 :: "nat \<Rightarrow> int list" where
  "utf8 uc =
     (let len = (if uc < 0x80 then 1 else if uc < 0x800 then 2 else if uc < 0x10000 then 3 else 4);
          (rest, out) = utf8_tail (len - 1) uc []
      in int (or rest (firstByteMark ! len) mod 256) # out)"

text \<open>
  The first loop of \<^verbatim>\<open>parse_string\<close>, which finds how much memory to take. This length and those of printed texts below are \<open>int\<close> in the code and numbers without a bound
  here, so the model is the code for texts below \<open>2 ^ 31\<close> bytes.
\<close>

fun scan_len :: "nat \<Rightarrow> int list \<Rightarrow> nat outcome" where
  "scan_len n [] = Ok n"
| "scan_len n (c # cs) =
     (if c = 34 then Ok n
      else if c = 92 then (case cs of [] \<Rightarrow> Fault | _ # cs' \<Rightarrow> scan_len (n + 1) cs')
      else scan_len (n + 1) cs)"

text \<open>The escape behind a backslash and the character \<open>u\<close>: what is written, and the text behind it.\<close>

definition unicode_escape :: "int list \<Rightarrow> (int list \<times> int list) outcome" where
  "unicode_escape r =
     (let uc = parse_hex4 r; r4 = drop 4 r in
      if length r < 4 then Fault
      else if (0xDC00 \<le> uc \<and> uc \<le> 0xDFFF) \<or> uc = 0 then Ok ([], r4)
      else if 0xD800 \<le> uc \<and> uc \<le> 0xDBFF then
        if c_at r4 0 \<noteq> 92 \<or> c_at r4 1 \<noteq> 117 then Ok ([], r4)
        else
          let uc2 = parse_hex4 (drop 2 r4); r10 = drop 6 r4 in
          if length r4 < 6 then Fault
          else if uc2 < 0xDC00 \<or> uc2 > 0xDFFF then Ok ([], r10)
          else Ok (utf8 (0x10000 + (or (push_bit 10 (and uc 0x3FF)) (and uc2 0x3FF))), r10)
      else Ok (utf8 uc, r4))"

definition simple_escape :: "int \<Rightarrow> int" where
  "simple_escape c = (if c = 98 then 8 else if c = 102 then 12 else if c = 110 then 10 else if c = 114 then 13 else if c = 116 then 9 else c)"

lemma bind_outcome_cong [fundef_cong]: "m = m' \<Longrightarrow> (\<And>x. m' = Ok x \<Longrightarrow> f x = g x) \<Longrightarrow> bind_outcome m f = bind_outcome m' g"
  by (cases m') auto

lemma unicode_escape_length: "unicode_escape r = Ok (bs, r') \<Longrightarrow> length r' \<le> length r - 4 \<and> 4 \<le> length r"
  by (auto simp: unicode_escape_def Let_def split: if_splits)

text \<open>The second loop: the characters written and the text it stops at.\<close>

function unescape :: "int list \<Rightarrow> (int list \<times> int list) outcome" where
  "unescape [] = Ok ([], [])"
| "unescape (c # cs) =
     (if c = 34 then Ok ([], c # cs)
      else if c \<noteq> 92 then bind_outcome (unescape cs) (\<lambda>(out, r). Ok (c # out, r))
      else case cs of
             [] \<Rightarrow> Fault
           | e # r \<Rightarrow>
               if e = 117 then
                 bind_outcome (unicode_escape r) (\<lambda>(bs, r'). bind_outcome (unescape r') (\<lambda>(out, r''). Ok (bs @ out, r'')))
               else bind_outcome (unescape r) (\<lambda>(out, r'). Ok (simple_escape e # out, r')))"
  by pat_completeness auto

termination
  by (relation "measure length") (auto dest: unicode_escape_length)

definition json_parse_string :: "int list \<Rightarrow> int list json_parsed" where
  "json_parse_string t =
     (if c_at t 0 \<noteq> 34 then Ok (Inl t)
      else
        bind_outcome (scan_len 0 (drop 1 t)) (\<lambda>len.
        bind_outcome (unescape (drop 1 t)) (\<lambda>(out, r).
          if length out \<le> len then Ok (Inr (out, if c_at r 0 = 34 then drop 1 r else r)) else Fault)))"

text \<open>\<^verbatim>\<open>parse_value\<close> and its callers; \<open>name\<close> is the name the item already has. The first argument bounds how deep they nest and how often the loops run.\<close>

fun parse_value :: "nat \<Rightarrow> int list option \<Rightarrow> int list \<Rightarrow> cJSON json_parsed"
  and parse_items :: "nat \<Rightarrow> int list \<Rightarrow> (cJSON list) json_parsed"
  and parse_members :: "nat \<Rightarrow> int list \<Rightarrow> (cJSON list) json_parsed" where
  "parse_value 0 name t = NoFuel"
| "parse_value (Suc n) name t =
     (if take 4 t = codes ''null'' then Ok (Inr (Node cJSON_NULL None None name [], drop 4 t))
      else if take 5 t = codes ''false'' then Ok (Inr (Node cJSON_False None None name [], drop 5 t))
      else if take 4 t = codes ''true'' then Ok (Inr (Node cJSON_True None None name [], drop 4 t))
      else if c_at t 0 = 34 then then_parse (json_parse_string t) (\<lambda>s r. Ok (Inr (Node cJSON_String (Some s) None name [], r)))
      else if c_at t 0 = 45 \<or> (48 \<le> c_at t 0 \<and> c_at t 0 \<le> 57) then parse_number name t
      else if c_at t 0 = 91 then
        (let v = skip (drop 1 t) in
         if c_at v 0 = 93 then Ok (Inr (Node cJSON_Array None None name [], drop 1 v))
         else then_parse (parse_items n v) (\<lambda>cs r. Ok (Inr (Node cJSON_Array None None name cs, r))))
      else if c_at t 0 = 123 then
        (let v = skip (drop 1 t) in
         if c_at v 0 = 125 then Ok (Inr (Node cJSON_Object None None name [], drop 1 v))
         else then_parse (parse_members n v) (\<lambda>cs r. Ok (Inr (Node cJSON_Object None None name cs, r))))
      else Ok (Inl t))"
| "parse_items 0 t = NoFuel"
| "parse_items (Suc n) t =
     then_parse (parse_value n None (skip t)) (\<lambda>c r.
       let v = skip r in
       if c_at v 0 = 44 then then_parse (parse_items n (drop 1 v)) (\<lambda>cs r'. Ok (Inr (c # cs, r')))
       else if c_at v 0 = 93 then Ok (Inr ([c], drop 1 v))
       else Ok (Inl v))"
| "parse_members 0 t = NoFuel"
| "parse_members (Suc n) t =
     then_parse (json_parse_string (skip t)) (\<lambda>s r.
       let v = skip r in
       if c_at v 0 \<noteq> 58 then Ok (Inl v)
       else
         then_parse (parse_value n (Some s) (skip (drop 1 v))) (\<lambda>c r'.
           let w = skip r' in
           if c_at w 0 = 44 then then_parse (parse_members n (drop 1 w)) (\<lambda>cs r''. Ok (Inr (c # cs, r'')))
           else if c_at w 0 = 125 then Ok (Inr ([c], drop 1 w))
           else Ok (Inl w)))"

text \<open>\<^verbatim>\<open>cJSON_Parse\<close>: twice as many steps as the text has characters are always enough.\<close>

definition parse_fuel :: "int list \<Rightarrow> nat" where
  "parse_fuel t = 2 * length t + 1"

definition cJSON_ParseWithOpts :: "bool \<Rightarrow> int list \<Rightarrow> cJSON json_parsed" where
  "cJSON_ParseWithOpts require_null_terminated t =
     then_parse (parse_value (parse_fuel (skip t)) None (skip t)) (\<lambda>c r.
       if require_null_terminated \<and> skip r \<noteq> [] then Ok (Inl (skip r))
       else Ok (Inr (c, if require_null_terminated then skip r else r)))"

definition cJSON_Parse :: "int list \<Rightarrow> cJSON json_parsed" where
  "cJSON_Parse t = cJSON_ParseWithOpts False t"

section \<open>Writing\<close>

text \<open>Writing into memory of so many bytes, NUL included.\<close>

definition into :: "nat \<Rightarrow> int list \<Rightarrow> int list outcome" where
  "into n out = (if length out < n then Ok out else Fault)"

definition is_special :: "int \<Rightarrow> bool" where
  "is_special c \<longleftrightarrow> c \<in> {34, 92, 8, 12, 10, 13, 9}"

definition json_hex_char :: "nat \<Rightarrow> int" where
  "json_hex_char d = (if d < 10 then 48 + int d else 87 + int d)"

definition escape_char :: "int \<Rightarrow> int list" where
  "escape_char c =
     (if c > 31 \<and> c \<noteq> 34 \<and> c \<noteq> 92 then [c]
      else if c = 92 then [92, 92]
      else if c = 34 then [92, 34]
      else if c = 8 then [92, 98]
      else if c = 12 then [92, 102]
      else if c = 10 then [92, 110]
      else if c = 13 then [92, 114]
      else if c = 9 then [92, 116]
      else [92, 117, 48, 48, json_hex_char (nat c div 16), json_hex_char (nat c mod 16)])"

definition escaped_len :: "int list \<Rightarrow> nat" where
  "escaped_len s = sum_list (map (\<lambda>c. 1 + (if is_special c then 1 else if c < 32 then 5 else 0)) s)"

text \<open>The test for a NULL string comes behind the loop that reads it.\<close>

definition print_string_ptr :: "int list option \<Rightarrow> int list option outcome" where
  "print_string_ptr str =
     (case str of
        None \<Rightarrow> Fault
      | Some s \<Rightarrow>
          if \<not> list_ex (\<lambda>c. (c > 0 \<and> c < 32) \<or> c = 34 \<or> c = 92) s then
            bind_outcome (into (length s + 3) (34 # s @ [34])) (\<lambda>out. Ok (Some out))
          else bind_outcome (into (escaped_len s + 3) (34 # concat (map escape_char s) @ [34])) (\<lambda>out. Ok (Some out)))"

definition tabs :: "nat \<Rightarrow> int list" where "tabs n = replicate n 9"

fun join_items :: "bool \<Rightarrow> int list list \<Rightarrow> int list" where
  "join_items fmt [] = []"
| "join_items fmt [e] = e"
| "join_items fmt (e # es) = e @ 44 # (if fmt then [32] else []) @ join_items fmt es"

definition array_len :: "bool \<Rightarrow> int list list \<Rightarrow> nat" where
  "array_len fmt es = 5 + sum_list (map (\<lambda>e. length e + 2 + (if fmt then 1 else 0)) es)"

fun join_members :: "bool \<Rightarrow> nat \<Rightarrow> (int list \<times> int list) list \<Rightarrow> int list" where
  "join_members fmt depth [] = []"
| "join_members fmt depth ((n, e) # ms) =
     (if fmt then tabs depth else []) @ n @ 58 # (if fmt then [9] else []) @ e @ (if ms = [] then [] else [44]) @ (if fmt then [10] else []) @
     join_members fmt depth ms"

definition object_len :: "bool \<Rightarrow> nat \<Rightarrow> (int list \<times> int list) list \<Rightarrow> nat" where
  "object_len fmt depth ms =
     7 + (if fmt then depth else 0) + sum_list (map (\<lambda>(n, e). length e + length n + 2 + (if fmt then 2 + depth else 0)) ms)"

text \<open>\<^verbatim>\<open>print_value\<close> without a print buffer. The text of a number is an argument, as it is computed with \<open>double\<close> arithmetic.\<close>

fun print_value :: "(jnum option \<Rightarrow> int list) \<Rightarrow> bool \<Rightarrow> cJSON \<Rightarrow> nat \<Rightarrow> int list option outcome"
  and print_items :: "(jnum option \<Rightarrow> int list) \<Rightarrow> bool \<Rightarrow> cJSON list \<Rightarrow> nat \<Rightarrow> int list list option outcome"
  and print_members :: "(jnum option \<Rightarrow> int list) \<Rightarrow> bool \<Rightarrow> cJSON list \<Rightarrow> nat \<Rightarrow> (int list \<times> int list) list option outcome" where
  "print_value pr fmt (Node ty vs num nm ch) depth =
     (let t = and ty 255 in
      if t = cJSON_NULL then Ok (Some (codes ''null''))
      else if t = cJSON_False then Ok (Some (codes ''false''))
      else if t = cJSON_True then Ok (Some (codes ''true''))
      else if t = cJSON_Number then Ok (Some (pr num))
      else if t = cJSON_String then print_string_ptr vs
      else if t = cJSON_Array then
        if ch = [] then Ok (Some [91, 93])
        else
          bind_outcome (print_items pr fmt ch (depth + 1)) (\<lambda>r. case r of
              None \<Rightarrow> Ok None
            | Some es \<Rightarrow> bind_outcome (into (array_len fmt es) (91 # join_items fmt es @ [93])) (\<lambda>out. Ok (Some out)))
      else if t = cJSON_Object then
        if ch = [] then
          bind_outcome (into (if fmt then depth + 4 else 3) (123 # (if fmt then 10 # tabs (depth - 1) else []) @ [125])) (\<lambda>out. Ok (Some out))
        else
          bind_outcome (print_members pr fmt ch (depth + 1)) (\<lambda>r. case r of
              None \<Rightarrow> Ok None
            | Some ms \<Rightarrow>
                bind_outcome (into (object_len fmt (depth + 1) ms)
                    (123 # (if fmt then [10] else []) @ join_members fmt (depth + 1) ms @ (if fmt then tabs depth else []) @ [125]))
                  (\<lambda>out. Ok (Some out)))
      else Ok None)"
| "print_items pr fmt [] depth = Ok (Some [])"
| "print_items pr fmt (c # cs) depth =
     bind_outcome (print_value pr fmt c depth) (\<lambda>r. case r of
         None \<Rightarrow> Ok None
       | Some e \<Rightarrow> bind_outcome (print_items pr fmt cs depth) (\<lambda>r'. Ok (map_option (\<lambda>es. e # es) r')))"
| "print_members pr fmt [] depth = Ok (Some [])"
| "print_members pr fmt (c # cs) depth =
     bind_outcome (print_string_ptr (jstring c)) (\<lambda>n.
     bind_outcome (print_value pr fmt c depth) (\<lambda>e.
     bind_outcome (print_members pr fmt cs depth) (\<lambda>ms.
       Ok (case (n, e, ms) of (Some n', Some e', Some ms') \<Rightarrow> Some ((n', e') # ms') | _ \<Rightarrow> None))))"

definition cJSON_Print :: "(jnum option \<Rightarrow> int list) \<Rightarrow> cJSON \<Rightarrow> int list option outcome" where
  "cJSON_Print pr item = print_value pr True item 0"

definition cJSON_PrintUnformatted :: "(jnum option \<Rightarrow> int list) \<Rightarrow> cJSON \<Rightarrow> int list option outcome" where
  "cJSON_PrintUnformatted pr item = print_value pr False item 0"

section \<open>Using items\<close>

text \<open>Items are found and changed by the list of children of the item they are in.\<close>

definition with_child :: "cJSON list \<Rightarrow> cJSON \<Rightarrow> cJSON" where
  "with_child ch c = (case c of Node ty vs num nm _ \<Rightarrow> Node ty vs num nm ch)"

definition with_name :: "int list option \<Rightarrow> cJSON \<Rightarrow> cJSON" where
  "with_name nm c = (case c of Node ty vs num _ ch \<Rightarrow> Node ty vs num nm ch)"

definition cJSON_GetArraySize :: "cJSON \<Rightarrow> nat" where
  "cJSON_GetArraySize a = length (child a)"

definition nth_child :: "int \<Rightarrow> nat" where
  "nth_child which = (if which > 0 then nat which else 0)"

definition cJSON_GetArrayItem :: "cJSON \<Rightarrow> int \<Rightarrow> cJSON option" where
  "cJSON_GetArrayItem a item = (let k = nth_child item in if k < length (child a) then Some (child a ! k) else None)"

fun find_named :: "int list \<Rightarrow> cJSON list \<Rightarrow> nat option" where
  "find_named s [] = None"
| "find_named s (c # cs) = (if \<not> cJSON_strcasecmp (jstring c) (Some s) then Some 0 else map_option Suc (find_named s cs))"

definition cJSON_GetObjectItem :: "cJSON \<Rightarrow> int list \<Rightarrow> cJSON option" where
  "cJSON_GetObjectItem ob s = map_option (\<lambda>k. child ob ! k) (find_named s (child ob))"

definition cJSON_AddItemToArray :: "cJSON \<Rightarrow> cJSON option \<Rightarrow> cJSON" where
  "cJSON_AddItemToArray a item = (case item of None \<Rightarrow> a | Some c \<Rightarrow> with_child (child a @ [c]) a)"

definition cJSON_AddItemToObject :: "cJSON \<Rightarrow> int list \<Rightarrow> cJSON option \<Rightarrow> cJSON" where
  "cJSON_AddItemToObject ob s item = (case item of None \<Rightarrow> ob | Some c \<Rightarrow> cJSON_AddItemToArray ob (Some (with_name (Some s) c)))"

text \<open>\<^verbatim>\<open>cJSON_StringIsConst\<close> is bit 512 of the type.\<close>

definition cJSON_AddItemToObjectCS :: "cJSON \<Rightarrow> int list \<Rightarrow> cJSON option \<Rightarrow> cJSON" where
  "cJSON_AddItemToObjectCS ob s item =
     (case item of
        None \<Rightarrow> ob
      | Some (Node ty vs num _ ch) \<Rightarrow> cJSON_AddItemToArray ob (Some (Node (or ty 512) vs num (Some s) ch)))"

definition cJSON_DetachItemFromArray :: "cJSON \<Rightarrow> int \<Rightarrow> cJSON option \<times> cJSON" where
  "cJSON_DetachItemFromArray a which =
     (let k = nth_child which in
      if k < length (child a) then (Some (child a ! k), with_child (take k (child a) @ drop (k + 1) (child a)) a) else (None, a))"

definition cJSON_DeleteItemFromArray :: "cJSON \<Rightarrow> int \<Rightarrow> cJSON" where
  "cJSON_DeleteItemFromArray a which = snd (cJSON_DetachItemFromArray a which)"

definition cJSON_DetachItemFromObject :: "cJSON \<Rightarrow> int list \<Rightarrow> cJSON option \<times> cJSON" where
  "cJSON_DetachItemFromObject ob s =
     (case find_named s (child ob) of None \<Rightarrow> (None, ob) | Some k \<Rightarrow> cJSON_DetachItemFromArray ob (int k))"

definition cJSON_DeleteItemFromObject :: "cJSON \<Rightarrow> int list \<Rightarrow> cJSON" where
  "cJSON_DeleteItemFromObject ob s = snd (cJSON_DetachItemFromObject ob s)"

definition cJSON_InsertItemInArray :: "cJSON \<Rightarrow> int \<Rightarrow> cJSON \<Rightarrow> cJSON" where
  "cJSON_InsertItemInArray a which newitem =
     (let k = nth_child which in
      if k < length (child a) then with_child (take k (child a) @ newitem # drop k (child a)) a else cJSON_AddItemToArray a (Some newitem))"

definition cJSON_ReplaceItemInArray :: "cJSON \<Rightarrow> int \<Rightarrow> cJSON \<Rightarrow> cJSON" where
  "cJSON_ReplaceItemInArray a which newitem =
     (let k = nth_child which in if k < length (child a) then with_child ((child a)[k := newitem]) a else a)"

definition cJSON_ReplaceItemInObject :: "cJSON \<Rightarrow> int list \<Rightarrow> cJSON \<Rightarrow> cJSON" where
  "cJSON_ReplaceItemInObject ob s newitem =
     (case find_named s (child ob) of None \<Rightarrow> ob | Some k \<Rightarrow> cJSON_ReplaceItemInArray ob (int k) (with_name (Some s) newitem))"

definition cJSON_CreateNull :: cJSON where "cJSON_CreateNull = Node cJSON_NULL None None None []"
definition cJSON_CreateTrue :: cJSON where "cJSON_CreateTrue = Node cJSON_True None None None []"
definition cJSON_CreateFalse :: cJSON where "cJSON_CreateFalse = Node cJSON_False None None None []"
definition cJSON_CreateBool :: "int \<Rightarrow> cJSON" where "cJSON_CreateBool b = Node (if b \<noteq> 0 then cJSON_True else cJSON_False) None None None []"
definition cJSON_CreateString :: "int list \<Rightarrow> cJSON" where "cJSON_CreateString s = Node cJSON_String (Some s) None None []"
definition cJSON_CreateArray :: cJSON where "cJSON_CreateArray = Node cJSON_Array None None None []"
definition cJSON_CreateObject :: cJSON where "cJSON_CreateObject = Node cJSON_Object None None None []"

definition cJSON_CreateStringArray :: "int list list \<Rightarrow> cJSON" where
  "cJSON_CreateStringArray ss = with_child (map cJSON_CreateString ss) cJSON_CreateArray"

text \<open>\<^verbatim>\<open>cJSON_IsReference\<close> is bit 256 of the type.\<close>

fun cJSON_Duplicate :: "bool \<Rightarrow> cJSON \<Rightarrow> cJSON" where
  "cJSON_Duplicate recurse (Node ty vs num nm ch) =
     Node (and ty (not 256)) vs num nm (if recurse then map (cJSON_Duplicate True) ch else [])"

section \<open>Removing white space\<close>

fun line_comment :: "int list \<Rightarrow> int list" where
  "line_comment [] = []"
| "line_comment (c # cs) = (if c = 10 then c # cs else line_comment cs)"

text \<open>Behind the end of a comment that is not closed the code moves past the NUL.\<close>

fun block_comment :: "int list \<Rightarrow> int list outcome" where
  "block_comment [] = Fault"
| "block_comment (c # cs) = (if c = 42 \<and> c_at cs 0 = 47 then Ok (drop 1 cs) else block_comment cs)"

text \<open>The rest of a string literal that has been opened, and the text behind it.\<close>

fun string_literal :: "int list \<Rightarrow> (int list \<times> int list) outcome" where
  "string_literal [] = Fault"
| "string_literal (c # cs) =
     (if c = 34 then Ok ([34], cs)
      else if c = 92 then (case cs of [] \<Rightarrow> Fault | e # r \<Rightarrow> bind_outcome (string_literal r) (\<lambda>(out, t). Ok (c # e # out, t)))
      else bind_outcome (string_literal cs) (\<lambda>(out, t). Ok (c # out, t)))"

lemma line_comment_length: "length (line_comment t) \<le> length t"
  by (induction t) auto

lemma block_comment_length: "block_comment t = Ok t' \<Longrightarrow> length t' < length t"
  by (induction t) (auto split: if_splits)

lemma string_literal_length: "string_literal t = Ok (out, t') \<Longrightarrow> length t' < length t"
proof (induction t arbitrary: out rule: string_literal.induct)
  case (2 c cs)
  then show ?case by (fastforce simp: bind_outcome_Ok_iff split: if_splits list.splits prod.splits)
qed simp

function cJSON_Minify :: "int list \<Rightarrow> int list outcome" where
  "cJSON_Minify [] = Ok []"
| "cJSON_Minify (c # cs) =
     (if c = 32 \<or> c = 9 \<or> c = 13 \<or> c = 10 then cJSON_Minify cs
      else if c = 47 \<and> c_at cs 0 = 47 then cJSON_Minify (line_comment cs)
      else if c = 47 \<and> c_at cs 0 = 42 then bind_outcome (block_comment cs) cJSON_Minify
      else if c = 34 then bind_outcome (string_literal cs) (\<lambda>(lit, t). bind_outcome (cJSON_Minify t) (\<lambda>out. Ok (c # lit @ out)))
      else bind_outcome (cJSON_Minify cs) (\<lambda>out. Ok (c # out)))"
  by pat_completeness auto

termination
  by (relation "measure length") (auto simp: less_Suc_eq_le line_comment_length dest: block_comment_length string_literal_length)

declare cJSON_Minify.simps [simp del]

end
