(* ===== verification/Cjson_Text.thy ===== *)
theory Cjson_Text
  imports Cjson
begin

text \<open>
  What the JSON library does with texts: the printer writes within the memory it takes and writes the text of the value, the parser
  reads both layouts back, every text is read in bounded steps, and removing white space turns one layout into the other.
\<close>

section \<open>Values and their texts\<close>

text \<open>JSON values without numbers, the items that stand for them, and the texts for them, in both layouts.\<close>

datatype json = JNull | JBool bool | JStr "int list" | JArr "json list" | JObj "(int list \<times> json) list"

fun embed :: "int list option \<Rightarrow> json \<Rightarrow> cJSON" where
  "embed nm JNull = Node cJSON_NULL None None nm []"
| "embed nm (JBool b) = Node (if b then cJSON_True else cJSON_False) None None nm []"
| "embed nm (JStr s) = Node cJSON_String (Some s) None nm []"
| "embed nm (JArr js) = Node cJSON_Array None None nm (map (embed None) js)"
| "embed nm (JObj ms) = Node cJSON_Object None None nm (map (\<lambda>(k, j). embed (Some k) j) ms)"

definition json_quoted :: "int list \<Rightarrow> int list" where
  "json_quoted s = 34 # concat (map escape_char s) @ [34]"

fun jtext :: "bool \<Rightarrow> nat \<Rightarrow> json \<Rightarrow> int list" where
  "jtext fmt d JNull = codes ''null''"
| "jtext fmt d (JBool b) = (if b then codes ''true'' else codes ''false'')"
| "jtext fmt d (JStr s) = json_quoted s"
| "jtext fmt d (JArr js) = 91 # join_items fmt (map (jtext fmt (d + 1)) js) @ [93]"
| "jtext fmt d (JObj ms) =
     (if ms = [] then 123 # (if fmt then 10 # tabs (d - 1) else []) @ [125]
      else 123 # (if fmt then [10] else []) @ join_members fmt (d + 1) (map (\<lambda>(k, j). (json_quoted k, jtext fmt (d + 1) j)) ms) @
           (if fmt then tabs d else []) @ [125])"

text \<open>Strings of C hold no NUL.\<close>

fun good_json :: "json \<Rightarrow> bool" where
  "good_json (JStr s) = list_all (\<lambda>c. 0 < c) s"
| "good_json (JArr js) = list_all good_json js"
| "good_json (JObj ms) = list_all (\<lambda>(k, j). list_all (\<lambda>c. 0 < c) k \<and> good_json j) ms"
| "good_json _ = True"

section \<open>What is written\<close>

lemma escape_char_length: "0 < c \<Longrightarrow> length (escape_char c) = 1 + (if is_special c then 1 else if c < 32 then 5 else 0)"
  by (auto simp: escape_char_def is_special_def)

lemma escaped_length: "list_all (\<lambda>c. 0 < c) s \<Longrightarrow> length (concat (map escape_char s)) = escaped_len s"
  by (induction s) (simp_all add: escaped_len_def escape_char_length)

lemma plain_not_escaped: "\<not> list_ex (\<lambda>c. (c > 0 \<and> c < 32) \<or> c = 34 \<or> c = 92) s \<Longrightarrow> list_all (\<lambda>c. 0 < c) s \<Longrightarrow> concat (map escape_char s) = s"
  by (induction s) (auto simp: escape_char_def)

lemma print_string_quoted: "list_all (\<lambda>c. 0 < c) s \<Longrightarrow> print_string_ptr (Some s) = Ok (Some (json_quoted s))"
  using plain_not_escaped [of s] escaped_length [of s] by (auto simp: print_string_ptr_def into_def json_quoted_def)

lemma join_items_length: "length (join_items fmt es) \<le> sum_list (map (\<lambda>e. length e + 2 + (if fmt then 1 else 0)) es)"
  by (induction fmt es rule: join_items.induct) auto

lemma join_members_length:
  "length (join_members fmt d ms) \<le> sum_list (map (\<lambda>(n, e). length e + length n + 2 + (if fmt then 2 + d else 0)) ms)"
  by (induction fmt d ms rule: join_members.induct) (auto simp: tabs_def)

lemma into_array: "into (array_len fmt es) (91 # join_items fmt es @ [93]) = Ok (91 # join_items fmt es @ [93])"
  using join_items_length [of fmt es] by (simp add: into_def array_len_def)

lemma into_object:
  "into (object_len fmt (d + 1) ms) (123 # (if fmt then [10] else []) @ join_members fmt (d + 1) ms @ (if fmt then tabs d else []) @ [125]) =
   Ok (123 # (if fmt then [10] else []) @ join_members fmt (d + 1) ms @ (if fmt then tabs d else []) @ [125])"
  using join_members_length [of fmt "d + 1" ms] by (cases fmt) (simp_all add: into_def object_len_def tabs_def)

lemma jstring_embed [simp]: "jstring (embed nm j) = nm"
  by (cases j) auto

lemma print_items_each:
  "(\<And>j. j \<in> set js \<Longrightarrow> print_value pr fmt (embed None j) d = Ok (Some (jtext fmt d j))) \<Longrightarrow>
   print_items pr fmt (map (embed None) js) d = Ok (Some (map (jtext fmt d) js))"
  by (induction js) auto

lemma print_members_each:
  "(\<And>k j. (k, j) \<in> set ms \<Longrightarrow> list_all (\<lambda>c. 0 < c) k \<and> print_value pr fmt (embed (Some k) j) d = Ok (Some (jtext fmt d j))) \<Longrightarrow>
   print_members pr fmt (map (\<lambda>(k, j). embed (Some k) j) ms) d = Ok (Some (map (\<lambda>(k, j). (json_quoted k, jtext fmt d j)) ms))"
proof (induction ms)
  case (Cons m ms)
  obtain k j where m: "m = (k, j)" by (cases m)
  have "print_members pr fmt (map (\<lambda>(k, j). embed (Some k) j) ms) d = Ok (Some (map (\<lambda>(k, j). (json_quoted k, jtext fmt d j)) ms))"
    using Cons by auto
  then show ?case using Cons.prems [of k j] m by (simp add: print_string_quoted)
qed simp

lemma print_embed: "good_json j \<Longrightarrow> print_value pr fmt (embed nm j) d = Ok (Some (jtext fmt d j))"
proof (induction j arbitrary: nm d)
  case (JArr js)
  have "print_items pr fmt (map (embed None) js) (d + 1) = Ok (Some (map (jtext fmt (d + 1)) js))"
    using JArr by (intro print_items_each) (auto simp: list_all_iff)
  then show ?case by (cases "js = []") (simp_all add: into_array)
next
  case (JObj ms)
  have "print_members pr fmt (map (\<lambda>(k, j). embed (Some k) j) ms) (d + 1) = Ok (Some (map (\<lambda>(k, j). (json_quoted k, jtext fmt (d + 1) j)) ms))"
  proof (rule print_members_each)
    fix k j assume kj: "(k, j) \<in> set ms"
    then show "list_all (\<lambda>c. 0 < c) k \<and> print_value pr fmt (embed (Some k) j) (d + 1) = Ok (Some (jtext fmt (d + 1) j))"
      using JObj.prems JObj.IH [of "(k, j)" j "Some k" "d + 1"] by (auto simp: list_all_iff)
  qed
  then show ?case using into_object [of fmt d]
    by (cases "ms = []") (auto simp: into_def tabs_def)
qed (simp_all add: print_string_quoted)

section \<open>Reading what was written\<close>

lemma hex_char_digit: "d < 16 \<Longrightarrow> json_hex_digit (json_hex_char d) = Some d \<and> json_hex_char d \<noteq> 34 \<and> json_hex_char d \<noteq> 92"
  by (auto simp: json_hex_digit_def json_hex_char_def)

lemma parse_hex4_control: "k < 32 \<Longrightarrow> parse_hex4 (48 # 48 # json_hex_char (k div 16) # json_hex_char (k mod 16) # r) = k"
  using hex_char_digit [of "k div 16"] hex_char_digit [of "k mod 16"] by (simp add: parse_hex4_def c_at_def json_hex_digit_def)

lemma unicode_escape_control:
  "0 < c \<Longrightarrow> c < 32 \<Longrightarrow> unicode_escape (48 # 48 # json_hex_char (nat c div 16) # json_hex_char (nat c mod 16) # r) = Ok ([c], r)"
proof -
  assume c: "0 < c" "c < 32"
  define k where "k = nat c"
  have k: "k < 32" "0 < k" "int k = c" using c by (auto simp: k_def)
  then have "\<not> 0xD800 \<le> k" "\<not> 0xDC00 \<le> k" "k < 0x80" by linarith+
  with k show ?thesis
    using parse_hex4_control [OF k(1), of r] by (simp add: unicode_escape_def Let_def utf8_def firstByteMark_def flip: k_def)
qed

lemma unescape_escape: "0 < c \<Longrightarrow> unescape (escape_char c @ t) = bind_outcome (unescape t) (\<lambda>(out, r). Ok (c # out, r))"
proof -
  assume c: "0 < c"
  show ?thesis
  proof (cases "c \<ge> 32 \<or> is_special c")
    case True
    with c show ?thesis by (auto simp: escape_char_def is_special_def simple_escape_def)
  next
    case False
    then have "escape_char c = [92, 117, 48, 48, json_hex_char (nat c div 16), json_hex_char (nat c mod 16)]"
      using c by (simp add: escape_char_def is_special_def)
    then show ?thesis using unicode_escape_control [of c t] False c by simp
  qed
qed

lemma scan_len_escape: "0 < c \<Longrightarrow> \<exists>k\<ge>1. \<forall>n. scan_len n (escape_char c @ t) = scan_len (n + k) t"
proof -
  assume c: "0 < c"
  show ?thesis
  proof (cases "c \<ge> 32 \<or> is_special c")
    case True
    then have "(escape_char c = [c] \<and> c \<noteq> 34 \<and> c \<noteq> 92) \<or> (\<exists>x. escape_char c = [92, x])" using c by (auto simp: escape_char_def is_special_def)
    then show ?thesis by (intro exI [of _ 1]) auto
  next
    case False
    have "nat c div 16 < 16" "nat c mod 16 < 16" using False by auto
    moreover have "escape_char c = [92, 117, 48, 48, json_hex_char (nat c div 16), json_hex_char (nat c mod 16)]"
      using False c by (simp add: escape_char_def is_special_def)
    ultimately show ?thesis using hex_char_digit [of "nat c div 16"] hex_char_digit [of "nat c mod 16"]
      by (intro exI [of _ "Suc (Suc (Suc (Suc (Suc 0))))"]) simp
  qed
qed

lemma unescape_quoted: "list_all (\<lambda>c. 0 < c) s \<Longrightarrow> unescape (concat (map escape_char s) @ 34 # r) = Ok (s, 34 # r)"
  by (induction s) (simp_all add: unescape_escape)

lemma scan_len_quoted: "list_all (\<lambda>c. 0 < c) s \<Longrightarrow> \<exists>k\<ge>length s. scan_len n (concat (map escape_char s) @ 34 # r) = Ok (n + k)"
proof (induction s arbitrary: n)
  case (Cons c s)
  obtain k1 where k1: "k1 \<ge> 1" "scan_len n (escape_char c @ concat (map escape_char s) @ 34 # r) = scan_len (n + k1) (concat (map escape_char s) @ 34 # r)"
    using scan_len_escape Cons.prems by fastforce
  obtain k2 where "k2 \<ge> length s" "scan_len (n + k1) (concat (map escape_char s) @ 34 # r) = Ok (n + k1 + k2)"
    using Cons.IH [of "n + k1"] Cons.prems by auto
  with k1 show ?case by (intro exI [of _ "k1 + k2"]) auto
qed simp

lemma json_parse_string_quoted: "list_all (\<lambda>c. 0 < c) s \<Longrightarrow> json_parse_string (json_quoted s @ r) = Ok (Inr (s, r))"
  using unescape_quoted [of s r] scan_len_quoted [of s 0 r] by (auto simp: json_parse_string_def json_quoted_def c_at_def)

lemma skip_tabs [simp]: "skip (tabs d @ t) = skip t"
  by (simp add: skip_def tabs_def dropWhile_append3 flip: ) (induction d, auto)

lemma skip_white [simp]: "c \<le> 32 \<Longrightarrow> skip (c # t) = skip t"
  by (simp add: skip_def)

lemma skip_black [simp]: "32 < c \<Longrightarrow> skip (c # t) = c # t"
  by (simp add: skip_def)

lemma skip_quoted [simp]: "skip (json_quoted s @ t) = json_quoted s @ t"
  by (simp add: json_quoted_def)

lemma skip_jtext [simp]: "skip (jtext fmt d j @ t) = jtext fmt d j @ t"
  by (cases j) (simp_all add: codes_def)

lemma jtext_not_close: "c_at (jtext fmt d j @ t) 0 \<noteq> 93" "c_at (json_quoted s @ t) 0 = 34"
  by (cases j) (simp_all add: codes_def c_at_def json_quoted_def)

lemma parse_skip: "skip t' = skip t \<Longrightarrow> parse_items n t' = parse_items n t" "skip t' = skip t \<Longrightarrow> parse_members n t' = parse_members n t"
  by (cases n; simp)+

lemma then_parse_Inr [simp]: "then_parse (Ok (Inr (x, t))) f = f x t"
  by (simp add: then_parse_def)

text \<open>A value is read back in both layouts, with two steps for every character of its text.\<close>

definition reads_back :: "bool \<Rightarrow> nat \<Rightarrow> json \<Rightarrow> bool" where
  "reads_back fmt d j \<longleftrightarrow>
     (\<forall>n nm r. 2 * length (jtext fmt d j) \<le> n \<longrightarrow> parse_value n nm (jtext fmt d j @ r) = Ok (Inr (embed nm j, r)))"

lemma reads_backD: "reads_back fmt d j \<Longrightarrow> 2 * length (jtext fmt d j) \<le> n \<Longrightarrow> parse_value n nm (jtext fmt d j @ r) = Ok (Inr (embed nm j, r))"
  by (simp add: reads_back_def)

lemma parse_items_back:
  "js \<noteq> [] \<Longrightarrow> list_all (reads_back fmt d) js \<Longrightarrow> 2 * length (join_items fmt (map (jtext fmt d) js)) + 1 \<le> n \<Longrightarrow>
   parse_items n (join_items fmt (map (jtext fmt d) js) @ 93 # r) = Ok (Inr (map (embed None) js, r))"
proof (induction js arbitrary: n)
  case (Cons j js)
  obtain m where n: "n = Suc m" using Cons.prems(3) by (cases n) auto
  have rb: "reads_back fmt d j" using Cons.prems(2) by simp
  show ?case
  proof (cases "js = []")
    case True
    with n Cons.prems(3) rb show ?thesis by (simp add: reads_backD c_at_def)
  next
    case False
    define rest where "rest = join_items fmt (map (jtext fmt d) js) @ 93 # r"
    have tx: "join_items fmt (map (jtext fmt d) (j # js)) = jtext fmt d j @ 44 # (if fmt then [32] else []) @ join_items fmt (map (jtext fmt d) js)"
      using False by (cases js) simp_all
    have m: "2 * length (jtext fmt d j) \<le> m" "2 * length (join_items fmt (map (jtext fmt d) js)) + 1 \<le> m"
      using Cons.prems(3) n unfolding tx by (simp_all split: if_splits)
    have "parse_items m ((if fmt then [32] else []) @ rest) = parse_items m rest" by (intro parse_skip) simp
    also have "\<dots> = Ok (Inr (map (embed None) js, r))" unfolding rest_def using Cons.prems(2) m(2) False by (intro Cons.IH) simp_all
    finally show ?thesis unfolding tx using n rb m(1) by (simp add: reads_backD c_at_def rest_def)
  qed
qed simp

lemma parse_members_back:
  "ms \<noteq> [] \<Longrightarrow> list_all (\<lambda>(k, j). list_all (\<lambda>c. 0 < c) k \<and> reads_back fmt d j) ms \<Longrightarrow>
   2 * length (join_members fmt d (map (\<lambda>(k, j). (json_quoted k, jtext fmt d j)) ms)) + 1 \<le> n \<Longrightarrow>
   parse_members n (join_members fmt d (map (\<lambda>(k, j). (json_quoted k, jtext fmt d j)) ms) @ (if fmt then tabs d' else []) @ 125 # r) =
     Ok (Inr (map (\<lambda>(k, j). embed (Some k) j) ms, r))"
proof (induction ms arbitrary: n)
  case (Cons m ms)
  obtain k j where kj: "m = (k, j)" by (cases m)
  obtain i where n: "n = Suc i" using Cons.prems(3) by (cases n) auto
  have rb: "reads_back fmt d j" "list_all (\<lambda>c. 0 < c) k" using Cons.prems(2) kj by simp_all
  define joined where "joined = join_members fmt d (map (\<lambda>(k, j). (json_quoted k, jtext fmt d j)) ms)"
  define close where "close = (if fmt then tabs d' else []) @ 125 # r"
  have len: "2 * length (jtext fmt d j) \<le> i" using Cons.prems(3) n kj by simp
  have pv: "parse_value i (Some k) (jtext fmt d j @ t) = Ok (Inr (embed (Some k) j, t))" for t by (rule reads_backD [OF rb(1) len])
  have ps: "json_parse_string (json_quoted k @ t) = Ok (Inr (k, t))" for t by (rule json_parse_string_quoted [OF rb(2)])
  have sc: "skip close = 125 # r" by (simp add: close_def)
  show ?case
  proof (cases "ms = []")
    case True
    then show ?thesis using n kj ps pv sc by (cases fmt) (simp_all add: c_at_def flip: close_def)
  next
    case False
    have i: "2 * length joined + 1 \<le> i" using Cons.prems(3) n kj False by (simp add: joined_def split: if_splits)
    have "parse_members i ((if fmt then [10] else []) @ joined @ close) = parse_members i (joined @ close)" by (intro parse_skip) simp
    also have "\<dots> = Ok (Inr (map (\<lambda>(k, j). embed (Some k) j) ms, r))"
      unfolding joined_def close_def using Cons.prems(2) i False by (intro Cons.IH) (simp_all add: joined_def)
    finally show ?thesis using n kj ps pv False by (cases fmt) (simp_all add: c_at_def close_def joined_def)
  qed
qed simp

lemma parse_words:
  "parse_value (Suc n) nm (110 # 117 # 108 # 108 # r) = Ok (Inr (Node cJSON_NULL None None nm [], r))"
  "parse_value (Suc n) nm (102 # 97 # 108 # 115 # 101 # r) = Ok (Inr (Node cJSON_False None None nm [], r))"
  "parse_value (Suc n) nm (116 # 114 # 117 # 101 # r) = Ok (Inr (Node cJSON_True None None nm [], r))"
  by (simp_all add: codes_def)

lemma parse_open:
  "parse_value (Suc n) nm (34 # t) = then_parse (json_parse_string (34 # t)) (\<lambda>s r. Ok (Inr (Node cJSON_String (Some s) None nm [], r)))"
  "parse_value (Suc n) nm (91 # t) =
     (if c_at (skip t) 0 = 93 then Ok (Inr (Node cJSON_Array None None nm [], drop 1 (skip t)))
      else then_parse (parse_items n (skip t)) (\<lambda>cs r. Ok (Inr (Node cJSON_Array None None nm cs, r))))"
  "parse_value (Suc n) nm (123 # t) =
     (if c_at (skip t) 0 = 125 then Ok (Inr (Node cJSON_Object None None nm [], drop 1 (skip t)))
      else then_parse (parse_members n (skip t)) (\<lambda>cs r. Ok (Inr (Node cJSON_Object None None nm cs, r))))"
  by (simp_all add: codes_def c_at_def Let_def)

declare parse_value.simps(2) [simp del]

lemma skip_join: "js \<noteq> [] \<Longrightarrow> skip (join_items fmt (map (jtext fmt d) js) @ t) = join_items fmt (map (jtext fmt d) js) @ t \<and>
    c_at (join_items fmt (map (jtext fmt d) js) @ t) 0 \<noteq> 93"
proof -
  assume "js \<noteq> []"
  then obtain j js' where js: "js = j # js'" by (cases js) auto
  obtain u where "join_items fmt (map (jtext fmt d) js) = jtext fmt d j @ u" by (cases js') (use js in auto)
  then show ?thesis by (simp add: jtext_not_close)
qed

lemma reads_back_json: "good_json j \<Longrightarrow> reads_back fmt d j"
proof (induction j arbitrary: d)
  case JNull
  then show ?case unfolding reads_back_def
  proof (intro allI impI)
    fix n nm r assume "2 * length (jtext fmt d JNull) \<le> n"
    then show "parse_value n nm (jtext fmt d JNull @ r) = Ok (Inr (embed nm JNull, r))" by (cases n) (simp_all add: parse_words)
  qed
next
  case (JBool b)
  then show ?case unfolding reads_back_def
  proof (intro allI impI)
    fix n nm r assume "2 * length (jtext fmt d (JBool b)) \<le> n"
    then show "parse_value n nm (jtext fmt d (JBool b) @ r) = Ok (Inr (embed nm (JBool b), r))" by (cases n; cases b) (simp_all add: parse_words)
  qed
next
  case (JStr s)
  then show ?case unfolding reads_back_def
  proof (intro allI impI)
    fix n nm r assume "2 * length (jtext fmt d (JStr s)) \<le> n"
    then obtain m where "n = Suc m" by (cases n) (auto simp: json_quoted_def)
    then show "parse_value n nm (jtext fmt d (JStr s) @ r) = Ok (Inr (embed nm (JStr s), r))"
      using JStr json_parse_string_quoted [of s r] by (simp add: json_quoted_def parse_open)
  qed
next
  case (JArr js)
  have all: "list_all (reads_back fmt (d + 1)) js" using JArr by (auto simp: list_all_iff)
  show ?case unfolding reads_back_def
  proof (intro allI impI)
    fix n nm r assume n: "2 * length (jtext fmt d (JArr js)) \<le> n"
    then obtain m where m: "n = Suc m" by (cases n) auto
    show "parse_value n nm (jtext fmt d (JArr js) @ r) = Ok (Inr (embed nm (JArr js), r))"
    proof (cases "js = []")
      case False
      then show ?thesis using m n parse_items_back [OF False all, of m r] skip_join [OF False, of fmt "d + 1" "93 # r"]
        by (simp add: parse_open)
    qed (use m in \<open>simp add: parse_open c_at_def\<close>)
  qed
next
  case (JObj ms)
  have all: "list_all (\<lambda>(k, j). list_all (\<lambda>c. 0 < c) k \<and> reads_back fmt (d + 1) j) ms" using JObj by (fastforce simp: list_all_iff)
  show ?case unfolding reads_back_def
  proof (intro allI impI)
    fix n nm r assume n: "2 * length (jtext fmt d (JObj ms)) \<le> n"
    then obtain m where m: "n = Suc m" by (cases n) (auto split: if_splits)
    show "parse_value n nm (jtext fmt d (JObj ms) @ r) = Ok (Inr (embed nm (JObj ms), r))"
    proof (cases "ms = []")
      case True
      then show ?thesis using m by (cases fmt) (simp_all add: parse_open c_at_def)
    next
      case False
      define t where "t = join_members fmt (d + 1) (map (\<lambda>(k, j). (json_quoted k, jtext fmt (d + 1) j)) ms) @ (if fmt then tabs d else []) @ 125 # r"
      obtain k j ms' where ms: "ms = (k, j) # ms'" using False by (cases ms) auto
      have ct: "c_at (skip t) 0 = 34" using ms by (cases fmt) (simp_all add: t_def jtext_not_close)
      have "parse_members m (skip t) = parse_members m t" by (rule parse_skip(2)) (use ms in \<open>cases fmt; simp add: t_def\<close>)
      also have "\<dots> = Ok (Inr (map (\<lambda>(k, j). embed (Some k) j) ms, r))"
        unfolding t_def using m n False by (intro parse_members_back [OF False all]) (cases fmt; simp)
      finally show ?thesis using m ct False by (cases fmt) (simp_all add: parse_open t_def)
    qed
  qed
qed

lemma print_parse:
  assumes "good_json j"
  shows "\<exists>out. print_value pr fmt (embed None j) d = Ok (Some out) \<and> cJSON_Parse (out @ r) = Ok (Inr (embed None j, r))"
  using print_embed [OF assms] reads_backD [OF reads_back_json [OF assms], of fmt d "parse_fuel (jtext fmt d j @ r)" None r]
  by (simp add: cJSON_Parse_def cJSON_ParseWithOpts_def parse_fuel_def)

section \<open>Every text is read in bounded steps\<close>

lemma skip_length: "length (skip t) \<le> length t"
  by (simp add: skip_def length_dropWhile_le)

lemma then_parse_Inr_iff: "then_parse m f = Ok (Inr y) \<longleftrightarrow> (\<exists>x t. m = Ok (Inr (x, t)) \<and> f x t = Ok (Inr y))"
proof (cases m)
  case (Ok x)
  then show ?thesis by (cases x) (auto simp: then_parse_def)
qed (simp_all add: then_parse_def)

lemma then_parse_NoFuel_iff: "then_parse m f = NoFuel \<longleftrightarrow> m = NoFuel \<or> (\<exists>x t. m = Ok (Inr (x, t)) \<and> f x t = NoFuel)"
proof (cases m)
  case (Ok x)
  then show ?thesis by (cases x) (auto simp: then_parse_def)
qed (simp_all add: then_parse_def)

lemma bind_NoFuel_iff: "bind_outcome m f = NoFuel \<longleftrightarrow> m = NoFuel \<or> (\<exists>x. m = Ok x \<and> f x = NoFuel)"
  by (cases m) auto

lemma unescape_length: "unescape t = Ok (out, r) \<Longrightarrow> length r \<le> length t"
proof (induction t arbitrary: out r rule: unescape.induct)
  case (2 c cs)
  show ?case
  proof (cases "c = 34 \<or> c \<noteq> 92")
    case True
    with 2 show ?thesis by (fastforce simp: bind_outcome_Ok_iff split: if_splits)
  next
    case False
    with 2(4) obtain e u where cs: "cs = e # u" by (cases cs) auto
    show ?thesis
    proof (cases "e = 117")
      case True
      with 2(4) False cs obtain bs u' o' where u: "unicode_escape u = Ok (bs, u')" "unescape u' = Ok (o', r)" by (auto simp: bind_outcome_Ok_iff)
      with 2(2) False cs True have "length r \<le> length u'" by blast
      with unicode_escape_length [OF u(1)] have "length r \<le> length u" by linarith
      with cs show ?thesis by simp
    next
      case e: False
      with 2(4) False cs obtain o' where "unescape u = Ok (o', r)" by (auto simp: bind_outcome_Ok_iff)
      with 2(3) False cs e have "length r \<le> length u" by blast
      with cs show ?thesis by simp
    qed
  qed
qed simp

lemma unescape_fuel: "unescape t \<noteq> NoFuel"
proof (induction t rule: unescape.induct)
  case (2 c cs)
  have u: "unicode_escape r \<noteq> NoFuel" for r by (simp add: unicode_escape_def Let_def)
  show ?case using 2 u by (auto simp: bind_NoFuel_iff split: list.splits prod.splits)
qed simp

lemma scan_len_fuel: "scan_len n t \<noteq> NoFuel"
  by (induction n t rule: scan_len.induct) (auto split: list.splits)

lemma json_parse_string_length: "json_parse_string t = Ok (Inr (s, r)) \<Longrightarrow> length r < length t"
proof -
  assume p: "json_parse_string t = Ok (Inr (s, r))"
  then obtain t' where t: "t = 34 # t'" by (cases t) (auto simp: json_parse_string_def c_at_def split: if_splits)
  with p obtain out r' where u: "unescape t' = Ok (out, r')" "r = (if c_at r' 0 = 34 then drop 1 r' else r')"
    by (auto simp: json_parse_string_def c_at_def bind_outcome_Ok_iff split: if_splits)
  with unescape_length [OF u(1)] t show ?thesis by auto
qed

lemma json_parse_string_fuel: "json_parse_string t \<noteq> NoFuel"
  using unescape_fuel scan_len_fuel by (auto simp: json_parse_string_def bind_NoFuel_iff split: prod.splits)

lemma read_exponent_length: "read_exponent v t = Ok (w, r) \<Longrightarrow> length r \<le> length t"
  by (induction v t rule: read_exponent.induct) (fastforce split: if_splits)+

lemma read_exponent_fuel: "read_exponent v t \<noteq> NoFuel"
  by (induction v t rule: read_exponent.induct) auto

lemma parse_exponent_length: "parse_exponent t = Ok (w, r) \<Longrightarrow> length r \<le> length t"
  by (auto simp: parse_exponent_def Let_def bind_outcome_Ok_iff split: if_splits dest!: read_exponent_length)

lemma parse_exponent_fuel: "parse_exponent t \<noteq> NoFuel"
  using read_exponent_fuel by (auto simp: parse_exponent_def Let_def bind_NoFuel_iff split: prod.splits)

lemma parse_number_fuel: "parse_number nm t \<noteq> NoFuel"
  using parse_exponent_fuel unfolding parse_number_def Let_def by (auto simp: bind_NoFuel_iff simp del: split_paired_Ex split: prod.splits)

text \<open>A number takes at least the character it starts with.\<close>

lemma parse_number_length:
  assumes "c_at t 0 = 45 \<or> (48 \<le> c_at t 0 \<and> c_at t 0 \<le> 57)" "parse_number nm t = Ok (Inr (c, r))"
  shows "length r < length t"
proof -
  define t1 where "t1 = (if c_at t 0 = 45 then drop 1 t else t)"
  define t2 where "t2 = (if c_at t1 0 = 48 then drop 1 t1 else t1)"
  define whole where "whole = (if 49 \<le> c_at t2 0 \<and> c_at t2 0 \<le> 57 then takeWhile isdigit t2 else [])"
  define t3 where "t3 = drop (length whole) t2"
  define frac where "frac = (if c_at t3 0 = 46 \<and> isdigit (c_at t3 1) then takeWhile isdigit (drop 1 t3) else [])"
  define t4 where "t4 = (if frac = [] then t3 else drop (length frac + 1) t3)"
  have le: "length t1 \<le> length t" "length t2 \<le> length t1" "length t3 \<le> length t2" "length t4 \<le> length t3"
    by (simp add: t1_def, simp add: t2_def, simp add: t3_def, simp add: t4_def)
  have ne: "t \<noteq> []" using assms(1) by (auto simp: c_at_def)
  have "length t3 < length t"
  proof (cases "c_at t 0 = 45")
    case True
    then have "length t1 < length t" using ne by (simp add: t1_def)
    with le show ?thesis by linarith
  next
    case False
    then have t1: "t1 = t" by (simp add: t1_def)
    show ?thesis
    proof (cases "c_at t 0 = 48")
      case True
      then have "length t2 < length t1" using ne t1 by (simp add: t2_def)
      with le show ?thesis by linarith
    next
      case f: False
      then have t2: "t2 = t" using t1 by (simp add: t2_def)
      obtain d ds where d: "t = d # ds" "49 \<le> d" "d \<le> 57" using ne assms(1) False f by (cases t) (auto simp: c_at_def)
      then have "0 < length whole" using t2 by (simp add: whole_def c_at_def isdigit_def)
      then show ?thesis using ne t2 by (simp add: t3_def)
    qed
  qed
  moreover have "length r \<le> length t4"
  proof -
    have "\<exists>sub. parse_exponent t4 = Ok (sub, r)"
      using assms(2) unfolding parse_number_def Let_def t1_def [symmetric] t2_def [symmetric] whole_def [symmetric] t3_def [symmetric] frac_def [symmetric] t4_def [symmetric]
      by (auto simp: bind_outcome_Ok_iff)
    then show ?thesis by (auto dest: parse_exponent_length)
  qed
  ultimately show ?thesis using le by linarith
qed

lemma drop_word: "take k t = x # xs \<Longrightarrow> length (drop k t) < length t"
  by (cases k; cases t) auto

lemma drop_close: "c_at (skip (drop 1 t)) 0 \<noteq> 0 \<Longrightarrow> length (drop 1 (skip (drop 1 t))) < length t"
proof -
  assume "c_at (skip (drop 1 t)) 0 \<noteq> 0"
  then have "0 < length (skip (drop 1 t))" by (auto simp: c_at_def split: if_splits)
  with skip_length [of "drop 1 t"] show ?thesis unfolding length_drop by linarith
qed

lemma parse_value_length:
  assumes items: "\<And>t cs r. parse_items n t = Ok (Inr (cs, r)) \<Longrightarrow> length r < length t"
    and members: "\<And>t cs r. parse_members n t = Ok (Inr (cs, r)) \<Longrightarrow> length r < length t"
    and p: "parse_value (Suc n) nm t = Ok (Inr (c, r))"
  shows "length r < length t"
proof -
  have i: "parse_items n (skip (drop 1 t)) = Ok (Inr (cs, r)) \<Longrightarrow> length r < length t" for cs
    using items [of "skip (drop 1 t)" cs r] skip_length [of "drop 1 t"] by simp
  have m: "parse_members n (skip (drop 1 t)) = Ok (Inr (cs, r)) \<Longrightarrow> length r < length t" for cs
    using members [of "skip (drop 1 t)" cs r] skip_length [of "drop 1 t"] by simp
  show ?thesis using p unfolding parse_value.simps Let_def
    by (auto simp: then_parse_Inr_iff drop_word drop_close simp del: length_drop One_nat_def split: if_splits
        dest!: json_parse_string_length i m intro: parse_number_length)
qed

lemma parse_lengths:
  "parse_value n nm t = Ok (Inr (c, r)) \<Longrightarrow> length r < length t"
  "parse_items n t' = Ok (Inr (cs, r')) \<Longrightarrow> length r' < length t'"
  "parse_members n t'' = Ok (Inr (cs', r'')) \<Longrightarrow> length r'' < length t''"
proof (induction n arbitrary: nm t c r t' cs r' t'' cs' r'')
  case (Suc n)
  note IH = Suc.IH
  have d: "length (drop 1 (skip u)) \<le> length u" for u using skip_length [of u] by simp
  {
    case 1
    then show ?case by (rule parse_value_length [rotated 2]) (rule IH(2), assumption, rule IH(3), assumption)
  next
    case 2
    then obtain x u where v: "parse_value n None (skip t') = Ok (Inr (x, u))" by (auto simp: then_parse_Inr_iff)
    have u: "length u < length t'" using IH(1) [OF v] skip_length [of t'] by simp
    have e: "length r' \<le> length u"
      using 2 v d [of u] IH(2) [of "drop 1 (skip u)"] by (fastforce simp: then_parse_Inr_iff Let_def split: if_splits)
    with u show ?case by linarith
  next
    case 3
    then obtain s u where v: "json_parse_string (skip t') = Ok (Inr (s, u))" by (auto simp: then_parse_Inr_iff)
    have u: "length u < length t'" using json_parse_string_length [OF v] skip_length [of t'] by simp
    from 3 v obtain x w where w: "parse_value n (Some s) (skip (drop 1 (skip u))) = Ok (Inr (x, w))" by (auto simp: then_parse_Inr_iff Let_def split: if_splits)
    have wl: "length w < length u" using IH(1) [OF w] skip_length [of "drop 1 (skip u)"] d [of u] by linarith
    have e: "length r' \<le> length w"
      using 3 v w d [of w] IH(3) [of "drop 1 (skip w)"] by (fastforce simp: then_parse_Inr_iff Let_def split: if_splits)
    with u wl show ?case by linarith
  }
qed simp_all

lemma parse_fuel_enough:
  "2 * length t < n \<Longrightarrow> parse_value n nm t \<noteq> NoFuel"
  "2 * length t' + 1 < n \<Longrightarrow> parse_items n t' \<noteq> NoFuel"
  "2 * length t'' + 1 < n \<Longrightarrow> parse_members n t'' \<noteq> NoFuel"
proof (induction n arbitrary: nm t t' t'')
  case (Suc n)
  note IH = Suc.IH
  have d: "length (drop 1 (skip u)) \<le> length u" for u using skip_length [of u] by simp
  {
    case 1
    have "t = [] \<Longrightarrow> parse_value (Suc n) nm t \<noteq> NoFuel" by (simp add: parse_value.simps c_at_def codes_def)
    moreover have "t \<noteq> [] \<Longrightarrow> 2 * length (skip (drop 1 t)) + 1 < n" using 1 skip_length [of "drop 1 t"] by (cases t) simp_all
    ultimately show ?case using IH(2, 3) json_parse_string_fuel parse_number_fuel unfolding parse_value.simps Let_def
      by (cases "t = []") (auto simp: then_parse_NoFuel_iff)
  next
    case 2
    have a: "parse_value n None (skip t') \<noteq> NoFuel" using 2 skip_length [of t'] by (intro IH(1)) simp
    have b: "parse_items n (drop 1 (skip u)) \<noteq> NoFuel" if "parse_value n None (skip t') = Ok (Inr (x, u))" for x u
      using parse_lengths(1) [OF that] skip_length [of t'] d [of u] 2 by (intro IH(2)) linarith
    show ?case using a b by (auto simp: then_parse_NoFuel_iff Let_def)
  next
    case 3
    have b: "parse_value n (Some s) (skip (drop 1 (skip u))) \<noteq> NoFuel" if "json_parse_string (skip t') = Ok (Inr (s, u))" for s u
      using json_parse_string_length [OF that] skip_length [of t'] skip_length [of "drop 1 (skip u)"] d [of u] 3 by (intro IH(1)) linarith
    have c: "parse_members n (drop 1 (skip w)) \<noteq> NoFuel"
      if "json_parse_string (skip t') = Ok (Inr (s, u))" "parse_value n (Some s) (skip (drop 1 (skip u))) = Ok (Inr (x, w))" for s u x w
      using json_parse_string_length [OF that(1)] parse_lengths(1) [OF that(2)] skip_length [of t'] skip_length [of "drop 1 (skip u)"] d [of u] d [of w] 3
      by (intro IH(3)) linarith
    show ?case using b c json_parse_string_fuel by (auto simp: then_parse_NoFuel_iff Let_def)
  }
qed simp_all

lemma cJSON_Parse_total: "cJSON_Parse t \<noteq> NoFuel"
  using parse_fuel_enough(1) [of "skip t" "parse_fuel (skip t)" None]
  by (simp add: cJSON_Parse_def cJSON_ParseWithOpts_def then_parse_NoFuel_iff parse_fuel_def)

section \<open>The two layouts\<close>

text \<open>What \<^verbatim>\<open>cJSON_Minify\<close> makes of a piece of text, wherever it stands.\<close>

definition minifies :: "int list \<Rightarrow> int list \<Rightarrow> bool" where
  "minifies a b \<longleftrightarrow> (\<forall>t. cJSON_Minify (a @ t) = bind_outcome (cJSON_Minify t) (\<lambda>out. Ok (b @ out)))"

lemma bind_outcome_assoc: "bind_outcome (bind_outcome m f) g = bind_outcome m (\<lambda>x. bind_outcome (f x) g)"
  by (cases m) auto

lemma bind_outcome_Ok [simp]: "bind_outcome m Ok = m"
  by (cases m) auto

lemma minifies_Nil [intro, simp]: "minifies [] []"
  by (simp add: minifies_def)

lemma minifies_append [intro]: "minifies a b \<Longrightarrow> minifies c d \<Longrightarrow> minifies (a @ c) (b @ d)"
  by (simp add: minifies_def bind_outcome_assoc)

lemma minifies_white: "c \<in> {32, 9, 13, 10} \<Longrightarrow> minifies a b \<Longrightarrow> minifies (c # a) b"
  by (auto simp: minifies_def cJSON_Minify.simps)

lemma minifies_plain: "c \<notin> {32, 9, 13, 10, 47, 34} \<Longrightarrow> minifies a b \<Longrightarrow> minifies (c # a) (c # b)"
  by (auto simp: minifies_def cJSON_Minify.simps bind_outcome_assoc)

lemma minifies_tabs: "minifies (tabs d) []"
  by (induction d) (auto simp: tabs_def intro: minifies_white)

lemma string_literal_escape: "0 < c \<Longrightarrow> string_literal (escape_char c @ t) = bind_outcome (string_literal t) (\<lambda>(out, r). Ok (escape_char c @ out, r))"
proof -
  assume c: "0 < c"
  show ?thesis
  proof (cases "c \<ge> 32 \<or> is_special c")
    case True
    then have "(escape_char c = [c] \<and> c \<noteq> 34 \<and> c \<noteq> 92) \<or> (\<exists>x. escape_char c = [92, x])" using c by (auto simp: escape_char_def is_special_def)
    then show ?thesis by auto
  next
    case False
    have "nat c div 16 < 16" "nat c mod 16 < 16" using False by auto
    moreover have "escape_char c = [92, 117, 48, 48, json_hex_char (nat c div 16), json_hex_char (nat c mod 16)]"
      using False c by (simp add: escape_char_def is_special_def)
    ultimately show ?thesis using hex_char_digit [of "nat c div 16"] hex_char_digit [of "nat c mod 16"]
      by (cases "string_literal t") auto
  qed
qed

lemma string_literal_quoted:
  "list_all (\<lambda>c. 0 < c) s \<Longrightarrow> string_literal (concat (map escape_char s) @ 34 # t) = Ok (concat (map escape_char s) @ [34], t)"
  by (induction s) (simp_all add: string_literal_escape)

lemma minifies_quoted: "list_all (\<lambda>c. 0 < c) s \<Longrightarrow> minifies (json_quoted s) (json_quoted s)"
  by (simp add: minifies_def json_quoted_def cJSON_Minify.simps string_literal_quoted)

lemma minifies_items:
  "(\<And>j. j \<in> set js \<Longrightarrow> minifies (f j) (g j)) \<Longrightarrow> minifies (join_items True (map f js)) (join_items False (map g js))"
proof (induction js)
  case (Cons j js)
  show ?case
  proof (cases js)
    case Nil
    then show ?thesis using Cons.prems by simp
  next
    case (Cons k ks)
    have rest: "minifies (join_items True (map f js)) (join_items False (map g js))" using Cons.IH Cons.prems by simp
    have "minifies (f j @ 44 # 32 # join_items True (map f js)) (g j @ 44 # join_items False (map g js))"
      using Cons.prems rest by (intro minifies_append minifies_plain minifies_white) simp_all
    then show ?thesis by (simp add: Cons)
  qed
qed simp

lemma minifies_members:
  "(\<And>k j. (k, j) \<in> set ms \<Longrightarrow> list_all (\<lambda>c. 0 < c) k \<and> minifies (f j) (g j)) \<Longrightarrow>
   minifies (join_members True d (map (\<lambda>(k, j). (json_quoted k, f j)) ms)) (join_members False d (map (\<lambda>(k, j). (json_quoted k, g j)) ms))"
proof (induction ms)
  case (Cons m ms)
  obtain k j where m: "m = (k, j)" by (cases m)
  have kj: "list_all (\<lambda>c. 0 < c) k" "minifies (f j) (g j)" using Cons.prems [of k j] m by simp_all
  have rest: "minifies (join_members True d (map (\<lambda>(k, j). (json_quoted k, f j)) ms)) (join_members False d (map (\<lambda>(k, j). (json_quoted k, g j)) ms))"
    using Cons by auto
  have comma: "minifies (if ms = [] then [] else [44]) (if ms = [] then [] else [44])" by (auto intro: minifies_plain)
  have "minifies (tabs d @ json_quoted k @ 58 # 9 # f j @ (if ms = [] then [] else [44]) @ 10 # join_members True d (map (\<lambda>(k, j). (json_quoted k, f j)) ms))
      ([] @ json_quoted k @ 58 # g j @ (if ms = [] then [] else [44]) @ join_members False d (map (\<lambda>(k, j). (json_quoted k, g j)) ms))"
    using kj rest comma by (intro minifies_append minifies_plain minifies_white minifies_tabs minifies_quoted) simp_all
  then show ?case by (simp add: m)
qed simp

lemma minifies_json: "good_json j \<Longrightarrow> minifies (jtext True d j) (jtext False d j)"
proof (induction j arbitrary: d)
  case (JStr s)
  then show ?case by (simp add: minifies_quoted)
next
  case (JArr js)
  have "minifies (join_items True (map (jtext True (d + 1)) js)) (join_items False (map (jtext False (d + 1)) js))"
    using JArr by (intro minifies_items) (auto simp: list_all_iff)
  then show ?case by (auto intro!: minifies_plain minifies_append)
next
  case (JObj ms)
  have "minifies (join_members True (d + 1) (map (\<lambda>(k, j). (json_quoted k, jtext True (d + 1) j)) ms))
      (join_members False (d + 1) (map (\<lambda>(k, j). (json_quoted k, jtext False (d + 1) j)) ms))"
    using JObj by (intro minifies_members) (fastforce simp: list_all_iff)
  then have "minifies (123 # 10 # join_members True (d + 1) (map (\<lambda>(k, j). (json_quoted k, jtext True (d + 1) j)) ms) @ tabs d @ [125])
      (123 # join_members False (d + 1) (map (\<lambda>(k, j). (json_quoted k, jtext False (d + 1) j)) ms) @ [] @ [125])"
    by (intro minifies_plain minifies_white minifies_append minifies_tabs) simp_all
  moreover have "minifies (123 # 10 # tabs (d - 1) @ [125]) (123 # [] @ [125])"
    by (intro minifies_plain minifies_white minifies_append minifies_tabs) simp_all
  ultimately show ?case by simp
qed (auto intro!: minifies_plain)

lemma minify_print:
  assumes "good_json j"
  shows "\<exists>a b. cJSON_Print pr (embed None j) = Ok (Some a) \<and> cJSON_PrintUnformatted pr (embed None j) = Ok (Some b) \<and> cJSON_Minify a = Ok b"
  using print_embed [OF assms] minifies_json [OF assms, of 0]
  by (auto simp: cJSON_Print_def cJSON_PrintUnformatted_def minifies_def cJSON_Minify.simps(1) dest: spec [of _ "[]"])

section \<open>Reading past the text\<close>

text \<open>A short escape jumps over the quote and the NUL behind it, and so does a backslash at the end.\<close>

lemma short_escape_overruns: "cJSON_Parse [34, 92, 117, 49, 50, 34] = Fault" "cJSON_Parse [34, 97, 92] = Fault"
  by (simp_all add: cJSON_Parse_def cJSON_ParseWithOpts_def parse_fuel_def skip_def numeral_eq_Suc parse_value.simps c_at_def json_parse_string_def unicode_escape_def
      then_parse_def Let_def)

text \<open>The printer reads a missing name before it tests for it.\<close>

lemma unnamed_member_faults: "print_value pr fmt (cJSON_AddItemToArray cJSON_CreateObject (Some cJSON_CreateNull)) d = Fault"
  by (simp add: cJSON_AddItemToArray_def cJSON_CreateObject_def cJSON_CreateNull_def with_child_def print_string_ptr_def)

section \<open>Properties of the JSON library\<close>

text \<open>C3: A JSON value without numbers is printed, in either layout, within the memory taken for the text, and the parser reads the
  text back as the same items, all strings included.\<close>

theorem json_round_trip:
  assumes "good_json j"
  shows "\<exists>out. print_value pr fmt (embed None j) d = Ok (Some out) \<and> cJSON_Parse (out @ r) = Ok (Inr (embed None j, r))"
  by (rule print_parse [OF assms])

definition demo_json :: json where
  "demo_json = JObj [(codes ''a'', JArr [JNull, JBool True, JStr [34, 10, 1, 200]]), ([92], JObj [])]"

theorem json_round_trip_witness:
  "\<exists>out. print_value (\<lambda>_. []) True (embed None demo_json) 0 = Ok (Some out) \<and> cJSON_Parse (out @ []) = Ok (Inr (embed None demo_json, []))"
  by (rule json_round_trip) (simp add: demo_json_def)

text \<open>C17: Removing the white space of the text with layout gives the text without.\<close>

theorem minify_gives_unformatted:
  assumes "good_json j"
  shows "\<exists>a b. cJSON_Print pr (embed None j) = Ok (Some a) \<and> cJSON_PrintUnformatted pr (embed None j) = Ok (Some b) \<and> cJSON_Minify a = Ok b"
  by (rule minify_print [OF assms])

theorem minify_gives_unformatted_witness:
  "\<exists>a b. cJSON_Print (\<lambda>_. []) (embed None demo_json) = Ok (Some a) \<and> cJSON_PrintUnformatted (\<lambda>_. []) (embed None demo_json) = Ok (Some b) \<and> cJSON_Minify a = Ok b"
  by (rule minify_gives_unformatted) (simp add: demo_json_def)

text \<open>C18: The parser comes to an end on every text: twice as many steps as it has characters are enough.\<close>

theorem json_parse_ends: "cJSON_Parse t \<noteq> NoFuel"
  by (rule cJSON_Parse_total)

end
