(* ===== verification/Platform.thy ===== *)
theory Platform
  imports Http_Client Cjson_Text
begin

text \<open>
  The platform client (tools/network/http_client_cjson/platform.c and platform_json.c): base 64, the callbacks that read the answers of
  the platform, the requests, the download of a file and the main loop as a step relation. What is written in base 64 can be
  decoded. The size of a photo is an \<open>int\<close>, and so is the size of its request, which may overflow.
\<close>

section \<open>Base 64\<close>

definition Base64_EnCoding :: "int list" where
  "Base64_EnCoding = codes ''ABCDEFGHIJKLMNOPQRSTUVWXYZabcdefghijklmnopqrstuvwxyz0123456789+/''"

abbreviation b64 :: "int \<Rightarrow> int" where "b64 i \<equiv> Base64_EnCoding ! nat i"

text \<open>The four characters for three bytes, and the second one for a byte alone; the bytes are numbers below 256.\<close>

definition b64_1 :: "int \<Rightarrow> int" where "b64_1 p0 = b64 (and (drop_bit 2 p0) 0x3f)"
definition b64_2 :: "int \<Rightarrow> int \<Rightarrow> int" where "b64_2 p0 p1 = b64 (or (push_bit 4 (and p0 3)) (drop_bit 4 p1))"
definition b64_3 :: "int \<Rightarrow> int \<Rightarrow> int" where "b64_3 p1 p2 = b64 (or (push_bit 2 (and p1 0xF)) (drop_bit 6 p2))"
definition b64_4 :: "int \<Rightarrow> int" where "b64_4 p2 = b64 (and p2 0x3F)"
definition b64_end :: "int \<Rightarrow> int" where "b64_end p0 = b64 (push_bit 4 (and p0 3))"

text \<open>The loop over the input from a position of it, with the number of bytes that are left.\<close>

function base64_loop :: "int list \<Rightarrow> nat \<Rightarrow> int list outcome" where
  "base64_loop pt count =
     (if count = 0 then Ok []
      else
        bind_outcome (rd_char pt 0) (\<lambda>p0.
          if count > 2 then
            bind_outcome (rd_char pt 1) (\<lambda>p1. bind_outcome (rd_char pt 2) (\<lambda>p2.
            bind_outcome (base64_loop (drop 3 pt) (count - 3)) (\<lambda>out. Ok (b64_1 p0 # b64_2 p0 p1 # b64_3 p1 p2 # b64_4 p2 # out))))
          else if count = 1 then Ok [b64_1 p0, b64_end p0, 61, 61]
          else
            bind_outcome (rd_char pt 1) (\<lambda>p1. bind_outcome (rd_char pt 2) (\<lambda>p2.
              Ok [b64_1 p0, b64_2 p0 p1, b64_3 p1 p2, 61]))))"
  by auto

termination
  by (relation "measure snd") auto

declare base64_loop.simps [simp del]

text \<open>A negative count is counted up by the length of the text; the loop runs while the count is positive.\<close>

definition Base64Encode :: "int list \<Rightarrow> int \<Rightarrow> int list outcome" where
  "Base64Encode src count =
     bind_outcome (if count < 0 then bind_outcome (c_string src 0) (\<lambda>s. Ok (count + int (length s))) else Ok count) (\<lambda>c.
       base64_loop src (nat c))"

section \<open>Answers of the platform\<close>

abbreviation MAX_URL_LEN :: nat where "MAX_URL_LEN \<equiv> 128"
abbreviation MAX_DATA_LEN :: nat where "MAX_DATA_LEN \<equiv> 1024"

definition DEFAULT_AUTH_IP_ADDR :: "int list" where "DEFAULT_AUTH_IP_ADDR = codes ''112.74.199.152''"
abbreviation DEFAULT_AUTH_PORT :: int where "DEFAULT_AUTH_PORT \<equiv> 8888"
definition BASE_SN :: "int list" where "BASE_SN = codes ''1011411000014''"
definition HTTP_SERVER_IP :: "int list" where "HTTP_SERVER_IP = codes ''192.168.0.251''"

record platform_auth_response =
  a_result :: int
  dev_secret :: "int list"
  domain :: "int list"
  ip_addr :: "int list"
  a_port :: int

record platform_login_response =
  l_result :: int
  ap_state :: int
  token :: "int list"
  last_report_time :: "int list"
  curr_time :: "int list"

record UpgradeInfo =
  pfcode :: int
  filesize :: int
  upg_url :: "int list"
  version :: "int list"

text \<open>The callbacks end the text at the given size, which must be within the buffer, and read it as JSON.\<close>

definition callback_text :: "int list \<Rightarrow> nat \<Rightarrow> int list outcome" where
  "callback_text buf n = (if n < length buf \<and> n < 2 ^ 31 then Ok (takeWhile (\<lambda>c. c \<noteq> 0) (take n buf)) else Fault)"

definition string_item :: "cJSON \<Rightarrow> string \<Rightarrow> int list option" where
  "string_item json key = (case cJSON_GetObjectItem json (codes key) of None \<Rightarrow> None | Some c \<Rightarrow> valuestring c)"

definition callback_json :: "int list \<Rightarrow> nat \<Rightarrow> 'u \<Rightarrow> (cJSON \<Rightarrow> 'u) \<Rightarrow> (nat \<times> 'u) outcome" where
  "callback_json buf n fail f =
     bind_outcome (callback_text buf n) (\<lambda>s.
       if n = 0 then Ok (n, fail)
       else bind_outcome (cJSON_Parse s) (\<lambda>r. case r of Inl _ \<Rightarrow> Ok (n, fail) | Inr (json, _) \<Rightarrow> Ok (n, f json)))"

definition auth_fields :: "platform_auth_response \<Rightarrow> cJSON \<Rightarrow> platform_auth_response" where
  "auth_fields r0 json =
     (case string_item json ''success'' of None \<Rightarrow> r0 | Some code \<Rightarrow>
      if atoi code \<noteq> 10000 then r0 else
      case string_item json ''devsecret'' of None \<Rightarrow> r0 | Some v1 \<Rightarrow>
      let r1 = r0\<lparr>dev_secret := take 31 v1\<rparr> in
      case string_item json ''url'' of None \<Rightarrow> r1 | Some v2 \<Rightarrow>
      let r2 = r1\<lparr>domain := take 31 v2\<rparr> in
      case string_item json ''ip'' of None \<Rightarrow> r2 | Some v3 \<Rightarrow>
      let r3 = r2\<lparr>ip_addr := take 15 v3\<rparr> in
      case string_item json ''port'' of None \<Rightarrow> r3 | Some v4 \<Rightarrow>
      let r4 = r3\<lparr>a_port := atoi v4\<rparr> in
      if a_port r4 \<le> 0 \<or> a_port r4 \<ge> 65535 then r4 else r4\<lparr>a_result := 0\<rparr>)"

definition platform_parse_auth :: "platform_auth_response write_callback" where
  "platform_parse_auth buf n resp =
     callback_json buf n (resp\<lparr>a_result := -1\<rparr>) (auth_fields (resp\<lparr>a_result := -1\<rparr>))"

definition login_fields :: "platform_login_response \<Rightarrow> cJSON \<Rightarrow> platform_login_response" where
  "login_fields r0 json =
     (case string_item json ''success'' of None \<Rightarrow> r0 | Some code \<Rightarrow>
      if atoi code \<noteq> 10000 then r0 else
      case string_item json ''state'' of None \<Rightarrow> r0 | Some v1 \<Rightarrow>
      let r1 = r0\<lparr>ap_state := atoi v1\<rparr> in
      case string_item json ''token'' of None \<Rightarrow> r1 | Some v2 \<Rightarrow>
      let r2 = r1\<lparr>token := take 63 v2\<rparr> in
      case string_item json ''lastReport'' of None \<Rightarrow> r2 | Some v3 \<Rightarrow>
      let r3 = r2\<lparr>last_report_time := take 31 v3\<rparr> in
      case string_item json ''currentTime'' of None \<Rightarrow> r3 | Some v4 \<Rightarrow>
      r3\<lparr>curr_time := take 31 v4, l_result := 0\<rparr>)"

definition platform_parse_longin :: "platform_login_response write_callback" where
  "platform_parse_longin buf n resp =
     callback_json buf n (resp\<lparr>l_result := -1\<rparr>) (login_fields (resp\<lparr>l_result := -1\<rparr>))"

definition success_field :: "cJSON \<Rightarrow> int" where
  "success_field json = (case string_item json ''success'' of None \<Rightarrow> -1 | Some code \<Rightarrow> if atoi code \<noteq> 10000 then -1 else 0)"

definition platform_parse_heartbeat :: "int write_callback" where
  "platform_parse_heartbeat buf n result = callback_json buf n (-1) success_field"

definition platform_parse_upload_photo :: "int write_callback" where
  "platform_parse_upload_photo buf n result = callback_json buf n (-1) success_field"

definition platform_parse_upgrade :: "UpgradeInfo write_callback" where
  "platform_parse_upgrade buf n u = Ok (n, u)"

section \<open>Requests to the platform\<close>

text \<open>Setting options one after the other; their results are not looked at. The flag is whether the URL can be copied.\<close>

fun setopt_all :: "bool \<Rightarrow> 'u MRJHTTPoption list \<Rightarrow> 'u SessionHandle option \<Rightarrow> 'u SessionHandle option outcome" where
  "setopt_all mem [] h = Ok h"
| "setopt_all mem (tag # tags) h = bind_outcome (http_client_setopt mem h tag) (\<lambda>(r, h'). setopt_all mem tags h')"

definition post_options :: "int list \<Rightarrow> int list \<Rightarrow> 'u write_callback \<Rightarrow> 'u \<Rightarrow> 'u MRJHTTPoption list" where
  "post_options url content func arg =
     [MRJOPT_URL (Some url), MRJOPT_POSTFIELDS (Some content), MRJOPT_WRITEFUNCTION (Some func), MRJOPT_WRITEDATA arg, MRJOPT_POST 1,
      MRJOPT_HTTP_VERSION MRJ_HTTP_VERSION_1_0, MRJOPT_TIMEOUT 30, MRJOPT_CONNECTTIMEOUT 10, MRJOPT_VERBOSE 1]"

text \<open>The result with the user's data; a session whose transfer failed is not cleaned up.\<close>

definition platform_post_data ::
    "int list \<Rightarrow> int list \<Rightarrow> 'u write_callback \<Rightarrow> 'u \<Rightarrow> io \<Rightarrow> (int \<times> 'u \<times> io) outcome" where
  "platform_post_data url content func arg io =
     bind_outcome (http_client_init arg io) (\<lambda>(handle, io1).
       if handle = None then Ok (-1, arg, io1)
       else
         bind_outcome (malloc_ok io1) (\<lambda>(m, io2).
         bind_outcome (setopt_all m (post_options url content func arg) handle) (\<lambda>handle1.
         bind_outcome (http_client_perform handle1 io2) (\<lambda>(res, handle2, io3).
           let arg' = (case handle2 of None \<Rightarrow> arg | Some data \<Rightarrow> event_args (set_opt data)) in
           if res \<noteq> MRJE_OK then Ok (-1, arg', io3)
           else Ok (0, arg', http_client_cleanup handle2 io3)))))"

definition get_options :: "int list \<Rightarrow> int \<Rightarrow> 'u write_callback \<Rightarrow> 'u \<Rightarrow> 'u MRJHTTPoption list" where
  "get_options url form func arg =
     [MRJOPT_URL (Some url), MRJOPT_WRITEFUNCTION (Some func), MRJOPT_WRITEDATA arg, MRJOPT_RESUME_FROM form, MRJOPT_TIMEOUT 600,
      MRJOPT_CONNECTTIMEOUT 30, MRJOPT_VERBOSE 1]"

definition platform_get_data ::
    "int list \<Rightarrow> int \<Rightarrow> 'u write_callback \<Rightarrow> 'u \<Rightarrow> io \<Rightarrow> (MRJEcode \<times> 'u \<times> io) outcome" where
  "platform_get_data url form func arg io =
     bind_outcome (http_client_init arg io) (\<lambda>(http, io1).
       if http = None then Ok (MRJE_FAILED_INIT, arg, io1)
       else
         bind_outcome (malloc_ok io1) (\<lambda>(m, io2).
         bind_outcome (setopt_all m (get_options url form func arg) http) (\<lambda>http1.
         bind_outcome (http_client_perform http1 io2) (\<lambda>(res, http2, io3).
           Ok (res, (case http2 of None \<Rightarrow> arg | Some data \<Rightarrow> event_args (set_opt data)), http_client_cleanup http2 io3)))))"

section \<open>Downloading a file\<close>

text \<open>
  The download with the file \<^verbatim>\<open>TEST.bin\<close> it writes: \<open>fp\<close> is whether the file is open, \<open>d_file\<close> what it holds and \<open>d_free\<close> how many bytes
  the disk still takes.
\<close>

record DownloadInfo =
  d_result :: int
  downsize :: int
  alreadysize :: int
  flushsize :: int
  fp :: bool
  d_file :: "int list"
  d_free :: nat

abbreviation MRJ_FLUSH_BLOCK :: int where "MRJ_FLUSH_BLOCK \<equiv> 2048"

text \<open>The old file, if there is one, the room on the disk and whether \<open>fopen\<close> succeeds; the result is 0 or -1 with the offset to start from.\<close>

definition platform_download_init :: "int list option \<Rightarrow> nat \<Rightarrow> bool \<Rightarrow> int \<Rightarrow> int \<times> DownloadInfo \<times> int" where
  "platform_download_init old free opens sz =
     (let info0 = \<lparr>d_result = -1, downsize = sz, alreadysize = 0, flushsize = 0, fp = False, d_file = (case old of None \<Rightarrow> [] | Some f \<Rightarrow> f), d_free = free\<rparr>
      in case old of
           Some f \<Rightarrow>
             if 0 < length f \<and> int (length f) < sz then
               if opens then (0, info0\<lparr>fp := True, alreadysize := int (length f)\<rparr>, int (length f)) else (-1, info0, 0)
             else if opens then (0, info0\<lparr>fp := True, d_file := []\<rparr>, 0)
             else (-1, info0, 0)
         | None \<Rightarrow> if opens then (0, info0\<lparr>fp := True, d_file := []\<rparr>, 0) else (-1, info0, 0))"

definition platform_parse_download :: "DownloadInfo write_callback" where
  "platform_parse_download buf n downInfo =
     (if \<not> fp downInfo then Ok (0, downInfo\<lparr>d_result := -1\<rparr>)
      else if n > length buf then Fault
      else
        let return_size = Orderings.min n (d_free downInfo);
            info1 = downInfo\<lparr>d_file := d_file downInfo @ take return_size buf, d_free := d_free downInfo - return_size\<rparr>
        in if return_size \<noteq> n then Ok (return_size, info1\<lparr>d_result := -1\<rparr>)
           else
             let info2 = info1\<lparr>alreadysize := alreadysize info1 + int return_size\<rparr>;
                 info3 = info2\<lparr>flushsize := (if flushsize info2 + int return_size \<ge> MRJ_FLUSH_BLOCK then 0 else flushsize info2 + int return_size)\<rparr>
             in if alreadysize info3 \<ge> downsize info3 then Ok (return_size, info3\<lparr>fp := False, d_result := 0\<rparr>)
                else Ok (return_size, info3))"

definition platform_download ::
    "int list option \<Rightarrow> nat \<Rightarrow> bool \<Rightarrow> int list \<Rightarrow> int \<Rightarrow> io \<Rightarrow> ((MRJEcode option) \<times> DownloadInfo \<times> io) outcome" where
  "platform_download old free opens url sz io =
     (let (ret, dinfo, start) = platform_download_init old free opens sz in
      if ret \<noteq> 0 then Ok (None, dinfo, io)
      else
        bind_outcome (platform_get_data url start platform_parse_download dinfo io) (\<lambda>(res, dinfo', io').
          Ok (Some res, dinfo', io')))"

section \<open>The device and the platform\<close>

text \<open>The address of an action of the platform, and what \<open>snprintf\<close> keeps of a text.\<close>

definition action_url :: "int list \<Rightarrow> int \<Rightarrow> string \<Rightarrow> int list" where
  "action_url ip p act = take (MAX_URL_LEN - 2) (codes ''http://'' @ ip @ 58 # fmt_d p @ codes ''/index.php?action='' @ codes act)"

definition zero_auth :: platform_auth_response where
  "zero_auth = \<lparr>a_result = 0, dev_secret = [], domain = [], ip_addr = [], a_port = 0\<rparr>"

definition zero_login :: platform_login_response where
  "zero_login = \<lparr>l_result = 0, ap_state = 0, token = [], last_report_time = [], curr_time = []\<rparr>"

definition platform_auth :: "io \<Rightarrow> (int \<times> platform_auth_response \<times> io) outcome" where
  "platform_auth io =
     bind_outcome
       (platform_post_data (action_url DEFAULT_AUTH_IP_ADDR DEFAULT_AUTH_PORT ''auth'')
          (take (MAX_DATA_LEN - 2) (codes ''imei='' @ BASE_SN @ codes ''&version='' @ codes ''1.5.0''))
          platform_parse_auth (zero_auth\<lparr>a_result := -1\<rparr>) io)
       (\<lambda>(ret, resp, io'). Ok (if ret = 0 \<and> a_result resp = 0 then 0 else -1, resp, io'))"

definition login_object :: cJSON where
  "login_object =
     foldl (\<lambda>root (k, v). cJSON_AddItemToObject root (codes k) (Some (cJSON_CreateString (codes v)))) cJSON_CreateObject
       [(''imei'', ''1011411000014''), (''ip'', ''192.168.8.101''), (''alias'', ''http_test_client''), (''version'', ''1.5.0''),
        (''model'', ''M1''), (''nettype'', ''wifi''), (''netname'', ''xiaozhou_tenda''), (''netpwd'', ''xiaozhou@biz'')]"

definition create_login_json_string :: "(jnum option \<Rightarrow> int list) \<Rightarrow> int list option outcome" where
  "create_login_json_string pr = cJSON_Print pr login_object"

text \<open>\<^verbatim>\<open>platform_login\<close> works on the two answers kept in global variables.\<close>

definition platform_login ::
    "(jnum option \<Rightarrow> int list) \<Rightarrow> platform_auth_response \<Rightarrow> platform_login_response \<Rightarrow> io \<Rightarrow> (int \<times> platform_login_response \<times> io) outcome" where
  "platform_login pr auth login io =
     bind_outcome (create_login_json_string pr) (\<lambda>js. case js of
         None \<Rightarrow> Ok (-1, login, io)
       | Some s \<Rightarrow>
           bind_outcome
             (platform_post_data (action_url (ip_addr auth) (a_port auth) ''login'') (take (MAX_DATA_LEN - 2) (codes ''data='' @ s))
                platform_parse_longin (zero_login\<lparr>l_result := -1\<rparr>) io)
             (\<lambda>(ret, resp, io'). Ok (if ret = 0 \<and> l_result resp = 0 then 0 else -1, resp, io')))"

definition platform_heartbeat :: "platform_auth_response \<Rightarrow> platform_login_response \<Rightarrow> io \<Rightarrow> (int \<times> io) outcome" where
  "platform_heartbeat auth login io =
     bind_outcome
       (platform_post_data (action_url (ip_addr auth) (a_port auth) ''heart'')
          (take (MAX_DATA_LEN - 2) (codes ''imei='' @ BASE_SN @ codes ''&token='' @ token login)) platform_parse_heartbeat (-1) io)
       (\<lambda>(ret, result, io'). Ok (if ret = 0 \<and> result = 0 then 0 else -1, io'))"

definition CopyFileToBuf :: "int \<Rightarrow> int list option \<Rightarrow> int \<times> int list" where
  "CopyFileToBuf n file =
     (if n > 0 then
        case file of
          None \<Rightarrow> (-1, replicate (nat n) 0)
        | Some c \<Rightarrow> (if length (take (nat n) c) = nat n then 0 else -1, take (nat n) c @ replicate (nat n - length c) 0)
      else (-1, replicate (nat n) 0))"

text \<open>The request with a photo: the parameters and the photo in base 64, written into memory of a size computed before.\<close>

definition photo_param :: "platform_login_response \<Rightarrow> int list" where
  "photo_param login = take (MAX_URL_LEN - 2) (codes ''imei='' @ BASE_SN @ codes ''&token='' @ token login @ codes ''&sort='' @ fmt_d 1 @ codes ''&data='')"

text \<open>The sizes are of type \<open>int\<close>: \<^verbatim>\<open>st_size\<close> is converted to one, and a sum that does not fit it is a fault.\<close>

definition photo_base64_size :: "int \<Rightarrow> nat outcome" where
  "photo_base64_size photo_size =
     (let base64_size = photo_size + photo_size div 2 + int MAX_URL_LEN in if base64_size < 2 ^ 31 then Ok (nat base64_size) else Fault)"

definition photo_request :: "platform_login_response \<Rightarrow> int list \<Rightarrow> int \<Rightarrow> nat \<Rightarrow> int list outcome" where
  "photo_request login photo_buff photo_size base64_size =
     bind_outcome (Base64Encode photo_buff photo_size) (\<lambda>out. into base64_size (photo_param login @ out))"

definition platform_upload_photo ::
    "int list option \<Rightarrow> platform_auth_response \<Rightarrow> platform_login_response \<Rightarrow> io \<Rightarrow> (int \<times> io) outcome" where
  "platform_upload_photo photo auth login io =
     (case photo of
        None \<Rightarrow> Ok (-1, io)
      | Some content \<Rightarrow>
          if length content = 0 then Ok (-1, io)
          else
            bind_outcome (malloc_ok io) (\<lambda>(m1, io1).
              if \<not> m1 then Ok (-1, io1)
              else
                let photo_size = to_s32 (int (length content));
                    (r, photo_buff) = CopyFileToBuf photo_size photo
                in if r \<noteq> 0 then Ok (-1, io1)
                else
                  bind_outcome (photo_base64_size photo_size) (\<lambda>base64_size.
                  bind_outcome (malloc_ok io1) (\<lambda>(m2, io2).
                    if \<not> m2 then Ok (-1, io2)
                    else
                      bind_outcome (photo_request login photo_buff photo_size base64_size) (\<lambda>req.
                      bind_outcome (platform_post_data (action_url (ip_addr auth) (a_port auth) ''upload'') req platform_parse_upload_photo (-1) io2)
                        (\<lambda>(ret, result, io'). Ok (if ret = 0 \<and> result = 0 then 0 else -1, io')))))))"

definition platform_upgrade :: "UpgradeInfo \<Rightarrow> io \<Rightarrow> (int \<times> UpgradeInfo \<times> io) outcome" where
  "platform_upgrade infop io =
     platform_post_data (take 126 (codes ''http://'' @ HTTP_SERVER_IP @ codes ''/index.php?action=upgrade''))
       (take 254 (codes ''data='' @ codes ''111'')) platform_parse_upgrade infop io"

text \<open>\<^verbatim>\<open>platform_device_upgrade\<close>: a number of its own, or the result of the download.\<close>

definition platform_device_upgrade ::
    "int list option \<Rightarrow> nat \<Rightarrow> bool \<Rightarrow> io \<Rightarrow> ((int + MRJEcode option) \<times> io) outcome" where
  "platform_device_upgrade old free opens io =
     bind_outcome (platform_upgrade \<lparr>pfcode = -1, filesize = 0, upg_url = [], version = []\<rparr> io) (\<lambda>(ret, upg, io1).
       if ret \<noteq> 0 then Ok (Inl ret, io1)
       else if pfcode upg \<noteq> 0 then if pfcode upg = 1 then Ok (Inl 0, io1) else Ok (Inl (-1), io1)
       else
         bind_outcome (platform_download old free opens (upg_url upg) (filesize upg) io1) (\<lambda>(r, dinfo, io2). Ok (Inr r, io2)))"

section \<open>The main loop\<close>

text \<open>The variables of \<^verbatim>\<open>main\<close> with the global variables, and what an iteration does, with the results.\<close>

record pf_state =
  g_auth_response :: platform_auth_response
  g_login_response :: platform_login_response
  g_exit_flag :: int
  auth_flag :: int
  login_flag :: int
  count :: nat

datatype action = Auth int | Login int | Heartbeat int | Upload int

definition do_auth :: "pf_state \<Rightarrow> io \<Rightarrow> (pf_state \<times> action list \<times> io) outcome" where
  "do_auth s io =
     (if auth_flag s = 0 then
        bind_outcome (platform_auth io) (\<lambda>(ret, resp, io1).
          Ok (s\<lparr>g_auth_response := resp, auth_flag := (if ret = 0 then 1 else 0)\<rparr>, [Auth ret], io1))
      else Ok (s, [], io))"

definition do_login :: "(jnum option \<Rightarrow> int list) \<Rightarrow> pf_state \<Rightarrow> io \<Rightarrow> (pf_state \<times> action list \<times> io) outcome" where
  "do_login pr s io =
     (if auth_flag s = 1 \<and> login_flag s = 0 then
        bind_outcome (platform_login pr (g_auth_response s) (g_login_response s) io) (\<lambda>(ret, resp, io1).
          Ok (s\<lparr>g_login_response := resp, login_flag := (if ret = 0 then 1 else 0)\<rparr>, [Login ret], io1))
      else Ok (s, [], io))"

definition do_report :: "int list option \<Rightarrow> pf_state \<Rightarrow> io \<Rightarrow> (pf_state \<times> action list \<times> io) outcome" where
  "do_report photo s io =
     (if auth_flag s = 1 \<and> login_flag s = 1 then
        if count s mod 2 = 0 then
          bind_outcome (platform_heartbeat (g_auth_response s) (g_login_response s) io) (\<lambda>(ret, io1). Ok (s, [Heartbeat ret], io1))
        else
          bind_outcome (platform_upload_photo photo (g_auth_response s) (g_login_response s) io) (\<lambda>(ret, io1). Ok (s, [Upload ret], io1))
      else Ok (s, [], io))"

definition main_body ::
    "(jnum option \<Rightarrow> int list) \<Rightarrow> int list option \<Rightarrow> pf_state \<Rightarrow> io \<Rightarrow> (pf_state \<times> action list \<times> io) outcome" where
  "main_body pr photo s io =
     bind_outcome (do_auth (s\<lparr>count := count s + 1\<rparr>) io) (\<lambda>(s1, a1, io1).
     bind_outcome (do_login pr s1 io1) (\<lambda>(s2, a2, io2).
     bind_outcome (do_report photo s2 io2) (\<lambda>(s3, a3, io3). Ok (s3, a1 @ a2 @ a3, io3))))"

definition main_init :: pf_state where
  "main_init =
     \<lparr>g_auth_response = zero_auth, g_login_response = zero_login, g_exit_flag = 0, auth_flag = 0, login_flag = 0, count = 0\<rparr>"

definition quit :: "pf_state \<Rightarrow> pf_state" where
  "quit s = s\<lparr>g_exit_flag := 1\<rparr>"

text \<open>Steps of the program: an iteration of the loop in any environment, or the signal handler.\<close>

inductive main_step :: "pf_state \<Rightarrow> action list \<Rightarrow> pf_state \<Rightarrow> bool" where
  iterate: "g_exit_flag s \<noteq> 1 \<Longrightarrow> main_body pr photo s io = Ok (s', acts, io') \<Longrightarrow> main_step s acts s'"
| signal: "main_step s [] (quit s)"

inductive main_run :: "pf_state \<Rightarrow> action list \<Rightarrow> bool" where
  start: "main_run main_init []"
| step: "main_run s tr \<Longrightarrow> main_step s acts s' \<Longrightarrow> main_run s' (tr @ acts)"

inductive_cases main_step_elim: "main_step s acts s'"

section \<open>Base 64 can be decoded\<close>

text \<open>Three bytes as four groups of six bits.\<close>

lemma or_shift: "0 \<le> b \<Longrightarrow> b < 2 ^ n \<Longrightarrow> or (push_bit n a) b = 2 ^ n * a + (b :: int)"
proof -
  assume b: "0 \<le> b" "b < 2 ^ n"
  have "push_bit n a + b = or (push_bit n a) b"
  proof (rule disjunctive_add)
    fix k
    have "bit b k \<Longrightarrow> k < n" using b by (metis bit_take_bit_iff take_bit_int_eq_self)
    then show "\<not> bit (push_bit n a) k \<or> \<not> bit b k" by (auto simp: bit_push_bit_iff)
  qed
  then have "or (push_bit n a) b = push_bit n a + b" by simp
  also have "\<dots> = 2 ^ n * a + b" by (simp add: push_bit_eq_mult)
  finally show ?thesis .
qed

definition is_byte :: "int \<Rightarrow> bool" where
  "is_byte c \<longleftrightarrow> 0 \<le> c \<and> c < 256"

lemma and_masks: "and (x :: int) 0x3f = x mod 64" "and (x :: int) 3 = x mod 4" "and (x :: int) 0xF = x mod 16"
proof -
  have m: "(0x3f :: int) = mask 6" "(3 :: int) = mask 2" "(0xF :: int) = mask 4" by (simp_all add: mask_eq_exp_minus_1)
  show "and x 0x3f = x mod 64" unfolding m(1) take_bit_eq_mask [symmetric] by (simp add: take_bit_eq_mod)
  show "and x 3 = x mod 4" unfolding m(2) take_bit_eq_mask [symmetric] by (simp add: take_bit_eq_mod)
  show "and x 0xF = x mod 16" unfolding m(3) take_bit_eq_mask [symmetric] by (simp add: take_bit_eq_mod)
qed

lemma sextets:
  assumes "is_byte a" "is_byte b" "is_byte c"
  shows "and (drop_bit 2 a) 0x3f = a div 4" "or (push_bit 4 (and a 3)) (drop_bit 4 b) = 16 * (a mod 4) + b div 16"
    "or (push_bit 2 (and b 0xF)) (drop_bit 6 c) = 4 * (b mod 16) + c div 64" "and c 0x3F = c mod 64" "push_bit 4 (and a 3) = 16 * (a mod 4)"
proof -
  have r: "0 \<le> b div 16" "b div 16 < 2 ^ 4" "0 \<le> c div 64" "c div 64 < 2 ^ 2" "a div 4 < 64" "0 \<le> a div 4" using assms by (auto simp: is_byte_def)
  show "and (drop_bit 2 a) 0x3f = a div 4" using r by (simp add: and_masks drop_bit_eq_div)
  show "or (push_bit 4 (and a 3)) (drop_bit 4 b) = 16 * (a mod 4) + b div 16" unfolding and_masks drop_bit_eq_div using or_shift [of "b div 16" 4 "a mod 4"] r by simp
  show "or (push_bit 2 (and b 0xF)) (drop_bit 6 c) = 4 * (b mod 16) + c div 64" unfolding and_masks drop_bit_eq_div using or_shift [of "c div 64" 2 "b mod 16"] r by simp
  show "and c 0x3F = c mod 64" by (rule and_masks)
  show "push_bit 4 (and a 3) = 16 * (a mod 4)" by (simp add: and_masks push_bit_eq_mult)
qed

lemma split_sum: "0 \<le> y \<Longrightarrow> y < k \<Longrightarrow> (k * x + y) div k = x \<and> (k * x + y) mod k = (y :: int)"
  by simp

text \<open>A decoder as a reference: the place of a character in the alphabet, and four characters as up to three bytes.\<close>

definition b64_value :: "int \<Rightarrow> int" where
  "b64_value c =
     (if 65 \<le> c \<and> c \<le> 90 then c - 65 else if 97 \<le> c \<and> c \<le> 122 then c - 71 else if 48 \<le> c \<and> c \<le> 57 then c + 4 else if c = 43 then 62 else 63)"

fun b64_decode :: "int list \<Rightarrow> int list" where
  "b64_decode (c1 # c2 # c3 # c4 # cs) =
     (let v1 = b64_value c1; v2 = b64_value c2; v3 = b64_value c3; v4 = b64_value c4 in
      if c3 = 61 then [v1 * 4 + v2 div 16]
      else if c4 = 61 then [v1 * 4 + v2 div 16, (v2 mod 16) * 16 + v3 div 4]
      else (v1 * 4 + v2 div 16) # ((v2 mod 16) * 16 + v3 div 4) # ((v3 mod 4) * 64 + v4) # b64_decode cs)"
| "b64_decode _ = []"

declare b64_decode.simps [simp del]

lemma alphabet: "list_all (\<lambda>i. b64_value (Base64_EnCoding ! i) = int i \<and> Base64_EnCoding ! i \<noteq> 61) [0..<64]"
  by code_simp

lemma b64_value_char: "0 \<le> i \<Longrightarrow> i < 64 \<Longrightarrow> b64_value (b64 i) = i \<and> b64 i \<noteq> 61"
  using alphabet by (auto simp: list_all_iff)

lemma b64_chars:
  assumes "is_byte a" "is_byte b" "is_byte c"
  shows "b64_1 a = b64 (a div 4)" "b64_2 a b = b64 (16 * (a mod 4) + b div 16)" "b64_3 b c = b64 (4 * (b mod 16) + c div 64)" "b64_4 c = b64 (c mod 64)"
    "b64_end a = b64 (16 * (a mod 4))"
  by (simp_all only: b64_1_def b64_2_def b64_3_def b64_4_def b64_end_def sextets(1-4) [OF assms]) (simp only: sextets(5) [OF assms])

lemma base64_group:
  "base64_loop (a # b # c # t) (length t + 3) =
     bind_outcome (base64_loop t (length t)) (\<lambda>out. Ok (b64_1 a # b64_2 a b # b64_3 b c # b64_4 c # out))"
  by (simp add: base64_loop.simps [of "a # b # c # t"] rd_char_def)

lemma decode_group:
  assumes "is_byte a" "is_byte b" "is_byte c"
  shows "b64_decode (b64_1 a # b64_2 a b # b64_3 b c # b64_4 c # cs) = a # b # c # b64_decode cs"
proof -
  have r: "0 \<le> a div 4" "a div 4 < 64" "0 \<le> b div 16" "b div 16 < 16" "0 \<le> c div 64" "c div 64 < 4" using assms by (auto simp: is_byte_def)
  have r2: "0 \<le> 16 * (a mod 4) + b div 16" "16 * (a mod 4) + b div 16 < 64" "0 \<le> 4 * (b mod 16) + c div 64" "4 * (b mod 16) + c div 64 < 64"
    using r pos_mod_bound [of 4 a] pos_mod_sign [of 4 a] pos_mod_bound [of 16 b] pos_mod_sign [of 16 b] by linarith+
  have r3: "0 \<le> c mod 64" "c mod 64 < 64" by simp_all
  note v1 = b64_value_char [OF r(1, 2)] and v2 = b64_value_char [OF r2(1, 2)] and v3 = b64_value_char [OF r2(3, 4)] and v4 = b64_value_char [OF r3]
  note v = v1 [THEN conjunct1] v2 [THEN conjunct1] v3 [THEN conjunct1] v4 [THEN conjunct1] v3 [THEN conjunct2] v4 [THEN conjunct2]
  note d = split_sum [OF r(3, 4), of "a mod 4"] split_sum [OF r(5, 6), of "b mod 16"]
  have "a div 4 * 4 + a mod 4 = a" "b mod 16 + b div 16 * 16 = b" "c div 64 * 64 + c mod 64 = c" by simp_all
  then show ?thesis unfolding b64_chars [OF assms] b64_decode.simps Let_def v d(1) [THEN conjunct1] d(1) [THEN conjunct2] d(2) [THEN conjunct1] d(2) [THEN conjunct2]
    using v(5, 6) by (simp add: add.commute)
qed

lemma base64_rest: "is_byte a \<Longrightarrow> \<exists>out. base64_loop (a # t) 1 = Ok out \<and> b64_decode out = [a] \<and> length out = 4"
proof -
  assume a: "is_byte a"
  have r: "0 \<le> a div 4" "a div 4 < 64" "0 \<le> 16 * (a mod 4)" "16 * (a mod 4) < 64" using a by (auto simp: is_byte_def)
  note v = b64_value_char [OF r(1, 2), THEN conjunct1] b64_value_char [OF r(3, 4), THEN conjunct1]
  have "base64_loop (a # t) 1 = Ok [b64_1 a, b64_end a, 61, 61]" by (simp add: base64_loop.simps [of "a # t"] rd_char_def)
  moreover have "b64_decode [b64_1 a, b64_end a, 61, 61] = [a]" unfolding b64_chars [OF a a a] b64_decode.simps Let_def v by simp
  ultimately show ?thesis by simp
qed

lemma base64_decodes:
  "list_all is_byte src \<Longrightarrow> length src mod 3 \<noteq> 2 \<Longrightarrow>
   \<exists>out. base64_loop src (length src) = Ok out \<and> b64_decode out = src \<and> length out = 4 * ((length src + 2) div 3)"
proof (induction src rule: length_induct)
  case (1 src)
  consider "src = []" | a where "src = [a]" | a b where "src = [a, b]" | a b c where "src = [a, b, c]" | a b c d t where "src = a # b # c # d # t"
    by (cases src rule: b64_decode.cases) auto
  then show ?case
  proof cases
    case (5 a b c d t)
    have "length (d # t) mod 3 \<noteq> 2" using "1.prems"(2) 5 by (simp add: mod_Suc split: if_splits)
    then obtain out where out: "base64_loop (d # t) (length (d # t)) = Ok out" "b64_decode out = d # t" "length out = 4 * ((length (d # t) + 2) div 3)"
      using "1.IH" [rule_format, of "d # t"] "1.prems"(1) 5 by auto
    have abc: "is_byte a" "is_byte b" "is_byte c" using "1.prems"(1) 5 by simp_all
    have len: "length src = length (d # t) + 3" "(length src + 2) div 3 = (length (d # t) + 2) div 3 + 1" using 5 by simp_all
    have "base64_loop src (length src) = Ok (b64_1 a # b64_2 a b # b64_3 b c # b64_4 c # out)" unfolding len(1) using base64_group [of a b c "d # t"] out(1) 5 by simp
    then show ?thesis unfolding len(2) using decode_group [OF abc, of out] out(2, 3) 5 by simp
  next
    case 1
    then show ?thesis by (simp add: base64_loop.simps b64_decode.simps)
  next
    case (2 a)
    then show ?thesis using base64_rest [of a "[]"] "1.prems"(1) by simp
  next
    case (3 a b)
    then show ?thesis using "1.prems"(2) by simp
  next
    case (4 a b c)
    have abc: "is_byte a" "is_byte b" "is_byte c" using "1.prems"(1) 4 by simp_all
    have "base64_loop [] 0 = Ok []" by (simp add: base64_loop.simps)
    then have "base64_loop [a, b, c] 3 = Ok [b64_1 a, b64_2 a b, b64_3 b c, b64_4 c]" using base64_group [of a b c "[]"] by simp
    moreover have "length src = 3" using 4 by simp
    ultimately have "base64_loop src (length src) = Ok [b64_1 a, b64_2 a b, b64_3 b c, b64_4 c]" using 4 by metis
    then show ?thesis using decode_group [OF abc, of "[]"] 4 by (simp add: b64_decode.simps(2))
  qed
qed

text \<open>With two bytes left the third one behind the end of the input is read.\<close>

lemma base64_reads_behind: "length src mod 3 = 2 \<Longrightarrow> base64_loop src (length src) = Fault"
proof (induction src rule: length_induct)
  case (1 src)
  show ?case
  proof (cases "length src = 2")
    case True
    then obtain a b where "src = [a, b]" by (metis (no_types, lifting) One_nat_def Suc_1 Suc_length_conv length_0_conv)
    then show ?thesis by (simp add: base64_loop.simps rd_char_def)
  next
    case False
    with "1.prems" have "length src > 2" by presburger
    then obtain a b c t where src: "src = a # b # c # t" by (cases src rule: b64_decode.cases) auto
    have "length t mod 3 = 2" using "1.prems" by (simp add: src mod_Suc split: if_splits)
    then have "base64_loop t (length t) = Fault" using "1.IH" [rule_format, of t] by (simp add: src)
    then have "base64_loop (a # b # c # t) (length t + 3) = Fault" by (simp only: base64_group bind_outcome.simps)
    moreover have "length src = length t + 3" by (simp add: src)
    ultimately show ?thesis by (metis src)
  qed
qed

end
