(* ===== verification/Platform_Run.thy ===== *)
theory Platform_Run
  imports Platform
begin

text \<open>
  What the platform client does: the contract of callbacks that keep a condition on the user's data (locale \<open>kept_by_callback\<close>) and its
  interpretations, the order of the requests in every run, the answer of the platform as the device keeps it, and the downloaded
  file, where the callback meets the contract \<open>write_sink\<close> of the HTTP client.
\<close>

section \<open>What a transfer does to the user's data\<close>

text \<open>Only the callback changes the user's data: what holds of it and is kept by the callback holds after a transfer.\<close>

definition user_ok :: "'u write_callback \<Rightarrow> ('u \<Rightarrow> bool) \<Rightarrow> 'u SessionHandle \<Rightarrow> bool" where
  "user_ok f P data \<longleftrightarrow> fwrite_func (set_opt data) = Some f \<and> P (event_args (set_opt data))"

lemma user_ok_set_opt: "set_opt d = set_opt d' \<Longrightarrow> user_ok f P d = user_ok f P d'"
  by (simp add: user_ok_def)

lemma copy_set_opt: "copy_host h d = Ok d' \<Longrightarrow> set_opt d' = set_opt d" "copy_path q d = Ok d' \<Longrightarrow> set_opt d' = set_opt d"
  by (auto simp: copy_host_def copy_path_def split: if_splits)

lemma url_finish_set_opt: "url_finish q d = Ok (r, d') \<Longrightarrow> set_opt d' = set_opt d"
  by (auto simp: url_finish_def bind_outcome_Ok_iff dest: copy_set_opt)

lemma url_web_set_opt: "url_web t d = Ok (r, d') \<Longrightarrow> set_opt d' = set_opt d"
  by (auto simp: url_web_def bind_outcome_Ok_iff split: option.splits if_splits dest!: copy_set_opt url_finish_set_opt)

lemma url_rest_set_opt: "url_rest t d = Ok (r, d') \<Longrightarrow> set_opt d' = set_opt d"
  by (auto simp: url_rest_def Let_def bind_outcome_Ok_iff split: option.splits if_splits dest!: copy_set_opt url_finish_set_opt url_web_set_opt)

lemma load_url_set_opt: "http_load_url d = Ok (r, d') \<Longrightarrow> set_opt d' = set_opt d"
  by (auto simp: http_load_url_def parse_url_def bind_outcome_Ok_iff split: if_splits option.splits dest!: url_rest_set_opt)

lemma recv_loop_set_opt: "http_recv_loop bef flag over ch d inp ts = Ok (r, d', rest, ts') \<Longrightarrow> set_opt d' = set_opt d"
proof (induction ts arbitrary: over ch d inp)
  case (Cons t ts)
  then show ?case by (auto simp: Let_def split: if_splits dest!: Cons.IH)
qed simp

lemma recv_data_set_opt: "recv_data d flag io = Ok (r, d', io') \<Longrightarrow> set_opt d' = set_opt d"
  by (auto simp: recv_data_def bind_outcome_Ok_iff dest: recv_loop_set_opt)

lemma connect_host_set_opt: "connect_host d io = Ok (r, d', io') \<Longrightarrow> set_opt d' = set_opt d"
  by (auto simp: connect_host_def open_socket_def bind_outcome_Ok_iff split: if_splits list.splits)

lemma parse_response_user: "user_ok f P d \<Longrightarrow> ensures (\<lambda>(r, d'). user_ok f P d') (parse_response m d)"
  unfolding parse_response_def Let_def
  by (intro ensures_bind_any) (auto split: option.split simp: user_ok_def intro!: ensures_bind_any)

lemma hcmd_parse_user: "user_ok f P d \<Longrightarrow> ensures (\<lambda>(r, d', io'). user_ok f P d') (hcmd_parse d io)"
  unfolding hcmd_parse_def
proof (rule ensures_bind_any, rule ensures_bind_any)
  fix pe and x :: "bool \<times> io"
  assume u: "user_ok f P d"
  obtain m io1 where x: "x = (m, io1)" by (cases x)
  show "ensures (\<lambda>(r, d', io'). user_ok f P d') (case x of (m, io1) \<Rightarrow> bind_outcome (parse_response m d) (\<lambda>(res, data1).
      if res \<noteq> MRJE_OK then Ok (res, data1, io1) else Ok (status_result (httpcode (info data1)), data1, io1)))"
    unfolding x prod.case by (rule ensures_bind [OF parse_response_user [OF u]]) auto
qed

lemma hcmd_receive_user: "user_ok f P d \<Longrightarrow> ensures (\<lambda>(r, d', io'). user_ok f P d') (hcmd_receive d io)"
proof -
  assume u: "user_ok f P d"
  have rd: "user_ok f P d1 \<Longrightarrow> ensures (\<lambda>(r, d', io'). user_ok f P d') (recv_data d1 k io1)" for d1 k io1
    using recv_data_set_opt [of d1 k io1] by (auto simp: ensures_iff user_ok_def)
  have sh: "user_ok f P d2 \<Longrightarrow> ensures (\<lambda>(r, d', io'). user_ok f P d') (bind_outcome (m :: (MRJEcode \<times> io) outcome) (\<lambda>(_, io3). hcmd_parse d2 io3))" for d2 m
    by (rule ensures_bind_any) (use hcmd_parse_user in \<open>auto split: prod.splits\<close>)
  have second: "user_ok f P d1 \<Longrightarrow> ensures (\<lambda>(r, d', io'). user_ok f P d')
      (bind_outcome (if b then recv_data d1 2 io1 else Ok (MRJE_OK, d1, io1)) (\<lambda>(res2, data2, io2).
         if res2 \<noteq> MRJE_OK then Ok (MRJE_RECV_ERROR, data2, io2)
         else bind_outcome (if verbose (set_opt data2) then show_resp_head (response_recv data2) (response_recv_len data2) io2 else Ok (MRJE_OK, io2))
               (\<lambda>(_, io3). hcmd_parse data2 io3)))" for d1 io1 b
    by (rule ensures_bind [where Q = "\<lambda>(r, d', io'). user_ok f P d'"]) (use rd sh hcmd_parse_user in \<open>auto split: prod.splits\<close>)
  show ?thesis unfolding hcmd_receive_def
  proof (rule ensures_bind [OF rd])
    show "user_ok f P (d\<lparr>response_recv_len := 0\<rparr>)" using u by (simp add: user_ok_def)
  next
    fix x :: "MRJEcode \<times> 'a SessionHandle \<times> io"
    assume x: "case x of (r, d', io') \<Rightarrow> user_ok f P d'"
    obtain res d1 io1 where xx: "x = (res, d1, io1)" by (cases x)
    show "ensures (\<lambda>(r, d', io'). user_ok f P d') (case x of (res, data1, io1) \<Rightarrow>
        if res \<noteq> MRJE_OK then Ok (MRJE_RECV_ERROR, data1, io1)
        else bind_outcome (if httpreq (set_opt data1) = HTTPREQ_POST then recv_data data1 2 io1 else Ok (MRJE_OK, data1, io1)) (\<lambda>(res2, data2, io2).
           if res2 \<noteq> MRJE_OK then Ok (MRJE_RECV_ERROR, data2, io2)
           else bind_outcome (if verbose (set_opt data2) then show_resp_head (response_recv data2) (response_recv_len data2) io2 else Ok (MRJE_OK, io2))
               (\<lambda>(_, io3). hcmd_parse data2 io3)))"
      using x second [of d1 "httpreq (set_opt d1) = HTTPREQ_POST" io1] by (cases "res = MRJE_OK") (simp_all add: xx split del: if_split)
  qed
qed

lemma send_hcmd_user: "user_ok f P d \<Longrightarrow> ensures (\<lambda>(r, d', io'). user_ok f P d') (send_hcmd d hcmd n io)"
proof -
  assume u: "user_ok f P d"
  have c: "ensures (\<lambda>(r, d', io'). user_ok f P d') (connect_host d io)"
    using u connect_host_set_opt [of d io] by (auto simp: ensures_iff user_ok_def)
  have rest: "user_ok f P d1 \<Longrightarrow> ensures (\<lambda>(r, d', io'). user_ok f P d')
      (bind_outcome (m :: (MRJEcode \<times> io) outcome) (\<lambda>(_, io2). bind_outcome (send_data d1 hcmd n io2) (\<lambda>(res2, io3).
           if res2 \<noteq> MRJE_OK then Ok (MRJE_SEND_ERROR, d1, io3) else hcmd_receive d1 io3)))" for d1 m
    by (auto intro!: ensures_bind_any simp: hcmd_receive_user)
  show ?thesis unfolding send_hcmd_def by (rule ensures_bind [OF c]) (use rest hcmd_receive_user in \<open>auto intro!: ensures_bind_any split: prod.splits\<close>)
qed

locale kept_by_callback =
  fixes f :: "'u write_callback" and P :: "'u \<Rightarrow> bool"
  assumes keeps: "P u \<Longrightarrow> f buf n u = Ok (k, u') \<Longrightarrow> P u'"
begin

lemma call_write_user: "user_ok f P d \<Longrightarrow> ensures (\<lambda>(b, d'). user_ok f P d') (call_write buf n d)"
  using keeps by (auto simp: call_write_def user_ok_def ensures_iff bind_outcome_Ok_iff split: prod.splits)

lemma down_loop_user: "user_ok f P d \<Longrightarrow> ensures (\<lambda>(r, d', inp', ts'). user_ok f P d') (down_loop bef already d inp ts)"
proof (induction ts arbitrary: already d inp)
  case (Cons t ts)
  show ?case using Cons by (auto simp: Let_def intro!: ensures_bind [OF call_write_user])
qed simp

lemma transfer_body_user: "user_ok f P d \<Longrightarrow> ensures (\<lambda>(r, d', io'). user_ok f P d') (transfer_body d io)"
  by (auto simp: transfer_body_def recv_data_download_def intro!: ensures_bind [OF call_write_user] ensures_bind [OF down_loop_user] split: prod.splits)

lemma http_transfer_user: "user_ok f P d \<Longrightarrow> ensures (\<lambda>(r, d', io'). user_ok f P d') (http_transfer d io)"
proof -
  assume u: "user_ok f P d"
  have rest: "ensures (\<lambda>(r, d', io'). user_ok f P d') (bind_outcome (send_hcmd (d\<lparr>request_send := head, request_send_len := k\<rparr>) b k io2)
        (\<lambda>(res, data2, io3). if res = MRJE_OK then transfer_body data2 io3 else Ok (res, data2, io3)))" for head k b io2
  proof (rule ensures_bind [OF send_hcmd_user])
    show "user_ok f P (d\<lparr>request_send := head, request_send_len := k\<rparr>)" using u by (simp add: user_ok_def)
  qed (use transfer_body_user in \<open>auto split: prod.splits\<close>)
  have timed: "ensures (\<lambda>(r, d', io'). user_ok f P d') (bind_outcome (mrjx_tvnow io1) (\<lambda>(now, io2).
        bind_outcome (send_hcmd (d\<lparr>request_send := head, request_send_len := k\<rparr>) b k (io2\<lparr>before := now\<rparr>))
          (\<lambda>(res, data2, io3). if res = MRJE_OK then transfer_body data2 io3 else Ok (res, data2, io3))))" for head k b io1
    by (rule ensures_bind_any) (use rest in \<open>auto split: prod.splits\<close>)
  show ?thesis
  proof (cases "request_head d")
    case (Some hn)
    obtain head n where hn: "hn = (head, n)" by (cases hn)
    have "user_ok f P (d\<lparr>request_send := head\<rparr>)" using u by (simp add: user_ok_def)
    then show ?thesis using timed unfolding http_transfer_def Some hn Let_def option.case prod.case
      by (intro ensures_bind_any) (auto split: prod.splits)
  qed (use u in \<open>simp add: http_transfer_def\<close>)
qed

lemma http_perform_user: "user_ok f P d \<Longrightarrow> http_perform d io = Ok (r, d', io') \<Longrightarrow> P (event_args (set_opt d'))"
proof -
  assume u: "user_ok f P d" and p: "http_perform d io = Ok (r, d', io')"
  have "ensures (\<lambda>(r, d1). user_ok f P d1) (http_load_url d)" using u load_url_set_opt [of d] by (auto simp: ensures_iff user_ok_def)
  then have "ensures (\<lambda>(r, d', io'). user_ok f P d') (http_perform d io)" unfolding http_perform_def
    by (rule ensures_bind) (use http_transfer_user in \<open>auto split: prod.splits\<close>)
  with p show ?thesis by (simp add: user_ok_def)
qed

end

section \<open>The settings of the requests\<close>

lemma setopt_post:
  "setopt_all m (post_options url content func arg) (Some data) =
     Ok (Some (data\<lparr>set_opt := (set_opt data)\<lparr>set_url := snd (setstropt m (Some url)), send_buf := Some content,
       send_len := length (takeWhile (\<lambda>c. c \<noteq> 0) content), httpreq := HTTPREQ_POST, fwrite_func := Some func, is_fwrite_set := 1,
       event_args := arg, httpversion := 1, timeout_ms := 30000, connecttimeout := 10000, verbose := True\<rparr>\<rparr>))"
  by (cases m) (simp_all add: post_options_def http_client_setopt_def setstropt_def millis_def)

lemma setopt_get:
  "setopt_all m (get_options url form func arg) (Some data) =
     Ok (Some (data\<lparr>set_opt := (set_opt data)\<lparr>set_url := snd (setstropt m (Some url)), fwrite_func := Some func, is_fwrite_set := 1,
       event_args := arg, set_resume_from := nat (form mod 2 ^ 64), timeout_ms := 600000, connecttimeout := 30000, verbose := True\<rparr>\<rparr>))"
  by (cases m) (simp_all add: get_options_def http_client_setopt_def setstropt_def millis_def)

context kept_by_callback
begin

lemma post_data_user:
  assumes "P arg" "platform_post_data url content f arg io = Ok (ret, arg', io')"
  shows "P arg'"
proof -
  obtain h io1 where i: "http_client_init arg io = Ok (h, io1)" using assms(2) by (auto simp: platform_post_data_def bind_outcome_Ok_iff)
  show ?thesis
  proof (cases h)
    case None
    then show ?thesis using assms i by (simp add: platform_post_data_def)
  next
    case (Some d)
    obtain m io2 where m: "malloc_ok io1 = Ok (m, io2)" using assms(2) i Some by (auto simp: platform_post_data_def bind_outcome_Ok_iff)
    define d1 where "d1 = d\<lparr>set_opt := (set_opt d)\<lparr>set_url := snd (setstropt m (Some url)), send_buf := Some content,
       send_len := length (takeWhile (\<lambda>c. c \<noteq> 0) content), httpreq := HTTPREQ_POST, fwrite_func := Some f, is_fwrite_set := 1,
       event_args := arg, httpversion := 1, timeout_ms := 30000, connecttimeout := 10000, verbose := True\<rparr>\<rparr>"
    have o: "setopt_all m (post_options url content f arg) (Some d) = Ok (Some d1)" using setopt_post [of m url content f arg d] by (simp add: d1_def)
    obtain r d2 io3 where p: "http_perform d1 io2 = Ok (r, d2, io3)" "arg' = event_args (set_opt d2)"
      using assms(2) i Some m o by (auto simp: platform_post_data_def http_client_perform_def bind_outcome_Ok_iff Let_def split: if_splits)
    have "user_ok f P d1" using assms(1) by (simp add: user_ok_def d1_def)
    then show ?thesis using http_perform_user p by blast
  qed
qed

end

section \<open>What the device knows after an answer\<close>

definition auth_ok :: "platform_auth_response \<Rightarrow> bool" where
  "auth_ok r \<longleftrightarrow> (a_result r = 0 \<longrightarrow> 0 < a_port r \<and> a_port r < 65535) \<and> length (ip_addr r) \<le> 15"

definition login_ok :: "platform_login_response \<Rightarrow> bool" where
  "login_ok r \<longleftrightarrow> length (token r) \<le> 63"

lemma auth_fields_ok: "auth_ok r \<Longrightarrow> a_result r \<noteq> 0 \<Longrightarrow> auth_ok (auth_fields r json)"
  by (auto simp: auth_fields_def auth_ok_def Let_def split: option.split)

lemma login_fields_ok: "login_ok r \<Longrightarrow> login_ok (login_fields r json)"
  by (auto simp: login_fields_def login_ok_def Let_def split: option.split)

lemma callback_json_cases: "callback_json buf n fail g = Ok (k, u) \<Longrightarrow> u = fail \<or> (\<exists>json. u = g json)"
proof -
  assume c: "callback_json buf n fail g = Ok (k, u)"
  then obtain s where s: "callback_text buf n = Ok s" by (auto simp: callback_json_def bind_outcome_Ok_iff)
  show ?thesis
  proof (cases "n = 0")
    case False
    with c s obtain r where "cJSON_Parse s = Ok r" "(case r of Inl _ \<Rightarrow> Ok (n, fail) | Inr (json, _) \<Rightarrow> Ok (n, g json)) = Ok (k, u)"
      by (auto simp: callback_json_def bind_outcome_Ok_iff)
    then show ?thesis by (cases r) auto
  qed (use c s in \<open>simp add: callback_json_def\<close>)
qed

interpretation auth_kept: kept_by_callback platform_parse_auth auth_ok
proof
  fix u buf n k u'
  assume u: "auth_ok u" "platform_parse_auth buf n u = Ok (k, u')"
  have "auth_ok (u\<lparr>a_result := -1\<rparr>)" using u(1) by (simp add: auth_ok_def)
  with callback_json_cases u(2) show "auth_ok u'" unfolding platform_parse_auth_def by (fastforce intro: auth_fields_ok)
qed

interpretation login_kept: kept_by_callback platform_parse_longin login_ok
proof
  fix u buf n k u'
  assume u: "login_ok u" "platform_parse_longin buf n u = Ok (k, u')"
  have "login_ok (u\<lparr>l_result := -1\<rparr>)" using u(1) by (simp add: login_ok_def)
  with callback_json_cases u(2) show "login_ok u'" unfolding platform_parse_longin_def by (fastforce intro: login_fields_ok)
qed

lemma platform_auth_ok: "platform_auth io = Ok (ret, resp, io') \<Longrightarrow> auth_ok resp \<and> (ret = 0 \<longrightarrow> a_result resp = 0) \<and> ret \<in> {0, -1}"
proof -
  assume p: "platform_auth io = Ok (ret, resp, io')"
  then obtain r where r: "platform_post_data (action_url DEFAULT_AUTH_IP_ADDR DEFAULT_AUTH_PORT ''auth'')
      (take (MAX_DATA_LEN - 2) (codes ''imei='' @ BASE_SN @ codes ''&version='' @ codes ''1.5.0'')) platform_parse_auth (zero_auth\<lparr>a_result := -1\<rparr>) io = Ok (r, resp, io')"
    "ret = (if r = 0 \<and> a_result resp = 0 then 0 else -1)"
    by (auto simp: platform_auth_def bind_outcome_Ok_iff simp del: take_append)
  have "auth_ok resp" by (rule auth_kept.post_data_user [OF _ r(1)]) (simp add: auth_ok_def zero_auth_def)
  with r(2) show ?thesis by auto
qed

lemma platform_login_ok:
  "login_ok login \<Longrightarrow> platform_login pr auth login io = Ok (ret, resp, io') \<Longrightarrow> login_ok resp \<and> (ret = 0 \<longrightarrow> l_result resp = 0) \<and> ret \<in> {0, -1}"
proof -
  assume l: "login_ok login" and p: "platform_login pr auth login io = Ok (ret, resp, io')"
  then obtain js where js: "create_login_json_string pr = Ok js" by (auto simp: platform_login_def bind_outcome_Ok_iff)
  show ?thesis
  proof (cases js)
    case None
    with js l p show ?thesis by (simp add: platform_login_def)
  next
    case (Some s)
    with js p obtain r where r: "platform_post_data (action_url (ip_addr auth) (a_port auth) ''login'') (take (MAX_DATA_LEN - 2) (codes ''data='' @ s))
        platform_parse_longin (zero_login\<lparr>l_result := -1\<rparr>) io = Ok (r, resp, io')" "ret = (if r = 0 \<and> l_result resp = 0 then 0 else -1)"
      by (auto simp: platform_login_def bind_outcome_Ok_iff simp del: take_append)
    have "login_ok resp" by (rule login_kept.post_data_user [OF _ r(1)]) (simp add: login_ok_def zero_login_def)
    with r(2) show ?thesis by auto
  qed
qed

section \<open>The order of requests\<close>

text \<open>The phases of a session: authentication until it succeeds, login until it succeeds, then heartbeats and photos.\<close>

datatype phase = Authenticating | Logging_in | Online

fun after :: "phase \<Rightarrow> action \<Rightarrow> phase option" where
  "after Authenticating (Auth r) = Some (if r = 0 then Logging_in else Authenticating)"
| "after Logging_in (Login r) = Some (if r = 0 then Online else Logging_in)"
| "after Online (Heartbeat r) = Some Online"
| "after Online (Upload r) = Some Online"
| "after _ _ = None"

fun phase_of :: "phase \<Rightarrow> action list \<Rightarrow> phase option" where
  "phase_of p [] = Some p"
| "phase_of p (a # as) = (case after p a of None \<Rightarrow> None | Some q \<Rightarrow> phase_of q as)"

definition state_phase :: "pf_state \<Rightarrow> phase" where
  "state_phase s = (if auth_flag s = 0 then Authenticating else if login_flag s = 0 then Logging_in else Online)"

definition pf_ok :: "pf_state \<Rightarrow> bool" where
  "pf_ok s \<longleftrightarrow>
     auth_flag s \<in> {0, 1} \<and> login_flag s \<in> {0, 1} \<and> (login_flag s = 1 \<longrightarrow> auth_flag s = 1) \<and>
     (auth_flag s = 1 \<longrightarrow> a_result (g_auth_response s) = 0 \<and> auth_ok (g_auth_response s)) \<and>
     (login_flag s = 1 \<longrightarrow> l_result (g_login_response s) = 0) \<and> login_ok (g_login_response s)"

lemma phase_of_append: "phase_of p as = Some q \<Longrightarrow> phase_of p (as @ bs) = phase_of q bs"
  by (induction as arbitrary: p) (auto split: option.splits)

lemma do_auth_ok: "pf_ok s \<Longrightarrow> do_auth s io = Ok (s', acts, io') \<Longrightarrow> pf_ok s' \<and> phase_of (state_phase s) acts = Some (state_phase s')"
proof -
  assume ok: "pf_ok s" and d: "do_auth s io = Ok (s', acts, io')"
  show ?thesis
  proof (cases "auth_flag s = 0")
    case True
    with d obtain ret resp where r: "platform_auth io = Ok (ret, resp, io')" "acts = [Auth ret]"
        "s' = s\<lparr>g_auth_response := resp, auth_flag := (if ret = 0 then 1 else 0)\<rparr>"
      by (auto simp: do_auth_def bind_outcome_Ok_iff)
    have "login_flag s = 0" using ok True by (auto simp: pf_ok_def)
    then show ?thesis using r(2, 3) platform_auth_ok [OF r(1)] ok True by (simp add: pf_ok_def state_phase_def)
  qed (use ok d in \<open>simp add: do_auth_def\<close>)
qed

lemma do_login_ok: "pf_ok s \<Longrightarrow> do_login pr s io = Ok (s', acts, io') \<Longrightarrow> pf_ok s' \<and> phase_of (state_phase s) acts = Some (state_phase s')"
proof -
  assume ok: "pf_ok s" and d: "do_login pr s io = Ok (s', acts, io')"
  show ?thesis
  proof (cases "auth_flag s = 1 \<and> login_flag s = 0")
    case True
    with d obtain ret resp where r: "platform_login pr (g_auth_response s) (g_login_response s) io = Ok (ret, resp, io')" "acts = [Login ret]"
        "s' = s\<lparr>g_login_response := resp, login_flag := (if ret = 0 then 1 else 0)\<rparr>"
      by (auto simp: do_login_def bind_outcome_Ok_iff)
    have "login_ok (g_login_response s)" using ok by (simp add: pf_ok_def)
    then show ?thesis using r(2, 3) platform_login_ok [OF _ r(1)] ok True by (simp add: pf_ok_def state_phase_def)
  qed (use ok d in \<open>auto simp: do_login_def\<close>)
qed

lemma do_report_ok: "do_report photo s io = Ok (s', acts, io') \<Longrightarrow> s' = s \<and> phase_of (state_phase s) acts = Some (state_phase s)"
  by (auto simp: do_report_def bind_outcome_Ok_iff state_phase_def split: if_splits)

lemma main_body_ok: "pf_ok s \<Longrightarrow> main_body pr photo s io = Ok (s', acts, io') \<Longrightarrow> pf_ok s' \<and> phase_of (state_phase s) acts = Some (state_phase s')"
proof -
  assume ok: "pf_ok s" and b: "main_body pr photo s io = Ok (s', acts, io')"
  define s0 where "s0 = s\<lparr>count := count s + 1\<rparr>"
  have s0: "pf_ok s0" "state_phase s0 = state_phase s" using ok by (simp_all add: s0_def pf_ok_def state_phase_def)
  obtain s1 a1 io1 s2 a2 io2 a3 where st: "do_auth s0 io = Ok (s1, a1, io1)" "do_login pr s1 io1 = Ok (s2, a2, io2)"
      "do_report photo s2 io2 = Ok (s', a3, io')" "acts = a1 @ a2 @ a3"
    using b by (auto simp: main_body_def bind_outcome_Ok_iff s0_def)
  note 1 = do_auth_ok [OF s0(1) st(1)]
  note 2 = do_login_ok [OF 1 [THEN conjunct1] st(2)]
  note 3 = do_report_ok [OF st(3)]
  show ?thesis using 1 2 3 s0(2) st(4) by (auto simp: phase_of_append)
qed

lemma quit_simps [simp]: "pf_ok (quit s) = pf_ok s" "state_phase (quit s) = state_phase s"
  by (simp_all add: quit_def pf_ok_def state_phase_def)

lemma main_run_phases: "main_run s tr \<Longrightarrow> pf_ok s \<and> phase_of Authenticating tr = Some (state_phase s)"
proof (induction rule: main_run.induct)
  case start
  then show ?case by (simp add: main_init_def pf_ok_def state_phase_def auth_ok_def login_ok_def zero_auth_def zero_login_def)
next
  case (step s tr acts s')
  from step(2) show ?case
    by (rule main_step_elim) (use step.IH main_body_ok in \<open>auto simp: phase_of_append\<close>)
qed

section \<open>Uploading a photo\<close>

lemma photo_param_length: "login_ok login \<Longrightarrow> length (photo_param login) \<le> 101"
  by (simp add: photo_param_def login_ok_def BASE_SN_def fmt_d_def dec.simps)

lemma base64_fits: "(p :: nat) \<le> 101 \<Longrightarrow> p + 4 * ((n + 2) div 3) < n + n div 2 + 128"
  by linarith

lemma photo_request_decodes:
  assumes "login_ok login" "list_all is_byte photo" "length photo mod 3 \<noteq> 2" "length photo < 1431655680"
  shows "\<exists>n out. photo_base64_size (to_s32 (int (length photo))) = Ok n \<and>
    photo_request login photo (to_s32 (int (length photo))) n = Ok (photo_param login @ out) \<and> b64_decode out = photo"
proof -
  obtain out where out: "base64_loop photo (length photo) = Ok out" "b64_decode out = photo" "length out = 4 * ((length photo + 2) div 3)"
    using base64_decodes [OF assms(2, 3)] by blast
  let ?n = "length photo + length photo div 2 + MAX_URL_LEN"
  have s: "to_s32 (int (length photo)) = int (length photo)" using assms(4) by (intro to_s32_id) simp_all
  have e: "int (length photo) + int (length photo) div 2 + int MAX_URL_LEN = int ?n" by (simp add: zdiv_int)
  have b: "int ?n < 2 ^ 31" using assms(4) by simp
  have "photo_base64_size (int (length photo)) = Ok ?n" unfolding photo_base64_size_def e Let_def using b by simp
  moreover have "length (photo_param login @ out) < ?n"
    using base64_fits [OF photo_param_length [OF assms(1)], of "length photo"] out(3) by simp
  ultimately show ?thesis unfolding s using out by (intro exI [of _ ?n] exI [of _ out]) (simp add: photo_request_def Base64Encode_def into_def)
qed

lemma photo_too_large:
  assumes "1431655680 \<le> length photo" "length photo < 2 ^ 31"
  shows "photo_base64_size (to_s32 (int (length photo))) = Fault"
proof -
  have "to_s32 (int (length photo)) = int (length photo)" using assms(2) by (intro to_s32_id) simp_all
  moreover have "\<not> int (length photo) + int (length photo) div 2 + int MAX_URL_LEN < 2 ^ 31" using assms(1) by simp
  ultimately show ?thesis by (simp add: photo_base64_size_def Let_def)
qed

section \<open>The session of a request\<close>

definition new_session :: "'u \<Rightarrow> 'u SessionHandle" where
  "new_session null =
     \<lparr>sock = -1, remote_addr = (0, 0), port = 0, host = [], remote_path = [], request_send = [], request_send_len = 0,
      response_recv = replicate MRJ_MAX_RESPHEAD 0, response_recv_len = 0,
      set_opt = \<lparr>verbose = False, httpreq = HTTPREQ_GET, httpversion = 0, timeout_ms = 0, connecttimeout = 0,
                 fwrite_func = None, is_fwrite_set = 0, event_args = null, set_url = None, send_len = 0, send_buf = None,
                 recv_len = 0, recv_buf = None, set_resume_from = 0\<rparr>,
      info = \<lparr>httpcode = 0, content_len = 0\<rparr>\<rparr>"

definition post_session :: "int list \<Rightarrow> int list \<Rightarrow> 'u write_callback \<Rightarrow> 'u \<Rightarrow> 'u SessionHandle" where
  "post_session url content func arg =
     (new_session arg)\<lparr>set_opt := (set_opt (new_session arg))\<lparr>set_url := Some url, send_buf := Some content,
       send_len := length content, httpreq := HTTPREQ_POST, fwrite_func := Some func, is_fwrite_set := 1,
       event_args := arg, httpversion := 1, timeout_ms := 30000, connecttimeout := 10000, verbose := True\<rparr>\<rparr>"

definition get_session :: "int list \<Rightarrow> nat \<Rightarrow> 'u write_callback \<Rightarrow> 'u \<Rightarrow> 'u SessionHandle" where
  "get_session url form func arg =
     (new_session arg)\<lparr>set_opt := (set_opt (new_session arg))\<lparr>set_url := Some url, fwrite_func := Some func, is_fwrite_set := 1,
       event_args := arg, set_resume_from := form, timeout_ms := 600000, connecttimeout := 30000, verbose := True\<rparr>\<rparr>"

lemma no_zero_takeWhile: "0 \<notin> set s \<Longrightarrow> takeWhile (\<lambda>c. c \<noteq> 0) s = (s :: int list)"
  by (auto simp: takeWhile_eq_all_conv)

lemma http_init_new: "mallocs io = True # ms \<Longrightarrow> http_client_init null io = Ok (Some (new_session null), io\<lparr>mallocs := ms\<rparr>)"
  by (simp add: http_client_init_def http_init_def malloc_ok_def new_session_def)

lemma session_fresh: "fresh (post_session url content f arg)" "fresh (get_session url n f arg)"
  by (simp_all add: fresh_def post_session_def get_session_def new_session_def)

lemma post_data_perform:
  assumes "mallocs io = True # True # ms" "0 \<notin> set url" "0 \<notin> set content"
  shows "platform_post_data url content f arg io =
     bind_outcome (http_perform (post_session url content f arg) (io\<lparr>mallocs := ms\<rparr>)) (\<lambda>(res, data, io').
       if res \<noteq> MRJE_OK then Ok (-1, event_args (set_opt data), io') else Ok (0, event_args (set_opt data), http_client_cleanup (Some data) io'))"
proof -
  have "setopt_all True (post_options url content f arg) (Some (new_session arg)) = Ok (Some (post_session url content f arg))"
    using assms(2, 3) by (simp add: setopt_post setstropt_def no_zero_takeWhile post_session_def del: takeWhile_eq_all_conv)
  then show ?thesis using assms(1)
    by (simp add: platform_post_data_def http_init_new malloc_ok_def http_client_perform_def bind_outcome_assoc Let_def split_def cong: if_cong)
qed

lemma get_data_perform:
  assumes "mallocs io = True # True # ms" "0 \<notin> set url" "n < 2 ^ 64"
  shows "platform_get_data url (int n) f arg io =
     bind_outcome (http_perform (get_session url n f arg) (io\<lparr>mallocs := ms\<rparr>)) (\<lambda>(res, data, io').
       Ok (res, event_args (set_opt data), http_client_cleanup (Some data) io'))"
proof -
  have "setopt_all True (get_options url (int n) f arg) (Some (new_session arg)) = Ok (Some (get_session url n f arg))"
    using assms(2, 3) by (simp add: setopt_get setstropt_def no_zero_takeWhile get_session_def del: takeWhile_eq_all_conv)
  then show ?thesis using assms(1)
    by (simp add: platform_get_data_def http_init_new malloc_ok_def http_client_perform_def bind_outcome_assoc Let_def split_def)
qed

lemma cleanup_effects [simp]: "wire (http_client_cleanup h io) = wire io" "dialed (http_client_cleanup h io) = dialed io"
  by (cases h; simp add: http_client_cleanup_def http_close_def)+

lemma post_data_delivers:
  assumes mem: "mallocs io = True # True # ms"
    and url: "url = url_text False h p path" "good_url h p path" "0 \<notin> set url"
    and content: "0 \<notin> set content" "length content < 2 ^ 31"
    and call: "f (body @ [0]) (length body) arg = Ok (length body, arg')"
    and net: "network_fine (post_session url content f arg) (length (post_request h path content)) (length (http_response 200 h1 n h2 body)) (io\<lparr>mallocs := ms\<rparr>)"
    and resp: "incoming io = http_response 200 h1 n h2 body" "good_post 200 h1 n h2 body"
  shows "\<exists>io'. platform_post_data url content f arg io = Ok (0, arg', io') \<and> wire io' = wire io @ post_request h path content \<and>
     dialed io' = dialed io @ [(htons (of_nat (url_port_of p)), inet_addr h)]"
proof -
  have "\<exists>data' io'. http_perform (post_session url content f arg) (io\<lparr>mallocs := ms\<rparr>) = Ok (MRJE_OK, data', io') \<and> event_args (set_opt data') = arg' \<and>
     httpcode (info data') = 200 \<and> incoming io' = [] \<and> wire io' = wire (io\<lparr>mallocs := ms\<rparr>) @ post_request h path content \<and>
     dialed io' = dialed (io\<lparr>mallocs := ms\<rparr>) @ [(htons (of_nat (url_port_of p)), inet_addr h)]"
    by (rule perform_post [OF _ url(2) _ _ _ content _ _ session_fresh(1) net _ resp(2), where secure = False and f = f])
       (use url(1) call resp(1) in \<open>simp_all add: post_session_def new_session_def\<close>)
  then show ?thesis using post_data_perform [OF mem url(3) content(1), of f arg] by auto
qed

section \<open>Reading an answer\<close>

text \<open>Looking a name up in an object: the first member whose name differs in case at most.\<close>

fun json_lookup :: "int list \<Rightarrow> (int list \<times> json) list \<Rightarrow> int list option" where
  "json_lookup key [] = None"
| "json_lookup key ((k, v) # ms) =
     (if map tolower_c k = map tolower_c key then case v of JStr s \<Rightarrow> Some s | _ \<Rightarrow> None else json_lookup key ms)"

lemma valuestring_embed: "valuestring (embed nm v) = (case v of JStr s \<Rightarrow> Some s | _ \<Rightarrow> None)"
  by (cases v) auto

lemma string_item_embed: "string_item (embed None (JObj ms)) key = json_lookup (codes key) ms"
proof -
  have "(case map_option (\<lambda>k. map (\<lambda>(k, j). embed (Some k) j) ms ! k) (find_named s (map (\<lambda>(k, j). embed (Some k) j) ms)) of
      None \<Rightarrow> None | Some c \<Rightarrow> valuestring c) = json_lookup s ms" for s
    by (induction ms) (auto simp: cJSON_strcasecmp_def valuestring_embed option.case_eq_if option.map_sel split: prod.splits)
  then show ?thesis by (simp add: string_item_def cJSON_GetObjectItem_def)
qed

lemma callback_json_reads:
  assumes "good_json (JObj ms)" "0 \<notin> set (jtext fmt 0 (JObj ms))" "length (jtext fmt 0 (JObj ms)) < 2 ^ 31"
  shows "callback_json (jtext fmt 0 (JObj ms) @ [0]) (length (jtext fmt 0 (JObj ms))) fail g =
     Ok (length (jtext fmt 0 (JObj ms)), g (embed None (JObj ms)))"
proof -
  define t where "t = jtext fmt 0 (JObj ms)"
  have tx: "callback_text (t @ [0]) (length t) = Ok t" using assms(2, 3) no_zero_takeWhile [of t] by (simp add: callback_text_def del: takeWhile_eq_all_conv jtext.simps flip: t_def)
  have parse: "cJSON_Parse t = Ok (Inr (embed None (JObj ms), []))"
    using print_parse [OF assms(1), of undefined fmt 0 "[]"] print_embed [OF assms(1), of undefined fmt None 0] by (auto simp: t_def simp del: embed.simps jtext.simps print_value.simps)
  have "0 < length t" by (simp add: t_def)
  then show ?thesis using tx parse unfolding t_def [symmetric] by (simp add: callback_json_def del: embed.simps)
qed

definition auth_answer :: "(int list \<times> json) list \<Rightarrow> platform_auth_response \<Rightarrow> bool" where
  "auth_answer ms r \<longleftrightarrow>
     (case (json_lookup (codes ''success'') ms, json_lookup (codes ''devsecret'') ms, json_lookup (codes ''url'') ms,
            json_lookup (codes ''ip'') ms, json_lookup (codes ''port'') ms) of
        (Some code, Some v1, Some v2, Some v3, Some v4) \<Rightarrow>
          atoi code = 10000 \<and> 0 < atoi v4 \<and> atoi v4 < 65535 \<and>
          r = \<lparr>a_result = 0, dev_secret = take 31 v1, domain = take 31 v2, ip_addr = take 15 v3, a_port = atoi v4\<rparr>
      | _ \<Rightarrow> False)"

lemma auth_fields_answer: "auth_answer ms r \<Longrightarrow> auth_fields r0 (embed None (JObj ms)) = r"
  by (auto simp: auth_answer_def auth_fields_def string_item_embed Let_def simp del: embed.simps split: option.splits)

definition auth_path :: "int list" where "auth_path = codes ''/index.php?action=auth''"
definition auth_content :: "int list" where "auth_content = codes ''imei=1011411000014&version=1.5.0''"

lemma auth_url: "action_url DEFAULT_AUTH_IP_ADDR DEFAULT_AUTH_PORT ''auth'' = url_text False DEFAULT_AUTH_IP_ADDR (Some 8888) auth_path"
  by (simp add: action_url_def DEFAULT_AUTH_IP_ADDR_def url_text_def auth_path_def fmt_d_def dec.simps)

lemma auth_post: "take (MAX_DATA_LEN - 2) (codes ''imei='' @ BASE_SN @ codes ''&version='' @ codes ''1.5.0'') = auth_content"
  by (simp add: BASE_SN_def auth_content_def)

lemma platform_auth_accepts:
  assumes mem: "mallocs io = True # True # ms"
    and net: "network_fine (post_session (url_text False DEFAULT_AUTH_IP_ADDR (Some 8888) auth_path) auth_content platform_parse_auth (zero_auth\<lparr>a_result := -1\<rparr>))
        (length (post_request DEFAULT_AUTH_IP_ADDR auth_path auth_content)) (length (http_response 200 h1 n h2 (jtext fmt 0 (JObj given)))) (io\<lparr>mallocs := ms\<rparr>)"
    and resp: "incoming io = http_response 200 h1 n h2 (jtext fmt 0 (JObj given))" "good_post 200 h1 n h2 (jtext fmt 0 (JObj given))"
    and ans: "good_json (JObj given)" "auth_answer given r"
  shows "\<exists>io'. platform_auth io = Ok (0, r, io') \<and> wire io' = wire io @ post_request DEFAULT_AUTH_IP_ADDR auth_path auth_content"
proof -
  define body where "body = jtext fmt 0 (JObj given)"
  have short: "length body < 2 ^ 31" "0 \<notin> set body" using resp(2) by (auto simp: good_post_def http_response_def body_def)
  have call: "platform_parse_auth (body @ [0]) (length body) (zero_auth\<lparr>a_result := -1\<rparr>) = Ok (length body, r)"
    using callback_json_reads [OF ans(1) short(2, 1) [unfolded body_def], of "zero_auth\<lparr>a_result := -1\<rparr>" "auth_fields (zero_auth\<lparr>a_result := -1\<rparr>)"] auth_fields_answer [OF ans(2)] by (simp add: platform_parse_auth_def body_def del: embed.simps jtext.simps)
  have g: "good_url DEFAULT_AUTH_IP_ADDR (Some 8888) auth_path" "0 \<notin> set (url_text False DEFAULT_AUTH_IP_ADDR (Some 8888) auth_path)"
      "0 \<notin> set auth_content" "length auth_content < 2 ^ 31"
    by (simp_all add: DEFAULT_AUTH_IP_ADDR_def auth_path_def auth_content_def url_text_def c_at_def isdigit_def)
  obtain io' where "platform_post_data (url_text False DEFAULT_AUTH_IP_ADDR (Some 8888) auth_path) auth_content platform_parse_auth (zero_auth\<lparr>a_result := -1\<rparr>) io = Ok (0, r, io')"
      "wire io' = wire io @ post_request DEFAULT_AUTH_IP_ADDR auth_path auth_content"
    using post_data_delivers [OF mem refl g call net [folded body_def] resp [folded body_def]] by blast
  moreover have "a_result r = 0" using ans(2) by (auto simp: auth_answer_def split: option.splits)
  ultimately show ?thesis unfolding platform_auth_def auth_url auth_post by simp
qed

section \<open>The login request\<close>

definition login_json :: json where
  "login_json =
     JObj [(codes ''imei'', JStr (codes ''1011411000014'')), (codes ''ip'', JStr (codes ''192.168.8.101'')),
       (codes ''alias'', JStr (codes ''http_test_client'')), (codes ''version'', JStr (codes ''1.5.0'')), (codes ''model'', JStr (codes ''M1'')),
       (codes ''nettype'', JStr (codes ''wifi'')), (codes ''netname'', JStr (codes ''xiaozhou_tenda'')), (codes ''netpwd'', JStr (codes ''xiaozhou@biz''))]"

lemma login_object_embed: "login_object = embed None login_json"
  by (simp add: login_object_def login_json_def cJSON_AddItemToObject_def cJSON_AddItemToArray_def cJSON_CreateString_def cJSON_CreateObject_def
      with_name_def with_child_def)

lemma login_json_good: "good_json login_json"
  by (simp add: login_json_def)

lemma login_text_length: "length (jtext True 0 login_json) \<le> 1000"
  by (simp add: login_json_def json_quoted_def escape_char_def tabs_def)

lemma login_string_reads_back:
  "\<exists>s. create_login_json_string pr = Ok (Some s) \<and> cJSON_Parse s = Ok (Inr (login_object, [])) \<and> length (codes ''data='' @ s) \<le> MAX_DATA_LEN - 2"
  using print_parse [OF login_json_good, of pr True 0 "[]"] print_embed [OF login_json_good, of pr True None 0] login_text_length
  by (auto simp: create_login_json_string_def cJSON_Print_def login_object_embed)

section \<open>Upgrades\<close>

interpretation upgrade_kept: kept_by_callback platform_parse_upgrade "\<lambda>u. pfcode u = -1"
  by unfold_locales (auto simp: platform_parse_upgrade_def)

lemma post_data_results: "platform_post_data url content f arg io = Ok (ret, arg', io') \<Longrightarrow> ret = 0 \<or> ret = -1"
  by (auto simp: platform_post_data_def bind_outcome_Ok_iff Let_def split: if_splits)

text \<open>The answer about an upgrade is not read, so the code that was set before the request stays and no file is ever downloaded.\<close>

lemma device_upgrade_fails: "platform_device_upgrade old free opens io = Ok (r, io') \<Longrightarrow> r = Inl (-1)"
proof -
  assume d: "platform_device_upgrade old free opens io = Ok (r, io')"
  then obtain ret u io1 where u: "platform_upgrade \<lparr>pfcode = -1, filesize = 0, upg_url = [], version = []\<rparr> io = Ok (ret, u, io1)"
    by (auto simp: platform_device_upgrade_def bind_outcome_Ok_iff)
  have "pfcode u = -1" by (rule upgrade_kept.post_data_user [OF _ u [unfolded platform_upgrade_def]]) simp
  moreover have "ret = 0 \<or> ret = -1" by (rule post_data_results [OF u [unfolded platform_upgrade_def]])
  ultimately show ?thesis using d u by (auto simp: platform_device_upgrade_def)
qed

section \<open>A download completes the file\<close>

definition download_room :: "DownloadInfo \<Rightarrow> nat \<Rightarrow> bool" where
  "download_room u k \<longleftrightarrow> k = 0 \<or> (fp u \<and> k \<le> d_free u \<and> alreadysize u + int k \<le> downsize u)"

interpretation download_sink: write_sink platform_parse_download d_file download_room
proof
  fix u :: DownloadInfo and n m and buf :: "int list"
  assume "download_room u (n + m)" "0 < n" "n \<le> length buf"
  then have u: "fp u" "n + m \<le> d_free u" "alreadysize u + int (n + m) \<le> downsize u" by (auto simp: download_room_def)
  then show "\<exists>u'. platform_parse_download buf n u = Ok (n, u') \<and> d_file u' = d_file u @ take n buf \<and> download_room u' m"
    using \<open>n \<le> length buf\<close> by (auto simp: platform_parse_download_def Let_def download_room_def)
qed

lemma download_completes:
  assumes mem: "mallocs io = True # True # ms"
    and url: "url = url_text False h p path" "good_url h p path" "0 \<notin> set url"
    and disk: "length old < 2 ^ 31" "0 < length body" "length body \<le> free"
    and net: "network_fine (get_session url (length old) platform_parse_download info0)
        (length (get_request h (url_port_of p) path (length old))) (length (http_response code h1 (length body) h2 body)) (io\<lparr>mallocs := ms\<rparr>)"
    and info0: "info0 = \<lparr>d_result = -1, downsize = int (length old + length body), alreadysize = int (length old), flushsize = 0, fp = True, d_file = old, d_free = free\<rparr>"
    and resp: "incoming io = http_response code h1 (length body) h2 body @ later" "good_head_end code h1 (length body) h2" "code = 200 \<or> code = 206"
      "length (http_response code h1 (length body) h2 []) < MRJ_MAX_RESPHEAD"
  shows "\<exists>dinfo io'. platform_download (if old = [] then None else Some old) free True url (int (length old + length body)) io = Ok (Some MRJE_OK, dinfo, io') \<and>
     d_file dinfo = old @ body \<and> wire io' = wire io @ get_request h (url_port_of p) path (length old)"
proof -
  have init: "platform_download_init (if old = [] then None else Some old) free True (int (length old + length body)) = (0, info0, int (length old))"
    using disk(2) by (auto simp: platform_download_init_def Let_def info0)
  have room: "download_room (event_args (set_opt (get_session url (length old) platform_parse_download info0))) (length body)"
    using disk(3) by (simp add: download_room_def get_session_def new_session_def info0)
  define data where "data = get_session url (length old) platform_parse_download info0"
  have d: "set_url (set_opt data) = Some (url_text False h p path)" "httpreq (set_opt data) = HTTPREQ_GET" "set_resume_from (set_opt data) = length old"
      "fwrite_func (set_opt data) = Some platform_parse_download" "event_args (set_opt data) = info0"
    using url(1) by (simp_all add: data_def get_session_def new_session_def)
  have "\<exists>data' io'. http_perform data (io\<lparr>mallocs := ms\<rparr>) = Ok (MRJE_OK, data', io') \<and>
      d_file (event_args (set_opt data')) = d_file (event_args (set_opt data)) @ body \<and>
      wire io' = wire (io\<lparr>mallocs := ms\<rparr>) @ get_request h (url_port_of p) path (set_resume_from (set_opt data)) \<and>
      dialed io' = dialed (io\<lparr>mallocs := ms\<rparr>) @ [(htons (of_nat (url_port_of p)), inet_addr h)]"
    using disk(1, 2) room net resp d session_fresh(2) [of url "length old" platform_parse_download info0]
    by (intro download_sink.perform_get [OF d(1) url(2) d(2) _ d(4), where n = "length body" and code = code]) (simp_all add: data_def)
  then obtain data' io' where p: "http_perform data (io\<lparr>mallocs := ms\<rparr>) = Ok (MRJE_OK, data', io')" "d_file (event_args (set_opt data')) = old @ body"
      "wire io' = wire io @ get_request h (url_port_of p) path (length old)" using d by (auto simp: info0)
  have "length old < 2 ^ 64" using disk(1) by simp
  then have "platform_get_data url (int (length old)) platform_parse_download info0 io =
      Ok (MRJE_OK, event_args (set_opt data'), http_client_cleanup (Some data') io')"
    using get_data_perform [OF mem url(3), of "length old" platform_parse_download info0] p(1) by (simp add: data_def)
  then show ?thesis using init p(2, 3) by (simp add: platform_download_def)
qed

section \<open>Properties of the platform client\<close>

text \<open>C2: In every run of the program, whatever the network and the server do and whenever it is interrupted, the requests come in order:
  authentications until one succeeds, then logins until one succeeds, then only heartbeats and photos; and while the device is past
  authentication it holds an accepted answer with a valid port.\<close>

theorem main_order:
  assumes "main_run s tr"
  shows "phase_of Authenticating tr = Some (state_phase s) \<and> pf_ok s"
  using main_run_phases [OF assms] by blast

definition no_memory :: io where
  "no_memory =
     \<lparr>mallocs = [False], sockets = [], conns = [], clock = [], sends = [], rcvs = [], incoming = [], before = (0, 0), dialed = [], wire = [], shown = [], closed = []\<rparr>"

lemma no_memory_run: "\<exists>s. main_run s [Auth (-1)]"
proof -
  have "\<exists>s' io'. main_body undefined None main_init no_memory = Ok (s', [Auth (-1)], io')"
    by (simp add: main_body_def do_auth_def do_login_def do_report_def main_init_def platform_auth_def platform_post_data_def http_client_init_def
        http_init_def malloc_ok_def no_memory_def)
  then obtain s' io' where "main_body undefined None main_init no_memory = Ok (s', [Auth (-1)], io')" by blast
  then have "main_step main_init [Auth (-1)] s'" by (rule iterate [rotated]) (simp add: main_init_def)
  then have "main_run s' ([] @ [Auth (-1)])" by (rule main_run.step [OF main_run.start])
  then show ?thesis by auto
qed

theorem main_order_witness: "\<exists>s. main_run s [Auth (-1)] \<and> phase_of Authenticating [Auth (-1)] = Some (state_phase s) \<and> pf_ok s"
proof -
  obtain s where "main_run s [Auth (-1)]" using no_memory_run by blast
  with main_order [OF this] show ?thesis by blast
qed

text \<open>C9: When the platform answers an authentication over a working network with a JSON object that has all members, in either layout and
  with any other members, the authentication succeeds and the device keeps exactly the values of the answer, cut to its fields.\<close>

theorem auth_accepts_answer:
  assumes "mallocs io = True # True # ms"
    and "network_fine (post_session (url_text False DEFAULT_AUTH_IP_ADDR (Some 8888) auth_path) auth_content platform_parse_auth (zero_auth\<lparr>a_result := -1\<rparr>))
        (length (post_request DEFAULT_AUTH_IP_ADDR auth_path auth_content)) (length (http_response 200 h1 n h2 (jtext fmt 0 (JObj given)))) (io\<lparr>mallocs := ms\<rparr>)"
    and "incoming io = http_response 200 h1 n h2 (jtext fmt 0 (JObj given))" "good_post 200 h1 n h2 (jtext fmt 0 (JObj given))"
    and "good_json (JObj given)" "auth_answer given r"
  shows "\<exists>io'. platform_auth io = Ok (0, r, io') \<and> wire io' = wire io @ post_request DEFAULT_AUTH_IP_ADDR auth_path auth_content"
  by (rule platform_auth_accepts [OF assms])

definition demo_answer :: "(int list \<times> json) list" where
  "demo_answer =
     [(codes ''success'', JStr (codes ''10000'')), (codes ''devsecret'', JStr (codes ''s'')), (codes ''url'', JStr (codes ''u'')),
      (codes ''ip'', JStr (codes ''1.2.3.4'')), (codes ''port'', JStr (codes ''80''))]"

definition demo_text :: "int list" where
  "demo_text = codes ''{\"success\":\"10000\",\"devsecret\":\"s\",\"url\":\"u\",\"ip\":\"1.2.3.4\",\"port\":\"80\"}''"

lemma demo_text: "jtext False 0 (JObj demo_answer) = demo_text"
  by (simp add: demo_answer_def demo_text_def json_quoted_def escape_char_def)

definition demo_world :: "int list \<Rightarrow> io" where
  "demo_world inp =
     \<lparr>mallocs = replicate 10 True, sockets = [5],
      conns = [\<lparr>c_setfl = 0, c_connect = 0, c_inprogress = False, c_select = 1, c_ready = True, c_sockopt = 0, c_error = 0, c_restore = 0\<rparr>],
      clock = [(100, 0)], sends = replicate 400 \<lparr>s_ret = 9, s_now = (101, 0)\<rparr>,
      rcvs = replicate 400 \<lparr>r_sel = 1, r_ex = False, r_rd = True, r_got = 2, r_now = (102, 0)\<rparr>,
      incoming = inp, before = (0, 0), dialed = [], wire = [], shown = [], closed = []\<rparr>"

lemma demo_world_fine: "out \<le> 400 \<Longrightarrow> inn \<le> 398 \<Longrightarrow> timeout_ms (set_opt data) \<in> {30000, 600000} \<Longrightarrow> network_fine data out inn ((demo_world inp)\<lparr>mallocs := replicate 8 True\<rparr>)"
  by (auto simp: network_fine_def demo_world_def connect_nnob_def list_all_iff send_fine_def recv_fine_def timeleft_def mrjx_tvdiff_def quot_1000_def wselect_def)

lemma demo_world_mem: "mallocs (demo_world inp) = True # True # replicate 8 True"
  by (simp add: demo_world_def numeral_eq_Suc)

lemma demo_auth_post: "good_post 200 (codes '' OK'' @ crlf) 0 [] demo_text"
  by (simp add: demo_text_def good_post_def good_head_end_def good_head_def http_response_def response_fields_def response_head_def crlf_def
      MRJ_HTTPID_def MRJ_CONTENTLEN_def MRJ_ENDOFHEAD_def dec.simps c_at_def isdigit_def)

theorem auth_accepts_answer_witness:
  "\<exists>io'. platform_auth (demo_world (http_response 200 (codes '' OK'' @ crlf) 0 [] demo_text)) =
     Ok (0, \<lparr>a_result = 0, dev_secret = codes ''s'', domain = codes ''u'', ip_addr = codes ''1.2.3.4'', a_port = 80\<rparr>, io')"
proof -
  have "\<exists>io'. platform_auth (demo_world (http_response 200 (codes '' OK'' @ crlf) 0 [] demo_text)) =
       Ok (0, \<lparr>a_result = 0, dev_secret = codes ''s'', domain = codes ''u'', ip_addr = codes ''1.2.3.4'', a_port = 80\<rparr>, io') \<and>
     wire io' = wire (demo_world (http_response 200 (codes '' OK'' @ crlf) 0 [] demo_text)) @ post_request DEFAULT_AUTH_IP_ADDR auth_path auth_content"
  proof (rule auth_accepts_answer [OF demo_world_mem demo_world_fine, where fmt = False and given = demo_answer, unfolded demo_text])
    show "good_post 200 (codes '' OK'' @ crlf) 0 [] demo_text" by (rule demo_auth_post)
    show "good_json (JObj demo_answer)" by (simp add: demo_answer_def)
    show "auth_answer demo_answer \<lparr>a_result = 0, dev_secret = codes ''s'', domain = codes ''u'', ip_addr = codes ''1.2.3.4'', a_port = 80\<rparr>"
      by (simp add: auth_answer_def demo_answer_def tolower_c_def atoi_def c_at_def isspace_def isdigit_def to_s32_def)
    show "incoming (demo_world (http_response 200 (codes '' OK'' @ crlf) 0 [] demo_text)) = http_response 200 (codes '' OK'' @ crlf) 0 [] demo_text"
      by (simp add: demo_world_def)
    show "timeout_ms (set_opt (post_session (url_text False DEFAULT_AUTH_IP_ADDR (Some 8888) auth_path) auth_content platform_parse_auth (zero_auth\<lparr>a_result := -1\<rparr>))) \<in> {30000, 600000}"
      by (simp add: post_session_def)
    show "length (post_request DEFAULT_AUTH_IP_ADDR auth_path auth_content) \<le> 400"
      by (simp add: post_request_def S_pos_head_def DEFAULT_AUTH_IP_ADDR_def auth_path_def auth_content_def fmt_d_def dec.simps crlf_def)
    show "length (http_response 200 (codes '' OK'' @ crlf) 0 [] demo_text) \<le> 398"
      by (simp add: http_response_def response_fields_def response_head_def MRJ_HTTPID_def MRJ_CONTENTLEN_def MRJ_ENDOFHEAD_def demo_text_def dec.simps crlf_def)
  qed
  then show ?thesis by blast
qed

text \<open>C5: A download over a working network, started anew or resumed behind what the old file holds, sends the request for the missing
  bytes, however the stream is cut into pieces leaves the file with the old bytes followed by exactly the body of the response, and reports
  success.\<close>

theorem download_completes_file:
  assumes "mallocs io = True # True # ms"
    and "url = url_text False h p path" "good_url h p path" "0 \<notin> set url"
    and "length old < 2 ^ 31" "0 < length body" "length body \<le> free"
    and "network_fine (get_session url (length old) platform_parse_download info0)
        (length (get_request h (url_port_of p) path (length old))) (length (http_response code h1 (length body) h2 body)) (io\<lparr>mallocs := ms\<rparr>)"
    and "info0 = \<lparr>d_result = -1, downsize = int (length old + length body), alreadysize = int (length old), flushsize = 0, fp = True, d_file = old, d_free = free\<rparr>"
    and "incoming io = http_response code h1 (length body) h2 body @ later" "good_head_end code h1 (length body) h2" "code = 200 \<or> code = 206"
      "length (http_response code h1 (length body) h2 []) < MRJ_MAX_RESPHEAD"
  shows "\<exists>dinfo io'. platform_download (if old = [] then None else Some old) free True url (int (length old + length body)) io = Ok (Some MRJE_OK, dinfo, io') \<and>
     d_file dinfo = old @ body \<and> wire io' = wire io @ get_request h (url_port_of p) path (length old)"
  by (rule download_completes [OF assms])

definition demo_head :: "int list" where "demo_head = codes '' OK'' @ crlf"

lemma demo_download_head: "good_head_end 206 demo_head 3 [] \<and> length (http_response 206 demo_head 3 [] []) < 300"
  by (simp add: demo_head_def good_head_end_def good_head_def http_response_def response_fields_def response_head_def crlf_def
      MRJ_HTTPID_def MRJ_CONTENTLEN_def MRJ_ENDOFHEAD_def dec.simps c_at_def isdigit_def)

theorem download_completes_file_witness:
  "\<exists>dinfo io'. platform_download (Some [7, 8]) 100 True (url_text False (codes ''1.2.3.4'') None (codes ''/f'')) 5
       (demo_world (http_response 206 demo_head 3 [] [1, 2, 3])) = Ok (Some MRJE_OK, dinfo, io') \<and> d_file dinfo = [7, 8, 1, 2, 3]"
proof -
  have fits: "length (http_response 206 demo_head 3 [] [1, 2, 3]) \<le> 398"
    using demo_download_head by (simp add: http_response_def)
  have req: "length (get_request (codes ''1.2.3.4'') (url_port_of None) (codes ''/f'') (length [7 :: int, 8])) \<le> 400"
    by (simp add: get_request_def S_get_head_range_def url_port_of_def fmt_d_def dec.simps crlf_def)
  have "\<exists>dinfo io'. platform_download (if [7 :: int, 8] = [] then None else Some [7, 8]) 100 True (url_text False (codes ''1.2.3.4'') None (codes ''/f''))
         (int (length [7 :: int, 8] + length [1 :: int, 2, 3])) (demo_world (http_response 206 demo_head (length [1 :: int, 2, 3]) [] [1, 2, 3])) = Ok (Some MRJE_OK, dinfo, io') \<and>
       d_file dinfo = [7, 8] @ [1, 2, 3] \<and> wire io' = wire (demo_world (http_response 206 demo_head (length [1 :: int, 2, 3]) [] [1, 2, 3])) @
       get_request (codes ''1.2.3.4'') (url_port_of None) (codes ''/f'') (length [7 :: int, 8])"
  proof (rule download_completes_file [OF demo_world_mem refl _ _ _ _ _ demo_world_fine refl, where code = 206 and later = "[]"])
    show "incoming (demo_world (http_response 206 demo_head (length [1 :: int, 2, 3]) [] [1, 2, 3])) = http_response 206 demo_head (length [1 :: int, 2, 3]) [] [1, 2, 3] @ []"
      by (simp add: demo_world_def)
    show "timeout_ms (set_opt (get_session (url_text False (codes ''1.2.3.4'') None (codes ''/f'')) (length [7, 8]) platform_parse_download
        \<lparr>d_result = -1, downsize = int (length [7 :: int, 8] + length [1 :: int, 2, 3]), alreadysize = int (length [7 :: int, 8]), flushsize = 0, fp = True, d_file = [7, 8], d_free = 100\<rparr>)) \<in> {30000, 600000}"
      by (simp add: get_session_def)
  qed (use fits req demo_download_head in \<open>simp_all add: demo_world_def url_text_def c_at_def numeral_3_eq_3\<close>)
  then show ?thesis by (auto simp: numeral_3_eq_3)
qed

text \<open>C36: The request with a photo of fewer than 1431655680 bytes, the number not being two more than a multiple of three, is written within the memory
  taken for it, and what follows its parameters decodes to the photo. From that size on, up to the largest \<open>int\<close>, the computation of the size of the
  memory overflows.\<close>

theorem photo_request_round_trip:
  assumes "login_ok login" "list_all is_byte photo" "length photo mod 3 \<noteq> 2" "length photo < 2 ^ 31"
  shows "if length photo < 1431655680
    then \<exists>n out. photo_base64_size (to_s32 (int (length photo))) = Ok n \<and>
      photo_request login photo (to_s32 (int (length photo))) n = Ok (photo_param login @ out) \<and> b64_decode out = photo
    else photo_base64_size (to_s32 (int (length photo))) = Fault"
  using photo_request_decodes [OF assms(1-3)] photo_too_large [of photo] assms(4) by simp

theorem photo_request_round_trip_witness:
  "\<exists>n out. photo_base64_size (to_s32 4) = Ok n \<and> photo_request zero_login [255, 216, 7, 0] (to_s32 4) n = Ok (photo_param zero_login @ out) \<and>
     b64_decode out = [255, 216, 7, 0]"
  using photo_request_round_trip [of zero_login "[255, 216, 7, 0]"] by (simp add: login_ok_def zero_login_def is_byte_def)

text \<open>The device logs in with the JSON text of its data: the text fits into the request and reads back as the object it was
  made from.\<close>

theorem login_text_reads_back:
  "\<exists>s. create_login_json_string pr = Ok (Some s) \<and> cJSON_Parse s = Ok (Inr (login_object, [])) \<and> length (codes ''data='' @ s) \<le> MAX_DATA_LEN - 2"
  by (rule login_string_reads_back)

end
