(* ===== verification/Net_Route.thy ===== *)
theory Net_Route
  imports Ip_Text Http_Client
begin

text \<open>
  The route table (the first part of base/test_setnet.c): reading the text of /proc/net/route column by column, the routes that
  are deleted and the gateway that is found. The system is a record of scripts for \<^verbatim>\<open>socket\<close> and \<^verbatim>\<open>ioctl\<close>, of files, and of the requests
  made so far. What is proved is about the table as the kernel prints it.
\<close>

unbundle bit_operations_syntax

section \<open>Route entries\<close>

abbreviation PF_INET :: int where "PF_INET \<equiv> 2"
abbreviation RTF_UP :: "16 word" where "RTF_UP \<equiv> 1"
abbreviation RTF_GATEWAY :: "16 word" where "RTF_GATEWAY \<equiv> 2"

record route_sockaddr =
  ra_family :: int
  ra_addr :: "32 word"

record rtentry =
  rt_dev :: "int list option"
  rt_dst :: route_sockaddr
  rt_gateway :: route_sockaddr
  rt_genmask :: route_sockaddr
  rt_flags :: "16 word"

definition inet :: "32 word \<Rightarrow> route_sockaddr" where
  "inet a = \<lparr>ra_family = PF_INET, ra_addr = a\<rparr>"

definition zero_rt :: rtentry where
  "zero_rt = (let z = \<lparr>ra_family = 0, ra_addr = 0\<rparr> in \<lparr>rt_dev = None, rt_dst = z, rt_gateway = z, rt_genmask = z, rt_flags = 0\<rparr>)"

section \<open>The system\<close>

text \<open>
  A read of the route file: it cannot be opened, it cannot be read, or it has this text. The requests to the system are recorded; \<^verbatim>\<open>socket\<close>
  and \<^verbatim>\<open>ioctl\<close> take their results from scripts, an \<^verbatim>\<open>ioctl\<close> that reads an address with the address. Files have the content they were
  written with.
\<close>

datatype route_file = NoRoutes | BadRead | Routes "int list"

datatype net_call =
    SIOCSIFADDR "int list" "32 word" | SIOCSIFDSTADDR "int list" "32 word" | SIOCSIFNETMASK "int list" "32 word" | SIOCSIFMTU "int list" int
  | SIOCGIFADDR "int list" | SIOCGIFNETMASK "int list" | SIOCGIFHWADDR "int list"
  | SIOCDELRT rtentry | SIOCADDRT rtentry | SETHOSTNAME "int list"

record netsys =
  rt_reads :: "route_file list"
  socks :: "bool list"
  replies :: "(int \<times> 32 word) list"
  hw_addr :: "int list"
  host_reply :: "int \<times> int list"
  mems :: "bool list"
  files :: "int list \<Rightarrow> int list option"
  writable :: "int list \<Rightarrow> bool"
  resolver :: "int list \<Rightarrow> 32 word option"
  calls :: "net_call list"

definition net_socket :: "netsys \<Rightarrow> (bool \<times> netsys) outcome" where
  "net_socket sys = (case socks sys of [] \<Rightarrow> NoFuel | ok # ss \<Rightarrow> Ok (ok, sys\<lparr>socks := ss\<rparr>))"

definition net_ioctl :: "net_call \<Rightarrow> netsys \<Rightarrow> (int \<times> 32 word \<times> netsys) outcome" where
  "net_ioctl call sys =
     (case replies sys of [] \<Rightarrow> NoFuel | (r, v) # rs \<Rightarrow> Ok (r, v, sys\<lparr>replies := rs, calls := calls sys @ [call]\<rparr>))"

section \<open>Reading the route file\<close>

definition eol :: "int \<Rightarrow> bool" where
  "eol c \<longleftrightarrow> c = 13 \<or> c = 10"

definition blank :: "int \<Rightarrow> bool" where
  "blank c \<longleftrightarrow> c = 32 \<or> c = 9"

lemma separators [simp]: "eol 10" "eol 13" "\<not> eol 32" "\<not> eol 9" "blank 32" "blank 9" "\<not> blank 10" "\<not> blank 13"
  by (simp_all add: eol_def blank_def)

record columns =
  coldev :: nat
  coldst :: nat
  colgw :: nat
  colmask :: nat
  colflag :: nat

definition start_columns :: columns where
  "start_columns = \<lparr>coldev = 0, coldst = 1, colgw = 2, colmask = 7, colflag = 3\<rparr>"

definition name_column :: "int list \<Rightarrow> nat \<Rightarrow> columns \<Rightarrow> columns" where
  "name_column p i c =
     (if strncaseeq p ''iface'' 5 then c\<lparr>coldev := i\<rparr>
      else if strncaseeq p ''destination'' 11 then c\<lparr>coldst := i\<rparr>
      else if strncaseeq p ''gateway'' 7 then c\<lparr>colgw := i\<rparr>
      else if strncaseeq p ''mask'' 4 then c\<lparr>colmask := i\<rparr>
      else if strncaseeq p ''flags'' 5 then c\<lparr>colflag := i\<rparr>
      else c)"

text \<open>The loop over the names of the columns. The search for a letter or an end of line does not stop at the end of the text.\<close>

function header_loop :: "columns \<Rightarrow> nat \<Rightarrow> int list \<Rightarrow> (columns \<times> int list) outcome" where
  "header_loop c i p =
     (if p = [] then Ok (c, [])
      else
        case dropWhile (\<lambda>x. \<not> (isalpha x \<or> eol x)) p of
          [] \<Rightarrow> Fault
        | x # xs \<Rightarrow>
            if eol x then Ok (c, x # xs)
            else header_loop (name_column (x # xs) i c) (i + 1) (dropWhile isalpha (x # xs)))"
  by auto

termination
proof (relation "measure (\<lambda>(c, i, p). length p)")
  fix c :: columns and i :: nat and p xs :: "int list" and x :: int
  assume a: "dropWhile (\<lambda>x. \<not> (isalpha x \<or> eol x)) p = x # xs" "\<not> eol x"
  have "isalpha x" using a hd_dropWhile [of "\<lambda>x. \<not> (isalpha x \<or> eol x)" p] by auto
  then have "length (dropWhile isalpha (x # xs)) < length (x # xs)" by (simp add: le_imp_less_Suc length_dropWhile_le)
  also have "\<dots> \<le> length p" unfolding a(1) [symmetric] by (rule length_dropWhile_le)
  finally show "((name_column (x # xs) i c, i + 1, dropWhile isalpha (x # xs)), (c, i, p)) \<in> measure (\<lambda>(c, i, p). length p)" by simp
qed simp

declare header_loop.simps [simp del]

text \<open>\<^verbatim>\<open>strtoul\<close> with base 16.\<close>

definition strtoul_16 :: "int list \<Rightarrow> nat" where
  "strtoul_16 str =
     (let s = dropWhile isspace str;
          neg = (c_at s 0 = 45);
          s1 = (if neg \<or> c_at s 0 = 43 then drop 1 s else s);
          s2 = (if c_at s1 0 = 48 \<and> (c_at s1 1 = 120 \<or> c_at s1 1 = 88) \<and> digit_of (c_at s1 2) < 16 then drop 2 s1 else s1);
          v = fst (take_digits 16 0 s2)
      in if 2 ^ 64 \<le> v then 2 ^ 64 - 1 else if neg then (2 ^ 64 - v) mod 2 ^ 64 else v)"

definition route_token :: "int list \<Rightarrow> int list \<times> int list" where
  "route_token p = (let q = dropWhile blank p in (takeWhile (\<lambda>x. \<not> blank x \<and> \<not> eol x) q, dropWhile (\<lambda>x. \<not> blank x \<and> \<not> eol x) q))"

definition store_column :: "columns \<Rightarrow> nat \<Rightarrow> int list \<Rightarrow> rtentry \<Rightarrow> rtentry" where
  "store_column c i tok r =
     (if tok = [] then r
      else if i = coldev c then r\<lparr>rt_dev := Some tok\<rparr>
      else
        let val = strtoul_16 tok in
        if i = coldst c then r\<lparr>rt_dst := inet (of_nat val)\<rparr>
        else if i = colgw c then r\<lparr>rt_gateway := inet (of_nat val)\<rparr>
        else if i = colmask c then r\<lparr>rt_genmask := inet (of_nat val)\<rparr>
        else if i = colflag c then r\<lparr>rt_flags := of_nat val\<rparr>
        else r)"

lemma token_progress: "p \<noteq> [] \<Longrightarrow> snd (route_token p) = [] \<or> eol (hd (snd (route_token p))) \<or> length (snd (route_token p)) < length p"
proof -
  assume p: "p \<noteq> []"
  let ?q = "dropWhile blank p" let ?r = "dropWhile (\<lambda>x. \<not> blank x \<and> \<not> eol x) ?q"
  have le: "length ?q \<le> length p" "length ?r \<le> length ?q" by (rule length_dropWhile_le)+
  have "?r = [] \<or> eol (hd ?r) \<or> length ?r < length p"
  proof (cases "?q = p \<and> ?r = ?q")
    case True
    then have "\<not> blank (hd p)" using p hd_dropWhile [of blank p] by fastforce
    moreover have "?r \<noteq> [] \<Longrightarrow> blank (hd ?r) \<or> eol (hd ?r)" using hd_dropWhile [of "\<lambda>x. \<not> blank x \<and> \<not> eol x" ?q] by blast
    ultimately show ?thesis using True by metis
  next
    case False
    then have "length ?q < length p \<or> length ?r < length ?q"
      using le by (metis dropWhile_eq_drop drop_0 length_drop diff_zero le_neq_implies_less length_takeWhile_le diff_is_0_eq takeWhile_dropWhile_id append_self_conv2 length_0_conv length_append add_cancel_left_left)
    with le show ?thesis by linarith
  qed
  then show ?thesis by (simp add: route_token_def Let_def)
qed

text \<open>
  The loops over the rows. A token has room for 255 characters. Deleting collects the entries of the default routes that are up, at most 16
  of them; an entry that is not taken is overwritten column by column, not cleared.
\<close>

definition default_up :: "rtentry \<Rightarrow> bool" where
  "default_up r \<longleftrightarrow> rt_flags r AND RTF_UP \<noteq> 0 \<and> ra_addr (rt_dst r) = 0"

function del_loop :: "columns \<Rightarrow> nat \<Rightarrow> rtentry list \<Rightarrow> rtentry \<Rightarrow> int list \<Rightarrow> rtentry list outcome" where
  "del_loop c i rts cur p =
     (if p = [] then Ok rts
      else
        let (tok, q) = route_token p in
        if length tok > 255 then Fault
        else
          let cur1 = store_column c i tok cur in
          if q = [] \<or> eol (hd q) then
            if default_up cur1 then
              if length rts + 1 \<ge> 16 then Ok (rts @ [cur1]) else del_loop c 0 (rts @ [cur1]) zero_rt (dropWhile eol q)
            else del_loop c 0 rts cur1 (dropWhile eol q)
          else del_loop c (i + 1) rts cur1 q)"
  by auto

lemma row_end_progress: "p \<noteq> [] \<Longrightarrow> (tok, q) = route_token p \<Longrightarrow> q = [] \<or> eol (hd q) \<Longrightarrow> length (dropWhile eol q) < length p"
proof -
  assume p: "p \<noteq> []" "(tok, q) = route_token p" "q = [] \<or> eol (hd q)"
  have q: "length q \<le> length p"
    using p(2) length_dropWhile_le [of "\<lambda>x. \<not> blank x \<and> \<not> eol x" "dropWhile blank p"] length_dropWhile_le [of blank p]
    by (auto simp: route_token_def Let_def intro: order_trans)
  show ?thesis
  proof (cases q)
    case Nil
    then show ?thesis using p(1) by simp
  next
    case (Cons x xs)
    then have "length (dropWhile eol q) \<le> length xs" using p(3) length_dropWhile_le [of eol xs] by simp
    with q Cons show ?thesis by simp
  qed
qed

lemma row_step_progress: "p \<noteq> [] \<Longrightarrow> (tok, q) = route_token p \<Longrightarrow> \<not> (q = [] \<or> eol (hd q)) \<Longrightarrow> length q < length p"
  using token_progress [of p] by (auto dest!: sym [of "(tok, q)"])

termination del_loop
  by (relation "measure (\<lambda>(c, i, rts, cur, p). length p)") (auto dest: row_end_progress row_step_progress)

declare del_loop.simps [simp del]

text \<open>The test for the default route combines the flag and the destination bit by bit.\<close>

definition taken_gateway :: "rtentry \<Rightarrow> bool" where
  "taken_gateway r \<longleftrightarrow> ucast (rt_flags r AND RTF_UP) AND ra_addr (rt_dst r) = 0 \<and> ra_addr (rt_gateway r) \<noteq> 0"

function get_loop :: "columns \<Rightarrow> nat \<Rightarrow> rtentry \<Rightarrow> int list \<Rightarrow> 32 word outcome" where
  "get_loop c i cur p =
     (if p = [] then Ok 0
      else
        let (tok, q) = route_token p in
        if length tok > 255 then Fault
        else
          let cur1 = store_column c i tok cur in
          if q = [] \<or> eol (hd q) then
            if taken_gateway cur1 then Ok (ra_addr (rt_gateway cur1)) else get_loop c 0 zero_rt (dropWhile eol q)
          else get_loop c (i + 1) cur1 q)"
  by auto

termination get_loop
  by (relation "measure (\<lambda>(c, i, cur, p). length p)") (auto dest: row_end_progress row_step_progress)

declare get_loop.simps [simp del]

text \<open>Both functions read at most 1023 characters of the file in one read.\<close>

definition read_routes :: "netsys \<Rightarrow> (int list option \<times> netsys) outcome" where
  "read_routes sys =
     (case rt_reads sys of
        [] \<Rightarrow> NoFuel
      | NoRoutes # rs \<Rightarrow> Ok (None, sys\<lparr>rt_reads := rs\<rparr>)
      | BadRead # rs \<Rightarrow> Fault
      | Routes t # rs \<Rightarrow> Ok (Some (takeWhile (\<lambda>x. x \<noteq> 0) (take 1023 t)), sys\<lparr>rt_reads := rs\<rparr>))"

fun delete_routes :: "rtentry list \<Rightarrow> netsys \<Rightarrow> netsys outcome" where
  "delete_routes [] sys = Ok sys"
| "delete_routes (r # rs) sys = bind_outcome (net_ioctl (SIOCDELRT r) sys) (\<lambda>(ret, v, sys1). delete_routes rs sys1)"

definition del_default_route :: "netsys \<Rightarrow> netsys outcome" where
  "del_default_route sys =
     bind_outcome (read_routes sys) (\<lambda>(txt, sys1).
       case txt of
         None \<Rightarrow> Ok sys1
       | Some p \<Rightarrow>
           bind_outcome (header_loop start_columns 0 p) (\<lambda>(c, p1).
           bind_outcome (del_loop c 0 [] zero_rt (dropWhile eol p1)) (\<lambda>rts.
             if rts = [] then Ok sys1
             else bind_outcome (net_socket sys1) (\<lambda>(ok, sys2). if ok then delete_routes rts sys2 else Ok sys2))))"

definition get_default_route :: "netsys \<Rightarrow> (32 word \<times> netsys) outcome" where
  "get_default_route sys =
     bind_outcome (read_routes sys) (\<lambda>(txt, sys1).
       case txt of
         None \<Rightarrow> Ok (0, sys1)
       | Some p \<Rightarrow>
           bind_outcome (header_loop start_columns 0 p) (\<lambda>(c, p1).
           bind_outcome (get_loop c 0 zero_rt (dropWhile eol p1)) (\<lambda>gw. Ok (gw, sys1))))"

section \<open>Rows of a table\<close>

text \<open>The tokens of a row, stored one after the other.\<close>

fun store_row :: "columns \<Rightarrow> nat \<Rightarrow> int list list \<Rightarrow> rtentry \<Rightarrow> rtentry" where
  "store_row c i [] cur = cur"
| "store_row c i (t # ts) cur = store_row c (i + 1) ts (store_column c i t cur)"

definition token_ok :: "int list \<Rightarrow> bool" where
  "token_ok t \<longleftrightarrow> t \<noteq> [] \<and> length t \<le> 255 \<and> list_all (\<lambda>x. \<not> blank x \<and> \<not> eol x \<and> x \<noteq> 0) t"

fun join_tabs :: "int list list \<Rightarrow> int list" where
  "join_tabs [] = []"
| "join_tabs [t] = t"
| "join_tabs (t # ts) = t @ 9 # join_tabs ts"

lemma route_token_word: "token_ok t \<Longrightarrow> q = [] \<or> blank (hd q) \<or> eol (hd q) \<Longrightarrow> route_token (t @ q) = (t, q)"
proof -
  assume t: "token_ok t" and q: "q = [] \<or> blank (hd q) \<or> eol (hd q)"
  then have "dropWhile blank (t @ q) = t @ q" by (cases t) (auto simp: token_ok_def)
  moreover have "takeWhile (\<lambda>x. \<not> blank x \<and> \<not> eol x) (t @ q) = t @ takeWhile (\<lambda>x. \<not> blank x \<and> \<not> eol x) q"
    "dropWhile (\<lambda>x. \<not> blank x \<and> \<not> eol x) (t @ q) = dropWhile (\<lambda>x. \<not> blank x \<and> \<not> eol x) q"
    using t by (auto simp: token_ok_def list_all_iff intro: takeWhile_append2 dropWhile_append2)
  moreover have "takeWhile (\<lambda>x. \<not> blank x \<and> \<not> eol x) q = []" "dropWhile (\<lambda>x. \<not> blank x \<and> \<not> eol x) q = q"
    using q by (cases q; auto)+
  ultimately show ?thesis by (simp add: route_token_def)
qed

lemma route_token_blank: "route_token (9 # p) = route_token p"
  by (simp add: route_token_def)

lemma route_token_pad: "route_token (replicate n 32 @ 10 # p) = ([], 10 # p)"
  by (induction n) (auto simp: route_token_def)

locale row_loop =
  fixes loop :: "columns \<Rightarrow> nat \<Rightarrow> 's \<Rightarrow> rtentry \<Rightarrow> int list \<Rightarrow> 'r outcome"
    and at_end :: "columns \<Rightarrow> 's \<Rightarrow> rtentry \<Rightarrow> int list \<Rightarrow> 'r outcome"
  assumes step: "p \<noteq> [] \<Longrightarrow> loop c i s cur p =
     (let (tok, q) = route_token p in
      if length tok > 255 then Fault
      else if q = [] \<or> eol (hd q) then at_end c s (store_column c i tok cur) (dropWhile eol q)
      else loop c (i + 1) s (store_column c i tok cur) q)"
begin

lemma tab: "p \<noteq> [] \<Longrightarrow> loop c i s cur (9 # p) = loop c i s cur p"
  by (simp add: step route_token_blank)

lemma padding: "loop c i s cur (replicate n 32 @ 10 # p) = at_end c s cur (dropWhile eol p)"
  by (simp add: step route_token_pad store_column_def)

lemma row:
  "list_all token_ok ts \<Longrightarrow> ts \<noteq> [] \<Longrightarrow>
   loop c i s cur (join_tabs ts @ replicate n 32 @ 10 # p) = at_end c s (store_row c i ts cur) (dropWhile eol p)"
proof (induction ts arbitrary: i cur rule: join_tabs.induct)
  case (2 t)
  have r: "route_token (t @ replicate n 32 @ 10 # p) = (t, replicate n 32 @ 10 # p)"
    using "2.prems" by (intro route_token_word) (auto simp: hd_append)
  have len: "\<not> 255 < length t" using "2.prems" by (auto simp: token_ok_def)
  show ?case
  proof (cases n)
    case 0
    then show ?thesis using r len by (simp add: step)
  next
    case (Suc m)
    then have "\<not> eol (hd (replicate n 32 @ 10 # p))" by simp
    then have "loop c i s cur (t @ replicate n 32 @ 10 # p) = loop c (i + 1) s (store_column c i t cur) (replicate n 32 @ 10 # p)"
      using r len by (simp add: step [of "t @ replicate n 32 @ 10 # p"])
    then show ?thesis by (simp add: padding)
  qed
next
  case (3 t u us)
  have r: "route_token (t @ 9 # join_tabs (u # us) @ replicate n 32 @ 10 # p) = (t, 9 # join_tabs (u # us) @ replicate n 32 @ 10 # p)"
    using "3.prems" by (intro route_token_word) auto
  have len: "\<not> 255 < length t" using "3.prems" by (auto simp: token_ok_def)
  have "loop c i s cur (join_tabs (t # u # us) @ replicate n 32 @ 10 # p) =
      loop c (i + 1) s (store_column c i t cur) (9 # join_tabs (u # us) @ replicate n 32 @ 10 # p)"
    using r len by (simp add: step [of "t @ _"])
  also have "\<dots> = loop c (i + 1) s (store_column c i t cur) (join_tabs (u # us) @ replicate n 32 @ 10 # p)" by (rule tab) simp
  finally show ?case using "3.IH" "3.prems" by simp
qed simp

end

interpretation del_rows: row_loop del_loop
  "\<lambda>c rts cur p. if default_up cur then if length rts + 1 \<ge> 16 then Ok (rts @ [cur]) else del_loop c 0 (rts @ [cur]) zero_rt p
     else del_loop c 0 rts cur p"
  by unfold_locales (simp add: del_loop.simps Let_def split: prod.split)

interpretation get_rows: row_loop "\<lambda>c i (u :: unit) cur p. get_loop c i cur p"
  "\<lambda>c u cur p. if taken_gateway cur then Ok (ra_addr (rt_gateway cur)) else get_loop c 0 zero_rt p"
  by unfold_locales (simp add: get_loop.simps Let_def split: prod.split)

section \<open>The table as the kernel prints it\<close>

definition hex_up :: "nat \<Rightarrow> int" where
  "hex_up d = (if d < 10 then 48 + int d else 55 + int d)"

fun hex_text :: "nat \<Rightarrow> nat \<Rightarrow> int list" where
  "hex_text 0 v = []"
| "hex_text (Suc k) v = hex_text k (v div 16) @ [hex_up (v mod 16)]"

lemma hex_up_simps [simp]: "d < 16 \<Longrightarrow> digit_of (hex_up d) = d" "\<not> blank (hex_up d)" "\<not> eol (hex_up d)" "hex_up d \<noteq> 0"
  by (auto simp: hex_up_def digit_of_def isdigit_def blank_def eol_def)

lemma length_hex_text [simp]: "length (hex_text k v) = k"
  by (induction k arbitrary: v) auto

lemma hex_text_chars: "list_all (\<lambda>x. \<not> blank x \<and> \<not> eol x \<and> x \<noteq> 0) (hex_text k v)" "list_all (\<lambda>x. \<exists>d < 16. x = hex_up d) (hex_text k v)"
  by (induction k arbitrary: v) (auto intro!: exI [of _ "_ mod 16"])

lemma take_digits_hex: "take_digits 16 a (hex_text k v @ cs) = take_digits 16 (16 ^ k * a + v mod 16 ^ k) cs"
proof (induction k arbitrary: a v cs)
  case (Suc k)
  have "v mod 16 ^ Suc k = 16 * (v div 16 mod 16 ^ k) + v mod 16" by (simp add: mod_mult2_eq)
  then show ?case using Suc [of a "v div 16"] by (simp add: algebra_simps)
qed simp

lemma strtoul_hex: "0 < k \<Longrightarrow> v < 16 ^ k \<Longrightarrow> k \<le> 16 \<Longrightarrow> strtoul_16 (hex_text k v) = v"
proof -
  assume k: "0 < k" "v < 16 ^ k" "k \<le> 16"
  let ?h = "hex_text k v"
  have d: "\<exists>e < 16. c = hex_up e" if "c \<in> set ?h" for c using that hex_text_chars(2) [of k v] by (auto simp: list_all_iff)
  have n: "c \<noteq> 43 \<and> c \<noteq> 45 \<and> c \<noteq> 120 \<and> c \<noteq> 88 \<and> \<not> isspace c" if "c \<in> set ?h" for c
    using d [OF that] by (auto simp: hex_up_def isspace_def split: if_splits)
  have at: "c_at ?h i \<noteq> 43 \<and> c_at ?h i \<noteq> 45 \<and> c_at ?h i \<noteq> 120 \<and> c_at ?h i \<noteq> 88" for i
    using n [OF nth_mem, of i] by (simp add: c_at_def)
  have "dropWhile isspace ?h = ?h" using n k(1) length_hex_text [of k v] by (cases ?h) auto
  moreover have "take_digits 16 0 ?h = (v, [])" using take_digits_hex [of 0 k v "[]"] k(2) by simp
  moreover have "v < 2 ^ 64" using k(2) power_increasing [of k 16 "16 :: nat"] k(3) by simp
  ultimately show ?thesis using at by (simp add: strtoul_16_def)
qed

record route =
  r_dev :: "int list"
  r_dst :: "32 word"
  r_gw :: "32 word"
  r_flags :: "16 word"
  r_counts :: "int list list"
  r_mask :: "32 word"
  r_tail :: "int list list"

definition route_ok :: "route \<Rightarrow> bool" where
  "route_ok r \<longleftrightarrow> token_ok (r_dev r) \<and> length (r_counts r) = 3 \<and> list_all token_ok (r_counts r) \<and> list_all token_ok (r_tail r)"

definition route_tokens :: "route \<Rightarrow> int list list" where
  "route_tokens r =
     [r_dev r, hex_text 8 (unat (r_dst r)), hex_text 8 (unat (r_gw r)), hex_text 4 (unat (r_flags r))] @ r_counts r @ [hex_text 8 (unat (r_mask r))] @ r_tail r"

definition route_line :: "nat \<Rightarrow> route \<Rightarrow> int list" where
  "route_line pad r = join_tabs (route_tokens r) @ replicate pad 32 @ [10]"

definition table_header :: "nat \<Rightarrow> int list" where
  "table_header pad = join_tabs (map codes [''Iface'', ''Destination'', ''Gateway '', ''Flags'', ''RefCnt'', ''Use'', ''Metric'', ''Mask'', [],
     ''MTU'', ''Window'', ''IRTT'']) @ replicate pad 32 @ [10]"

fun rows_text :: "(nat \<times> route) list \<Rightarrow> int list" where
  "rows_text [] = []"
| "rows_text ((n, r) # rs) = route_line n r @ rows_text rs"

definition route_table :: "nat \<Rightarrow> (nat \<times> route) list \<Rightarrow> int list" where
  "route_table pad rs = table_header pad @ rows_text rs"

definition entry_of :: "route \<Rightarrow> rtentry" where
  "entry_of r = \<lparr>rt_dev = Some (r_dev r), rt_dst = inet (r_dst r), rt_gateway = inet (r_gw r), rt_genmask = inet (r_mask r), rt_flags = r_flags r\<rparr>"

fun entries :: "(nat \<times> route) list \<Rightarrow> rtentry list" where
  "entries [] = []"
| "entries ((n, r) # rs) = entry_of r # entries rs"

lemma strtoul_word32: "strtoul_16 (hex_text 8 (unat (w :: 32 word))) = unat w"
  using unsigned_less [of w, where 'a = nat] by (intro strtoul_hex) simp_all

lemma strtoul_word16: "strtoul_16 (hex_text 4 (unat (w :: 16 word))) = unat w"
  using unsigned_less [of w, where 'a = nat] by (intro strtoul_hex) simp_all

lemma token_ok_hex: "0 < k \<Longrightarrow> k \<le> 255 \<Longrightarrow> token_ok (hex_text k v)"
  using hex_text_chars(1) [of k v] length_hex_text [of k v] by (auto simp: token_ok_def simp del: length_hex_text)

lemma store_other: "8 \<le> i \<Longrightarrow> store_column start_columns i t r = r"
  by (simp add: store_column_def start_columns_def Let_def)

lemma store_row_tail: "8 \<le> i \<Longrightarrow> store_row start_columns i ts r = r"
  by (induction ts arbitrary: i) (simp_all add: store_other)

lemma store_row_route:
  assumes "route_ok r"
  shows "store_row start_columns 0 (route_tokens r) cur = entry_of r"
proof -
  obtain a b c where counts: "r_counts r = [a, b, c]" using assms by (auto simp: route_ok_def numeral_3_eq_3 length_Suc_conv)
  have t: "r_dev r \<noteq> []" "hex_text 8 v \<noteq> []" "hex_text 4 v \<noteq> []" for v
    using assms token_ok_hex [of 8 v] token_ok_hex [of 4 v] by (auto simp: route_ok_def token_ok_def)
  have tail: "store_row start_columns (Suc (Suc (Suc (Suc (Suc (Suc (Suc (Suc 0)))))))) ts e = e" for ts e by (rule store_row_tail) simp
  show ?thesis unfolding route_tokens_def counts
    by (cases cur) (simp add: store_column_def start_columns_def t strtoul_word32 strtoul_word16 entry_of_def tail [unfolded start_columns_def, simplified])
qed

lemma header_columns: "header_loop start_columns 0 (table_header pad @ q) = Ok (start_columns, 10 # q)"
proof -
  have d: "dropWhile (\<lambda>x. \<not> (isalpha x \<or> eol x)) (replicate pad 32 @ 10 # q) = 10 # q" by (induction pad) (simp_all add: isalpha_def)
  have d2: "dropWhile isalpha (replicate pad 32 @ 10 # q) = replicate pad 32 @ 10 # q" by (cases pad) (simp_all add: isalpha_def)
  have last: "header_loop c i (replicate pad 32 @ 10 # q) = Ok (c, 10 # q)" for c i
    using d by (simp add: header_loop.simps)
  show ?thesis unfolding table_header_def
    by (simp add: header_loop.simps [of _ _ "_ # _"] isalpha_def [of "numeral _"] eol_def [of "numeral _"] name_column_def strncaseeq_def tolower_c_def last d2 start_columns_def)
qed

lemma route_tokens_ok:
  assumes "route_ok r"
  shows "list_all token_ok (route_tokens r)"
  using assms by (simp add: route_ok_def route_tokens_def token_ok_hex)

lemma route_tokens_Nil [simp]: "route_tokens r \<noteq> []"
  by (simp add: route_tokens_def)

lemma line_start: "route_ok r \<Longrightarrow> \<exists>x xs. route_line n r = x # xs \<and> \<not> eol x"
  by (cases "r_dev r") (auto simp: route_line_def route_tokens_def route_ok_def token_ok_def)

lemma lines_start: "list_all (\<lambda>(n, r). route_ok r) rs \<Longrightarrow> dropWhile eol (rows_text rs) = rows_text rs"
proof (cases rs)
  case (Cons nr rs')
  assume "list_all (\<lambda>(n, r). route_ok r) rs"
  then obtain x xs where "route_line (fst nr) (snd nr) = x # xs" "\<not> eol x" using line_start [of "snd nr" "fst nr"] Cons by (auto split: prod.splits)
  then show ?thesis using Cons by (cases nr) simp
qed simp

lemma del_row:
  "route_ok r \<Longrightarrow> del_loop start_columns 0 rts cur (route_line n r @ q) =
    (if default_up (entry_of r) then if length rts + 1 \<ge> 16 then Ok (rts @ [entry_of r]) else del_loop start_columns 0 (rts @ [entry_of r]) zero_rt (dropWhile eol q)
     else del_loop start_columns 0 rts (entry_of r) (dropWhile eol q))"
  using del_rows.row [OF route_tokens_ok, of r start_columns 0 rts cur n q] by (simp add: route_line_def store_row_route)

lemma get_row:
  "route_ok r \<Longrightarrow> get_loop start_columns 0 cur (route_line n r @ q) =
    (if taken_gateway (entry_of r) then Ok (ra_addr (rt_gateway (entry_of r))) else get_loop start_columns 0 zero_rt (dropWhile eol q))"
  using get_rows.row [OF route_tokens_ok, of r start_columns 0 cur n q] by (simp add: route_line_def store_row_route)

lemma del_loop_rows:
  "list_all (\<lambda>(n, r). route_ok r) rs \<Longrightarrow> length rts < 16 \<Longrightarrow>
   del_loop start_columns 0 rts cur (rows_text rs) =
     Ok (rts @ take (16 - length rts) (filter default_up (entries rs)))"
proof (induction rs arbitrary: rts cur)
  case Nil
  then show ?case by (simp add: del_loop.simps)
next
  case (Cons nr rs)
  obtain n r where nr: "nr = (n, r)" by (cases nr)
  have ok: "route_ok r" "list_all (\<lambda>(n, r). route_ok r) rs" using Cons.prems(1) nr by auto
  note row = del_row [OF ok(1), of rts cur n "rows_text rs", unfolded lines_start [OF ok(2)]]
  show ?case
  proof (cases "default_up (entry_of r)")
    case True
    show ?thesis
    proof (cases "length rts + 1 \<ge> 16")
      case True
      then have "16 - length rts = 1" using Cons.prems(2) by simp
      then show ?thesis using row \<open>default_up (entry_of r)\<close> True nr by simp
    next
      case False
      then have "16 - length rts = Suc (16 - length (rts @ [entry_of r]))" using Cons.prems(2) by simp
      moreover have "del_loop start_columns 0 (rts @ [entry_of r]) zero_rt (rows_text rs) =
          Ok ((rts @ [entry_of r]) @ take (16 - length (rts @ [entry_of r])) (filter default_up (entries rs)))"
        using ok(2) False by (intro Cons.IH) auto
      ultimately show ?thesis using row \<open>default_up (entry_of r)\<close> False nr by simp
    qed
  next
    case False
    then show ?thesis using row Cons.IH [OF ok(2) Cons.prems(2), of "entry_of r"] nr by simp
  qed
qed

definition route_gateway :: "rtentry list \<Rightarrow> 32 word" where
  "route_gateway rs = (case find taken_gateway rs of None \<Rightarrow> 0 | Some r \<Rightarrow> ra_addr (rt_gateway r))"

lemma get_loop_rows:
  "list_all (\<lambda>(n, r). route_ok r) rs \<Longrightarrow>
   get_loop start_columns 0 cur (rows_text rs) = Ok (route_gateway (entries rs))"
proof (induction rs arbitrary: cur)
  case Nil
  then show ?case by (simp add: get_loop.simps route_gateway_def)
next
  case (Cons nr rs)
  obtain n r where nr: "nr = (n, r)" by (cases nr)
  have ok: "route_ok r" "list_all (\<lambda>(n, r). route_ok r) rs" using Cons.prems(1) nr by auto
  note get_row [OF ok(1), of cur n "rows_text rs", unfolded lines_start [OF ok(2)]]
  then show ?case using Cons.IH [OF ok(2)] nr by (simp add: route_gateway_def)
qed

lemma join_tabs_chars: "x \<in> set (join_tabs ts) \<Longrightarrow> x = 9 \<or> (\<exists>t \<in> set ts. x \<in> set t)"
  by (induction ts rule: join_tabs.induct) auto

lemma line_no_nul: "route_ok r \<Longrightarrow> 0 \<notin> set (route_line n r)"
  using join_tabs_chars route_tokens_ok [of r] by (fastforce simp: route_line_def list_all_iff token_ok_def)

lemma rows_no_nul: "list_all (\<lambda>(n, r). route_ok r) rs \<Longrightarrow> 0 \<notin> set (rows_text rs)"
  using line_no_nul by (induction rs rule: rows_text.induct) auto

lemma table_no_nul: "list_all (\<lambda>(n, r). route_ok r) rs \<Longrightarrow> 0 \<notin> set (route_table pad rs)"
  using rows_no_nul by (auto simp: route_table_def table_header_def)

lemma read_table:
  assumes "rt_reads sys = Routes (route_table pad rs) # later" "list_all (\<lambda>(n, r). route_ok r) rs" "length (route_table pad rs) \<le> 1023"
  shows "read_routes sys = Ok (Some (route_table pad rs), sys\<lparr>rt_reads := later\<rparr>)"
  using assms(1, 3) table_no_nul [OF assms(2), of pad] by (auto simp: read_routes_def takeWhile_eq_all_conv)

lemma get_default_route_table:
  assumes "rt_reads sys = Routes (route_table pad rs) # later" "list_all (\<lambda>(n, r). route_ok r) rs" "length (route_table pad rs) \<le> 1023"
  shows "get_default_route sys = Ok (route_gateway (entries rs), sys\<lparr>rt_reads := later\<rparr>)"
  using read_table [OF assms] header_columns [of pad "rows_text rs"] get_loop_rows [OF assms(2)] lines_start [OF assms(2)]
  by (simp add: get_default_route_def route_table_def)

lemma delete_routes_calls:
  "length rts \<le> length (replies sys) \<Longrightarrow>
   delete_routes rts sys = Ok (sys\<lparr>replies := drop (length rts) (replies sys), calls := calls sys @ map SIOCDELRT rts\<rparr>)"
proof (induction rts arbitrary: sys)
  case (Cons r rts)
  then obtain ret v rs where "replies sys = (ret, v) # rs" by (cases "replies sys") auto
  then show ?case using Cons by (simp add: net_ioctl_def)
qed simp

definition deleted_routes :: "(nat \<times> route) list \<Rightarrow> rtentry list" where
  "deleted_routes rs = take 16 (filter default_up (entries rs))"

lemma del_default_route_table:
  assumes "rt_reads sys = Routes (route_table pad rs) # later" "list_all (\<lambda>(n, r). route_ok r) rs" "length (route_table pad rs) \<le> 1023"
  shows "del_default_route sys =
     (if deleted_routes rs = [] then Ok (sys\<lparr>rt_reads := later\<rparr>)
      else bind_outcome (net_socket (sys\<lparr>rt_reads := later\<rparr>)) (\<lambda>(ok, sys2). if ok then delete_routes (deleted_routes rs) sys2 else Ok sys2))"
  using read_table [OF assms] header_columns [of pad "rows_text rs"] del_loop_rows [OF assms(2), of "[]" zero_rt] lines_start [OF assms(2)]
  unfolding deleted_routes_def by (simp add: del_default_route_def route_table_def)

end
