(* ===== verification/Net_Setup.thy ===== *)
theory Net_Setup
  imports Net_Route
begin

text \<open>
  The settings of the network (base/test_setnet.c): reading them from the interface and the configuration files, and changing them. A
  static configuration makes the requests it should and is read back as it was set.
\<close>

section \<open>Addresses as texts\<close>

definition inet_ntoa :: "32 word \<Rightarrow> int list" where
  "inet_ntoa a = ip_text (unat (htonl a))"

definition inet_aton :: "int list \<Rightarrow> 32 word option" where
  "inet_aton s =
     (case addr_parts 4 s of
        None \<Rightarrow> None
      | Some ps \<Rightarrow>
          let n = length ps - 1;
              high = foldr (\<lambda>i acc. ps ! i * 2 ^ (24 - 8 * i) + acc) [0..<n] 0
          in if ps ! n < 2 ^ (32 - 8 * n) then Some (htonl (of_nat (high + ps ! n))) else None)"

section \<open>Reading the settings\<close>

text \<open>\<^verbatim>\<open>strncasecmp\<close> at the front of what is left of a file: it goes on behind the end of the file as long as the characters agree.\<close>

fun same_key :: "int list \<Rightarrow> int list \<Rightarrow> bool outcome" where
  "same_key s [] = Ok True"
| "same_key [] (k # ks) = Fault"
| "same_key (c # cs) (k # ks) = (if tolower_c c = tolower_c k then same_key cs ks else Ok False)"

text \<open>The search for a key, and what follows it; nothing if it is not found.\<close>

fun find_key :: "int list \<Rightarrow> int list \<Rightarrow> int list outcome" where
  "find_key k [] = Ok []"
| "find_key k (c # cs) = bind_outcome (same_key (c # cs) k) (\<lambda>m. if m then Ok (drop (length k) (c # cs)) else find_key k cs)"

definition line_end :: "int \<Rightarrow> bool" where
  "line_end c \<longleftrightarrow> c = 13 \<or> c = 10 \<or> c = 0"

text \<open>A copy of the rest of a line from its first letter or digit on, into a buffer of the given size, and what follows the line.\<close>

definition copy_value :: "nat \<Rightarrow> int list \<Rightarrow> (int list \<times> int list) outcome" where
  "copy_value cap s =
     (let t = dropWhile (\<lambda>c. \<not> isalnum c) s; v = takeWhile (\<lambda>c. \<not> line_end c) t in
      if length v < cap then Ok (v, drop 1 (dropWhile (\<lambda>c. \<not> line_end c) t)) else Fault)"

definition read_gateway :: "nat \<Rightarrow> int list \<Rightarrow> int list outcome" where
  "read_gateway cap t =
     bind_outcome (find_key (codes ''GATEWAY'') t) (\<lambda>s.
     bind_outcome (copy_value cap (drop 1 (dropWhile (\<lambda>c. c \<noteq> 61) s))) (\<lambda>(v, r). Ok v))"

text \<open>
  A name server: behind the key there must be a blank, else the search is over (\<open>None\<close>). The character behind the key is read even where the
  file ends.
\<close>

definition read_server :: "nat \<Rightarrow> int list \<Rightarrow> (int list \<times> int list option) outcome" where
  "read_server cap t =
     bind_outcome (find_key (codes ''nameserver'') t) (\<lambda>s.
       case s of
         [] \<Rightarrow> Fault
       | c # cs \<Rightarrow>
           if c \<noteq> 32 \<and> c \<noteq> 9 then if 0 < cap then Ok ([], None) else Fault
           else bind_outcome (copy_value cap s) (\<lambda>(v, r). Ok (v, Some r)))"

definition read_servers :: "nat \<Rightarrow> nat option \<Rightarrow> int list \<Rightarrow> (int list \<times> int list option) outcome" where
  "read_servers cap cap2 t =
     bind_outcome (read_server cap t) (\<lambda>(v, r).
       case cap2 of
         None \<Rightarrow> Ok (v, None)
       | Some n \<Rightarrow>
           case r of
             None \<Rightarrow> if 0 < n then Ok (v, Some []) else Fault
           | Some r' \<Rightarrow> bind_outcome (read_server n r') (\<lambda>(v2, r2). Ok (v, Some v2)))"

text \<open>The content of a file that is there, not empty, and for which there is memory.\<close>

definition map_file :: "int list \<Rightarrow> netsys \<Rightarrow> (int list option \<times> netsys) outcome" where
  "map_file path sys =
     (case files sys path of
        None \<Rightarrow> Ok (None, sys)
      | Some t \<Rightarrow>
          if t = [] then Ok (None, sys)
          else case mems sys of [] \<Rightarrow> NoFuel | m # ms \<Rightarrow> Ok (if m then Some t else None, sys\<lparr>mems := ms\<rparr>))"

definition ifcfg_file :: "int list \<Rightarrow> int list" where
  "ifcfg_file name = codes ''/etc/sysconfig/network-scripts/ifcfg-'' @ name"

definition resolv_conf :: "int list" where
  "resolv_conf = codes ''/etc/resolv.conf''"

definition fits_in :: "nat \<Rightarrow> int list \<Rightarrow> int list outcome" where
  "fits_in cap t = (if length t < cap then Ok t else Fault)"

definition ifr_name :: "int list \<Rightarrow> int list" where
  "ifr_name name = take 16 name"

record netinfo =
  n_ret :: int
  n_ip :: "32 word"
  n_mask :: "32 word"
  n_gw :: "int list option"
  n_dns :: "int list option"
  n_dns2 :: "int list option"
  n_mac :: "int list option"
  n_host :: "int list option"

text \<open>The part of \<^verbatim>\<open>getnet\<close> that asks the interface.\<close>

definition get_interface :: "int list \<Rightarrow> bool \<Rightarrow> netinfo \<Rightarrow> netsys \<Rightarrow> (netinfo \<times> netsys) outcome" where
  "get_interface name want_mac ni sys =
     bind_outcome (net_ioctl (SIOCGIFADDR (ifr_name name)) sys) (\<lambda>(ret, ip, sys1).
       if ret \<noteq> 0 then Ok (ni\<lparr>n_ret := ret\<rparr>, sys1)
       else
         bind_outcome (net_ioctl (SIOCGIFNETMASK (ifr_name name)) sys1) (\<lambda>(ret, mask, sys2).
           if ret \<noteq> 0 then Ok (ni\<lparr>n_ret := ret, n_ip := ip\<rparr>, sys2)
           else if want_mac then
             bind_outcome (net_ioctl (SIOCGIFHWADDR (ifr_name name)) sys2) (\<lambda>(ret, v, sys3).
               Ok (ni\<lparr>n_ret := 0, n_ip := ip, n_mask := mask, n_mac := (if ret = 0 then Some (take 6 (hw_addr sys3)) else n_mac ni)\<rparr>, sys3))
           else Ok (ni\<lparr>n_ret := 0, n_ip := ip, n_mask := mask\<rparr>, sys2)))"

definition get_gateway :: "int list \<Rightarrow> nat \<Rightarrow> netsys \<Rightarrow> (int list \<times> netsys) outcome" where
  "get_gateway name cap sys =
     bind_outcome (fits_in 256 (ifcfg_file name)) (\<lambda>path.
     bind_outcome (map_file path sys) (\<lambda>(t, sys1).
     bind_outcome (case t of None \<Rightarrow> fits_in cap [] | Some t \<Rightarrow> read_gateway cap t) (\<lambda>gw.
       if gw \<noteq> [] then Ok (gw, sys1)
       else
         bind_outcome (get_default_route sys1) (\<lambda>(a, sys2).
           if a \<noteq> 0 then bind_outcome (fits_in cap (inet_ntoa a)) (\<lambda>s. Ok (s, sys2)) else Ok ([], sys2)))))"

text \<open>
  \<^verbatim>\<open>getnet\<close>: a pointer to a text that may be NULL is the size of its buffer or \<open>None\<close>. The second name server is looked for only together with
  the first one.
\<close>

definition getnet ::
    "int list option \<Rightarrow> nat option \<Rightarrow> nat option \<Rightarrow> nat option \<Rightarrow> bool \<Rightarrow> bool \<Rightarrow> netsys \<Rightarrow> (netinfo \<times> netsys) outcome" where
  "getnet pIfName pGW pDNS pDNS2 pMac pHostname sys =
     (let inf0 = \<lparr>n_ret = -1, n_ip = 0, n_mask = 0, n_gw = None, n_dns = None, n_dns2 = None, n_mac = None, n_host = None\<rparr> in
      case pIfName of
        None \<Rightarrow> Ok (inf0, sys)
      | Some name \<Rightarrow>
          let inf1 = inf0\<lparr>n_gw := map_option (\<lambda>_. []) pGW, n_dns := map_option (\<lambda>_. []) pDNS, n_dns2 := map_option (\<lambda>_. []) pDNS2,
                n_mac := (if pMac then Some (replicate 6 0) else None), n_host := (if pHostname then Some [] else None)\<rparr> in
          bind_outcome (net_socket sys) (\<lambda>(ok, sys1).
            if \<not> ok then Ok (inf1, sys1)
            else
              bind_outcome (get_interface name pMac inf1 sys1) (\<lambda>(inf2, sys2).
              let inf3 = (if pHostname \<and> fst (host_reply sys2) = 0 then inf2\<lparr>n_host := Some (snd (host_reply sys2))\<rparr> else inf2) in
              bind_outcome
                (case pGW of
                   None \<Rightarrow> Ok (inf3, sys2)
                 | Some cap \<Rightarrow> bind_outcome (get_gateway name cap sys2) (\<lambda>(gw, sys3). Ok (inf3\<lparr>n_gw := Some gw\<rparr>, sys3))) (\<lambda>(inf4, sys3).
              case pDNS of
                None \<Rightarrow> Ok (inf4, sys3)
              | Some cap \<Rightarrow>
                  bind_outcome (map_file resolv_conf sys3) (\<lambda>(t, sys4).
                    case t of
                      None \<Rightarrow> Ok (inf4, sys4)
                    | Some t \<Rightarrow>
                        bind_outcome (read_servers cap pDNS2 t) (\<lambda>(v, v2). Ok (inf4\<lparr>n_dns := Some v, n_dns2 := v2\<rparr>, sys4)))))))"

section \<open>Changing the settings\<close>

text \<open>
  The address of a gateway given as a text. A text that passes \<^verbatim>\<open>isIP\<close> and is none for \<^verbatim>\<open>inet_aton\<close> leaves the address unset. Otherwise the
  resolver is asked.
\<close>

definition gateway_addr :: "int list \<Rightarrow> netsys \<Rightarrow> 32 word outcome" where
  "gateway_addr gw sys =
     (if isIP (Some gw) then (case inet_aton gw of None \<Rightarrow> Fault | Some a \<Rightarrow> Ok a)
      else Ok (case resolver sys gw of None \<Rightarrow> 0 | Some a \<Rightarrow> a))"

text \<open>A request to the interface that is made if all went well so far.\<close>

definition if_ioctl :: "bool \<Rightarrow> net_call \<Rightarrow> int \<times> netsys \<Rightarrow> (int \<times> netsys) outcome" where
  "if_ioctl todo call = (\<lambda>(ret, sys).
     if ret = 0 \<and> todo then bind_outcome (net_ioctl call sys) (\<lambda>(r, v, sys1). Ok (r, sys1)) else Ok (ret, sys))"

definition given :: "int list option \<Rightarrow> bool" where
  "given p \<longleftrightarrow> p \<noteq> None \<and> p \<noteq> Some []"

definition set_dstaddr :: "int list \<Rightarrow> int list option \<Rightarrow> int \<times> netsys \<Rightarrow> (int \<times> netsys) outcome" where
  "set_dstaddr name pGW = (\<lambda>(ret, sys).
     if ret = 0 \<and> given pGW then
       bind_outcome (gateway_addr (the pGW) sys) (\<lambda>a. if_ioctl (a \<noteq> 0) (SIOCSIFDSTADDR (ifr_name name) a) (ret, sys))
     else Ok (ret, sys))"

definition default_entry :: "int list \<Rightarrow> 32 word \<Rightarrow> rtentry" where
  "default_entry name a =
     \<lparr>rt_dev = Some name, rt_dst = inet 0, rt_gateway = inet a, rt_genmask = inet 0, rt_flags = RTF_GATEWAY OR RTF_UP\<rparr>"

definition add_gateway :: "int list \<Rightarrow> int list option \<Rightarrow> int \<Rightarrow> netsys \<Rightarrow> netsys outcome" where
  "add_gateway name pGW ret sys =
     (if ret = 0 \<and> given pGW then
        bind_outcome (gateway_addr (the pGW) sys) (\<lambda>a.
          if a \<noteq> 0 then bind_outcome (net_ioctl (SIOCADDRT (default_entry name a)) sys) (\<lambda>(r, v, sys1). Ok sys1) else Ok sys)
      else Ok sys)"

definition write_file :: "int list \<Rightarrow> int list outcome list \<Rightarrow> netsys \<Rightarrow> netsys outcome" where
  "write_file path parts sys =
     (if writable sys path then
        bind_outcome (foldr (\<lambda>p acc. bind_outcome p (\<lambda>t. bind_outcome acc (\<lambda>r. Ok (t @ r)))) parts (Ok [])) (\<lambda>t.
          Ok (sys\<lparr>files := (files sys)(path := Some t)\<rparr>))
      else Ok sys)"

text \<open>The lines of the file of the interface; each one goes through a buffer of 256 characters.\<close>

definition ifcfg_head :: "int list \<Rightarrow> bool \<Rightarrow> 32 word \<Rightarrow> int list outcome" where
  "ifcfg_head name bOnBoot ip =
     (if length name < 2 then Fault
      else fits_in 256
        (if take 3 name = codes ''ppp'' then codes ''DEVICE='' @ name @ [10] @ codes ''ONBOOT=no'' @ [10] @ codes ''BOOTPROTO=ppp'' @ [10]
         else codes ''DEVICE='' @ name @ [10] @ codes ''ONBOOT='' @ codes (if bOnBoot then ''yes'' else ''no'') @ [10] @
           codes ''BOOTPROTO='' @ codes (if ip = 0 then ''dhcp'' else ''static'') @ [10]))"

definition ifcfg_lines :: "int list \<Rightarrow> bool \<Rightarrow> 32 word \<Rightarrow> 32 word \<Rightarrow> int list option \<Rightarrow> int list outcome list" where
  "ifcfg_lines name bOnBoot ip nm pGW =
     ifcfg_head name bOnBoot ip #
     (if ip = 0 then []
      else
        [fits_in 256 (codes ''IPADDR='' @ inet_ntoa ip @ [10]), fits_in 256 (codes ''NETMASK='' @ inet_ntoa nm @ [10])] @
        (if given pGW then [fits_in 256 (codes ''GATEWAY='' @ the pGW @ [10])] else []))"

definition server_lines :: "int list option \<Rightarrow> int list option \<Rightarrow> int list outcome list" where
  "server_lines pDNS pDNS2 =
     (case pDNS of None \<Rightarrow> [] | Some d \<Rightarrow> [fits_in 256 (codes ''nameserver '' @ d @ [10])]) @
     (case pDNS2 of None \<Rightarrow> [] | Some d \<Rightarrow> [fits_in 256 (codes ''nameserver '' @ d @ [10])])"

definition network_file :: "int list" where
  "network_file = codes ''/etc/sysconfig/network''"

text \<open>The second half of \<^verbatim>\<open>SetNet\<close>: the files.\<close>

definition write_settings ::
    "int list \<Rightarrow> bool \<Rightarrow> 32 word \<Rightarrow> 32 word \<Rightarrow> int list option \<Rightarrow> int list option \<Rightarrow> int list option \<Rightarrow> int list option \<Rightarrow> netsys \<Rightarrow> netsys outcome" where
  "write_settings name bOnBoot ip nm pGW pDNS pDNS2 pHostname sys =
     bind_outcome (fits_in 256 (ifcfg_file name)) (\<lambda>path.
     bind_outcome (write_file path (ifcfg_lines name bOnBoot ip nm pGW) sys) (\<lambda>sys1.
     bind_outcome (if pDNS \<noteq> None \<or> pDNS2 \<noteq> None then write_file resolv_conf (server_lines pDNS pDNS2) sys1 else Ok sys1) (\<lambda>sys2.
       if given pHostname then
         write_file network_file [Ok (codes ''NETWORKING=yes'' @ [10]), fits_in 256 (codes ''HOSTNAME='' @ the pHostname @ [10])] sys2
       else Ok sys2)))"

text \<open>Settings that are not given are read back from the system, if the address is set.\<close>

definition complete_settings ::
    "int list \<Rightarrow> 32 word \<Rightarrow> 32 word \<Rightarrow> int list option \<Rightarrow> int list option \<Rightarrow> int list option \<Rightarrow> netsys \<Rightarrow>
     (32 word \<times> 32 word \<times> int list option \<times> int list option \<times> int list option \<times> netsys) outcome" where
  "complete_settings name ip nm pGW pDNS pDNS2 sys =
     (if ip = 0 then Ok (ip, nm, pGW, pDNS, pDNS2, sys)
      else
        let buf = (\<lambda>p. if given p then None else Some 256) in
        bind_outcome (getnet (Some name) (buf pGW) (buf pDNS) (buf pDNS2) False False sys) (\<lambda>(ni, sys1).
          Ok (n_ip ni, n_mask ni, if given pGW then pGW else n_gw ni, if given pDNS then pDNS else n_dns ni,
              if given pDNS2 then pDNS2 else n_dns2 ni, sys1)))"

definition SetNet ::
    "int list option \<Rightarrow> 32 word \<Rightarrow> 32 word \<Rightarrow> int list option \<Rightarrow> int list option \<Rightarrow> int list option \<Rightarrow> int list option \<Rightarrow> 16 word \<Rightarrow> bool \<Rightarrow>
     netsys \<Rightarrow> (int \<times> netsys) outcome" where
  "SetNet pIfName dwIpAddr dwSubMask pGW pDNS pDNS2 pHostname nMTU bOnBoot sys =
     (if \<not> given pIfName then Ok (-1, sys)
      else
        let name = the pIfName in
        bind_outcome (net_socket sys) (\<lambda>(ok, sys0).
        if \<not> ok then Ok (-1, sys0)
        else
          bind_outcome (if_ioctl (dwIpAddr \<noteq> 0) (SIOCSIFADDR (ifr_name name) dwIpAddr) (0, sys0)) (\<lambda>s1.
          bind_outcome (set_dstaddr name pGW s1) (\<lambda>s2.
          bind_outcome (if_ioctl (dwSubMask \<noteq> 0) (SIOCSIFNETMASK (ifr_name name) dwSubMask) s2) (\<lambda>s3.
          bind_outcome (if_ioctl (nMTU \<noteq> 0) (SIOCSIFMTU (ifr_name name) (uint nMTU)) s3) (\<lambda>(ret, sys4).
          bind_outcome (if dwIpAddr \<noteq> 0 then del_default_route sys4 else Ok sys4) (\<lambda>sys5.
          bind_outcome (add_gateway name pGW ret sys5) (\<lambda>sys6.
          let sys7 = (if given pHostname then sys6\<lparr>calls := calls sys6 @ [SETHOSTNAME (the pHostname)]\<rparr> else sys6) in
          bind_outcome (complete_settings name dwIpAddr dwSubMask pGW pDNS pDNS2 sys7) (\<lambda>(ip, nm, gw, dns, dns2, sys8).
          bind_outcome (write_settings name bOnBoot ip nm gw dns dns2 pHostname sys8) (\<lambda>sys9. Ok (ret, sys9)))))))))))"

section \<open>Texts of addresses are read back\<close>

lemma digit_of_char [simp]: "d < 10 \<Longrightarrow> digit_of (48 + int d) = d"
  by (simp add: digit_of_def isdigit_def)

lemma take_digits_dec: "take_digits 10 v (dec k @ cs) = take_digits 10 (10 ^ length (dec k) * v + k) cs"
proof (induction k arbitrary: v cs rule: dec.induct)
  case (1 k)
  show ?case
  proof (cases "k < 10")
    case False
    then have "take_digits 10 v (dec k @ cs) = take_digits 10 v (dec (k div 10) @ (48 + int (k mod 10)) # cs)" by (simp add: dec.simps [of k])
    also have "\<dots> = take_digits 10 (10 ^ length (dec (k div 10)) * v + k div 10) ((48 + int (k mod 10)) # cs)" using False by (rule "1.IH")
    also have "\<dots> = take_digits 10 (10 * (10 ^ length (dec (k div 10)) * v) + (10 * (k div 10) + k mod 10)) cs" by (simp del: mult_div_mod_eq add: algebra_simps)
    finally show ?thesis using False by (simp add: dec.simps [of k] mult.assoc)
  qed (simp add: dec.simps [of k])
qed

lemma dec_first: "0 < k \<Longrightarrow> c_at (dec k @ cs) 0 \<noteq> 48"
proof (induction k arbitrary: cs rule: dec.induct)
  case (1 k)
  then show ?case
  proof (cases "k < 10")
    case False
    then have "0 < k div 10" by simp
    with "1.IH" False show ?thesis by (simp add: dec.simps [of k])
  qed (simp add: dec.simps [of k] c_at_def)
qed

lemma strtoul_dec: "cs = [] \<or> hd cs = 46 \<Longrightarrow> strtoul_0 (dec k @ cs) = (k, cs)"
proof -
  assume "cs = [] \<or> hd cs = 46"
  then have e: "take_digits b v cs = (v, cs)" "c_at cs 0 \<noteq> 120" "c_at cs 0 \<noteq> 88" if "b \<le> 16" for b v
    using that by (cases cs; auto simp: digit_of_def isdigit_def c_at_def)+
  show ?thesis
  proof (cases "k = 0")
    case True
    have "c_at (48 # cs) 1 = c_at cs 0" by (simp add: c_at_def)
    with True e [of 8] show ?thesis by (simp add: strtoul_0_def dec.simps c_at_def digit_of_def isdigit_def)
  next
    case False
    with dec_first [of k cs] e [of 10] show ?thesis by (simp add: strtoul_0_def take_digits_dec)
  qed
qed

lemma dec_isdigit: "isdigit (c_at (dec k @ cs) 0)"
  by (rule dec_Cons [of k]) (simp add: c_at_def)

lemma addr_parts_dec: "k < 256 \<Longrightarrow> addr_parts (Suc m) (dec k @ 46 # cs) = map_option (\<lambda>ps. k # ps) (addr_parts m cs)"
  using strtoul_dec [of "46 # cs" k] dec_isdigit [of k "46 # cs"] by (simp add: c_at_def [of "46 # cs"])

lemma addr_parts_last: "k < 256 \<Longrightarrow> addr_parts (Suc m) (dec k) = Some [k]"
  using strtoul_dec [of "[]" k] dec_isdigit [of k "[]"] by (simp add: c_at_def [of "[]"])

lemma inet_addr_quad:
  "addr_parts 4 s = Some [a, b, c, d mod 256] \<Longrightarrow> inet_addr s = htonl (of_nat (a * 2 ^ 24 + (b * 2 ^ 16 + (c * 2 ^ 8 + d mod 256))))"
  by (simp add: inet_addr_def upt_rec add.assoc)

lemma inet_aton_quad:
  "addr_parts 4 s = Some [a, b, c, d mod 256] \<Longrightarrow> inet_aton s = Some (htonl (of_nat (a * 2 ^ 24 + (b * 2 ^ 16 + (c * 2 ^ 8 + d mod 256)))))"
  by (simp add: inet_aton_def upt_rec add.assoc)

lemma inet_addr_text:
  assumes "n < 2 ^ 32"
  shows "inet_addr (ip_text n) = htonl (of_nat n)" "inet_aton (ip_text n) = Some (htonl (of_nat n))"
proof -
  have four: "4 = Suc (Suc (Suc (Suc 0)))" by simp
  have "n div 2 ^ 24 < 256" using assms by simp
  then have p: "addr_parts 4 (ip_text n) = Some [n div 2 ^ 24, n div 2 ^ 16 mod 256, n div 2 ^ 8 mod 256, n mod 256]"
    unfolding ip_text_def four by (simp add: addr_parts_dec addr_parts_last del: addr_parts.simps)
  have d: "n div 2 ^ 16 = n div 2 ^ 8 div 256" "n div 2 ^ 24 = n div 2 ^ 8 div 256 div 256" by (simp_all flip: div_mult2_eq)
  have "m div 256 div 256 * 16777216 + (m div 256 mod 256 * 65536 + (m mod 256 * 256 + r)) = m * 256 + r" for m r :: nat
    using div_mult_mod_eq [of m 256] div_mult_mod_eq [of "m div 256" 256] by linarith
  from this [of "n div 2 ^ 8" "n mod 256"] have "n div 2 ^ 24 * 2 ^ 24 + (n div 2 ^ 16 mod 256 * 2 ^ 16 + (n div 2 ^ 8 mod 256 * 2 ^ 8 + n mod 256)) = n"
    unfolding d by (simp add: div_mult_mod_eq)
  then show "inet_addr (ip_text n) = htonl (of_nat n)" "inet_aton (ip_text n) = Some (htonl (of_nat n))"
    using inet_addr_quad [OF p] inet_aton_quad [OF p] by (simp_all only:)
qed


lemma inet_aton_ntoa: "inet_aton (inet_ntoa a) = Some a"
  using unsigned_less [of "htonl a", where 'a = nat] by (simp add: inet_ntoa_def inet_addr_text)

lemma isIP_ntoa: "isIP (Some (inet_ntoa a))"
  using unsigned_less [of "htonl a", where 'a = nat] by (simp add: inet_ntoa_def isIP_ip_text)

lemma dec_char: "c \<in> set (dec k) \<Longrightarrow> 48 \<le> c \<and> c \<le> 57"
  using dec_digits [of k] by (auto simp: list_all_iff isdigit_def)

lemma ntoa_chars: "c \<in> set (inet_ntoa a) \<Longrightarrow> c = 46 \<or> 48 \<le> c \<and> c \<le> 57"
  by (auto simp: inet_ntoa_def ip_text_def dest: dec_char)

lemma ntoa_length: "length (inet_ntoa a) \<le> 15"
proof -
  have n: "unat (htonl a) < 2 ^ 32" using unsigned_less [of "htonl a", where 'a = nat] by simp
  have "unat (htonl a) div 2 ^ 24 < 256" using n by simp
  then have "length (dec (unat (htonl a) div 2 ^ 24)) \<le> 3" "length (dec (unat (htonl a) div 2 ^ 16 mod 256)) \<le> 3"
      "length (dec (unat (htonl a) div 2 ^ 8 mod 256)) \<le> 3" "length (dec (unat (htonl a) mod 256)) \<le> 3"
    using dec_length [of _ 3] by simp_all
  then show ?thesis unfolding inet_ntoa_def ip_text_def length_append length_Cons by linarith
qed

section \<open>What was written is read back\<close>

text \<open>A value as it is written behind a key: it starts with a letter or a digit and has no end of a line.\<close>

definition value_ok :: "int list \<Rightarrow> bool" where
  "value_ok v \<longleftrightarrow> v \<noteq> [] \<and> isalnum (hd v) \<and> list_all (\<lambda>c. \<not> line_end c) v"

lemma value_ok_ntoa: "value_ok (inet_ntoa a)"
proof -
  obtain d ds where d: "dec (unat (htonl a) div 2 ^ 24) = d # ds" "isdigit d" using dec_Cons by metis
  then have "inet_ntoa a \<noteq> []" "isalnum (hd (inet_ntoa a))" by (simp_all add: inet_ntoa_def ip_text_def isalnum_def)
  moreover have "list_all (\<lambda>c. \<not> line_end c) (inet_ntoa a)" using ntoa_chars [of _ a] by (fastforce simp: list_all_iff line_end_def)
  ultimately show ?thesis by (simp add: value_ok_def)
qed

lemma copy_value_ok:
  assumes "value_ok v" "length v < cap" "list_all (\<lambda>c. \<not> isalnum c) pre"
  shows "copy_value cap (pre @ v @ 10 # r) = Ok (v, r)"
proof -
  have "dropWhile (\<lambda>c. \<not> isalnum c) (pre @ v @ 10 # r) = v @ 10 # r"
    using assms(1, 3) by (cases v) (auto simp: value_ok_def list_all_iff dropWhile_append2)
  moreover have "takeWhile (\<lambda>c. \<not> line_end c) (v @ 10 # r) = v" "dropWhile (\<lambda>c. \<not> line_end c) (v @ 10 # r) = 10 # r"
    using assms(1) by (auto simp: value_ok_def list_all_iff takeWhile_append2 dropWhile_append2 line_end_def)
  ultimately show ?thesis using assms(2) by (simp add: copy_value_def)
qed

lemma find_key_skips: "list_all (\<lambda>c. tolower_c c \<noteq> tolower_c k) pre \<Longrightarrow> find_key (k # ks) (pre @ t) = find_key (k # ks) t"
  by (induction pre) auto

lemma same_key_refl: "same_key (k @ t) k = Ok True"
  by (induction k) auto

lemma find_key_here: "k \<noteq> [] \<Longrightarrow> find_key k (k @ t) = Ok t"
  using same_key_refl [of k t] by (cases k) auto

text \<open>The file of an interface. The key is the first one there if the name of the interface has no letter g.\<close>

definition no_g :: "int list \<Rightarrow> bool" where
  "no_g s \<longleftrightarrow> list_all (\<lambda>c. tolower_c c \<noteq> 103) s"

definition ifcfg_text :: "int list \<Rightarrow> bool \<Rightarrow> 32 word \<Rightarrow> 32 word \<Rightarrow> int list" where
  "ifcfg_text name bOnBoot ip nm =
     codes ''DEVICE='' @ name @ [10] @ (if take 3 name = codes ''ppp'' then codes ''ONBOOT=no'' @ [10] @ codes ''BOOTPROTO=ppp'' @ [10]
       else codes ''ONBOOT='' @ codes (if bOnBoot then ''yes'' else ''no'') @ [10] @ codes ''BOOTPROTO=static'' @ [10]) @
     codes ''IPADDR='' @ inet_ntoa ip @ [10] @ codes ''NETMASK='' @ inet_ntoa nm @ [10]"

lemma no_g_ntoa: "no_g (inet_ntoa a)"
  unfolding no_g_def list_all_iff
proof
  fix c assume "c \<in> set (inet_ntoa a)"
  then have "c = 46 \<or> 48 \<le> c \<and> c \<le> 57" by (rule ntoa_chars)
  then show "tolower_c c \<noteq> 103" by (auto simp: tolower_c_def)
qed

lemma no_g_append: "no_g (s @ t) \<longleftrightarrow> no_g s \<and> no_g t"
  by (simp add: no_g_def)

lemma no_g_codes: "no_g (codes ''DEVICE='')" "no_g [10]" "no_g (codes ''ONBOOT=no'')" "no_g (codes ''BOOTPROTO=ppp'')" "no_g (codes ''ONBOOT='')"
    "no_g (codes ''yes'')" "no_g (codes ''no'')" "no_g (codes ''BOOTPROTO=static'')" "no_g (codes ''IPADDR='')" "no_g (codes ''NETMASK='')"
  by (simp_all add: no_g_def tolower_c_def)

lemma no_g_text: "no_g name \<Longrightarrow> no_g (ifcfg_text name b ip nm)"
  unfolding ifcfg_text_def by (simp only: no_g_append no_g_ntoa no_g_codes if_split) (simp add: no_g_codes [simplified])

lemma read_gateway_text:
  assumes "no_g pre" "value_ok gw" "length gw < cap"
  shows "read_gateway cap (pre @ codes ''GATEWAY='' @ gw @ [10]) = Ok gw"
proof -
  have "find_key (codes ''GATEWAY'') (pre @ codes ''GATEWAY='' @ gw @ [10]) = find_key (codes ''GATEWAY'') (codes ''GATEWAY'' @ 61 # gw @ [10])"
    using find_key_skips [of 71 pre "codes ''ATEWAY''"] assms(1) by (simp add: no_g_def tolower_c_def)
  also have "\<dots> = Ok (61 # gw @ [10])" by (rule find_key_here) simp
  finally show ?thesis using copy_value_ok [OF assms(2, 3), of "[]" "[]"] by (simp add: read_gateway_def)
qed

lemma read_server_text: "value_ok d \<Longrightarrow> length d < cap \<Longrightarrow> read_server cap (codes ''nameserver '' @ d @ 10 # r) = Ok (d, Some r)"
  using find_key_here [of "codes ''nameserver''" "32 # d @ 10 # r"] copy_value_ok [of d cap "[32]" r]
  by (simp add: read_server_def ctype_simps)

lemma read_servers_text:
  "value_ok d \<Longrightarrow> value_ok d2 \<Longrightarrow> length d < cap \<Longrightarrow> length d2 < cap2 \<Longrightarrow>
   read_servers cap (Some cap2) (codes ''nameserver '' @ d @ [10] @ codes ''nameserver '' @ d2 @ [10]) = Ok (d, Some d2)"
  using read_server_text [of d cap "codes ''nameserver '' @ d2 @ [10]"] read_server_text [of d2 cap2 "[]"] by (simp add: read_servers_def)

section \<open>A static configuration\<close>

lemma fits_Ok: "length t < cap \<Longrightarrow> fits_in cap t = Ok t"
  by (simp add: fits_in_def)

lemma given_Some [simp]: "given (Some v) \<longleftrightarrow> v \<noteq> []" "\<not> given None"
  by (simp_all add: given_def)

lemma ntoa_not_Nil [simp]: "inet_ntoa a \<noteq> []"
  using value_ok_ntoa [of a] by (auto simp: value_ok_def)

lemma gateway_addr_ntoa [simp]: "gateway_addr (inet_ntoa a) sys = Ok a"
  by (simp add: gateway_addr_def isIP_ntoa inet_aton_ntoa)

lemma if_ioctl_done: "replies sys = (r, v) # rs \<Longrightarrow> todo \<Longrightarrow> if_ioctl todo call (0, sys) = Ok (r, sys\<lparr>replies := rs, calls := calls sys @ [call]\<rparr>)"
  by (simp add: if_ioctl_def net_ioctl_def)

lemma write_file_parts:
  "writable sys path \<Longrightarrow> write_file path (map Ok ts) sys = Ok (sys\<lparr>files := (files sys)(path := Some (concat ts))\<rparr>)"
proof -
  have "foldr (\<lambda>p acc. bind_outcome p (\<lambda>t. bind_outcome acc (\<lambda>r. Ok (t @ r)))) (map Ok ts) (Ok []) = Ok (concat ts)"
    by (induction ts) auto
  then show "writable sys path \<Longrightarrow> ?thesis" by (simp add: write_file_def)
qed

lemma ifcfg_lines_static:
  assumes "2 \<le> length name" "length name \<le> 200" "ip \<noteq> 0" "gw \<noteq> []" "length gw \<le> 240"
  shows "\<exists>ts. ifcfg_lines name b ip nm (Some gw) = map Ok ts \<and> concat ts = ifcfg_text name b ip nm @ codes ''GATEWAY='' @ gw @ [10]"
proof -
  define h where "h = (if take 3 name = codes ''ppp'' then codes ''DEVICE='' @ name @ [10] @ codes ''ONBOOT=no'' @ [10] @ codes ''BOOTPROTO=ppp'' @ [10]
         else codes ''DEVICE='' @ name @ [10] @ codes ''ONBOOT='' @ codes (if b then ''yes'' else ''no'') @ [10] @ codes ''BOOTPROTO=static'' @ [10])"
  have "ifcfg_head name b ip = Ok h" using assms(1-3) by (simp add: ifcfg_head_def h_def fits_in_def)
  moreover have "fits_in 256 (codes ''IPADDR='' @ inet_ntoa ip @ [10]) = Ok (codes ''IPADDR='' @ inet_ntoa ip @ [10])"
    "fits_in 256 (codes ''NETMASK='' @ inet_ntoa nm @ [10]) = Ok (codes ''NETMASK='' @ inet_ntoa nm @ [10])"
    using ntoa_length [of ip] ntoa_length [of nm] by (simp_all add: fits_in_def)
  moreover have "fits_in 256 (codes ''GATEWAY='' @ gw @ [10]) = Ok (codes ''GATEWAY='' @ gw @ [10])" using assms(5) by (simp add: fits_in_def)
  ultimately have "ifcfg_lines name b ip nm (Some gw) =
      map Ok [h, codes ''IPADDR='' @ inet_ntoa ip @ [10], codes ''NETMASK='' @ inet_ntoa nm @ [10], codes ''GATEWAY='' @ gw @ [10]]"
    using assms(3, 4) by (simp add: ifcfg_lines_def)
  moreover have "concat [h, codes ''IPADDR='' @ inet_ntoa ip @ [10], codes ''NETMASK='' @ inet_ntoa nm @ [10], codes ''GATEWAY='' @ gw @ [10]] =
      ifcfg_text name b ip nm @ codes ''GATEWAY='' @ gw @ [10]"
    by (simp add: h_def ifcfg_text_def)
  ultimately show ?thesis by blast
qed

definition servers_text :: "int list \<Rightarrow> int list \<Rightarrow> int list" where
  "servers_text d d2 = codes ''nameserver '' @ d @ [10] @ codes ''nameserver '' @ d2 @ [10]"

lemma ifcfg_not_resolv: "ifcfg_file name \<noteq> resolv_conf"
  by (simp add: ifcfg_file_def resolv_conf_def)

lemma write_settings_static:
  assumes "2 \<le> length name" "length name \<le> 200" "ip \<noteq> 0" "gw \<noteq> []" "length gw \<le> 240" "length d \<le> 240" "length d2 \<le> 240"
    and "writable sys (ifcfg_file name)" "writable sys resolv_conf"
  shows "write_settings name b ip nm (Some gw) (Some d) (Some d2) None sys =
     Ok (sys\<lparr>files := (files sys)(ifcfg_file name := Some (ifcfg_text name b ip nm @ codes ''GATEWAY='' @ gw @ [10]), resolv_conf := Some (servers_text d d2))\<rparr>)"
proof -
  obtain ts where ts: "ifcfg_lines name b ip nm (Some gw) = map Ok ts" "concat ts = ifcfg_text name b ip nm @ codes ''GATEWAY='' @ gw @ [10]"
    using ifcfg_lines_static [OF assms(1-5)] by blast
  have sl: "server_lines (Some d) (Some d2) = map Ok [codes ''nameserver '' @ d @ [10], codes ''nameserver '' @ d2 @ [10]]"
    using assms(6, 7) by (simp add: server_lines_def fits_in_def)
  have fit: "fits_in 256 (ifcfg_file name) = Ok (ifcfg_file name)" using assms(2) by (simp add: fits_in_def ifcfg_file_def)
  let ?s1 = "sys\<lparr>files := (files sys)(ifcfg_file name := Some (concat ts))\<rparr>"
  have w1: "write_file (ifcfg_file name) (ifcfg_lines name b ip nm (Some gw)) sys = Ok ?s1"
    unfolding ts(1) by (rule write_file_parts [OF assms(8)])
  have w2: "write_file resolv_conf (server_lines (Some d) (Some d2)) ?s1 = Ok (?s1\<lparr>files := (files ?s1)(resolv_conf := Some (servers_text d d2))\<rparr>)"
    unfolding sl using write_file_parts [of ?s1 resolv_conf "[codes ''nameserver '' @ d @ [10], codes ''nameserver '' @ d2 @ [10]]"] assms(9)
    by (simp add: servers_text_def)
  show ?thesis unfolding write_settings_def using fit w1 w2 by (simp add: ts(2))
qed

lemma getnet_interface:
  assumes "socks sys = True # ss" "replies sys = (0, a) # (0, m) # rs"
  shows "getnet (Some name) None None None False False sys =
     Ok (\<lparr>n_ret = 0, n_ip = a, n_mask = m, n_gw = None, n_dns = None, n_dns2 = None, n_mac = None, n_host = None\<rparr>,
         sys\<lparr>socks := ss, replies := rs, calls := calls sys @ [SIOCGIFADDR (ifr_name name), SIOCGIFNETMASK (ifr_name name)]\<rparr>)"
  using assms by (simp add: getnet_def net_socket_def get_interface_def net_ioctl_def Let_def)

definition static_calls :: "int list \<Rightarrow> 32 word \<Rightarrow> 32 word \<Rightarrow> 32 word \<Rightarrow> 16 word \<Rightarrow> rtentry list \<Rightarrow> net_call list" where
  "static_calls name ip nm g mtu del =
     [SIOCSIFADDR (ifr_name name) ip, SIOCSIFDSTADDR (ifr_name name) g, SIOCSIFNETMASK (ifr_name name) nm, SIOCSIFMTU (ifr_name name) (uint mtu)] @
     map SIOCDELRT del @ [SIOCADDRT (default_entry name g), SIOCGIFADDR (ifr_name name), SIOCGIFNETMASK (ifr_name name)]"

lemma del_default_route_run:
  assumes "rt_reads sys = Routes (route_table pad rs) # later" "list_all (\<lambda>(n, r). route_ok r) rs" "length (route_table pad rs) \<le> 1023"
    and "socks sys = (if deleted_routes rs = [] then [] else [True]) @ ss" "replies sys = ds @ es" "length ds = length (deleted_routes rs)"
  shows "del_default_route sys = Ok (sys\<lparr>rt_reads := later, socks := ss, replies := es, calls := calls sys @ map SIOCDELRT (deleted_routes rs)\<rparr>)"
  using assms(4-6) delete_routes_calls [of "deleted_routes rs" "sys\<lparr>rt_reads := later, socks := ss\<rparr>"]
  by (simp add: del_default_route_table [OF assms(1-3)] net_socket_def split: if_splits)

lemma SetNet_static:
  assumes name: "2 \<le> length name" "length name \<le> 200" and set: "ip \<noteq> 0" "nm \<noteq> 0" "g \<noteq> 0" "mtu \<noteq> 0"
    and dns: "d \<noteq> []" "d2 \<noteq> []" "length d \<le> 240" "length d2 \<le> 240"
    and routes: "rt_reads sys = Routes (route_table pad rs) # later" "list_all (\<lambda>(n, r). route_ok r) rs" "length (route_table pad rs) \<le> 1023"
    and socks: "socks sys = True # (if deleted_routes rs = [] then [] else [True]) @ True # ss"
    and replies: "replies sys = (0, v1) # (0, v2) # (0, v3) # (0, v4) # ds @ (v5, v6) # (0, ip) # (0, nm) # es" "length ds = length (deleted_routes rs)"
    and wr: "writable sys (ifcfg_file name)" "writable sys resolv_conf"
  shows "\<exists>sys'. SetNet (Some name) ip nm (Some (inet_ntoa g)) (Some d) (Some d2) None mtu b sys = Ok (0, sys') \<and>
     calls sys' = calls sys @ static_calls name ip nm g mtu (deleted_routes rs) \<and>
     files sys' (ifcfg_file name) = Some (ifcfg_text name b ip nm @ codes ''GATEWAY='' @ inet_ntoa g @ [10]) \<and>
     files sys' resolv_conf = Some (servers_text d d2)"
proof -
  have nm0: "name \<noteq> []" using name(1) by auto
  let ?n = "ifr_name name"
  define sk where "sk = (if deleted_routes rs = [] then [] else [True]) @ True # ss"
  have socks': "socks sys = True # sk" using socks by (simp add: sk_def)
  let ?s4 = "sys\<lparr>socks := sk, replies := ds @ (v5, v6) # (0, ip) # (0, nm) # es,
      calls := calls sys @ [SIOCSIFADDR ?n ip, SIOCSIFDSTADDR ?n g, SIOCSIFNETMASK ?n nm, SIOCSIFMTU ?n (uint mtu)]\<rparr>"
  let ?s5 = "?s4\<lparr>rt_reads := later, socks := True # ss, replies := (v5, v6) # (0, ip) # (0, nm) # es, calls := calls ?s4 @ map SIOCDELRT (deleted_routes rs)\<rparr>"
  let ?s6 = "?s5\<lparr>replies := (0, ip) # (0, nm) # es, calls := calls ?s5 @ [SIOCADDRT (default_entry name g)]\<rparr>"
  let ?s8 = "?s6\<lparr>socks := ss, replies := es, calls := calls ?s6 @ [SIOCGIFADDR ?n, SIOCGIFNETMASK ?n]\<rparr>"
  have d: "del_default_route ?s4 = Ok ?s5"
    using del_default_route_run [of ?s4 pad rs later "True # ss" ds "(v5, v6) # (0, ip) # (0, nm) # es"] routes replies(2) by (simp add: sk_def)
  have g: "add_gateway name (Some (inet_ntoa g)) 0 ?s5 = Ok ?s6" using set(3) by (simp add: add_gateway_def net_ioctl_def)
  have c: "complete_settings name ip nm (Some (inet_ntoa g)) (Some d) (Some d2) ?s6 = Ok (ip, nm, Some (inet_ntoa g), Some d, Some d2, ?s8)"
    using getnet_interface [of ?s6 ss ip nm es name] set(1) dns(1, 2) by (simp add: complete_settings_def)
  have w: "write_settings name b ip nm (Some (inet_ntoa g)) (Some d) (Some d2) None ?s8 =
      Ok (?s8\<lparr>files := (files ?s8)(ifcfg_file name := Some (ifcfg_text name b ip nm @ codes ''GATEWAY='' @ inet_ntoa g @ [10]), resolv_conf := Some (servers_text d d2))\<rparr>)"
    using name set(1) dns(3, 4) wr ntoa_length [of g] by (intro write_settings_static) simp_all
  have "SetNet (Some name) ip nm (Some (inet_ntoa g)) (Some d) (Some d2) None mtu b sys =
      bind_outcome (write_settings name b ip nm (Some (inet_ntoa g)) (Some d) (Some d2) None ?s8) (\<lambda>sys9. Ok (0, sys9))"
    unfolding SetNet_def using nm0 socks' replies(1) set d g c
    by (simp add: net_socket_def if_ioctl_done set_dstaddr_def Let_def)
  then show ?thesis unfolding w using ifcfg_not_resolv [of name] by (simp add: static_calls_def)
qed

lemma getnet_reads:
  assumes "files sys (ifcfg_file name) = Some (ifcfg_text name b ip nm @ codes ''GATEWAY='' @ gw @ [10])" "files sys resolv_conf = Some (servers_text d d2)"
    and "length name \<le> 200" "no_g name" "value_ok gw" "value_ok d" "value_ok d2" "length gw < cap" "length d < cap" "length d2 < cap"
    and "socks sys = True # ss" "replies sys = (0, a) # (0, m) # rs" "mems sys = True # True # ms"
  shows "\<exists>sys'. getnet (Some name) (Some cap) (Some cap) (Some cap) False False sys =
     Ok (\<lparr>n_ret = 0, n_ip = a, n_mask = m, n_gw = Some gw, n_dns = Some d, n_dns2 = Some d2, n_mac = None, n_host = None\<rparr>, sys')"
proof -
  have fit: "fits_in 256 (ifcfg_file name) = Ok (ifcfg_file name)" using assms(3) by (simp add: fits_in_def ifcfg_file_def)
  have gw: "read_gateway cap (ifcfg_text name b ip nm @ codes ''GATEWAY='' @ gw @ [10]) = Ok gw"
    by (rule read_gateway_text [OF no_g_text [OF assms(4)] assms(5, 8)])
  have dn: "read_servers cap (Some cap) (servers_text d d2) = Ok (d, Some d2)"
    unfolding servers_text_def by (rule read_servers_text [OF assms(6, 7, 9, 10)])
  have ne: "gw \<noteq> []" "servers_text d d2 \<noteq> []" using assms(5) by (auto simp: value_ok_def servers_text_def)
  show ?thesis using assms(1, 2, 11-13) fit gw dn ne
    by (simp add: getnet_def net_socket_def get_interface_def net_ioctl_def get_gateway_def map_file_def Let_def del: codes_simps)
qed

section \<open>Surprises\<close>

text \<open>A route to the network 10.0.0.0 through a gateway is taken for the default route.\<close>

lemma other_route_taken: "r_flags r = 3 \<Longrightarrow> r_dst r = 10 \<Longrightarrow> r_gw r \<noteq> 0 \<Longrightarrow> taken_gateway (entry_of r) \<and> \<not> default_up (entry_of r)"
  by (simp add: taken_gateway_def default_up_def entry_of_def inet_def)

text \<open>A file with one name server is read beyond its end, as is a route file without a letter.\<close>

lemma single_server_faults: "value_ok d \<Longrightarrow> length d < cap \<Longrightarrow> read_servers cap (Some n) (codes ''nameserver '' @ d @ [10]) = Fault"
  using read_server_text [of d cap "[]"] by (simp add: read_servers_def read_server_def)

lemma header_without_letters: "p \<noteq> [] \<Longrightarrow> list_all (\<lambda>x. \<not> isalpha x \<and> \<not> eol x) p \<Longrightarrow> header_loop c i p = Fault"
proof -
  assume p: "p \<noteq> []" "list_all (\<lambda>x. \<not> isalpha x \<and> \<not> eol x) p"
  then have d: "dropWhile (\<lambda>x. \<not> (isalpha x \<or> eol x)) p = []" by (auto simp: list_all_iff dropWhile_eq_Nil_conv)
  show ?thesis unfolding header_loop.simps [of c i p] d using p(1) by simp
qed

text \<open>A gateway may pass the check of its text and be none, or another one, for the system.\<close>

lemma isIP_dots:
  "ip_part a \<Longrightarrow> ip_part b \<Longrightarrow> ip_part c \<Longrightarrow> d = [] \<or> ip_part d \<Longrightarrow> 7 \<le> length (a @ 46 # b @ 46 # c @ 46 # d) \<Longrightarrow> isIP (Some (a @ 46 # b @ 46 # c @ 46 # d))"
  unfolding isIP_parts by blast

lemma addr_parts_four: "addr_parts 4 s = addr_parts (Suc (Suc (Suc (Suc 0)))) s"
  by (rule arg_cong [where f = "\<lambda>n. addr_parts n s"]) simp

lemma gateway_without_last_part: "gateway_addr (codes ''10.20.30.'') sys = Fault"
proof -
  have "isIP (Some ([49, 48] @ 46 # [50, 48] @ 46 # [51, 48] @ 46 # []))" by (rule isIP_dots) (simp_all add: ip_part_def isdigit_def)
  then have "isIP (Some (codes ''10.20.30.''))" by simp
  moreover have "addr_parts (Suc (Suc (Suc (Suc 0)))) (codes ''10.20.30.'') = None" by (simp add: strtoul_0_def c_at_def digit_of_def isdigit_def)
  then have "inet_aton (codes ''10.20.30.'') = None" by (simp add: inet_aton_def addr_parts_four del: addr_parts.simps codes_simps)
  ultimately show ?thesis by (simp add: gateway_addr_def del: codes_simps)
qed

lemma gateway_octal: "gateway_addr (codes ''010.0.0.1'') sys = Ok (htonl 0x08000001)"
proof -
  have "isIP (Some ([48, 49, 48] @ 46 # [48] @ 46 # [48] @ 46 # [49]))" by (rule isIP_dots) (simp_all add: ip_part_def isdigit_def)
  then have "isIP (Some (codes ''010.0.0.1''))" by simp
  moreover have "addr_parts (Suc (Suc (Suc (Suc 0)))) (codes ''010.0.0.1'') = Some [8, 0, 0, 1]" by (simp add: strtoul_0_def c_at_def digit_of_def isdigit_def)
  then have "inet_aton (codes ''010.0.0.1'') = Some (htonl 0x08000001)" by (simp add: inet_aton_def addr_parts_four upt_rec del: addr_parts.simps codes_simps)
  ultimately show ?thesis by (simp add: gateway_addr_def del: codes_simps)
qed

section \<open>Properties\<close>

text \<open>C20: The gateway that is found in a route table as the kernel prints it, up to 1023 characters of it, is the one of the first route with a
  gateway whose flag and destination have no bit in common.\<close>

theorem default_route_found:
  assumes "rt_reads sys = Routes (route_table pad rs) # later" "list_all (\<lambda>(n, r). route_ok r) rs" "length (route_table pad rs) \<le> 1023"
  shows "get_default_route sys = Ok (route_gateway (entries rs), sys\<lparr>rt_reads := later\<rparr>)"
  by (rule get_default_route_table [OF assms])

definition demo_route :: "32 word \<Rightarrow> 32 word \<Rightarrow> 32 word \<Rightarrow> route" where
  "demo_route dst gw nm =
     \<lparr>r_dev = codes ''eth0'', r_dst = dst, r_gw = gw, r_flags = 3, r_counts = [[48], [48], [48]], r_mask = nm, r_tail = [[48], [48], [48]]\<rparr>"

definition demo_rows :: "(nat \<times> route) list" where
  "demo_rows = [(20, demo_route 0x0001A8C0 0 0x00FFFFFF), (20, demo_route 0 0x0101A8C0 0)]"

definition demo_sys :: netsys where
  "demo_sys =
     \<lparr>rt_reads = [Routes (route_table 30 demo_rows)], socks = [True, True, True],
      replies = [(0, 0), (0, 0), (0, 0), (0, 0), (0, 0), (0, 0), (0, 0x6401A8C0), (0, 0x00FFFFFF)], hw_addr = [], host_reply = (0, []), mems = [], files = (\<lambda>_. None),
      writable = (\<lambda>_. True), resolver = (\<lambda>_. None), calls = []\<rparr>"

lemma demo_table: "list_all (\<lambda>(n, r). route_ok r) demo_rows" "length (route_table 30 demo_rows) \<le> 1023"
  by (simp add: demo_rows_def demo_route_def route_ok_def token_ok_def eol_def blank_def)
    (simp add: demo_rows_def demo_route_def route_table_def table_header_def route_line_def route_tokens_def)

lemma demo_entries: "deleted_routes demo_rows = [entry_of (demo_route 0 0x0101A8C0 0)]" "route_gateway (entries demo_rows) = 0x0101A8C0"
  by (simp_all add: deleted_routes_def demo_rows_def demo_route_def entry_of_def default_up_def taken_gateway_def route_gateway_def inet_def)

theorem default_route_found_witness: "get_default_route demo_sys = Ok (0x0101A8C0, demo_sys\<lparr>rt_reads := []\<rparr>)"
  using default_route_found [of demo_sys 30 demo_rows "[]"] demo_table demo_entries(2) by (simp add: demo_sys_def)

text \<open>C19: Setting a static configuration on a working system makes exactly the requests for the address, the gateway, the mask and the MTU, deletes
  the default routes that are up, at most 16 of them, and adds the default route through the new gateway, in this order; then the address and the mask are read for the configuration file.\<close>

theorem static_network_set:
  assumes "2 \<le> length name" "length name \<le> 200" "ip \<noteq> 0" "nm \<noteq> 0" "g \<noteq> 0" "mtu \<noteq> 0" "d \<noteq> []" "d2 \<noteq> []" "length d \<le> 240" "length d2 \<le> 240"
    and "rt_reads sys = Routes (route_table pad rs) # later" "list_all (\<lambda>(n, r). route_ok r) rs" "length (route_table pad rs) \<le> 1023"
    and "socks sys = True # (if deleted_routes rs = [] then [] else [True]) @ True # ss"
    and "replies sys = (0, v1) # (0, v2) # (0, v3) # (0, v4) # ds @ (v5, v6) # (0, ip) # (0, nm) # es" "length ds = length (deleted_routes rs)"
    and "writable sys (ifcfg_file name)" "writable sys resolv_conf"
  shows "\<exists>sys'. SetNet (Some name) ip nm (Some (inet_ntoa g)) (Some d) (Some d2) None mtu b sys = Ok (0, sys') \<and>
     calls sys' = calls sys @ static_calls name ip nm g mtu (deleted_routes rs)"
  using SetNet_static [OF assms, of b] by blast

theorem static_network_set_witness:
  "\<exists>sys'. SetNet (Some (codes ''eth0'')) 0x6401A8C0 0x00FFFFFF (Some (inet_ntoa 0xFE01A8C0)) (Some (codes ''8.8.8.8'')) (Some (codes ''9.9.9.9'')) None 1500 True demo_sys =
     Ok (0, sys') \<and> calls sys' = static_calls (codes ''eth0'') 0x6401A8C0 0x00FFFFFF 0xFE01A8C0 1500 [entry_of (demo_route 0 0x0101A8C0 0)]"
proof -
  have "\<exists>sys'. SetNet (Some (codes ''eth0'')) 0x6401A8C0 0x00FFFFFF (Some (inet_ntoa 0xFE01A8C0)) (Some (codes ''8.8.8.8'')) (Some (codes ''9.9.9.9'')) None 1500 True demo_sys =
     Ok (0, sys') \<and> calls sys' = calls demo_sys @ static_calls (codes ''eth0'') 0x6401A8C0 0x00FFFFFF 0xFE01A8C0 1500 (deleted_routes demo_rows)"
    by (rule static_network_set [of _ _ _ _ _ _ _ _ 30 demo_rows "[]" "[]" 0 0 0 0 "[(0, 0)]" 0 0 "[]"])
      (use demo_table in \<open>simp_all add: demo_sys_def demo_entries(1)\<close>)
  then show ?thesis by (simp add: demo_sys_def demo_entries(1))
qed

text \<open>C13: What is set is read back: after a static configuration of an interface, the gateway and both name servers that \<^verbatim>\<open>getnet\<close> finds are the ones
  that were given to \<^verbatim>\<open>SetNet\<close>. The name of the interface has 2 to 200 characters and no letter \<open>g\<close>, the server texts have at most 240 characters, start with a letter or digit and
  have no line end, the numbers are not zero, and the system carries the calls out.\<close>

theorem settings_read_back:
  assumes "2 \<le> length name" "length name \<le> 200" "ip \<noteq> 0" "nm \<noteq> 0" "g \<noteq> 0" "mtu \<noteq> 0" "value_ok d" "value_ok d2" "length d \<le> 240" "length d2 \<le> 240"
    and "rt_reads sys = Routes (route_table pad rs) # later" "list_all (\<lambda>(n, r). route_ok r) rs" "length (route_table pad rs) \<le> 1023"
    and "socks sys = True # (if deleted_routes rs = [] then [] else [True]) @ True # ss"
    and "replies sys = (0, v1) # (0, v2) # (0, v3) # (0, v4) # ds @ (v5, v6) # (0, ip) # (0, nm) # es" "length ds = length (deleted_routes rs)"
    and "writable sys (ifcfg_file name)" "writable sys resolv_conf" "no_g name"
  shows "\<exists>sys' sys''. SetNet (Some name) ip nm (Some (inet_ntoa g)) (Some d) (Some d2) None mtu b sys = Ok (0, sys') \<and>
     getnet (Some name) (Some 256) (Some 256) (Some 256) False False (sys'\<lparr>socks := [True], replies := [(0, a), (0, m)], mems := [True, True]\<rparr>) =
       Ok (\<lparr>n_ret = 0, n_ip = a, n_mask = m, n_gw = Some (inet_ntoa g), n_dns = Some d, n_dns2 = Some d2, n_mac = None, n_host = None\<rparr>, sys'')"
proof -
  have ne: "d \<noteq> []" "d2 \<noteq> []" using assms(7, 8) by (auto simp: value_ok_def)
  obtain sys' where s: "SetNet (Some name) ip nm (Some (inet_ntoa g)) (Some d) (Some d2) None mtu b sys = Ok (0, sys')"
    "files sys' (ifcfg_file name) = Some (ifcfg_text name b ip nm @ codes ''GATEWAY='' @ inet_ntoa g @ [10])" "files sys' resolv_conf = Some (servers_text d d2)"
    using SetNet_static [OF assms(1-6) ne assms(9-18), of b] by blast
  let ?w = "sys'\<lparr>socks := [True], replies := [(0, a), (0, m)], mems := [True, True]\<rparr>"
  have "length (inet_ntoa g) < 256" "length d < 256" "length d2 < 256" using ntoa_length [of g] assms(9, 10) by simp_all
  then obtain sys'' where "getnet (Some name) (Some 256) (Some 256) (Some 256) False False ?w =
       Ok (\<lparr>n_ret = 0, n_ip = a, n_mask = m, n_gw = Some (inet_ntoa g), n_dns = Some d, n_dns2 = Some d2, n_mac = None, n_host = None\<rparr>, sys'')"
    using getnet_reads [of ?w name b ip nm "inet_ntoa g" d d2 256 "[]" a m "[]" "[]"] s(2, 3) assms(2, 7, 8, 19) value_ok_ntoa [of g] by auto
  with s(1) show ?thesis by blast
qed

theorem settings_read_back_witness:
  "\<exists>sys' sys''. SetNet (Some (codes ''eth0'')) 0x6401A8C0 0x00FFFFFF (Some (inet_ntoa 0xFE01A8C0)) (Some (codes ''8.8.8.8'')) (Some (codes ''9.9.9.9'')) None 1500 True demo_sys =
       Ok (0, sys') \<and>
     getnet (Some (codes ''eth0'')) (Some 256) (Some 256) (Some 256) False False (sys'\<lparr>socks := [True], replies := [(0, 5), (0, 7)], mems := [True, True]\<rparr>) =
       Ok (\<lparr>n_ret = 0, n_ip = 5, n_mask = 7, n_gw = Some (inet_ntoa 0xFE01A8C0), n_dns = Some (codes ''8.8.8.8''), n_dns2 = Some (codes ''9.9.9.9''),
         n_mac = None, n_host = None\<rparr>, sys'')"
  by (rule settings_read_back [of _ _ _ _ _ _ _ _ 30 demo_rows "[]" "[]" 0 0 0 0 "[(0, 0)]" 0 0 "[]"])
    (use demo_table in \<open>simp_all add: demo_sys_def demo_entries(1) value_ok_def no_g_def line_end_def ctype_simps\<close>)

end
