(* ===== verification/Face_Reader.thy ===== *)
theory Face_Reader
  imports Memory Serial_Port
begin

text \<open>
  The program for a face reader on an RS485 line, \<^verbatim>\<open>src/base/test_rs232.c\<close>: the packets, the search for a response in what has arrived, the
  commands that send or read a file packet by packet, and the dispatcher. The results of \<^verbatim>\<open>select\<close>,
  \<^verbatim>\<open>read\<close> and \<^verbatim>\<open>write\<close> are lists that the calls take from; when one of them is used up the result is \<^term>\<open>NoFuel\<close>, so a theorem that gives a
  result shows that the calls in the list were enough. An access outside of a buffer is \<^term>\<open>Fault\<close>. What is printed is left out.

  The first lemmas show that a response is found when it is complete and not before (\<open>check_whole\<close>, \<open>check_partial\<close>), in whatever pieces it arrives
  (\<open>receive_pieces\<close>). The others follow the commands turn by turn: \<open>upload_loop_packets\<close> for the files that are sent, \<open>picture_loop_parts\<close> and
  \<open>user_loop_parts\<close> for the ones that are read.
\<close>

unbundle bit_operations_syntax

section \<open>Constants and state\<close>

abbreviation (input) HEJIA_REQ_START_DATA0 :: byte where "HEJIA_REQ_START_DATA0 \<equiv> 0x23"
abbreviation (input) HEJIA_REQ_START_DATA1 :: byte where "HEJIA_REQ_START_DATA1 \<equiv> 0x23"
abbreviation (input) HEJIA_RES_START_DATA0 :: byte where "HEJIA_RES_START_DATA0 \<equiv> 0x26"
abbreviation (input) HEJIA_END_DATA0 :: byte where "HEJIA_END_DATA0 \<equiv> 0x0d"
abbreviation (input) HEJIA_END_DATA1 :: byte where "HEJIA_END_DATA1 \<equiv> 0x0a"
abbreviation (input) HEJIA_DEVICE_TYPE :: byte where "HEJIA_DEVICE_TYPE \<equiv> 0x0b"
abbreviation (input) HEJIA_MAIN_CMD :: byte where "HEJIA_MAIN_CMD \<equiv> 0x40"
abbreviation (input) HEJIA_SUB_CMD_AUTH :: byte where "HEJIA_SUB_CMD_AUTH \<equiv> 0x01"
abbreviation (input) HEJIA_SUB_CMD_OVER_TIME :: byte where "HEJIA_SUB_CMD_OVER_TIME \<equiv> 0x02"
abbreviation (input) HEJIA_SUB_CMD_SEND_FEATURE :: byte where "HEJIA_SUB_CMD_SEND_FEATURE \<equiv> 0x03"
abbreviation (input) HEJIA_SUB_CMD_START_VERIFY :: byte where "HEJIA_SUB_CMD_START_VERIFY \<equiv> 0x04"
abbreviation (input) HEJIA_SUB_CMD_GET_RESULT :: byte where "HEJIA_SUB_CMD_GET_RESULT \<equiv> 0x05"
abbreviation (input) HEJIA_SUB_CMD_GET_PIC :: byte where "HEJIA_SUB_CMD_GET_PIC \<equiv> 0x06"
abbreviation (input) HEJIA_SAVE_REG_GET_PIC :: byte where "HEJIA_SAVE_REG_GET_PIC \<equiv> 0x07"
abbreviation (input) SUB_CMD_ONE_TO_ONE_VERIFY :: byte where "SUB_CMD_ONE_TO_ONE_VERIFY \<equiv> 0x08"
abbreviation (input) SUB_CMD_GET_USER_LIST :: byte where "SUB_CMD_GET_USER_LIST \<equiv> 0x09"
abbreviation (input) SUB_GET_USER_FEATURE :: byte where "SUB_GET_USER_FEATURE \<equiv> 0x0A"
abbreviation (input) SUB_GET_USER_REG_PHOTO :: byte where "SUB_GET_USER_REG_PHOTO \<equiv> 0x0B"
abbreviation (input) MAX_FACE_BUFFER_LEN :: nat where "MAX_FACE_BUFFER_LEN \<equiv> 11 * 1024"
abbreviation (input) MAX_PHOTO_BUFFER_LEN :: nat where "MAX_PHOTO_BUFFER_LEN \<equiv> 20 * 1024"
abbreviation (input) MAX_RECV_BUF_SIZE :: nat where "MAX_RECV_BUF_SIZE \<equiv> 1024"
abbreviation (input) MAX_PACKET_SIZE :: nat where "MAX_PACKET_SIZE \<equiv> 128"
abbreviation (input) MAX_PIC_SIZE :: nat where "MAX_PIC_SIZE \<equiv> 6 * 1024"

text \<open>
  The line to the device and the files: the results of \<^verbatim>\<open>select\<close>, \<^verbatim>\<open>read\<close> (bytes, or an error) and \<^verbatim>\<open>write\<close>, the bytes sent so far, the
  content of the files, and which files can be opened for writing.
\<close>

datatype write_ret = Wrote nat | Interrupted | WriteError

record serial =
  selects :: "int list"
  chunks :: "byte list option list"
  write_rets :: "write_ret list"
  line :: "byte list"
  stored :: "string \<Rightarrow> byte list option"
  can_open :: "string \<Rightarrow> bool"

record face_globals =
  g_faceBuf :: "byte list"
  g_RegPhotoBuf :: "byte list"
  g_faceBufOffset :: "32 word"
  g_facePicName :: "byte list"
  g_facePicBuf :: "byte list"
  g_AuthFlag :: int

section \<open>Packets\<close>

definition getXorResult :: "byte list \<Rightarrow> byte" where
  "getXorResult buf = fold (XOR) buf 0"

text \<open>All requests have this form: head, length, device, command, data, checksum in two bytes, and the end.\<close>

definition request_packet :: "byte \<Rightarrow> byte list \<Rightarrow> byte list" where
  "request_packet sub dat =
     (let n = 11 + length dat;
          p = [HEJIA_REQ_START_DATA0, HEJIA_REQ_START_DATA1, of_nat n, of_nat (n div 256), HEJIA_DEVICE_TYPE, HEJIA_MAIN_CMD, sub] @ dat
      in p @ [getXorResult p, 0, HEJIA_END_DATA0, HEJIA_END_DATA1])"

definition rd_at :: "byte list \<Rightarrow> int \<Rightarrow> byte outcome" where
  "rd_at b j = (if j < 0 then Fault else rd_byte b (nat j))"

text \<open>\<^verbatim>\<open>CheckPackContent\<close> from a position on, with the number of positions left. The length may be 0, and the bytes may lie behind the ones received.\<close>

fun check_from :: "byte list \<Rightarrow> nat \<Rightarrow> nat \<Rightarrow> (nat \<times> nat) option outcome" where
  "check_from b i 0 = Ok None"
| "check_from b i (Suc k) =
     bind_outcome (rd_byte b i) (\<lambda>b0.
     if b0 \<noteq> HEJIA_RES_START_DATA0 then check_from b (Suc i) k
     else bind_outcome (rd_byte b (i + 1)) (\<lambda>b1.
     if b1 \<noteq> HEJIA_RES_START_DATA0 then check_from b (Suc i) k
     else bind_outcome (rd_byte b (i + 2)) (\<lambda>lo. bind_outcome (rd_byte b (i + 3)) (\<lambda>hi.
       let dataLen = 256 * unat hi + unat lo in
       if \<not> dataLen < MAX_PACKET_SIZE + 32 then check_from b (Suc i) k
       else bind_outcome (rd_byte b (i + 4)) (\<lambda>dev.
       if dev \<noteq> HEJIA_DEVICE_TYPE then check_from b (Suc i) k
       else bind_outcome (rd_at b (int i + int dataLen - 2)) (\<lambda>e0.
       if e0 \<noteq> HEJIA_END_DATA0 then check_from b (Suc i) k
       else bind_outcome (rd_at b (int i + int dataLen - 1)) (\<lambda>e1.
       if e1 \<noteq> HEJIA_END_DATA1 then check_from b (Suc i) k else Ok (Some (i, dataLen)))))))))"

definition CheckPackContent :: "byte list \<Rightarrow> nat \<Rightarrow> (nat \<times> nat) option outcome" where
  "CheckPackContent pPack n = check_from pPack 0 n"

text \<open>\<^verbatim>\<open>ReadPacket\<close>: the pieces are put behind each other into the buffer until a packet is found in it. A piece has up to 1024 bytes wherever it goes.\<close>

fun packet_loop :: "byte list \<Rightarrow> nat \<Rightarrow> byte list option list \<Rightarrow> ((nat \<times> nat) option \<times> byte list \<times> byte list option list) outcome" where
  "packet_loop b n [] = NoFuel"
| "packet_loop b n (None # cs) = Ok (None, b, cs)"
| "packet_loop b n (Some ch # cs) =
     (let c = take MAX_RECV_BUF_SIZE ch in
      bind_outcome (wr_bytes b n c) (\<lambda>b1.
      bind_outcome (CheckPackContent b1 (n + length c)) (\<lambda>r.
        case r of Some p \<Rightarrow> Ok (Some p, b1, cs) | None \<Rightarrow> packet_loop b1 (n + length c) cs)))"

definition ReadPacket :: "byte list \<Rightarrow> serial \<Rightarrow> ((nat \<times> nat) option \<times> byte list \<times> serial) outcome" where
  "ReadPacket validBuf s = bind_outcome (packet_loop validBuf 0 (chunks s)) (\<lambda>(r, b, cs). Ok (r, b, s\<lparr>chunks := cs\<rparr>))"

text \<open>A plain \<^verbatim>\<open>write\<close>, whose result is not looked at and which is taken to send all bytes, and \<^verbatim>\<open>WriteData\<close> with its loop over partial writes.\<close>

definition serial_write :: "byte list \<Rightarrow> serial \<Rightarrow> serial" where
  "serial_write p s = s\<lparr>line := line s @ p\<rparr>"

fun WriteData_loop :: "byte list \<Rightarrow> write_ret list \<Rightarrow> (bool \<times> byte list \<times> write_ret list) outcome" where
  "WriteData_loop [] ws = Ok (True, [], ws)"
| "WriteData_loop (b # bs) [] = NoFuel"
| "WriteData_loop (b # bs) (Wrote k # ws) =
     (if k = 0 then Ok (False, [], ws)
      else bind_outcome (WriteData_loop (drop k (b # bs)) ws) (\<lambda>(ok, out, ws1). Ok (ok, take k (b # bs) @ out, ws1)))"
| "WriteData_loop (b # bs) (Interrupted # ws) = WriteData_loop (b # bs) ws"
| "WriteData_loop (b # bs) (WriteError # ws) = Ok (False, [], ws)"

definition WriteData :: "byte list \<Rightarrow> serial \<Rightarrow> (bool \<times> serial) outcome" where
  "WriteData p s = bind_outcome (WriteData_loop p (write_rets s)) (\<lambda>(ok, out, ws). Ok (ok, s\<lparr>write_rets := ws, line := line s @ out\<rparr>))"

text \<open>
  Waiting for the response: the result of \<^verbatim>\<open>select\<close>, and if there is one the receive buffer with the packet, and its length. After an error of
  \<^verbatim>\<open>read\<close> the length is the one of the packet before, and the bytes before the buffer are copied.
\<close>

definition receive_packet :: "byte list \<Rightarrow> nat \<Rightarrow> serial \<Rightarrow> (int \<times> (byte list \<times> nat option) option \<times> byte list \<times> nat \<times> serial) outcome" where
  "receive_packet validBuf iValidLen s =
     (case selects s of
        [] \<Rightarrow> NoFuel
      | w # ws \<Rightarrow>
          let s1 = s\<lparr>selects := ws\<rparr> in
          if \<not> 0 < w then Ok (w, None, validBuf, iValidLen, s1)
          else
            bind_outcome (ReadPacket validBuf s1) (\<lambda>(r, b, s2).
              case r of
                Some (off, n) \<Rightarrow>
                  if off + n \<le> length b then
                    Ok (w, Some (take n (drop off b) @ replicate (1024 - n) 0, Some off), b, n, s2)
                  else Fault
              | None \<Rightarrow> if iValidLen = 0 then Ok (w, Some (replicate 1024 0, None), b, 0, s2) else Fault))"

section \<open>Commands\<close>

text \<open>The user number in the requests, \<^verbatim>\<open>"10000000"\<close>.\<close>

definition user_no :: "byte list" where
  "user_no = [49, 48, 48, 48, 48, 48, 48, 48]"

text \<open>Commands with one exchange: the handshake, the timeout, and starting a comparison. They return the result of \<^verbatim>\<open>select\<close>.\<close>

definition cmd_simple :: "byte \<Rightarrow> byte list \<Rightarrow> byte list \<Rightarrow> serial \<Rightarrow> (int \<times> serial) outcome" where
  "cmd_simple sub dat garbage s =
     bind_outcome (receive_packet garbage 0 (serial_write (request_packet sub dat) s)) (\<lambda>(w, r, b, n, s1). Ok (w, s1))"

definition cmd_auth :: "byte list \<Rightarrow> serial \<Rightarrow> (int \<times> serial) outcome" where
  "cmd_auth garbage s = cmd_simple HEJIA_SUB_CMD_AUTH [] garbage s"

definition cmd_over_time :: "byte list \<Rightarrow> serial \<Rightarrow> (int \<times> serial) outcome" where
  "cmd_over_time garbage s = cmd_simple HEJIA_SUB_CMD_OVER_TIME [1] garbage s"

definition cmd_start_verify :: "byte list \<Rightarrow> serial \<Rightarrow> (int \<times> serial) outcome" where
  "cmd_start_verify garbage s = cmd_simple HEJIA_SUB_CMD_START_VERIFY [] garbage s"

definition cmd_one_to_one :: "byte list \<Rightarrow> serial \<Rightarrow> (int \<times> serial) outcome" where
  "cmd_one_to_one garbage s = cmd_simple SUB_CMD_ONE_TO_ONE_VERIFY user_no garbage s"

text \<open>The result of a comparison: the name of the picture is kept. Printing it, which reads behind a name that fills its array, is left out.\<close>

definition cmd_result :: "byte list \<Rightarrow> face_globals \<Rightarrow> serial \<Rightarrow> (int \<times> face_globals \<times> serial) outcome" where
  "cmd_result garbage g s =
     bind_outcome (receive_packet garbage 0 (serial_write (request_packet HEJIA_SUB_CMD_GET_RESULT []) s)) (\<lambda>(w, r, b, n, s1).
       case r of
         None \<Rightarrow> Ok (w, g, s1)
       | Some (recvBuf, off) \<Rightarrow>
           if n < 12 \<or> n - 12 > 128 then Fault
           else Ok (w, g\<lparr>g_facePicName := take (n - 12) (drop 8 recvBuf) @ replicate (128 - (n - 12)) 0\<rparr>, s1))"

text \<open>\<^verbatim>\<open>ReadFeature\<close>: the bytes of a file up to the size of the buffer, and their number; -1 if it cannot be opened.\<close>

definition ReadFeature :: "byte list \<Rightarrow> byte list option \<Rightarrow> int \<times> byte list" where
  "ReadFeature buf f =
     (case f of None \<Rightarrow> (-1, buf) | Some t \<Rightarrow> let r = take (length buf) t in (int (length r), r @ drop (length r) buf))"

text \<open>The packets of an upload; division truncates, and the remainder of -1 is not 0.\<close>

definition packet_total :: "int \<Rightarrow> int" where
  "packet_total n = (if n = -1 then 1 else n div 128 + (if n mod 128 \<noteq> 0 then 1 else 0))"

definition piece_len :: "int \<Rightarrow> 32 word \<Rightarrow> nat" where
  "piece_len n off = (let rest = unat (of_int n - off) in if rest \<ge> MAX_PACKET_SIZE then MAX_PACKET_SIZE else rest)"

definition upload_packet :: "byte \<Rightarrow> byte list \<Rightarrow> int \<Rightarrow> nat \<Rightarrow> byte list \<Rightarrow> byte list" where
  "upload_packet sub stu tot cur piece = request_packet sub (stu @ [of_int tot, of_nat cur] @ piece)"

text \<open>
  The loop of an upload, from the packet \<open>cur\<close> on. The number of the user in the next packet is the one of the response before. A packet that is
  refused or not answered ends the upload. Every turn takes one result of \<^verbatim>\<open>select\<close>.
\<close>

function upload_loop ::
    "byte \<Rightarrow> bool \<Rightarrow> byte list \<Rightarrow> int \<Rightarrow> int \<Rightarrow> nat \<Rightarrow> 32 word \<Rightarrow> byte list \<Rightarrow> serial \<Rightarrow> (32 word \<times> serial) outcome" where
  "upload_loop sub whole buf len tot cur off stu s =
     (if \<not> int cur < tot then Ok (off, s)
      else
        let n = piece_len len off in
        if unat off + n > length buf then Fault
        else
          let p = upload_packet sub stu tot cur (take n (drop (unat off) buf)) in
          bind_outcome (if whole then bind_outcome (WriteData p s) (\<lambda>(ok, s1). Ok s1) else Ok (serial_write p s)) (\<lambda>s1.
          case selects s of
            [] \<Rightarrow> NoFuel
          | w # ws \<Rightarrow>
              bind_outcome (receive_packet (replicate 1024 0) 0 s1) (\<lambda>(w', r, b, vn, s2).
                case r of
                  None \<Rightarrow> Ok (off + of_nat n, s2)
                | Some (recvBuf, roff) \<Rightarrow>
                    if recvBuf ! 17 \<noteq> 1 then Ok (off + of_nat n, s2)
                    else upload_loop sub whole buf len tot ((cur + 1) mod 256) (off + of_nat n) (take 8 (drop 7 recvBuf)) (s2\<lparr>selects := ws\<rparr>))))"
  by auto

termination
  by (relation "measure (\<lambda>(sub, whole, buf, len, tot, cur, off, stu, s). length (selects s))") auto

declare upload_loop.simps [simp del]

definition cmd_send_feature :: "face_globals \<Rightarrow> serial \<Rightarrow> (face_globals \<times> serial) outcome" where
  "cmd_send_feature g s =
     (let (n, buf) = ReadFeature (g_faceBuf g) (stored s ''FeatureTest.dat'') in
      bind_outcome (upload_loop HEJIA_SUB_CMD_SEND_FEATURE True buf n (packet_total n) 0 0 user_no s) (\<lambda>(off, s1).
        Ok (g\<lparr>g_faceBuf := buf, g_faceBufOffset := off\<rparr>, s1)))"

definition cmd_send_photo :: "face_globals \<Rightarrow> serial \<Rightarrow> (face_globals \<times> serial) outcome" where
  "cmd_send_photo g s =
     (let (n, buf) = ReadFeature (g_RegPhotoBuf g) (stored s ''RegPhoto.jpg'') in
      bind_outcome (upload_loop HEJIA_SAVE_REG_GET_PIC False buf n (packet_total n) 0 0 user_no s) (\<lambda>(off, s1).
        Ok (g\<lparr>g_RegPhotoBuf := buf, g_faceBufOffset := off\<rparr>, s1)))"

text \<open>A file opened for writing is not truncated.\<close>

definition store_file :: "string \<Rightarrow> byte list \<Rightarrow> serial \<Rightarrow> serial" where
  "store_file f t s = s\<lparr>stored := (stored s)(f := Some (t @ drop (length t) (case stored s f of None \<Rightarrow> [] | Some old \<Rightarrow> old)))\<rparr>"

text \<open>
  The loop that reads the picture of a comparison, packet by packet; the number of packets is the one in the last response. A request that is not
  answered is not repeated. The buffers of the packets before are still there.
\<close>

definition picture_request :: "byte list \<Rightarrow> nat \<Rightarrow> byte list" where
  "picture_request name cur = request_packet HEJIA_SUB_CMD_GET_PIC (take 64 name @ [of_nat cur])"

function picture_loop ::
    "byte list \<Rightarrow> nat \<Rightarrow> nat \<Rightarrow> nat \<Rightarrow> byte list \<Rightarrow> byte list \<Rightarrow> nat \<Rightarrow> int \<Rightarrow> serial \<Rightarrow> (int \<times> nat \<times> byte list \<times> serial) outcome" where
  "picture_loop name cur tot off pic validBuf vlen ret s =
     (if \<not> cur < tot then Ok (ret, off, pic, s)
      else
        case selects s of
          [] \<Rightarrow> NoFuel
        | w # ws \<Rightarrow>
            bind_outcome (receive_packet validBuf vlen (serial_write (picture_request name cur) s)) (\<lambda>(w', r, b, n, s1).
              case r of
                None \<Rightarrow> picture_loop name (cur + 1) tot off pic b n w' (s1\<lparr>selects := ws\<rparr>)
              | Some (recvBuf, roff) \<Rightarrow>
                  if n < 13 then Fault
                  else
                    bind_outcome (wr_bytes pic off (take (n - 13) (drop 9 recvBuf))) (\<lambda>pic1.
                      picture_loop name (cur + 1) (unat (recvBuf ! 7)) (off + (n - 13)) pic1 b n w' (s1\<lparr>selects := ws\<rparr>))))"
  by auto

termination
  by (relation "measure (\<lambda>(name, cur, tot, off, pic, b, n, ret, s). length (selects s))") auto

declare picture_loop.simps [simp del]

definition cmd_picture :: "byte list \<Rightarrow> face_globals \<Rightarrow> serial \<Rightarrow> (int \<times> face_globals \<times> serial) outcome" where
  "cmd_picture garbage g s =
     bind_outcome (picture_loop (g_facePicName g) 0 1 0 (g_facePicBuf g) garbage 0 0 s) (\<lambda>(ret, off, pic, s1).
       let g1 = g\<lparr>g_facePicBuf := pic\<rparr> in
       if can_open s1 ''PicTest.jpg'' then Ok (ret, g1\<lparr>g_AuthFlag := 0\<rparr>, store_file ''PicTest.jpg'' (take off pic) s1) else Ok (ret, g1, s1))"

text \<open>
  The loop that reads the feature or the photo of a user. The variable with the place of the next piece is also given the place of the packet in
  the receive buffer, so that the pieces overwrite each other; the index is a plain \<^verbatim>\<open>char\<close>.
\<close>

function user_loop ::
    "byte \<Rightarrow> int \<Rightarrow> int \<Rightarrow> int \<Rightarrow> byte list \<Rightarrow> byte list \<Rightarrow> byte list \<Rightarrow> nat \<Rightarrow> int \<Rightarrow> serial \<Rightarrow>
     (int \<times> int \<times> int \<times> int \<times> byte list \<times> byte list \<times> serial) outcome" where
  "user_loop sub cIndex tot iOffset no buf validBuf vlen ret s =
     (if \<not> cIndex < tot then Ok (ret, cIndex, tot, iOffset, no, buf, s)
      else
        case selects s of
          [] \<Rightarrow> NoFuel
        | w # ws \<Rightarrow>
            bind_outcome (receive_packet validBuf vlen (serial_write (request_packet sub (user_no @ [of_int cIndex])) s)) (\<lambda>(w', r, b, n, s1).
              let s2 = s1\<lparr>selects := ws\<rparr> in
              case r of
                None \<Rightarrow> user_loop sub (to_char (cIndex + 1)) tot iOffset no buf b n w' s2
              | Some (recvBuf, roff) \<Rightarrow>
                  let no1 = take 8 (drop 7 recvBuf) in
                  if recvBuf ! 15 = 0 \<or> recvBuf ! 15 = 1 then
                    user_loop sub (to_char (cIndex + 1)) tot (case roff of None \<Rightarrow> -1 | Some k \<Rightarrow> int k) no1 buf b n w' s2
                  else
                    case roff of
                      None \<Rightarrow> Fault
                    | Some k \<Rightarrow>
                        if n < 21 then Fault
                        else
                          bind_outcome (wr_bytes buf k (take (n - 21) (drop 17 recvBuf))) (\<lambda>buf1.
                            user_loop sub (to_char (cIndex + 1)) (int (unat (recvBuf ! 15))) (int (k + (n - 21))) no1 buf1 b n w' s2)))"
  by auto

termination
  by (relation "measure (\<lambda>(sub, c, tot, off, no, buf, b, n, ret, s). length (selects s))") auto

declare user_loop.simps [simp del]

text \<open>The file is written if the index is the one of the last packet when the loop is over.\<close>

definition user_file :: "byte list \<Rightarrow> string \<Rightarrow> string" where
  "user_file no suffix = map (\<lambda>b. char_of (unat b)) (takeWhile (\<lambda>b. b \<noteq> 0) no) @ suffix"

definition save_user_file :: "int \<Rightarrow> int \<Rightarrow> int \<Rightarrow> byte list \<Rightarrow> byte list \<Rightarrow> string \<Rightarrow> serial \<Rightarrow> serial outcome" where
  "save_user_file cIndex tot iOffset no buf suffix s =
     (if cIndex \<noteq> 0 \<and> cIndex = tot - 1 \<and> can_open s (user_file no suffix) then
        if 0 \<le> iOffset \<and> iOffset \<le> int (length buf) then Ok (store_file (user_file no suffix) (take (nat iOffset) buf) s) else Fault
      else Ok s)"

definition cmd_user_feature :: "byte list \<Rightarrow> face_globals \<Rightarrow> serial \<Rightarrow> (int \<times> face_globals \<times> serial) outcome" where
  "cmd_user_feature garbage g s =
     bind_outcome (user_loop SUB_GET_USER_FEATURE 0 1 0 [] (g_faceBuf g) garbage 0 0 s) (\<lambda>(ret, i, tot, off, no, buf, s1).
       bind_outcome (save_user_file i tot off no buf ''_Feature.dat'' s1) (\<lambda>s2.
       let failed = (i \<noteq> 0 \<and> i = tot - 1 \<and> \<not> can_open s1 (user_file no ''_Feature.dat'')) in
       Ok (ret, g\<lparr>g_faceBuf := buf, g_AuthFlag := (if failed then g_AuthFlag g else 0)\<rparr>, s2)))"

definition cmd_user_photo :: "byte list \<Rightarrow> face_globals \<Rightarrow> serial \<Rightarrow> (int \<times> face_globals \<times> serial) outcome" where
  "cmd_user_photo garbage g s =
     bind_outcome (user_loop SUB_GET_USER_REG_PHOTO 0 1 0 [] (g_RegPhotoBuf g) garbage 0 0 s) (\<lambda>(ret, i, tot, off, no, buf, s1).
       bind_outcome (save_user_file i tot off no buf ''_4.jpg'' s1) (\<lambda>s2.
       let failed = (i \<noteq> 0 \<and> i = tot - 1 \<and> \<not> can_open s1 (user_file no ''_4.jpg'')) in
       Ok (ret, g\<lparr>g_RegPhotoBuf := buf, g_AuthFlag := (if failed then g_AuthFlag g else 0)\<rparr>, s2)))"

text \<open>The list of the users: number, name, type and photo type of each one that is shown. The index goes on from the one in the response.\<close>

definition to_short :: "int \<Rightarrow> int" where
  "to_short v = (v + 2 ^ 15) mod 2 ^ 16 - 2 ^ 15"

function list_loop ::
    "int \<Rightarrow> int \<Rightarrow> (byte list \<times> byte list \<times> byte \<times> byte) list \<Rightarrow> byte list \<Rightarrow> nat \<Rightarrow> int \<Rightarrow> serial \<Rightarrow>
     (int \<times> (byte list \<times> byte list \<times> byte \<times> byte) list \<times> serial) outcome" where
  "list_loop sIndex tot users validBuf vlen ret s =
     (if \<not> sIndex < tot then Ok (ret, users, s)
      else
        case selects s of
          [] \<Rightarrow> NoFuel
        | w # ws \<Rightarrow>
            bind_outcome (receive_packet validBuf vlen (serial_write (request_packet SUB_CMD_GET_USER_LIST [of_int sIndex, of_int (sIndex div 256)]) s))
              (\<lambda>(w', r, b, n, s1).
              let s2 = s1\<lparr>selects := ws\<rparr> in
              case r of
                None \<Rightarrow> list_loop (to_short (sIndex + 1)) tot users b n w' s2
              | Some (recvBuf, roff) \<Rightarrow>
                  if n = 0x0B then list_loop (to_short (sIndex + 1)) tot users b n w' s2
                  else
                    let tot1 = to_short (256 * int (unat (recvBuf ! 8)) + int (unat (recvBuf ! 7)));
                        i1 = to_short (256 * int (unat (recvBuf ! 10)) + int (unat (recvBuf ! 9)));
                        u = (take 8 (drop 11 recvBuf), take 32 (drop 19 recvBuf), recvBuf ! 51, recvBuf ! 52)
                    in list_loop (to_short (i1 + 1)) tot1 (users @ [u]) b n w' s2))"
  by auto

termination
  by (relation "measure (\<lambda>(i, tot, us, b, n, ret, s). length (selects s))") auto

declare list_loop.simps [simp del]

definition cmd_user_list :: "byte list \<Rightarrow> serial \<Rightarrow> (int \<times> serial) outcome" where
  "cmd_user_list garbage s = bind_outcome (list_loop 0 1 [] garbage 0 0 s) (\<lambda>(ret, users, s1). Ok (ret, s1))"

section \<open>The dispatcher\<close>

text \<open>The uploads return 0 whatever happens, as they have a result variable of their own. Other commands show the menu.\<close>

definition dealCmd :: "byte list \<Rightarrow> int \<Rightarrow> face_globals \<Rightarrow> serial \<Rightarrow> (int \<times> face_globals \<times> serial) outcome" where
  "dealCmd garbage cmd g s =
     (let keep = (\<lambda>m. bind_outcome m (\<lambda>(ret, s1). Ok (ret, g, s1)));
          zero = (\<lambda>m. bind_outcome m (\<lambda>(g1, s1). Ok (0, g1, s1)))
      in
      if cmd = 49 then keep (cmd_auth garbage s)
      else if cmd = 50 then keep (cmd_over_time garbage s)
      else if cmd = 51 then zero (cmd_send_feature g s)
      else if cmd = 52 then keep (cmd_start_verify garbage s)
      else if cmd = 56 then keep (cmd_one_to_one garbage s)
      else if cmd = 53 then cmd_result garbage g s
      else if cmd = 54 then cmd_picture garbage g s
      else if cmd = 55 then zero (cmd_send_photo g s)
      else if cmd = 57 then keep (cmd_user_list garbage s)
      else if cmd = 97 then cmd_user_feature garbage g s
      else if cmd = 98 then cmd_user_photo garbage g s
      else Ok (0, g, s))"

text \<open>\<^verbatim>\<open>main\<close> on the characters of the input: the rest of the line of a command is skipped. At the end of the input it never ends.\<close>

function face_main :: "byte list \<Rightarrow> int list \<Rightarrow> face_globals \<Rightarrow> serial \<Rightarrow> (face_globals \<times> serial) outcome" where
  "face_main garbage [] g s = NoFuel"
| "face_main garbage (c # cs) g s =
     (let rest = (if (48 \<le> c \<and> c \<le> 57) \<or> (97 \<le> c \<and> c \<le> 122) then dropWhile (\<lambda>x. x \<noteq> 10) cs else 10 # cs) in
      if rest = [] then NoFuel
      else if c = 113 \<or> c = 81 then Ok (g, s)
      else
        bind_outcome (dealCmd garbage c g s) (\<lambda>(ret, g1, s1).
          if ret < 0 then Ok (g1, s1) else face_main garbage (tl rest) g1 s1))"
  by pat_completeness auto

termination
proof (relation "measure (\<lambda>(b, cs, g, s). length cs)", goal_cases)
  case 2
  have "length (tl (dropWhile (\<lambda>x. x \<noteq> 10) cs)) \<le> length cs" for cs :: "int list"
    using length_dropWhile_le [of "\<lambda>x. x \<noteq> 10" cs] by simp
  then show ?case using 2 by (auto split: if_splits simp: less_Suc_eq_le simp del: length_tl)
qed simp

text \<open>
  The whole program: without an argument or with one that is too long for the path there is no result; otherwise the result, the attributes of
  the line if it could be opened, and what is left of the globals and the line.
\<close>

definition face_program ::
    "string option \<Rightarrow> (string \<Rightarrow> termios option) \<Rightarrow> byte list \<Rightarrow> int list \<Rightarrow> face_globals \<Rightarrow> serial \<Rightarrow> (int \<times> termios option \<times> face_globals \<times> serial) outcome" where
  "face_program arg devices garbage inp g s =
     (case arg of
        None \<Rightarrow> Fault
      | Some a \<Rightarrow>
          let devPath = ''/dev/ttyS'' @ a in
          if \<not> length devPath < 64 then Fault
          else
            case devices devPath of
              None \<Rightarrow> Ok (-1, None, g, s)
            | Some t \<Rightarrow> bind_outcome (face_main garbage inp g s) (\<lambda>(g1, s1). Ok (0, Some (set_serial_param 57600 8 1 110 0 t), g1, s1)))"

section \<open>Responses are found\<close>

text \<open>A response of the device; the checksum is not looked at.\<close>

definition response_packet :: "byte \<Rightarrow> byte list \<Rightarrow> byte \<Rightarrow> byte \<Rightarrow> byte list" where
  "response_packet sub dat x y =
     (let n = 11 + length dat in [0x26, 0x26, of_nat n, of_nat (n div 256), HEJIA_DEVICE_TYPE, HEJIA_MAIN_CMD, sub] @ dat @ [x, y, HEJIA_END_DATA0, HEJIA_END_DATA1])"

lemma length_response [simp]: "length (response_packet sub dat x y) = 11 + length dat"
  by (simp add: response_packet_def Let_def)

lemma response_nth:
  fixes sub x y :: byte and dat :: "byte list"
  assumes "length dat < 149"
  defines "f \<equiv> response_packet sub dat x y"
  shows "f ! 0 = 0x26" "f ! 1 = 0x26" "256 * unat (f ! 3) + unat (f ! 2) = length f" "f ! 4 = 0x0b" "f ! (length f - 2) = 0x0d" "f ! (length f - 1) = 0x0a"
proof -
  have n: "f = [0x26, 0x26, of_nat (length f), of_nat (length f div 256), 0x0b, 0x40, sub] @ dat @ [x, y, 0x0d, 0x0a]"
    by (simp add: f_def response_packet_def Let_def)
  have "length f < 256" using assms(1) by (simp add: f_def)
  then have "unat (of_nat (length f) :: byte) = length f" "unat (of_nat (length f div 256) :: byte) = 0" by (simp_all add: unat_of_nat)
  moreover have "f ! 2 = of_nat (length f)" "f ! 3 = of_nat (length f div 256)" by (subst n, simp)+
  ultimately show "256 * unat (f ! 3) + unat (f ! 2) = length f" by simp
  show "f ! 0 = 0x26" "f ! 1 = 0x26" "f ! 4 = 0x0b" by (subst n, simp)+
  have l: "length f - 2 = 7 + (length dat + 2)" "length f - 1 = 7 + (length dat + 3)" by (simp_all add: f_def)
  show "f ! (length f - 2) = 0x0d" "f ! (length f - 1) = 0x0a" unfolding l by (subst n, simp add: nth_append)+
qed

lemma rd_byte_Ok: "i < length b \<Longrightarrow> rd_byte b i = Ok (b ! i)"
  by (simp add: rd_byte_def)

lemma rd_at_nat: "k \<le> i + n \<Longrightarrow> rd_at b (int i + int n - int k) = rd_byte b (i + n - k)"
  by (simp add: rd_at_def nat_diff_distrib' flip: of_nat_add of_nat_diff)

lemma check_step_found:
  "rd_byte b i = Ok 0x26 \<Longrightarrow> rd_byte b (i + 1) = Ok 0x26 \<Longrightarrow> rd_byte b (i + 2) = Ok lo \<Longrightarrow> rd_byte b (i + 3) = Ok hi \<Longrightarrow> rd_byte b (i + 4) = Ok 0x0b \<Longrightarrow>
   256 * unat hi + unat lo = n \<Longrightarrow> n < 160 \<Longrightarrow> rd_at b (int i + int n - 2) = Ok 0x0d \<Longrightarrow> rd_at b (int i + int n - 1) = Ok 0x0a \<Longrightarrow>
   check_from b i (Suc k) = Ok (Some (i, n))"
  by (simp add: Let_def)

lemma check_step_device:
  "rd_byte b i = Ok b0 \<Longrightarrow> rd_byte b (i + 1) = Ok b1 \<Longrightarrow> rd_byte b (i + 2) = Ok lo \<Longrightarrow> rd_byte b (i + 3) = Ok hi \<Longrightarrow> rd_byte b (i + 4) = Ok dev \<Longrightarrow>
   dev \<noteq> 0x0b \<Longrightarrow> check_from b i (Suc k) = check_from b (Suc i) k"
  by (simp add: Let_def)

lemma check_step_end:
  "rd_byte b i = Ok b0 \<Longrightarrow> rd_byte b (i + 1) = Ok b1 \<Longrightarrow> rd_byte b (i + 2) = Ok lo \<Longrightarrow> rd_byte b (i + 3) = Ok hi \<Longrightarrow> rd_byte b (i + 4) = Ok dev \<Longrightarrow>
   256 * unat hi + unat lo = n \<Longrightarrow> rd_at b (int i + int n - 2) = Ok e0 \<Longrightarrow> rd_at b (int i + int n - 1) = Ok e1 \<Longrightarrow> e0 \<noteq> 0x0d \<or> e1 \<noteq> 0x0a \<Longrightarrow>
   check_from b i (Suc k) = check_from b (Suc i) k"
  by (auto simp: Let_def)

lemma check_whole:
  assumes "length dat < 149"
  shows "CheckPackContent (response_packet sub dat x y @ g) (length (response_packet sub dat x y)) = Ok (Some (0, length (response_packet sub dat x y)))"
proof -
  let ?f = "response_packet sub dat x y" let ?b = "?f @ g"
  obtain m where m: "length ?f = Suc m" by simp
  have b: "i < length ?f \<Longrightarrow> rd_byte ?b i = Ok (?f ! i)" for i by (simp add: rd_byte_def nth_append)
  have n: "256 * unat (?f ! 3) + unat (?f ! 2) = length ?f" by (rule response_nth(3) [OF assms])
  have e: "rd_at ?b (int 0 + int (length ?f) - 2) = Ok 0x0d" "rd_at ?b (int 0 + int (length ?f) - 1) = Ok 0x0a"
    using rd_at_nat [of 2 0 "length ?f" ?b] rd_at_nat [of 1 0 "length ?f" ?b] b [of "length ?f - 2"] b [of "length ?f - 1"] response_nth(5, 6) [OF assms, of sub x y] by simp_all
  have r: "rd_byte ?b 0 = Ok 0x26" "rd_byte ?b (0 + 1) = Ok 0x26" "rd_byte ?b (0 + 2) = Ok (?f ! 2)" "rd_byte ?b (0 + 3) = Ok (?f ! 3)" "rd_byte ?b (0 + 4) = Ok 0x0b"
    unfolding add_0 using b [of 0] b [of 1] b [of 2] b [of 3] b [of 4] response_nth(1, 2, 4) [OF assms, of sub x y] by simp_all
  have "length ?f < 160" using assms by simp
  from check_step_found [OF r n this e] show ?thesis unfolding CheckPackContent_def m by simp
qed

lemma check_none:
  "(\<And>j. i \<le> j \<Longrightarrow> j < i + m \<Longrightarrow> \<not> (b ! j = 0x26 \<and> b ! (j + 1) = 0x26)) \<Longrightarrow> i + m < length b \<Longrightarrow> check_from b i m = Ok None"
proof (induction m arbitrary: i)
  case (Suc m)
  have "check_from b (Suc i) m = Ok None" using Suc.prems by (intro Suc.IH) auto
  then show ?case using Suc.prems(1) [of i] Suc.prems(2) by (simp add: rd_byte_def)
qed simp

text \<open>A response that arrives in pieces is not found before it is complete, unless its start occurs in it a second time.\<close>

definition single_start :: "byte list \<Rightarrow> bool" where
  "single_start f \<longleftrightarrow> (\<forall>i < length f. 0 < i \<longrightarrow> i + 1 < length f \<longrightarrow> \<not> (f ! i = 0x26 \<and> f ! (i + 1) = 0x26))"

definition arrived :: "byte list \<Rightarrow> nat \<Rightarrow> byte list" where
  "arrived f k = take k f @ replicate (1024 - k) 0"

lemma arrived_nth: "k \<le> length f \<Longrightarrow> i < 1024 \<Longrightarrow> arrived f k ! i = (if i < k then f ! i else 0)"
  by (simp add: arrived_def nth_append)

lemma arrived_length [simp]: "k \<le> length f \<Longrightarrow> k \<le> 1024 \<Longrightarrow> length (arrived f k) = 1024"
  by (simp add: arrived_def)

lemma check_partial:
  assumes "length dat < 149" "single_start (response_packet sub dat x y)" "k < length (response_packet sub dat x y)"
  shows "CheckPackContent (arrived (response_packet sub dat x y) k) k = Ok None"
proof (cases k)
  case (Suc m)
  let ?f = "response_packet sub dat x y" let ?b = "arrived ?f k"
  have k: "k \<le> length ?f" "k \<le> 1024" using assms(1, 3) by simp_all
  have nx: "check_from ?b (Suc 0) m = Ok None"
  proof (rule check_none)
    fix j assume j: "Suc 0 \<le> j" "j < Suc 0 + m"
    then have "j < k" "j + 1 < 1024" "j < length ?f" using Suc assms(1, 3) by simp_all
    then show "\<not> (?b ! j = 0x26 \<and> ?b ! (j + 1) = 0x26)"
      using assms(2) k j arrived_nth [OF k(1), of j] arrived_nth [OF k(1), of "j + 1"] by (auto simp: single_start_def split: if_splits)
  qed (use Suc k assms(1, 3) in simp)
  have b: "rd_byte ?b i = Ok (if i < k then ?f ! i else 0)" if "i < 1024" for i
    using that k arrived_nth [OF k(1) that] by (simp add: rd_byte_def)
  have n: "256 * unat (?f ! 3) + unat (?f ! 2) = length ?f" by (rule response_nth(3) [OF assms(1)])
  have len: "2 \<le> length ?f" "length ?f < 160" using assms(1) by simp_all
  have e: "rd_at ?b (int (length ?f) - 2) = Ok (if length ?f - 2 < k then ?f ! (length ?f - 2) else 0)"
      "rd_at ?b (int (length ?f) - 1) = Ok 0"
    using rd_at_nat [of 2 0 "length ?f" ?b] rd_at_nat [of 1 0 "length ?f" ?b] b [of "length ?f - 2"] b [of "length ?f - 1"] len assms(3) by simp_all
  have "check_from ?b 0 (Suc m) = check_from ?b (Suc 0) m"
  proof (cases "4 < k")
    case True
    have r: "rd_byte ?b 0 = Ok (?f ! 0)" "rd_byte ?b (0 + 1) = Ok (?f ! 1)" "rd_byte ?b (0 + 2) = Ok (?f ! 2)" "rd_byte ?b (0 + 3) = Ok (?f ! 3)"
        "rd_byte ?b (0 + 4) = Ok (?f ! 4)"
      unfolding add_0 using b [of 0] b [of 1] b [of 2] b [of 3] b [of 4] True by simp_all
    have e': "rd_at ?b (int 0 + int (length ?f) - 2) = Ok (if length ?f - 2 < k then ?f ! (length ?f - 2) else 0)"
      "rd_at ?b (int 0 + int (length ?f) - 1) = Ok 0" using e by simp_all
    show ?thesis by (rule check_step_end [OF r n e']) simp
  next
    case False
    have d: "rd_byte ?b (0 + 4) = Ok 0" unfolding add_0 using b [of 4] False by simp
    have "rd_byte ?b i = Ok (?b ! i)" if "i < 1024" for i using that k by (simp add: rd_byte_def)
    from this [of 0] this [of "0 + 1"] this [of "0 + 2"] this [of "0 + 3"] show ?thesis by (rule check_step_device [OF _ _ _ _ d]) simp_all
  qed
  then show ?thesis using nx Suc by (simp add: CheckPackContent_def)
qed (simp add: CheckPackContent_def)

lemma arrived_more:
  assumes "n + length c \<le> length f" "length f \<le> 1024" "take (length c) (drop n f) = c"
  shows "wr_bytes (arrived f n) n c = Ok (arrived f (n + length c))"
proof -
  have "take (n + length c) f = take n f @ c" using assms(3) by (simp add: take_add)
  then show ?thesis using assms(1, 2) by (simp add: wr_bytes_def arrived_def min_absorb2)
qed

lemma packet_loop_pieces:
  assumes "length dat < 149" "single_start (response_packet sub dat x y)"
  defines "f \<equiv> response_packet sub dat x y"
  shows "list_all (\<lambda>p. p \<noteq> []) ps \<Longrightarrow> concat ps = drop n f \<Longrightarrow> n < length f \<Longrightarrow>
    packet_loop (arrived f n) n (map Some ps @ cs) = Ok (Some (0, length f), arrived f (length f), cs)"
proof (induction ps arbitrary: n)
  case (Cons p ps)
  have len: "length f < 160" using assms(1) by (simp add: f_def)
  have d: "drop n f = p @ concat ps" using Cons.prems(2) by simp
  have "drop (n + length p) f = drop (length p) (drop n f)" by (simp add: add.commute)
  then have p: "take (length p) (drop n f) = p" "drop (n + length p) f = concat ps" by (simp_all add: d)
  have le: "n + length p \<le> length f" using arg_cong [OF d, of length] Cons.prems(3) by simp
  have t: "take 1024 p = p" using le len by simp
  have w: "wr_bytes (arrived f n) n p = Ok (arrived f (n + length p))" using arrived_more [OF le _ p(1)] len by simp
  show ?case
  proof (cases "n + length p = length f")
    case True
    have "arrived f (length f) = f @ replicate (1024 - length f) 0" by (simp add: arrived_def)
    then have c: "CheckPackContent (arrived f (length f)) (length f) = Ok (Some (0, length f))" using check_whole [OF assms(1), of sub x y] by (simp add: f_def del: length_response)
    have "concat ps = []" using p(2) True by simp
    then have "ps = []" using Cons.prems(1) by (cases ps) auto
    then show ?thesis using w c t True by (simp add: Let_def)
  next
    case False
    then have lt: "n + length p < length f" using le by simp
    have c: "CheckPackContent (arrived f (n + length p)) (n + length p) = Ok None" using check_partial [OF assms(1, 2)] lt by (simp add: f_def)
    have "packet_loop (arrived f (n + length p)) (n + length p) (map Some ps @ cs) = Ok (Some (0, length f), arrived f (length f), cs)"
      using Cons.IH [OF _ p(2) [symmetric] lt] Cons.prems(1) by simp
    then show ?thesis using w c t by (simp add: Let_def)
  qed
qed simp

text \<open>The buffer is clear, and the response arrives in pieces: it is received.\<close>

lemma receive_pieces:
  assumes "length dat < 149" "single_start (response_packet sub dat x y)" "list_all (\<lambda>p. p \<noteq> []) ps" "concat ps = response_packet sub dat x y"
    and "selects s = w # ws" "0 < w" "chunks s = map Some ps @ cs"
  shows "\<exists>b. receive_packet (replicate 1024 0) 0 s =
     Ok (w, Some (response_packet sub dat x y @ replicate (1024 - (11 + length dat)) 0, Some 0), b, 11 + length dat, s\<lparr>selects := ws, chunks := cs\<rparr>)"
proof -
  let ?f = "response_packet sub dat x y"
  have "arrived ?f 0 = replicate 1024 0" by (simp add: arrived_def)
  then have "packet_loop (replicate 1024 0) 0 (map Some ps @ cs) = Ok (Some (0, length ?f), arrived ?f (length ?f), cs)"
    using packet_loop_pieces [OF assms(1-3), of 0 cs] assms(4) by (simp del: length_response) (simp add: response_packet_def)
  moreover have "11 + length dat \<le> 1024" using assms(1) by simp
  ultimately show ?thesis using assms(5-7) by (simp add: receive_packet_def ReadPacket_def Let_def arrived_def)
qed

text \<open>The response arrives in one piece: it is received whatever the buffer held before.\<close>

lemma receive_whole:
  assumes "length dat < 149" "length b = 1024" "selects s = w # ws" "0 < w" "chunks s = Some (response_packet sub dat x y) # cs"
  shows "\<exists>b'. length b' = 1024 \<and> receive_packet b vlen s =
     Ok (w, Some (response_packet sub dat x y @ replicate (1024 - (11 + length dat)) 0, Some 0), b', 11 + length dat, s\<lparr>selects := ws, chunks := cs\<rparr>)"
proof -
  let ?f = "response_packet sub dat x y"
  have len: "length ?f \<le> 1024" "take 1024 ?f = ?f" using assms(1) by simp_all
  let ?b = "?f @ drop (length ?f) b"
  have w: "wr_bytes b 0 ?f = Ok ?b" using len assms(2) by (simp add: wr_bytes_def del: length_response)
  have l: "length ?b = 1024" using len assms(2) by simp
  have "packet_loop b 0 (Some ?f # cs) = Ok (Some (0, length ?f), ?b, cs)"
    using w check_whole [OF assms(1), of sub x y "drop (length ?f) b"] len by (simp add: Let_def del: length_response)
  then have "receive_packet b vlen s = Ok (w, Some (?f @ replicate (1024 - (11 + length dat)) 0, Some 0), ?b, 11 + length dat, s\<lparr>selects := ws, chunks := cs\<rparr>)"
    using assms(1, 3-5) l by (simp add: receive_packet_def ReadPacket_def Let_def)
  with l show ?thesis by blast
qed

section \<open>Uploads\<close>

function pieces :: "byte list \<Rightarrow> byte list list" where
  "pieces t = (if t = [] then [] else take 128 t # pieces (drop 128 t))"
  by auto

termination
  by (relation "measure length") (simp_all add: diff_less)

declare pieces.simps [simp del]

lemma pieces_Nil [simp]: "pieces [] = []"
  by (simp add: pieces.simps)

lemma concat_pieces: "concat (pieces t) = t"
proof (induction t rule: pieces.induct)
  case (1 t)
  then show ?case by (cases "t = []") (simp_all add: pieces.simps [of t])
qed

lemma pieces_small: "p \<in> set (pieces t) \<Longrightarrow> length p \<le> 128"
proof (induction t rule: pieces.induct)
  case (1 t)
  then show ?case by (cases "t = []") (auto simp: pieces.simps [of t])
qed

lemma length_pieces: "length (pieces t) = (length t + 127) div 128"
proof (induction t rule: pieces.induct)
  case (1 t)
  show ?case
  proof (cases "length t \<le> 128")
    case True
    show ?thesis
    proof (cases "t = []")
      case False
      then have "(length t + 127) div 128 = 1" using True by (intro div_nat_eqI) (auto simp: Suc_le_eq)
      then show ?thesis using False True by (simp add: pieces.simps [of t])
    qed simp
  next
    case False
    then have e: "length t + 127 = length (drop 128 t) + 127 + 128" by simp
    have "(length t + 127) div 128 = Suc ((length (drop 128 t) + 127) div 128)" unfolding e by (simp only: div_add_self2)
    with 1 False show ?thesis by (auto simp: pieces.simps [of t])
  qed
qed

lemma packet_total_pieces: "packet_total (int (length t)) = int (length (pieces t))"
proof -
  have "(n + 127) div 128 = n div 128 + (if n mod 128 \<noteq> 0 then 1 else 0)" for n :: nat
  proof -
    define q r where "q = n div 128" and "r = n mod 128"
    have "n = 128 * q + r" "r < 128" by (simp_all add: q_def r_def)
    then show ?thesis unfolding q_def [symmetric] r_def [symmetric] by (intro div_nat_eqI) auto
  qed
  then have n: "(length t + 127) div 128 = length t div 128 + (if length t mod 128 \<noteq> 0 then 1 else 0)" .
  have i: "int (length t) div 128 = int (length t div 128)" "int (length t) mod 128 = int (length t mod 128)" by (simp_all add: zdiv_int zmod_int)
  show ?thesis unfolding packet_total_def length_pieces n i by (simp del: of_nat_mod of_nat_div)
qed

text \<open>Results of \<^verbatim>\<open>write\<close> that send a number of bytes in the end.\<close>

fun writes :: "write_ret list \<Rightarrow> nat \<Rightarrow> bool" where
  "writes [] n \<longleftrightarrow> n = 0"
| "writes (Wrote k # ws) n \<longleftrightarrow> 0 < k \<and> k \<le> n \<and> writes ws (n - k)"
| "writes (Interrupted # ws) n \<longleftrightarrow> 0 < n \<and> writes ws n"
| "writes (WriteError # ws) n \<longleftrightarrow> False"

lemma WriteData_loop_all: "writes ws (length p) \<Longrightarrow> WriteData_loop p (ws @ rest) = Ok (True, p, rest)"
proof (induction ws "length p" arbitrary: p rule: writes.induct)
  case 1
  then show ?case by simp
next
  case (2 k ws)
  then obtain b bs where p: "p = b # bs" by (cases p) auto
  have "WriteData_loop (drop k p) (ws @ rest) = Ok (True, drop k p, rest)" using "2.hyps" "2.prems" by simp
  then show ?case using "2.prems" p by simp
next
  case (3 ws)
  then show ?case by (cases p) auto
qed simp

fun no_start :: "byte list \<Rightarrow> bool" where
  "no_start (x # y # t) \<longleftrightarrow> \<not> (x = 0x26 \<and> y = 0x26) \<and> no_start (y # t)"
| "no_start t \<longleftrightarrow> True"

lemma no_start_nth: "no_start t \<Longrightarrow> i + 1 < length t \<Longrightarrow> \<not> (t ! i = 0x26 \<and> t ! (i + 1) = 0x26)"
proof (induction t arbitrary: i rule: no_start.induct)
  case (1 x y t)
  then show ?case by (cases i) auto
qed auto

lemma single_startI: "no_start t \<Longrightarrow> single_start (x # t)"
  unfolding single_start_def
proof (intro allI impI)
  fix i assume a: "no_start t" "i < length (x # t)" "0 < i" "i + 1 < length (x # t)"
  then obtain j where "i = Suc j" by (cases i) auto
  with a no_start_nth [of t j] show "\<not> ((x # t) ! i = 0x26 \<and> (x # t) ! (i + 1) = 0x26)" by simp
qed

text \<open>
  A turn of an upload that the device acknowledges: the results of \<^verbatim>\<open>write\<close> that send the packet (none for the photo, where they are not looked at), the
  one of \<^verbatim>\<open>select\<close>, and the pieces in which the response arrives, which names the user and has the flag 1.
\<close>

type_synonym turn = "write_ret list \<times> int \<times> byte list list"

definition acknowledges :: "byte list \<Rightarrow> byte list \<Rightarrow> bool" where
  "acknowledges stu f \<longleftrightarrow>
     (\<exists>sub dat x y. f = response_packet sub dat x y \<and> length dat < 149 \<and> 11 \<le> length dat \<and> take 8 dat = stu \<and> dat ! 10 = 1 \<and> single_start f)"

definition good_turn :: "bool \<Rightarrow> byte list \<Rightarrow> byte list \<Rightarrow> turn \<Rightarrow> bool" where
  "good_turn whole stu p tr =
     (case tr of (ws, w, ps) \<Rightarrow> (if whole then writes ws (length p) else ws = []) \<and> 0 < w \<and> list_all (\<lambda>q. q \<noteq> []) ps \<and> acknowledges stu (concat ps))"

fun upload_packets :: "byte \<Rightarrow> byte list \<Rightarrow> int \<Rightarrow> nat \<Rightarrow> byte list list \<Rightarrow> byte list list" where
  "upload_packets sub stu tot cur [] = []"
| "upload_packets sub stu tot cur (p # ps) = upload_packet sub stu tot cur p # upload_packets sub stu tot (Suc cur) ps"

text \<open>The line to the device on which the turns happen, and what is left of it when a text was sent.\<close>

definition turns_ahead :: "turn list \<Rightarrow> serial \<Rightarrow> serial \<Rightarrow> bool" where
  "turns_ahead ts s s' \<longleftrightarrow>
     write_rets s = concat (map fst ts) @ write_rets s' \<and> selects s = map (fst \<circ> snd) ts @ selects s' \<and>
     chunks s = map Some (concat (map (snd \<circ> snd) ts)) @ chunks s' \<and> stored s = stored s' \<and> can_open s = can_open s' \<and> line s = line s'"

lemma turns_ahead_Nil: "turns_ahead [] s s' \<Longrightarrow> s = s'"
  by (cases s, cases s') (simp add: turns_ahead_def)

lemma accepted_receive:
  assumes "acknowledges stu (concat ps)" "list_all (\<lambda>p. p \<noteq> []) ps" "selects s = w # ws" "0 < w" "chunks s = map Some ps @ cs"
  shows "\<exists>b n recvBuf. receive_packet (replicate 1024 0) 0 s = Ok (w, Some (recvBuf, Some 0), b, n, s\<lparr>selects := ws, chunks := cs\<rparr>)
           \<and> recvBuf ! 17 = 1 \<and> take 8 (drop 7 recvBuf) = stu"
proof -
  obtain sub dat x y where f: "concat ps = response_packet sub dat x y" "length dat < 149" "11 \<le> length dat" "take 8 dat = stu" "dat ! 10 = 1"
      "single_start (response_packet sub dat x y)"
    using assms(1) by (auto simp: acknowledges_def)
  let ?r = "response_packet sub dat x y @ replicate (1024 - (11 + length dat)) 0"
  have r: "drop 7 ?r = dat @ [x, y, 0x0d, 0x0a] @ replicate (1024 - (11 + length dat)) 0" by (simp add: response_packet_def Let_def)
  have "?r ! 17 = drop 7 ?r ! 10" by (subst nth_drop) simp_all
  also have "\<dots> = 1" unfolding r using f(3, 5) by (simp add: nth_append)
  finally have "?r ! 17 = 1" .
  moreover have "take 8 (drop 7 ?r) = stu" unfolding r using f(3, 4) by simp
  ultimately show ?thesis using receive_pieces [OF f(2, 6) assms(2) f(1) assms(3-5)] by blast
qed

lemma upload_step:
  assumes "int cur < tot" "cur + 1 < 256" "unat off + piece_len len off \<le> length buf"
    and "good_turn whole stu p tr" "p = upload_packet sub stu tot cur (take (piece_len len off) (drop (unat off) buf))" "turns_ahead (tr # ts) s s'"
  shows "\<exists>s1. upload_loop sub whole buf len tot cur off stu s = upload_loop sub whole buf len tot (cur + 1) (off + of_nat (piece_len len off)) stu s1
              \<and> turns_ahead ts s1 (s'\<lparr>line := line s' @ p\<rparr>)"
proof -
  obtain ws w ps where tr: "tr = (ws, w, ps)" by (cases tr)
  have g: "if whole then writes ws (length p) else ws = []" "0 < w" "list_all (\<lambda>q. q \<noteq> []) ps" "acknowledges stu (concat ps)"
    using assms(4) by (simp_all add: good_turn_def tr)
  have t: "write_rets s = ws @ concat (map fst ts) @ write_rets s'" "selects s = w # map (fst \<circ> snd) ts @ selects s'"
      "chunks s = map Some ps @ map Some (concat (map (snd \<circ> snd) ts)) @ chunks s'" "stored s = stored s'" "can_open s = can_open s'" "line s = line s'"
    using assms(6) by (simp_all add: turns_ahead_def tr)
  define s1 where "s1 = s\<lparr>write_rets := concat (map fst ts) @ write_rets s', line := line s @ p\<rparr>"
  have s1: "(if whole then bind_outcome (WriteData p s) (\<lambda>(ok, s1). Ok s1) else Ok (serial_write p s)) = Ok s1"
  proof (cases whole)
    case True
    then show ?thesis using g(1) t(1) WriteData_loop_all [of ws p] by (simp add: WriteData_def s1_def)
  next
    case False
    then show ?thesis using g(1) t(1) by (simp add: serial_write_def s1_def)
  qed
  have sel: "selects s1 = w # map (fst \<circ> snd) ts @ selects s'" "chunks s1 = map Some ps @ map Some (concat (map (snd \<circ> snd) ts)) @ chunks s'"
    using t by (simp_all add: s1_def)
  obtain b n recvBuf where r: "receive_packet (replicate 1024 0) 0 s1 = Ok (w, Some (recvBuf, Some 0), b, n,
        s1\<lparr>selects := map (fst \<circ> snd) ts @ selects s', chunks := map Some (concat (map (snd \<circ> snd) ts)) @ chunks s'\<rparr>)"
      "recvBuf ! 17 = 1" "take 8 (drop 7 recvBuf) = stu"
    using accepted_receive [OF g(4, 3) sel(1) g(2) sel(2)] by blast
  let ?s2 = "s1\<lparr>chunks := map Some (concat (map (snd \<circ> snd) ts)) @ chunks s', selects := map (fst \<circ> snd) ts @ selects s'\<rparr>"
  have "upload_loop sub whole buf len tot cur off stu s = upload_loop sub whole buf len tot (cur + 1) (off + of_nat (piece_len len off)) stu ?s2"
    by (subst upload_loop.simps) (use assms(1-3) t(2) r s1 in \<open>simp add: Let_def assms(5) [symmetric] not_less\<close>)
  moreover have "turns_ahead ts ?s2 (s'\<lparr>line := line s' @ p\<rparr>)" using t by (simp add: turns_ahead_def s1_def)
  ultimately show ?thesis by blast
qed

lemma piece_len_nat: "off \<le> n \<Longrightarrow> n < 2 ^ 32 \<Longrightarrow> piece_len (int n) (of_nat off) = (if n - off \<ge> 128 then 128 else n - off)"
proof -
  assume a: "off \<le> n" "n < 2 ^ 32"
  then have "(of_int (int n) :: 32 word) - of_nat off = of_nat (n - off)" by (simp add: of_nat_diff)
  moreover have "unat (of_nat (n - off) :: 32 word) = n - off" unfolding unat_of_nat using a by (intro mod_less) simp
  ultimately show ?thesis by (simp only: piece_len_def Let_def)
qed

lemma upload_loop_packets:
  assumes "length t \<le> length buf" "take (length t) buf = t" "length t < 2 ^ 32"
  shows "list_all2 (good_turn whole stu) (upload_packets sub stu tot cur (pieces (drop off t))) ts \<Longrightarrow> off \<le> length t \<Longrightarrow>
    int cur + int (length (pieces (drop off t))) = tot \<Longrightarrow> tot < 256 \<Longrightarrow> turns_ahead ts s s' \<Longrightarrow>
    upload_loop sub whole buf (int (length t)) tot cur (of_nat off) stu s
      = Ok (of_nat (length t), s'\<lparr>line := line s' @ concat (upload_packets sub stu tot cur (pieces (drop off t)))\<rparr>)"
proof (induction ts arbitrary: cur off s s')
  case Nil
  then have e: "pieces (drop off t) = []" by (cases "pieces (drop off t)") auto
  then have "drop off t = []" using concat_pieces [of "drop off t"] by simp
  then have "off = length t" using Nil.prems(2) by simp
  moreover have "s = s'" using Nil.prems(5) by (rule turns_ahead_Nil)
  ultimately show ?case using Nil.prems(3) by (simp add: upload_loop.simps)
next
  case (Cons tr ts)
  let ?u = "drop off t"
  have u: "?u \<noteq> []" using Cons.prems(1) by auto
  define n where "n = length (take 128 ?u)"
  have ps: "pieces ?u = take 128 ?u # pieces (drop (off + n) t)"
    using u by (subst pieces.simps) (auto simp: n_def min_def add.commute)
  have n: "piece_len (int (length t)) (of_nat off) = n" "off + n \<le> length t"
    using piece_len_nat [OF Cons.prems(2) assms(3)] Cons.prems(2) by (auto simp: n_def)
  have o: "unat (of_nat off :: 32 word) = off" using Cons.prems(2) assms(3) by (simp add: unat_of_nat)
  have "take n (drop off buf) = take n (drop off (take (length t) buf))" using n(2) by (simp add: drop_take min_def)
  then have tk: "take n (drop off buf) = take 128 ?u" using assms(2) by (simp add: n_def min_def)
  let ?p = "upload_packet sub stu tot cur (take 128 ?u)"
  have g: "good_turn whole stu ?p tr" "list_all2 (good_turn whole stu) (upload_packets sub stu tot (cur + 1) (pieces (drop (off + n) t))) ts"
    using Cons.prems(1) by (simp_all add: ps)
  have c: "int cur < tot" "cur + 1 < 256 \<or> cur + 1 = 256" "int (cur + 1) + int (length (pieces (drop (off + n) t))) = tot"
    using Cons.prems(3, 4) by (simp_all add: ps)
  have c': "cur + 1 < 256" using Cons.prems(4) c(3) by simp
  obtain s1 where s1: "upload_loop sub whole buf (int (length t)) tot cur (of_nat off) stu s
        = upload_loop sub whole buf (int (length t)) tot (cur + 1) (of_nat off + of_nat n) stu s1" "turns_ahead ts s1 (s'\<lparr>line := line s' @ ?p\<rparr>)"
    using upload_step [OF c(1) c' _ g(1) _ Cons.prems(5), of "of_nat off" "int (length t)" buf sub] n o tk assms(1) by (auto simp del: of_nat_Suc)
  show ?case unfolding s1(1) of_nat_add [symmetric]
    using Cons.IH [OF g(2) n(2) c(3) Cons.prems(4) s1(2)] by (simp add: ps)
qed

section \<open>The uploads\<close>

text \<open>All packets of a file that fits into the buffer are sent, in order; together they hold the file.\<close>

definition file_packets :: "byte \<Rightarrow> byte list \<Rightarrow> byte list list" where
  "file_packets sub t = upload_packets sub user_no (int (length (pieces t))) 0 (pieces t)"

lemma upload_whole:
  assumes "length t \<le> length buf" "length t \<le> 20480" "list_all2 (good_turn whole user_no) (file_packets sub t) ts" "turns_ahead ts s s'"
  shows "upload_loop sub whole (t @ drop (length t) buf) (int (length t)) (packet_total (int (length t))) 0 0 user_no s
     = Ok (of_nat (length t), s'\<lparr>line := line s' @ concat (file_packets sub t)\<rparr>)"
proof -
  have "(length t + 127) div 128 \<le> (20480 + 127) div 128" using assms(2) by (intro div_le_mono) simp
  then have l: "int (length (pieces t)) < 256" by (simp add: length_pieces)
  show ?thesis
    using upload_loop_packets [of t "t @ drop (length t) buf" whole user_no sub "int (length (pieces t))" 0 0 ts s s'] assms l
    by (simp add: packet_total_pieces file_packets_def)
qed

lemma ReadFeature_file: "length t \<le> length buf \<Longrightarrow> ReadFeature buf (Some t) = (int (length t), t @ drop (length t) buf)"
  by (simp add: ReadFeature_def)

lemma feature_sent:
  assumes "length (g_faceBuf g) = MAX_FACE_BUFFER_LEN" "stored s ''FeatureTest.dat'' = Some t" "length t \<le> MAX_FACE_BUFFER_LEN"
    and "list_all2 (good_turn True user_no) (file_packets HEJIA_SUB_CMD_SEND_FEATURE t) ts" "turns_ahead ts s s'"
  shows "cmd_send_feature g s = Ok (g\<lparr>g_faceBuf := t @ drop (length t) (g_faceBuf g), g_faceBufOffset := of_nat (length t)\<rparr>,
           s'\<lparr>line := line s' @ concat (file_packets HEJIA_SUB_CMD_SEND_FEATURE t)\<rparr>)"
  using upload_whole [OF _ _ assms(4, 5), of "g_faceBuf g"] assms(1-3) by (simp add: cmd_send_feature_def ReadFeature_file)

lemma photo_sent:
  assumes "length (g_RegPhotoBuf g) = MAX_PHOTO_BUFFER_LEN" "stored s ''RegPhoto.jpg'' = Some t" "length t \<le> MAX_PHOTO_BUFFER_LEN"
    and "list_all2 (good_turn False user_no) (file_packets HEJIA_SAVE_REG_GET_PIC t) ts" "turns_ahead ts s s'"
  shows "cmd_send_photo g s = Ok (g\<lparr>g_RegPhotoBuf := t @ drop (length t) (g_RegPhotoBuf g), g_faceBufOffset := of_nat (length t)\<rparr>,
           s'\<lparr>line := line s' @ concat (file_packets HEJIA_SAVE_REG_GET_PIC t)\<rparr>)"
  using upload_whole [OF _ _ assms(4, 5), of "g_RegPhotoBuf g"] assms(1-3) by (simp add: cmd_send_photo_def ReadFeature_file)

text \<open>The device gets the file back: it takes the data of the packets in the line, whose lengths are in them.\<close>

definition packet_data :: "byte list \<Rightarrow> byte list" where
  "packet_data p = take (length p - 21) (drop 17 p)"

lemma upload_packet_data: "length stu = 8 \<Longrightarrow> packet_data (upload_packet sub stu tot cur p) = p"
  by (simp add: packet_data_def upload_packet_def request_packet_def Let_def drop_Cons')

lemma upload_packets_data: "length stu = 8 \<Longrightarrow> map packet_data (upload_packets sub stu tot cur ps) = ps"
  by (induction ps arbitrary: cur) (simp_all add: upload_packet_data)

lemma file_packets_data: "concat (map packet_data (file_packets sub t)) = t"
  by (simp add: file_packets_def upload_packets_data concat_pieces user_no_def)

lemma request_length: "length (request_packet sub dat) = 11 + length dat"
  by (simp add: request_packet_def Let_def)

lemma request_length_field:
  assumes "length dat < 245"
  shows "256 * unat (request_packet sub dat ! 3) + unat (request_packet sub dat ! 2) = length (request_packet sub dat)"
proof -
  define n where "n = 11 + length dat"
  have p: "request_packet sub dat ! 2 = of_nat n" "request_packet sub dat ! 3 = of_nat (n div 256)" "n < 256" "length (request_packet sub dat) = n"
    using assms by (simp_all add: request_packet_def Let_def n_def)
  then have "unat (of_nat n :: byte) = n" "unat (of_nat (n div 256) :: byte) = 0" by (simp_all add: unat_of_nat)
  then show ?thesis using p by simp
qed

text \<open>The device finds the packets by their length fields.\<close>

function split_line :: "byte list \<Rightarrow> byte list list" where
  "split_line t =
     (if length t < 4 then []
      else let n = 256 * unat (t ! 3) + unat (t ! 2) in if n = 0 \<or> length t < n then [] else take n t # split_line (drop n t))"
  by auto

termination
  by (relation "measure length") auto

declare split_line.simps [simp del]

lemma split_line_packet:
  assumes "length dat < 245"
  shows "split_line (request_packet sub dat @ t) = request_packet sub dat # split_line t"
proof -
  let ?p = "request_packet sub dat"
  have n: "256 * unat ((?p @ t) ! 3) + unat ((?p @ t) ! 2) = length ?p" using request_length_field [OF assms] by (simp add: nth_append request_length)
  show ?thesis by (subst split_line.simps) (use n in \<open>simp add: Let_def request_length\<close>)
qed

lemma split_upload:
  "length stu = 8 \<Longrightarrow> (\<And>p. p \<in> set ps \<Longrightarrow> length p \<le> 128) \<Longrightarrow> split_line (concat (upload_packets sub stu tot cur ps)) = upload_packets sub stu tot cur ps"
proof (induction ps arbitrary: cur)
  case Nil
  show ?case by (simp add: split_line.simps)
next
  case (Cons p ps)
  have "length p \<le> 128" using Cons.prems(2) [of p] by simp
  then have "length (stu @ [of_int tot, of_nat cur] @ p) < 245" using Cons.prems(1) by simp
  from split_line_packet [OF this, of sub] show ?case using Cons by (simp add: upload_packet_def)
qed

lemma split_file: "split_line (concat (file_packets sub t)) = file_packets sub t"
  unfolding file_packets_def using pieces_small by (intro split_upload) (simp_all add: user_no_def)

lemma upload_packets_length [simp]: "length (upload_packets sub stu tot cur ps) = length ps"
  by (induction ps arbitrary: cur) simp_all

lemma file_packets_length: "length (file_packets sub t) = (length t + 127) div 128"
  by (simp add: file_packets_def length_pieces)

section \<open>The picture of a comparison\<close>

text \<open>
  A packet of the picture: the command and the number that the device puts into it, its checksum, and the data. Every packet says how many there are.
\<close>

type_synonym part = "byte \<times> byte \<times> byte \<times> byte \<times> byte list"

definition part_data :: "part \<Rightarrow> byte list" where
  "part_data = (\<lambda>(sub, c, x, y, p). p)"

definition part_packet :: "nat \<Rightarrow> part \<Rightarrow> byte list" where
  "part_packet m = (\<lambda>(sub, c, x, y, p). response_packet sub ([of_nat m, c] @ p) x y)"

text \<open>The packets arrive one by one, each in one piece.\<close>

definition parts_ahead :: "(part \<Rightarrow> byte list) \<Rightarrow> part list \<Rightarrow> serial \<Rightarrow> serial \<Rightarrow> bool" where
  "parts_ahead pk ps s s' \<longleftrightarrow>
     (\<exists>ws. selects s = ws @ selects s' \<and> length ws = length ps \<and> list_all (\<lambda>w. 0 < w) ws) \<and>
     chunks s = map (\<lambda>p. Some (pk p)) ps @ chunks s' \<and> write_rets s = write_rets s' \<and> stored s = stored s' \<and>
     can_open s = can_open s' \<and> line s = line s'"

lemma parts_ahead_Nil: "parts_ahead pk [] s s' \<Longrightarrow> s = s'"
  by (cases s, cases s') (simp add: parts_ahead_def)

lemma parts_ahead_step:
  assumes "parts_ahead pk (p # ps) s s'"
  shows "\<exists>w ws. selects s = w # ws \<and> 0 < w \<and> chunks s = Some (pk p) # tl (chunks s) \<and>
     parts_ahead pk ps (s\<lparr>line := line s @ t, chunks := tl (chunks s), selects := ws\<rparr>) (s'\<lparr>line := line s' @ t\<rparr>)"
proof -
  obtain vs where v: "selects s = vs @ selects s'" "length vs = Suc (length ps)" "list_all (\<lambda>w. 0 < w) vs" using assms by (auto simp: parts_ahead_def)
  then obtain w ws where "vs = w # ws" by (cases vs) auto
  with v assms show ?thesis by (intro exI [of _ w] exI [of _ "ws @ selects s'"]) (auto simp: parts_ahead_def)
qed

lemma wr_bytes_within: "off + length t \<le> length b \<Longrightarrow> wr_bytes b off t = Ok (take off b @ t @ drop (off + length t) b)"
  by (simp add: wr_bytes_def)

lemma picture_step:
  assumes "cur < tot" "length b = 1024" "length (part_data p) < 147" "off + length (part_data p) \<le> length pic" "m < 256" "parts_ahead (part_packet m) (p # ps) s s'"
  shows "\<exists>s1 b' n w. length b' = 1024 \<and> parts_ahead (part_packet m) ps s1 (s'\<lparr>line := line s' @ picture_request name cur\<rparr>) \<and>
     picture_loop name cur tot off pic b vlen ret s =
     picture_loop name (cur + 1) m (off + length (part_data p)) (take off pic @ part_data p @ drop (off + length (part_data p)) pic) b' n w s1"
proof -
  obtain sub c x y d where p: "p = (sub, c, x, y, d)" by (cases p)
  let ?dat = "[of_nat m, c] @ d"
  obtain w ws where st: "selects s = w # ws" "0 < w" "chunks s = Some (response_packet sub ?dat x y) # tl (chunks s)"
      "parts_ahead (part_packet m) ps (s\<lparr>line := line s @ picture_request name cur, chunks := tl (chunks s), selects := ws\<rparr>) (s'\<lparr>line := line s' @ picture_request name cur\<rparr>)"
    using parts_ahead_step [OF assms(6), of "picture_request name cur"] by (auto simp: p part_packet_def)
  have d: "length d < 147" "off + length d \<le> length pic" using assms(3, 4) by (simp_all add: p part_data_def)
  let ?s0 = "serial_write (picture_request name cur) s"
  have s0: "selects ?s0 = w # ws" "chunks ?s0 = Some (response_packet sub ?dat x y) # tl (chunks s)" using st(1, 3) by (simp_all add: serial_write_def)
  have "length ?dat < 149" using d(1) by simp
  from receive_whole [OF this assms(2) s0(1) st(2) s0(2), of vlen]
  obtain b' where b': "length b' = 1024" "receive_packet b vlen ?s0 =
     Ok (w, Some (response_packet sub ?dat x y @ replicate (1024 - (13 + length d)) 0, Some 0), b', 13 + length d, ?s0\<lparr>selects := ws, chunks := tl (chunks s)\<rparr>)"
    by auto
  let ?r = "response_packet sub ?dat x y @ replicate (1024 - (13 + length d)) 0"
  have r7: "drop 7 ?r = ?dat @ [x, y, 0x0d, 0x0a] @ replicate (1024 - (13 + length d)) 0" by (simp add: response_packet_def Let_def)
  have "?r ! 7 = drop 7 ?r ! 0" by (subst nth_drop) simp_all
  then have tot: "unat (?r ! 7) = m" unfolding r7 using assms(5) by (simp add: unat_of_nat)
  have "drop 9 ?r = drop 2 (drop 7 ?r)" by simp
  then have dt: "take (13 + length d - 13) (drop 9 ?r) = d" unfolding r7 by simp
  have wr: "wr_bytes pic off d = Ok (take off pic @ d @ drop (off + length d) pic)" using d(2) by (rule wr_bytes_within)
  let ?s1 = "s\<lparr>line := line s @ picture_request name cur, chunks := tl (chunks s), selects := ws\<rparr>"
  have "picture_loop name cur tot off pic b vlen ret s =
     picture_loop name (cur + 1) m (off + length d) (take off pic @ d @ drop (off + length d) pic) b' (13 + length d) w (?s0\<lparr>selects := ws, chunks := tl (chunks s), selects := ws\<rparr>)"
    by (subst picture_loop.simps) (use assms(1) st(1) b'(2) tot dt wr in \<open>simp add: Let_def del: append_Cons\<close>)
  moreover have "?s0\<lparr>selects := ws, chunks := tl (chunks s), selects := ws\<rparr> = ?s1" by (cases s) (simp add: serial_write_def)
  ultimately show ?thesis using b'(1) st(4) by (intro exI [of _ ?s1] exI [of _ b'] exI [of _ "13 + length d"] exI [of _ w]) (simp add: p part_data_def)
qed

abbreviation (input) parts_length :: "part list \<Rightarrow> nat" where
  "parts_length ps \<equiv> length (concat (map part_data ps))"

lemma picture_loop_parts:
  assumes "m < 256"
  shows "list_all (\<lambda>p. length (part_data p) < 147) ps \<Longrightarrow> cur + length ps = m \<Longrightarrow> (ps = [] \<longleftrightarrow> tot \<le> cur) \<Longrightarrow> length b = 1024 \<Longrightarrow>
    off + parts_length ps \<le> length pic \<Longrightarrow> parts_ahead (part_packet m) ps s s' \<Longrightarrow>
    \<exists>r. picture_loop name cur tot off pic b vlen ret s =
      Ok (r, off + parts_length ps, take off pic @ concat (map part_data ps) @ drop (off + parts_length ps) pic,
          s'\<lparr>line := line s' @ concat (map (picture_request name) [cur ..< m])\<rparr>)"
proof (induction ps arbitrary: cur tot off pic b vlen ret s s')
  case Nil
  then show ?case using parts_ahead_Nil by (simp add: picture_loop.simps)
next
  case (Cons p ps)
  have len: "length (part_data p) < 147" "off + length (part_data p) \<le> length pic" using Cons.prems(1, 5) by simp_all
  have "cur < tot" using Cons.prems(3) by simp
  from picture_step [OF this Cons.prems(4) len assms Cons.prems(6), of name vlen ret]
  obtain s1 b' n w where st: "length b' = 1024" "parts_ahead (part_packet m) ps s1 (s'\<lparr>line := line s' @ picture_request name cur\<rparr>)"
      "picture_loop name cur tot off pic b vlen ret s =
       picture_loop name (cur + 1) m (off + length (part_data p)) (take off pic @ part_data p @ drop (off + length (part_data p)) pic) b' n w s1"
    by blast
  let ?pic = "take off pic @ part_data p @ drop (off + length (part_data p)) pic"
  have pre: "list_all (\<lambda>p. length (part_data p) < 147) ps" "cur + 1 + length ps = m" "ps = [] \<longleftrightarrow> m \<le> cur + 1"
      "off + length (part_data p) + parts_length ps \<le> length ?pic"
    using Cons.prems(1, 2, 5) by auto
  have t: "take (off + length (part_data p)) ?pic = take off pic @ part_data p" using len(2) by simp
  have e: "drop (off + length (part_data p) + parts_length ps) ?pic = drop (off + parts_length (p # ps)) pic"
    using len(2) by (simp add: add.assoc add.commute add.left_commute)
  have u: "[cur ..< m] = cur # [cur + 1 ..< m]" using pre(2) by (simp add: upt_conv_Cons)
  from Cons.IH [OF pre(1-3) st(1) pre(4) st(2), where vlen = n and ret = w] show ?case
    unfolding st(3) t e by (simp add: add.assoc u)
qed

lemma picture_received:
  assumes "length garbage = 1024" "ps \<noteq> []" "length ps < 256" "list_all (\<lambda>p. length (part_data p) < 147) ps"
    and "parts_length ps \<le> length (g_facePicBuf g)" "parts_ahead (part_packet (length ps)) ps s s'" "can_open s ''PicTest.jpg''"
  shows "\<exists>ret. cmd_picture garbage g s =
     Ok (ret, g\<lparr>g_facePicBuf := concat (map part_data ps) @ drop (parts_length ps) (g_facePicBuf g), g_AuthFlag := 0\<rparr>,
         store_file ''PicTest.jpg'' (concat (map part_data ps)) (s'\<lparr>line := line s' @ concat (map (picture_request (g_facePicName g)) [0 ..< length ps])\<rparr>))"
proof -
  have tot: "ps = [] \<longleftrightarrow> (1 :: nat) \<le> 0" using assms(2) by simp
  have "can_open s' ''PicTest.jpg''" using assms(6, 7) by (simp add: parts_ahead_def)
  then show ?thesis
    using picture_loop_parts [OF assms(3, 4) add_0 tot assms(1) _ assms(6), of 0 "g_facePicBuf g" "g_facePicName g" 0 0] assms(5)
    by (auto simp: cmd_picture_def Let_def)
qed

section \<open>The data of a user\<close>

text \<open>When the loop is over the index is not below the number of packets, so that nothing is ever written to the file.\<close>

lemma receive_stored: "receive_packet b n s = Ok (w, r, b', n', s') \<Longrightarrow> stored s' = stored s"
  by (auto simp: receive_packet_def ReadPacket_def Let_def bind_outcome_Ok_iff split: list.splits if_splits option.splits prod.splits)

lemma user_loop_step:
  assumes "user_loop sub i tot off no buf b n r s = Ok res" "i < tot"
  shows "\<exists>i1 tot1 off1 no1 buf1 b1 n1 r1 s1. user_loop sub i1 tot1 off1 no1 buf1 b1 n1 r1 s1 = Ok res \<and> stored s1 = stored s \<and>
     length (selects s1) < length (selects s)"
proof -
  let ?s0 = "serial_write (request_packet sub (user_no @ [of_int i])) s"
  obtain w ws where w: "selects s = w # ws" using assms by (subst (asm) user_loop.simps) (auto split: list.splits)
  obtain w' rr b1 n1 s1 where r: "receive_packet b n ?s0 = Ok (w', rr, b1, n1, s1)"
    using assms w by (subst (asm) user_loop.simps) (auto simp: bind_outcome_Ok_iff)
  have st: "stored (s1\<lparr>selects := ws\<rparr>) = stored s" using receive_stored [OF r] by (simp add: serial_write_def)
  have ln: "length (selects (s1\<lparr>selects := ws\<rparr>)) < length (selects s)" by (simp add: w)
  have "\<exists>i1 tot1 off1 no1 buf1. user_loop sub i1 tot1 off1 no1 buf1 b1 n1 w' (s1\<lparr>selects := ws\<rparr>) = Ok res"
    using assms w r by (subst (asm) user_loop.simps) (auto simp: Let_def bind_outcome_Ok_iff split: option.splits if_splits prod.splits; blast)
  then show ?thesis using st ln by blast
qed

lemma user_loop_exit:
  "user_loop sub i tot off no buf b n r s = Ok (ret, i', tot', off', no', buf', s') \<Longrightarrow> \<not> i' < tot' \<and> stored s' = stored s"
proof (induction "length (selects s)" arbitrary: i tot off no buf b n r s rule: less_induct)
  case less
  show ?case
  proof (cases "i < tot")
    case False
    then show ?thesis using less.prems by (subst (asm) user_loop.simps) simp
  next
    case True
    from user_loop_step [OF less.prems this] less.hyps show ?thesis by metis
  qed
qed

lemma user_data_kept:
  "cmd_user_feature garbage g s = Ok (ret, g', s') \<Longrightarrow> stored s' = stored s"
  "cmd_user_photo garbage g s = Ok (ret, g', s') \<Longrightarrow> stored s' = stored s"
  by (auto simp: cmd_user_feature_def cmd_user_photo_def save_user_file_def bind_outcome_Ok_iff Let_def split: if_splits dest!: user_loop_exit)

text \<open>
  A device that sends the data of the user in two or more packets: every packet is copied to the start of the buffer, over the one before it, and no
  file is written.
\<close>

definition user_part :: "byte list \<Rightarrow> nat \<Rightarrow> part \<Rightarrow> byte list" where
  "user_part no m = (\<lambda>(sub, c, x, y, p). response_packet sub (no @ [of_nat m, c] @ p) x y)"

abbreviation (input) user_request :: "byte \<Rightarrow> nat \<Rightarrow> byte list" where
  "user_request sub cur \<equiv> request_packet sub (user_no @ [of_nat cur])"

lemma user_step:
  assumes "int cur < tot" "cur < 127" "length b = 1024" "length (part_data p) < 139" "length (part_data p) \<le> length buf" "2 \<le> m" "m < 256" "length no = 8"
    and "parts_ahead (user_part no m) (p # ps) s s'"
  shows "\<exists>s1 b' n w off1. length b' = 1024 \<and> parts_ahead (user_part no m) ps s1 (s'\<lparr>line := line s' @ user_request sub cur\<rparr>) \<and>
     user_loop sub (int cur) tot off no0 buf b vlen ret s =
     user_loop sub (int (cur + 1)) (int m) off1 no (part_data p @ drop (length (part_data p)) buf) b' n w s1"
proof -
  obtain rsub c x y d where p: "p = (rsub, c, x, y, d)" by (cases p)
  let ?dat = "no @ [of_nat m, c] @ d"
  obtain w ws where st: "selects s = w # ws" "0 < w" "chunks s = Some (response_packet rsub ?dat x y) # tl (chunks s)"
      "parts_ahead (user_part no m) ps (s\<lparr>line := line s @ user_request sub cur, chunks := tl (chunks s), selects := ws\<rparr>) (s'\<lparr>line := line s' @ user_request sub cur\<rparr>)"
    using parts_ahead_step [OF assms(9), of "user_request sub cur"] by (auto simp: p user_part_def)
  have d: "length d < 139" "length d \<le> length buf" using assms(4, 5) by (simp_all add: p part_data_def)
  let ?s0 = "serial_write (user_request sub cur) s"
  have s0: "selects ?s0 = w # ws" "chunks ?s0 = Some (response_packet rsub ?dat x y) # tl (chunks s)" using st(1, 3) by (simp_all add: serial_write_def)
  have "length ?dat < 149" using d(1) assms(8) by simp
  from receive_whole [OF this assms(3) s0(1) st(2) s0(2), of vlen] assms(8)
  obtain b' where b': "length b' = 1024" "receive_packet b vlen ?s0 =
     Ok (w, Some (response_packet rsub ?dat x y @ replicate (1024 - (21 + length d)) 0, Some 0), b', 21 + length d, ?s0\<lparr>selects := ws, chunks := tl (chunks s)\<rparr>)"
    by auto
  define r where "r = response_packet rsub ?dat x y @ replicate (1024 - (21 + length d)) 0"
  have r7: "drop 7 r = ?dat @ [x, y, 0x0d, 0x0a] @ replicate (1024 - (21 + length d)) 0" by (simp add: r_def response_packet_def Let_def)
  have "r ! 15 = drop 7 r ! 8" by (subst nth_drop) (simp_all add: r_def)
  then have r15: "r ! 15 = of_nat m" unfolding r7 using assms(8) by (simp add: nth_append)
  have tot: "unat (of_nat m :: byte) = m" using assms(7) by (simp add: unat_of_nat)
  then have ne: "(of_nat m :: byte) \<noteq> 0" "(of_nat m :: byte) \<noteq> 1" using assms(6) by force+
  have no: "take 8 (drop 7 r) = no" unfolding r7 using assms(8) by simp
  have "drop 17 r = drop 10 (drop 7 r)" by simp
  then have dt: "take (21 + length d - 21) (drop 17 r) = d" unfolding r7 using assms(8) by simp
  have wr: "wr_bytes buf 0 d = Ok (d @ drop (length d) buf)" using wr_bytes_within [of 0 d buf] d(2) by simp
  let ?s1 = "s\<lparr>line := line s @ user_request sub cur, chunks := tl (chunks s), selects := ws\<rparr>"
  have s1: "?s0\<lparr>selects := ws, chunks := tl (chunks s), selects := ws\<rparr> = ?s1" by (cases s) (simp add: serial_write_def)
  have ch: "to_char (int cur + 1) = int (cur + 1)" using assms(2) by simp
  have rc: "receive_packet b vlen (serial_write (request_packet sub (user_no @ [word_of_int (int cur)])) s)
      = Ok (w, Some (r, Some 0), b', 21 + length d, ?s0\<lparr>selects := ws, chunks := tl (chunks s)\<rparr>)"
    using b'(2) by (simp add: r_def)
  have "user_loop sub (int cur) tot off no0 buf b vlen ret s =
     user_loop sub (int (cur + 1)) (int m) (int (0 + (21 + length d - 21))) no (d @ drop (length d) buf) b' (21 + length d) w ?s1"
    unfolding s1 [symmetric] ch [symmetric]
    by (subst user_loop.simps) (simp only: rc assms(1) st(1) not_not simp_thms if_False if_True list.case bind_outcome.simps prod.case option.case Let_def
          r15 ne no dt wr tot not_less, simp)
  then show ?thesis using b'(1) st(4) by (fastforce simp: p part_data_def)
qed

definition overlay :: "byte list list \<Rightarrow> byte list \<Rightarrow> byte list" where
  "overlay ds buf = fold (\<lambda>d b. d @ drop (length d) b) ds buf"

lemma user_loop_parts:
  assumes "2 \<le> m" "m < 128" "length no = 8"
  shows "list_all (\<lambda>p. length (part_data p) < 139) ps \<Longrightarrow> cur + length ps = m \<Longrightarrow> (ps = [] \<longleftrightarrow> tot \<le> int cur) \<Longrightarrow> length b = 1024 \<Longrightarrow> 139 \<le> length buf \<Longrightarrow>
    parts_ahead (user_part no m) ps s s' \<Longrightarrow>
    \<exists>r off' no'. user_loop sub (int cur) tot off no0 buf b vlen ret s =
      Ok (r, int m, if ps = [] then tot else int m, off', no', overlay (map part_data ps) buf,
          s'\<lparr>line := line s' @ concat (map (user_request sub) [cur ..< m])\<rparr>)"
proof (induction ps arbitrary: cur tot off no0 buf b vlen ret s s')
  case Nil
  then show ?case using parts_ahead_Nil by (auto simp: user_loop.simps overlay_def)
next
  case (Cons p ps)
  have len: "length (part_data p) < 139" "length (part_data p) \<le> length buf" "m < 256" using Cons.prems(1, 5) assms(2) by simp_all
  have c: "int cur < tot" "cur < 127" using Cons.prems(2, 3) assms(2) by simp_all
  from user_step [OF c Cons.prems(4) len(1, 2) assms(1) len(3) assms(3) Cons.prems(6), of sub off no0 vlen ret]
  obtain s1 b' n w off1 where st: "length b' = 1024" "parts_ahead (user_part no m) ps s1 (s'\<lparr>line := line s' @ user_request sub cur\<rparr>)"
      "user_loop sub (int cur) tot off no0 buf b vlen ret s =
       user_loop sub (int (cur + 1)) (int m) off1 no (part_data p @ drop (length (part_data p)) buf) b' n w s1"
    by blast
  have pre: "list_all (\<lambda>p. length (part_data p) < 139) ps" "cur + 1 + length ps = m" "ps = [] \<longleftrightarrow> int m \<le> int (cur + 1)"
      "139 \<le> length (part_data p @ drop (length (part_data p)) buf)"
    using Cons.prems(1, 2, 5) len(2) by auto
  have u: "[cur ..< m] = cur # [cur + 1 ..< m]" using pre(2) by (simp add: upt_conv_Cons)
  from Cons.IH [OF pre(1-3) st(1) pre(4) st(2), where vlen = n and ret = w and off = off1 and ?no0.0 = no] show ?case
    unfolding st(3) by (cases "ps = []") (simp_all add: u overlay_def)
qed

lemma user_feature_overwritten:
  assumes "length garbage = 1024" "2 \<le> length ps" "length ps < 128" "length no = 8" "list_all (\<lambda>p. length (part_data p) < 139) ps"
    and "length (g_faceBuf g) = MAX_FACE_BUFFER_LEN" "parts_ahead (user_part no (length ps)) ps s s'"
  shows "\<exists>ret. cmd_user_feature garbage g s =
     Ok (ret, g\<lparr>g_faceBuf := overlay (map part_data ps) (g_faceBuf g), g_AuthFlag := 0\<rparr>,
         s'\<lparr>line := line s' @ concat (map (user_request SUB_GET_USER_FEATURE) [0 ..< length ps])\<rparr>)"
proof -
  have tot: "ps = [] \<longleftrightarrow> (1 :: int) \<le> int 0" and ne: "ps \<noteq> []" using assms(2) by auto
  have b: "139 \<le> length (g_faceBuf g)" using assms(6) by simp
  show ?thesis
    using user_loop_parts [OF assms(2-5) add_0 tot assms(1) b assms(7), of SUB_GET_USER_FEATURE 0 "[]" 0 0] ne
    by (auto simp: cmd_user_feature_def save_user_file_def)
qed

section \<open>Limits\<close>

text \<open>A length field of 0 makes the check read bytes before the buffer.\<close>

lemma zero_length_faults: "CheckPackContent ([0x26, 0x26, 0, 0, 0x0b] @ t) (Suc n) = Fault"
  by (simp add: CheckPackContent_def rd_byte_def rd_at_def Let_def)

text \<open>A wrong checksum of a response is not noticed: the response is found with any checksum.\<close>

lemma checksum_ignored:
  "length dat < 149 \<Longrightarrow> CheckPackContent (response_packet sub dat x y) (11 + length dat) = CheckPackContent (response_packet sub dat x' y') (11 + length dat)"
  using check_whole [of dat sub x y "[]"] check_whole [of dat sub x' y' "[]"] by simp

text \<open>Without the file one packet with 128 bytes of the buffer is sent.\<close>

lemma missing_file_sent:
  assumes "stored s ''FeatureTest.dat'' = None" "length (g_faceBuf g) = MAX_FACE_BUFFER_LEN" "selects s = 0 # ws"
    and p: "p = upload_packet HEJIA_SUB_CMD_SEND_FEATURE user_no 1 0 (take 128 (g_faceBuf g))" and "write_rets s = Wrote (length p) # wr"
  shows "cmd_send_feature g s = Ok (g\<lparr>g_faceBufOffset := 128\<rparr>, s\<lparr>line := line s @ p, write_rets := wr, selects := ws\<rparr>)"
proof -
  obtain c cs where c: "p = c # cs" by (cases p) (simp_all add: p upload_packet_def request_packet_def Let_def)
  have "WriteData_loop p (Wrote (length p) # wr) = Ok (True, p, wr)" by (simp add: c)
  then have w: "WriteData p s = Ok (True, s\<lparr>write_rets := wr, line := line s @ p\<rparr>)" using assms(5) by (simp add: WriteData_def)
  have n: "piece_len (- 1) 0 = 128" by (simp add: piece_len_def Let_def unsigned_minus_1_eq_mask mask_eq_exp_minus_1)
  have "upload_loop HEJIA_SUB_CMD_SEND_FEATURE True (g_faceBuf g) (- 1) 1 0 0 user_no s = Ok (128, s\<lparr>line := line s @ p, write_rets := wr, selects := ws\<rparr>)"
    by (subst upload_loop.simps) (use assms(2, 3) w in \<open>simp add: n Let_def p [symmetric] receive_packet_def\<close>)
  then show ?thesis using assms(1) by (simp add: cmd_send_feature_def ReadFeature_def packet_total_def)
qed

section \<open>Properties\<close>

text \<open>
  C14: the upload of a feature file that fits into its buffer, with a device that acknowledges every packet: it sends the packets of the file in order, in
  as many writes as it takes and whatever the pieces in which the responses arrive; a device that splits the line by the length fields of the packets
  finds the content of the file in them.
\<close>

theorem feature_uploaded:
  assumes "length (g_faceBuf g) = MAX_FACE_BUFFER_LEN" "stored s ''FeatureTest.dat'' = Some t" "length t \<le> MAX_FACE_BUFFER_LEN"
    and "list_all2 (good_turn True user_no) (file_packets HEJIA_SUB_CMD_SEND_FEATURE t) ts" "turns_ahead ts s s'"
  shows "\<exists>sent. dealCmd garbage 51 g s =
           Ok (0, g\<lparr>g_faceBuf := t @ drop (length t) (g_faceBuf g), g_faceBufOffset := of_nat (length t)\<rparr>, s'\<lparr>line := line s' @ sent\<rparr>)
         \<and> concat (map packet_data (split_line sent)) = t \<and> length (split_line sent) = (length t + 127) div 128"
proof -
  let ?p = "concat (file_packets HEJIA_SUB_CMD_SEND_FEATURE t)"
  have "dealCmd garbage 51 g s =
      Ok (0, g\<lparr>g_faceBuf := t @ drop (length t) (g_faceBuf g), g_faceBufOffset := of_nat (length t)\<rparr>, s'\<lparr>line := line s' @ ?p\<rparr>)"
    using feature_sent [OF assms] by (simp add: dealCmd_def Let_def)
  then show ?thesis by (intro exI [of _ ?p]) (simp add: split_file file_packets_data file_packets_length)
qed

definition demo_ack :: "byte list" where
  "demo_ack = response_packet HEJIA_SUB_CMD_SEND_FEATURE (user_no @ [2, 0, 1]) 0 0"

definition demo_line :: serial where
  "demo_line = \<lparr>selects = [], chunks = [], write_rets = [], line = [], stored = (\<lambda>f. if f = ''FeatureTest.dat'' then Some (replicate 130 7) else None), can_open = (\<lambda>f. True)\<rparr>"

definition demo_globals :: face_globals where
  "demo_globals = \<lparr>g_faceBuf = replicate 11264 0, g_RegPhotoBuf = replicate 20480 0, g_faceBufOffset = 0, g_facePicName = replicate 128 0,
     g_facePicBuf = replicate 6144 0, g_AuthFlag = 0\<rparr>"

definition demo_turns :: "turn list" where
  "demo_turns = [([Interrupted, Wrote 100, Wrote 49], 1, [take 5 demo_ack, drop 5 demo_ack]), ([Wrote 23], 1, [demo_ack])]"

lemma demo_ack_good: "acknowledges user_no demo_ack"
proof -
  have a: "demo_ack = [0x26, 0x26, 22, 0, 11, 64, 3, 49, 48, 48, 48, 48, 48, 48, 48, 2, 0, 1, 0, 0, 13, 10]"
    by (simp add: demo_ack_def response_packet_def user_no_def)
  have "single_start demo_ack" unfolding a by (rule single_startI) simp
  then show ?thesis unfolding acknowledges_def demo_ack_def
    by (intro exI [of _ HEJIA_SUB_CMD_SEND_FEATURE] exI [of _ "user_no @ [2, 0, 1]"] exI [of _ 0]) (simp add: user_no_def)
qed

lemma demo_packets:
  "file_packets HEJIA_SUB_CMD_SEND_FEATURE (replicate 130 7) = [upload_packet HEJIA_SUB_CMD_SEND_FEATURE user_no 2 0 (replicate 128 7), upload_packet HEJIA_SUB_CMD_SEND_FEATURE user_no 2 1 (replicate 2 7)]"
  by (simp add: file_packets_def pieces.simps [of "replicate n x" for n x])

theorem feature_uploaded_witness:
  "\<exists>sent. dealCmd [] 51 demo_globals (demo_line\<lparr>selects := [1, 1], write_rets := [Interrupted, Wrote 100, Wrote 49, Wrote 23], chunks := [Some (take 5 demo_ack), Some (drop 5 demo_ack), Some demo_ack]\<rparr>) =
           Ok (0, demo_globals\<lparr>g_faceBuf := replicate 130 7 @ replicate 11134 0, g_faceBufOffset := 130\<rparr>, demo_line\<lparr>line := sent\<rparr>)
         \<and> concat (map packet_data (split_line sent)) = replicate 130 7 \<and> length (split_line sent) = 2"
proof -
  have l: "length (upload_packet sub user_no tot cur (replicate n 7)) = n + 21" for sub tot cur n
    by (simp add: upload_packet_def request_length user_no_def)
  have a: "length (g_faceBuf demo_globals) = MAX_FACE_BUFFER_LEN" "stored demo_line ''FeatureTest.dat'' = Some (replicate 130 7)"
      "length (replicate 130 (7 :: byte)) \<le> MAX_FACE_BUFFER_LEN"
    by (simp_all add: demo_globals_def demo_line_def)
  have n: "take 5 demo_ack \<noteq> []" "drop 5 demo_ack \<noteq> []" "demo_ack \<noteq> []" by (simp_all add: demo_ack_def response_packet_def user_no_def)
  have t: "list_all2 (good_turn True user_no) (file_packets HEJIA_SUB_CMD_SEND_FEATURE (replicate 130 7)) demo_turns"
    unfolding demo_packets using demo_ack_good n by (simp add: demo_turns_def good_turn_def l)
  have s: "turns_ahead demo_turns (demo_line\<lparr>selects := [1, 1], write_rets := [Interrupted, Wrote 100, Wrote 49, Wrote 23], chunks := [Some (take 5 demo_ack), Some (drop 5 demo_ack), Some demo_ack]\<rparr>) demo_line"
    by (simp add: turns_ahead_def demo_turns_def demo_line_def)
  from feature_uploaded [OF a(1) _ a(3) t s, of "[]"] a(2) show ?thesis
    by (simp add: demo_line_def demo_globals_def)
qed

text \<open>
  C21: reading the picture of a comparison, with a device that answers every request with a packet in one piece, each of which says how many there
  are: the program asks for the packets 0, 1 and so on in turn, and \<^verbatim>\<open>PicTest.jpg\<close> then starts with the data of the packets in order; what
  an older, longer file had behind them stays. Here at most 6144 bytes are sent; nothing in the program checks that.
\<close>

theorem picture_stored:
  assumes "length garbage = 1024" "ps \<noteq> []" "length ps < 256" "list_all (\<lambda>p. length (part_data p) < 147) ps"
    and "length (concat (map part_data ps)) \<le> length (g_facePicBuf g)" "parts_ahead (part_packet (length ps)) ps s s'" "can_open s ''PicTest.jpg''"
  shows "\<exists>ret g' s1. dealCmd garbage 54 g s = Ok (ret, g', s1) \<and> g_AuthFlag g' = 0
     \<and> line s1 = line s @ concat (map (picture_request (g_facePicName g)) [0 ..< length ps])
     \<and> stored s1 ''PicTest.jpg'' = Some (concat (map part_data ps) @
         (case stored s ''PicTest.jpg'' of None \<Rightarrow> [] | Some old \<Rightarrow> drop (length (concat (map part_data ps))) old))
     \<and> (\<forall>f. f \<noteq> ''PicTest.jpg'' \<longrightarrow> stored s1 f = stored s f)"
proof -
  have s: "line s' = line s" "stored s' = stored s" using assms(6) by (simp_all add: parts_ahead_def)
  from picture_received [OF assms] show ?thesis by (auto simp: dealCmd_def store_file_def s split: option.split)
qed

definition demo_picture :: "part list" where
  "demo_picture = [(6, 0, 0, 0, [1, 2, 3]), (6, 1, 0, 0, [4, 5])]"

abbreviation (input) demo_picture_line :: serial where
  "demo_picture_line \<equiv> demo_line\<lparr>selects := [1, 1], chunks := map (\<lambda>p. Some (part_packet 2 p)) demo_picture, stored := (\<lambda>f. None)\<rparr>"

theorem picture_stored_witness:
  "\<exists>ret g' s1. dealCmd (replicate 1024 0) 54 demo_globals demo_picture_line = Ok (ret, g', s1) \<and> stored s1 ''PicTest.jpg'' = Some [1, 2, 3, 4, 5]"
proof -
  let ?s' = "demo_line\<lparr>stored := (\<lambda>f. None)\<rparr>"
  have d: "demo_picture \<noteq> []" "length demo_picture = 2" "list_all (\<lambda>p. length (part_data p) < 147) demo_picture"
      "concat (map part_data demo_picture) = [1, 2, 3, 4, 5]"
    by (simp_all add: demo_picture_def part_data_def)
  have l: "length (concat (map part_data demo_picture)) \<le> length (g_facePicBuf demo_globals)" unfolding d(4) by (simp add: demo_globals_def)
  have p: "parts_ahead (part_packet (length demo_picture)) demo_picture demo_picture_line ?s'"
    unfolding d(2) parts_ahead_def by (rule conjI, rule exI [of _ "[1, 1]"]) (simp_all add: demo_line_def d(2))
  have o: "can_open demo_picture_line ''PicTest.jpg''" by (simp add: demo_line_def)
  from picture_stored [OF _ d(1) _ d(3) l p o, of "replicate 1024 0"] d(2) show ?thesis unfolding d(4) by auto
qed

text \<open>
  C37: reading the feature of a user from a device that answers every request, with two or more packets in all: the program asks for all of them, but
  the buffer ends up with the packets on top of each other instead of behind each other, and no file is written, as the loop only ends when the index
  has reached the number of packets and the file is only written when it is one less.
\<close>

theorem user_feature_lost:
  assumes "length garbage = 1024" "2 \<le> length ps" "length ps < 128" "length no = 8" "list_all (\<lambda>p. length (part_data p) < 139) ps"
    and "length (g_faceBuf g) = MAX_FACE_BUFFER_LEN" "parts_ahead (user_part no (length ps)) ps s s'"
  shows "\<exists>ret g' s1. dealCmd garbage 97 g s = Ok (ret, g', s1) \<and> stored s1 = stored s \<and> g_faceBuf g' = overlay (map part_data ps) (g_faceBuf g)
     \<and> line s1 = line s @ concat (map (\<lambda>i. request_packet SUB_GET_USER_FEATURE (user_no @ [of_nat i])) [0 ..< length ps])"
proof -
  have s: "line s' = line s" "stored s' = stored s" using assms(7) by (simp_all add: parts_ahead_def)
  from user_feature_overwritten [OF assms] show ?thesis by (auto simp: dealCmd_def s)
qed

theorem user_feature_lost_witness:
  "\<exists>ret g' s1. dealCmd (replicate 1024 0) 97 demo_globals
       (demo_line\<lparr>selects := [1, 1], chunks := map (\<lambda>p. Some (user_part user_no 2 p)) demo_picture\<rparr>) = Ok (ret, g', s1)
     \<and> stored s1 = stored demo_line \<and> take 5 (g_faceBuf g') = [4, 5, 3, 0, 0]"
proof -
  let ?s = "demo_line\<lparr>selects := [1, 1], chunks := map (\<lambda>p. Some (user_part user_no 2 p)) demo_picture\<rparr>"
  have d: "length demo_picture = 2" "list_all (\<lambda>p. length (part_data p) < 139) demo_picture" "map part_data demo_picture = [[1, 2, 3], [4, 5]]"
    by (simp_all add: demo_picture_def part_data_def)
  have g: "length (g_faceBuf demo_globals) = MAX_FACE_BUFFER_LEN" by (simp add: demo_globals_def)
  have p: "parts_ahead (user_part user_no (length demo_picture)) demo_picture ?s demo_line"
    unfolding d(1) parts_ahead_def by (rule conjI, rule exI [of _ "[1, 1]"]) (simp_all add: demo_line_def d(1))
  have o: "take 5 (overlay [[1, 2, 3], [4, 5]] (g_faceBuf demo_globals)) = [4, 5, 3, 0, 0]"
    by (simp add: overlay_def demo_globals_def drop_Cons' take_Cons' numeral_2_eq_2)
  have st: "stored ?s = stored demo_line" by simp
  from user_feature_lost [OF _ _ _ _ d(2) g p, of "replicate 1024 0"] d(1) o st show ?thesis unfolding d(3) by (auto simp: user_no_def)
qed

end
