(* ===== verification/Dns_Rfc.thy ===== *)
theory Dns_Rfc
  imports Dns_Client Http_Client
begin

text \<open>
  The stand-alone DNS client (\<^verbatim>\<open>src/base/test_rfc_dns.c\<close>, \<^verbatim>\<open>test_rfc_dns.h\<close>). Reading names and parsing the answers is the code of
  \<^verbatim>\<open>Dns_Packet\<close> again and shares its definitions; the client as a structure, sending, waiting, the three tries and the text of the result are its
  own. The result of every system call comes from a script in \<open>dns_sys\<close>; \<open>NoFuel\<close> says that one of them is used up.
\<close>

unbundle bit_operations_syntax

section \<open>The client and the system\<close>

abbreviation (input) DEFAULT_PORT :: "16 word" where "DEFAULT_PORT \<equiv> 53"
abbreviation (input) DEFAULT_TIMEOUT :: int where "DEFAULT_TIMEOUT \<equiv> 3000"
abbreviation (input) DNS_TRY_TIMES :: nat where "DNS_TRY_TIMES \<equiv> 3"
abbreviation (input) RESPONSE_BUFFER_SIZE :: nat where "RESPONSE_BUFFER_SIZE \<equiv> 2048"
abbreviation (input) MAX_IP_STRING_SIZE :: nat where "MAX_IP_STRING_SIZE \<equiv> 15"

text \<open>
  \<^verbatim>\<open>struct dns_client\<close>. The address of the server is there once it has been set. The response buffer has no content before something was
  received, and cells of the request that are not written have none.
\<close>

record rfc_client =
  dc_sockfd :: int
  dc_timeout :: int
  dc_port :: "16 word"
  dc_send_buff :: "byte option list option"
  dc_send_len :: nat
  dc_recv_buff :: "byte list option"
  dc_recv_len :: nat
  dc_server_ip :: "int list"
  dc_domain :: "byte list"
  dc_q_type :: "16 word"
  dc_request_id :: nat
  dc_serv_addr :: "(32 word \<times> 16 word) option"
  dc_resolve_ip :: "byte list"

definition rfc_zero_client :: rfc_client where
  "rfc_zero_client = \<lparr>dc_sockfd = 0, dc_timeout = 0, dc_port = 0, dc_send_buff = None, dc_send_len = 0, dc_recv_buff = None, dc_recv_len = 0,
     dc_server_ip = [], dc_domain = [], dc_q_type = 0, dc_request_id = 0, dc_serv_addr = None, dc_resolve_ip = []\<rparr>"

text \<open>
  The system: the results of \<^verbatim>\<open>socket\<close>, \<^verbatim>\<open>malloc\<close> for the two buffers, \<^verbatim>\<open>rand\<close>, \<^verbatim>\<open>sendto\<close>, \<^verbatim>\<open>select\<close> (its value, whether the socket is in
  the set of exceptions and in the one of readable sockets, and the seconds that are left in the timeout) and \<^verbatim>\<open>recvfrom\<close>; for every response that is
  parsed what is on the stack and whether there is memory for the answers; the nesting of pointers that fits on the stack. Then
  what was sent, and the sockets that were closed.
\<close>

record dns_sys =
  x_sock :: int
  x_mems :: "bool list"
  x_rand :: nat
  x_sends :: "int list"
  x_selects :: "(int \<times> bool \<times> bool \<times> int) list"
  x_recvs :: "byte list option list"
  x_parses :: "(byte list \<times> bool) list"
  x_nesting :: nat
  x_sent :: "((32 word \<times> 16 word) option \<times> byte option list option) list"
  x_closed :: "int list"

definition take_mem :: "dns_sys \<Rightarrow> (bool \<times> dns_sys) outcome" where
  "take_mem sys = (case x_mems sys of [] \<Rightarrow> NoFuel | m # ms \<Rightarrow> Ok (m, sys\<lparr>x_mems := ms\<rparr>))"

section \<open>Opening and closing\<close>

definition default_client :: rfc_client where
  "default_client = rfc_zero_client\<lparr>dc_sockfd := -1, dc_timeout := DEFAULT_TIMEOUT, dc_port := DEFAULT_PORT, dc_q_type := DNS_A_RECORD\<rparr>"

definition server_address :: "int list \<Rightarrow> rfc_client \<Rightarrow> rfc_client" where
  "server_address server c = c\<lparr>dc_serv_addr := Some (inet_addr server, htons (dc_port c))\<rparr>"

text \<open>The end of both functions that open a client: the memory for responses.\<close>

definition response_memory :: "rfc_client \<Rightarrow> dns_sys \<Rightarrow> (bool \<times> rfc_client \<times> dns_sys) outcome" where
  "response_memory c sys =
     bind_outcome (take_mem sys) (\<lambda>(m, sys1).
       if \<not> m then Ok (False, c, sys1) else Ok (True, c\<lparr>dc_recv_buff := Some [], dc_recv_len := RESPONSE_BUFFER_SIZE\<rparr>, sys1))"

definition init_dns_client :: "byte list option \<Rightarrow> int list option \<Rightarrow> rfc_client \<Rightarrow> dns_sys \<Rightarrow> (bool \<times> rfc_client \<times> dns_sys) outcome" where
  "init_dns_client domain server c sys =
     (case (domain, server) of
        (Some d, Some sv) \<Rightarrow>
          if MAX_DOMAIN_LENGTH < length d then Ok (False, default_client, sys)
          else
            let c1 = default_client\<lparr>dc_domain := d\<rparr> in
            if MAX_IP_STRING_SIZE < length sv then Ok (False, c1, sys)
            else
              let c2 = c1\<lparr>dc_server_ip := sv, dc_sockfd := x_sock sys\<rparr> in
              if x_sock sys < 0 then Ok (False, c2, sys) else response_memory (server_address sv c2) sys
      | _ \<Rightarrow> Ok (False, c, sys))"

definition init_dns_client_ex :: "byte list option \<Rightarrow> rfc_client \<Rightarrow> dns_sys \<Rightarrow> (bool \<times> rfc_client \<times> dns_sys) outcome" where
  "init_dns_client_ex domain c sys =
     (case domain of
        Some d \<Rightarrow>
          if MAX_DOMAIN_LENGTH < length d then Ok (False, default_client, sys)
          else
            let c1 = default_client\<lparr>dc_domain := d, dc_sockfd := x_sock sys\<rparr> in
            if x_sock sys < 0 then Ok (False, c1, sys) else response_memory c1 sys
      | None \<Rightarrow> Ok (False, c, sys))"

definition init_dns_client_server :: "int list option \<Rightarrow> rfc_client \<Rightarrow> rfc_client" where
  "init_dns_client_server server c =
     (case server of
        None \<Rightarrow> c
      | Some sv \<Rightarrow> if MAX_IP_STRING_SIZE < length sv then c else server_address sv (c\<lparr>dc_server_ip := sv\<rparr>))"

definition deinit_dns_client :: "rfc_client \<Rightarrow> dns_sys \<Rightarrow> rfc_client \<times> dns_sys" where
  "deinit_dns_client c sys =
     (let c1 = c\<lparr>dc_send_buff := None, dc_recv_buff := None\<rparr> in
      if 0 \<le> dc_sockfd c then (c1\<lparr>dc_sockfd := -1\<rparr>, sys\<lparr>x_closed := x_closed sys @ [dc_sockfd c]\<rparr>) else (c1, sys))"

section \<open>Requests\<close>

text \<open>The trace of the packet as a text, which reads the last four bytes of the new buffer before anything is written there and whatever is behind them, is left out.\<close>

definition dns_build_request_packet :: "rfc_client \<Rightarrow> dns_sys \<Rightarrow> (bool \<times> rfc_client \<times> dns_sys) outcome" where
  "dns_build_request_packet c sys =
     (let total_size = length (dc_domain c) + 4 + 2 + 12 in
      bind_outcome (take_mem sys) (\<lambda>(m, sys1).
        if \<not> m then Ok (False, c\<lparr>dc_send_buff := None\<rparr>, sys1)
        else
          let request_id = x_rand sys mod 65535;
              c1 = c\<lparr>dc_send_buff := Some (replicate total_size None), dc_send_len := total_size, dc_request_id := request_id\<rparr>;
              header = \<lparr>hdr_id = htons (of_nat request_id), flags = htons DNS_USE_RECURSION, qd_count = htons 1,
                        an_count = htons 0, ns_count = htons 0, ar_count = htons 0\<rparr>
          in case put_labels (tokens [] (dc_domain c)) of
               None \<Rightarrow> Ok (False, c1, sys1)
             | Some ls \<Rightarrow>
                 let q_trailer = \<lparr>q_type = htons (dc_q_type c), q_class = htons DNS_INET_ADDR\<rparr>;
                     written = header_bytes header @ ls @ [0] @ trailer_bytes q_trailer
                 in Ok (True, c1\<lparr>dc_send_buff := Some (map Some written @ replicate (total_size - length written) None)\<rparr>, sys1)))"

text \<open>The result of \<^verbatim>\<open>sendto\<close> goes into an unsigned variable, so that an error is never seen as one and nothing is sent again.\<close>

definition dns_send_request_packet :: "rfc_client \<Rightarrow> dns_sys \<Rightarrow> (bool \<times> dns_sys) outcome" where
  "dns_send_request_packet c sys =
     (case x_sends sys of
        [] \<Rightarrow> NoFuel
      | r # rs \<Rightarrow> Ok (r = int (dc_send_len c), sys\<lparr>x_sends := rs, x_sent := x_sent sys @ [(dc_serv_addr c, dc_send_buff c)]\<rparr>))"

section \<open>Responses\<close>

definition dns_select :: "int \<times> bool \<times> bool \<times> int \<Rightarrow> int" where
  "dns_select e = (case e of (res, exc, rd, left) \<Rightarrow> if res = 0 then -1 else if res < 0 \<or> exc then -1 else if rd then 0 else -1)"

text \<open>
  The loop that waits until the timeout is used up. The count of received bytes is unsigned: an error is not seen, and the
  NUL is stored outside the buffer.
\<close>

fun dns_recv_loop ::
    "int \<Rightarrow> rfc_client \<Rightarrow> (int \<times> bool \<times> bool \<times> int) list \<Rightarrow> byte list option list \<Rightarrow>
     (bool \<times> rfc_client \<times> (int \<times> bool \<times> bool \<times> int) list \<times> byte list option list) outcome" where
  "dns_recv_loop sec c [] recvs = (if sec = 0 then Ok (False, c, [], recvs) else NoFuel)"
| "dns_recv_loop sec c (e # es) recvs =
     (if sec = 0 then Ok (False, c, e # es, recvs)
      else
        let left = snd (snd (snd e)) in
        if dns_select e \<noteq> 0 then dns_recv_loop left c es recvs
        else
          case recvs of
            [] \<Rightarrow> NoFuel
          | None # rs \<Rightarrow> Fault
          | Some bs # rs \<Rightarrow>
              let b = take (RESPONSE_BUFFER_SIZE - 1) bs;
                  c1 = c\<lparr>dc_recv_buff := Some (b @ replicate (RESPONSE_BUFFER_SIZE - length b) 0), dc_recv_len := length b\<rparr>
              in if b = [] then Ok (False, c1, es, rs)
                 else if 12 \<le> length b then Ok (True, c1, es, rs)
                 else dns_recv_loop left c1 es rs)"

definition dns_recv_response_packet :: "rfc_client \<Rightarrow> dns_sys \<Rightarrow> (bool \<times> rfc_client \<times> dns_sys) outcome" where
  "dns_recv_response_packet c sys =
     bind_outcome (dns_recv_loop (dc_timeout c sdiv 1000) c (x_selects sys) (x_recvs sys)) (\<lambda>(ok, c1, es, rs).
       Ok (ok, c1, sys\<lparr>x_selects := es, x_recvs := rs\<rparr>))"

text \<open>\<^verbatim>\<open>snprintf\<close> with one less than the size of the buffer keeps one more place free than the NUL needs.\<close>

definition FormatIpAddress :: "32 word \<Rightarrow> nat \<Rightarrow> byte list" where
  "FormatIpAddress ip buffsize = take (buffsize - 1 - 1) (format_ip_address ip)"

text \<open>The scan of the answers: the last address is kept.\<close>

fun last_ip :: "dns_response list \<Rightarrow> byte list option \<Rightarrow> byte list option" where
  "last_ip [] found = found"
| "last_ip (r # rs) found =
     last_ip rs (if response_type r = DNS_A_RECORD then Some (take MAX_IP_STRING_SIZE (FormatIpAddress (ip_address r) (MAX_IP_STRING_SIZE + 1))) else found)"

text \<open>\<^verbatim>\<open>dns_parse_response\<close>: up to the answers it is the \<^verbatim>\<open>parse_dns_response\<close> of the other client.\<close>

definition dns_parse_response :: "rfc_client \<Rightarrow> dns_sys \<Rightarrow> (bool \<times> rfc_client \<times> dns_sys) outcome" where
  "dns_parse_response c sys =
     (case (dc_recv_buff c, x_parses sys) of
        (Some buf, (stack, mem) # ps) \<Rightarrow>
          bind_outcome (parse_dns_response (x_nesting sys) buf (dc_recv_len c) (int (dc_request_id c)) (dc_domain c) stack mem) (\<lambda>p.
            let sys1 = sys\<lparr>x_parses := ps\<rparr> in
            case p of
              Answers rs \<Rightarrow>
                (case last_ip rs None of
                   None \<Rightarrow> Ok (False, c, sys1)
                 | Some t \<Rightarrow> Ok (True, c\<lparr>dc_resolve_ip := t\<rparr>, sys1))
            | _ \<Rightarrow> Ok (False, c, sys1))
      | (None, _) \<Rightarrow> Fault
      | (_, []) \<Rightarrow> NoFuel)"

section \<open>Resolving\<close>

fun try_loop :: "nat \<Rightarrow> rfc_client \<Rightarrow> dns_sys \<Rightarrow> (bool \<times> rfc_client \<times> dns_sys) outcome" where
  "try_loop 0 c sys = Ok (False, c, sys)"
| "try_loop (Suc k) c sys =
     bind_outcome (dns_send_request_packet c sys) (\<lambda>(ok, sys1).
     if \<not> ok then try_loop k c sys1
     else
       bind_outcome (dns_recv_response_packet c sys1) (\<lambda>(ok, c2, sys2).
       if \<not> ok then try_loop k c2 sys2
       else
         bind_outcome (dns_parse_response c2 sys2) (\<lambda>(ok, c3, sys3).
         if ok then Ok (True, c3, sys3) else try_loop k c3 sys3)))"

text \<open>The result is the text that is stored, or nothing for the value -1; a size of 0 makes the copy run over its buffer. A client that could not be opened is not closed.\<close>

definition rfc_dns_resolve :: "byte list option \<Rightarrow> int list option \<Rightarrow> nat option \<Rightarrow> rfc_client \<Rightarrow> dns_sys \<Rightarrow> (byte list option \<times> dns_sys) outcome" where
  "rfc_dns_resolve domain server result_size c0 sys =
     (if domain = None \<or> server = None \<or> result_size = None then Ok (None, sys)
      else
        bind_outcome (init_dns_client domain server c0 sys) (\<lambda>(ok, c1, sys1).
        if \<not> ok then Ok (None, sys1)
        else
          bind_outcome (dns_build_request_packet c1 sys1) (\<lambda>(ok, c2, sys2).
          bind_outcome (if ok then try_loop DNS_TRY_TIMES c2 sys2 else Ok (False, c2, sys2)) (\<lambda>(ok, c3, sys3).
          let sys4 = snd (deinit_dns_client c3 sys3) in
          if \<not> ok then Ok (None, sys4)
          else if the result_size = 0 then Fault
          else Ok (Some (take (the result_size - 1) (dc_resolve_ip c3)), sys4)))))"

definition rfc_dns_main :: "string list \<Rightarrow> rfc_client \<Rightarrow> dns_sys \<Rightarrow> (int \<times> byte list \<times> dns_sys) outcome" where
  "rfc_dns_main args c0 sys =
     (case args of
        [a0, a1, a2] \<Rightarrow>
          bind_outcome (rfc_dns_resolve (Some (map (\<lambda>ch. of_nat (of_char ch)) a1)) (Some (map (\<lambda>ch. int (of_char ch)) a2)) (Some 16) c0 sys) (\<lambda>(r, sys1).
            case r of None \<Rightarrow> Ok (-1, [], sys1) | Some t \<Rightarrow> Ok (0, t, sys1))
      | _ \<Rightarrow> Ok (-1, [], sys))"

section \<open>A name is resolved\<close>

text \<open>
  Results of \<^verbatim>\<open>select\<close> after which the time is over, results after which some is left, and a try that fails: the request is not sent as a whole, or no
  response comes in time.
\<close>

fun wasted :: "int \<Rightarrow> (int \<times> bool \<times> bool \<times> int) list \<Rightarrow> bool" where
  "wasted sec [] \<longleftrightarrow> sec = 0"
| "wasted sec (e # es) \<longleftrightarrow> sec \<noteq> 0 \<and> dns_select e \<noteq> 0 \<and> wasted (snd (snd (snd e))) es"

fun still_time :: "int \<Rightarrow> (int \<times> bool \<times> bool \<times> int) list \<Rightarrow> bool" where
  "still_time sec [] \<longleftrightarrow> sec \<noteq> 0"
| "still_time sec (e # es) \<longleftrightarrow> sec \<noteq> 0 \<and> dns_select e \<noteq> 0 \<and> still_time (snd (snd (snd e))) es"

definition lost_try :: "nat \<Rightarrow> int \<times> (int \<times> bool \<times> bool \<times> int) list \<Rightarrow> bool" where
  "lost_try n = (\<lambda>(r, es). if r = int n then wasted 3 es else es = [])"

lemma recv_wasted: "wasted sec es \<Longrightarrow> dns_recv_loop sec c (es @ fs) rs = Ok (False, c, fs, rs)"
proof (induction sec es rule: wasted.induct)
  case (1 sec)
  then show ?case by (cases fs) simp_all
next
  case (2 sec e es)
  then show ?case by (simp add: Let_def)
qed

lemma recv_arrives:
  "still_time sec es \<Longrightarrow> dns_select e = 0 \<Longrightarrow> 12 \<le> length bs \<Longrightarrow> length bs \<le> 2047 \<Longrightarrow>
   dns_recv_loop sec c (es @ e # fs) (Some bs # rs) =
     Ok (True, c\<lparr>dc_recv_buff := Some (bs @ replicate (2048 - length bs) 0), dc_recv_len := length bs\<rparr>, fs, rs)"
proof (induction sec es rule: still_time.induct)
  case (1 sec)
  have "take 2047 bs = bs" "bs \<noteq> []" using "1.prems" by auto
  then show ?case using "1.prems" by (simp add: Let_def)
next
  case (2 sec e es)
  then show ?case by (simp add: Let_def)
qed

text \<open>The request is in the client, and every try sends it.\<close>

definition requesting :: "byte list list \<Rightarrow> nat \<Rightarrow> rfc_client \<Rightarrow> bool" where
  "requesting ls rid c \<longleftrightarrow>
     dc_domain c = dotted ls \<and> dc_timeout c = DEFAULT_TIMEOUT \<and> dc_request_id c = rid \<and>
     dc_send_buff c = Some (map Some (request_bytes ls DNS_A_RECORD rid)) \<and> dc_send_len c = length (request_bytes ls DNS_A_RECORD rid)"

lemma build_requesting:
  assumes "list_all label_ok ls" "ls \<noteq> []" "dc_domain c = dotted ls" "dc_q_type c = DNS_A_RECORD" "dc_timeout c = DEFAULT_TIMEOUT" "x_mems sys = True # ms"
  shows "\<exists>c'. dns_build_request_packet c sys = Ok (True, c', sys\<lparr>x_mems := ms\<rparr>) \<and> requesting ls (x_rand sys mod 65535) c' \<and>
     dc_serv_addr c' = dc_serv_addr c \<and> dc_sockfd c' = dc_sockfd c"
  using assms length_dotted [OF assms(2)] length_enc_labels [of ls]
  by (simp add: dns_build_request_packet_def take_mem_def Let_def tokens_dotted put_labels_enc request_bytes_def request_header_def requesting_def)

lemma try_lost:
  assumes "requesting ls rid c" "lost_try (length (request_bytes ls DNS_A_RECORD rid)) (r, es)" "x_sends sys = r # rs" "x_selects sys = es @ fs"
  shows "try_loop (Suc k) c sys = try_loop k c (sys\<lparr>x_sends := rs, x_sent := x_sent sys @ [(dc_serv_addr c, dc_send_buff c)], x_selects := fs\<rparr>)"
proof (cases "r = int (dc_send_len c)")
  case True
  then have "wasted 3 es" "dc_timeout c sdiv 1000 = 3" using assms(1, 2) by (simp_all add: lost_try_def requesting_def)
  then have "dns_recv_loop (dc_timeout c sdiv 1000) c (es @ fs) (x_recvs sys) = Ok (False, c, fs, x_recvs sys)" using recv_wasted by simp
  then show ?thesis using True assms(3, 4) by (simp add: dns_send_request_packet_def dns_recv_response_packet_def)
next
  case False
  then have "es = []" using assms(1, 2) by (simp add: lost_try_def requesting_def)
  then have "sys\<lparr>x_sends := rs, x_sent := t\<rparr> = sys\<lparr>x_sends := rs, x_sent := t, x_selects := fs\<rparr>" for t using assms(4) by (cases sys) simp
  then show ?thesis using False assms(3) by (simp add: dns_send_request_packet_def)
qed

lemma tries_lost:
  "requesting ls rid c \<Longrightarrow> list_all (lost_try (length (request_bytes ls DNS_A_RECORD rid))) ts \<Longrightarrow> x_sends sys = map fst ts @ rs \<Longrightarrow> x_selects sys = concat (map snd ts) @ fs \<Longrightarrow>
   try_loop (length ts + k) c sys =
     try_loop k c (sys\<lparr>x_sends := rs, x_sent := x_sent sys @ replicate (length ts) (dc_serv_addr c, dc_send_buff c), x_selects := fs\<rparr>)"
proof (induction ts arbitrary: sys)
  case Nil
  then have "sys\<lparr>x_sends := rs, x_sent := x_sent sys, x_selects := fs\<rparr> = sys" by (cases sys) simp
  then show ?case by simp
next
  case (Cons t ts)
  obtain r es where t: "t = (r, es)" by (cases t)
  let ?s = "sys\<lparr>x_sends := map fst ts @ rs, x_sent := x_sent sys @ [(dc_serv_addr c, dc_send_buff c)], x_selects := concat (map snd ts) @ fs\<rparr>"
  have "try_loop (Suc (length ts + k)) c sys = try_loop (length ts + k) c ?s"
    by (rule try_lost [OF Cons.prems(1), of r es]) (use Cons.prems t in simp_all)
  also have "\<dots> = try_loop k c (?s\<lparr>x_sends := rs, x_sent := x_sent ?s @ replicate (length ts) (dc_serv_addr c, dc_send_buff c), x_selects := fs\<rparr>)"
    by (rule Cons.IH) (use Cons.prems in simp_all)
  finally show ?case by simp
qed

lemma try_answered:
  assumes "requesting ls rid c" "rid < 65535" "list_all label_ok ls" "ls \<noteq> []" "length (dotted ls) \<le> MAX_DOMAIN_LENGTH"
    and "x_sends sys = int (length (request_bytes ls DNS_A_RECORD rid)) # rs" "x_selects sys = es @ e # fs" "still_time 3 es" "dns_select e = 0"
    and "x_recvs sys = Some (response_bytes ls (of_nat rid) ttl ip) # bs" "x_parses sys = (stack, True) # ps" "length stack = 256" "x_nesting sys = Suc f"
  shows "\<exists>c' sys'. try_loop (Suc k) c sys = Ok (True, c', sys') \<and> dc_resolve_ip c' = take 14 (format_ip_address ip) \<and> dc_sockfd c' = dc_sockfd c \<and>
     x_sent sys' = x_sent sys @ [(dc_serv_addr c, dc_send_buff c)] \<and> x_closed sys' = x_closed sys"
proof -
  let ?b = "response_bytes ls (of_nat rid) ttl ip"
  let ?c = "c\<lparr>dc_recv_buff := Some (?b @ replicate (2048 - length ?b) 0), dc_recv_len := length ?b\<rparr>"
  have n: "12 \<le> length ?b" "length ?b \<le> 2047"
    using assms(5) length_dotted [OF assms(4)] length_enc_labels [of ls] by (simp_all add: response_bytes_def answer_bytes_def)
  have c: "dc_timeout c sdiv 1000 = 3" "dc_send_len c = length (request_bytes ls DNS_A_RECORD rid)" "dc_request_id c = rid" "dc_domain c = dotted ls"
    using assms(1) by (simp_all add: requesting_def)
  have r: "dns_recv_loop 3 c (es @ e # fs) (Some ?b # bs) = Ok (True, ?c, fs, bs)" by (rule recv_arrives [OF assms(8, 9) n])
  have "uint (of_nat rid :: 16 word) = int rid" using assms(2) by (simp add: uint_nat unat_of_nat)
  then have p: "parse_dns_response (Suc f) (?b @ ys) (length ?b) (int rid) (dotted ls) stack True = Ok (Answers [address_answer ttl ip])" for ys
    using address_response [OF assms(3-5, 12), of f "of_nat rid" ttl ip ys] by simp
  have t: "last_ip [address_answer ttl ip] None = Some (take 14 (format_ip_address ip))"
    by (simp add: address_answer_def FormatIpAddress_def)
  show ?thesis
    using assms(6, 7, 10, 11, 13) c r p t
    by (simp add: dns_send_request_packet_def dns_recv_response_packet_def dns_parse_response_def del: last_ip.simps)
qed

lemma resolve_answered:
  assumes "list_all label_ok ls" "ls \<noteq> []" "length (dotted ls) \<le> MAX_DOMAIN_LENGTH" "length server \<le> MAX_IP_STRING_SIZE" "0 \<le> x_sock sys" "x_mems sys = True # True # ms"
    and rid: "rid = x_rand sys mod 65535" and ts: "list_all (lost_try (length (request_bytes ls DNS_A_RECORD rid))) ts" "length ts < DNS_TRY_TIMES"
    and "x_sends sys = map fst ts @ int (length (request_bytes ls DNS_A_RECORD rid)) # rs" "x_selects sys = concat (map snd ts) @ es @ e # fs"
    and "still_time 3 es" "dns_select e = 0" "x_recvs sys = Some (response_bytes ls (of_nat rid) ttl ip) # bs" "x_parses sys = (stack, True) # ps"
    and "length stack = 256" "x_nesting sys = Suc f" "0 < result_size"
  shows "\<exists>sys'. rfc_dns_resolve (Some (dotted ls)) (Some server) (Some result_size) c0 sys = Ok (Some (take (result_size - 1) (take 14 (format_ip_address ip))), sys') \<and>
     x_sent sys' = x_sent sys @ replicate (length ts + 1) (Some (inet_addr server, htons DEFAULT_PORT), Some (map Some (request_bytes ls DNS_A_RECORD rid))) \<and>
     x_closed sys' = x_closed sys @ [x_sock sys]"
proof -
  define c1 where "c1 = (server_address server (default_client\<lparr>dc_domain := dotted ls, dc_server_ip := server, dc_sockfd := x_sock sys\<rparr>))
      \<lparr>dc_recv_buff := Some [], dc_recv_len := RESPONSE_BUFFER_SIZE\<rparr>"
  define sys1 where "sys1 = sys\<lparr>x_mems := True # ms\<rparr>"
  have i: "init_dns_client (Some (dotted ls)) (Some server) c0 sys = Ok (True, c1, sys1)"
    using assms(3-6) by (simp add: init_dns_client_def response_memory_def take_mem_def Let_def c1_def sys1_def)
  have c1: "dc_domain c1 = dotted ls" "dc_q_type c1 = DNS_A_RECORD" "dc_timeout c1 = DEFAULT_TIMEOUT" "dc_sockfd c1 = x_sock sys"
      "dc_serv_addr c1 = Some (inet_addr server, htons DEFAULT_PORT)"
    by (simp_all add: c1_def server_address_def default_client_def)
  have m: "x_mems sys1 = True # ms" "x_rand sys1 mod 65535 = rid" by (simp_all add: sys1_def rid)
  obtain c2 where c2: "dns_build_request_packet c1 sys1 = Ok (True, c2, sys1\<lparr>x_mems := ms\<rparr>)" "requesting ls rid c2" "dc_serv_addr c2 = dc_serv_addr c1" "dc_sockfd c2 = dc_sockfd c1"
    using build_requesting [OF assms(1, 2) c1(1-3) m(1)] m(2) by auto
  let ?s2 = "sys1\<lparr>x_mems := ms\<rparr>"
  let ?e = "(dc_serv_addr c2, dc_send_buff c2)"
  obtain k where k: "DNS_TRY_TIMES = length ts + Suc k" using ts(2) by (metis add_Suc_right less_iff_Suc_add)
  define sys2 where "sys2 = ?s2\<lparr>x_sends := int (length (request_bytes ls DNS_A_RECORD rid)) # rs, x_sent := x_sent ?s2 @ replicate (length ts) ?e, x_selects := es @ e # fs\<rparr>"
  have f: "x_sends sys2 = int (length (request_bytes ls DNS_A_RECORD rid)) # rs" "x_selects sys2 = es @ e # fs"
      "x_recvs sys2 = Some (response_bytes ls (of_nat rid) ttl ip) # bs" "x_parses sys2 = (stack, True) # ps" "x_nesting sys2 = Suc f"
      "x_sent sys2 = x_sent sys @ replicate (length ts) ?e" "x_closed sys2 = x_closed sys" "rid < 65535"
    using assms(14, 15, 17) by (simp_all add: sys2_def sys1_def rid)
  have lost: "try_loop (length ts + Suc k) c2 ?s2 = try_loop (Suc k) c2 sys2" unfolding sys2_def
    by (rule tries_lost [OF c2(2) ts(1)]) (use assms(10, 11) in \<open>simp_all add: sys1_def\<close>)
  obtain c3 sys3 where s3: "try_loop (Suc k) c2 sys2 = Ok (True, c3, sys3)" "dc_resolve_ip c3 = take 14 (format_ip_address ip)" "dc_sockfd c3 = dc_sockfd c2"
      "x_sent sys3 = x_sent sys2 @ [?e]" "x_closed sys3 = x_closed sys"
    using try_answered [OF c2(2) f(8) assms(1-3) f(1, 2) assms(12, 13) f(3, 4) assms(16) f(5), of k] f(7) by auto
  have l: "try_loop DNS_TRY_TIMES c2 ?s2 = Ok (True, c3, sys3)" unfolding k lost by (rule s3(1))
  have e: "?e = (Some (inet_addr server, htons DEFAULT_PORT), Some (map Some (request_bytes ls DNS_A_RECORD rid)))" using c2(2, 3) c1(5) by (simp add: requesting_def)
  have rep: "replicate (length ts) x @ [x] = replicate (length ts + 1) x" for x :: "(32 word \<times> 16 word) option \<times> byte option list option" by (simp add: replicate_append_same)
  have "deinit_dns_client c3 sys3 = (c3\<lparr>dc_send_buff := None, dc_recv_buff := None, dc_sockfd := -1\<rparr>, sys3\<lparr>x_closed := x_closed sys @ [x_sock sys]\<rparr>)"
    using s3(3, 5) c2(4) c1(4) assms(5) by (simp add: deinit_dns_client_def Let_def)
  moreover have "x_sent sys3 = x_sent sys @ replicate (length ts + 1) ?e" unfolding s3(4) f(6) append_assoc rep ..
  ultimately show ?thesis using i c2(1) l s3(2) assms(18) unfolding e by (simp add: rfc_dns_resolve_def Let_def)
qed

section \<open>Limits\<close>

text \<open>An address whose text has 15 characters loses its last digit.\<close>

lemma long_address_cut: "FormatIpAddress 0xC0A86464 16 = map (\<lambda>ch. of_nat (of_char ch)) ''192.168.100.10''"
proof -
  have "mem32 (0xC0A86464 :: 32 word) = [0x64, 0x64, 0xA8, 0xC0]" by code_simp
  then show ?thesis by (simp add: FormatIpAddress_def format_ip_address_def Let_def dec_bytes_def dec.simps)
qed

lemma short_address_whole: "length (format_ip_address ip) \<le> 14 \<Longrightarrow> FormatIpAddress ip 16 = format_ip_address ip"
  by (simp add: FormatIpAddress_def)

text \<open>When there is no memory for the response the socket stays open.\<close>

lemma socket_left_open:
  assumes "length d \<le> MAX_DOMAIN_LENGTH" "length sv \<le> MAX_IP_STRING_SIZE" "0 \<le> x_sock sys" "x_mems sys = False # ms" "n \<noteq> None"
  shows "rfc_dns_resolve (Some d) (Some sv) n c0 sys = Ok (None, sys\<lparr>x_mems := ms\<rparr>)"
  using assms by (auto simp: rfc_dns_resolve_def init_dns_client_def response_memory_def take_mem_def Let_def)

text \<open>An error of \<^verbatim>\<open>recvfrom\<close> is not noticed.\<close>

lemma receive_error_faults: "sec \<noteq> 0 \<Longrightarrow> dns_select e = 0 \<Longrightarrow> dns_recv_loop sec c (e # es) (None # rs) = Fault"
  by simp

section \<open>Properties\<close>

text \<open>
  C15: with a server that answers one of the three tries, a well-formed name is resolved, whatever went wrong before: requests that could not be sent, and
  waits without a response. Every try sends the same request to the server, the socket is closed, and the result is the text of the
  address, up to its 14th character.
\<close>

theorem name_resolved_after_retries:
  assumes "list_all label_ok ls" "ls \<noteq> []" "length (dotted ls) \<le> MAX_DOMAIN_LENGTH" "length server \<le> MAX_IP_STRING_SIZE" "0 \<le> x_sock sys" "x_mems sys = True # True # ms"
    and "rid = x_rand sys mod 65535" "list_all (lost_try (length (request_bytes ls DNS_A_RECORD rid))) ts" "length ts < DNS_TRY_TIMES"
    and "x_sends sys = map fst ts @ int (length (request_bytes ls DNS_A_RECORD rid)) # rs" "x_selects sys = concat (map snd ts) @ es @ e # fs"
    and "still_time 3 es" "dns_select e = 0" "x_recvs sys = Some (response_bytes ls (of_nat rid) ttl ip) # bs" "x_parses sys = (stack, True) # ps"
    and "length stack = 256" "x_nesting sys = Suc f" "16 \<le> result_size"
  shows "\<exists>sys'. rfc_dns_resolve (Some (dotted ls)) (Some server) (Some result_size) c0 sys = Ok (Some (take 14 (format_ip_address ip)), sys') \<and>
     x_sent sys' = x_sent sys @ replicate (length ts + 1) (Some (inet_addr server, htons DEFAULT_PORT), Some (map Some (request_bytes ls DNS_A_RECORD rid))) \<and>
     x_closed sys' = x_closed sys @ [x_sock sys]"
proof -
  have "0 < result_size" "take (result_size - 1) (take 14 (format_ip_address ip)) = take 14 (format_ip_address ip)" using assms(18) by simp_all
  then show ?thesis using resolve_answered [OF assms(1-17), of result_size c0] by simp
qed

definition demo_dns :: dns_sys where
  "demo_dns = \<lparr>x_sock = 5, x_mems = [True, True], x_rand = 7, x_sends = [-1, 22, 22], x_selects = [(0, False, False, 0), (1, False, True, 2)],
     x_recvs = [Some (response_bytes [[97, 98], [99]] 7 60 0x7f000001)], x_parses = [(replicate 256 0, True)], x_nesting = 1, x_sent = [], x_closed = []\<rparr>"

theorem name_resolved_after_retries_witness:
  "\<exists>sys'. rfc_dns_resolve (Some [97, 98, 46, 99]) (Some (codes ''10.0.0.1'')) (Some 16) rfc_zero_client demo_dns = Ok (Some (take 14 (format_ip_address 0x7f000001)), sys') \<and>
     length (x_sent sys') = 3 \<and> x_closed sys' = [5]"
proof -
  have n: "length (request_bytes [[97, 98], [99]] DNS_A_RECORD (7 mod 65535)) = 22" by (simp add: request_bytes_def)
  have "\<exists>sys'. rfc_dns_resolve (Some (dotted [[97, 98], [99]])) (Some (codes ''10.0.0.1'')) (Some 16) rfc_zero_client demo_dns = Ok (Some (take 14 (format_ip_address 0x7f000001)), sys') \<and>
     x_sent sys' = x_sent demo_dns @ replicate (length [(- 1 :: int, []), (22, [(0 :: int, False, False, 0 :: int)])] + 1)
       (Some (inet_addr (codes ''10.0.0.1''), htons DEFAULT_PORT), Some (map Some (request_bytes [[97, 98], [99]] DNS_A_RECORD (7 mod 65535)))) \<and>
     x_closed sys' = x_closed demo_dns @ [x_sock demo_dns]"
    by (rule name_resolved_after_retries [where es = "[]" and fs = "[]" and rs = "[]" and e = "(1, False, True, 2)" and bs = "[]" and ps = "[]" and ms = "[]"
          and stack = "replicate 256 0" and f = 0 and ttl = 60])
      (use n in \<open>simp_all add: demo_dns_def label_ok_def lost_try_def dns_select_def\<close>)
  then show ?thesis by (auto simp: demo_dns_def)
qed

end
