(* ===== verification/Usb_Watch.thy ===== *)
theory Usb_Watch
  imports Memory "HOL-Library.Sublist"
begin

text \<open>
  The program that mounts USB sticks as the kernel announces them (\<^verbatim>\<open>src/base/linux_netlink_for_udisk_2.c\<close>): reading labels, the table of mount
  points, the scan at the start, the messages of the kernel, and what is done for each of them. The results of the calls come from scripts, and the calls
  are recorded. The last part has the events of the kernel, with the strings they consist of, and shows that the table refines a map from devices to
  directories.
\<close>

section \<open>State\<close>

text \<open>
  Texts are lists of character codes without their NUL. The state of the program: the table of the mount points, the static counter of \<^verbatim>\<open>get_label\<close>, and
  the event that is reported. \<^verbatim>\<open>event\<close> of \<^verbatim>\<open>main\<close> and of \<^verbatim>\<open>check\<close> are two variables of this kind.
\<close>

type_synonym cstr = "int list"

record USBEvent =
  ev_kind :: int
  ev_path :: cstr

abbreviation (input) ADD_EVENT :: int where "ADD_EVENT \<equiv> 0"
abbreviation (input) REMOVE_EVENT :: int where "REMOVE_EVENT \<equiv> 1"

record usb_state =
  dstPathTable :: "cstr list"
  noLabel :: int

text \<open>
  What the program does to the system, in order, and the results it gets: of \<^verbatim>\<open>system\<close>, of \<^verbatim>\<open>mkdir\<close> and \<^verbatim>\<open>rmdir\<close>, of reading the file with the label
  (it cannot be opened, it cannot be read, or it has this content), and whether a report reaches the player.
\<close>

datatype usb_call = System cstr | Mkdir cstr | Rmdir cstr | Report USBEvent

datatype label_file = NoLabelFile | LabelReadError | LabelText cstr

record usb_sys =
  u_system :: "int list"
  u_dirs :: "int list"
  u_labels :: "label_file list"
  u_reports :: "bool list"
  u_calls :: "usb_call list"

definition run_system :: "cstr \<Rightarrow> usb_sys \<Rightarrow> (int \<times> usb_sys) outcome" where
  "run_system comm w = (case u_system w of [] \<Rightarrow> NoFuel | r # rs \<Rightarrow> Ok (r, w\<lparr>u_system := rs, u_calls := u_calls w @ [System comm]\<rparr>))"

definition dir_call :: "usb_call \<Rightarrow> usb_sys \<Rightarrow> (int \<times> usb_sys) outcome" where
  "dir_call call w = (case u_dirs w of [] \<Rightarrow> NoFuel | r # rs \<Rightarrow> Ok (r, w\<lparr>u_dirs := rs, u_calls := u_calls w @ [call]\<rparr>))"

section \<open>Labels and directories\<close>

text \<open>\<^verbatim>\<open>recordDstPath\<close>: a number below 1 is not rejected; the entry before the table is written then.\<close>

definition recordDstPath :: "int \<Rightarrow> cstr \<Rightarrow> usb_state \<Rightarrow> (int \<times> usb_state) outcome" where
  "recordDstPath no dstPath s =
     (if length dstPath \<ge> 30 \<or> no > 8 then Ok (-1, s)
      else if no < 1 then Fault
      else Ok (0, s\<lparr>dstPathTable := (dstPathTable s)[nat (no - 1) := dstPath]\<rparr>))"

definition usb_name :: "int \<Rightarrow> cstr" where
  "usb_name n = codes ''usb'' @ (if n < 0 then [45] else []) @ dec (nat \<bar>n\<bar>)"

definition label_command :: "cstr \<Rightarrow> cstr" where
  "label_command dev = codes ''vol_id -l '' @ dev @ codes '' | sed -n '' @ [39, 36, 112, 39] @ codes '' > '' @ codes ''label_tmp''"

text \<open>
  \<^verbatim>\<open>get_label\<close>: the last character that was read is dropped; an empty file makes it write before the buffer. A label of one character counts as
  none.
\<close>

definition get_label :: "cstr \<Rightarrow> nat \<Rightarrow> usb_state \<Rightarrow> usb_sys \<Rightarrow> (int \<times> cstr \<times> usb_state \<times> usb_sys) outcome" where
  "get_label dev n s w =
     (if length (label_command dev) \<ge> 200 then Fault
      else
        bind_outcome (run_system (label_command dev) w) (\<lambda>(r, w1).
        case u_labels w1 of
          [] \<Rightarrow> NoFuel
        | l # ls \<Rightarrow>
            let w2 = w1\<lparr>u_labels := ls\<rparr>; s1 = s\<lparr>noLabel := noLabel s + 1\<rparr> in
            case l of
              LabelText t \<Rightarrow>
                let got = take (n - 1) t in
                if got = [] then Fault
                else
                  let buf = takeWhile (\<lambda>c. c \<noteq> 0) (butlast got) in
                  if length buf \<le> 1 then Ok (0, usb_name (noLabel s1), s1, w2) else Ok (0, buf, s, w2)
            | _ \<Rightarrow> Ok (-1, usb_name (noLabel s1), s1, w2)))"

definition make_dir :: "cstr \<Rightarrow> cstr \<Rightarrow> usb_state \<Rightarrow> usb_sys \<Rightarrow> (int \<times> usb_state \<times> usb_sys) outcome" where
  "make_dir devPath dstPath s w =
     (if devPath = [] then Fault
      else
        bind_outcome (dir_call (Mkdir dstPath) w) (\<lambda>(ret, w1).
          if ret = -1 then Ok (ret, s, w1)
          else bind_outcome (recordDstPath (last devPath - 48) dstPath s) (\<lambda>(r, s1). Ok (r, s1, w1))))"

definition rm_dir :: "cstr \<Rightarrow> usb_state \<Rightarrow> usb_sys \<Rightarrow> (usb_state \<times> usb_sys) outcome" where
  "rm_dir path s w =
     (if path = [] \<or> last path < 49 \<or> last path > 56 then Fault
      else
        let i = nat (last path - 49) in
        bind_outcome (dir_call (Rmdir (dstPathTable s ! i)) w) (\<lambda>(ret, w1). Ok (s\<lparr>dstPathTable := (dstPathTable s)[i := []]\<rparr>, w1)))"

text \<open>\<^verbatim>\<open>strstr\<close>, and the first of the devices \<^verbatim>\<open>sda1\<close> to \<^verbatim>\<open>sda8\<close> in a message.\<close>

fun has_text :: "cstr \<Rightarrow> cstr \<Rightarrow> bool" where
  "has_text [] t \<longleftrightarrow> t = []"
| "has_text (c # cs) t \<longleftrightarrow> take (length t) (c # cs) = t \<or> has_text cs t"

definition sda :: "nat \<Rightarrow> cstr" where
  "sda i = codes ''/sda'' @ dec i"

definition device :: "nat \<Rightarrow> cstr" where
  "device i = codes ''/dev'' @ sda i"

definition usb_dir :: "cstr \<Rightarrow> cstr" where
  "usb_dir l = codes ''/usb/'' @ l"

definition getDevPath :: "cstr \<Rightarrow> cstr option" where
  "getDevPath buf = map_option device (find (\<lambda>i. has_text buf (sda i)) [1..<9])"

section \<open>Mounting\<close>

definition reportToIplayer :: "USBEvent \<Rightarrow> usb_sys \<Rightarrow> usb_sys outcome" where
  "reportToIplayer ev w =
     (case u_reports w of
        [] \<Rightarrow> NoFuel
      | ok # rs \<Rightarrow> let w1 = w\<lparr>u_reports := rs\<rparr> in Ok (if ok then w1\<lparr>u_calls := u_calls w1 @ [Report ev]\<rparr> else w1))"

definition mount_command :: "cstr \<Rightarrow> cstr \<Rightarrow> cstr" where
  "mount_command dev dst = codes ''mount -t auto -o utf8,rw '' @ dev @ [32] @ dst"

definition umount_command :: "cstr \<Rightarrow> cstr" where
  "umount_command dev = codes ''umount '' @ dev"

text \<open>What \<^verbatim>\<open>check\<close> and \<^verbatim>\<open>main\<close> do for a device that is there: label, directory, mount, report. The result is the one of \<^verbatim>\<open>mount\<close>.\<close>

definition add_device :: "cstr \<Rightarrow> USBEvent \<Rightarrow> usb_state \<Rightarrow> usb_sys \<Rightarrow> (int \<times> USBEvent \<times> usb_state \<times> usb_sys) outcome" where
  "add_device devPath ev s w =
     bind_outcome (get_label devPath 21 s w) (\<lambda>(r, vol, s1, w1).
       let dstPath = usb_dir vol in
       if length dstPath \<ge> 30 then Fault
       else
         bind_outcome (make_dir devPath dstPath s1 w1) (\<lambda>(r, s2, w2).
         bind_outcome (run_system (mount_command devPath dstPath) w2) (\<lambda>(ret, w3).
         let ev1 = ev\<lparr>ev_kind := ADD_EVENT, ev_path := dstPath\<rparr> in
         bind_outcome (reportToIplayer ev1 w3) (\<lambda>w4. Ok (ret, ev1, s2, w4)))))"

definition remove_device :: "cstr \<Rightarrow> USBEvent \<Rightarrow> usb_state \<Rightarrow> usb_sys \<Rightarrow> (USBEvent \<times> usb_state \<times> usb_sys) outcome" where
  "remove_device devPath ev s w =
     bind_outcome (run_system (umount_command devPath) w) (\<lambda>(ret, w1).
     bind_outcome (rm_dir devPath s w1) (\<lambda>(s1, w2).
     let ev1 = ev\<lparr>ev_kind := REMOVE_EVENT\<rparr> in
     bind_outcome (reportToIplayer ev1 w2) (\<lambda>w3. Ok (ev1, s1, w3))))"

text \<open>
  \<^verbatim>\<open>check\<close>: everything is unmounted, the directories in \<^verbatim>\<open>/usb\<close> are removed, and the devices that are there are mounted. \<open>entries\<close> is the content of \<^verbatim>\<open>/usb\<close>,
  if it can be opened, and \<open>present\<close> says which devices can. The result of \<^verbatim>\<open>mount\<close> is printed as a text, which only works if it is 0.
\<close>

fun umount_all :: "nat list \<Rightarrow> usb_sys \<Rightarrow> usb_sys outcome" where
  "umount_all [] w = Ok w"
| "umount_all (i # is) w = bind_outcome (run_system (umount_command (device i)) w) (\<lambda>(r, w1). umount_all is w1)"

fun remove_dirs :: "cstr list \<Rightarrow> usb_sys \<Rightarrow> usb_sys outcome" where
  "remove_dirs [] w = Ok w"
| "remove_dirs (f # fs) w =
     (if length (usb_dir f) \<ge> 30 then Fault else bind_outcome (dir_call (Rmdir (usb_dir f)) w) (\<lambda>(r, w1). remove_dirs fs w1))"

fun mount_present :: "(nat \<Rightarrow> bool) \<Rightarrow> nat list \<Rightarrow> USBEvent \<Rightarrow> usb_state \<Rightarrow> usb_sys \<Rightarrow> (usb_state \<times> usb_sys) outcome" where
  "mount_present present [] ev s w = Ok (s, w)"
| "mount_present present (i # is) ev s w =
     (if \<not> present i then mount_present present is ev s w
      else
        bind_outcome (add_device (device i) ev s w) (\<lambda>(ret, ev1, s1, w1).
          if ret \<noteq> 0 then Fault else mount_present present is ev1 s1 w1))"

definition check :: "cstr list option \<Rightarrow> (nat \<Rightarrow> bool) \<Rightarrow> usb_state \<Rightarrow> usb_sys \<Rightarrow> (usb_state \<times> usb_sys) outcome" where
  "check entries present s w =
     bind_outcome (umount_all [1..<9] w) (\<lambda>w1.
       case entries of
         None \<Rightarrow> Fault
       | Some fs \<Rightarrow>
           bind_outcome (remove_dirs fs w1) (\<lambda>w2. mount_present present [1..<9] \<lparr>ev_kind = 0, ev_path = []\<rparr> s w2))"

section \<open>Messages of the kernel\<close>

text \<open>
  The loop that joins the strings of a message: the NUL behind each of them becomes an \<^verbatim>\<open>n\<close>, the low byte of the constant \<^verbatim>\<open>'/n'\<close>, until it has passed the
  size of the message; what an older message left in the buffer goes on the last string.
\<close>

function join_loop :: "cstr \<Rightarrow> nat \<Rightarrow> nat \<Rightarrow> (cstr \<times> nat) outcome" where
  "join_loop buf pos n =
     (if \<not> pos < n then Ok (buf, pos)
      else
        let l = length (takeWhile (\<lambda>c. c \<noteq> 0) (drop pos buf)) in
        if pos + l < length buf then join_loop (buf[pos + l := 110]) (pos + l) n else Fault)"
  by auto

termination
proof (relation "measure (\<lambda>(buf, pos, n). 2 * (n - pos) + (if pos < length buf \<and> buf ! pos = 0 then 1 else 0))", goal_cases)
  case (2 buf pos n l)
  show ?case
  proof (cases "l = 0")
    case True
    have "drop pos buf \<noteq> []" using 2 by auto
    then have "hd (drop pos buf) = 0" using 2 True by (cases "drop pos buf") (auto split: if_splits)
    then have "buf ! pos = 0" using 2 True by (simp add: hd_drop_conv_nth)
    then show ?thesis using 2 True by simp
  next
    case False
    have "pos < n" using 2 by simp
    with False have "n - (pos + l) < n - pos" by linarith
    then show ?thesis using 2 by simp
  qed
qed simp

declare join_loop.simps [simp del]

text \<open>
  One turn of \<^verbatim>\<open>main\<close>: \<open>msg\<close> is what \<^verbatim>\<open>recv\<close> puts into the buffer of 1024 characters, nothing after an error. The buffer is kept between the turns.
\<close>

definition normalise :: "cstr \<Rightarrow> cstr \<Rightarrow> cstr outcome" where
  "normalise buf msg =
     (let m = take 1024 msg in
      bind_outcome (join_loop (m @ drop (length m) buf) 0 (length m)) (\<lambda>(b, pos). if pos < length b then Ok (b[pos := 0]) else Fault))"

definition handle_text :: "cstr \<Rightarrow> USBEvent \<times> usb_state \<times> usb_sys \<Rightarrow> (USBEvent \<times> usb_state \<times> usb_sys) outcome" where
  "handle_text t = (\<lambda>(ev, s, w).
     bind_outcome
       (if has_text t (codes ''ACTION=add'') then
          case getDevPath t of
            None \<Rightarrow> Ok (ev, s, w)
          | Some d \<Rightarrow> bind_outcome (add_device d ev s w) (\<lambda>(r, ev1, s1, w1). Ok (ev1, s1, w1))
        else Ok (ev, s, w)) (\<lambda>(ev1, s1, w1).
     if has_text t (codes ''ACTION=remove'') then
       case getDevPath t of
         None \<Rightarrow> Ok (ev1, s1, w1)
       | Some d \<Rightarrow> remove_device d ev1 s1 w1
     else Ok (ev1, s1, w1)))"

definition usb_turn :: "cstr \<Rightarrow> cstr \<times> USBEvent \<times> usb_state \<times> usb_sys \<Rightarrow> (cstr \<times> USBEvent \<times> usb_state \<times> usb_sys) outcome" where
  "usb_turn msg = (\<lambda>(buf0, x).
     bind_outcome (normalise buf0 msg) (\<lambda>buf. bind_outcome (handle_text (takeWhile (\<lambda>c. c \<noteq> 0) buf) x) (\<lambda>x1. Ok (buf, x1))))"

fun usb_turns :: "cstr list \<Rightarrow> cstr \<times> USBEvent \<times> usb_state \<times> usb_sys \<Rightarrow> (cstr \<times> USBEvent \<times> usb_state \<times> usb_sys) outcome" where
  "usb_turns [] x = Ok x"
| "usb_turns (m # ms) x = bind_outcome (usb_turn m x) (usb_turns ms)"

text \<open>\<^verbatim>\<open>main\<close> up to the end of the messages. The socket is not checked; without it every message is empty.\<close>

definition usb_main :: "cstr list option \<Rightarrow> (nat \<Rightarrow> bool) \<Rightarrow> cstr list \<Rightarrow> usb_sys \<Rightarrow> (cstr \<times> USBEvent \<times> usb_state \<times> usb_sys) outcome" where
  "usb_main entries present msgs w =
     bind_outcome (check entries present \<lparr>dstPathTable = replicate 8 [], noLabel = 0\<rparr> w) (\<lambda>(s, w1).
       usb_turns msgs (replicate 1024 0, \<lparr>ev_kind = 0, ev_path = []\<rparr>, s, w1))"

section \<open>Plugging in and out\<close>

text \<open>
  The specification: a map from the number of a device to its directory, and the directory of the last report of a new device. A device is plugged in, with a
  label, or out; any other event, with the action it has, changes nothing.
\<close>

datatype usb_op = Plug nat cstr | Unplug nat | Other cstr

fun spec_step :: "usb_op \<Rightarrow> (nat \<Rightarrow> cstr option) \<times> cstr \<Rightarrow> (nat \<Rightarrow> cstr option) \<times> cstr" where
  "spec_step (Plug i l) (m, p) = (m(i \<mapsto> usb_dir l), usb_dir l)"
| "spec_step (Unplug i) (m, p) = (m(i := None), p)"
| "spec_step (Other a) (m, p) = (m, p)"

fun spec_calls :: "usb_op \<Rightarrow> (nat \<Rightarrow> cstr option) \<times> cstr \<Rightarrow> usb_call list" where
  "spec_calls (Plug i l) (m, p) =
     [System (label_command (device i)), Mkdir (usb_dir l), System (mount_command (device i) (usb_dir l)), Report \<lparr>ev_kind = ADD_EVENT, ev_path = usb_dir l\<rparr>]"
| "spec_calls (Unplug i) (m, p) =
     [System (umount_command (device i)), Rmdir (case m i of None \<Rightarrow> [] | Some d \<Rightarrow> d), Report \<lparr>ev_kind = REMOVE_EVENT, ev_path = p\<rparr>]"
| "spec_calls (Other a) (m, p) = []"

definition represents :: "usb_state \<Rightarrow> (nat \<Rightarrow> cstr option) \<Rightarrow> bool" where
  "represents s m \<longleftrightarrow> length (dstPathTable s) = 8 \<and>
     (\<forall>i \<in> {1..8}. m i = (if dstPathTable s ! (i - 1) = [] then None else Some (dstPathTable s ! (i - 1))))"

definition label_good :: "cstr \<Rightarrow> bool" where
  "label_good l \<longleftrightarrow> 2 \<le> length l \<and> length l \<le> 19 \<and> 0 \<notin> set l"

text \<open>The system gives what an operation needs: the label is read, the directory can be made, and the report arrives.\<close>

fun op_ready :: "usb_op \<Rightarrow> usb_sys \<Rightarrow> bool" where
  "op_ready (Plug i l) w \<longleftrightarrow> 2 \<le> length (u_system w) \<and> u_labels w \<noteq> [] \<and> hd (u_labels w) = LabelText (l @ [10]) \<and> u_dirs w \<noteq> [] \<and> hd (u_dirs w) = 0 \<and>
     u_reports w \<noteq> [] \<and> hd (u_reports w)"
| "op_ready (Unplug i) w \<longleftrightarrow> u_system w \<noteq> [] \<and> u_dirs w \<noteq> [] \<and> u_reports w \<noteq> [] \<and> hd (u_reports w)"
| "op_ready (Other a) w \<longleftrightarrow> True"

fun after_op :: "usb_op \<Rightarrow> usb_sys \<Rightarrow> usb_sys" where
  "after_op (Plug i l) w = w\<lparr>u_system := drop 2 (u_system w), u_labels := tl (u_labels w), u_dirs := tl (u_dirs w), u_reports := tl (u_reports w)\<rparr>"
| "after_op (Unplug i) w = w\<lparr>u_system := tl (u_system w), u_dirs := tl (u_dirs w), u_reports := tl (u_reports w)\<rparr>"
| "after_op (Other a) w = w"

fun op_good :: "usb_op \<Rightarrow> bool" where
  "op_good (Plug i l) \<longleftrightarrow> 1 \<le> i \<and> i \<le> 8 \<and> label_good l"
| "op_good (Unplug i) \<longleftrightarrow> 1 \<le> i \<and> i \<le> 8"
| "op_good (Other a) \<longleftrightarrow> 47 \<notin> set a"

lemma last_device: "1 \<le> i \<Longrightarrow> i \<le> 8 \<Longrightarrow> last (device i) = 48 + int i \<and> length (device i) = 9"
  by (simp add: device_def sda_def dec.simps [of i])

lemma represents_put:
  assumes "represents s m" "1 \<le> i" "i \<le> 8"
  shows "d \<noteq> [] \<Longrightarrow> represents (s\<lparr>dstPathTable := (dstPathTable s)[i - 1 := d]\<rparr>) (m(i \<mapsto> d))" "represents (s\<lparr>dstPathTable := (dstPathTable s)[i - 1 := []]\<rparr>) (m(i := None))"
  using assms by (auto simp: represents_def nth_list_update)

lemma get_label_good:
  assumes "label_good l" "length (label_command dev) < 200" "u_system w = r # rs" "u_labels w = LabelText (l @ [10]) # ls"
  shows "get_label dev 21 s w = Ok (0, l, s, w\<lparr>u_system := rs, u_calls := u_calls w @ [System (label_command dev)], u_labels := ls\<rparr>)"
proof -
  have t: "take 20 (l @ [10]) = l @ [10]" "takeWhile (\<lambda>c. c \<noteq> 0) l = l" "\<not> length l \<le> 1"
    using assms(1) by (auto simp: label_good_def takeWhile_eq_all_conv)
  have "takeWhile (\<lambda>c. c \<noteq> 0) (butlast (take 20 (l @ [10]))) = l" "take 20 (l @ [10]) \<noteq> []" using t(1) by (simp_all add: t(2) del: take_append)
  note b = this
  show ?thesis using assms(2-4) t(3) unfolding get_label_def Let_def by (simp add: run_system_def b del: take_append takeWhile_eq_all_conv butlast_append)
qed

lemma add_device_good:
  assumes "op_good (Plug i l)" "op_ready (Plug i l) w" "length (dstPathTable s) = 8"
  shows "\<exists>r. add_device (device i) ev s w = Ok (r, \<lparr>ev_kind = ADD_EVENT, ev_path = usb_dir l\<rparr>, s\<lparr>dstPathTable := (dstPathTable s)[i - 1 := usb_dir l]\<rparr>,
     (after_op (Plug i l) w)\<lparr>u_calls := u_calls w @ spec_calls (Plug i l) mp\<rparr>)"
proof -
  obtain r1 r2 rs where sy: "u_system w = r1 # r2 # rs" using assms(2) by (cases "u_system w"; cases "tl (u_system w)") auto
  obtain ls where lb: "u_labels w = LabelText (l @ [10]) # ls" using assms(2) by (cases "u_labels w") auto
  obtain ds where di: "u_dirs w = 0 # ds" using assms(2) by (cases "u_dirs w") auto
  obtain ps where re: "u_reports w = True # ps" using assms(2) by (cases "u_reports w") auto
  have d: "last (device i) = 48 + int i" "length (device i) = 9" "device i \<noteq> []" using assms(1) last_device [of i] by auto
  have lc: "length (label_command (device i)) < 200" using d(2) by (simp add: label_command_def)
  have g: "label_good l" using assms(1) by simp
  have n: "length (usb_dir l) < 30" using g by (simp add: label_good_def usb_dir_def)
  have no: "recordDstPath (last (device i) - 48) (usb_dir l) s = Ok (0, s\<lparr>dstPathTable := (dstPathTable s)[i - 1 := usb_dir l]\<rparr>)"
    using assms(1) d(1) n by (auto simp: recordDstPath_def nat_diff_distrib)
  have ev: "ev\<lparr>ev_kind := ADD_EVENT, ev_path := p\<rparr> = \<lparr>ev_kind = ADD_EVENT, ev_path = p\<rparr>" for p by (cases ev) simp
  show ?thesis
    using get_label_good [OF g lc sy lb, of s] n no d(3) sy lb di re
    by (cases mp) (simp add: add_device_def make_dir_def dir_call_def run_system_def reportToIplayer_def Let_def ev)
qed

lemma remove_device_good:
  assumes "op_good (Unplug i)" "op_ready (Unplug i) w" "represents s m"
  shows "remove_device (device i) ev s w = Ok (ev\<lparr>ev_kind := REMOVE_EVENT\<rparr>, s\<lparr>dstPathTable := (dstPathTable s)[i - 1 := []]\<rparr>,
     (after_op (Unplug i) w)\<lparr>u_calls := u_calls w @ spec_calls (Unplug i) (m, ev_path ev)\<rparr>)"
proof -
  obtain r1 rs where sy: "u_system w = r1 # rs" using assms(2) by (cases "u_system w") auto
  obtain d1 ds where di: "u_dirs w = d1 # ds" using assms(2) by (cases "u_dirs w") auto
  obtain ps where re: "u_reports w = True # ps" using assms(2) by (cases "u_reports w") auto
  have d: "last (device i) = 48 + int i" "device i \<noteq> []" "nat (48 + int i - 49) = i - 1" using assms(1) last_device [of i] by auto
  have m: "dstPathTable s ! (i - 1) = (case m i of None \<Rightarrow> [] | Some d \<Rightarrow> d)" using assms(1, 3) by (auto simp: represents_def)
  have ev: "ev\<lparr>ev_kind := REMOVE_EVENT\<rparr> = \<lparr>ev_kind = REMOVE_EVENT, ev_path = ev_path ev\<rparr>" by (cases ev) simp
  have rm: "rm_dir (device i) s w' = bind_outcome (dir_call (Rmdir (case m i of None \<Rightarrow> [] | Some d \<Rightarrow> d)) w')
      (\<lambda>(ret, w1). Ok (s\<lparr>dstPathTable := (dstPathTable s)[i - 1 := []]\<rparr>, w1))" for w'
    using assms(1) d m unfolding rm_dir_def Let_def by simp
  show ?thesis using sy di re by (simp add: remove_device_def rm dir_call_def run_system_def reportToIplayer_def Let_def ev)
qed

text \<open>What the program looks for in the text of an operation.\<close>

fun found_in :: "usb_op \<Rightarrow> cstr \<Rightarrow> bool" where
  "found_in (Plug i l) t \<longleftrightarrow> has_text t (codes ''ACTION=add'') \<and> \<not> has_text t (codes ''ACTION=remove'') \<and> getDevPath t = Some (device i)"
| "found_in (Unplug i) t \<longleftrightarrow> \<not> has_text t (codes ''ACTION=add'') \<and> has_text t (codes ''ACTION=remove'') \<and> getDevPath t = Some (device i)"
| "found_in (Other a) t \<longleftrightarrow> getDevPath t = None"

lemma handle_step:
  assumes "found_in op t" "op_good op" "op_ready op w" "represents s m"
  shows "\<exists>ev' s'. handle_text t (ev, s, w) = Ok (ev', s', (after_op op w)\<lparr>u_calls := u_calls w @ spec_calls op (m, ev_path ev)\<rparr>) \<and>
     represents s' (fst (spec_step op (m, ev_path ev))) \<and> ev_path ev' = snd (spec_step op (m, ev_path ev))"
proof (cases op)
  case (Plug i l)
  have i: "1 \<le> i" "i \<le> 8" "length (dstPathTable s) = 8" using assms(2, 4) Plug by (auto simp: represents_def)
  obtain r where a: "add_device (device i) ev s w = Ok (r, \<lparr>ev_kind = ADD_EVENT, ev_path = usb_dir l\<rparr>, s\<lparr>dstPathTable := (dstPathTable s)[i - 1 := usb_dir l]\<rparr>,
     (after_op (Plug i l) w)\<lparr>u_calls := u_calls w @ spec_calls (Plug i l) (m, ev_path ev)\<rparr>)"
    using add_device_good [of i l w s ev "(m, ev_path ev)"] assms(2, 3) i(3) Plug by auto
  have "usb_dir l \<noteq> []" by (simp add: usb_dir_def)
  then have "represents (s\<lparr>dstPathTable := (dstPathTable s)[i - 1 := usb_dir l]\<rparr>) (m(i \<mapsto> usb_dir l))" using represents_put(1) [OF assms(4) i(1, 2)] by blast
  then show ?thesis using assms(1) Plug a by (simp add: handle_text_def del: after_op.simps spec_calls.simps codes_simps)
next
  case (Unplug i)
  have i: "1 \<le> i" "i \<le> 8" using assms(2) Unplug by auto
  have "op_good (Unplug i)" "op_ready (Unplug i) w" using assms(2, 3) Unplug by simp_all
  note r = remove_device_good [OF this assms(4), of ev]
  show ?thesis using assms(1) Unplug r represents_put(2) [OF assms(4) i] by (simp add: handle_text_def del: after_op.simps spec_calls.simps codes_simps)
next
  case (Other a)
  then show ?thesis using assms(1, 4) by (auto simp: handle_text_def simp del: codes_simps)
qed

section \<open>Messages\<close>

text \<open>The message of the kernel for some strings, and the text that is made of it: an \<^verbatim>\<open>n\<close> behind each string.\<close>

definition kernel_msg :: "cstr list \<Rightarrow> cstr" where
  "kernel_msg ss = concat (map (\<lambda>x. x @ [0]) ss)"

definition joined :: "cstr list \<Rightarrow> cstr" where
  "joined ss = concat (map (\<lambda>x. x @ [110]) ss)"

definition strings_ok :: "cstr list \<Rightarrow> bool" where
  "strings_ok ss \<longleftrightarrow> list_all (\<lambda>x. x \<noteq> [] \<and> 0 \<notin> set x) ss \<and> length (kernel_msg ss) < 1024"

lemma length_joined: "length (joined ss) = length (kernel_msg ss)"
  by (induction ss) (simp_all add: joined_def kernel_msg_def)

lemma joined_no_zero: "list_all (\<lambda>x. x \<noteq> [] \<and> 0 \<notin> set x) ss \<Longrightarrow> 0 \<notin> set (joined ss)"
  by (auto simp: joined_def list_all_iff)

lemma join_string:
  assumes "buf = p @ x @ 0 # r" "0 \<notin> set x" "length p < n"
  shows "join_loop buf (length p) n = join_loop (p @ x @ 110 # r) (length p + length x) n"
proof -
  have "takeWhile (\<lambda>c. c \<noteq> 0) (drop (length p) buf) = x" using assms(1, 2) by (auto simp: takeWhile_append2 takeWhile_tail)
  moreover have "buf[length p + length x := 110] = p @ x @ 110 # r" using assms(1) by (simp add: list_update_append)
  ultimately show ?thesis using assms(1, 3) by (subst join_loop.simps) (simp add: Let_def)
qed

lemma join_message:
  "list_all (\<lambda>x. x \<noteq> [] \<and> 0 \<notin> set x) ss \<Longrightarrow> y = [] \<or> y = [110] \<Longrightarrow> 0 \<notin> set z \<Longrightarrow>
   join_loop (q @ y @ kernel_msg ss @ z @ 0 # r) (length q) (length (q @ y @ kernel_msg ss)) =
     Ok (if y = [] \<and> ss = [] then (q @ z @ 0 # r, length q) else (q @ y @ joined ss @ z @ 110 # r, length (q @ y @ kernel_msg ss @ z)))"
proof (induction ss arbitrary: q y)
  case Nil
  have "n \<le> k \<Longrightarrow> join_loop b k n = Ok (b, k)" for b k n by (simp add: join_loop.simps)
  then show ?case using Nil.prems(2, 3) join_string [of "q @ (y @ z) @ 0 # r" q "y @ z" r "length (q @ y)"] by (auto simp: kernel_msg_def joined_def)
next
  case (Cons x xs)
  let ?n = "length (q @ y @ kernel_msg (x # xs))"
  have x: "x \<noteq> []" "0 \<notin> set (y @ x)" "list_all (\<lambda>x. x \<noteq> [] \<and> 0 \<notin> set x) xs" using Cons.prems by auto
  have m: "kernel_msg (x # xs) = x @ 0 # kernel_msg xs" "joined (x # xs) = x @ 110 # joined xs" by (simp_all add: kernel_msg_def joined_def)
  have "join_loop (q @ y @ kernel_msg (x # xs) @ z @ 0 # r) (length q) ?n = join_loop (q @ (y @ x) @ 110 # (kernel_msg xs @ z @ 0 # r)) (length q + length (y @ x)) ?n"
    by (rule join_string [OF _ x(2)]) (simp_all add: m)
  then show ?case using Cons.IH [OF x(3), of "[110]" "q @ y @ x"] Cons.prems(3) by (simp add: m)
qed

text \<open>What an older message left behind the new one up to the next NUL becomes a part of the text.\<close>

lemma old_text_stays:
  assumes "strings_ok ss" "ss \<noteq> []" "drop (length (kernel_msg ss)) buf = z @ 0 # r" "0 \<notin> set z"
  shows "normalise buf (kernel_msg ss) = Ok (joined ss @ z @ 0 # r)"
proof -
  have t: "take 1024 (kernel_msg ss) = kernel_msg ss" "list_all (\<lambda>x. x \<noteq> [] \<and> 0 \<notin> set x) ss" using assms(1) by (simp_all add: strings_ok_def)
  have j: "join_loop (kernel_msg ss @ z @ 0 # r) 0 (length (kernel_msg ss)) = Ok (joined ss @ z @ 110 # r, length (kernel_msg ss @ z))"
    using join_message [OF t(2) _ assms(4), of "[]" "[]" r] assms(2) by simp
  have "(joined ss @ z @ 110 # r)[length (kernel_msg ss @ z) := 0] = joined ss @ z @ 0 # r"
    by (simp add: list_update_append length_joined)
  then show ?thesis using j assms(3) t(1) by (simp add: normalise_def Let_def length_joined)
qed

text \<open>
  The buffer holds a text and nothing behind it. After a message, it holds the strings of the message and what is left of the older text behind
  them.
\<close>

definition holds_text :: "cstr \<Rightarrow> cstr \<Rightarrow> bool" where
  "holds_text buf t \<longleftrightarrow> buf = t @ replicate (1024 - length t) 0 \<and> length t < 1024 \<and> 0 \<notin> set t"

definition next_text :: "cstr list \<Rightarrow> cstr \<Rightarrow> cstr" where
  "next_text ss t = joined ss @ drop (length (kernel_msg ss)) t"

lemma turn_step:
  assumes "strings_ok ss" "ss \<noteq> []" "holds_text buf t"
  shows "\<exists>buf'. usb_turn (kernel_msg ss) (buf, x) = bind_outcome (handle_text (next_text ss t) x) (\<lambda>x1. Ok (buf', x1)) \<and> holds_text buf' (next_text ss t)"
proof -
  let ?k = "length (kernel_msg ss)" let ?n = "next_text ss t"
  have k: "?k < 1024" "list_all (\<lambda>x. x \<noteq> [] \<and> 0 \<notin> set x) ss" using assms(1) by (simp_all add: strings_ok_def)
  have t: "buf = t @ replicate (1024 - length t) 0" "length t < 1024" "0 \<notin> set t" using assms(3) by (simp_all add: holds_text_def)
  have l: "length ?n < 1024" "length ?n = ?k + length (drop ?k t)" using k(1) t(2) by (auto simp: next_text_def length_joined)
  have nz: "0 \<notin> set ?n" using joined_no_zero [OF k(2)] t(3) by (auto simp: next_text_def dest: in_set_dropD)
  have "drop ?k buf = drop ?k t @ replicate (1024 - length ?n) 0" using t(1, 2) by (simp add: l(2))
  also have "\<dots> = drop ?k t @ 0 # replicate (1023 - length ?n) 0" using l(1) by (simp flip: replicate_Suc add: Suc_diff_Suc)
  finally have d: "drop ?k buf = drop ?k t @ 0 # replicate (1023 - length ?n) 0" .
  let ?b = "joined ss @ drop ?k t @ 0 # replicate (1023 - length ?n) 0"
  have "normalise buf (kernel_msg ss) = Ok ?b" using old_text_stays [OF assms(1, 2) d] t(3) by (auto dest: in_set_dropD)
  moreover have b: "?b = ?n @ 0 # replicate (1023 - length ?n) 0" by (simp add: next_text_def)
  moreover have "takeWhile (\<lambda>c. c \<noteq> 0) (?n @ 0 # replicate (1023 - length ?n) 0) = ?n" using nz by (subst takeWhile_append2) auto
  moreover have "holds_text (?n @ 0 # replicate (1023 - length ?n) 0) ?n" using l(1) nz by (simp add: holds_text_def Suc_diff_Suc flip: replicate_Suc)
  ultimately show ?thesis by (auto simp: usb_turn_def)
qed

section \<open>Finding texts in a message\<close>

lemma has_text_sublist: "has_text t p \<longleftrightarrow> sublist p t"
  by (induction t p rule: has_text.induct) (auto simp: sublist_Cons_right prefix_def take_all_iff append_eq_conv_conj, metis append_take_drop_id)

lemma sublist_separated: "c \<notin> set p \<Longrightarrow> p \<noteq> [] \<Longrightarrow> sublist p (x @ c # y) \<longleftrightarrow> sublist p x \<or> sublist p y"
proof -
  assume c: "c \<notin> set p" "p \<noteq> []"
  have "ys = []" if "p = xs @ ys" "prefix ys (c # y)" for xs ys using that c(1) by (auto simp: prefix_Cons)
  then have "sublist p (x @ c # y) \<longleftrightarrow> sublist p x \<or> sublist p (c # y)" unfolding sublist_append by (metis append_Nil2 suffix_imp_sublist)
  moreover have "sublist p (c # y) \<longleftrightarrow> sublist p y" using c by (auto simp: sublist_Cons_right prefix_Cons)
  ultimately show "sublist p (x @ c # y) \<longleftrightarrow> sublist p x \<or> sublist p y" by simp
qed

lemma sublist_joined: "110 \<notin> set p \<Longrightarrow> p \<noteq> [] \<Longrightarrow> sublist p (joined ss @ z) \<longleftrightarrow> (\<exists>x \<in> set ss. sublist p x) \<or> sublist p z"
proof (induction ss)
  case (Cons x ss)
  have "joined (x # ss) @ z = x @ 110 # (joined ss @ z)" by (simp add: joined_def)
  then show ?case using Cons sublist_separated [of 110 p x "joined ss @ z"] by auto
qed (simp add: joined_def)

lemma sublist_mono: "sublist q p \<Longrightarrow> \<not> sublist q x \<Longrightarrow> \<not> sublist p x"
  using sublist_order.order_trans by blast

lemma not_sublist_missing: "c \<in> set p \<Longrightarrow> c \<notin> set x \<Longrightarrow> \<not> sublist p x"
  using set_mono_sublist by blast

section \<open>Events of the kernel\<close>

text \<open>
  The strings of an event: the action with the path of the device, the same again as two variables, and more variables. A device \<open>sda\<close>\<open>i\<close> has the path of
  its disk with its own name behind it.
\<close>

definition uevent :: "cstr \<Rightarrow> cstr \<Rightarrow> cstr list \<Rightarrow> cstr list" where
  "uevent act path props = [act @ 64 # path, codes ''ACTION='' @ act, codes ''DEVPATH='' @ path] @ props"

type_synonym usb_event = "usb_op \<times> cstr \<times> cstr list"

fun event_strings :: "usb_event \<Rightarrow> cstr list" where
  "event_strings (Plug i l, dir, props) = uevent (codes ''add'') (dir @ sda i) props"
| "event_strings (Unplug i, dir, props) = uevent (codes ''remove'') (dir @ sda i) props"
| "event_strings (Other a, dir, props) = uevent a dir props"

text \<open>The number of bytes of the first three strings.\<close>

definition head_len :: "usb_event \<Rightarrow> nat" where
  "head_len e = length (kernel_msg (take 3 (event_strings e)))"

text \<open>
  An event that is well formed: its path has no equal sign and names no other partition than the one of the operation; the further variables are not called \<open>ACTION\<close> and have
  no device in them.
\<close>

definition silent :: "cstr \<Rightarrow> bool" where
  "silent x \<longleftrightarrow> \<not> sublist (codes ''ACTION='') x \<and> \<not> sublist (codes ''/sda'') x"

fun event_ok :: "usb_event \<Rightarrow> bool" where
  "event_ok (op, dir, props) \<longleftrightarrow> op_good op \<and> 61 \<notin> set dir \<and> list_all (\<lambda>i. \<not> sublist (sda i) dir) [1..<9] \<and> list_all silent props \<and>
     strings_ok (event_strings (op, dir, props))"

fun op_device :: "usb_op \<Rightarrow> nat option" where
  "op_device (Plug i l) = Some i"
| "op_device (Unplug i) = Some i"
| "op_device (Other a) = None"

lemma sda_digit: "1 \<le> i \<Longrightarrow> i \<le> 8 \<Longrightarrow> sda i = [47, 115, 100, 97, 48 + int i]"
  by (simp add: sda_def dec.simps [of i])

lemma sda_in_path:
  assumes "1 \<le> i" "i \<le> 8" "1 \<le> j" "j \<le> 8"
  shows "sublist (sda j) (dir @ sda i) \<longleftrightarrow> sublist (sda j) dir \<or> i = j"
proof -
  have "xs1 = [] \<or> xs2 = []" if "sda j = xs1 @ xs2" "prefix xs2 (sda i)" for xs1 xs2
  proof (rule ccontr)
    assume "\<not> (xs1 = [] \<or> xs2 = [])"
    then have "hd xs2 = 47" "hd xs2 \<in> set (tl (sda j))"
      using that assms by (auto simp: sda_digit prefix_Cons Cons_eq_append_conv) 
    then show False using assms by (simp add: sda_digit)
  qed
  moreover have "sublist (sda j) (sda i) \<longleftrightarrow> i = j" using assms by (auto simp: sda_digit sublist_Cons_right)
  ultimately show ?thesis unfolding sublist_append by (metis append_Nil append_Nil2 prefix_imp_sublist suffix_imp_sublist)
qed

lemma sda_in_uevent:
  assumes "1 \<le> j" "j \<le> 8" "47 \<notin> set act" "list_all silent props" "silent z"
  shows "sublist (sda j) (joined (uevent act path props) @ z) \<longleftrightarrow> sublist (sda j) path"
proof -
  have s: "sda j \<noteq> []" "110 \<notin> set (sda j)" "64 \<notin> set (sda j)" "61 \<notin> set (sda j)" using assms(1, 2) by (auto simp: sda_digit)
  have "sublist (codes ''/sda'') (sda j)" using assms(1, 2) by (simp add: sda_digit sublist_Cons_right)
  then have q: "\<not> sublist (sda j) x" if "silent x" for x using that sublist_mono by (auto simp: silent_def)
  have m: "\<not> sublist (sda j) x" if "47 \<notin> set x" for x using that assms(1, 2) by (intro not_sublist_missing [of 47]) (simp_all add: sda_digit)
  have "sublist (sda j) (act @ 64 # path) \<longleftrightarrow> sublist (sda j) path" using sublist_separated [OF s(3, 1)] m [OF assms(3)] by simp
  moreover have "\<not> sublist (sda j) (codes ''ACTION='' @ act)" using assms(3) by (intro m) simp
  moreover have "codes ''DEVPATH='' @ path = codes ''DEVPATH'' @ 61 # path" by simp
  then have "sublist (sda j) (codes ''DEVPATH='' @ path) \<longleftrightarrow> sublist (sda j) path"
    using sublist_separated [OF s(4, 1), of "codes ''DEVPATH''" path] m [of "codes ''DEVPATH''"] by simp
  ultimately show ?thesis
    using sublist_joined [OF s(2, 1)] q [OF assms(5)] q assms(4) by (auto simp: uevent_def list_all_iff simp del: codes_simps)
qed

text \<open>The variable \<open>ACTION\<close> in an event with the path of a device: it has the action of the event only.\<close>

lemma action_in_uevent:
  assumes "61 \<notin> set act" "61 \<notin> set path" "list_all silent props" "silent z" "p = codes ''ACTION='' @ a" "110 \<notin> set a"
  shows "sublist p (joined (uevent act path props) @ z) \<longleftrightarrow> sublist p (codes ''ACTION='' @ act)"
proof -
  have p: "110 \<notin> set p" "p \<noteq> []" "61 \<in> set p" using assms(5, 6) by auto
  have "sublist (codes ''ACTION='') p" using assms(5) by (simp add: sublist_append del: codes_simps)
  then have q: "\<not> sublist p x" if "silent x" for x using that sublist_mono by (auto simp: silent_def)
  have "\<not> sublist [78, 61] (codes ''DEVPATH='' @ path)" using not_sublist_missing [of 61 "[78, 61]" path] assms(2) by (simp add: sublist_Cons_right)
  moreover have "sublist [78, 61] p" unfolding assms(5) by (simp add: sublist_Cons_right)
  ultimately have d: "\<not> sublist p (codes ''DEVPATH='' @ path)" using sublist_mono by blast
  have "\<not> sublist p (act @ 64 # path)" using p(3) assms(1, 2) by (intro not_sublist_missing [of 61]) auto
  then show ?thesis using sublist_joined [OF p(1, 2)] d q assms(3, 4) by (auto simp: uevent_def list_all_iff simp del: codes_simps)
qed

lemma getDevPath_device: "(\<And>j. 1 \<le> j \<Longrightarrow> j \<le> 8 \<Longrightarrow> has_text t (sda j) \<longleftrightarrow> d = Some j) \<Longrightarrow> (\<And>i. d = Some i \<Longrightarrow> 1 \<le> i \<and> i \<le> 8) \<Longrightarrow> getDevPath t = map_option device d"
proof (cases d)
  case None
  assume "\<And>j. 1 \<le> j \<Longrightarrow> j \<le> 8 \<Longrightarrow> has_text t (sda j) \<longleftrightarrow> d = Some j"
  with None have "find (\<lambda>i. has_text t (sda i)) [1..<9] = None" by (simp add: find_None_iff)
  with None show ?thesis by (simp add: getDevPath_def)
next
  case (Some i)
  assume h: "\<And>j. 1 \<le> j \<Longrightarrow> j \<le> 8 \<Longrightarrow> has_text t (sda j) \<longleftrightarrow> d = Some j" and r: "\<And>i. d = Some i \<Longrightarrow> 1 \<le> i \<and> i \<le> 8"
  have i: "1 \<le> i" "i \<le> 8" using r Some by auto
  then have "find (\<lambda>i. has_text t (sda i)) [1..<9] = Some i"
    using h Some by (auto simp: find_Some_iff intro!: exI [of _ "i - 1"])
  with Some show ?thesis by (simp add: getDevPath_def)
qed

text \<open>What the program finds in the text of an event is the operation, whatever silent text is left behind it.\<close>

lemma event_found:
  assumes "event_ok (op, dir, props)" "silent z"
  shows "found_in op (joined (event_strings (op, dir, props)) @ z)"
proof -
  let ?t = "joined (event_strings (op, dir, props)) @ z"
  have ok: "op_good op" "61 \<notin> set dir" "list_all silent props" using assms(1) by simp_all
  have nd: "\<not> sublist (sda j) dir" if "1 \<le> j" "j \<le> 8" for j using assms(1) that by (auto simp: list_all_iff)
  have "has_text ?t (sda j) \<longleftrightarrow> op_device op = Some j" if j: "1 \<le> j" "j \<le> 8" for j
    using sda_in_uevent [OF j _ ok(3) assms(2)] sda_in_path [OF _ _ j] nd [OF j] ok(1) by (cases op) (simp_all add: has_text_sublist)
  moreover have "1 \<le> i \<and> i \<le> 8" if "op_device op = Some i" for i using ok(1) that by (cases op) auto
  ultimately have g: "getDevPath ?t = map_option device (op_device op)" by (rule getDevPath_device)
  have e: "61 \<notin> set (dir @ sda i)" if "1 \<le> i" "i \<le> 8" for i using ok(2) that by (auto simp: sda_digit)
  have a: "has_text (joined (uevent act (dir @ sda i) props) @ z) (codes ''ACTION='' @ b) \<longleftrightarrow> sublist (codes ''ACTION='' @ b) (codes ''ACTION='' @ act)"
    if "61 \<notin> set act" "1 \<le> i" "i \<le> 8" "110 \<notin> set b" for act b i
    unfolding has_text_sublist by (rule action_in_uevent [OF that(1) e [OF that(2, 3)] ok(3) assms(2) refl that(4)])
  note a = a [of "codes ''add''" _ "codes ''add''"] a [of "codes ''add''" _ "codes ''remove''"] a [of "codes ''remove''" _ "codes ''add''"] a [of "codes ''remove''" _ "codes ''remove''"]
  show ?thesis using g a ok(1) by (cases op) (simp_all add: sublist_Cons_right)
qed

section \<open>Runs\<close>

fun run_ready :: "usb_op list \<Rightarrow> usb_sys \<Rightarrow> bool" where
  "run_ready [] w \<longleftrightarrow> True"
| "run_ready (op # ops) w \<longleftrightarrow> op_good op \<and> op_ready op w \<and> run_ready ops (after_op op w)"

fun spec_run :: "usb_op list \<Rightarrow> (nat \<Rightarrow> cstr option) \<times> cstr \<Rightarrow> (nat \<Rightarrow> cstr option) \<times> cstr" where
  "spec_run [] x = x"
| "spec_run (op # ops) x = spec_run ops (spec_step op x)"

fun run_calls :: "usb_op list \<Rightarrow> (nat \<Rightarrow> cstr option) \<times> cstr \<Rightarrow> usb_call list" where
  "run_calls [] x = []"
| "run_calls (op # ops) x = spec_calls op x @ run_calls ops (spec_step op x)"

text \<open>Each message is at least as long as the first three strings of the one before it.\<close>

fun heads_fit :: "nat \<Rightarrow> usb_event list \<Rightarrow> bool" where
  "heads_fit n [] \<longleftrightarrow> True"
| "heads_fit n (e # es) \<longleftrightarrow> n \<le> length (kernel_msg (event_strings e)) \<and> heads_fit (head_len e) es"

lemma silent_rest:
  assumes "event_ok e" "silent (drop n t)" "n \<le> length (kernel_msg (event_strings e))"
  shows "silent (drop (length (kernel_msg (event_strings e))) t)" "silent (drop (head_len e) (next_text (event_strings e) t))"
proof -
  obtain op dir props where e: "e = (op, dir, props)" by (cases e)
  let ?k = "length (kernel_msg (event_strings e))"
  have "suffix (drop ?k t) (drop n t)" using assms(3) by (metis drop_drop le_add_diff_inverse2 suffix_drop)
  then have "sublist (drop ?k t) (drop n t)" by (rule suffix_imp_sublist)
  then show k: "silent (drop ?k t)" using assms(2) sublist_order.order_trans unfolding silent_def by blast
  obtain act path where u: "event_strings e = uevent act path props" using e by (cases op) auto
  let ?h = "take 3 (event_strings e)"
  have "event_strings e = ?h @ props" unfolding u by (simp add: uevent_def)
  then have "joined (event_strings e) = joined ?h @ joined props" by (metis joined_def concat_append map_append)
  moreover have "length (joined ?h) = head_len e" by (simp add: head_len_def length_joined)
  ultimately have "drop (head_len e) (next_text (event_strings e) t) = joined props @ drop ?k t" by (simp add: next_text_def)
  moreover have "list_all silent props" using assms(1) e by simp
  ultimately show "silent (drop (head_len e) (next_text (event_strings e) t))"
    using k sublist_joined [of "codes ''ACTION=''" props] sublist_joined [of "codes ''/sda''" props] by (auto simp: silent_def list_all_iff)
qed

lemma op_ready_calls [simp]: "op_ready op (w\<lparr>u_calls := c\<rparr>) = op_ready op w" "after_op op (w\<lparr>u_calls := c\<rparr>) = (after_op op w)\<lparr>u_calls := c\<rparr>"
  by (cases op, simp_all)+

lemma run_ready_calls [simp]: "run_ready ops (w\<lparr>u_calls := c\<rparr>) = run_ready ops w"
  by (induction ops arbitrary: w) (simp_all del: after_op.simps op_ready.simps)

lemma turns_refine:
  "list_all event_ok es \<Longrightarrow> heads_fit n es \<Longrightarrow> run_ready (map fst es) w \<Longrightarrow> represents s m \<Longrightarrow> holds_text buf t \<Longrightarrow> silent (drop n t) \<Longrightarrow>
   \<exists>buf' ev' s' w'. usb_turns (map (\<lambda>e. kernel_msg (event_strings e)) es) (buf, ev, s, w) = Ok (buf', ev', s', w') \<and>
     represents s' (fst (spec_run (map fst es) (m, ev_path ev))) \<and> u_calls w' = u_calls w @ run_calls (map fst es) (m, ev_path ev)"
proof (induction es arbitrary: n w s m buf t ev)
  case Nil
  then show ?case by auto
next
  case (Cons e es)
  obtain op dir props where e: "e = (op, dir, props)" by (cases e)
  let ?ss = "event_strings e"
  have ok: "event_ok e" "n \<le> length (kernel_msg ?ss)" "heads_fit (head_len e) es" using Cons.prems(1, 2) by simp_all
  have so: "strings_ok ?ss" "?ss \<noteq> []" using ok(1) e by (cases op; simp add: uevent_def)+
  note q = silent_rest [OF ok(1) Cons.prems(6) ok(2)]
  have r: "op_good op" "op_ready op w" "run_ready (map fst es) (after_op op w)" using Cons.prems(3) e by simp_all
  have f: "found_in op (next_text ?ss t)" using event_found [OF ok(1) [unfolded e], of "drop (length (kernel_msg ?ss)) t"] q(1) by (simp add: next_text_def e)
  obtain ev1 s1 where h: "handle_text (next_text ?ss t) (ev, s, w) = Ok (ev1, s1, (after_op op w)\<lparr>u_calls := u_calls w @ spec_calls op (m, ev_path ev)\<rparr>)"
      "represents s1 (fst (spec_step op (m, ev_path ev)))" "ev_path ev1 = snd (spec_step op (m, ev_path ev))"
    using handle_step [OF f r(1, 2) Cons.prems(4)] by blast
  obtain buf1 where b: "usb_turn (kernel_msg ?ss) (buf, ev, s, w) = Ok (buf1, ev1, s1, (after_op op w)\<lparr>u_calls := u_calls w @ spec_calls op (m, ev_path ev)\<rparr>)"
      "holds_text buf1 (next_text ?ss t)"
    using turn_step [OF so Cons.prems(5), of "(ev, s, w)"] h(1) by auto
  have rr: "run_ready (map fst es) ((after_op op w)\<lparr>u_calls := u_calls w @ spec_calls op (m, ev_path ev)\<rparr>)" using r(3) by simp
  have x: "(fst (spec_step op (m, ev_path ev)), ev_path ev1) = spec_step op (m, ev_path ev)" using h(3) by simp
  have "\<exists>buf' ev' s' w'. usb_turns (map (\<lambda>e. kernel_msg (event_strings e)) es) (buf1, ev1, s1, (after_op op w)\<lparr>u_calls := u_calls w @ spec_calls op (m, ev_path ev)\<rparr>) =
      Ok (buf', ev', s', w') \<and> represents s' (fst (spec_run (map fst es) (spec_step op (m, ev_path ev)))) \<and>
      u_calls w' = (u_calls w @ spec_calls op (m, ev_path ev)) @ run_calls (map fst es) (spec_step op (m, ev_path ev))"
    using Cons.IH [OF _ ok(3) rr h(2) b(2) q(2), of ev1] Cons.prems(1) unfolding x by simp
  then show ?case using b(1) e by auto
qed

section \<open>Limits\<close>

text \<open>A partition with two digits is taken for the first one.\<close>

lemma getDevPath_first: "has_text t (sda 1) \<Longrightarrow> getDevPath t = Some (device 1)"
proof -
  have "[1..<9] = 1 # [Suc 1..<9]" by (simp add: upt_conv_Cons)
  then show "has_text t (sda 1) \<Longrightarrow> getDevPath t = Some (device 1)" by (simp add: getDevPath_def)
qed

lemma partition_ten: "getDevPath (codes ''add@/block/sda/sda10'') = Some (device 1)"
  by (rule getDevPath_first) (simp add: sda_def dec.simps)

text \<open>A device without a label ends the program: the file is empty, and the byte before the buffer is written.\<close>

lemma empty_label_faults: "length (label_command dev) < 200 \<Longrightarrow> u_system w = r # rs \<Longrightarrow> u_labels w = LabelText [] # ls \<Longrightarrow> get_label dev n s w = Fault"
  by (simp add: get_label_def run_system_def)

text \<open>A directory that exists is not recorded, so that it is not removed later.\<close>

lemma existing_directory: "u_dirs w = -1 # ds \<Longrightarrow> dev \<noteq> [] \<Longrightarrow> make_dir dev dst s w = Ok (-1, s, w\<lparr>u_dirs := ds, u_calls := u_calls w @ [Mkdir dst]\<rparr>)"
  by (simp add: make_dir_def dir_call_def)

text \<open>
  A message that is shorter keeps the end of the older text: a short event of another disk after the removal of \<open>sda1\<close> ends in the strings of the removal, and is
  taken for another one.
\<close>

lemma old_event_repeated:
  "next_text [codes ''add@/sdb''] (joined [codes ''remove@/sda/sda1'', codes ''ACTION=remove'']) = codes ''add@/sdbnda/sda1nACTION=removen''"
  by (simp add: next_text_def joined_def kernel_msg_def)

section \<open>Properties\<close>

text \<open>
  C12: the watcher follows the devices. Events of the kernel arrive in the form it gives them: devices \<open>sda1\<close> to \<open>sda8\<close> plugged in and out in any order, and any
  other events between them that name no such device. Each message may be shorter than the one before it, but has at least as many bytes as the first three strings of
  that one, and the labels can be read, the directories made and the reports delivered. Then the table of the program refines the map from devices to
  directories, and the program makes exactly the calls of the specification: it reads the label, makes the directory, mounts the
  device and reports it, or unmounts it, removes the directory it was given, and reports the removal, with the path of the last device that was plugged in.
\<close>

theorem mounts_follow_events:
  assumes "list_all event_ok es" "heads_fit 0 es" "run_ready (map fst es) w" "represents s m"
  shows "\<exists>buf' ev' s' w'. usb_turns (map (\<lambda>e. kernel_msg (event_strings e)) es) (replicate 1024 0, ev, s, w) = Ok (buf', ev', s', w') \<and>
     represents s' (fst (spec_run (map fst es) (m, ev_path ev))) \<and> u_calls w' = u_calls w @ run_calls (map fst es) (m, ev_path ev)"
  by (rule turns_refine [OF assms, where t = "[]"]) (simp_all add: holds_text_def silent_def)

definition demo_usb :: usb_sys where
  "demo_usb = \<lparr>u_system = [0, 0, 0, 0, 0], u_dirs = [0, 0, 0], u_labels = [LabelText (codes ''KING'' @ [10]), LabelText (codes ''DISK'' @ [10])], u_reports = [True, True, True], u_calls = []\<rparr>"

text \<open>The disk appears, its first partition is plugged in and out, and then the second one is plugged in, with a message shorter than the one before.\<close>

definition demo_events :: "usb_event list" where
  "demo_events = [(Other (codes ''add''), codes ''/block/sda'', []), (Plug 1 (codes ''KING''), codes ''/block/sda'', [codes ''SEQNUM=701'']),
     (Unplug 1, codes ''/block/sda'', [codes ''SEQNUM=702'']), (Plug 2 (codes ''DISK''), codes ''/block/sda'', [codes ''SEQNUM=703''])]"

lemma demo_events_ok: "list_all event_ok demo_events" "heads_fit 0 demo_events"
proof -
  have d: "list_all (\<lambda>i. \<not> sublist (sda i) (codes ''/block/sda'')) [1..<9]"
    unfolding list_all_iff by (auto simp: sda_digit sublist_Cons_right)
  have t: "sda 1 = [47, 115, 100, 97, 49]" "sda (Suc 0) = [47, 115, 100, 97, 49]" "sda 2 = [47, 115, 100, 97, 50]" using sda_digit [of 1] sda_digit [of 2] by simp_all
  show "list_all event_ok demo_events"
    using d by (simp add: demo_events_def uevent_def strings_ok_def kernel_msg_def label_good_def silent_def t sublist_Cons_right)
  show "heads_fit 0 demo_events" by (simp add: demo_events_def uevent_def kernel_msg_def head_len_def t)
qed

theorem mounts_follow_events_witness:
  "\<exists>buf' ev' s' w'. usb_turns (map (\<lambda>e. kernel_msg (event_strings e)) demo_events) (replicate 1024 0, \<lparr>ev_kind = 0, ev_path = []\<rparr>, \<lparr>dstPathTable = replicate 8 [], noLabel = 0\<rparr>, demo_usb) = Ok (buf', ev', s', w') \<and>
     represents s' [2 \<mapsto> usb_dir (codes ''DISK'')] \<and>
     u_calls w' = [System (label_command (device 1)), Mkdir (usb_dir (codes ''KING'')), System (mount_command (device 1) (usb_dir (codes ''KING''))),
       Report \<lparr>ev_kind = ADD_EVENT, ev_path = usb_dir (codes ''KING'')\<rparr>, System (umount_command (device 1)), Rmdir (usb_dir (codes ''KING'')),
       Report \<lparr>ev_kind = REMOVE_EVENT, ev_path = usb_dir (codes ''KING'')\<rparr>, System (label_command (device 2)), Mkdir (usb_dir (codes ''DISK'')),
       System (mount_command (device 2) (usb_dir (codes ''DISK''))), Report \<lparr>ev_kind = ADD_EVENT, ev_path = usb_dir (codes ''DISK'')\<rparr>]"
proof -
  have o: "map fst demo_events = [Other (codes ''add''), Plug 1 (codes ''KING''), Unplug 1, Plug 2 (codes ''DISK'')]" by (simp add: demo_events_def)
  have r: "run_ready (map fst demo_events) demo_usb" unfolding o by (simp add: demo_usb_def label_good_def)
  have t: "represents \<lparr>dstPathTable = replicate 8 [], noLabel = 0\<rparr> (\<lambda>i. None)" by (auto simp: represents_def)
  have u: "(\<lambda>i. None)(1 \<mapsto> x, 1 := None, 2 \<mapsto> y) = [2 \<mapsto> y]" for x y :: cstr by auto
  from mounts_follow_events [OF demo_events_ok r t, of "\<lparr>ev_kind = 0, ev_path = []\<rparr>"] show ?thesis
    unfolding o by (auto simp: demo_usb_def u simp del: codes_simps)
qed

end
