(* ===== verification/Spec2Isabelle.thy ===== *)
theory Spec2Isabelle
  imports Lease_File Dns_Client Dhcp_Client Md5_Code Encrypt_C8 Ip_Text Cpu_Card Net_Ping Platform_Run Net_Setup Face_Reader Dns_Rfc Usb_Watch
begin

text \<open>
  A verification library for the C programs of the repository.

  The repository collects small programs and tools of an embedded Linux project. This library models the ones with
  logic of their own, and proves what they do.

  \<^bold>\<open>The parts and their theories.\<close>
  \<^item> The DHCP lease file (base/cl_parse.c, cl_parse.h), a parser cut out of the ISC client. \<^verbatim>\<open>Lease_Tokens\<close> has the keyword switch
    \<^verbatim>\<open>intern\<close> and the token numbers; \<^verbatim>\<open>Lease_Lexer\<close> the state \<^verbatim>\<open>struct parse\<close>, reading characters through a buffer, the scanners, and one
    token of lookahead; \<^verbatim>\<open>Lease_Stream\<close> the view of the lexer as a function of the file's text; \<^verbatim>\<open>Lease_Values\<close> error recovery, numbers,
    addresses and dates; \<^verbatim>\<open>Lease_Client\<close> lease declarations, lease statements, and entering a lease into a client; \<^verbatim>\<open>Lease_File\<close> whole files.
  \<^item> The DNS client (tools/network/dns_client). \<^verbatim>\<open>Dns_Packet\<close> is dnsService.c: building a request, reading names with compression
    pointers, parsing a response. \<^verbatim>\<open>Dns_Client\<close> is dns.c and the exchange of packets: resolving, the cache of five names, and the choice of the
    server. \<^verbatim>\<open>Dns_Rfc\<close> is the stand-alone client (base/test_rfc_dns.c), which shares the packets and has its own tries and timeouts.
  \<^item> The DHCP client (tools/dhcp_client/dhcp.c, dhcp.h). \<^verbatim>\<open>Dhcp_Packet\<close> has the structures, the builders of options and packets, and the
    walks over received options; \<^verbatim>\<open>Dhcp_Client\<close> opening, sending with retries, waiting for the answer, and the two exchanges that obtain
    a lease.
  \<^item> MD5 (tools/md5). \<^verbatim>\<open>Md5\<close> is md5.c with RFC 1321 beside it; \<^verbatim>\<open>Md5_Code\<close> is md5encode.c, the codes of data and of files.
  \<^item> File encryption (base/encrypt.c and base/test_encrypt_c8.c). \<^verbatim>\<open>Encrypt\<close> has Base64 decoding, the keys, reading and writing, and the
    decryption of a file; \<^verbatim>\<open>Encrypt_C8\<close> Base64 encoding and the encryption of a file.
  \<^item> Checks of address texts (base/test_isIp.c, base/test_isValidIpV4.c) in \<^verbatim>\<open>Ip_Text\<close>.
  \<^item> The settings of serial ports in \<^verbatim>\<open>Serial_Port\<close>, and the two programs that use them: the card reader (base/test_cpucard.c) in \<^verbatim>\<open>Cpu_Card\<close>,
    with frames, their marks, and the answers; and the face reader (base/test_rs232.c) in \<^verbatim>\<open>Face_Reader\<close>, with its packets, the search for
    responses, the commands that send and read files, and the dispatcher.
  \<^item> The watcher for USB sticks (base/linux_netlink_for_udisk_2.c) in \<^verbatim>\<open>Usb_Watch\<close>: messages of the kernel, labels, mount points, reports.
  \<^item> The network settings (base/test_setnet.c). \<^verbatim>\<open>Net_Route\<close> reads the kernel's table of routes, to delete the default routes or to find one;
    \<^verbatim>\<open>Net_Setup\<close> reads and changes the settings of an interface, through requests to the system and configuration files.
  \<^item> The ping (base/net_ping.c) in \<^verbatim>\<open>Net_Ping\<close>: the checksum, echo requests and answers.
  \<^item> The platform client (tools/network/http_client_cjson). \<^verbatim>\<open>Http_Text\<close> is the part of http_client.c that works on texts: URLs, heads of
    responses, options; \<^verbatim>\<open>Http_Client\<close> its transfers over sockets. \<^verbatim>\<open>Cjson\<close> is cJSON.c, \<^verbatim>\<open>Cjson_Text\<close> the texts it prints and parses. \<^verbatim>\<open>Platform\<close>
    is platform.c and platform_json.c: the answers of the platform, requests, downloads, photos and the loop of \<^verbatim>\<open>main\<close>; \<^verbatim>\<open>Platform_Run\<close> what its
    runs do. Here the parts call each other: the platform passes a callback to the HTTP client, which gives it the body of the response,
    which it parses with cJSON.

  \<^verbatim>\<open>Prelude\<close> and \<^verbatim>\<open>Memory\<close> hold what they share: characters and the functions of ctype.h and stdlib.h, decimal texts, byte order, narrow
  integers, buffers and outcomes. The other programs are separate; they meet in the texts of addresses, and the theorems at the end of this
  theory are about that.

  \<^bold>\<open>How code is modelled.\<close> A function of the source is a definition of the same name, with its state passed and returned; a loop
  is a recursive function, named after it. Structures are records. Code that goes through unchecked pointers returns an \<open>outcome\<close>: a value,
  \<open>Fault\<close> where it leaves the memory it may touch or the standard leaves it undefined, or \<open>NoFuel\<close> where a script or a bound ends first; the
  lease parser has a flag \<^verbatim>\<open>ub\<close> for this instead. Words keep their width where it matters. Calls of the system (\<open>read\<close>, \<open>write\<close>, \<open>select\<close>,
  \<open>sendto\<close>, \<open>recvfrom\<close>, \<open>malloc\<close>, \<open>stat\<close>) are scripts: lists of results the model takes one by one, so that a theorem speaks about every
  behaviour of the system. What the sources only declare (\<open>isIP\<close> in dns.c, the configuration, \<open>rand\<close>, the process id) is an argument. Tracing output
  is left out, except for \<^verbatim>\<open>print_hex\<close> of the card reader, whose loop may not end; where printing itself reads outside of an array, the theory says so.

  \<^bold>\<open>Bounds.\<close> The lexer and the parsers are total: every token makes the measure of unread characters smaller, which is proved through the
  locales \<^verbatim>\<open>scan_relation\<close>, \<^verbatim>\<open>token_reader\<close> and \<^verbatim>\<open>parse_relation\<close>. Names in DNS packets have an argument for the nesting of pointers, as
  the code follows them without a limit; a name in the form of RFC 1035 needs as many levels as its chain of pointers is long, and a pointer to itself needs more than
  any. Sending a DHCP packet needs at most eleven results of \<open>sendto\<close>. Waiting loops take as many events as the script has; the theorems say
  which scripts make them return. One update of MD5 is shorter than \<open>2 ^ 32 - 64\<close> bytes, as the loop's index wraps beyond that. Files
  to encrypt have at most \<open>2 ^ 28\<close> bytes, so that sizes fit an \<open>int\<close>. Reading from the card takes 100 turns, as in the code; 257 turns of
  \<^verbatim>\<open>print_hex\<close> are all that can differ, as its index has 8 bits. The response of a transfer has at most 10238 bytes in its buffer of 10240, as its texts are read up to two bytes behind their end. The lengths of JSON texts
  are not bounded in the model; in the code they are \<open>int\<close>.
  The JSON parser has the bound \<^verbatim>\<open>parse_fuel\<close> on its nesting, and \<^verbatim>\<open>Cjson_Text\<close> shows that no text reaches it. A transfer takes its time,
  its sockets and its pieces from scripts (\<^verbatim>\<open>io\<close>); \<^verbatim>\<open>network_fine\<close> says which scripts are those of a working network. The commands of the
  face reader take one result of \<open>select\<close> in every turn of their loops; \<^verbatim>\<open>turns_ahead\<close> and \<^verbatim>\<open>parts_ahead\<close> say which scripts are enough. Tables of
  routes have at most 1023 characters, the ones the code reads.

  \<^bold>\<open>What is proved.\<close>
  \<^item> Lease files: the keyword switch is a lookup in a table of 244 keywords; files of well-formed declarations are read back as their leases, for every division of the file into blocks; the token
    sequence does not depend on the blocks; strings, addresses and dates are read as what they denote, dates up to 2037 as in the Gregorian
    calendar; entering a lease keeps the client's leases distinct, loses none, destroys only those it should and refines an update of the set of leases.
  \<^item> DNS: requests and responses round trip, responses are only accepted after all checks, names with any chain of compression pointers are read as RFC 1035 means them, a name is resolved end to
    end, and the cache refines a map for the name entered last (locale \<^verbatim>\<open>name_cache\<close>). The stand-alone client resolves a name if one of its three tries is
    answered, and cuts texts of 15 characters.
  \<^item> DHCP: the options of packets are the encoding of the settings (locale \<^verbatim>\<open>option_builder\<close>), the parameters of server messages are read in any
    order (locale \<^verbatim>\<open>option_visitor\<close>), sending ends, waiting ends with the first answer to the own transaction or when the time is up and not before, a lease is obtained end to end, and a request
    never leaves the buffers.
  \<^item> MD5: for every division into pieces the digest is that of RFC 1321 (locale \<^verbatim>\<open>incremental_digest\<close>); the codes of data and of files agree.
  \<^item> Encryption: Base64 round trips with any line breaks; a file of at least five bytes with a NUL in it or behind it is encrypted and decrypted, to the same file exactly if no character is its own
    key; every other file is encrypted outside of the buffers.
  \<^item> Address texts: each check is characterised by the texts it accepts.
  \<^item> Card reader: an answer is understood whatever pieces it arrives in, unless its data have 0x10 before 0x03; a long answer to another command is
    printed without end.
  \<^item> Face reader: a response is found when it is complete and not before, in whatever pieces it arrives; a feature file is sent so that the device can
    put it together again; the picture of a comparison is stored; the data of a user never are.
  \<^item> Network settings: the loops over the table agree with a fold over its rows (locale \<^verbatim>\<open>row_loop\<close>, interpreted for both functions), the gateway
    found is the one of the first row that passes the test, a static configuration makes the requests it should, and what was set is read
    back from the files.
  \<^item> USB sticks: for every sequence of kernel events, of the partitions 1 to 8 and of other devices, in which no message is shorter than the first three strings of
    the one before, the table of mount points refines a map, and the calls are the ones of the specification. What a shorter message leaves of the older one is shown too.
  \<^item> Ping: the checksum verifies, and the host is found to be up exactly if its answer is among the datagrams.
  \<^item> HTTP: URLs are read back; the search for a string finds its first occurrence; a POST over a working network sends the request and hands
    the body to the callback; a transfer over any network whose \<open>recv\<close> reports no errors stays within the memory of the session if the answer fits; downloads hand the stream on piece by piece
    (locale \<^verbatim>\<open>write_sink\<close>).
  \<^item> JSON: printed values are parsed back, in either layout, minifying one layout gives the other, and parsing ends on every text.
  \<^item> Platform: requests come in order in every run; what the callbacks keep, all transfers keep (locale \<^verbatim>\<open>kept_by_callback\<close>); an
    authentication takes the values of the answer; a download completes its file, anew or resumed; photos of less than 1431655680 bytes and the login text round trip.
  \<^item> Behaviour that was surely not meant is proved too, as theorems of the component: reads and writes outside buffers, endless pointers,
    lost tokens, truncated files, unanswered pings.

  \<^bold>\<open>Not modelled.\<close> Vendored libraries (jsoncpp, tinyXml, libjpeg, NMEA, wireless tools, wpa_cli, xlslib, and the older copy of cJSON), C++
  programs, device drivers and hardware tests, programs that only try out one library call, blocks under \<^verbatim>\<open>#if 0\<close>, and the functions
  \<^verbatim>\<open>main\<close> except those of the DHCP client, the platform client, the card reader, the face reader, the stand-alone DNS client and the watcher for USB sticks. Of cJSON the floating point numbers (a number is kept as it was read, its
  printed text is an argument), the growing print buffer, the allocation hooks and references; of the HTTP client \<^verbatim>\<open>http_create_head\<close>, which
  nothing calls.
\<close>

section \<open>Address texts across the components\<close>

text \<open>The characters of a text of bytes, as a plain \<^verbatim>\<open>char\<close> has them.\<close>

definition chars :: "byte list \<Rightarrow> int list" where
  "chars bs = map sint bs"

lemma sint_digit: "0 \<le> c \<Longrightarrow> c < 128 \<Longrightarrow> sint (of_int c :: byte) = c"
  by (simp add: signed_of_int signed_take_bit_int_eq_self)

lemma chars_dec_bytes: "chars (dec_bytes k) = dec k"
proof -
  have "sint (of_int c :: byte) = c" if "c \<in> set (dec k)" for c
    using that dec_digits [of k] by (intro sint_digit) (auto simp: list_all_iff ctype_simps)
  then have "map (\<lambda>c. sint (of_int c :: byte)) (dec k) = map (\<lambda>c. c) (dec k)" by (intro map_cong) auto
  then show ?thesis by (simp add: chars_def dec_bytes_def comp_def)
qed

lemma mem32_nat: "map unat (mem32 ip) = [unat ip mod 256, unat ip div 2 ^ 8 mod 256, unat ip div 2 ^ 16 mod 256, unat ip div 2 ^ 24]"
proof -
  have lt: "unat ip < 2 ^ 32" using unsigned_less [of ip] by simp
  then have u: "unat (ucast (drop_bit k ip) :: byte) = unat ip div 2 ^ k mod 256" for k
    unfolding unsigned_ucast_eq unsigned_drop_bit_eq by (simp add: take_bit_eq_mod drop_bit_eq_div)
  from lt have "unat ip div 2 ^ 24 mod 256 = unat ip div 2 ^ 24" by simp
  with u [of 8] u [of 16] u [of 24] u [of 0] show ?thesis by (simp add: mem32_def)
qed

lemma format_ip_text: "chars (format_ip_address ip) = ip_text (unat ip)"
proof -
  have c: "chars (a @ b) = chars a @ chars b" "chars [46] = [46]" for a b by (simp_all add: chars_def sint_digit)
  have n: "unat (mem32 ip ! k) = map unat (mem32 ip) ! k" if "k < 4" for k using that by simp
  show ?thesis unfolding format_ip_address_def Let_def c chars_dec_bytes
    by (simp add: n mem32_nat ip_text_def)
qed

lemma dhcp_ip_text: "DHClientGetIpString ip = format_ip_address (htonl ip)"
  unfolding DHClientGetIpString_def format_ip_address_def mem32_htonl Let_def by (simp add: rev_nth)

lemma isIP_format: "isIP (Some (chars (format_ip_address ip)))"
proof -
  have "unat ip < 2 ^ 32" using unsigned_less [of ip] by simp
  then show ?thesis unfolding format_ip_text by (rule isIP_ip_text)
qed

lemma dotted_quad_ip_text:
  "dotted_quad [n div 2 ^ 24, n div 2 ^ 16 mod 256, n div 2 ^ 8 mod 256, n mod 256] = ip_text n"
  by (simp add: dotted_quad_def ip_text_def sep_before_def)

lemma inet_addr_dhcp: "inet_addr (chars (DHClientGetIpString ip)) = ip"
proof -
  have "unat (htonl ip) < 2 ^ 32" using unsigned_less [of "htonl ip"] by simp
  then show ?thesis unfolding dhcp_ip_text format_ip_text by (simp add: inet_addr_text)
qed

text \<open>C7: Resolving with the check of addresses in place. With \<^verbatim>\<open>isIP\<close> as base/test_isIp.c has it, the resolver returns the text of the
  address a server sends for every well-formed name, whatever the address: the check never refuses one.\<close>

theorem dns_resolve_with_isIP:
  assumes "list_all label_ok ls" and "ls \<noteq> []" and "length (dotted ls) \<le> MAX_DOMAIN_LENGTH"
    and "length server \<le> MAX_DOMAIN_LENGTH" and "16 \<le> result_len" and "req_mem w" and "rsp_mem w"
    and "length (garbage w) = 256" and "nesting w = Suc f"
    and "network w server (map Some (request_bytes ls DNS_A_RECORD (rnd w mod 65535))) =
      answering (length (request_bytes ls DNS_A_RECORD (rnd w mod 65535)))
        (response_bytes ls (of_nat (rnd w mod 65535)) ttl ip) rest"
    and "is_ip w = (\<lambda>s. isIP (Some (chars s)))"
  shows "dns_resolve w (dotted ls) server result_len = Ok (Some (format_ip_address ip))"
  by (rule dns_resolve_answered [OF assms(1-10)]) (simp add: assms(11) isIP_format)

theorem dns_resolve_with_isIP_witness:
  "dns_resolve (sample_world\<lparr>is_ip := (\<lambda>s. isIP (Some (chars s)))\<rparr>) [97, 98, 46, 99] [56] 16 =
     Ok (Some (format_ip_address 0x7f000001))"
  using dns_resolve_with_isIP [of "[[97, 98], [99]]" "[56]" 16 "sample_world\<lparr>is_ip := (\<lambda>s. isIP (Some (chars s)))\<rparr>" 0 60 "0x7f000001" "[]"]
  by (simp add: sample_world_def label_ok_def)

text \<open>C26: The text of an address is understood everywhere. The text the DHCP client gives for an address from a packet is the one the
  resolver gives for it in host order; \<^verbatim>\<open>isIP\<close> accepts it; the HTTP client connects to that address; and the lease file parser reads it
  back as the four bytes of the address in the order of the network.\<close>

theorem address_text_understood:
  assumes "ready cf (ws @ chars (DHClientGetIpString ip) @ zs)" and "list_all isspace ws"
    and "zs = [] \<or> \<not> name_char (hd zs)" and "length (iabuf addr) = 16"
  shows "DHClientGetIpString ip = format_ip_address (htonl ip) \<and> isIP (Some (chars (DHClientGetIpString ip))) \<and>
    inet_addr (chars (DHClientGetIpString ip)) = ip \<and>
    (\<exists>cf'. parse_ip_addr cf addr = (1, \<lparr>len = 4, iabuf = mem32 ip @ drop 4 (iabuf addr)\<rparr>, cf') \<and> ready cf' zs \<and> ub cf' = ub cf)"
proof -
  let ?n = "unat (htonl ip)"
  let ?ns = "[?n div 2 ^ 24, ?n div 2 ^ 16 mod 256, ?n div 2 ^ 8 mod 256, ?n mod 256]"
  have t: "chars (DHClientGetIpString ip) = dotted_quad ?ns"
    unfolding dhcp_ip_text format_ip_text dotted_quad_ip_text ..
  have lt: "?n < 2 ^ 32" using unsigned_less [of "htonl ip"] by simp
  have bytes: "map of_nat ?ns = mem32 ip"
  proof -
    have "?ns = rev (map unat (mem32 (htonl ip)))" unfolding mem32_nat by simp
    also have "\<dots> = map unat (mem32 ip)" by (simp add: mem32_htonl rev_map)
    finally have ns: "?ns = map unat (mem32 ip)" .
    show ?thesis unfolding ns by (simp add: comp_def)
  qed
  have small: "length ?ns = 4" "\<forall>n \<in> set ?ns. n < 10 ^ 9" using lt by auto
  obtain cf' where "parse_ip_addr cf addr = (1, \<lparr>len = 4, iabuf = map of_nat ?ns @ drop 4 (iabuf addr)\<rparr>, cf')" "ready cf' zs" "ub cf' = ub cf"
    by (rule parse_ip_addr_quad [OF assms(1) [unfolded t] assms(2) small assms(3,4)])
  then show ?thesis unfolding bytes using dhcp_ip_text [of ip] isIP_format [of "htonl ip"] inet_addr_dhcp [of ip] by simp
qed

theorem address_text_understood_witness:
  "\<exists>cf'. parse_ip_addr (the (new_parse 3 None 0 [] 0 (map Some [chars (DHClientGetIpString 0x0F02000A) @ [59]]) []))
       \<lparr>len = 0, iabuf = replicate 16 0\<rparr> =
     (1, \<lparr>len = 4, iabuf = [10, 0, 2, 15] @ replicate 12 0\<rparr>, cf') \<and> ready cf' [59]"
proof -
  have m: "mem32 0x0F02000A = [10, 0, 2, 15]" by (simp add: mem32_def)
  have t: "chars (DHClientGetIpString 0x0F02000A) = [49, 48, 46, 48, 46, 50, 46, 49, 53]"
    by (simp add: DHClientGetIpString_def m dec_bytes_def dec.simps chars_def)
  have "ready (the (new_parse 3 None 0 [] 0 (map Some [chars (DHClientGetIpString 0x0F02000A) @ [59]]) []))
          ([] @ chars (DHClientGetIpString 0x0F02000A) @ [59])"
    using new_parse_ready [of 3 "[]" "[chars (DHClientGetIpString 0x0F02000A) @ [59]]" "[]"]
    by (simp add: new_parse_def malloc_def t)
  from address_text_understood [OF this, of "\<lparr>len = 0, iabuf = replicate 16 0\<rparr>"] show ?thesis
    unfolding m by (auto simp: name_char_def ctype_simps)
qed

end
